(* ===== verification/Prelude.thy ===== *)
theory Prelude
  imports
    Complex_Main
    "HOL-Library.Word"
    "HOL-Library.Char_ord"
    "HOL-Library.List_Lexorder"
    "HOL-Library.Monad_Syntax"
    "HOL-Library.Sublist"
    "HOL-Library.Code_Target_Nat"
begin

text \<open>
  The parts of Rust's core and standard library that the connectors share, as executable
  definitions, with the lemmas the component theories lean on.

  \<^item> Machine integers are words (\<open>u8\<close>, \<open>u16\<close>, \<open>u32\<close>, \<open>u64\<close>); lengths and
    offsets (\<open>usize\<close>) are \<^typ>\<open>nat\<close>.
  \<^item> A \<open>Vec<u8>\<close> or \<open>&[u8]\<close> is a list of \<open>u8\<close>. Slice access is \<open>slice_get\<close>
    and \<open>slice_range\<close>: \<open>None\<close> is what \<open>.get(..)\<close> returns out of range, and stands for
    the panic where the source indexes with brackets.
  \<^item> A Rust \<open>String\<close> is its UTF-8 bytes, one \<^typ>\<open>char\<close> each, so \<^const>\<open>length\<close> is
    \<open>str::len\<close> and the lexicographic order on \<^typ>\<open>string\<close> is Rust's \<open>Ord\<close>.
\<close>

unbundle bit_operations_syntax

section \<open>Types and collections of facts\<close>

type_synonym u8 = "8 word"
type_synonym u16 = "16 word"
type_synonym u32 = "32 word"
type_synonym u64 = "64 word"
type_synonym bytes = "u8 list"
type_synonym str = string

named_theorems rust_defs \<open>definitions of the standard-library operations\<close>
named_theorems slice_simps \<open>facts on slice access\<close>

section \<open>The \<open>?\<close> operator\<close>

text \<open>\<open>try_bind r f\<close> is \<open>f(r?)\<close> on a \<open>Result\<close>: the error returns at once.\<close>

definition try_bind :: "'e + 'a \<Rightarrow> ('a \<Rightarrow> 'e + 'b) \<Rightarrow> 'e + 'b" where
  "try_bind r f = (case r of Inl e \<Rightarrow> Inl e | Inr x \<Rightarrow> f x)"

definition ok_or :: "'e \<Rightarrow> 'a option \<Rightarrow> 'e + 'a" where
  "ok_or e r = (case r of None \<Rightarrow> Inl e | Some x \<Rightarrow> Inr x)"

lemma try_bind_simps [simp]: "try_bind (Inl e) f = Inl e" "try_bind (Inr x) f = f x"
  by (simp_all add: try_bind_def)

lemma try_bind_Inr_iff: "try_bind r f = Inr y \<longleftrightarrow> (\<exists>x. r = Inr x \<and> f x = Inr y)"
  by (auto simp: try_bind_def split: sum.splits)

lemma try_bind_Inl_iff: "try_bind r f = Inl e \<longleftrightarrow> r = Inl e \<or> (\<exists>x. r = Inr x \<and> f x = Inl e)"
  by (auto simp: try_bind_def split: sum.splits)

lemma ok_or_Inr_iff: "ok_or e r = Inr x \<longleftrightarrow> r = Some x"
  by (auto simp: ok_or_def split: option.splits)

lemma map_sum_Inr_iff: "map_sum f g r = Inr y \<longleftrightarrow> (\<exists>x. r = Inr x \<and> y = g x)"
  by (cases r) auto

text \<open>\<open>Option::filter\<close>.\<close>

definition filter_option :: "('a \<Rightarrow> bool) \<Rightarrow> 'a option \<Rightarrow> 'a option" where
  "filter_option P r = (case r of Some x \<Rightarrow> if P x then Some x else None | None \<Rightarrow> None)"

lemma filter_option_Some_iff: "filter_option P r = Some x \<longleftrightarrow> r = Some x \<and> P x"
  by (auto simp: filter_option_def split: option.splits)

section \<open>Slices\<close>

definition slice_get :: "'a list \<Rightarrow> nat \<Rightarrow> 'a option" where
  "slice_get xs i = (if i < length xs then Some (xs ! i) else None)"

definition slice_range :: "'a list \<Rightarrow> nat \<Rightarrow> nat \<Rightarrow> 'a list option" where
  "slice_range xs a b = (if a \<le> b \<and> b \<le> length xs then Some (take (b - a) (drop a xs)) else None)"

lemma slice_get_Some_iff [slice_simps]:
  "slice_get xs i = Some x \<longleftrightarrow> i < length xs \<and> x = xs ! i"
  by (auto simp: slice_get_def)

lemma slice_get_None_iff [slice_simps]: "slice_get xs i = None \<longleftrightarrow> length xs \<le> i"
  by (auto simp: slice_get_def)

lemma slice_get_inside [simp]: "i < length xs \<Longrightarrow> slice_get xs i = Some (xs ! i)"
  by (simp add: slice_get_def)

lemma slice_get_middle: "slice_get (pre @ x # ys) (length pre) = Some x"
  by (simp add: slice_get_def)

lemma slice_get_in_set: "slice_get xs i = Some x \<Longrightarrow> x \<in> set xs"
  by (auto simp: slice_simps)

lemma slice_range_Some_iff [slice_simps]:
  "slice_range xs a b = Some ys \<longleftrightarrow> a \<le> b \<and> b \<le> length xs \<and> ys = take (b - a) (drop a xs)"
  by (auto simp: slice_range_def)

lemma slice_range_None_iff [slice_simps]:
  "slice_range xs a b = None \<longleftrightarrow> b < a \<or> length xs < b"
  by (auto simp: slice_range_def)

lemma length_slice_range: "slice_range xs a b = Some ys \<Longrightarrow> length ys = b - a"
  by (auto simp: slice_simps)

text \<open>\<open>Iterator::position\<close>.\<close>

fun position :: "('a \<Rightarrow> bool) \<Rightarrow> 'a list \<Rightarrow> nat option" where
  "position P [] = None"
| "position P (x # xs) = (if P x then Some 0 else map_option Suc (position P xs))"

lemma position_eq: "x \<in> set xs \<Longrightarrow> \<exists>i. position (\<lambda>y. y = x) xs = Some i \<and> i < length xs \<and> xs ! i = x"
  by (induction xs) auto

lemma position_less: "position P xs = Some i \<Longrightarrow> i < length xs"
  by (induction xs arbitrary: i) (auto split: if_splits)

lemma position_Some_split:
  "position P xs = Some i \<Longrightarrow> \<exists>u x v. xs = u @ x # v \<and> length u = i \<and> P x \<and> (\<forall>y \<in> set u. \<not> P y)"
proof (induction xs arbitrary: i)
  case (Cons x xs)
  show ?case
  proof (cases "P x")
    case True
    with Cons.prems show ?thesis by (intro exI [of _ "[]"]) auto
  next
    case False
    with Cons.prems obtain j where j: "position P xs = Some j" "i = Suc j" by auto
    from Cons.IH [OF j(1)] obtain u y v where "xs = u @ y # v" "length u = j" "P y" "\<forall>y \<in> set u. \<not> P y"
      by blast
    with False j(2) show ?thesis by (intro exI [of _ "x # u"] exI [of _ y] exI [of _ v]) auto
  qed
qed simp

lemma position_None_iff: "position P xs = None \<longleftrightarrow> (\<forall>x \<in> set xs. \<not> P x)"
  by (induction xs) auto

lemma position_first: "P x \<Longrightarrow> \<forall>y \<in> set u. \<not> P y \<Longrightarrow> position P (u @ x # v) = Some (length u)"
  by (induction u) auto

lemma fold_plus: "fold (\<lambda>p s. s + f p) ps a = a + sum_list (map f ps)" for a :: "'a :: comm_monoid_add"
  by (induction ps arbitrary: a) (simp_all add: ac_simps)

lemma take_drop_update: "i < k \<or> k + n \<le> i \<Longrightarrow> take n (drop k (xs[i := b])) = take n (drop k xs)"
  by (cases "i < k") (simp_all add: drop_update_cancel drop_update_swap take_update_cancel)

section \<open>Big-endian and little-endian integers\<close>

definition u16_from_be :: "u8 \<Rightarrow> u8 \<Rightarrow> u16" where
  "u16_from_be hi lo = (push_bit 8 (ucast hi)) OR ucast lo"

definition u16_from_le :: "u8 \<Rightarrow> u8 \<Rightarrow> u16" where
  "u16_from_le lo hi = u16_from_be hi lo"

definition u32_from_be :: "u8 \<Rightarrow> u8 \<Rightarrow> u8 \<Rightarrow> u8 \<Rightarrow> u32" where
  "u32_from_be a b c d =
     push_bit 24 (ucast a) OR push_bit 16 (ucast b) OR push_bit 8 (ucast c) OR ucast d"

definition u32_from_le :: "u8 \<Rightarrow> u8 \<Rightarrow> u8 \<Rightarrow> u8 \<Rightarrow> u32" where
  "u32_from_le a b c d = u32_from_be d c b a"

definition u32_to_be :: "u32 \<Rightarrow> bytes" where
  "u32_to_be w = [ucast (drop_bit 24 w), ucast (drop_bit 16 w), ucast (drop_bit 8 w), ucast w]"

lemma length_u32_to_be [simp]: "length (u32_to_be w) = 4"
  by (simp add: u32_to_be_def)

lemma u32_from_to_be:
  "u32_from_be (ucast (drop_bit 24 w)) (ucast (drop_bit 16 w)) (ucast (drop_bit 8 w)) (ucast w) = w"
proof (rule bit_word_eqI)
  fix n :: nat
  assume n: "n < LENGTH(32)"
  consider "n < 8" | "8 \<le> n" "n < 16" | "16 \<le> n" "n < 24" | "24 \<le> n" by linarith
  then show "bit (u32_from_be (ucast (drop_bit 24 w)) (ucast (drop_bit 16 w))
      (ucast (drop_bit 8 w)) (ucast w)) n = bit w n"
    using n
    by cases (auto simp: u32_from_be_def bit_or_iff bit_push_bit_iff bit_ucast_iff
        bit_drop_bit_eq)
qed

lemma bit_u8_high: "bit (x :: u8) n \<Longrightarrow> n < 8"
  using bit_imp_le_length [of x n] by simp
lemma u32_to_from_be: "u32_to_be (u32_from_be a b c d) = [a, b, c, d]"
proof -
  have "ucast (drop_bit 24 (u32_from_be a b c d)) = a"
    by (rule bit_word_eqI)
       (simp add: u32_from_be_def bit_or_iff bit_push_bit_iff bit_ucast_iff bit_drop_bit_eq;
        auto dest: bit_u8_high)
  moreover have "ucast (drop_bit 16 (u32_from_be a b c d)) = b"
    by (rule bit_word_eqI)
       (simp add: u32_from_be_def bit_or_iff bit_push_bit_iff bit_ucast_iff bit_drop_bit_eq;
        auto dest: bit_u8_high)
  moreover have "ucast (drop_bit 8 (u32_from_be a b c d)) = c"
    by (rule bit_word_eqI)
       (simp add: u32_from_be_def bit_or_iff bit_push_bit_iff bit_ucast_iff bit_drop_bit_eq;
        auto dest: bit_u8_high)
  moreover have "ucast (u32_from_be a b c d) = d"
    by (rule bit_word_eqI)
       (simp add: u32_from_be_def bit_or_iff bit_push_bit_iff bit_ucast_iff bit_drop_bit_eq;
        auto dest: bit_u8_high)
  ultimately show ?thesis by (simp add: u32_to_be_def)
qed

lemma unat_u16_from_be: "unat (u16_from_be hi lo) = 256 * unat hi + unat lo"
proof -
  have split: "push_bit 8 (ucast hi :: u16) OR ucast lo = push_bit 8 (ucast hi) + ucast lo"
    by (rule disjunctive_add [symmetric])
       (auto simp: bit_push_bit_iff bit_ucast_iff dest: bit_imp_le_length)
  have "unat hi < 256" "unat lo < 256"
    using unsigned_less [of hi, where ?'a = nat] unsigned_less [of lo, where ?'a = nat] by simp_all
  then have "unat (push_bit 8 (ucast hi) + ucast lo :: u16) = 256 * unat hi + unat lo"
    by (simp add: push_bit_eq_mult unat_word_ariths unsigned_ucast_eq take_bit_nat_eq_self)
  then show ?thesis
    by (simp only: u16_from_be_def split)
qed

lemma u16_from_be_inj: "u16_from_be a b = u16_from_be c d \<Longrightarrow> a = c \<and> b = d"
proof -
  assume "u16_from_be a b = u16_from_be c d"
  then have e: "256 * unat a + unat b = 256 * unat c + unat d" by (metis unat_u16_from_be)
  moreover have "unat b < 256" "unat d < 256"
    using unsigned_less [of b, where ?'a = nat] unsigned_less [of d, where ?'a = nat] by simp_all
  ultimately have "unat a = unat c" by linarith
  with e have "unat a = unat c" "unat b = unat d" by linarith+
  then show ?thesis using word_unat_eq_iff by blast
qed

lemma u16_from_to_be: "u16_from_be (ucast (drop_bit 8 w)) (ucast w) = w"
  by (rule bit_word_eqI) (auto simp: u16_from_be_def bit_or_iff bit_push_bit_iff bit_ucast_iff bit_drop_bit_eq)

lemma u32_from_be_inj: "u32_from_be a b c d = u32_from_be a' b' c' d' \<Longrightarrow> [a, b, c, d] = [a', b', c', d']"
  by (metis u32_to_from_be)

lemma ucast_u32_inj: "(ucast (b :: u8) :: u32) = ucast c \<Longrightarrow> b = c"
proof -
  have "unat (ucast x :: u32) = unat x" for x :: u8
    using unsigned_less [of x, where ?'a = nat] by (simp add: unsigned_ucast_eq take_bit_nat_eq_self)
  then show "ucast b = (ucast c :: u32) \<Longrightarrow> b = c" by (metis word_unat_eq_iff)
qed

lemma unat_of_nat_u8: "n \<le> 255 \<Longrightarrow> unat (of_nat n :: u8) = n"
  by (simp add: unsigned_of_nat take_bit_nat_eq_self)

lemma power_7_eq: "(2 :: nat) ^ 7 = 128"
  by simp

definition u64_from_be :: "bytes \<Rightarrow> u64" where
  "u64_from_be bs = fold (\<lambda>b w. push_bit 8 w OR ucast b) bs 0"

section \<open>Strings\<close>

definition as_bytes :: "str \<Rightarrow> bytes" where
  "as_bytes s = map of_char s"

definition str_of_bytes :: "bytes \<Rightarrow> str" where
  "str_of_bytes bs = map (\<lambda>b. char_of (uint b)) bs"

lemma length_as_bytes [simp]: "length (as_bytes s) = length s"
  by (simp add: as_bytes_def)

lemma uint_of_char: "uint (of_char c :: u8) = of_char c"
proof -
  have "uint (of_char c :: u8) = uint (word_of_int (of_char c) :: u8)"
    by (metis of_int_of_char of_int_eq_id id_apply word_of_int_eq_iff uint_word_of_int_eq
        word_of_int_uint)
  also have "\<dots> = of_char c mod 256"
    by (simp add: uint_word_of_int)
  finally show ?thesis by simp
qed

lemma char_of_uint_of_char: "char_of (uint (of_char c :: u8)) = c"
  by (simp add: uint_of_char)

lemma str_of_as_bytes [simp]: "str_of_bytes (as_bytes s) = s"
  by (simp add: str_of_bytes_def as_bytes_def comp_def char_of_uint_of_char)


lemma of_char_char_of_uint: "of_char (char_of (uint (b :: u8))) = b"
proof -
  have "(of_char (char_of (uint b)) :: int) = uint b"
    using uint_bounded [of b] uint_nonnegative [of b] by (simp add: of_char_of)
  then have "uint (of_char (char_of (uint b)) :: u8) = uint b" by (simp add: uint_of_char)
  then show ?thesis by (metis word_of_int_uint)
qed

lemma as_bytes_str_of_bytes [simp]: "as_bytes (str_of_bytes bs) = bs"
  by (simp add: as_bytes_def str_of_bytes_def comp_def of_char_char_of_uint)

lemma as_bytes_append [simp]: "as_bytes (s @ t) = as_bytes s @ as_bytes t"
  by (simp add: as_bytes_def)

lemma as_bytes_eq_iff [simp]: "as_bytes s = as_bytes t \<longleftrightarrow> s = t"
  by (metis str_of_as_bytes)

text \<open>\<open>str::from_utf8\<close>: the well-formed byte sequences of RFC 3629, as
  \<open>core::str::validations\<close> accepts them.\<close>

definition utf8_cont :: "u8 \<Rightarrow> bool" where
  "utf8_cont b \<longleftrightarrow> 0x80 \<le> b \<and> b \<le> 0xBF"

fun utf8_valid :: "bytes \<Rightarrow> bool" where
  "utf8_valid [] = True"
| "utf8_valid (a # bs) =
     (if a < 0x80 then utf8_valid bs
      else if 0xC2 \<le> a \<and> a \<le> 0xDF then
        (case bs of b # r \<Rightarrow> utf8_cont b \<and> utf8_valid r | _ \<Rightarrow> False)
      else if 0xE0 \<le> a \<and> a \<le> 0xEF then
        (case bs of b # c # r \<Rightarrow>
           (if a = 0xE0 then 0xA0 \<le> b \<and> b \<le> 0xBF
            else if a = 0xED then 0x80 \<le> b \<and> b \<le> 0x9F
            else utf8_cont b) \<and> utf8_cont c \<and> utf8_valid r
         | _ \<Rightarrow> False)
      else if 0xF0 \<le> a \<and> a \<le> 0xF4 then
        (case bs of b # c # d # r \<Rightarrow>
           (if a = 0xF0 then 0x90 \<le> b \<and> b \<le> 0xBF
            else if a = 0xF4 then 0x80 \<le> b \<and> b \<le> 0x8F
            else utf8_cont b) \<and> utf8_cont c \<and> utf8_cont d \<and> utf8_valid r
         | _ \<Rightarrow> False)
      else False)"

definition from_utf8 :: "bytes \<Rightarrow> str option" where
  "from_utf8 bs = (if utf8_valid bs then Some (str_of_bytes bs) else None)"

definition is_str :: "str \<Rightarrow> bool" where
  "is_str s \<longleftrightarrow> utf8_valid (as_bytes s)"

lemma from_utf8_as_bytes: "is_str s \<Longrightarrow> from_utf8 (as_bytes s) = Some s"
  by (simp add: from_utf8_def is_str_def)

lemma ascii_utf8_valid: "\<forall>b \<in> set bs. b < 0x80 \<Longrightarrow> utf8_valid bs"
  by (induction bs) auto

text \<open>\<open>String::from_utf8_lossy\<close>: every maximal broken piece of a sequence becomes one U+FFFD, as
  \<open>core::str::lossy\<close> cuts them. \<open>utf8_step\<close> tells whether a character starts here and how many bytes
  to take.\<close>

definition at_or_0 :: "bytes \<Rightarrow> nat \<Rightarrow> u8" where
  "at_or_0 bs i = (case slice_get bs i of Some b \<Rightarrow> b | None \<Rightarrow> 0)"

definition utf8_step :: "bytes \<Rightarrow> bool \<times> nat" where
  "utf8_step bs =
     (let a = at_or_0 bs 0; b = at_or_0 bs 1; c = at_or_0 bs 2; d = at_or_0 bs 3 in
      if a < 0x80 then (True, 1)
      else if 0xC2 \<le> a \<and> a \<le> 0xDF then if utf8_cont b then (True, 2) else (False, 1)
      else if 0xE0 \<le> a \<and> a \<le> 0xEF then
        if (if a = 0xE0 then 0xA0 \<le> b \<and> b \<le> 0xBF else if a = 0xED then 0x80 \<le> b \<and> b \<le> 0x9F else utf8_cont b)
        then if utf8_cont c then (True, 3) else (False, 2)
        else (False, 1)
      else if 0xF0 \<le> a \<and> a \<le> 0xF4 then
        if (if a = 0xF0 then 0x90 \<le> b \<and> b \<le> 0xBF else if a = 0xF4 then 0x80 \<le> b \<and> b \<le> 0x8F else utf8_cont b)
        then if utf8_cont c then if utf8_cont d then (True, 4) else (False, 3) else (False, 2)
        else (False, 1)
      else (False, 1))"

lemma utf8_step_pos: "0 < snd (utf8_step bs)"
  by (simp add: utf8_step_def Let_def)

function utf8_lossy :: "bytes \<Rightarrow> bytes" where
  "utf8_lossy bs =
     (if bs = [] then []
      else case utf8_step bs of (ok, n) \<Rightarrow> (if ok then take n bs else [0xEF, 0xBF, 0xBD]) @ utf8_lossy (drop n bs))"
  by pat_completeness auto
termination
proof (relation "measure length")
  fix bs ok n
  assume "bs \<noteq> []" "(ok, n) = utf8_step bs"
  with utf8_step_pos [of bs] have "0 < n" "0 < length bs" by (auto dest: sym)
  then show "(drop n bs, bs) \<in> measure length" by simp
qed simp

declare utf8_lossy.simps [simp del]

definition from_utf8_lossy :: "bytes \<Rightarrow> str" where
  "from_utf8_lossy bs = str_of_bytes (utf8_lossy bs)"

lemma utf8_lossy_ascii: "\<forall>b \<in> set bs. b < 0x80 \<Longrightarrow> utf8_lossy bs = bs"
proof (induction bs)
  case (Cons b bs)
  then have "utf8_step (b # bs) = (True, 1)" by (simp add: utf8_step_def at_or_0_def)
  with Cons show ?case by (simp add: utf8_lossy.simps [of "b # bs"])
qed (simp add: utf8_lossy.simps [of "[]"])

subsection \<open>Prefixes, suffixes, searching and splitting\<close>

definition starts_with :: "str \<Rightarrow> str \<Rightarrow> bool" where
  "starts_with s p \<longleftrightarrow> prefix p s"

definition ends_with :: "str \<Rightarrow> str \<Rightarrow> bool" where
  "ends_with s p \<longleftrightarrow> suffix p s"

definition strip_prefix :: "str \<Rightarrow> str \<Rightarrow> str option" where
  "strip_prefix s p = (if prefix p s then Some (drop (length p) s) else None)"

definition strip_suffix :: "str \<Rightarrow> str \<Rightarrow> str option" where
  "strip_suffix s p = (if suffix p s then Some (take (length s - length p) s) else None)"

lemma strip_prefix_Some_iff: "strip_prefix s p = Some r \<longleftrightarrow> s = p @ r"
  by (auto simp: strip_prefix_def prefix_def)

lemma strip_prefix_None_iff: "strip_prefix s p = None \<longleftrightarrow> (\<forall>r. s \<noteq> p @ r)"
  by (auto simp: strip_prefix_def prefix_def)

lemma strip_suffix_Some_iff: "strip_suffix s p = Some r \<longleftrightarrow> s = r @ p"
  by (auto simp: strip_suffix_def suffix_def)

text \<open>\<open>str::find\<close> and \<open>str::rfind\<close> of an ASCII character, as byte offsets.\<close>

fun find_char :: "char \<Rightarrow> str \<Rightarrow> nat option" where
  "find_char c [] = None"
| "find_char c (x # xs) = (if x = c then Some 0 else map_option Suc (find_char c xs))"

fun rfind_char :: "char \<Rightarrow> str \<Rightarrow> nat option" where
  "rfind_char c [] = None"
| "rfind_char c (x # xs) =
     (case rfind_char c xs of Some i \<Rightarrow> Some (Suc i) | None \<Rightarrow> if x = c then Some 0 else None)"

lemma find_char_Some: "find_char c s = Some i \<Longrightarrow> i < length s \<and> s ! i = c \<and> c \<notin> set (take i s)"
  by (induction s arbitrary: i) (auto split: if_splits)

lemma find_char_None_iff: "find_char c s = None \<longleftrightarrow> c \<notin> set s"
  by (induction s) auto

lemma find_char_Some_iff:
  "find_char c s = Some k \<longleftrightarrow> (\<exists>u v. s = u @ c # v \<and> c \<notin> set u \<and> k = length u)"
proof (induction s arbitrary: k)
  case (Cons x xs)
  show ?case
  proof (cases "x = c")
    case False
    then have "find_char c (x # xs) = Some k \<longleftrightarrow>
        (\<exists>u v. xs = u @ c # v \<and> c \<notin> set u \<and> k = Suc (length u))"
      using Cons.IH by auto
    also have "\<dots> \<longleftrightarrow> (\<exists>u v. x # xs = u @ c # v \<and> c \<notin> set u \<and> k = length u)"
      using False by (force simp: Cons_eq_append_conv)
    finally show ?thesis .
  qed (auto simp: Cons_eq_append_conv)
qed simp

lemma rfind_char_Some: "rfind_char c s = Some i \<Longrightarrow> i < length s \<and> s ! i = c \<and> c \<notin> set (drop (Suc i) s)"
proof (induction s arbitrary: i)
  case (Cons x xs)
  then show ?case
  proof (cases "rfind_char c xs")
    case None
    then have "c \<notin> set xs"
      by (induction xs) (auto split: option.splits if_splits)
    with Cons.prems None show ?thesis by (auto split: if_splits)
  qed (auto split: if_splits)
qed simp

text \<open>\<open>str::split\<close> on an ASCII character: always at least one piece.\<close>

fun split_char :: "char \<Rightarrow> str \<Rightarrow> str list" where
  "split_char c [] = [[]]"
| "split_char c (x # xs) =
     (if x = c then [] # split_char c xs
      else case split_char c xs of y # ys \<Rightarrow> (x # y) # ys | [] \<Rightarrow> [[x]])"

lemma split_char_not_Nil [simp]: "split_char c s \<noteq> []"
  by (induction s) (auto split: list.splits)

fun join :: "'a list \<Rightarrow> 'a list list \<Rightarrow> 'a list" where
  "join sep [] = []"
| "join sep [x] = x"
| "join sep (x # y # ys) = x @ sep @ join sep (y # ys)"

lemma join_split_char: "join [c] (split_char c s) = s"
proof (induction s)
  case (Cons x xs)
  obtain y ys where "split_char c xs = y # ys"
    by (cases "split_char c xs") auto
  with Cons show ?case by (cases ys) auto
qed simp

subsection \<open>White space and case\<close>

text \<open>The UTF-8 encodings of the characters with the Unicode \<open>White_Space\<close> property, which
  \<open>str::trim\<close> removes at both ends.\<close>

definition white_space :: "str list" where
  "white_space = map (map (\<lambda>n. char_of (n :: nat)))
     ([[9], [10], [11], [12], [13], [32], [0xC2, 0x85], [0xC2, 0xA0], [0xE1, 0x9A, 0x80]]
      @ map (\<lambda>n. [0xE2, 0x80, n]) [0x80, 0x81, 0x82, 0x83, 0x84, 0x85, 0x86, 0x87, 0x88, 0x89,
          0x8A, 0xA8, 0xA9, 0xAF]
      @ [[0xE2, 0x81, 0x9F], [0xE3, 0x80, 0x80]])"

lemma white_space_not_Nil: "w \<in> set white_space \<Longrightarrow> w \<noteq> []"
  by (auto simp: white_space_def)

lemma find_SomeD: "find P xs = Some x \<Longrightarrow> x \<in> set xs \<and> P x"
  by (auto simp: find_Some_iff)

function (sequential) trim_start :: "str \<Rightarrow> str" where
  "trim_start s = (case find (\<lambda>w. prefix w s) white_space of
      Some w \<Rightarrow> trim_start (drop (length w) s) | None \<Rightarrow> s)"
  by pat_completeness auto
termination
proof (relation "measure length")
  fix s w
  assume f: "find (\<lambda>w. prefix w s) white_space = Some w"
  then have "w \<noteq> []" "prefix w s"
    by (auto dest!: find_SomeD white_space_not_Nil)
  then show "(drop (length w) s, s) \<in> measure length"
    by (auto simp: prefix_def)
qed simp

function (sequential) trim_end :: "str \<Rightarrow> str" where
  "trim_end s = (case find (\<lambda>w. suffix w s) white_space of
      Some w \<Rightarrow> trim_end (take (length s - length w) s) | None \<Rightarrow> s)"
  by pat_completeness auto
termination
proof (relation "measure length")
  fix s w
  assume f: "find (\<lambda>w. suffix w s) white_space = Some w"
  then have "w \<noteq> []" "suffix w s"
    by (auto dest!: find_SomeD white_space_not_Nil)
  then show "(take (length s - length w) s, s) \<in> measure length"
    by (auto simp: suffix_def)
qed simp

declare trim_start.simps [simp del] trim_end.simps [simp del]

definition trim :: "str \<Rightarrow> str" where
  "trim s = trim_end (trim_start s)"

lemma set_trim_start: "set (trim_start s) \<subseteq> set s"
proof (induction s rule: trim_start.induct)
  case (1 s)
  then show ?case by (subst trim_start.simps) (auto split: option.split dest: in_set_dropD)
qed

lemma set_trim_end: "set (trim_end s) \<subseteq> set s"
proof (induction s rule: trim_end.induct)
  case (1 s)
  then show ?case by (subst trim_end.simps) (auto split: option.split dest: in_set_takeD)
qed

lemma set_trim: "set (trim s) \<subseteq> set s"
  using set_trim_start set_trim_end by (fastforce simp: trim_def)

definition trim_end_char :: "char \<Rightarrow> str \<Rightarrow> str" where
  "trim_end_char c s = rev (dropWhile (\<lambda>x. x = c) (rev s))"

definition is_upper :: "char \<Rightarrow> bool" where
  "is_upper c \<longleftrightarrow> (65::int) \<le> of_char c \<and> of_char c \<le> (90::int)"

definition is_lower :: "char \<Rightarrow> bool" where
  "is_lower c \<longleftrightarrow> (97::int) \<le> of_char c \<and> of_char c \<le> (122::int)"

definition is_digit :: "char \<Rightarrow> bool" where
  "is_digit c \<longleftrightarrow> (48::int) \<le> of_char c \<and> of_char c \<le> (57::int)"

definition is_alphanumeric :: "char \<Rightarrow> bool" where
  "is_alphanumeric c \<longleftrightarrow> is_upper c \<or> is_lower c \<or> is_digit c"

definition to_lower :: "char \<Rightarrow> char" where
  "to_lower c = (if is_upper c then char_of (of_char c + 32 :: int) else c)"

definition to_upper :: "char \<Rightarrow> char" where
  "to_upper c = (if is_lower c then char_of (of_char c - 32 :: int) else c)"

definition to_ascii_lowercase :: "str \<Rightarrow> str" where
  "to_ascii_lowercase = map to_lower"

definition to_ascii_uppercase :: "str \<Rightarrow> str" where
  "to_ascii_uppercase = map to_upper"

definition replace_chars :: "char list \<Rightarrow> char \<Rightarrow> str \<Rightarrow> str" where
  "replace_chars cs d = map (\<lambda>c. if c \<in> set cs then d else c)"

subsection \<open>Numbers in text\<close>

definition digit_char :: "int \<Rightarrow> char" where
  "digit_char d = char_of (if d < 10 then 48 + d else 87 + d)"

definition upper_digit_char :: "int \<Rightarrow> char" where
  "upper_digit_char d = char_of (if d < 10 then 48 + d else 55 + d)"

text \<open>The digits of \<open>n \<ge> 0\<close> in base \<open>r \<ge> 2\<close>, most significant first.\<close>

function (sequential) digits_of :: "int \<Rightarrow> int \<Rightarrow> int list" where
  "digits_of r n = (if n < r \<or> r < 2 then [n] else digits_of r (n div r) @ [n mod r])"
  by pat_completeness auto
termination
proof (relation "measure (\<lambda>(r, n). nat n)")
  fix r n :: int
  assume "\<not> (n < r \<or> r < 2)"
  then have "n div r < n" "0 \<le> n div r"
    by (simp_all add: int_div_less_self pos_imp_zdiv_nonneg_iff)
  then show "((r, n div r), (r, n)) \<in> measure (\<lambda>(r, n). nat n)" by simp
qed simp

declare digits_of.simps [simp del]

definition show_int :: "int \<Rightarrow> str" where
  "show_int n = (if n < 0 then CHR ''-'' # map digit_char (digits_of 10 (- n))
                 else map digit_char (digits_of 10 n))"

abbreviation show_nat :: "nat \<Rightarrow> str" where
  "show_nat n \<equiv> show_int (int n)"

definition pad_left :: "nat \<Rightarrow> char \<Rightarrow> str \<Rightarrow> str" where
  "pad_left n c s = replicate (n - length s) c @ s"

definition to_digit :: "int \<Rightarrow> char \<Rightarrow> int option" where
  "to_digit r c =
     (let v = (if is_digit c then of_char c - 48
               else if is_lower c then of_char c - 87
               else if is_upper c then of_char c - 55 else r)
      in if v < r then Some v else None)"

fun digits_val :: "int \<Rightarrow> int \<Rightarrow> str \<Rightarrow> int option" where
  "digits_val r acc [] = Some acc"
| "digits_val r acc (c # cs) =
     (case to_digit r c of None \<Rightarrow> None | Some d \<Rightarrow> digits_val r (acc * r + d) cs)"

text \<open>\<open>from_str_radix\<close> and \<open>parse\<close> of an unsigned type with maximum \<open>mx\<close>: an optional
  leading \<open>+\<close>, then one or more digits, and no overflow.\<close>

definition parse_uint :: "int \<Rightarrow> int \<Rightarrow> str \<Rightarrow> int option" where
  "parse_uint r mx s =
     (let ds = (case s of c # cs \<Rightarrow> if c = CHR ''+'' then cs else s | [] \<Rightarrow> [])
      in if ds = [] then None
         else case digits_val r 0 ds of
           None \<Rightarrow> None
         | Some v \<Rightarrow> if v \<le> mx then Some v else None)"

abbreviation parse_u8 :: "str \<Rightarrow> int option" where
  "parse_u8 \<equiv> parse_uint 10 255"

lemma digits_val_nonneg: "digits_val r acc s = Some v \<Longrightarrow> 0 \<le> acc \<Longrightarrow> 2 \<le> r \<Longrightarrow> 0 \<le> v"
proof (induction s arbitrary: acc)
  case (Cons c cs)
  then obtain d where d: "to_digit r c = Some d" "digits_val r (acc * r + d) cs = Some v"
    by (auto split: option.splits)
  then have "0 \<le> d"
    using Cons.prems
    by (auto simp: to_digit_def Let_def is_digit_def is_lower_def is_upper_def split: if_splits)
  with Cons d show ?case by simp
qed simp

lemma parse_uint_bounds: "parse_uint r mx s = Some v \<Longrightarrow> 2 \<le> r \<Longrightarrow> 0 \<le> v \<and> v \<le> mx"
  by (auto simp: parse_uint_def Let_def dest: digits_val_nonneg split: option.splits if_splits)

subsection \<open>Printing and reading back\<close>

lemma to_digit_digit_char:
  assumes "0 \<le> d" "d < r" "r \<le> 36"
  shows "to_digit r (digit_char d) = Some d"
proof (cases "d < 10")
  case True
  with assms have "(of_char (digit_char d) :: int) = 48 + d"
    by (simp add: digit_char_def of_char_of)
  with True assms show ?thesis by (simp add: to_digit_def is_digit_def)
next
  case False
  with assms have "(of_char (digit_char d) :: int) = 87 + d"
    by (simp add: digit_char_def of_char_of)
  with False assms show ?thesis by (simp add: to_digit_def is_digit_def is_lower_def)
qed

lemma digits_val_map:
  assumes "\<forall>d \<in> set ds. 0 \<le> d \<and> d < r" "r \<le> 36"
  shows "digits_val r acc (map digit_char ds) = Some (fold (\<lambda>d a. a * r + d) ds acc)"
  using assms(1)
proof (induction ds arbitrary: acc)
  case (Cons d ds)
  then have "to_digit r (digit_char d) = Some d" using assms(2) by (intro to_digit_digit_char) auto
  with Cons show ?case by simp
qed simp

lemma digits_of_value:
  assumes "0 \<le> n" "2 \<le> r"
  shows "digits_of r n \<noteq> [] \<and> (\<forall>d \<in> set (digits_of r n). 0 \<le> d \<and> d < r)
    \<and> fold (\<lambda>d a. a * r + d) (digits_of r n) 0 = n"
  using assms
proof (induction r n rule: digits_of.induct)
  case (1 r n)
  show ?case
  proof (cases "n < r \<or> r < 2")
    case True
    with "1.prems" show ?thesis by (simp add: digits_of.simps)
  next
    case False
    with "1.IH" [OF False] "1.prems" have "digits_of r (n div r) \<noteq> []"
        "\<forall>d \<in> set (digits_of r (n div r)). 0 \<le> d \<and> d < r"
        "fold (\<lambda>d a. a * r + d) (digits_of r (n div r)) 0 = n div r"
      by (auto simp: pos_imp_zdiv_nonneg_iff)
    with False "1.prems" show ?thesis by (simp add: digits_of.simps [of r n])
  qed
qed

lemma digit_char_not_plus: "0 \<le> d \<Longrightarrow> d < 36 \<Longrightarrow> digit_char d \<noteq> CHR ''+''"
proof
  assume d: "0 \<le> d" "d < 36" and "digit_char d = CHR ''+''"
  then have "to_digit 36 (CHR ''+'') = Some d" using to_digit_digit_char [of d 36] by simp
  then show False by (simp add: to_digit_def is_digit_def is_lower_def is_upper_def)
qed

lemma digits_val_zeros: "2 \<le> r \<Longrightarrow> digits_val r 0 (replicate k CHR ''0'' @ s) = digits_val r 0 s"
proof (induction k)
  case (Suc k)
  moreover have "to_digit r CHR ''0'' = Some 0" using Suc.prems by (simp add: to_digit_def is_digit_def)
  ultimately show ?case by simp
qed simp

lemma parse_uint_digits:
  assumes "0 \<le> n" "n \<le> mx" "2 \<le> r" "r \<le> 36"
  shows "parse_uint r mx (replicate k CHR ''0'' @ map digit_char (digits_of r n)) = Some n"
proof -
  let ?ds = "digits_of r n" and ?s = "replicate k CHR ''0'' @ map digit_char (digits_of r n)"
  have ds: "?ds \<noteq> []" "\<forall>d \<in> set ?ds. 0 \<le> d \<and> d < r" "fold (\<lambda>d a. a * r + d) ?ds 0 = n"
    using digits_of_value [OF assms(1,3)] by auto
  obtain d ds' where c: "?ds = d # ds'" using ds(1) by (cases ?ds) auto
  then have "digit_char d \<noteq> CHR ''+''" using ds(2) assms(4) by (intro digit_char_not_plus) auto
  then have sel: "(case ?s of x # xs \<Rightarrow> if x = CHR ''+'' then xs else ?s | [] \<Rightarrow> []) = ?s" "?s \<noteq> []"
    using c by (cases k; simp)+
  have "digits_val r 0 ?s = Some n"
    by (simp only: digits_val_zeros [OF assms(3)] digits_val_map [OF ds(2) assms(4)] ds(3))
  with assms(2) show ?thesis unfolding parse_uint_def Let_def sel(1) using sel(2) by simp
qed

lemma parse_uint_show: "0 \<le> n \<Longrightarrow> n \<le> mx \<Longrightarrow> parse_uint 10 mx (show_int n) = Some n"
  using parse_uint_digits [of n mx 10 0] by (simp add: show_int_def)

subsection \<open>Words of a text\<close>

text \<open>\<open>str::split_whitespace\<close>.\<close>

definition starts_white :: "str \<Rightarrow> bool" where
  "starts_white s \<longleftrightarrow> find (\<lambda>w. prefix w s) white_space \<noteq> None"

fun ws_word :: "str \<Rightarrow> str" where
  "ws_word [] = []"
| "ws_word (c # cs) = (if starts_white (c # cs) then [] else c # ws_word cs)"

lemma length_trim_start: "length (trim_start s) \<le> length s"
proof (induction s rule: trim_start.induct)
  case (1 s)
  then show ?case
    by (subst trim_start.simps) (auto split: option.split intro: order_trans)
qed

function (sequential) split_whitespace :: "str \<Rightarrow> str list" where
  "split_whitespace s =
     (let t = trim_start s; w = ws_word t
      in if w = [] then [] else w # split_whitespace (drop (length w) t))"
  by pat_completeness auto
termination
proof (relation "measure length")
  fix s t w
  assume t: "t = trim_start s" and w: "w = ws_word t" "w \<noteq> []"
  then have "t \<noteq> []" by auto
  with w have "length t - length w < length t" by (cases w) auto
  also have "\<dots> \<le> length s" unfolding t by (rule length_trim_start)
  finally show "(drop (length w) t, s) \<in> measure length" by simp
qed simp

declare split_whitespace.simps [simp del]

lemma white_space_no_digit: "list_all (\<lambda>w. w \<noteq> [] \<and> \<not> is_digit (hd w)) white_space"
  by code_simp

lemma starts_white_digit: "is_digit c \<Longrightarrow> \<not> starts_white (c # cs)"
  using white_space_no_digit
  by (auto simp: starts_white_def find_None_iff list_all_iff prefix_Cons)

lemma trim_start_digit: "is_digit c \<Longrightarrow> trim_start (c # cs) = c # cs"
  using starts_white_digit [of c cs] by (subst trim_start.simps) (simp add: starts_white_def)

lemma ws_word_digits: "list_all is_digit ds \<Longrightarrow> ws_word (ds @ rest) = ds @ ws_word rest"
  by (induction ds) (auto simp: starts_white_digit)

lemma is_digit_digit_char: "0 \<le> d \<Longrightarrow> d < 10 \<Longrightarrow> is_digit (digit_char d)"
  by (simp add: is_digit_def digit_char_def of_char_of)

lemma show_int_digits: "0 \<le> n \<Longrightarrow> show_int n \<noteq> [] \<and> list_all is_digit (show_int n)"
  using digits_of_value [of n 10] by (auto simp: show_int_def list_all_iff is_digit_digit_char)

lemma white_space_space:
  "list_all (\<lambda>w. w \<noteq> [] \<and> (hd w = CHR '' '' \<longrightarrow> w = '' '')) white_space \<and> '' '' \<in> set white_space"
  by code_simp

lemma find_white_space: "find (\<lambda>w. prefix w (CHR '' '' # s)) white_space = Some '' ''"
proof -
  have "find (\<lambda>w. prefix w (CHR '' '' # s)) white_space \<noteq> None"
    using conjunct2 [OF white_space_space] unfolding find_None_iff by force
  then obtain w where w: "find (\<lambda>w. prefix w (CHR '' '' # s)) white_space = Some w" by blast
  note f = find_SomeD [OF w]
  have "w \<noteq> [] \<and> (hd w = CHR '' '' \<longrightarrow> w = '' '')"
    using conjunct1 [OF white_space_space] conjunct1 [OF f] unfolding list_all_iff by (rule bspec)
  moreover have "w \<noteq> [] \<Longrightarrow> hd w = CHR '' ''" using conjunct2 [OF f] by (cases w) simp_all
  ultimately show ?thesis using w by simp
qed

lemma starts_white_space [simp]: "starts_white (CHR '' '' # s)"
  by (simp add: starts_white_def find_white_space)

lemma trim_start_space: "\<not> starts_white s \<Longrightarrow> trim_start (CHR '' '' # s) = s"
proof -
  assume s: "\<not> starts_white s"
  have "trim_start (CHR '' '' # s) = trim_start s" by (subst trim_start.simps) (simp add: find_white_space)
  also have "\<dots> = s" using s by (subst trim_start.simps) (simp add: starts_white_def)
  finally show ?thesis .
qed

lemma split_whitespace_two:
  assumes "a \<noteq> []" "list_all is_digit a" "b \<noteq> []" "list_all is_digit b"
  shows "split_whitespace (a @ '' '' @ b) = [a, b]"
proof -
  have ta: "trim_start (a @ x) = a @ x" for x
    using assms(1,2) by (cases a) (auto simp: trim_start_digit)
  obtain c cs where b: "b = c # cs" "is_digit c" using assms(3,4) by (cases b) auto
  have tb: "trim_start (CHR '' '' # b) = b" using b by (simp add: trim_start_space starts_white_digit)
  have nil: "split_whitespace [] = []" by (subst split_whitespace.simps) (simp add: trim_start.simps white_space_def)
  have wb: "ws_word b = b" using ws_word_digits [OF assms(4), of "[]"] by simp
  have "split_whitespace (CHR '' '' # b) = [b]"
    by (subst split_whitespace.simps) (simp add: tb wb nil assms(3))
  moreover have "ws_word (a @ CHR '' '' # b) = a" by (simp add: ws_word_digits [OF assms(2)])
  ultimately show ?thesis
    using ta [of "CHR '' '' # b"] assms(1) by (subst split_whitespace.simps) simp
qed

section \<open>String slices\<close>

text \<open>A string may be cut only between characters: \<open>str::is_char_boundary\<close>. \<open>str_cut s i\<close> is the pair
  of slices \<open>s[..i]\<close> and \<open>s[i..]\<close>, and \<open>None\<close> where they panic.\<close>

definition is_char_boundary :: "str \<Rightarrow> nat \<Rightarrow> bool" where
  "is_char_boundary s i \<longleftrightarrow> i = length s \<or> i < length s \<and> \<not> utf8_cont (of_char (s ! i))"

definition str_cut :: "str \<Rightarrow> nat \<Rightarrow> (str \<times> str) option" where
  "str_cut s i = (if is_char_boundary s i then Some (take i s, drop i s) else None)"

text \<open>\<open>s.get(a..b)\<close>.\<close>

definition str_get_range :: "str \<Rightarrow> nat \<Rightarrow> nat \<Rightarrow> str option" where
  "str_get_range s a b = (if a \<le> b \<and> is_char_boundary s a \<and> is_char_boundary s b then slice_range s a b else None)"

definition is_ascii :: "str \<Rightarrow> bool" where
  "is_ascii s \<longleftrightarrow> list_all (\<lambda>c. (of_char c :: u8) < 0x80) s"

lemma is_ascii_subset: "is_ascii s \<Longrightarrow> set t \<subseteq> set s \<Longrightarrow> is_ascii t"
  by (auto simp: is_ascii_def list_all_iff)

lemma is_ascii_trim: "is_ascii s \<Longrightarrow> is_ascii (trim s)"
  by (rule is_ascii_subset [OF _ set_trim])

lemma ascii_char_boundary: "is_ascii s \<Longrightarrow> i \<le> length s \<Longrightarrow> is_char_boundary s i"
  by (auto simp: is_char_boundary_def is_ascii_def list_all_length utf8_cont_def simp flip: not_less)

end
