(* ===== verification/F64.thy ===== *)
theory F64
  imports Prelude
begin

text \<open>
  IEEE 754 binary64, the semantics of Rust's \<open>f64\<close>: a value is not a number, an infinity,
  or a sign with a non-negative rational magnitude, and every operation is the exact rational
  operation followed by rounding to nearest, ties to even. \<open>sqrt\<close> is correctly rounded as the
  standard library promises; the trigonometric functions, whose precision it leaves open, are
  fields of the record \<open>libm\<close> that the definitions using them take as an argument.
  \<open>fmt_fixed n\<close> is the formatting of \<open>{:.n}\<close>.
\<close>

datatype f64 = FNaN | FInf bool | FNum bool rat

section \<open>Rounding\<close>

fun bit_len :: "int \<Rightarrow> int" where
  "bit_len n = (if n \<le> 0 then 0 else 1 + bit_len (n div 2))"

declare bit_len.simps [simp del]

definition pow2 :: "int \<Rightarrow> rat" where
  "pow2 k = (if 0 \<le> k then of_int (2 ^ nat k) else 1 / of_int (2 ^ nat (- k)))"

text \<open>The binary exponent of a positive rational.\<close>

definition ilog2 :: "rat \<Rightarrow> int" where
  "ilog2 q = (if 1 \<le> q then bit_len \<lfloor>q\<rfloor> - 1 else - bit_len (\<lceil>1 / q\<rceil> - 1))"

definition round_half_even :: "rat \<Rightarrow> int" where
  "round_half_even x =
     (let f = \<lfloor>x\<rfloor>; r = x - of_int f
      in if r < 1 / 2 then f else if 1 / 2 < r then f + 1 else if even f then f else f + 1)"

definition ulp :: "rat \<Rightarrow> rat" where
  "ulp q = pow2 (max (ilog2 q) (-1022) - 52)"

definition round_mag :: "rat \<Rightarrow> rat" where
  "round_mag q = (if q = 0 then 0 else of_int (round_half_even (q / ulp q)) * ulp q)"

definition fl :: "bool \<Rightarrow> rat \<Rightarrow> f64" where
  "fl s q = (let m = round_mag q in if 1024 \<le> ilog2 m then FInf s else FNum s m)"

text \<open>A rational as the double nearest to it; the sign of a zero is positive.\<close>

definition f64_of_rat :: "rat \<Rightarrow> f64" where
  "f64_of_rat q = fl (q < 0) \<bar>q\<bar>"

abbreviation f64_of_int :: "int \<Rightarrow> f64" where
  "f64_of_int n \<equiv> f64_of_rat (of_int n)"

section \<open>Operations\<close>

fun f64_neg :: "f64 \<Rightarrow> f64" where
  "f64_neg FNaN = FNaN"
| "f64_neg (FInf s) = FInf (\<not> s)"
| "f64_neg (FNum s q) = FNum (\<not> s) q"

fun f64_abs :: "f64 \<Rightarrow> f64" where
  "f64_abs FNaN = FNaN"
| "f64_abs (FInf s) = FInf False"
| "f64_abs (FNum s q) = FNum False q"

definition signed_val :: "bool \<Rightarrow> rat \<Rightarrow> rat" where
  "signed_val s q = (if s then - q else q)"

fun f64_add :: "f64 \<Rightarrow> f64 \<Rightarrow> f64" where
  "f64_add (FNum s p) (FNum t q) =
     (let v = signed_val s p + signed_val t q
      in if v = 0 then FNum (s \<and> t) 0 else fl (v < 0) \<bar>v\<bar>)"
| "f64_add (FInf s) (FInf t) = (if s = t then FInf s else FNaN)"
| "f64_add (FInf s) (FNum t q) = FInf s"
| "f64_add (FNum s p) (FInf t) = FInf t"
| "f64_add FNaN _ = FNaN"
| "f64_add _ FNaN = FNaN"

definition f64_sub :: "f64 \<Rightarrow> f64 \<Rightarrow> f64" where
  "f64_sub x y = f64_add x (f64_neg y)"

fun f64_mul :: "f64 \<Rightarrow> f64 \<Rightarrow> f64" where
  "f64_mul (FNum s p) (FNum t q) = fl (s \<noteq> t) (p * q)"
| "f64_mul (FInf s) (FInf t) = FInf (s \<noteq> t)"
| "f64_mul (FInf s) (FNum t q) = (if q = 0 then FNaN else FInf (s \<noteq> t))"
| "f64_mul (FNum s p) (FInf t) = (if p = 0 then FNaN else FInf (s \<noteq> t))"
| "f64_mul FNaN _ = FNaN"
| "f64_mul _ FNaN = FNaN"

fun f64_div :: "f64 \<Rightarrow> f64 \<Rightarrow> f64" where
  "f64_div (FNum s p) (FNum t q) =
     (if q = 0 then if p = 0 then FNaN else FInf (s \<noteq> t) else fl (s \<noteq> t) (p / q))"
| "f64_div (FInf s) (FInf t) = FNaN"
| "f64_div (FInf s) (FNum t q) = FInf (s \<noteq> t)"
| "f64_div (FNum s p) (FInf t) = FNum (s \<noteq> t) 0"
| "f64_div FNaN _ = FNaN"
| "f64_div _ FNaN = FNaN"

text \<open>The integer square root, by Newton-free bisection on the result's bits.\<close>

fun isqrt_bits :: "nat \<Rightarrow> int \<Rightarrow> int \<Rightarrow> int" where
  "isqrt_bits 0 r n = r"
| "isqrt_bits (Suc k) r n =
     (let r' = r + 2 ^ k in isqrt_bits k (if r' * r' \<le> n then r' else r) n)"

definition isqrt :: "int \<Rightarrow> int" where
  "isqrt n = isqrt_bits (nat ((bit_len n + 1) div 2)) 0 n"

definition round_sqrt :: "rat \<Rightarrow> int" where
  "round_sqrt y =
     (let f = isqrt \<lfloor>y\<rfloor>; h = of_int f + 1 / 2
      in if y < h * h then f else if h * h < y then f + 1 else if even f then f else f + 1)"

fun f64_sqrt :: "f64 \<Rightarrow> f64" where
  "f64_sqrt FNaN = FNaN"
| "f64_sqrt (FInf s) = (if s then FNaN else FInf False)"
| "f64_sqrt (FNum s q) =
     (if q = 0 then FNum s 0 else if s then FNaN
      else let u = pow2 (ilog2 q div 2 - 52) in FNum False (of_int (round_sqrt (q / (u * u))) * u))"

text \<open>Rust's \<open>%\<close> is the exact remainder with the sign of the dividend.\<close>

fun f64_rem :: "f64 \<Rightarrow> f64 \<Rightarrow> f64" where
  "f64_rem (FNum s p) (FNum t q) =
     (if q = 0 then FNaN else FNum s (p - of_int \<lfloor>p / q\<rfloor> * q))"
| "f64_rem (FNum s p) (FInf t) = FNum s p"
| "f64_rem (FInf s) _ = FNaN"
| "f64_rem FNaN _ = FNaN"
| "f64_rem _ FNaN = FNaN"

fun f64_lt :: "f64 \<Rightarrow> f64 \<Rightarrow> bool" where
  "f64_lt (FNum s p) (FNum t q) \<longleftrightarrow> signed_val s p < signed_val t q"
| "f64_lt (FInf s) (FInf t) \<longleftrightarrow> s \<and> \<not> t"
| "f64_lt (FInf s) (FNum t q) \<longleftrightarrow> s"
| "f64_lt (FNum s p) (FInf t) \<longleftrightarrow> \<not> t"
| "f64_lt _ _ \<longleftrightarrow> False"

fun f64_eq :: "f64 \<Rightarrow> f64 \<Rightarrow> bool" where
  "f64_eq (FNum s p) (FNum t q) \<longleftrightarrow> signed_val s p = signed_val t q"
| "f64_eq (FInf s) (FInf t) \<longleftrightarrow> s = t"
| "f64_eq _ _ \<longleftrightarrow> False"

definition f64_le :: "f64 \<Rightarrow> f64 \<Rightarrow> bool" where
  "f64_le x y \<longleftrightarrow> f64_lt x y \<or> f64_eq x y"

fun is_finite :: "f64 \<Rightarrow> bool" where
  "is_finite (FNum s q) = True"
| "is_finite _ = False"

text \<open>\<open>(lo..=hi).contains(&x)\<close>.\<close>

definition f64_within :: "f64 \<Rightarrow> f64 \<Rightarrow> f64 \<Rightarrow> bool" where
  "f64_within lo hi x \<longleftrightarrow> f64_le lo x \<and> f64_le x hi"

definition f64_clamp :: "f64 \<Rightarrow> f64 \<Rightarrow> f64 \<Rightarrow> f64" where
  "f64_clamp lo hi x = (if f64_lt x lo then lo else if f64_lt hi x then hi else x)"

definition f64_rem_euclid :: "f64 \<Rightarrow> f64 \<Rightarrow> f64" where
  "f64_rem_euclid x y =
     (let r = f64_rem x y in if f64_lt r (FNum False 0) then f64_add r (f64_abs y) else r)"

text \<open>\<open>f64::consts::PI\<close> is the double nearest to the circle's ratio. \<open>to_degrees\<close> multiplies by
  \<open>180 / PI\<close> and \<open>to_radians\<close> by \<open>PI / 180\<close>, each quotient rounded.\<close>

definition f64_pi :: f64 where
  "f64_pi = FNum False (884279719003555 / 281474976710656)"

definition f64_to_degrees :: "f64 \<Rightarrow> f64" where
  "f64_to_degrees x = f64_mul x (f64_div (f64_of_int 180) f64_pi)"

definition f64_to_radians :: "f64 \<Rightarrow> f64" where
  "f64_to_radians x = f64_mul x (f64_div f64_pi (f64_of_int 180))"

text \<open>A single-precision value from its bits, widened to double.\<close>

definition f64_of_f32_bits :: "u32 \<Rightarrow> f64" where
  "f64_of_f32_bits w =
     (let s = bit w 31; e = uint (take_bit 8 (drop_bit 23 w)); m = uint (take_bit 23 w)
      in if e = 255 then if m = 0 then FInf s else FNaN
         else if e = 0 then FNum s (of_int m * pow2 (-149))
         else FNum s (of_int (2 ^ 23 + m) * pow2 (e - 150)))"

text \<open>A double from its bits, \<open>f64::round\<close> (half away from zero), and a finite value as an integer.\<close>

definition f64_of_bits :: "u64 \<Rightarrow> f64" where
  "f64_of_bits w =
     (let s = bit w 63; e = uint (take_bit 11 (drop_bit 52 w)); m = uint (take_bit 52 w)
      in if e = 2047 then if m = 0 then FInf s else FNaN
         else if e = 0 then FNum s (of_int m * pow2 (-1074))
         else FNum s (of_int (2 ^ 52 + m) * pow2 (e - 1075)))"

fun f64_round :: "f64 \<Rightarrow> f64" where
  "f64_round (FNum s q) = FNum s (of_int \<lfloor>q + 1 / 2\<rfloor>)"
| "f64_round x = x"

fun f64_trunc_int :: "f64 \<Rightarrow> int" where
  "f64_trunc_int (FNum s q) = (if s then - \<lfloor>q\<rfloor> else \<lfloor>q\<rfloor>)"
| "f64_trunc_int _ = 0"

text \<open>The functions of the platform's mathematics library, whose results Rust does not fix.\<close>

record libm =
  m_sin :: "f64 \<Rightarrow> f64"
  m_cos :: "f64 \<Rightarrow> f64"
  m_asin :: "f64 \<Rightarrow> f64"
  m_atan2 :: "f64 \<Rightarrow> f64 \<Rightarrow> f64"
  m_hypot :: "f64 \<Rightarrow> f64 \<Rightarrow> f64"

text \<open>The same with \<open>f32::hypot\<close>, whose arguments and result are single-precision values.\<close>

record libm32 = libm +
  m_hypotf :: "f64 \<Rightarrow> f64 \<Rightarrow> f64"

section \<open>Formatting\<close>

definition fmt_mag :: "nat \<Rightarrow> rat \<Rightarrow> str" where
  "fmt_mag n q =
     (let m = round_half_even (q * 10 ^ n); ip = m div 10 ^ n; fp = m mod 10 ^ n
      in show_int ip @ (if n = 0 then [] else CHR ''.'' # pad_left n (CHR ''0'') (show_int fp)))"

fun fmt_fixed :: "nat \<Rightarrow> f64 \<Rightarrow> str" where
  "fmt_fixed n FNaN = ''NaN''"
| "fmt_fixed n (FInf s) = (if s then ''-inf'' else ''inf'')"
| "fmt_fixed n (FNum s q) = (if s then CHR ''-'' # fmt_mag n q else fmt_mag n q)"

section \<open>Parsing\<close>

text \<open>\<open>str::parse::<f64>\<close>: an optional sign, then a decimal number with optional fraction and
  exponent and at least one digit, or \<open>inf\<close>, \<open>infinity\<close> or \<open>nan\<close> in any case. The result is
  the double nearest to the decimal.\<close>

definition pow10 :: "int \<Rightarrow> rat" where
  "pow10 e = (if 0 \<le> e then 10 ^ nat e else 1 / 10 ^ nat (- e))"

definition split_sign :: "str \<Rightarrow> bool \<times> str" where
  "split_sign s = (case s of [] \<Rightarrow> (False, [])
     | c # r \<Rightarrow> if c = CHR ''-'' then (True, r) else if c = CHR ''+'' then (False, r) else (False, s))"

definition parse_exponent :: "str \<Rightarrow> int option" where
  "parse_exponent s = (case s of [] \<Rightarrow> Some 0
     | c # r \<Rightarrow> if c \<noteq> CHR ''e'' \<and> c \<noteq> CHR ''E'' then None
       else let (neg, ds) = split_sign r
            in if ds = [] \<or> \<not> list_all is_digit ds then None
               else map_option (\<lambda>v. if neg then - v else v) (digits_val 10 0 ds))"

definition parse_decimal :: "str \<Rightarrow> rat option" where
  "parse_decimal s =
     (let ip = takeWhile is_digit s; r = dropWhile is_digit s;
          (fp, r') = (case r of [] \<Rightarrow> ([], [])
             | c # t \<Rightarrow> if c = CHR ''.'' then (takeWhile is_digit t, dropWhile is_digit t) else ([], r))
      in if ip = [] \<and> fp = [] then None
         else Option.bind (digits_val 10 0 (ip @ fp)) (\<lambda>m.
           map_option (\<lambda>e. of_int m * pow10 (e - int (length fp))) (parse_exponent r')))"

definition parse_f64 :: "str \<Rightarrow> f64 option" where
  "parse_f64 s =
     (let (neg, r) = split_sign s
      in case parse_decimal r of Some q \<Rightarrow> Some (fl neg q)
         | None \<Rightarrow> if to_ascii_lowercase r = ''inf'' \<or> to_ascii_lowercase r = ''infinity'' then Some (FInf neg)
                   else if to_ascii_lowercase r = ''nan'' then Some FNaN else None)"

section \<open>Exactness\<close>

lemma pow2_pos [simp]: "0 < pow2 k"
  by (simp add: pow2_def)

lemma pow2_nonneg [simp]: "0 \<le> pow2 k"
  by (simp add: less_imp_le)

lemma pow2_not_0 [simp]: "pow2 k \<noteq> 0"
  using pow2_pos [of k] by linarith

lemma pow2_0 [simp]: "pow2 0 = 1"
  by (simp add: pow2_def)

lemma pow2_powi: "pow2 k = 2 powi k"
  by (simp add: pow2_def power_int_def inverse_eq_divide power_one_over)

lemma pow2_add: "pow2 (a + b) = pow2 a * pow2 b"
  by (simp add: pow2_powi power_int_add)

lemma pow2_diff: "pow2 (a - b) = pow2 a / pow2 b"
  by (simp add: pow2_powi power_int_diff)

lemma pow2_minus: "pow2 (- a) = 1 / pow2 a"
  using pow2_diff [of 0 a] by simp

lemma pow2_Suc: "pow2 (a + 1) = 2 * pow2 a"
  by (simp add: pow2_add pow2_def [of 1])

lemma pow2_nat: "pow2 (int n) = 2 ^ n"
  by (simp add: pow2_def)

lemma pow2_less: "a < b \<Longrightarrow> pow2 a < pow2 b"
proof -
  assume "a < b"
  then obtain k where k: "b = a + (1 + int k)"
    by (metis zless_iff_Suc_zadd of_nat_Suc add.commute)
  have "1 < pow2 (1 + int k)"
    by (simp add: pow2_add pow2_nat pow2_def [of 1] one_le_power less_le_trans [of 1 2])
  then show ?thesis
    by (simp add: k pow2_add [of a])
qed

lemma pow2_less_iff [simp]: "pow2 a < pow2 b \<longleftrightarrow> a < b"
  by (metis pow2_less linorder_neqE_linordered_idom order_less_imp_not_less order_less_irrefl)

lemma pow2_le_iff [simp]: "pow2 a \<le> pow2 b \<longleftrightarrow> a \<le> b"
  by (meson linorder_not_less pow2_less_iff)

lemma bit_len_nonneg: "0 \<le> bit_len n"
  by (induction n rule: bit_len.induct) (subst bit_len.simps, simp)

lemma int_less_pow2_iff: "0 \<le> k \<Longrightarrow> of_int n < pow2 k \<longleftrightarrow> of_int n + 1 \<le> pow2 k"
proof -
  assume "0 \<le> k"
  then obtain j where j: "pow2 k = of_int (2 ^ j)"
    using nonneg_int_cases by (metis of_int_numeral of_int_power pow2_nat)
  have "of_int n < pow2 k \<longleftrightarrow> n < 2 ^ j" unfolding j of_int_less_iff ..
  also have "\<dots> \<longleftrightarrow> n + 1 \<le> 2 ^ j" by arith
  also have "\<dots> \<longleftrightarrow> of_int (n + 1) \<le> pow2 k" unfolding j of_int_le_iff ..
  finally show ?thesis by simp
qed

lemma bit_len_bounds: "0 < n \<Longrightarrow> pow2 (bit_len n - 1) \<le> of_int n \<and> of_int n + 1 \<le> pow2 (bit_len n)"
proof (induction n rule: bit_len.induct)
  case (1 n)
  show ?case
  proof (cases "n = 1")
    case True
    then show ?thesis by (simp add: bit_len.simps [of 1] bit_len.simps [of 0] pow2_def)
  next
    case False
    with "1.prems" have pos: "0 < n div 2" by linarith
    with "1.IH" "1.prems" have ih: "pow2 (bit_len (n div 2) - 1) \<le> of_int (n div 2)"
        "of_int (n div 2) + 1 \<le> pow2 (bit_len (n div 2))"
      by auto
    have b: "bit_len n = bit_len (n div 2) + 1"
      using "1.prems" by (subst bit_len.simps) simp
    have "of_int (2 * (n div 2)) \<le> (of_int n :: rat)"
      unfolding of_int_le_iff by linarith
    then have lo: "2 * of_int (n div 2) \<le> (of_int n :: rat)" by simp
    have "of_int n < (of_int (2 * (n div 2) + 2) :: rat)"
      unfolding of_int_less_iff by linarith
    then have "of_int n < 2 * (of_int (n div 2) + 1 :: rat)" by simp
    with ih(2) have "of_int n < pow2 (bit_len n)"
      by (simp add: b pow2_Suc)
    moreover have "pow2 (bit_len n - 1) \<le> of_int n"
      using ih(1) lo pow2_Suc [of "bit_len (n div 2) - 1"] by (simp add: b)
    ultimately show ?thesis
      using int_less_pow2_iff [of "bit_len n"] bit_len_nonneg by blast
  qed
qed

lemma ilog2_bounds: "0 < q \<Longrightarrow> pow2 (ilog2 q) \<le> q \<and> q < pow2 (ilog2 q + 1)"
proof (cases "1 \<le> q")
  case True
  then have "0 < \<lfloor>q\<rfloor>" by simp
  from bit_len_bounds [OF this] have "pow2 (bit_len \<lfloor>q\<rfloor> - 1) \<le> of_int \<lfloor>q\<rfloor>"
      "of_int \<lfloor>q\<rfloor> + 1 \<le> pow2 (bit_len \<lfloor>q\<rfloor>)" by auto
  moreover have "of_int \<lfloor>q\<rfloor> \<le> q" "q < of_int \<lfloor>q\<rfloor> + 1" by linarith+
  ultimately have "pow2 (bit_len \<lfloor>q\<rfloor> - 1) \<le> q" "q < pow2 (bit_len \<lfloor>q\<rfloor>)" by linarith+
  then show ?thesis using True by (simp add: ilog2_def)
next
  case False
  assume q: "0 < q"
  let ?n = "\<lceil>1 / q\<rceil> - 1"
  have "1 < 1 / q" using False q by (simp add: field_simps)
  then have "0 < ?n" by simp
  from bit_len_bounds [OF this] have b: "pow2 (bit_len ?n - 1) \<le> of_int ?n"
      "of_int ?n + 1 \<le> pow2 (bit_len ?n)" by auto
  moreover have "of_int ?n < 1 / q" "1 / q \<le> of_int ?n + 1" by linarith+
  ultimately have "pow2 (bit_len ?n - 1) < 1 / q" "1 / q \<le> pow2 (bit_len ?n)" by linarith+
  then have "q < 1 / pow2 (bit_len ?n - 1)" "1 / pow2 (bit_len ?n) \<le> q"
    using q by (simp_all add: field_simps)
  then show ?thesis
    using False pow2_minus [of "bit_len ?n - 1"] pow2_minus [of "bit_len ?n"]
    by (simp add: ilog2_def)
qed

definition representable :: "rat \<Rightarrow> bool" where
  "representable q \<longleftrightarrow> (\<exists>m k. q = of_int m * pow2 k \<and> 0 \<le> m \<and> m < 2 ^ 53 \<and> -1074 \<le> k)"

lemma representableI: "0 \<le> m \<Longrightarrow> m < 2 ^ 53 \<Longrightarrow> -1074 \<le> k \<Longrightarrow> representable (of_int m * pow2 k)"
  by (auto simp: representable_def)

lemma representable_int: "0 \<le> m \<Longrightarrow> m < 2 ^ 53 \<Longrightarrow> representable (of_int m)"
  using representableI [of m 0] by simp

lemma round_half_even_int [simp]: "round_half_even (of_int z) = z"
  by (simp add: round_half_even_def Let_def)

lemma representable_ulp: "representable q \<Longrightarrow> q \<noteq> 0 \<Longrightarrow> \<exists>z. q = of_int z * ulp q"
proof -
  assume "representable q" and nz: "q \<noteq> 0"
  then obtain m k where q: "q = of_int m * pow2 k" and m: "0 \<le> m" "m < 2 ^ 53" and k: "-1074 \<le> k"
    by (auto simp: representable_def)
  with nz have "0 < q" by (simp add: less_le)
  from ilog2_bounds [OF this] have "pow2 (ilog2 q) \<le> of_int m * pow2 k" by (simp add: q)
  also have "of_int m < (of_int (2 ^ 53) :: rat)" unfolding of_int_less_iff by (rule m)
  then have "of_int m * pow2 k < pow2 53 * pow2 k"
    by (simp add: pow2_def [of 53])
  also have "\<dots> = pow2 (53 + k)" by (simp add: pow2_add)
  finally have "ilog2 q < 53 + k" by simp
  with k obtain j where j: "k = (max (ilog2 q) (-1022) - 52) + int j"
    using zle_iff_zadd [of "max (ilog2 q) (-1022) - 52" k] by auto
  have "pow2 k = ulp q * 2 ^ j"
    by (subst j) (simp add: ulp_def pow2_add pow2_nat)
  then have "q = of_int (m * 2 ^ j) * ulp q"
    by (metis q mult.assoc mult.commute of_int_mult of_int_numeral of_int_power)
  then show ?thesis by blast
qed

lemma ulp_pos [simp]: "0 < ulp q"
  by (simp add: ulp_def)

lemma ulp_not_0 [simp]: "ulp q \<noteq> 0"
  by (simp add: ulp_def)

lemma round_mag_exact: "representable q \<Longrightarrow> round_mag q = q"
proof (cases "q = 0")
  case False
  assume "representable q"
  then obtain z where z: "q = of_int z * ulp q" using False representable_ulp by blast
  then have "q / ulp q = of_int z" by (metis nonzero_mult_div_cancel_right ulp_not_0)
  then show ?thesis using False z by (simp add: round_mag_def)
qed (simp add: round_mag_def)

lemma ilog2_less: "0 \<le> q \<Longrightarrow> q < pow2 k \<Longrightarrow> 0 < k \<Longrightarrow> ilog2 q < k"
proof (cases "q = 0")
  case False
  assume "0 \<le> q" "q < pow2 k"
  with False have "pow2 (ilog2 q) < pow2 k"
    using ilog2_bounds [of q] by linarith
  then show ?thesis by simp
qed (simp add: ilog2_def bit_len.simps)

lemma fl_exact: "representable q \<Longrightarrow> q < pow2 1024 \<Longrightarrow> fl s q = FNum s q"
  using ilog2_less [of q 1024]
  by (auto simp: fl_def round_mag_exact Let_def representable_def)

text \<open>Rounding is monotone towards a representable bound.\<close>

lemma round_half_even_le: "x \<le> of_int z \<Longrightarrow> round_half_even x \<le> z"
proof -
  assume x: "x \<le> of_int z"
  have f: "\<lfloor>x\<rfloor> \<le> z" using x by (metis floor_mono floor_of_int)
  show ?thesis
  proof (cases "\<lfloor>x\<rfloor> = z")
    case True
    then have "x - of_int \<lfloor>x\<rfloor> < 1 / 2" using x by simp
    with True show ?thesis by (simp add: round_half_even_def Let_def)
  next
    case False
    with f show ?thesis by (auto simp: round_half_even_def Let_def)
  qed
qed

lemma round_half_even_nonneg: "0 \<le> x \<Longrightarrow> 0 \<le> round_half_even x"
proof -
  assume "0 \<le> x"
  then have "0 \<le> \<lfloor>x\<rfloor>" by simp
  then show ?thesis by (simp add: round_half_even_def Let_def)
qed

lemma ulp_multiple: "0 < q \<Longrightarrow> q \<le> r \<Longrightarrow> \<exists>j. ulp r = ulp q * 2 ^ j"
proof -
  assume q: "0 < q" "q \<le> r"
  with ilog2_bounds [of q] ilog2_bounds [of r] have "pow2 (ilog2 q) < pow2 (ilog2 r + 1)" by linarith
  then have "max (ilog2 q) (-1022) - 52 \<le> max (ilog2 r) (-1022) - 52" by simp
  then obtain j where "max (ilog2 r) (-1022) - 52 = (max (ilog2 q) (-1022) - 52) + int j"
    using zle_iff_zadd by blast
  then show ?thesis unfolding ulp_def by (metis pow2_add pow2_nat)
qed

lemma round_mag_le:
  assumes "0 \<le> q" "q \<le> r" "representable r"
  shows "0 \<le> round_mag q \<and> round_mag q \<le> r"
proof (cases "q = 0")
  case True
  then show ?thesis using assms by (simp add: round_mag_def)
next
  case False
  with assms have q: "0 < q" "r \<noteq> 0" by auto
  obtain z where z: "r = of_int z * ulp r" using representable_ulp [OF assms(3) q(2)] by blast
  obtain j where j: "ulp r = ulp q * 2 ^ j" using ulp_multiple [OF q(1) assms(2)] by blast
  have r: "r = of_int (z * 2 ^ j) * ulp q" using z j by (metis mult.assoc mult.commute of_int_mult of_int_numeral of_int_power)
  then have "q / ulp q \<le> of_int (z * 2 ^ j)" using assms(2) by (simp add: pos_divide_le_eq)
  from round_half_even_le [OF this] have "(of_int (round_half_even (q / ulp q)) :: rat) \<le> of_int (z * 2 ^ j)"
    by (simp only: of_int_le_iff)
  then have "of_int (round_half_even (q / ulp q)) * ulp q \<le> r"
    by (subst r) (rule mult_right_mono, simp_all add: less_imp_le)
  moreover have "0 \<le> round_half_even (q / ulp q)" using q(1) by (intro round_half_even_nonneg) (simp add: less_imp_le)
  ultimately show ?thesis using False by (simp add: round_mag_def less_imp_le)
qed

lemma fl_le:
  assumes "0 \<le> q" "q \<le> r" "representable r" "r < pow2 1024"
  obtains m where "fl s q = FNum s m" "0 \<le> m" "m \<le> r"
proof -
  note m = round_mag_le [OF assms(1-3)]
  then have "ilog2 (round_mag q) < 1024" using assms(4) by (intro ilog2_less) auto
  then show ?thesis using that m by (simp add: fl_def Let_def)
qed

lemma f64_of_int_exact: "\<bar>n\<bar> < 2 ^ 53 \<Longrightarrow> f64_of_int n = FNum (n < 0) (of_int \<bar>n\<bar>)"
proof -
  assume n: "\<bar>n\<bar> < 2 ^ 53"
  then have "(of_int \<bar>n\<bar> :: rat) < of_int (2 ^ 53)" unfolding of_int_less_iff .
  also have "\<dots> = pow2 53" by (simp add: pow2_def)
  also have "\<dots> < pow2 1024" by simp
  finally show ?thesis
    using n by (simp add: f64_of_rat_def fl_exact representable_int flip: of_int_abs)
qed

lemma f64_within_finite: "f64_within (FNum s a) (FNum t b) x \<Longrightarrow> is_finite x"
  by (cases x) (auto simp: f64_within_def f64_le_def split: if_splits)

lemma fl_int: "0 \<le> m \<Longrightarrow> m < 2 ^ 53 \<Longrightarrow> fl s (of_int m) = FNum s (of_int m)"
proof -
  assume m: "0 \<le> m" "m < 2 ^ 53"
  then have "(of_int m :: rat) < of_int (2 ^ 53)" unfolding of_int_less_iff by simp
  also have "\<dots> = pow2 53" by (simp add: pow2_def)
  also have "\<dots> < pow2 1024" by simp
  finally show ?thesis using m by (simp add: fl_exact representable_int)
qed

text \<open>A value of magnitude at most \<open>h\<close>.\<close>

definition magnitude_le :: "int \<Rightarrow> f64 \<Rightarrow> bool" where
  "magnitude_le h x \<longleftrightarrow> (\<exists>s m. x = FNum s m \<and> 0 \<le> m \<and> m \<le> of_int h)"

lemma scaled_bounds:
  assumes "\<bar>v\<bar> \<le> d" "0 < d" "d < 2 ^ 32" "0 < h" "h < 2 ^ 15"
  shows "magnitude_le h (f64_div (f64_mul (f64_of_int v) (f64_of_int h)) (f64_of_int d))"
proof -
  have p: "\<bar>v\<bar> * h < 2 ^ 53"
  proof -
    have "\<bar>v\<bar> * h \<le> 2 ^ 32 * 2 ^ 15" using assms by (intro mult_mono) linarith+
    then show ?thesis by simp
  qed
  have b: "pow2 53 < pow2 1024" by simp
  have "0 \<le> \<bar>v\<bar> * h" using assms by simp
  then have "f64_mul (f64_of_int v) (f64_of_int h) = FNum (v < 0) (of_int (\<bar>v\<bar> * h))"
    using assms fl_int [OF _ p, of "v < 0"] by (simp add: f64_of_int_exact)
  moreover have "of_int (\<bar>v\<bar> * h) / of_int d \<le> (of_int h :: rat)"
  proof -
    have "\<bar>v\<bar> * h \<le> h * d" using assms by (simp add: mult.commute mult_left_mono)
    then have "(of_int (\<bar>v\<bar> * h) :: rat) \<le> of_int (h * d)" unfolding of_int_le_iff .
    then show ?thesis using assms(2) by (simp add: pos_divide_le_eq)
  qed
  moreover have "of_int h < pow2 1024"
    using assms(5) b by (simp add: pow2_def)
  ultimately obtain m where "f64_div (f64_mul (f64_of_int v) (f64_of_int h)) (f64_of_int d) = FNum (v < 0) m" "0 \<le> m" "m \<le> of_int h"
    using assms fl_le [of "of_int (\<bar>v\<bar> * h) / of_int d" "of_int h" "v < 0"]
    by (simp add: f64_of_int_exact representable_int) blast
  then show ?thesis by (auto simp: magnitude_le_def)
qed

lemma magnitude_within:
  assumes "magnitude_le h x" "0 < h" "h < 2 ^ 53"
  shows "is_finite x \<and> f64_within (f64_of_int (- h)) (f64_of_int h) x"
proof -
  have "f64_of_int (- h) = FNum True (of_int h)" "f64_of_int h = FNum False (of_int h)"
    using assms(2,3) f64_of_int_exact [of "- h"] f64_of_int_exact [of h] by simp_all
  with assms(1) show ?thesis by (auto simp: magnitude_le_def f64_within_def f64_le_def signed_val_def)
qed

lemma fl_dyadic:
  assumes "0 \<le> m" "m < 2 ^ 53" "-1074 \<le> k" "k \<le> 0"
  shows "fl s (of_int m * pow2 k) = FNum s (of_int m * pow2 k)"
proof -
  have "(of_int m :: rat) < of_int (2 ^ 53)" unfolding of_int_less_iff by (rule assms)
  then have "of_int m < pow2 53" by (simp add: pow2_def)
  moreover have "of_int m * pow2 k \<le> of_int m * pow2 0" using assms by (intro mult_left_mono) (simp_all del: pow2_0)
  moreover have "pow2 53 < pow2 1024" by simp
  ultimately have "of_int m * pow2 k < pow2 1024" unfolding pow2_0 mult_1_right by linarith
  then show ?thesis using assms by (intro fl_exact representableI)
qed

lemma dyadic_magnitude:
  assumes "0 \<le> m" "m \<le> h * 2 ^ j"
  shows "magnitude_le h (FNum s (of_int m * pow2 (- int j)))"
proof -
  have "(of_int m :: rat) \<le> of_int (h * 2 ^ j)" unfolding of_int_le_iff by (rule assms)
  then have "of_int m * pow2 (- int j) \<le> of_int h" by (simp add: pow2_minus pow2_nat pos_divide_le_eq)
  then show ?thesis using assms(1) by (auto simp: magnitude_le_def)
qed

end
