(* ===== verification/Event_Builder.thy ===== *)
theory Event_Builder
  imports F64 "HOL-Library.Multiset"
begin

text \<open>
  \<open>rust/ajar-connector/src/builder.rs\<close> and \<open>error.rs\<close>: the event record of the contract, the
  builder with its setters, and \<open>build\<close>, which checks every rule of the contract and sorts the
  attributes and the metadata. \<open>uuid::Uuid::now_v7\<close> and the clock are arguments of
  \<open>eb_new_id\<close> and \<open>eb_now\<close>. The lemmas show that a built event is canonical, when building
  succeeds, that the order of the setters does not matter, and that the hand-written RFC 3339
  and namespace checks accept exactly their grammars.
\<close>

section \<open>Events and errors\<close>

record geo_point =
  latitude :: f64
  longitude :: f64
  altitude_m :: f64

record attr =
  a_key :: str
  a_value :: str

record event =
  ev_schema_version :: str
  ev_id :: str
  ev_source_id :: str
  ev_entity_type :: str
  ev_timestamp :: str
  ev_received_at :: str
  ev_location :: "geo_point option"
  ev_payload :: bytes
  ev_policy_tags :: "str list"
  ev_confidence :: f64
  ev_attributes :: "attr list"
  ev_metadata :: "attr list"

datatype build_error =
    MissingField str
  | DuplicateAttributeKey str
  | TooManyAttributes nat nat
  | DuplicateMetadataKey str
  | TooManyMetadata nat nat
  | TooManyPolicyTags nat nat
  | UnnamespacedEntityType str
  | ConfidenceOutOfRange f64
  | InvalidTimestamp str
  | InvalidLocation f64 f64

definition MAX_ATTRIBUTES :: nat where "MAX_ATTRIBUTES = 128"
definition MAX_METADATA :: nat where "MAX_METADATA = 128"
definition MAX_POLICY_TAGS :: nat where "MAX_POLICY_TAGS = 64"
definition SCHEMA_VERSION :: str where "SCHEMA_VERSION = ''v1''"

section \<open>The builder and its setters\<close>

record event_builder =
  b_source_id :: str
  b_entity_type :: str
  b_id :: "str option"
  b_timestamp :: "str option"
  b_location :: "geo_point option"
  b_payload :: bytes
  b_policy_tags :: "str list"
  b_confidence :: f64
  b_attributes :: "(str \<times> str) list"
  b_metadata :: "(str \<times> str) list"
  b_strict_entity_namespace :: bool

definition eb_new :: "str \<Rightarrow> str \<Rightarrow> event_builder" where
  "eb_new src ty = \<lparr> b_source_id = src, b_entity_type = ty, b_id = None, b_timestamp = None,
     b_location = None, b_payload = [], b_policy_tags = [], b_confidence = FNum False 0,
     b_attributes = [], b_metadata = [], b_strict_entity_namespace = True \<rparr>"

definition eb_id :: "str \<Rightarrow> event_builder \<Rightarrow> event_builder" where
  "eb_id i b = b\<lparr>b_id := Some i\<rparr>"

definition eb_new_id :: "str \<Rightarrow> event_builder \<Rightarrow> event_builder" where
  "eb_new_id uuid b = b\<lparr>b_id := Some uuid\<rparr>"

definition eb_timestamp :: "str \<Rightarrow> event_builder \<Rightarrow> event_builder" where
  "eb_timestamp ts b = b\<lparr>b_timestamp := Some ts\<rparr>"

definition eb_now :: "str \<Rightarrow> event_builder \<Rightarrow> event_builder" where
  "eb_now clock b = b\<lparr>b_timestamp := Some clock\<rparr>"

definition eb_location :: "f64 \<Rightarrow> f64 \<Rightarrow> f64 \<Rightarrow> event_builder \<Rightarrow> event_builder" where
  "eb_location lat lon alt b =
     b\<lparr>b_location := Some \<lparr>latitude = lat, longitude = lon, altitude_m = alt\<rparr>\<rparr>"

definition eb_payload :: "bytes \<Rightarrow> event_builder \<Rightarrow> event_builder" where
  "eb_payload p b = b\<lparr>b_payload := p\<rparr>"

definition eb_policy_tag :: "str \<Rightarrow> event_builder \<Rightarrow> event_builder" where
  "eb_policy_tag tag b = b\<lparr>b_policy_tags := b_policy_tags b @ [tag]\<rparr>"

definition eb_confidence :: "f64 \<Rightarrow> event_builder \<Rightarrow> event_builder" where
  "eb_confidence c b = b\<lparr>b_confidence := c\<rparr>"

definition eb_attribute :: "str \<Rightarrow> str \<Rightarrow> event_builder \<Rightarrow> event_builder" where
  "eb_attribute k v b = b\<lparr>b_attributes := b_attributes b @ [(k, v)]\<rparr>"

definition eb_metadata :: "str \<Rightarrow> str \<Rightarrow> event_builder \<Rightarrow> event_builder" where
  "eb_metadata k v b = b\<lparr>b_metadata := b_metadata b @ [(k, v)]\<rparr>"

definition eb_allow_unnamespaced_entity_type :: "event_builder \<Rightarrow> event_builder" where
  "eb_allow_unnamespaced_entity_type b = b\<lparr>b_strict_entity_namespace := False\<rparr>"

lemmas eb_defs = eb_id_def eb_new_id_def eb_timestamp_def eb_now_def eb_location_def
  eb_payload_def eb_policy_tag_def eb_confidence_def eb_attribute_def eb_metadata_def
  eb_allow_unnamespaced_entity_type_def

section \<open>Validation\<close>

subsection \<open>Timestamps\<close>

text \<open>The closures \<open>d\<close>, \<open>c\<close>, \<open>num\<close> and \<open>digits\<close> of \<open>is_rfc3339\<close>. \<open>num\<close> is called
  only where \<open>digits\<close> has shown its range to be inside the string (\<open>digits_in_range\<close>).\<close>

definition digit_at :: "str \<Rightarrow> nat \<Rightarrow> bool" where
  "digit_at s i = (case slice_get s i of Some ch \<Rightarrow> is_digit ch | None \<Rightarrow> False)"

definition char_at :: "str \<Rightarrow> nat \<Rightarrow> char \<Rightarrow> bool" where
  "char_at s i ch \<longleftrightarrow> slice_get s i = Some ch"

definition num_at :: "str \<Rightarrow> nat \<Rightarrow> nat \<Rightarrow> int" where
  "num_at s i n = fold (\<lambda>x a. a * 10 + (of_char x - 48)) (take n (drop i s)) 0"

definition digits_at :: "str \<Rightarrow> nat \<Rightarrow> nat \<Rightarrow> bool" where
  "digits_at s i n \<longleftrightarrow> list_all (\<lambda>k. digit_at s (i + k)) [0..<n]"

function (sequential) skip_digits :: "str \<Rightarrow> nat \<Rightarrow> nat" where
  "skip_digits s i = (if digit_at s i then skip_digits s (Suc i) else i)"
  by pat_completeness auto
termination
  by (relation "measure (\<lambda>(s, i). length s - i)")
     (auto simp: digit_at_def slice_get_def split: if_splits)

declare skip_digits.simps [simp del]

definition is_rfc3339 :: "str \<Rightarrow> bool" where
  "is_rfc3339 s \<longleftrightarrow>
     (if length s < 20 then False
      else if \<not> (digits_at s 0 4 \<and> char_at s 4 CHR ''-'' \<and> digits_at s 5 2 \<and> char_at s 7 CHR ''-''
              \<and> digits_at s 8 2 \<and> (char_at s 10 CHR ''T'' \<or> char_at s 10 CHR ''t'')
              \<and> digits_at s 11 2 \<and> char_at s 13 CHR '':'' \<and> digits_at s 14 2
              \<and> char_at s 16 CHR '':'' \<and> digits_at s 17 2) then False
      else if \<not> (1 \<le> num_at s 5 2 \<and> num_at s 5 2 \<le> 12 \<and> 1 \<le> num_at s 8 2 \<and> num_at s 8 2 \<le> 31
              \<and> num_at s 11 2 \<le> 23 \<and> num_at s 14 2 \<le> 59 \<and> num_at s 17 2 \<le> 60) then False
      else let start = (if char_at s 19 CHR ''.'' then 20 else 19);
               i = (if char_at s 19 CHR ''.'' then skip_digits s 20 else 19)
           in if char_at s 19 CHR ''.'' \<and> i = start then False
              else case slice_get s i of
                None \<Rightarrow> False
              | Some ch \<Rightarrow>
                  if ch = CHR ''Z'' \<or> ch = CHR ''z'' then i + 1 = length s
                  else if ch = CHR ''+'' \<or> ch = CHR ''-'' then
                    digits_at s (i + 1) 2 \<and> char_at s (i + 3) CHR '':'' \<and> digits_at s (i + 4) 2
                    \<and> i + 6 = length s \<and> num_at s (i + 1) 2 \<le> 23 \<and> num_at s (i + 4) 2 \<le> 59
                  else False)"

subsection \<open>Entity types\<close>

text \<open>\<open>splitn(2, ':')\<close> yields one part without a colon and two with one.\<close>

definition is_namespaced :: "str \<Rightarrow> bool" where
  "is_namespaced ty =
     (case strip_prefix ty ''mim:'' of
        Some rest \<Rightarrow> rest \<noteq> [] \<and> CHR '':'' \<notin> set rest
      | None \<Rightarrow>
          (case strip_prefix ty ''x:'' of
             Some rest \<Rightarrow>
               (case find_char CHR '':'' rest of
                  Some k \<Rightarrow> take k rest \<noteq> [] \<and> drop (Suc k) rest \<noteq> []
                            \<and> CHR '':'' \<notin> set (drop (Suc k) rest)
                | None \<Rightarrow> False)
           | None \<Rightarrow> False))"

subsection \<open>\<open>build\<close>\<close>

definition location_ok :: "geo_point \<Rightarrow> bool" where
  "location_ok loc \<longleftrightarrow>
     is_finite (latitude loc) \<and> is_finite (longitude loc) \<and> is_finite (altitude_m loc)
     \<and> f64_within (f64_of_int (-90)) (f64_of_int 90) (latitude loc)
     \<and> f64_within (f64_of_int (-180)) (f64_of_int 180) (longitude loc)"

text \<open>The first key that two neighbours of \<open>windows(2)\<close> share.\<close>

fun adjacent_dup :: "(str \<times> str) list \<Rightarrow> str option" where
  "adjacent_dup (p # q # r) = (if fst p = fst q then Some (fst p) else adjacent_dup (q # r))"
| "adjacent_dup _ = None"

definition to_attr :: "str \<times> str \<Rightarrow> attr" where
  "to_attr p = \<lparr>a_key = fst p, a_value = snd p\<rparr>"

definition build :: "event_builder \<Rightarrow> build_error + event" where
  "build b =
     (case b_id b of None \<Rightarrow> Inl (MissingField ''id'') | Some i \<Rightarrow>
      case b_timestamp b of None \<Rightarrow> Inl (MissingField ''timestamp'') | Some ts \<Rightarrow>
      if \<not> is_rfc3339 ts then Inl (InvalidTimestamp ts)
      else if (case b_location b of Some loc \<Rightarrow> \<not> location_ok loc | None \<Rightarrow> False)
      then Inl (InvalidLocation (latitude (the (b_location b))) (longitude (the (b_location b))))
      else if b_source_id b = [] then Inl (MissingField ''source_id'')
      else if b_entity_type b = [] then Inl (MissingField ''entity_type'')
      else if b_strict_entity_namespace b \<and> \<not> is_namespaced (b_entity_type b)
      then Inl (UnnamespacedEntityType (b_entity_type b))
      else if \<not> f64_within (f64_of_int 0) (f64_of_int 1) (b_confidence b)
      then Inl (ConfidenceOutOfRange (b_confidence b))
      else if MAX_POLICY_TAGS < length (b_policy_tags b)
      then Inl (TooManyPolicyTags (length (b_policy_tags b)) MAX_POLICY_TAGS)
      else if MAX_ATTRIBUTES < length (b_attributes b)
      then Inl (TooManyAttributes (length (b_attributes b)) MAX_ATTRIBUTES)
      else if MAX_METADATA < length (b_metadata b)
      then Inl (TooManyMetadata (length (b_metadata b)) MAX_METADATA)
      else let attrs = sort_key fst (b_attributes b) in
      case adjacent_dup attrs of Some k \<Rightarrow> Inl (DuplicateAttributeKey k) | None \<Rightarrow>
      let meta = sort_key fst (b_metadata b) in
      case adjacent_dup meta of Some k \<Rightarrow> Inl (DuplicateMetadataKey k) | None \<Rightarrow>
      Inr \<lparr> ev_schema_version = SCHEMA_VERSION, ev_id = i, ev_source_id = b_source_id b,
            ev_entity_type = b_entity_type b, ev_timestamp = ts, ev_received_at = [],
            ev_location = b_location b, ev_payload = b_payload b,
            ev_policy_tags = b_policy_tags b, ev_confidence = b_confidence b,
            ev_attributes = map to_attr attrs, ev_metadata = map to_attr meta \<rparr>)"

section \<open>Sorting and duplicate keys\<close>

lemma adjacent_dup_None_iff:
  "sorted (map fst ps) \<Longrightarrow> adjacent_dup ps = None \<longleftrightarrow> distinct (map fst ps)"
proof (induction ps rule: adjacent_dup.induct)
  case (1 p q r)
  show ?case
  proof (cases "fst p = fst q")
    case False
    with "1.prems" have "fst p < fst q" "\<forall>x \<in> set r. fst q \<le> fst x" by auto
    then have "fst p \<notin> fst ` set r" by force
    with False "1.prems" "1.IH" show ?thesis by simp
  qed simp
qed auto

lemma adjacent_dup_Some: "adjacent_dup ps = Some k \<Longrightarrow> \<not> distinct (map fst ps) \<and> k \<in> fst ` set ps"
  by (induction ps rule: adjacent_dup.induct) (auto split: if_splits)

lemma adjacent_dup_sort_key: "adjacent_dup (sort_key fst ps) = None \<longleftrightarrow> distinct (map fst ps)"
proof -
  have "mset (map fst (sort_key fst ps)) = mset (map fst ps)"
    by simp
  then have "distinct (map fst (sort_key fst ps)) \<longleftrightarrow> distinct (map fst ps)"
    by (rule mset_eq_imp_distinct_iff)
  then show ?thesis by (simp add: adjacent_dup_None_iff)
qed

lemma strictly_sorted_sort_key:
  "distinct (map fst ps) \<Longrightarrow> sorted_wrt (<) (map fst (sort_key fst ps))"
proof -
  assume "distinct (map fst ps)"
  then have "distinct (map fst (sort_key fst ps))"
    by (metis mset_eq_imp_distinct_iff mset_map mset_sort)
  then show ?thesis by (simp add: strict_sorted_iff)
qed

lemma sort_key_cong_mset:
  assumes "mset ps = mset qs" and "distinct (map fst ps)"
  shows "sort_key fst ps = sort_key fst qs"
proof (rule map_sorted_distinct_set_unique [where f = fst])
  have sets: "set (sort_key fst ps) = set ps" "set (sort_key fst qs) = set ps"
    using assms(1) by (auto dest: mset_eq_setD)
  then show "set (sort_key fst ps) = set (sort_key fst qs)" by simp
  have "distinct (map fst qs)"
    using assms by (metis mset_eq_imp_distinct_iff mset_map)
  with assms(2) show "distinct (map fst (sort_key fst ps))" "distinct (map fst (sort_key fst qs))"
    by (metis mset_eq_imp_distinct_iff mset_map mset_sort)+
  show "inj_on fst (set (sort_key fst ps) \<union> set (sort_key fst qs))"
    unfolding sets using assms(2) by (simp add: distinct_map)
qed simp_all

section \<open>Canonical events\<close>

text \<open>What Ajar's boundary demands of an event.\<close>

definition canonical_event :: "event \<Rightarrow> bool" where
  "canonical_event e \<longleftrightarrow>
     ev_schema_version e = SCHEMA_VERSION \<and> ev_received_at e = []
     \<and> ev_source_id e \<noteq> [] \<and> ev_entity_type e \<noteq> [] \<and> is_rfc3339 (ev_timestamp e)
     \<and> (\<forall>loc. ev_location e = Some loc \<longrightarrow> location_ok loc)
     \<and> f64_within (f64_of_int 0) (f64_of_int 1) (ev_confidence e)
     \<and> length (ev_attributes e) \<le> MAX_ATTRIBUTES \<and> length (ev_metadata e) \<le> MAX_METADATA
     \<and> sorted_wrt (<) (map a_key (ev_attributes e)) \<and> sorted_wrt (<) (map a_key (ev_metadata e))"

text \<open>The builder's settings under which \<open>build\<close> can succeed, stated on the settings alone.\<close>

definition buildable :: "event_builder \<Rightarrow> bool" where
  "buildable b \<longleftrightarrow>
     b_id b \<noteq> None \<and> (\<exists>ts. b_timestamp b = Some ts \<and> is_rfc3339 ts)
     \<and> (\<forall>loc. b_location b = Some loc \<longrightarrow> location_ok loc)
     \<and> b_source_id b \<noteq> [] \<and> b_entity_type b \<noteq> []
     \<and> (b_strict_entity_namespace b \<longrightarrow> is_namespaced (b_entity_type b))
     \<and> f64_within (f64_of_int 0) (f64_of_int 1) (b_confidence b)
     \<and> length (b_policy_tags b) \<le> MAX_POLICY_TAGS
     \<and> length (b_attributes b) \<le> MAX_ATTRIBUTES \<and> length (b_metadata b) \<le> MAX_METADATA
     \<and> distinct (map fst (b_attributes b)) \<and> distinct (map fst (b_metadata b))"

definition built_event :: "event_builder \<Rightarrow> event" where
  "built_event b =
     \<lparr> ev_schema_version = SCHEMA_VERSION, ev_id = the (b_id b), ev_source_id = b_source_id b,
       ev_entity_type = b_entity_type b, ev_timestamp = the (b_timestamp b), ev_received_at = [],
       ev_location = b_location b, ev_payload = b_payload b, ev_policy_tags = b_policy_tags b,
       ev_confidence = b_confidence b, ev_attributes = map to_attr (sort_key fst (b_attributes b)),
       ev_metadata = map to_attr (sort_key fst (b_metadata b)) \<rparr>"

lemma map_a_key_to_attr [simp]: "map a_key (map to_attr ps) = map fst ps"
  by (simp add: to_attr_def)

lemma build_Inr_iff: "build b = Inr e \<longleftrightarrow> buildable b \<and> e = built_event b"
proof -
  have "adjacent_dup (sort_key fst ps) = Some k \<Longrightarrow> \<not> distinct (map fst ps)" for ps k
    using adjacent_dup_sort_key [of ps] by simp
  then show ?thesis
    by (auto simp: build_def buildable_def built_event_def Let_def adjacent_dup_sort_key
        split: option.splits if_splits)
qed

lemma buildable_canonical: "buildable b \<Longrightarrow> canonical_event (built_event b)"
  by (auto simp: buildable_def built_event_def canonical_event_def strictly_sorted_sort_key
      simp flip: map_map)

section \<open>The timestamp grammar\<close>

text \<open>RFC 3339's \<open>date-time\<close>, with the ranges of its fields, as a grammar over strings.\<close>

definition digits_value :: "str \<Rightarrow> int" where
  "digits_value x = fold (\<lambda>c a. a * 10 + (of_char c - 48)) x 0"

definition number_in :: "nat \<Rightarrow> int \<Rightarrow> int \<Rightarrow> str \<Rightarrow> bool" where
  "number_in n lo hi x \<longleftrightarrow> length x = n \<and> list_all is_digit x \<and> lo \<le> digits_value x \<and> digits_value x \<le> hi"

definition zone_grammar :: "str \<Rightarrow> bool" where
  "zone_grammar z \<longleftrightarrow> z = ''Z'' \<or> z = ''z'' \<or>
     (\<exists>sg zh zm. z = [sg] @ zh @ '':'' @ zm \<and> (sg = CHR ''+'' \<or> sg = CHR ''-'')
        \<and> number_in 2 0 23 zh \<and> number_in 2 0 59 zm)"

definition frac_grammar :: "str \<Rightarrow> bool" where
  "frac_grammar fr \<longleftrightarrow> fr = [] \<or> (\<exists>f. fr = ''.'' @ f \<and> f \<noteq> [] \<and> list_all is_digit f)"

definition head_grammar :: "str \<Rightarrow> bool" where
  "head_grammar p \<longleftrightarrow>
     (\<exists>Y M D t h mi sec.
        p = Y @ ''-'' @ M @ ''-'' @ D @ [t] @ h @ '':'' @ mi @ '':'' @ sec
        \<and> number_in 4 0 9999 Y \<and> number_in 2 1 12 M \<and> number_in 2 1 31 D
        \<and> (t = CHR ''T'' \<or> t = CHR ''t'') \<and> number_in 2 0 23 h \<and> number_in 2 0 59 mi
        \<and> number_in 2 0 60 sec)"

definition rfc3339_grammar :: "str \<Rightarrow> bool" where
  "rfc3339_grammar s \<longleftrightarrow>
     (\<exists>p fr z. s = p @ fr @ z \<and> head_grammar p \<and> frac_grammar fr \<and> zone_grammar z)"

named_theorems shift_simps \<open>access to the part of a string behind a prefix\<close>

lemma slice_get_append [shift_simps]: "slice_get (p @ r) (length p + k) = slice_get r k"
  by (simp add: slice_get_def)

lemma digit_at_append [shift_simps]: "digit_at (p @ r) (length p + k) = digit_at r k"
  by (simp add: digit_at_def shift_simps)

lemma char_at_append [shift_simps]: "char_at (p @ r) (length p + k) ch = char_at r k ch"
  by (simp add: char_at_def shift_simps)

lemma digits_at_append [shift_simps]: "digits_at (p @ r) (length p + k) n = digits_at r k n"
  by (simp add: digits_at_def shift_simps add.assoc)

lemma num_at_append [shift_simps]: "num_at (p @ r) (length p + k) n = num_at r k n"
  by (simp add: num_at_def)

lemma skip_digits_eq: "skip_digits s i = i + length (takeWhile is_digit (drop i s))"
proof (induction s i rule: skip_digits.induct)
  case (1 s i)
  show ?case
  proof (cases "digit_at s i")
    case True
    then have i: "i < length s" "is_digit (s ! i)"
      by (auto simp: digit_at_def slice_get_def split: if_splits)
    then have "drop i s = s ! i # drop (Suc i) s" by (simp add: Cons_nth_drop_Suc)
    with i show ?thesis using "1.IH" [OF True] True by (subst skip_digits.simps) simp
  next
    case False
    then have "takeWhile is_digit (drop i s) = []"
      by (cases "drop i s")
         (auto simp: digit_at_def slice_get_def hd_drop_conv_nth dest: nth_via_drop split: if_splits)
    with False show ?thesis by (subst skip_digits.simps) simp
  qed
qed

lemma digits_in_range: "digits_at s i (Suc n) \<Longrightarrow> i + Suc n \<le> length s"
  by (auto simp: digits_at_def digit_at_def slice_get_def split: if_splits)

text \<open>The zone and the fraction, read from the start of a string.\<close>

definition zone_check :: "str \<Rightarrow> bool" where
  "zone_check z = (case slice_get z 0 of
       None \<Rightarrow> False
     | Some ch \<Rightarrow>
         if ch = CHR ''Z'' \<or> ch = CHR ''z'' then 1 = length z
         else if ch = CHR ''+'' \<or> ch = CHR ''-'' then
           digits_at z 1 2 \<and> char_at z 3 CHR '':'' \<and> digits_at z 4 2
           \<and> 6 = length z \<and> num_at z 1 2 \<le> 23 \<and> num_at z 4 2 \<le> 59
         else False)"

lemmas at_defs = digits_at_def digit_at_def char_at_def num_at_def slice_get_def

lemma list_length_2: "length x = 2 \<longleftrightarrow> (\<exists>a b. x = [a, b])"
  by (auto simp: numeral_2_eq_2 length_Suc_conv)

lemma list_length_4: "length x = 4 \<longleftrightarrow> (\<exists>a b c d. x = [a, b, c, d])"
  by (auto simp: numeral_eq_Suc length_Suc_conv)

lemma list_length_6: "length x = 6 \<longleftrightarrow> (\<exists>a b c d e f. x = [a, b, c, d, e, f])"
  by (auto simp: numeral_eq_Suc length_Suc_conv)

lemma upt_small: "[0..<2] = [0, 1]" "[0..<4] = [0, 1, 2, 3]"
  by (simp_all add: upt_rec)

lemma digits_value_nonneg: "list_all is_digit x \<Longrightarrow> 0 \<le> digits_value x"
proof -
  have "list_all is_digit x \<Longrightarrow> 0 \<le> a \<Longrightarrow> 0 \<le> fold (\<lambda>c a. a * 10 + (of_char c - 48)) x (a :: int)" for a
    by (induction x arbitrary: a) (auto simp: is_digit_def)
  then show "list_all is_digit x \<Longrightarrow> 0 \<le> digits_value x"
    by (simp add: digits_value_def)
qed

lemma number_in_2:
  "number_in 2 lo hi x \<longleftrightarrow>
     (\<exists>a b. x = [a, b] \<and> is_digit a \<and> is_digit b \<and> lo \<le> digits_value [a, b] \<and> digits_value [a, b] \<le> hi)"
  by (auto simp: number_in_def list_length_2)

lemma zone_grammar_alt:
  "zone_grammar z \<longleftrightarrow> z = ''Z'' \<or> z = ''z'' \<or>
     (\<exists>sg a b d e. z = [sg, a, b, CHR '':'', d, e] \<and> (sg = CHR ''+'' \<or> sg = CHR ''-'')
        \<and> is_digit a \<and> is_digit b \<and> is_digit d \<and> is_digit e
        \<and> digits_value [a, b] \<le> 23 \<and> digits_value [d, e] \<le> 59)"
proof -
  have nonneg: "is_digit a \<Longrightarrow> is_digit b \<Longrightarrow> 0 \<le> digits_value [a, b]" for a b
    by (rule digits_value_nonneg) simp
  show ?thesis (is "_ \<longleftrightarrow> ?rhs")
  proof
    assume "zone_grammar z"
    then show ?rhs by (auto simp: zone_grammar_def number_in_2)
  next
    assume rhs: ?rhs
    have "number_in 2 0 23 [a, b]" if "is_digit a" "is_digit b" "digits_value [a, b] \<le> 23" for a b
      using that nonneg by (simp add: number_in_def)
    moreover have "number_in 2 0 59 [a, b]" if "is_digit a" "is_digit b" "digits_value [a, b] \<le> 59" for a b
      using that nonneg by (simp add: number_in_def)
    moreover have "[sg, a, b, c, d, e] = [sg] @ [a, b] @ [c] @ [d, e]" for sg a b c d e :: char
      by simp
    ultimately show "zone_grammar z"
      using rhs unfolding zone_grammar_def by metis
  qed
qed

lemma zone_grammar_nondigit: "zone_grammar z \<Longrightarrow> z \<noteq> [] \<and> \<not> is_digit (hd z)"
proof -
  have "\<not> is_digit CHR ''Z''" "\<not> is_digit CHR ''z''" "\<not> is_digit CHR ''+''" "\<not> is_digit CHR ''-''"
    by (simp_all add: is_digit_def)
  then show "zone_grammar z \<Longrightarrow> z \<noteq> [] \<and> \<not> is_digit (hd z)"
    unfolding zone_grammar_alt by auto
qed

lemma zone_check_grammar: "zone_check z = zone_grammar z"
proof (cases "length z = 6")
  case True
  then obtain ch a b c d e where z: "z = [ch, a, b, c, d, e]"
    using list_length_6 [of z] by auto
  show ?thesis
    unfolding zone_grammar_alt
    by (auto simp: zone_check_def z at_defs upt_small digits_value_def)
next
  case False
  then show ?thesis
    by (cases z) (auto simp: zone_check_def zone_grammar_alt at_defs)
qed

definition tail_check :: "str \<Rightarrow> bool" where
  "tail_check r =
     (let start = (if char_at r 0 CHR ''.'' then 1 else 0);
          i = (if char_at r 0 CHR ''.'' then skip_digits r 1 else 0)
      in if char_at r 0 CHR ''.'' \<and> i = start then False else zone_check (drop i r))"

lemma tail_check_grammar: "tail_check r \<longleftrightarrow> (\<exists>fr z. r = fr @ z \<and> frac_grammar fr \<and> zone_grammar z)"
proof (cases "\<exists>r'. r = CHR ''.'' # r'")
  case True
  then obtain r' where r: "r = CHR ''.'' # r'" by blast
  let ?f = "takeWhile is_digit r'" and ?z = "dropWhile is_digit r'"
  have z: "drop (length ?f) r' = ?z" by (rule dropWhile_eq_drop [symmetric])
  have lhs: "tail_check r \<longleftrightarrow> ?f \<noteq> [] \<and> zone_grammar ?z"
    by (auto simp: tail_check_def r at_defs skip_digits_eq zone_check_grammar z)
  show ?thesis
  proof
    assume "tail_check r"
    with lhs have "?f \<noteq> []" "zone_grammar ?z" by auto
    moreover have "list_all is_digit ?f" by (auto simp: list_all_iff dest: set_takeWhileD)
    moreover have "r = (''.'' @ ?f) @ ?z" by (simp add: r)
    ultimately show "\<exists>fr z. r = fr @ z \<and> frac_grammar fr \<and> zone_grammar z"
      unfolding frac_grammar_def by blast
  next
    assume "\<exists>fr z. r = fr @ z \<and> frac_grammar fr \<and> zone_grammar z"
    then obtain f z where fz: "r' = f @ z" "f \<noteq> []" "list_all is_digit f" "zone_grammar z"
      using r by (auto simp: frac_grammar_def zone_grammar_alt)
    with zone_grammar_nondigit [of z] have "?f = f" "?z = z"
      by (cases z; auto simp: list_all_iff takeWhile_append2 dropWhile_append2)+
    with fz lhs show "tail_check r" by simp
  qed
next
  case False
  then have "\<not> char_at r 0 CHR ''.''" by (cases r) (auto simp: at_defs)
  then have "tail_check r \<longleftrightarrow> zone_grammar r"
    by (simp add: tail_check_def zone_check_grammar)
  moreover have "zone_grammar r \<longleftrightarrow> (\<exists>fr z. r = fr @ z \<and> frac_grammar fr \<and> zone_grammar z)"
    using False by (auto simp: frac_grammar_def)
  ultimately show ?thesis by simp
qed

lemma zone_check_shift:
  "(case slice_get r j of None \<Rightarrow> False
     | Some ch \<Rightarrow>
         if ch = CHR ''Z'' \<or> ch = CHR ''z'' then j + 1 = length r
         else if ch = CHR ''+'' \<or> ch = CHR ''-'' then
           digits_at r (j + 1) 2 \<and> char_at r (j + 3) CHR '':'' \<and> digits_at r (j + 4) 2
           \<and> j + 6 = length r \<and> num_at r (j + 1) 2 \<le> 23 \<and> num_at r (j + 4) 2 \<le> 59
         else False) = zone_check (drop j r)"
proof (cases "j \<le> length r")
  case True
  then obtain p z where pz: "r = p @ z" "length p = j"
    by (metis append_take_drop_id length_take min.absorb2)
  have get: "slice_get r j = slice_get z 0" "digits_at r (j + k) n = digits_at z k n"
      "char_at r (j + k) ch = char_at z k ch" "num_at r (j + k) n = num_at z k n" for k n ch
    using shift_simps [of p z] slice_get_append [of p z 0] by (simp_all add: pz)
  have "drop j r = z" using pz by simp
  then show ?thesis
    unfolding zone_check_def get using pz by (auto split: option.split)
qed (simp add: zone_check_def slice_get_def)

lemma tail_check_shift:
  assumes "length p = 19"
  shows "(let start = (if char_at (p @ r) 19 CHR ''.'' then 20 else 19);
           i = (if char_at (p @ r) 19 CHR ''.'' then skip_digits (p @ r) 20 else 19)
       in if char_at (p @ r) 19 CHR ''.'' \<and> i = start then False
          else case slice_get (p @ r) i of None \<Rightarrow> False
            | Some ch \<Rightarrow>
                if ch = CHR ''Z'' \<or> ch = CHR ''z'' then i + 1 = length (p @ r)
                else if ch = CHR ''+'' \<or> ch = CHR ''-'' then
                  digits_at (p @ r) (i + 1) 2 \<and> char_at (p @ r) (i + 3) CHR '':''
                  \<and> digits_at (p @ r) (i + 4) 2 \<and> i + 6 = length (p @ r)
                  \<and> num_at (p @ r) (i + 1) 2 \<le> 23 \<and> num_at (p @ r) (i + 4) 2 \<le> 59
                else False) = tail_check r"
proof -
  have dot: "char_at (p @ r) 19 ch = char_at r 0 ch" for ch
    using char_at_append [of p r 0] assms by simp
  have skip: "skip_digits (p @ r) 20 = 19 + skip_digits r 1"
    using assms by (simp add: skip_digits_eq)
  have zone: "zone_check (drop (19 + j) (p @ r)) = zone_check (drop j r)" for j
    using assms by simp
  show ?thesis
    unfolding zone_check_shift tail_check_def dot skip Let_def
    using zone [of "skip_digits r 1"] zone [of 0] by (simp add: skip_digits_eq)
qed

text \<open>The fixed part: nineteen characters.\<close>

lemma head_split:
  assumes "length (p :: 'a list) = 19"
  obtains a b c d e f g h i j k l m n q t u v w where "p = [a, b, c, d, e, f, g, h, i, j, k, l, m, n, q, t, u, v, w]"
  using assms by (auto simp: numeral_eq_Suc length_Suc_conv)

definition head_check :: "str \<Rightarrow> bool" where
  "head_check s \<longleftrightarrow>
     digits_at s 0 4 \<and> char_at s 4 CHR ''-'' \<and> digits_at s 5 2 \<and> char_at s 7 CHR ''-''
     \<and> digits_at s 8 2 \<and> (char_at s 10 CHR ''T'' \<or> char_at s 10 CHR ''t'')
     \<and> digits_at s 11 2 \<and> char_at s 13 CHR '':'' \<and> digits_at s 14 2
     \<and> char_at s 16 CHR '':'' \<and> digits_at s 17 2
     \<and> 1 \<le> num_at s 5 2 \<and> num_at s 5 2 \<le> 12 \<and> 1 \<le> num_at s 8 2 \<and> num_at s 8 2 \<le> 31
     \<and> num_at s 11 2 \<le> 23 \<and> num_at s 14 2 \<le> 59 \<and> num_at s 17 2 \<le> 60"

lemma digits_value_4: "is_digit a \<Longrightarrow> is_digit b \<Longrightarrow> is_digit c \<Longrightarrow> is_digit d \<Longrightarrow>
    0 \<le> digits_value [a, b, c, d] \<and> digits_value [a, b, c, d] \<le> 9999"
  by (simp add: digits_value_def is_digit_def)

lemma number_in_4: "number_in 4 0 9999 x \<longleftrightarrow> (\<exists>a b c d. x = [a, b, c, d] \<and> list_all is_digit x)"
  by (auto simp: number_in_def list_length_4 dest: digits_value_4)

lemma head_grammar_alt:
  "head_grammar p \<longleftrightarrow>
     (\<exists>a b c d f g i j t l m q u v w.
        p = [a, b, c, d, CHR ''-'', f, g, CHR ''-'', i, j, t, l, m, CHR '':'', q, u, CHR '':'', v, w]
        \<and> list_all is_digit [a, b, c, d, f, g, i, j, l, m, q, u, v, w]
        \<and> 1 \<le> digits_value [f, g] \<and> digits_value [f, g] \<le> 12
        \<and> 1 \<le> digits_value [i, j] \<and> digits_value [i, j] \<le> 31
        \<and> (t = CHR ''T'' \<or> t = CHR ''t'') \<and> digits_value [l, m] \<le> 23
        \<and> digits_value [q, u] \<le> 59 \<and> digits_value [v, w] \<le> 60)" (is "_ \<longleftrightarrow> ?rhs")
proof
  assume "head_grammar p"
  then show ?rhs by (force simp: head_grammar_def number_in_2 number_in_4)
next
  assume ?rhs
  then obtain a b c d f g i j t l m q u v w where
    p: "p = [a, b, c, d] @ ''-'' @ [f, g] @ ''-'' @ [i, j] @ [t] @ [l, m] @ '':'' @ [q, u] @ '':'' @ [v, w]"
    and dig: "list_all is_digit [a, b, c, d, f, g, i, j, l, m, q, u, v, w]"
    and t: "t = CHR ''T'' \<or> t = CHR ''t''"
    and rng: "1 \<le> digits_value [f, g]" "digits_value [f, g] \<le> 12" "1 \<le> digits_value [i, j]"
      "digits_value [i, j] \<le> 31" "digits_value [l, m] \<le> 23" "digits_value [q, u] \<le> 59"
      "digits_value [v, w] \<le> 60"
    by auto
  have "number_in 4 0 9999 [a, b, c, d]" "number_in 2 1 12 [f, g]" "number_in 2 1 31 [i, j]"
      "number_in 2 0 23 [l, m]" "number_in 2 0 59 [q, u]" "number_in 2 0 60 [v, w]"
    using dig rng digits_value_4 [of a b c d] digits_value_nonneg [of "[l, m]"]
      digits_value_nonneg [of "[q, u]"] digits_value_nonneg [of "[v, w]"]
    by (simp_all add: number_in_def)
  with p t show "head_grammar p" unfolding head_grammar_def by blast
qed

lemma head_check_grammar:
  assumes "length p = 19"
  shows "head_check (p @ r) = head_grammar p"
proof -
  from assms obtain a b c d e f g h i j k l m n q t u v w where
    p: "p = [a, b, c, d, e, f, g, h, i, j, k, l, m, n, q, t, u, v, w]"
    by (rule head_split)
  show ?thesis
    unfolding head_check_def head_grammar_alt p
    by (auto simp: at_defs upt_small digits_value_def)
qed

lemma length_head_grammar: "head_grammar p \<Longrightarrow> length p = 19"
  by (auto simp: head_grammar_alt)

section \<open>Properties\<close>

lemma rfc3339_iff: "is_rfc3339 s \<longleftrightarrow> rfc3339_grammar s"
proof -
  have split: "rfc3339_grammar s \<longleftrightarrow>
      (\<exists>p r. s = p @ r \<and> head_grammar p \<and> (\<exists>fr z. r = fr @ z \<and> frac_grammar fr \<and> zone_grammar z))"
    unfolding rfc3339_grammar_def by blast
  show ?thesis
  proof (cases "length s < 20")
    case True
    have "False" if "head_grammar p" "zone_grammar z" "s = p @ fr @ z" for p fr z
      using True that length_head_grammar zone_grammar_nondigit by (cases z) fastforce+
    with True show ?thesis unfolding split is_rfc3339_def by auto
  next
    case False
    define p r where pr: "p = take 19 s" "r = drop 19 s"
    then have len: "length p = 19" and s: "s = p @ r" using False by auto
    have guards: "(if l then False else if \<not> A then False else if \<not> B then False else T)
        \<longleftrightarrow> \<not> l \<and> (A \<and> B) \<and> T" for l A B T by simp
    have "is_rfc3339 s \<longleftrightarrow> head_check (p @ r) \<and> tail_check r"
      using False unfolding is_rfc3339_def guards s tail_check_shift [OF len] head_check_def
      by (simp only: conj_assoc not_less simp_thms)
    also have "\<dots> \<longleftrightarrow> head_grammar p \<and> tail_check r"
      by (simp add: head_check_grammar len)
    also have "\<dots> \<longleftrightarrow> rfc3339_grammar s"
    proof -
      have uniq: "p' = p \<and> r' = r" if "head_grammar p'" "s = p' @ r'" for p' r'
        using that len length_head_grammar [of p'] unfolding s by (simp add: append_eq_append_conv)
      show ?thesis
        unfolding split tail_check_grammar using uniq s by blast
    qed
    finally show ?thesis .
  qed
qed

text \<open>C38. The hand-written timestamp check accepts exactly the strings of the RFC 3339
  \<open>date-time\<close> grammar, with every numeric field in its range.\<close>

theorem is_rfc3339_grammar: "is_rfc3339 s \<longleftrightarrow> rfc3339_grammar s"
  by (rule rfc3339_iff)

text \<open>The namespace check accepts exactly \<open>mim:<type>\<close> and \<open>x:<vendor>:<type>\<close> with
  non-empty parts free of colons.\<close>

theorem is_namespaced_iff:
  "is_namespaced ty \<longleftrightarrow>
     (\<exists>t. ty = ''mim:'' @ t \<and> t \<noteq> [] \<and> CHR '':'' \<notin> set t) \<or>
     (\<exists>v t. ty = ''x:'' @ v @ '':'' @ t \<and> v \<noteq> [] \<and> t \<noteq> []
            \<and> CHR '':'' \<notin> set v \<and> CHR '':'' \<notin> set t)"
proof -
  have colon: "(case find_char CHR '':'' rest of
        Some k \<Rightarrow> take k rest \<noteq> [] \<and> drop (Suc k) rest \<noteq> [] \<and> CHR '':'' \<notin> set (drop (Suc k) rest)
      | None \<Rightarrow> False) \<longleftrightarrow>
      (\<exists>v t. rest = v @ '':'' @ t \<and> v \<noteq> [] \<and> t \<noteq> [] \<and> CHR '':'' \<notin> set v \<and> CHR '':'' \<notin> set t)" for rest
  proof (cases "find_char CHR '':'' rest")
    case None
    then have "CHR '':'' \<notin> set rest" by (simp add: find_char_None_iff)
    with None show ?thesis by auto
  next
    case (Some k)
    then obtain v t where vt: "rest = v @ CHR '':'' # t" "CHR '':'' \<notin> set v" "k = length v"
      by (auto simp: find_char_Some_iff)
    have uniq: "v' = v \<and> t' = t" if "rest = v' @ '':'' @ t'" "CHR '':'' \<notin> set v'" for v' t'
      using that vt by (auto simp: append_eq_append_conv2 append_eq_Cons_conv Cons_eq_append_conv)
    have "rest = v @ '':'' @ t" using vt by simp
    then have "(\<exists>v t. rest = v @ '':'' @ t \<and> v \<noteq> [] \<and> t \<noteq> [] \<and> CHR '':'' \<notin> set v \<and> CHR '':'' \<notin> set t)
        \<longleftrightarrow> v \<noteq> [] \<and> t \<noteq> [] \<and> CHR '':'' \<notin> set t"
      using uniq vt(2) by blast
    with Some vt show ?thesis by simp
  qed
  consider (mim) t where "ty = ''mim:'' @ t" | (ext) r where "ty = ''x:'' @ r"
    | (other) "strip_prefix ty ''mim:'' = None" "strip_prefix ty ''x:'' = None"
    by (metis not_Some_eq strip_prefix_Some_iff)
  then show ?thesis
  proof cases
    case (ext r)
    then have "strip_prefix ty ''mim:'' = None" "strip_prefix ty ''x:'' = Some r"
      by (simp_all add: strip_prefix_def)
    then show ?thesis using ext unfolding is_namespaced_def by (simp only: option.case colon) auto
  qed (auto simp: is_namespaced_def strip_prefix_Some_iff strip_prefix_None_iff strip_prefix_def)
qed

text \<open>C32. \<open>build\<close> succeeds exactly on buildable settings, and then returns the settings with the
  attributes and the metadata sorted by key, schema version v1 and no receive time.\<close>

theorem build_succeeds_iff: "build b = Inr e \<longleftrightarrow> buildable b \<and> e = built_event b"
  by (rule build_Inr_iff)

text \<open>C6. Every event \<open>build\<close> returns is canonical: required fields set, a valid timestamp,
  position and confidence, the limits kept, and attribute and metadata keys strictly increasing.\<close>

theorem build_canonical:
  "build b = Inr e \<Longrightarrow> canonical_event e \<and> length (ev_policy_tags e) \<le> MAX_POLICY_TAGS"
  by (auto simp: build_Inr_iff buildable_canonical) (simp add: built_event_def buildable_def)

text \<open>The order in which attributes and metadata are added does not change the event: two
  builders that agree as multisets build the same event.\<close>

theorem build_order_independent:
  assumes "build b = Inr e"
    and "mset as = mset (b_attributes b)" and "mset ms = mset (b_metadata b)"
  shows "build (b\<lparr>b_attributes := as, b_metadata := ms\<rparr>) = Inr e"
proof -
  from assms(1) have b: "buildable b" "e = built_event b" by (auto simp: build_Inr_iff)
  then have d: "distinct (map fst (b_attributes b))" "distinct (map fst (b_metadata b))"
    by (auto simp: buildable_def)
  have sorted: "sort_key fst as = sort_key fst (b_attributes b)"
      "sort_key fst ms = sort_key fst (b_metadata b)"
    using sort_key_cong_mset [OF _ d(1)] sort_key_cong_mset [OF _ d(2)] assms(2,3) by metis+
  have "distinct (map fst as)" "distinct (map fst ms)" "length as = length (b_attributes b)"
      "length ms = length (b_metadata b)"
    using d assms(2,3) by (metis mset_eq_imp_distinct_iff mset_map, metis mset_eq_imp_distinct_iff mset_map,
        metis mset_eq_length, metis mset_eq_length)
  with b sorted show ?thesis
    by (simp add: build_Inr_iff buildable_def built_event_def)
qed

section \<open>Witnesses\<close>

definition ex_builder :: event_builder where
  "ex_builder =
     eb_metadata ''mmsi'' ''227006760'' (eb_attribute ''heading'' ''225'' (eb_attribute ''speed'' ''110''
       (eb_location (f64_of_rat (2527 / 100)) (f64_of_rat (5152 / 100)) (f64_of_int 10600)
         (eb_now ''2026-06-10T08:00:00.123+02:00'' (eb_new_id ''0192f1f4'' (eb_new ''acme-radar-1'' ''mim:aircraft''))))))"

lemma ex_builder_buildable: "buildable ex_builder"
proof -
  have "is_rfc3339 ''2026-06-10T08:00:00.123+02:00''" by code_simp
  moreover have "location_ok \<lparr>latitude = f64_of_rat (2527 / 100), longitude = f64_of_rat (5152 / 100),
      altitude_m = f64_of_int 10600\<rparr>"
    by code_simp
  moreover have "is_namespaced ''mim:aircraft''" by code_simp
  moreover have "f64_within (f64_of_int 0) (f64_of_int 1) (FNum False 0)" by code_simp
  ultimately show ?thesis
    by (simp add: buildable_def ex_builder_def eb_defs eb_new_def MAX_ATTRIBUTES_def MAX_METADATA_def
        MAX_POLICY_TAGS_def)
qed

theorem build_canonical_witness:
  "build ex_builder = Inr (built_event ex_builder) \<and> canonical_event (built_event ex_builder)
   \<and> length (ev_policy_tags (built_event ex_builder)) \<le> MAX_POLICY_TAGS"
proof -
  have "build ex_builder = Inr (built_event ex_builder)"
    by (simp add: build_Inr_iff ex_builder_buildable)
  from build_canonical [OF this] this show ?thesis by simp
qed

theorem build_order_independent_witness:
  "build (ex_builder\<lparr>b_attributes := [(''heading'', ''225''), (''speed'', ''110'')], b_metadata := [(''mmsi'', ''227006760'')]\<rparr>)
     = Inr (built_event ex_builder)"
  by (rule build_order_independent)
     (simp_all add: build_Inr_iff ex_builder_buildable, simp_all add: ex_builder_def eb_defs eb_new_def)

end
