(* ===== verification/Seal.thy ===== *)
theory Seal
  imports Event_Builder
begin

text \<open>
  \<open>rust/ajar-connector/src/seal.rs\<close>, \<open>canonical.rs\<close> and \<open>consumer.rs\<close>: the envelope of an
  Ed25519 signature and the canonical bytes, its verification, and the stream of verified events
  with its guards and counters. The signature scheme (\<open>ed25519-dalek\<close>) and the protobuf codec
  (\<open>prost\<close>, generated code) are arguments: the record \<open>ed25519\<close> and the functions
  \<open>encode\<close> and \<open>decode\<close>. What is relied on is \<open>ed25519_correct\<close>, that a signature has 64 bytes
  and verifies under its own key, and for the codec that a decoded encoding is the event.
\<close>

record ed25519 =
  ed_sign :: "bytes \<Rightarrow> bytes \<Rightarrow> bytes"
  ed_verifying_key :: "bytes \<Rightarrow> bytes"
  ed_signature_ok :: "bytes \<Rightarrow> bool"
  ed_verify :: "bytes \<Rightarrow> bytes \<Rightarrow> bytes \<Rightarrow> bool"

definition SEAL_SIGNATURE_LEN :: nat where "SEAL_SIGNATURE_LEN = 64"

definition ed25519_correct :: "ed25519 \<Rightarrow> bool" where
  "ed25519_correct E \<longleftrightarrow> (\<forall>sk m. length (ed_sign E sk m) = SEAL_SIGNATURE_LEN
     \<and> ed_signature_ok E (ed_sign E sk m) \<and> ed_verify E (ed_verifying_key E sk) m (ed_sign E sk m))"

datatype seal_error = Truncated nat | MalformedSignature | Unverified

definition canonical_bytes :: "(event \<Rightarrow> bytes) \<Rightarrow> event \<Rightarrow> bytes" where
  "canonical_bytes encode e = encode e"

definition seal :: "ed25519 \<Rightarrow> bytes \<Rightarrow> bytes \<Rightarrow> bytes" where
  "seal E canonical signing_key = ed_sign E signing_key canonical @ canonical"

definition verify :: "ed25519 \<Rightarrow> bytes \<Rightarrow> bytes \<Rightarrow> seal_error + bytes" where
  "verify E sealed verifying_key =
     (if length sealed < SEAL_SIGNATURE_LEN then Inl (Truncated (length sealed))
      else let sig = take SEAL_SIGNATURE_LEN sealed; canonical = drop SEAL_SIGNATURE_LEN sealed
           in if \<not> ed_signature_ok E sig then Inl MalformedSignature
              else if \<not> ed_verify E verifying_key canonical sig then Inl Unverified
              else Inr canonical)"

lemma verify_seal:
  "ed25519_correct E \<Longrightarrow> verify E (seal E m sk) (ed_verifying_key E sk) = Inr m"
  by (simp add: verify_def seal_def ed25519_correct_def)

lemma verify_Inr_iff:
  "verify E sealed vk = Inr m \<longleftrightarrow>
     (\<exists>sig. sealed = sig @ m \<and> length sig = SEAL_SIGNATURE_LEN \<and> ed_signature_ok E sig
            \<and> ed_verify E vk m sig)"
  by (auto simp: verify_def Let_def split: if_splits)
     (metis append_take_drop_id length_take linorder_not_less min.absorb2)

section \<open>The verified stream\<close>

record delivery =
  d_event :: event
  d_payload :: bytes
  d_subject :: str

record guards =
  skip_source_ids :: "str list"
  skip_derived :: bool

text \<open>The counters are \<open>AtomicU64\<close>, whose \<open>fetch_add\<close> wraps.\<close>

record stats =
  accepted :: u64
  rejected :: u64
  skipped :: u64

definition is_skipped :: "guards \<Rightarrow> event \<Rightarrow> bool" where
  "is_skipped g e \<longleftrightarrow> ev_source_id e \<in> set (skip_source_ids g)
     \<or> (skip_derived g \<and> list_ex (\<lambda>a. a_key a = ''model'') (ev_attributes e))"

definition process :: "ed25519 \<Rightarrow> (bytes \<Rightarrow> event option) \<Rightarrow> bytes \<Rightarrow> guards
    \<Rightarrow> str \<times> bytes \<Rightarrow> stats \<Rightarrow> stats \<times> delivery option" where
  "process E decode egress_key g msg st =
     (case verify E (snd msg) egress_key of
        Inl _ \<Rightarrow> (st\<lparr>rejected := rejected st + 1\<rparr>, None)
      | Inr canonical \<Rightarrow>
          (case decode canonical of
             None \<Rightarrow> (st\<lparr>rejected := rejected st + 1\<rparr>, None)
           | Some e \<Rightarrow>
               if is_skipped g e then (st\<lparr>skipped := skipped st + 1\<rparr>, None)
               else (st\<lparr>accepted := accepted st + 1\<rparr>,
                     Some \<lparr>d_event = e, d_payload = ev_payload e, d_subject = fst msg\<rparr>)))"

text \<open>\<open>verified_events\<close>: the subscription filtered through \<open>process\<close>.\<close>

fun verified_events :: "ed25519 \<Rightarrow> (bytes \<Rightarrow> event option) \<Rightarrow> bytes \<Rightarrow> guards
    \<Rightarrow> (str \<times> bytes) list \<Rightarrow> stats \<Rightarrow> stats \<times> delivery list" where
  "verified_events E decode k g [] st = (st, [])"
| "verified_events E decode k g (m # ms) st =
     (let (st', d) = process E decode k g m st; (st'', ds) = verified_events E decode k g ms st'
      in (st'', case d of Some x \<Rightarrow> x # ds | None \<Rightarrow> ds))"

lemma process_counts:
  "process E decode k g m st = (st', d) \<Longrightarrow>
     accepted st' + rejected st' + skipped st' = accepted st + rejected st + skipped st + 1
     \<and> accepted st' = accepted st + of_nat (length (case d of Some x \<Rightarrow> [x] | None \<Rightarrow> []))"
  by (auto simp: process_def split: sum.splits option.splits if_splits)

lemma process_Some:
  "process E decode k g m st = (st', Some d) \<Longrightarrow>
     \<exists>canonical. verify E (snd m) k = Inr canonical \<and> decode canonical = Some (d_event d)
       \<and> \<not> is_skipped g (d_event d) \<and> d_payload d = ev_payload (d_event d) \<and> d_subject d = fst m"
  by (auto simp: process_def split: sum.splits option.splits if_splits)

section \<open>Properties\<close>

text \<open>Verifying a sealed envelope with the signer's verifying key returns the bytes that were
  sealed.\<close>

theorem verify_of_seal:
  assumes "ed25519_correct E"
  shows "verify E (seal E canonical sk) (ed_verifying_key E sk) = Inr canonical"
  using assms by (rule verify_seal)

text \<open>What \<open>verify\<close> returns is the suffix behind a 64-byte signature that the scheme accepts
  over exactly those bytes; each error is returned exactly in its case.\<close>

theorem verify_cases:
  "(verify E sealed vk = Inr m \<longleftrightarrow>
      (\<exists>sig. sealed = sig @ m \<and> length sig = 64 \<and> ed_signature_ok E sig \<and> ed_verify E vk m sig))
   \<and> (verify E sealed vk = Inl (Truncated n) \<longleftrightarrow> length sealed = n \<and> n < 64)
   \<and> (verify E sealed vk = Inl MalformedSignature \<longleftrightarrow>
        64 \<le> length sealed \<and> \<not> ed_signature_ok E (take 64 sealed))
   \<and> (verify E sealed vk = Inl Unverified \<longleftrightarrow>
        64 \<le> length sealed \<and> ed_signature_ok E (take 64 sealed)
        \<and> \<not> ed_verify E vk (drop 64 sealed) (take 64 sealed))"
  by (auto simp: verify_Inr_iff SEAL_SIGNATURE_LEN_def) (auto simp: verify_def Let_def SEAL_SIGNATURE_LEN_def split: if_splits)

text \<open>The verified stream yields only events decoded from bytes whose seal verified under the
  egress key and that no guard skips, in arrival order, and every message is counted exactly once
  (counters modulo \<open>2^64\<close>), the accepted counter being the number of deliveries.\<close>

theorem verified_events_sound:
  "verified_events E decode k g ms st = (st', ds) \<Longrightarrow>
     (\<forall>d \<in> set ds. \<exists>sealed canonical. (d_subject d, sealed) \<in> set ms \<and> verify E sealed k = Inr canonical
        \<and> decode canonical = Some (d_event d) \<and> \<not> is_skipped g (d_event d)
        \<and> d_payload d = ev_payload (d_event d))
     \<and> subseq (map d_subject ds) (map fst ms)
     \<and> accepted st' = accepted st + of_nat (length ds)
     \<and> accepted st' + rejected st' + skipped st'
         = accepted st + rejected st + skipped st + of_nat (length ms)"
proof (induction ms arbitrary: st st' ds)
  case (Cons m ms)
  obtain st1 d where p: "process E decode k g m st = (st1, d)" by force
  obtain st2 ds2 where v: "verified_events E decode k g ms st1 = (st2, ds2)" by force
  from Cons.prems p v have eq: "st' = st2" "ds = (case d of Some x \<Rightarrow> x # ds2 | None \<Rightarrow> ds2)" by auto
  note ih = Cons.IH [OF v] and cnt = process_counts [OF p]
  have total: "accepted st' + rejected st' + skipped st'
      = accepted st + rejected st + skipped st + of_nat (length (m # ms))"
  proof -
    have "accepted st' + rejected st' + skipped st' = (accepted st1 + rejected st1 + skipped st1) + of_nat (length ms)"
      using ih eq(1) by blast
    also have "\<dots> = (accepted st + rejected st + skipped st + 1) + of_nat (length ms)"
      using conjunct1 [OF cnt] by (simp only:)
    finally show ?thesis by (simp add: ac_simps)
  qed
  have acc: "accepted st' = accepted st + of_nat (length ds)"
    using ih cnt eq by (cases d) simp_all
  show ?case
  proof (cases d)
    case None
    with eq ih have "ds = ds2" "subseq (map d_subject ds) (map fst (m # ms))"
      by (simp_all add: list_emb_Cons)
    with ih total acc show ?thesis by (meson list.set_intros(2))
  next
    case (Some x)
    from process_Some [OF p [unfolded Some]] obtain canonical where
      x: "verify E (snd m) k = Inr canonical" "decode canonical = Some (d_event x)"
        "\<not> is_skipped g (d_event x)" "d_payload x = ev_payload (d_event x)" "d_subject x = fst m"
      by blast
    then have "(d_subject x, snd m) \<in> set (m # ms)" by simp
    moreover have "ds = x # ds2" "subseq (map d_subject ds) (map fst (m # ms))"
      using Some eq ih x(5) by simp_all
    ultimately show ?thesis using x ih total acc by (metis (no_types, lifting) list.set_intros(2) set_ConsD)
  qed
qed simp

section \<open>Witnesses\<close>

text \<open>A scheme for evaluation: the signature of a message is its sum with the key, repeated.\<close>

definition toy_tag :: "bytes \<Rightarrow> bytes \<Rightarrow> bytes" where
  "toy_tag k m = replicate 64 (fold (+) (k @ m) 0)"

definition toy_scheme :: ed25519 where
  "toy_scheme = \<lparr>ed_sign = toy_tag, ed_verifying_key = id, ed_signature_ok = (\<lambda>s. length s = 64),
     ed_verify = (\<lambda>k m s. s = toy_tag k m)\<rparr>"

lemma toy_scheme_correct: "ed25519_correct toy_scheme"
  by (simp add: ed25519_correct_def toy_scheme_def toy_tag_def SEAL_SIGNATURE_LEN_def)

theorem verify_of_seal_witness:
  "ed25519_correct toy_scheme
   \<and> verify toy_scheme (seal toy_scheme [104, 105] [7]) (ed_verifying_key toy_scheme [7]) = Inr [104, 105]"
  using verify_of_seal [OF toy_scheme_correct, of "[104, 105]" "[7]"] toy_scheme_correct by simp

definition ex_event :: event where
  "ex_event = built_event ex_builder"

theorem verified_events_sound_witness:
  "\<exists>st' ds. verified_events toy_scheme (\<lambda>_. Some ex_event) [7] \<lparr>skip_source_ids = [], skip_derived = True\<rparr>
      [(''s'', seal toy_scheme [1] [7]), (''t'', [1])] \<lparr>accepted = 0, rejected = 0, skipped = 0\<rparr> = (st', ds)
    \<and> accepted st' = of_nat (length ds) \<and> accepted st' + rejected st' + skipped st' = 2"
proof -
  obtain st' ds where v: "verified_events toy_scheme (\<lambda>_. Some ex_event) [7]
      \<lparr>skip_source_ids = [], skip_derived = True\<rparr>
      [(''s'', seal toy_scheme [1] [7]), (''t'', [1])] \<lparr>accepted = 0, rejected = 0, skipped = 0\<rparr> = (st', ds)"
    by force
  note sound = verified_events_sound [OF v]
  from sound have "accepted st' = of_nat (length ds)" by simp
  moreover from sound have "accepted st' + rejected st' + skipped st' = 0 + 0 + 0 + of_nat (length
      [(''s'', seal toy_scheme [1] [7]), (''t'', [1])])"
    by (metis stats.select_convs)
  ultimately show ?thesis using v by auto
qed

end
