(* ===== verification/Marking.thy ===== *)
theory Marking
  imports Event_Builder
begin

text \<open>
  \<open>rust/connectors/common/src/marking.rs\<close>: the operator's security marking, its validation
  (\<open>from_config\<close>), the stamp put on every event before it is sealed (\<open>marking_apply\<close>), and
  the tags of a classification label read from a wire format (\<open>wire_classification\<close>). A
  \<open>Marking\<close> is its list of tags. The lemmas show that the configured level is a floor, that one
  class tag remains and carries the highest level, that stamping is idempotent and keeps every
  other tag, and that an unreadable wire label is never under-classified.
\<close>

section \<open>Levels and tokens\<close>

definition LEVELS :: "str list" where
  "LEVELS = [''unclassified'', ''restricted'', ''confidential'', ''secret'', ''top-secret'']"

definition MAX_CONFIG_TAGS :: nat where "MAX_CONFIG_TAGS = 16"

record marking_config =
  mc_classification :: "str option"
  mc_releasable_to :: "str list"
  mc_policy :: "str option"
  mc_caveats :: "str list"

datatype marking_error =
    Empty
  | UnknownLevel str
  | BadToken str str
  | TooMany nat

definition class_tag :: "str \<Rightarrow> str" where
  "class_tag level = ''class:'' @ level"

definition level_index :: "str \<Rightarrow> nat option" where
  "level_index l =
     (if l \<in> {''unclassified'', ''unclass'', ''u''} then Some 0
      else if l \<in> {''restricted'', ''r''} then Some 1
      else if l \<in> {''confidential'', ''c''} then Some 2
      else if l \<in> {''secret'', ''s''} then Some 3
      else if l \<in> {''top secret'', ''topsecret'', ''ts''} then Some 4
      else None)"

definition classification_level :: "str \<Rightarrow> str option" where
  "classification_level raw =
     map_option (\<lambda>i. LEVELS ! i)
       (level_index (replace_chars [CHR ''_'', CHR ''-''] CHR '' '' (to_ascii_lowercase (trim raw))))"

definition rank :: "str \<Rightarrow> nat" where
  "rank level = (case position (\<lambda>l. l = level) LEVELS of Some i \<Rightarrow> i | None \<Rightarrow> 0)"

definition tag_byte :: "char \<Rightarrow> bool" where
  "tag_byte b \<longleftrightarrow> is_alphanumeric b \<or> b = CHR ''-'' \<or> b = CHR ''_''"

definition token :: "str \<Rightarrow> str \<Rightarrow> marking_error + str" where
  "token field raw =
     (let t = to_ascii_uppercase (trim raw)
      in if t \<noteq> [] \<and> length t \<le> 32 \<and> list_all tag_byte t then Inr t else Inl (BadToken field raw))"

section \<open>The marking of a configuration block\<close>

definition push_tag :: "str \<Rightarrow> str list \<Rightarrow> str list" where
  "push_tag tag tags = (if tag \<in> set tags then tags else tags @ [tag])"

fun push_tokens :: "str \<Rightarrow> str \<Rightarrow> str list \<Rightarrow> str list \<Rightarrow> marking_error + str list" where
  "push_tokens pre field [] tags = Inr tags"
| "push_tokens pre field (r # rs) tags =
     (case token field r of Inl e \<Rightarrow> Inl e
      | Inr t \<Rightarrow> push_tokens pre field rs (push_tag (pre @ t) tags))"

definition push_class :: "str option \<Rightarrow> marking_error + str list" where
  "push_class c =
     (case c of None \<Rightarrow> Inr []
      | Some level \<Rightarrow> try_bind (ok_or (UnknownLevel level) (classification_level level))
                        (\<lambda>canonical. Inr (push_tag (class_tag canonical) [])))"

definition from_config :: "marking_config \<Rightarrow> marking_error + str list" where
  "from_config cfg =
     try_bind (push_class (mc_classification cfg)) (\<lambda>tags.
     try_bind (push_tokens ''policy:'' ''policy'' (case mc_policy cfg of Some p \<Rightarrow> [p] | None \<Rightarrow> []) tags) (\<lambda>tags.
     try_bind (push_tokens ''rel:'' ''releasable_to'' (mc_releasable_to cfg) tags) (\<lambda>tags.
     try_bind (push_tokens ''caveat:'' ''caveats'' (mc_caveats cfg) tags) (\<lambda>tags.
       if tags = [] then Inl Empty
       else if MAX_CONFIG_TAGS < length tags then Inl (TooMany (length tags))
       else Inr tags))))"

section \<open>The stamp\<close>

definition ranked :: "str \<Rightarrow> str option" where
  "ranked t = Option.bind (strip_prefix t ''class:'') classification_level"

definition higher :: "str \<Rightarrow> str \<Rightarrow> str" where
  "higher a b = (if rank a < rank b then b else a)"

definition marking_floor :: "str list \<Rightarrow> str option" where
  "marking_floor m =
     (case List.map_filter (\<lambda>t. strip_prefix t ''class:'') m of
        [] \<Rightarrow> None | c # _ \<Rightarrow> classification_level c)"

definition insert_at :: "nat \<Rightarrow> 'a \<Rightarrow> 'a list \<Rightarrow> 'a list" where
  "insert_at i x xs = take i xs @ x # drop i xs"

definition resolve_class :: "str \<Rightarrow> str list \<Rightarrow> str list" where
  "resolve_class lo tags =
     (let highest = fold (\<lambda>b a. higher a b) (List.map_filter ranked tags) lo;
          pos = (case position (\<lambda>t. ranked t \<noteq> None) tags of Some i \<Rightarrow> i | None \<Rightarrow> 0);
          kept = filter (\<lambda>t. ranked t = None) tags
      in insert_at (min pos (length kept)) (class_tag highest) kept)"

definition marking_apply :: "str list \<Rightarrow> event \<Rightarrow> event" where
  "marking_apply m e =
     (let tags = (case marking_floor m of None \<Rightarrow> ev_policy_tags e
                  | Some lo \<Rightarrow> resolve_class lo (ev_policy_tags e))
      in e\<lparr>ev_policy_tags := fold push_tag (filter (\<lambda>t. \<not> starts_with t ''class:'') m) tags\<rparr>)"

definition marking_to_string :: "str list \<Rightarrow> str" where
  "marking_to_string m = join '' '' m"

section \<open>Wire labels\<close>

definition wire_classification :: "str \<Rightarrow> str option \<Rightarrow> str list" where
  "wire_classification raw policy_id =
     (let upper = replace_chars [CHR ''_'', CHR ''-''] CHR '' '' (to_ascii_uppercase (trim raw))
      in if upper = [] then []
         else let (level, named) =
                (if upper = ''COSMIC TOP SECRET'' then (Some ''top-secret'', Some ''NATO'')
                 else case strip_prefix upper ''NATO '' of
                   Some rest \<Rightarrow> (classification_level rest, Some ''NATO'')
                 | None \<Rightarrow> (classification_level upper, None));
              lev = (case level of Some l \<Rightarrow> l | None \<Rightarrow> ''top-secret'');
              policy = (case Option.bind policy_id (\<lambda>p. case token ''policy'' p of Inr t \<Rightarrow> Some t | Inl _ \<Rightarrow> None) of
                          Some t \<Rightarrow> Some t | None \<Rightarrow> named)
          in class_tag lev # (case policy of Some p \<Rightarrow> [''policy:'' @ p] | None \<Rightarrow> []))"

section \<open>Lemmas on levels\<close>

lemma level_index_less: "level_index l = Some i \<Longrightarrow> i < length LEVELS"
proof -
  have "length LEVELS = 5" by code_simp
  then show "level_index l = Some i \<Longrightarrow> i < length LEVELS"
    unfolding level_index_def by (simp only: option.inject option.distinct split: if_split_asm)
qed

lemma classification_level_in: "classification_level raw = Some l \<Longrightarrow> l \<in> set LEVELS"
  by (auto simp: classification_level_def dest: level_index_less)

lemma classification_level_canonical: "l \<in> set LEVELS \<Longrightarrow> classification_level l = Some l"
proof -
  have "list_all (\<lambda>l. classification_level l = Some l) LEVELS" by code_simp
  then show "l \<in> set LEVELS \<Longrightarrow> classification_level l = Some l" by (simp add: list_all_iff)
qed

lemma LEVELS_rank: "l \<in> set LEVELS \<Longrightarrow> LEVELS ! rank l = l"
  using position_eq [of l LEVELS] by (auto simp: rank_def)

lemma rank_inj: "a \<in> set LEVELS \<Longrightarrow> b \<in> set LEVELS \<Longrightarrow> rank a = rank b \<longleftrightarrow> a = b"
  by (metis LEVELS_rank)

lemma rank_top: "rank l \<le> rank ''top-secret''"
proof -
  have "length LEVELS = 5" "rank ''top-secret'' = 4" by code_simp+
  then show ?thesis
    using position_less [of "\<lambda>y. y = l" LEVELS] by (fastforce simp: rank_def split: option.splits)
qed

lemma ranked_in: "ranked t = Some l \<Longrightarrow> l \<in> set LEVELS"
  by (auto simp: ranked_def bind_eq_Some_conv dest: classification_level_in)

lemma ranked_class: "l \<in> set LEVELS \<Longrightarrow> ranked (class_tag l) = Some l"
  by (simp add: class_tag_def ranked_def strip_prefix_def classification_level_canonical)

lemma ranked_not_class: "\<not> starts_with t ''class:'' \<Longrightarrow> ranked t = None"
  by (simp add: ranked_def strip_prefix_def starts_with_def)

lemma marking_floor_in: "marking_floor m = Some lo \<Longrightarrow> lo \<in> set LEVELS"
  by (auto simp: marking_floor_def dest: classification_level_in split: list.splits)

section \<open>Lemmas on the class tag\<close>

lemma higher_fold:
  assumes "lo \<in> set LEVELS" and "\<forall>l \<in> set ls. l \<in> set LEVELS"
  shows "fold (\<lambda>b a. higher a b) ls lo \<in> insert lo (set ls)
    \<and> (\<forall>l \<in> insert lo (set ls). rank l \<le> rank (fold (\<lambda>b a. higher a b) ls lo))"
  using assms
proof (induction ls arbitrary: lo)
  case (Cons l ls)
  have "higher lo l \<in> {lo, l}" "rank lo \<le> rank (higher lo l)" "rank l \<le> rank (higher lo l)"
    by (auto simp: higher_def)
  moreover from this(1) Cons.prems have "higher lo l \<in> set LEVELS" by auto
  ultimately show ?case using Cons.IH [of "higher lo l"] Cons.prems by fastforce
qed simp

lemma fold_higher_fixed:
  assumes "\<forall>l \<in> set ls. rank l \<le> rank lo" shows "fold (\<lambda>b a. higher a b) ls lo = lo"
  using assms by (induction ls) (auto simp: higher_def)

text \<open>The tags split at the first ranked one; the resolved tag takes its place.\<close>

definition highest_class :: "str \<Rightarrow> str list \<Rightarrow> str" where
  "highest_class lo tags = fold (\<lambda>b a. higher a b) (List.map_filter ranked tags) lo"

lemma highest_class_spec:
  assumes "lo \<in> set LEVELS"
  shows "highest_class lo tags \<in> set LEVELS"
    and "rank lo \<le> rank (highest_class lo tags)"
    and "t \<in> set tags \<Longrightarrow> ranked t = Some l \<Longrightarrow> rank l \<le> rank (highest_class lo tags)"
    and "highest_class lo tags = lo \<or> (\<exists>t \<in> set tags. ranked t = Some (highest_class lo tags))"
proof -
  have mem: "l \<in> set (List.map_filter ranked tags) \<longleftrightarrow> (\<exists>t \<in> set tags. ranked t = Some l)" for l
    by (force simp: map_filter_def)
  then have lv: "\<forall>l \<in> set (List.map_filter ranked tags). l \<in> set LEVELS" using ranked_in by blast
  note hf = higher_fold [OF assms lv, folded highest_class_def]
  show "rank lo \<le> rank (highest_class lo tags)"
    and "highest_class lo tags = lo \<or> (\<exists>t \<in> set tags. ranked t = Some (highest_class lo tags))"
    and "t \<in> set tags \<Longrightarrow> ranked t = Some l \<Longrightarrow> rank l \<le> rank (highest_class lo tags)"
    using hf mem by auto
  show "highest_class lo tags \<in> set LEVELS"
    using conjunct1 [OF hf] assms lv by (simp only: insert_iff) auto
qed

lemma resolve_class_split:
  obtains u v where "filter (\<lambda>t. ranked t = None) tags = u @ v"
    and "resolve_class lo tags = u @ class_tag (highest_class lo tags) # v"
    and "position (\<lambda>t. ranked t \<noteq> None) tags = Some (length u) \<or> u = []"
proof (cases "position (\<lambda>t. ranked t \<noteq> None) tags")
  case None
  then have "resolve_class lo tags = [] @ class_tag (highest_class lo tags) # filter (\<lambda>t. ranked t = None) tags"
    by (simp add: resolve_class_def highest_class_def Let_def insert_at_def)
  then show ?thesis using that by blast
next
  case (Some i)
  then obtain u x v where s: "tags = u @ x # v" "length u = i" "ranked x \<noteq> None" "\<forall>y \<in> set u. ranked y = None"
    using position_Some_split [OF Some] by auto
  then have kept: "filter (\<lambda>t. ranked t = None) tags = u @ filter (\<lambda>t. ranked t = None) v" by simp
  with s Some have "resolve_class lo tags
      = u @ class_tag (highest_class lo tags) # filter (\<lambda>t. ranked t = None) v"
    by (simp add: resolve_class_def highest_class_def [symmetric] Let_def insert_at_def)
  with kept Some s(2) show ?thesis using that by blast
qed

lemma resolve_class_filter:
  assumes "lo \<in> set LEVELS"
  shows "filter (\<lambda>t. ranked t = None) (resolve_class lo tags) = filter (\<lambda>t. ranked t = None) tags"
    and "filter (\<lambda>t. ranked t \<noteq> None) (resolve_class lo tags) = [class_tag (highest_class lo tags)]"
proof -
  obtain u v where uv: "filter (\<lambda>t. ranked t = None) tags = u @ v"
      "resolve_class lo tags = u @ class_tag (highest_class lo tags) # v"
    by (rule resolve_class_split)
  have none: "\<forall>t \<in> set (u @ v). ranked t = None" by (auto simp flip: uv(1))
  have some: "ranked (class_tag (highest_class lo tags)) \<noteq> None"
    by (simp add: ranked_class [OF highest_class_spec(1) [OF assms]])
  show "filter (\<lambda>t. ranked t = None) (resolve_class lo tags) = filter (\<lambda>t. ranked t = None) tags"
    unfolding uv using none some by simp
  have "filter (\<lambda>t. ranked t \<noteq> None) u = []" "filter (\<lambda>t. ranked t \<noteq> None) v = []"
    using none by (auto simp: filter_empty_conv)
  then show "filter (\<lambda>t. ranked t \<noteq> None) (resolve_class lo tags) = [class_tag (highest_class lo tags)]"
    unfolding uv using some by simp
qed

text \<open>The resolved tags are a fixed point of \<open>resolve_class\<close>, whatever other tags follow.\<close>

lemma resolve_class_again:
  assumes lo: "lo \<in> set LEVELS" and ws: "\<forall>w \<in> set ws. ranked w = None"
  shows "resolve_class lo (resolve_class lo tags @ ws) = resolve_class lo tags @ ws"
proof -
  let ?h = "highest_class lo tags"
  obtain u v where uv: "filter (\<lambda>t. ranked t = None) tags = u @ v"
      "resolve_class lo tags = u @ class_tag ?h # v"
    by (rule resolve_class_split)
  have none: "\<forall>t \<in> set (u @ v). ranked t = None" by (auto simp flip: uv(1))
  have h: "ranked (class_tag ?h) = Some ?h" by (simp add: ranked_class highest_class_spec(1) [OF lo])
  have drop_none: "List.map_filter ranked xs = []" if "\<forall>t \<in> set xs. ranked t = None" for xs
    using that by (induction xs) (auto simp: map_filter_def)
  have mf: "List.map_filter ranked (u @ class_tag ?h # v @ ws) = [?h]"
    using drop_none [of u] drop_none [of v] drop_none [of ws] none ws h by (simp add: map_filter_def)
  have "higher lo ?h = ?h"
    using highest_class_spec(1,2) [OF lo] rank_inj [OF lo] by (auto simp: higher_def not_less dest: antisym)
  then have hi: "highest_class lo (u @ class_tag ?h # v @ ws) = ?h"
    by (simp only: highest_class_def [of _ "u @ _"] mf) simp
  have pos: "position (\<lambda>t. ranked t \<noteq> None) (u @ class_tag ?h # v @ ws) = Some (length u)"
    using none h by (intro position_first) auto
  have kept: "filter (\<lambda>t. ranked t = None) (u @ class_tag ?h # v @ ws) = u @ v @ ws"
    using none ws h by (simp add: filter_id_conv)
  have "resolve_class lo (u @ class_tag ?h # v @ ws) = u @ class_tag ?h # v @ ws"
    using hi unfolding resolve_class_def kept pos highest_class_def [symmetric] Let_def insert_at_def
    by simp
  then show ?thesis unfolding uv by simp
qed

section \<open>Lemmas on pushed tags\<close>

lemma fold_push_tag:
  "\<exists>ws. fold push_tag ts tags = tags @ ws \<and> set ws \<subseteq> set ts \<and> set ts \<subseteq> set (tags @ ws)
        \<and> (\<forall>w \<in> set ws. w \<notin> set tags)"
proof (induction ts arbitrary: tags)
  case (Cons t ts)
  obtain ws where ws: "fold push_tag ts (push_tag t tags) = push_tag t tags @ ws" "set ws \<subseteq> set ts"
      "set ts \<subseteq> set (push_tag t tags @ ws)" "\<forall>w \<in> set ws. w \<notin> set (push_tag t tags)"
    using Cons.IH by blast
  then show ?case
    by (intro exI [of _ "if t \<in> set tags then ws else t # ws"])
       (cases "t \<in> set tags"; auto simp: push_tag_def [of t])
qed simp

lemma fold_push_tag_id: "set ts \<subseteq> set tags \<Longrightarrow> fold push_tag ts tags = tags"
  by (induction ts) (auto simp: push_tag_def)

lemma push_tag_distinct [simp]: "distinct (push_tag t tags) \<longleftrightarrow> distinct tags"
  by (auto simp: push_tag_def)

lemma marking_apply_tags:
  obtains ws where "ev_policy_tags (marking_apply m e)
      = (case marking_floor m of None \<Rightarrow> ev_policy_tags e | Some lo \<Rightarrow> resolve_class lo (ev_policy_tags e)) @ ws"
    and "\<forall>w \<in> set ws. w \<in> set m \<and> \<not> starts_with w ''class:''"
    and "\<forall>t \<in> set m. starts_with t ''class:'' \<or> t \<in> set (ev_policy_tags (marking_apply m e))"
proof -
  obtain ws where "fold push_tag (filter (\<lambda>t. \<not> starts_with t ''class:'') m)
      (case marking_floor m of None \<Rightarrow> ev_policy_tags e | Some lo \<Rightarrow> resolve_class lo (ev_policy_tags e))
      = (case marking_floor m of None \<Rightarrow> ev_policy_tags e | Some lo \<Rightarrow> resolve_class lo (ev_policy_tags e)) @ ws"
    "set ws \<subseteq> set (filter (\<lambda>t. \<not> starts_with t ''class:'') m)"
    "set (filter (\<lambda>t. \<not> starts_with t ''class:'') m) \<subseteq> set ((case marking_floor m of None \<Rightarrow> ev_policy_tags e
      | Some lo \<Rightarrow> resolve_class lo (ev_policy_tags e)) @ ws)"
    using fold_push_tag by blast
  then show ?thesis using that [of ws] by (auto simp: marking_apply_def Let_def)
qed

lemma push_tokens_Inr:
  assumes "push_tokens pre field rs tags = Inr tags'"
  shows "(distinct tags \<longrightarrow> distinct tags') \<and> set tags \<subseteq> set tags'
    \<and> (\<forall>t \<in> set tags' - set tags. \<exists>k. t = pre @ k \<and> k \<noteq> [] \<and> length k \<le> 32 \<and> list_all tag_byte k)"
  using assms
proof (induction rs arbitrary: tags)
  case (Cons r rs)
  then obtain t where t: "token field r = Inr t" "push_tokens pre field rs (push_tag (pre @ t) tags) = Inr tags'"
    by (auto split: sum.splits)
  from t(1) have "t \<noteq> []" "length t \<le> 32" "list_all tag_byte t"
    by (auto simp: token_def Let_def split: if_splits)
  moreover note Cons.IH [OF t(2)]
  moreover have "set (push_tag (pre @ t) tags) = insert (pre @ t) (set tags)" by (auto simp: push_tag_def)
  ultimately show ?case by auto
qed simp

section \<open>Properties\<close>

text \<open>C7. With a configured classification, the stamped event carries exactly one class tag. Its
  level is canonical and is the highest of the operator's floor and every class tag of the wire:
  the wire can raise the level and never lower it.\<close>

theorem marking_apply_floor:
  assumes "marking_floor m = Some lo"
  shows "\<exists>level \<in> set LEVELS.
      filter (\<lambda>t. ranked t \<noteq> None) (ev_policy_tags (marking_apply m e)) = [class_tag level]
      \<and> rank lo \<le> rank level
      \<and> (\<forall>t \<in> set (ev_policy_tags e). \<forall>l. ranked t = Some l \<longrightarrow> rank l \<le> rank level)
      \<and> (level = lo \<or> (\<exists>t \<in> set (ev_policy_tags e). ranked t = Some level))"
proof -
  have lo: "lo \<in> set LEVELS" using assms by (rule marking_floor_in)
  obtain ws where ws: "ev_policy_tags (marking_apply m e) = resolve_class lo (ev_policy_tags e) @ ws"
      "\<forall>w \<in> set ws. \<not> starts_with w ''class:''"
    using marking_apply_tags [of m e] assms by (metis option.case(2))
  then have "filter (\<lambda>t. ranked t \<noteq> None) ws = []" by (simp add: filter_empty_conv ranked_not_class)
  with ws(1) have "filter (\<lambda>t. ranked t \<noteq> None) (ev_policy_tags (marking_apply m e))
      = [class_tag (highest_class lo (ev_policy_tags e))]"
    by (simp only: filter_append resolve_class_filter(2) [OF lo]) simp
  then show ?thesis using highest_class_spec [OF lo]
    by (intro bexI [of _ "highest_class lo (ev_policy_tags e)"]) blast+
qed

text \<open>Stamping twice is the same as stamping once, for every marking and every event.\<close>

theorem marking_apply_idempotent: "marking_apply m (marking_apply m e) = marking_apply m e"
proof -
  obtain ws where ws: "ev_policy_tags (marking_apply m e)
      = (case marking_floor m of None \<Rightarrow> ev_policy_tags e | Some lo \<Rightarrow> resolve_class lo (ev_policy_tags e)) @ ws"
      "\<forall>w \<in> set ws. w \<in> set m \<and> \<not> starts_with w ''class:''"
      "\<forall>t \<in> set m. starts_with t ''class:'' \<or> t \<in> set (ev_policy_tags (marking_apply m e))"
    by (rule marking_apply_tags)
  let ?t = "ev_policy_tags (marking_apply m e)"
  have again: "(case marking_floor m of None \<Rightarrow> ?t | Some lo \<Rightarrow> resolve_class lo ?t) = ?t"
  proof (cases "marking_floor m")
    case (Some lo)
    then have "?t = resolve_class lo (ev_policy_tags e) @ ws" using ws(1) by simp
    with Some show ?thesis using resolve_class_again [OF marking_floor_in [OF Some], of ws] ws(2)
      by (simp add: ranked_not_class)
  qed simp
  have "set (filter (\<lambda>t. \<not> starts_with t ''class:'') m) \<subseteq> set ?t" using ws(3) by auto
  from fold_push_tag_id [OF this] show ?thesis
    unfolding marking_apply_def [of m "marking_apply m e"] again Let_def by simp
qed

text \<open>A stamp changes only the policy tags; the unranked wire tags stay, in order, in front of
  the tags it adds, and every configured tag that is not a class tag is present afterwards.\<close>

theorem marking_apply_keeps_tags:
  "\<exists>added. filter (\<lambda>t. ranked t = None) (ev_policy_tags (marking_apply m e))
             = filter (\<lambda>t. ranked t = None) (ev_policy_tags e) @ added
         \<and> set added \<subseteq> set m
         \<and> list_all (\<lambda>t. starts_with t ''class:'' \<or> t \<in> set (ev_policy_tags (marking_apply m e))) m
         \<and> (marking_apply m e)\<lparr>ev_policy_tags := ev_policy_tags e\<rparr> = e"
proof -
  obtain ws where ws: "ev_policy_tags (marking_apply m e)
      = (case marking_floor m of None \<Rightarrow> ev_policy_tags e | Some lo \<Rightarrow> resolve_class lo (ev_policy_tags e)) @ ws"
      "\<forall>w \<in> set ws. w \<in> set m \<and> \<not> starts_with w ''class:''"
      "\<forall>t \<in> set m. starts_with t ''class:'' \<or> t \<in> set (ev_policy_tags (marking_apply m e))"
    by (rule marking_apply_tags)
  have "filter (\<lambda>t. ranked t = None) ws = ws" using ws(2) by (simp add: filter_id_conv ranked_not_class)
  then have "filter (\<lambda>t. ranked t = None) (ev_policy_tags (marking_apply m e))
      = filter (\<lambda>t. ranked t = None) (ev_policy_tags e) @ ws"
    by (cases "marking_floor m") (simp_all add: ws(1) resolve_class_filter(1) [OF marking_floor_in])
  moreover have "(marking_apply m e)\<lparr>ev_policy_tags := ev_policy_tags e\<rparr> = e" by (simp add: marking_apply_def Let_def)
  ultimately show ?thesis using ws(2,3) unfolding list_all_iff by blast
qed

text \<open>C40. An accepted \<open>[marking]\<close> block gives between one and sixteen distinct tags: the canonical
  level of its classification, and tokens of at most 32 letters, digits, \<open>-\<close> or \<open>_\<close> behind their
  prefixes.\<close>

theorem from_config_tags:
  assumes "from_config cfg = Inr m"
  shows "m \<noteq> [] \<and> length m \<le> 16 \<and> distinct m
    \<and> (\<forall>t \<in> set m. (\<exists>l \<in> set LEVELS. t = class_tag l)
         \<or> (\<exists>pre k. t = pre @ k \<and> pre \<in> {''policy:'', ''rel:'', ''caveat:''}
              \<and> k \<noteq> [] \<and> length k \<le> 32 \<and> list_all tag_byte k))"
proof -
  from assms obtain tags1 tags2 tags3 where
    c: "push_class (mc_classification cfg) = Inr tags1"
    and p: "push_tokens ''policy:'' ''policy'' (case mc_policy cfg of Some p \<Rightarrow> [p] | None \<Rightarrow> []) tags1 = Inr tags2"
    and r: "push_tokens ''rel:'' ''releasable_to'' (mc_releasable_to cfg) tags2 = Inr tags3"
    and v: "push_tokens ''caveat:'' ''caveats'' (mc_caveats cfg) tags3 = Inr m"
    and m: "m \<noteq> []" "length m \<le> 16"
    unfolding from_config_def MAX_CONFIG_TAGS_def try_bind_Inr_iff by (auto split: if_split_asm)
  from c have c: "tags1 = [] \<or> (\<exists>l \<in> set LEVELS. tags1 = [class_tag l])"
    by (auto simp: push_class_def try_bind_Inr_iff ok_or_Inr_iff push_tag_def
        dest: classification_level_in split: option.split_asm)
  note facts = push_tokens_Inr [OF p] push_tokens_Inr [OF r] push_tokens_Inr [OF v]
  from c have d: "distinct tags1" by auto
  have "\<exists>l \<in> set LEVELS. t = class_tag l" if "t \<in> set tags1" for t using c that by auto
  with facts d m show ?thesis by (metis (no_types, lifting) DiffI insertCI)
qed

text \<open>A non-empty wire label always yields a class tag with a canonical level, in first place;
  a label that does not normalise is stamped top-secret, the highest level, and an empty label
  yields nothing.\<close>

theorem wire_classification_never_under:
  assumes "upper = replace_chars [CHR ''_'', CHR ''-''] CHR '' '' (to_ascii_uppercase (trim raw))"
    and "body = (case strip_prefix upper ''NATO '' of Some rest \<Rightarrow> rest | None \<Rightarrow> upper)"
  shows "if upper = [] then wire_classification raw p = []
    else \<exists>level rest. wire_classification raw p = class_tag level # rest \<and> level \<in> set LEVELS
       \<and> (upper = ''COSMIC TOP SECRET'' \<or> classification_level body = None
            \<longrightarrow> level = ''top-secret'' \<and> (\<forall>l. rank l \<le> rank level))
       \<and> (upper \<noteq> ''COSMIC TOP SECRET'' \<longrightarrow> classification_level body \<noteq> None
            \<longrightarrow> classification_level body = Some level)
       \<and> (\<forall>t \<in> set rest. \<exists>k. t = ''policy:'' @ k)"
proof (cases "upper = []")
  case True
  then show ?thesis by (simp add: wire_classification_def assms(1) [symmetric])
next
  case False
  define level where "level = (if upper = ''COSMIC TOP SECRET'' then ''top-secret''
      else case classification_level body of Some l \<Rightarrow> l | None \<Rightarrow> ''top-secret'')"
  have top: "''top-secret'' \<in> set LEVELS" by code_simp
  have "\<exists>rest. wire_classification raw p = class_tag level # rest \<and> (\<forall>t \<in> set rest. \<exists>k. t = ''policy:'' @ k)"
    using False assms(2) unfolding wire_classification_def assms(1) [symmetric] level_def Let_def
    by (cases "upper = ''COSMIC TOP SECRET''"; cases "strip_prefix upper ''NATO ''")
       (simp_all split: option.split)
  moreover have "level \<in> set LEVELS"
    using top by (simp add: level_def classification_level_in split: option.split)
  moreover have "upper = ''COSMIC TOP SECRET'' \<or> classification_level body = None
      \<longrightarrow> level = ''top-secret'' \<and> (\<forall>l. rank l \<le> rank level)"
    using rank_top by (auto simp: level_def)
  moreover have "upper \<noteq> ''COSMIC TOP SECRET'' \<longrightarrow> classification_level body \<noteq> None
      \<longrightarrow> classification_level body = Some level"
    by (auto simp: level_def)
  ultimately show ?thesis
    using False by (simp only: if_False simp_thms) (elim exE conjE, intro exI conjI, assumption+)
qed

section \<open>Witnesses\<close>

definition ex_marking :: "str list" where
  "ex_marking = [''class:restricted'', ''rel:GBR'']"

theorem marking_apply_floor_witness:
  "marking_floor ex_marking = Some ''restricted'' \<and>
   (\<exists>level \<in> set LEVELS.
      filter (\<lambda>t. ranked t \<noteq> None) (ev_policy_tags (marking_apply ex_marking
        ((built_event ex_builder)\<lparr>ev_policy_tags := [''x'', ''class:SECRET'', ''class:U'']\<rparr>))) = [class_tag level]
      \<and> rank ''restricted'' \<le> rank level)"
proof -
  have "marking_floor ex_marking = Some ''restricted''" by code_simp
  from this marking_apply_floor [OF this] show ?thesis by blast
qed

definition ex_marking_config :: marking_config where
  "ex_marking_config = \<lparr>mc_classification = Some ''Top Secret'', mc_releasable_to = [''GBR'', '' ita ''],
     mc_policy = Some ''nato'', mc_caveats = [''GBR'']\<rparr>"

theorem from_config_tags_witness:
  "from_config ex_marking_config
     = Inr [''class:top-secret'', ''policy:NATO'', ''rel:GBR'', ''rel:ITA'', ''caveat:GBR'']
   \<and> distinct [''class:top-secret'', ''policy:NATO'', ''rel:GBR'', ''rel:ITA'', ''caveat:GBR'']"
proof -
  have c: "from_config ex_marking_config
     = Inr [''class:top-secret'', ''policy:NATO'', ''rel:GBR'', ''rel:ITA'', ''caveat:GBR'']"
    by code_simp
  from from_config_tags [OF c] c show ?thesis by blast
qed

theorem wire_classification_never_under_witness:
  "\<exists>level rest. wire_classification '' nato-confidential '' (Some ''bad token'') = class_tag level # rest
     \<and> level \<in> set LEVELS"
proof -
  have u: "replace_chars [CHR ''_'', CHR ''-''] CHR '' '' (to_ascii_uppercase (trim '' nato-confidential ''))
      = ''NATO CONFIDENTIAL''" by code_simp
  have ne: "''NATO CONFIDENTIAL'' \<noteq> []" by simp
  show ?thesis
    using wire_classification_never_under [OF u [symmetric] refl, of "Some ''bad token''"] ne
    by (simp only: if_False) blast
qed

end
