(* ===== verification/Ontology_Data.thy ===== *)
theory Ontology_Data
  imports Event_Builder
begin

text \<open>
  The vendored contract \<open>vendor/contract/ontology.json\<close>, as
  \<open>rust/connectors/common/src/ontology.rs\<close> reads it: the fields \<open>id\<close>, \<open>parent\<close> and
  \<open>attributes\<close> of a type, \<open>name\<close>, \<open>unit\<close> and \<open>values\<close> of an attribute. Every type that
  declares an attribute of one name declares it alike, so each attribute is one constant.
\<close>

record attr_def =
  ad_name :: str
  ad_unit :: "str option"
  ad_values :: "str list option"

record type_def =
  td_id :: str
  td_parent :: "str option"
  td_attributes :: "attr_def list"

record ontology =
  ont_version :: str
  ont_types :: "type_def list"

definition od_hostility :: attr_def where
  "od_hostility = attr_def.make ''hostility'' None (Some [''AssumedFriend'', ''AssumedHostile'',
     ''AssumedInvolved'', ''AssumedNeutral'', ''Faker'', ''Friend'', ''Hostile'', ''Involved'',
     ''Joker'', ''Neutral'', ''Pending'', ''Suspect'', ''Unknown''])"
definition od_callsign :: attr_def where
  "od_callsign = attr_def.make ''callsign'' None None"
definition od_alt_id :: attr_def where
  "od_alt_id = attr_def.make ''alt_id'' None None"
definition od_alt_id_standard :: attr_def where
  "od_alt_id_standard = attr_def.make ''alt_id_standard'' None (Some [''ADEM'', ''AIS'',
     ''ASCA'', ''Link11'', ''Link16'', ''Link22'', ''MAVLink'', ''MIP2'', ''MIP31'',
     ''MaritimeTrack'', ''NFFI13'', ''NVG'', ''UDRA_ID'', ''UTID'', ''VMF'', ''ASTERIX'',
     ''STANAG4676'', ''CoT'', ''ICAO24''])"
definition od_heading :: attr_def where
  "od_heading = attr_def.make ''heading'' (Some ''deg'') None"
definition od_course :: attr_def where
  "od_course = attr_def.make ''course'' (Some ''deg'') None"
definition od_speed :: attr_def where
  "od_speed = attr_def.make ''speed'' (Some ''m/s'') None"
definition od_vertical_rate :: attr_def where
  "od_vertical_rate = attr_def.make ''vertical_rate'' (Some ''m/s'') None"
definition od_speed_accuracy :: attr_def where
  "od_speed_accuracy = attr_def.make ''speed_accuracy'' (Some ''m/s'') None"
definition od_angle_accuracy :: attr_def where
  "od_angle_accuracy = attr_def.make ''angle_accuracy'' (Some ''deg'') None"
definition od_position_accuracy_h_m :: attr_def where
  "od_position_accuracy_h_m = attr_def.make ''position_accuracy_h_m'' (Some ''m'') None"
definition od_position_accuracy_v_m :: attr_def where
  "od_position_accuracy_v_m = attr_def.make ''position_accuracy_v_m'' (Some ''m'') None"
definition od_environment :: attr_def where
  "od_environment = attr_def.make ''environment'' None (Some [''AIR'', ''LAND'', ''SURFACE'',
     ''SUBSURFACE'', ''SPACE'', ''UNKNOWN''])"
definition od_battery :: attr_def where
  "od_battery = attr_def.make ''battery'' (Some ''percent'') None"
definition od_frequency_hz :: attr_def where
  "od_frequency_hz = attr_def.make ''frequency_hz'' (Some ''Hz'') None"
definition od_bandwidth_hz :: attr_def where
  "od_bandwidth_hz = attr_def.make ''bandwidth_hz'' (Some ''Hz'') None"
definition od_power_dbm :: attr_def where
  "od_power_dbm = attr_def.make ''power_dbm'' (Some ''dBm'') None"
definition od_modulation :: attr_def where
  "od_modulation = attr_def.make ''modulation'' None (Some [''AmplitudeModulation'',
     ''DoubleSideBand'', ''FrequencyModulation'', ''FrequencyShiftKeying'', ''LowerSideBand'',
     ''PhaseShiftKeying'', ''UpperSideBand''])"
definition od_elnot :: attr_def where
  "od_elnot = attr_def.make ''elnot'' None None"
definition od_prf_hz :: attr_def where
  "od_prf_hz = attr_def.make ''prf_hz'' (Some ''Hz'') None"
definition od_pulse_width_us :: attr_def where
  "od_pulse_width_us = attr_def.make ''pulse_width_us'' (Some ''us'') None"
definition od_scan_type :: attr_def where
  "od_scan_type = attr_def.make ''scan_type'' None None"
definition od_scan_period_s :: attr_def where
  "od_scan_period_s = attr_def.make ''scan_period_s'' (Some ''s'') None"
definition od_bearing_deg :: attr_def where
  "od_bearing_deg = attr_def.make ''bearing_deg'' (Some ''deg'') None"
definition od_bearing_accuracy_deg :: attr_def where
  "od_bearing_accuracy_deg = attr_def.make ''bearing_accuracy_deg'' (Some ''deg'') None"
definition od_observed_by_alt_id :: attr_def where
  "od_observed_by_alt_id = attr_def.make ''observed_by_alt_id'' None None"
definition od_observed_by_alt_id_standard :: attr_def where
  "od_observed_by_alt_id_standard = attr_def.make ''observed_by_alt_id_standard'' None (Some
     [''ADEM'', ''AIS'', ''ASCA'', ''Link11'', ''Link16'', ''Link22'', ''MAVLink'', ''MIP2'',
     ''MIP31'', ''MaritimeTrack'', ''NFFI13'', ''NVG'', ''UDRA_ID'', ''UTID'', ''VMF'',
     ''ASTERIX'', ''STANAG4676'', ''CoT'', ''ICAO24''])"
definition od_carried_by_alt_id :: attr_def where
  "od_carried_by_alt_id = attr_def.make ''carried_by_alt_id'' None None"
definition od_carried_by_alt_id_standard :: attr_def where
  "od_carried_by_alt_id_standard = attr_def.make ''carried_by_alt_id_standard'' None (Some
     [''ADEM'', ''AIS'', ''ASCA'', ''Link11'', ''Link16'', ''Link22'', ''MAVLink'', ''MIP2'',
     ''MIP31'', ''MaritimeTrack'', ''NFFI13'', ''NVG'', ''UDRA_ID'', ''UTID'', ''VMF'',
     ''ASTERIX'', ''STANAG4676'', ''CoT'', ''ICAO24''])"
definition od_squawk :: attr_def where
  "od_squawk = attr_def.make ''squawk'' None None"
definition od_mmsi :: attr_def where
  "od_mmsi = attr_def.make ''mmsi'' None None"
definition od_nav_status :: attr_def where
  "od_nav_status = attr_def.make ''nav_status'' None None"
definition od_vessel_domain :: attr_def where
  "od_vessel_domain = attr_def.make ''vessel_domain'' None (Some [''Surface'', ''Subsurface''])"
definition od_coverage_bearing_start_deg :: attr_def where
  "od_coverage_bearing_start_deg = attr_def.make ''coverage_bearing_start_deg'' (Some ''deg'') None"
definition od_coverage_bearing_end_deg :: attr_def where
  "od_coverage_bearing_end_deg = attr_def.make ''coverage_bearing_end_deg'' (Some ''deg'') None"
definition od_detection_range_m :: attr_def where
  "od_detection_range_m = attr_def.make ''detection_range_m'' (Some ''m'') None"
definition od_update_interval_s :: attr_def where
  "od_update_interval_s = attr_def.make ''update_interval_s'' (Some ''s'') None"

definition ONTOLOGY :: ontology where
  "ONTOLOGY = ontology.make ''mim-5.3-conformant-4''
    [ type_def.make ''mim:concept'' None [],
      type_def.make ''mim:battlespace-concept'' (Some ''mim:concept'') [],
      type_def.make ''mim:object'' (Some ''mim:battlespace-concept'') [od_hostility, od_callsign,
         od_alt_id, od_alt_id_standard, od_heading, od_course, od_speed, od_vertical_rate,
         od_speed_accuracy, od_angle_accuracy, od_position_accuracy_h_m, od_position_accuracy_v_m,
         od_environment],
      type_def.make ''mim:actor'' (Some ''mim:object'') [od_hostility, od_callsign, od_alt_id,
         od_alt_id_standard],
      type_def.make ''mim:person'' (Some ''mim:actor'') [od_hostility, od_callsign, od_alt_id,
         od_alt_id_standard, od_heading, od_course, od_speed, od_vertical_rate, od_speed_accuracy,
         od_angle_accuracy, od_position_accuracy_h_m, od_position_accuracy_v_m, od_battery],
      type_def.make ''mim:organisation'' (Some ''mim:actor'') [od_hostility, od_callsign, od_alt_id,
         od_alt_id_standard],
      type_def.make ''mim:government-organisation'' (Some ''mim:organisation'') [od_hostility,
         od_callsign, od_alt_id, od_alt_id_standard],
      type_def.make ''mim:military-organisation'' (Some ''mim:government-organisation'')
         [od_hostility, od_callsign, od_alt_id, od_alt_id_standard],
      type_def.make ''mim:unit'' (Some ''mim:military-organisation'') [od_hostility, od_callsign,
         od_alt_id, od_alt_id_standard, od_heading, od_course, od_speed, od_vertical_rate,
         od_speed_accuracy, od_angle_accuracy],
      type_def.make ''mim:facility'' (Some ''mim:object'') [od_hostility, od_callsign, od_alt_id,
         od_alt_id_standard, od_position_accuracy_h_m, od_position_accuracy_v_m],
      type_def.make ''mim:feature'' (Some ''mim:object'') [od_hostility, od_callsign, od_alt_id,
         od_alt_id_standard],
      type_def.make ''mim:materiel'' (Some ''mim:object'') [od_hostility, od_callsign, od_alt_id,
         od_alt_id_standard],
      type_def.make ''mim:equipment'' (Some ''mim:materiel'') [od_hostility, od_callsign, od_alt_id,
         od_alt_id_standard, od_heading, od_course, od_speed, od_vertical_rate, od_speed_accuracy,
         od_angle_accuracy, od_position_accuracy_h_m, od_position_accuracy_v_m, od_frequency_hz,
         od_bandwidth_hz, od_power_dbm, od_modulation, od_elnot, od_prf_hz, od_pulse_width_us,
         od_scan_type, od_scan_period_s, od_bearing_deg, od_bearing_accuracy_deg,
         od_observed_by_alt_id, od_observed_by_alt_id_standard, od_carried_by_alt_id,
         od_carried_by_alt_id_standard],
      type_def.make ''mim:vehicle'' (Some ''mim:equipment'') [od_hostility, od_callsign, od_alt_id,
         od_alt_id_standard, od_heading, od_course, od_speed, od_vertical_rate, od_speed_accuracy,
         od_angle_accuracy, od_position_accuracy_h_m, od_position_accuracy_v_m],
      type_def.make ''mim:aircraft'' (Some ''mim:vehicle'') [od_hostility, od_callsign, od_alt_id,
         od_alt_id_standard, od_heading, od_course, od_speed, od_vertical_rate, od_speed_accuracy,
         od_angle_accuracy, od_position_accuracy_h_m, od_position_accuracy_v_m, od_battery, od_squawk],
      type_def.make ''mim:vessel'' (Some ''mim:vehicle'') [od_hostility, od_callsign, od_alt_id,
         od_alt_id_standard, od_heading, od_course, od_speed, od_vertical_rate, od_speed_accuracy,
         od_angle_accuracy, od_position_accuracy_h_m, od_position_accuracy_v_m, od_battery, od_mmsi,
         od_nav_status, od_vessel_domain],
      type_def.make ''mim:surface-vessel'' (Some ''mim:vessel'') [od_hostility, od_callsign,
         od_alt_id, od_alt_id_standard, od_heading, od_course, od_speed, od_vertical_rate,
         od_speed_accuracy, od_angle_accuracy, od_position_accuracy_h_m, od_position_accuracy_v_m,
         od_battery, od_mmsi, od_nav_status, od_vessel_domain],
      type_def.make ''mim:subsurface-vessel'' (Some ''mim:vessel'') [od_hostility, od_callsign,
         od_alt_id, od_alt_id_standard, od_heading, od_course, od_speed, od_vertical_rate,
         od_speed_accuracy, od_angle_accuracy, od_position_accuracy_h_m, od_position_accuracy_v_m,
         od_battery, od_mmsi, od_nav_status, od_vessel_domain],
      type_def.make ''mim:land-vehicle'' (Some ''mim:vehicle'') [od_hostility, od_callsign,
         od_alt_id, od_alt_id_standard, od_heading, od_course, od_speed, od_vertical_rate,
         od_speed_accuracy, od_angle_accuracy, od_position_accuracy_h_m, od_position_accuracy_v_m,
         od_battery],
      type_def.make ''mim:sensor'' (Some ''mim:equipment'') [od_hostility, od_callsign, od_alt_id,
         od_alt_id_standard, od_position_accuracy_h_m, od_position_accuracy_v_m, od_frequency_hz,
         od_bandwidth_hz, od_power_dbm, od_modulation, od_elnot, od_prf_hz, od_pulse_width_us,
         od_scan_type, od_scan_period_s, od_bearing_deg, od_bearing_accuracy_deg,
         od_observed_by_alt_id, od_observed_by_alt_id_standard, od_coverage_bearing_start_deg,
         od_coverage_bearing_end_deg, od_detection_range_m, od_update_interval_s, od_carried_by_alt_id,
         od_carried_by_alt_id_standard],
      type_def.make ''mim:weapon'' (Some ''mim:equipment'') [od_hostility, od_callsign, od_alt_id,
         od_alt_id_standard],
      type_def.make ''mim:action'' (Some ''mim:battlespace-concept'') [od_hostility, od_callsign,
         od_alt_id, od_alt_id_standard] ]"

end
