(* ===== verification/Ontology.thy ===== *)
theory Ontology
  imports Ontology_Data
begin

text \<open>
  \<open>rust/connectors/common/src/ontology.rs\<close> and \<open>identity.rs\<close>: the check of a declared mapping
  against the ontology, the per-event questions (\<open>governs\<close>, \<open>knows_type\<close>, \<open>ungoverned\<close>), and
  the two builder extensions \<open>eb_governed\<close> and \<open>eb_identity\<close>. The ontology is an argument; the
  connectors use \<open>ONTOLOGY\<close>. The parent chain of \<open>nearest_ancestor_governing\<close> is walked with
  fuel, \<open>None\<close> standing for a chain that does not end; on \<open>ONTOLOGY\<close> every chain ends.
\<close>

record declared =
  de_entity_type :: str
  de_attributes :: "str list"
  de_fixed_values :: "(str \<times> str) list"

datatype fault =
    UnknownEntityType str "str option"
  | UnknownAttribute str "str option" "str option"
  | NotInVocabulary str str "str list"

text \<open>Collecting into a \<open>BTreeMap\<close> keeps the last entry of a key; its keys iterate in order.\<close>

definition by_id :: "ontology \<Rightarrow> str \<Rightarrow> type_def option" where
  "by_id ont k = find (\<lambda>t. td_id t = k) (rev (ont_types ont))"

definition allowed_attr :: "type_def \<Rightarrow> str \<Rightarrow> attr_def option" where
  "allowed_attr d k = find (\<lambda>a. ad_name a = k) (rev (td_attributes d))"

definition declares :: "type_def \<Rightarrow> str \<Rightarrow> bool" where
  "declares t a \<longleftrightarrow> a \<in> set (map ad_name (td_attributes t))"

fun ancestor_from :: "nat \<Rightarrow> ontology \<Rightarrow> str option \<Rightarrow> str \<Rightarrow> str option option" where
  "ancestor_from fuel ont None a = Some None"
| "ancestor_from 0 ont (Some i) a = None"
| "ancestor_from (Suc fuel) ont (Some i) a =
     (case by_id ont i of None \<Rightarrow> Some None
      | Some t \<Rightarrow> if declares t a then Some (Some (td_id t)) else ancestor_from fuel ont (td_parent t) a)"

definition nearest_ancestor_governing :: "ontology \<Rightarrow> type_def \<Rightarrow> str \<Rightarrow> str option option" where
  "nearest_ancestor_governing ont frm a = ancestor_from (length (ont_types ont)) ont (td_parent frm) a"

definition ont_attrs :: "ontology \<Rightarrow> str \<Rightarrow> str list option" where
  "ont_attrs ont ty = map_option (\<lambda>t. map ad_name (td_attributes t)) (by_id ont ty)"

definition operator_namespace :: "str \<Rightarrow> bool" where
  "operator_namespace ty \<longleftrightarrow> \<not> starts_with ty ''mim:''"

definition governs :: "ontology \<Rightarrow> str \<Rightarrow> str \<Rightarrow> bool" where
  "governs ont ty a \<longleftrightarrow> operator_namespace ty
     \<or> (case ont_attrs ont ty of Some as \<Rightarrow> a \<in> set as | None \<Rightarrow> False)"

definition knows_type :: "ontology \<Rightarrow> str \<Rightarrow> bool" where
  "knows_type ont ty \<longleftrightarrow> operator_namespace ty \<or> ont_attrs ont ty \<noteq> None"

definition ungoverned :: "ontology \<Rightarrow> event \<Rightarrow> str list" where
  "ungoverned ont e = filter (\<lambda>k. \<not> governs ont (ev_entity_type e) k) (map a_key (ev_attributes e))"

definition eb_governed :: "ontology \<Rightarrow> str \<Rightarrow> str \<Rightarrow> str \<Rightarrow> event_builder \<Rightarrow> event_builder" where
  "eb_governed ont ty k v b = (if governs ont ty k then eb_attribute k v b else eb_metadata k v b)"

definition closest :: "str \<Rightarrow> str list \<Rightarrow> str option" where
  "closest needle hay = find (\<lambda>c. to_ascii_lowercase c = to_ascii_lowercase needle) hay"

fun attribute_faults :: "ontology \<Rightarrow> type_def \<Rightarrow> str list \<Rightarrow> fault list option" where
  "attribute_faults ont d [] = Some []"
| "attribute_faults ont d (n # ns) =
     (if allowed_attr d n \<noteq> None then attribute_faults ont d ns
      else Option.bind (nearest_ancestor_governing ont d n) (\<lambda>anc.
           map_option (\<lambda>fs. UnknownAttribute n
               (closest n (sort (remdups (map ad_name (td_attributes d))))) anc # fs)
             (attribute_faults ont d ns)))"

definition vocabulary_faults :: "type_def \<Rightarrow> (str \<times> str) list \<Rightarrow> fault list" where
  "vocabulary_faults d fixed =
     List.map_filter (\<lambda>(n, v).
       case allowed_attr d n of None \<Rightarrow> None
       | Some a \<Rightarrow> (case ad_values a of None \<Rightarrow> None
                   | Some vs \<Rightarrow> if v \<in> set vs then None else Some (NotInVocabulary n v vs))) fixed"

definition check :: "ontology \<Rightarrow> declared \<Rightarrow> fault list option" where
  "check ont d =
     (if starts_with (de_entity_type d) ''x:'' then Some []
      else case by_id ont (de_entity_type d) of
        None \<Rightarrow> Some [UnknownEntityType (de_entity_type d)
                       (closest (de_entity_type d) (map td_id (ont_types ont)))]
      | Some t \<Rightarrow> map_option (\<lambda>fs. fs @ vocabulary_faults t (de_fixed_values d))
                    (attribute_faults ont t (de_attributes d)))"

text \<open>\<open>enforce\<close> refuses to start on any fault, with their number.\<close>

definition enforce :: "ontology \<Rightarrow> declared \<Rightarrow> (nat + unit) option" where
  "enforce ont d = map_option (\<lambda>fs. if fs = [] then Inr () else Inl (length fs)) (check ont d)"

definition unit_of :: "ontology \<Rightarrow> str \<Rightarrow> str option" where
  "unit_of ont a =
     Option.bind (find (\<lambda>x. ad_name x = a) (concat (map td_attributes (ont_types ont)))) ad_unit"

section \<open>Identity\<close>

definition MAX_ALT_ID_LEN :: nat where "MAX_ALT_ID_LEN = 128"

definition eb_identity :: "str \<Rightarrow> str \<Rightarrow> event_builder \<Rightarrow> event_builder" where
  "eb_identity standard i b =
     (if i = [] \<or> MAX_ALT_ID_LEN < length i then b
      else eb_attribute ''alt_id_standard'' standard (eb_attribute ''alt_id'' i b))"

section \<open>Lemmas\<close>

lemma allowed_attr_None_iff: "allowed_attr d n = None \<longleftrightarrow> \<not> declares d n"
  by (auto simp: allowed_attr_def declares_def find_None_iff)

lemma attribute_faults_Nil_iff:
  "attribute_faults ont d ns = Some [] \<longleftrightarrow> (\<forall>n \<in> set ns. declares d n)"
  by (induction ns) (auto simp: allowed_attr_None_iff bind_eq_Some_conv)

lemma vocabulary_faults_Nil_iff:
  "vocabulary_faults d fixed = [] \<longleftrightarrow>
     (\<forall>(n, v) \<in> set fixed. \<forall>a vs. allowed_attr d n = Some a \<longrightarrow> ad_values a = Some vs \<longrightarrow> v \<in> set vs)"
  by (induction fixed) (auto simp: vocabulary_faults_def map_filter_def split: option.splits if_splits)

text \<open>Every parent chain of \<open>ONTOLOGY\<close> ends within its number of types: the chains only
  depend on the ids and parents, and are evaluated on these.\<close>

definition parents :: "ontology \<Rightarrow> (str \<times> str option) list" where
  "parents ont = rev (map (\<lambda>t. (td_id t, td_parent t)) (ont_types ont))"

fun chain_ends :: "nat \<Rightarrow> (str \<times> str option) list \<Rightarrow> str option \<Rightarrow> bool" where
  "chain_ends fuel ps None = True"
| "chain_ends 0 ps (Some i) = False"
| "chain_ends (Suc fuel) ps (Some i) =
     (case map_of ps i of None \<Rightarrow> True | Some p \<Rightarrow> chain_ends fuel ps p)"

lemma map_of_parents: "map_of (parents ont) i = map_option td_parent (by_id ont i)"
proof -
  have "map_of (map (\<lambda>t. (td_id t, td_parent t)) ts) i = map_option td_parent (find (\<lambda>t. td_id t = i) ts)" for ts
    by (induction ts) auto
  then show ?thesis by (simp add: parents_def by_id_def rev_map)
qed

lemma chain_ends_ancestor: "chain_ends fuel (parents ont) p \<Longrightarrow> ancestor_from fuel ont p a \<noteq> None"
  by (induction fuel ont p a rule: ancestor_from.induct) (auto simp: map_of_parents split: option.splits)

lemma chain_ends_mono: "chain_ends fuel ps p \<Longrightarrow> fuel \<le> fuel' \<Longrightarrow> chain_ends fuel' ps p"
proof (induction fuel ps p arbitrary: fuel' rule: chain_ends.induct)
  case (3 fuel ps i)
  then show ?case by (cases fuel') (auto split: option.splits)
qed auto

lemma ONTOLOGY_chains: "(let ps = parents ONTOLOGY in list_all (\<lambda>p. chain_ends 8 ps (snd p)) ps)"
  by code_simp

lemma ONTOLOGY_types: "length (ont_types ONTOLOGY) = 22"
  by code_simp

lemma by_id_in: "by_id ont k = Some t \<Longrightarrow> t \<in> set (ont_types ont) \<and> td_id t = k"
  by (auto simp: by_id_def dest: find_SomeD)

lemma attribute_faults_total:
  assumes "by_id ONTOLOGY ty = Some d" shows "attribute_faults ONTOLOGY d ns \<noteq> None"
proof -
  have "(td_id d, td_parent d) \<in> set (parents ONTOLOGY)"
    using by_id_in [OF assms] by (auto simp: parents_def)
  then have "chain_ends 8 (parents ONTOLOGY) (td_parent d)"
    using ONTOLOGY_chains unfolding Let_def list_all_iff by fastforce
  then have "chain_ends 22 (parents ONTOLOGY) (td_parent d)" by (rule chain_ends_mono) simp
  then have "nearest_ancestor_governing ONTOLOGY d n \<noteq> None" for n
    unfolding nearest_ancestor_governing_def ONTOLOGY_types by (rule chain_ends_ancestor)
  then have anc: "\<exists>x. nearest_ancestor_governing ONTOLOGY d n = Some x" for n by simp
  show ?thesis
  proof (induction ns)
    case (Cons n ns)
    with anc [of n] show ?case by auto
  qed simp
qed

lemma governs_declares:
  "starts_with ty ''mim:'' \<Longrightarrow> governs ont ty a \<longleftrightarrow> (\<exists>t. by_id ont ty = Some t \<and> declares t a)"
  by (auto simp: governs_def operator_namespace_def ont_attrs_def declares_def split: option.splits)

section \<open>Properties\<close>

text \<open>C39. On the vendored ontology the boot check returns for every declared mapping, and it is
  silent exactly when the type is a vendor type, or is declared with every attribute name of the
  mapping on the type itself and every fixed value in its vocabulary.\<close>

theorem check_ONTOLOGY_iff:
  "\<exists>fs. check ONTOLOGY d = Some fs \<and>
     (fs = [] \<longleftrightarrow> starts_with (de_entity_type d) ''x:'' \<or>
        (\<exists>t. by_id ONTOLOGY (de_entity_type d) = Some t
           \<and> (\<forall>n \<in> set (de_attributes d). declares t n)
           \<and> (\<forall>(n, v) \<in> set (de_fixed_values d). \<forall>a vs.
                 allowed_attr t n = Some a \<longrightarrow> ad_values a = Some vs \<longrightarrow> v \<in> set vs)))"
proof (cases "starts_with (de_entity_type d) ''x:''")
  case False
  show ?thesis
  proof (cases "by_id ONTOLOGY (de_entity_type d)")
    case (Some t)
    obtain fs where fs: "attribute_faults ONTOLOGY t (de_attributes d) = Some fs"
      using attribute_faults_total [OF Some] by blast
    moreover from this have "fs = [] \<longleftrightarrow> (\<forall>n \<in> set (de_attributes d). declares t n)"
      using attribute_faults_Nil_iff [of ONTOLOGY t "de_attributes d"] by simp
    ultimately show ?thesis
      using False Some vocabulary_faults_Nil_iff [of t "de_fixed_values d"]
      by (simp only: check_def if_False option.case option.map option.inject append_is_Nil_conv) simp
  qed (use False in \<open>simp add: check_def\<close>)
qed (simp add: check_def)

text \<open>A value routed with \<open>governed\<close> is never lost and never ungoverned: it is an attribute of
  the event when its type declares the name and metadata otherwise, and the ungoverned attributes
  of the built event are those the builder already had.\<close>

theorem governed_routes:
  assumes "build (eb_governed ont (b_entity_type b) k v b) = Inr e"
  shows "(if governs ont (b_entity_type b) k then \<lparr>a_key = k, a_value = v\<rparr> \<in> set (ev_attributes e)
          else \<lparr>a_key = k, a_value = v\<rparr> \<in> set (ev_metadata e))
    \<and> set (ungoverned ont e)
        = {k' \<in> fst ` set (b_attributes b). \<not> governs ont (b_entity_type b) k'}"
proof -
  from assms have e: "e = built_event (eb_governed ont (b_entity_type b) k v b)"
    by (simp add: build_Inr_iff)
  show ?thesis
    unfolding e by (auto simp: ungoverned_def built_event_def eb_governed_def eb_defs to_attr_def image_iff)
qed

section \<open>Witnesses\<close>

theorem governed_routes_witness:
  "\<not> governs ONTOLOGY ''mim:aircraft'' ''environment'' \<and>
   (\<exists>e. build (eb_governed ONTOLOGY ''mim:aircraft'' ''environment'' ''AIR'' ex_builder) = Inr e
      \<and> \<lparr>a_key = ''environment'', a_value = ''AIR''\<rparr> \<in> set (ev_metadata e))"
proof -
  have g: "\<not> governs ONTOLOGY ''mim:aircraft'' ''environment''" by code_simp
  have ty: "b_entity_type ex_builder = ''mim:aircraft''" by (simp add: ex_builder_def eb_defs eb_new_def)
  have "buildable (eb_governed ONTOLOGY ''mim:aircraft'' ''environment'' ''AIR'' ex_builder)"
    using ex_builder_buildable g
    by (simp add: buildable_def eb_governed_def eb_defs) (simp add: ex_builder_def eb_defs eb_new_def MAX_METADATA_def)
  then have b: "build (eb_governed ONTOLOGY (b_entity_type ex_builder) ''environment'' ''AIR'' ex_builder)
      = Inr (built_event (eb_governed ONTOLOGY ''mim:aircraft'' ''environment'' ''AIR'' ex_builder))"
    unfolding ty by (simp only: build_Inr_iff simp_thms)
  from governed_routes [OF b] b g show ?thesis unfolding ty by auto
qed

theorem check_ONTOLOGY_iff_witness:
  "check ONTOLOGY \<lparr>de_entity_type = ''x:acme:buoy'', de_attributes = [''depth''], de_fixed_values = []\<rparr> = Some []"
proof -
  have "starts_with ''x:acme:buoy'' ''x:''" by code_simp
  then show ?thesis
    using check_ONTOLOGY_iff [of "\<lparr>de_entity_type = ''x:acme:buoy'', de_attributes = [''depth''], de_fixed_values = []\<rparr>"]
    by fastforce
qed

end
