(* ===== verification/Codec.thy ===== *)
theory Codec
  imports Event_Builder
begin

text \<open>
  The contract of a self-delimiting encoding, as a locale: \<open>dec\<close> reads one item at the front of
  its input and gives back what follows it. Two encodings of the connectors keep it: the records
  of the disk spool and the length-delimited frames of the byte-stream transports. The client
  lemmas are about reading items until none can be read (\<open>scan\<close>).
\<close>

section \<open>Reading items until none is left\<close>

text \<open>At most \<open>fuel\<close> items; the length of the input is always enough (\<open>scan_complete\<close>).\<close>

fun scan :: "('b list \<Rightarrow> ('r \<times> 'b list) option) \<Rightarrow> nat \<Rightarrow> 'b list \<Rightarrow> 'r list \<times> 'b list" where
  "scan dec 0 xs = ([], xs)"
| "scan dec (Suc fuel) xs =
     (case dec xs of None \<Rightarrow> ([], xs)
      | Some (r, rest) \<Rightarrow> let (rs, tail) = scan dec fuel rest in (r # rs, tail))"

definition scan_all :: "('b list \<Rightarrow> ('r \<times> 'b list) option) \<Rightarrow> 'b list \<Rightarrow> 'r list \<times> 'b list" where
  "scan_all dec xs = scan dec (length xs) xs"

locale prefix_codec =
  fixes enc :: "'r \<Rightarrow> 'b list"
    and dec :: "'b list \<Rightarrow> ('r \<times> 'b list) option"
    and ok :: "'r \<Rightarrow> bool"
  assumes dec_enc: "ok r \<Longrightarrow> dec (enc r @ rest) = Some (r, rest)"
    and dec_sound: "dec xs = Some (r, rest) \<Longrightarrow> ok r \<and> xs = enc r @ rest"
    and enc_not_Nil: "ok r \<Longrightarrow> enc r \<noteq> []"
begin

abbreviation encs :: "'r list \<Rightarrow> 'b list" where
  "encs rs \<equiv> concat (map enc rs)"

lemma dec_iff: "dec xs = Some (r, rest) \<longleftrightarrow> ok r \<and> xs = enc r @ rest"
  using dec_enc dec_sound by blast

lemma dec_Nil [simp]: "dec [] = None"
proof (cases "dec []")
  case (Some p)
  then obtain r rest where "dec [] = Some (r, rest)" by (cases p) auto
  then show ?thesis using dec_sound enc_not_Nil by fastforce
qed

lemma enc_inj: "ok r \<Longrightarrow> ok s \<Longrightarrow> enc r @ xs = enc s @ ys \<longleftrightarrow> r = s \<and> xs = ys"
  by (metis dec_enc option.inject prod.inject)

lemma scan_encs:
  assumes "\<forall>r \<in> set rs. ok r" and "dec tail = None" and "length rs \<le> fuel"
  shows "scan dec fuel (encs rs @ tail) = (rs, tail)"
  using assms
proof (induction rs arbitrary: fuel)
  case Nil
  then show ?case by (cases fuel) auto
next
  case (Cons r rs)
  then obtain k where "fuel = Suc k" by (cases fuel) auto
  with Cons show ?case by (simp add: dec_enc)
qed

lemma length_encs: "\<forall>r \<in> set rs. ok r \<Longrightarrow> length rs \<le> length (encs rs)"
proof (induction rs)
  case (Cons r rs)
  then have "1 \<le> length (enc r)" by (simp add: enc_not_Nil Suc_le_eq)
  with Cons.IH Cons.prems have "1 + length rs \<le> length (enc r) + length (encs rs)"
    by (intro add_mono) auto
  then show ?case by simp
qed simp

lemma scan_all_encs: "\<forall>r \<in> set rs. ok r \<Longrightarrow> dec tail = None \<Longrightarrow> scan_all dec (encs rs @ tail) = (rs, tail)"
  unfolding scan_all_def using length_encs [of rs] by (intro scan_encs) auto

lemma scan_sound:
  "scan dec fuel xs = (rs, tail) \<Longrightarrow> xs = encs rs @ tail \<and> (\<forall>r \<in> set rs. ok r) \<and> (length xs \<le> fuel \<longrightarrow> dec tail = None)"
proof (induction fuel arbitrary: xs rs)
  case (Suc fuel)
  show ?case
  proof (cases "dec xs")
    case (Some p)
    then obtain r rest where d: "dec xs = Some (r, rest)" by (cases p) auto
    obtain rs' where s: "scan dec fuel rest = (rs', tail)" "rs = r # rs'"
      using Suc.prems d by (auto split: prod.splits)
    from dec_sound [OF d] have r: "ok r" "xs = enc r @ rest" by auto
    with enc_not_Nil [of r] have "length xs \<le> Suc fuel \<longrightarrow> length rest \<le> fuel" by (cases "enc r") auto
    with r Suc.IH [OF s(1)] s(2) show ?thesis by auto
  qed (use Suc.prems in auto)
qed auto

lemma scan_complete:
  "scan_all dec xs = (rs, tail) \<longleftrightarrow> xs = encs rs @ tail \<and> (\<forall>r \<in> set rs. ok r) \<and> dec tail = None"
  using scan_sound [of "length xs" xs rs tail] scan_all_encs [of rs tail] by (auto simp: scan_all_def)

lemma encs_unique:
  assumes "\<forall>r \<in> set rs. ok r" "\<forall>r \<in> set ss. ok r" "encs rs = encs ss" shows "rs = ss"
  using scan_all_encs [OF assms(1) dec_Nil] scan_all_encs [OF assms(2) dec_Nil] assms(3) by simp

lemma scan_all_append:
  assumes "scan_all dec xs = (rs, [])" and "ok r"
  shows "scan_all dec (xs @ enc r) = (rs @ [r], [])"
  using assms by (auto simp: scan_complete)

end

end
