(* ===== verification/Spool.thy ===== *)
theory Spool
  imports Codec
begin

text \<open>
  \<open>rust/connectors/common/src/spool.rs\<close>: the store-and-forward spool. The directory is the
  record \<open>disk\<close>: the segment files by sequence number and the text of the cursor file; it is
  what survives a crash. An open spool adds the bound, the head segment and its length, the drain
  cursor and the count of dropped segments. Sequence numbers, lengths and offsets (\<open>u64\<close>) are
  naturals: they count bytes and segments written. File operations succeed, except that reading
  an absent segment fails. A crash leaves what was written and, behind the last record, a proper prefix of
  another; what a power failure takes from the caches of the system, since files are synced on rotation and
  shutdown only, is outside the model.

  The spool is shown to be a bounded first-in first-out queue of records: \<open>contents\<close> is the list
  of records still to be drained, and \<open>append\<close>, \<open>peek\<close> and \<open>advance\<close> act on it as on a queue.
\<close>

section \<open>Configuration and names\<close>

definition DEFAULT_MAX_BYTES :: nat where "DEFAULT_MAX_BYTES = 256 * 1024 * 1024"

definition SEGMENT_BYTES :: nat where "SEGMENT_BYTES = 4 * 1024 * 1024"

abbreviation U64_MAX :: int where "U64_MAX \<equiv> 18446744073709551615"

record spool_config =
  sc_dir :: str
  sc_max_bytes :: nat
  sc_drain_rate :: f64

definition with_dir :: "str \<Rightarrow> spool_config" where
  "with_dir dir = \<lparr>sc_dir = dir, sc_max_bytes = DEFAULT_MAX_BYTES, sc_drain_rate = f64_of_int 50\<rparr>"

definition seg_name :: "nat \<Rightarrow> str" where
  "seg_name n = ''spool-'' @ pad_left 16 CHR ''0'' (map digit_char (digits_of 16 (int n))) @ ''.seg''"

text \<open>The closure of \<open>existing_segments\<close> that reads a sequence number back from a file name.\<close>

definition parse_seg_name :: "str \<Rightarrow> nat option" where
  "parse_seg_name name =
     Option.bind (strip_prefix name ''spool-'') (\<lambda>r.
     Option.bind (strip_suffix r ''.seg'') (\<lambda>hex. map_option nat (parse_uint 16 U64_MAX hex)))"

section \<open>Records\<close>

record spool_record =
  sr_event_id :: str
  sr_sealed :: bytes

text \<open>The buffer \<open>append\<close> writes; the lengths are cast to \<open>u32\<close>.\<close>

definition encode_record :: "spool_record \<Rightarrow> bytes" where
  "encode_record r = u32_to_be (of_nat (length (sr_event_id r))) @ u32_to_be (of_nat (length (sr_sealed r)))
     @ as_bytes (sr_event_id r) @ sr_sealed r"

definition u32_at :: "bytes \<Rightarrow> nat \<Rightarrow> nat" where
  "u32_at bs i = unat (u32_from_be (bs ! i) (bs ! (i + 1)) (bs ! (i + 2)) (bs ! (i + 3)))"

definition read_record :: "bytes \<Rightarrow> nat \<Rightarrow> (spool_record \<times> nat) option" where
  "read_record data offset =
     (if length data < offset then None
      else let rest = drop offset data in
      if length rest < 8 then None
      else let id_len = u32_at rest 0; payload_len = u32_at rest 4; total = 8 + id_len + payload_len in
      if length rest < total then None
      else case from_utf8 (take id_len (drop 8 rest)) of
        None \<Rightarrow> None
      | Some event_id \<Rightarrow>
          Some (\<lparr>sr_event_id = event_id, sr_sealed = take payload_len (drop (8 + id_len) rest)\<rparr>, offset + total))"

text \<open>The same on an open file, reading only the record: the head of eight bytes, then the rest.\<close>

definition read_record_at :: "bytes \<Rightarrow> nat \<Rightarrow> (spool_record \<times> nat) option" where
  "read_record_at data offset =
     (let remaining = length data - offset in
      if remaining < 8 then None
      else let head = take 8 (drop offset data);
               total = 8 + u32_at head 0 + u32_at head 4 in
      if remaining < total then None
      else map_option (\<lambda>(r, n). (r, offset + n)) (read_record (take total (drop offset data)) 0))"

section \<open>The spool\<close>

record cursor =
  cu_seg :: nat
  cu_offset :: nat

record disk =
  d_files :: "(nat \<times> bytes) list"
  d_cursor :: "str option"

record spool = disk +
  sp_max_bytes :: nat
  sp_head_seq :: nat
  sp_head_len :: nat
  sp_cursor :: cursor
  sp_dropped :: nat

definition existing_segments :: "'a disk_scheme \<Rightarrow> nat list" where
  "existing_segments d = sort (map fst (d_files d))"

definition depth_bytes :: "'a disk_scheme \<Rightarrow> nat" where
  "depth_bytes d = sum_list (map (\<lambda>s. case map_of (d_files d) s of Some f \<Rightarrow> length f | None \<Rightarrow> 0)
     (existing_segments d))"

definition file_append :: "nat \<Rightarrow> bytes \<Rightarrow> (nat \<times> bytes) list \<Rightarrow> (nat \<times> bytes) list" where
  "file_append s bs fs = map (\<lambda>(k, f). if k = s then (k, f @ bs) else (k, f)) fs"

definition file_create :: "nat \<Rightarrow> (nat \<times> bytes) list \<Rightarrow> (nat \<times> bytes) list" where
  "file_create s fs = (if s \<in> fst ` set fs then fs else fs @ [(s, [])])"

definition remove_files :: "(nat \<Rightarrow> bool) \<Rightarrow> (nat \<times> bytes) list \<Rightarrow> (nat \<times> bytes) list" where
  "remove_files P fs = filter (\<lambda>(k, _). \<not> P k) fs"

subsection \<open>Opening\<close>

definition read_cursor :: "'a disk_scheme \<Rightarrow> cursor option" where
  "read_cursor d =
     Option.bind (d_cursor d) (\<lambda>text.
       case split_whitespace text of
         a # b # _ \<Rightarrow> Option.bind (parse_uint 10 U64_MAX a) (\<lambda>s.
                      Option.bind (parse_uint 10 U64_MAX b) (\<lambda>off.
                        Some \<lparr>cu_seg = nat s, cu_offset = nat off\<rparr>))
       | _ \<Rightarrow> None)"

definition cursor_text :: "cursor \<Rightarrow> str" where
  "cursor_text c = show_nat (cu_seg c) @ '' '' @ show_nat (cu_offset c)"

definition write_cursor :: "cursor \<Rightarrow> 'a disk_scheme \<Rightarrow> 'a disk_scheme" where
  "write_cursor c d = d\<lparr>d_cursor := Some (cursor_text c)\<rparr>"

lemma read_record_bounds: "read_record data off = Some (r, n) \<Longrightarrow> off + 8 \<le> n \<and> n \<le> length data"
  by (auto simp: read_record_def Let_def split: if_splits option.splits)

text \<open>The loop of \<open>truncate_torn_tail\<close>: the offset behind the last whole record.\<close>

function (sequential) whole_prefix :: "bytes \<Rightarrow> nat \<Rightarrow> nat" where
  "whole_prefix data offset = (case read_record data offset of Some (_, next) \<Rightarrow> whole_prefix data next | None \<Rightarrow> offset)"
  by pat_completeness auto
termination
  by (relation "measure (\<lambda>(data, off). length data - off)") (auto dest!: read_record_bounds)

declare whole_prefix.simps [simp del]

definition truncate_torn_tail :: "nat \<Rightarrow> (nat \<times> bytes) list \<Rightarrow> (nat \<times> bytes) list" where
  "truncate_torn_tail s fs = map (\<lambda>(k, f). if k = s then (k, take (whole_prefix f 0) f) else (k, f)) fs"

definition spool_open :: "nat \<Rightarrow> disk \<Rightarrow> spool" where
  "spool_open max_bytes d =
     (let segs = existing_segments d;
          cur = (case read_cursor d of Some c \<Rightarrow> c
                 | None \<Rightarrow> \<lparr>cu_seg = (case segs of s # _ \<Rightarrow> s | [] \<Rightarrow> 0), cu_offset = 0\<rparr>);
          files = (if segs = [] then d_files d else truncate_torn_tail (last segs) (d_files d));
          head_seq = (if segs = [] then 0 else last segs);
          files' = file_create head_seq files
      in \<lparr>d_files = files', d_cursor = d_cursor d, sp_max_bytes = max_bytes, sp_head_seq = head_seq,
          sp_head_len = (case map_of files' head_seq of Some f \<Rightarrow> length f | None \<Rightarrow> 0),
          sp_cursor = cur, sp_dropped = 0\<rparr>)"

subsection \<open>Appending\<close>

definition rotate_head :: "spool \<Rightarrow> spool" where
  "rotate_head sp = sp\<lparr>sp_head_seq := sp_head_seq sp + 1,
     d_files := file_create (sp_head_seq sp + 1) (d_files sp), sp_head_len := 0\<rparr>"

definition drop_oldest :: "spool \<Rightarrow> spool" where
  "drop_oldest sp =
     (let oldest = hd (existing_segments sp) in
      sp\<lparr>d_files := remove_files (\<lambda>k. k = oldest) (d_files sp), sp_dropped := sp_dropped sp + 1,
         sp_cursor := (if cu_seg (sp_cursor sp) \<le> oldest then \<lparr>cu_seg = oldest + 1, cu_offset = 0\<rparr>
                       else sp_cursor sp)\<rparr>)"

lemma length_existing_segments [simp]: "length (existing_segments d) = length (d_files d)"
  by (simp add: existing_segments_def)

lemma set_existing_segments [simp]: "set (existing_segments d) = fst ` set (d_files d)"
  by (simp add: existing_segments_def)

lemma drop_oldest_shrinks:
  assumes "d_files sp \<noteq> []" shows "length (d_files (drop_oldest sp)) < length (d_files sp)"
proof -
  have "existing_segments sp \<noteq> []" using assms by (metis length_0_conv length_existing_segments)
  then have "hd (existing_segments sp) \<in> fst ` set (d_files sp)" by (metis hd_in_set set_existing_segments)
  then obtain f where "(hd (existing_segments sp), f) \<in> set (d_files sp)" by force
  then show ?thesis
    unfolding drop_oldest_def remove_files_def Let_def by (auto intro!: length_filter_less)
qed

function (sequential) enforce_bound :: "spool \<Rightarrow> bool \<Rightarrow> spool \<times> bool" where
  "enforce_bound sp dropped =
     (if depth_bytes sp \<le> sp_max_bytes sp \<or> length (existing_segments sp) \<le> 1 then (sp, dropped)
      else enforce_bound (drop_oldest sp) True)"
  by pat_completeness auto
termination
proof (relation "measure (\<lambda>(sp, _). length (d_files sp))", simp)
  fix sp :: spool and dropped :: bool
  assume "\<not> (depth_bytes sp \<le> sp_max_bytes sp \<or> length (existing_segments sp) \<le> 1)"
  then have "d_files sp \<noteq> []" by auto
  from drop_oldest_shrinks [OF this] show "((drop_oldest sp, True), sp, dropped) \<in> measure (\<lambda>(sp, _). length (d_files sp))"
    by simp
qed

declare enforce_bound.simps [simp del]

definition spool_append :: "spool_record \<Rightarrow> spool \<Rightarrow> spool \<times> bool" where
  "spool_append r sp =
     (let sp = (if SEGMENT_BYTES \<le> sp_head_len sp then rotate_head sp else sp);
          buf = encode_record r
      in enforce_bound (sp\<lparr>d_files := file_append (sp_head_seq sp) buf (d_files sp),
                           sp_head_len := sp_head_len sp + length buf\<rparr>) False)"

subsection \<open>Draining\<close>

definition next_segment :: "spool \<Rightarrow> spool" where
  "next_segment sp = sp\<lparr>sp_cursor := \<lparr>cu_seg = cu_seg (sp_cursor sp) + 1, cu_offset = 0\<rparr>\<rparr>"

function (sequential) peek :: "spool \<Rightarrow> spool \<times> (cursor \<times> spool_record) option" where
  "peek sp =
     (case Option.bind (map_of (d_files sp) (cu_seg (sp_cursor sp)))
             (\<lambda>f. read_record_at f (cu_offset (sp_cursor sp))) of
        Some (r, _) \<Rightarrow> (sp, Some (sp_cursor sp, r))
      | None \<Rightarrow> if cu_seg (sp_cursor sp) < sp_head_seq sp then peek (next_segment sp) else (sp, None))"
  by pat_completeness auto
termination
  by (relation "measure (\<lambda>sp. sp_head_seq sp - cu_seg (sp_cursor sp))") (auto simp: next_segment_def)

declare peek.simps [simp del]

datatype spool_error = SegmentMissing nat | NoRecordThere

definition advance :: "cursor \<Rightarrow> spool \<Rightarrow> spool_error + spool" where
  "advance pos sp =
     try_bind (ok_or (SegmentMissing (cu_seg pos)) (map_of (d_files sp) (cu_seg pos))) (\<lambda>f.
     try_bind (ok_or NoRecordThere (read_record_at f (cu_offset pos))) (\<lambda>(_, next).
       let cur = \<lparr>cu_seg = cu_seg pos, cu_offset = next\<rparr>;
           sp = write_cursor cur (sp\<lparr>sp_cursor := cur\<rparr>)
       in Inr (sp\<lparr>d_files := remove_files (\<lambda>k. k < cu_seg cur) (d_files sp)\<rparr>)))"

section \<open>The record encoding\<close>

definition valid_record :: "spool_record \<Rightarrow> bool" where
  "valid_record r \<longleftrightarrow> is_str (sr_event_id r) \<and> length (sr_event_id r) < 2 ^ 32 \<and> length (sr_sealed r) < 2 ^ 32"

definition decode_record :: "bytes \<Rightarrow> (spool_record \<times> bytes) option" where
  "decode_record xs = map_option (\<lambda>(r, n). (r, drop n xs)) (read_record xs 0)"

lemma from_utf8_Some_iff: "from_utf8 bs = Some s \<longleftrightarrow> is_str s \<and> bs = as_bytes s"
  by (auto simp: from_utf8_def is_str_def)

lemma u32_at_to_be:
  "u32_at (u32_to_be v @ xs) 0 = unat v"
  "u32_at (u32_to_be v @ u32_to_be w @ xs) 4 = unat w"
  by (simp_all add: u32_at_def u32_to_be_def u32_from_to_be)

lemma u32_at_take: "8 \<le> length xs \<Longrightarrow> take 8 xs = u32_to_be (of_nat (u32_at xs 0)) @ u32_to_be (of_nat (u32_at xs 4))"
proof -
  assume "8 \<le> length xs"
  then obtain a b c d e f g h ys where "xs = a # b # c # d # e # f # g # h # ys"
    by (metis Suc_le_length_iff numeral_eq_Suc pred_numeral_simps(2,3) BitM.simps numeral_One)
  then show ?thesis by (simp add: u32_at_def u32_to_from_be)
qed

lemma decode_encode: "valid_record r \<Longrightarrow> decode_record (encode_record r @ rest) = Some (r, rest)"
proof -
  assume v: "valid_record r"
  let ?i = "length (sr_event_id r)" and ?p = "length (sr_sealed r)" and ?xs = "encode_record r @ rest"
  have n: "unat (of_nat ?i :: u32) = ?i" "unat (of_nat ?p :: u32) = ?p"
    using v by (simp_all add: valid_record_def unsigned_of_nat take_bit_nat_eq_self)
  have l: "u32_at ?xs 0 = ?i" "u32_at ?xs 4 = ?p"
    unfolding encode_record_def append_assoc u32_at_to_be n by (rule refl)+
  have "from_utf8 (take ?i (drop 8 ?xs)) = Some (sr_event_id r)"
    using v by (simp add: encode_record_def valid_record_def from_utf8_Some_iff)
  moreover have "take ?p (drop (8 + ?i) ?xs) = sr_sealed r" "drop (8 + ?i + ?p) ?xs = rest"
      "8 + ?i + ?p \<le> length ?xs"
    by (simp_all add: encode_record_def)
  ultimately show ?thesis
    by (simp add: decode_record_def read_record_def Let_def l del: append_assoc)
qed

lemma decode_sound:
  assumes "decode_record xs = Some (r, rest)"
  shows "valid_record r \<and> xs = encode_record r @ rest"
proof -
  let ?i = "u32_at xs 0" and ?p = "u32_at xs 4"
  from assms have len: "8 + ?i + ?p \<le> length xs"
    and ident: "from_utf8 (take ?i (drop 8 xs)) = Some (sr_event_id r)"
    and r: "sr_sealed r = take ?p (drop (8 + ?i) xs)" "rest = drop (8 + ?i + ?p) xs"
    by (auto simp: decode_record_def read_record_def Let_def split: if_splits option.splits)
  from ident have ident': "is_str (sr_event_id r)" "as_bytes (sr_event_id r) = take ?i (drop 8 xs)"
    by (simp_all add: from_utf8_Some_iff)
  then have li: "length (sr_event_id r) = ?i" using len by (metis length_as_bytes length_take length_drop
        add_leD1 diff_le_mono diff_add_inverse min.absorb2)
  have lp: "length (sr_sealed r) = ?p" using len by (simp add: r)
  have "?i < 2 ^ 32" "?p < 2 ^ 32"
    unfolding u32_at_def using unsigned_less [where ?'a = nat and ?'b = 32] by auto
  moreover have "encode_record r = take (8 + ?i + ?p) xs"
  proof -
    have "take (8 + ?i + ?p) xs = take 8 xs @ take ?i (drop 8 xs) @ take ?p (drop (8 + ?i) xs)"
      by (simp only: take_add append_assoc)
    then show ?thesis using u32_at_take [of xs] len by (simp add: encode_record_def li lp ident'(2) r(1))
  qed
  ultimately show ?thesis using ident'(1) li lp r(2) by (simp add: valid_record_def)
qed

interpretation records: prefix_codec encode_record decode_record valid_record
  by unfold_locales (auto simp: decode_encode dest: decode_sound, simp add: encode_record_def u32_to_be_def)

section \<open>Reading at an offset\<close>

lemma read_record_decode:
  "off \<le> length data \<Longrightarrow> read_record data off =
     (case decode_record (drop off data) of None \<Rightarrow> None | Some (r, rest) \<Rightarrow> Some (r, length data - length rest))"
  by (auto simp: decode_record_def read_record_def Let_def split: option.split)

text \<open>Reading only the record from the file agrees with reading it from the whole data.\<close>

lemma decode_record_prefix:
  assumes "tot = 8 + u32_at xs 0 + u32_at xs 4" "tot \<le> length xs"
  shows "read_record (take tot xs) 0 = read_record xs 0"
proof -
  have "u32_at (take tot xs) 0 = u32_at xs 0" "u32_at (take tot xs) 4 = u32_at xs 4"
    using assms by (simp_all add: u32_at_def)
  then show ?thesis using assms by (simp add: read_record_def Let_def drop_take min_def cong: option.case_cong)
qed

lemma read_record_at_eq: "read_record_at data off = read_record data off"
proof (cases "off \<le> length data \<and> 8 \<le> length data - off")
  case False
  then show ?thesis by (auto simp: read_record_at_def read_record_def)
next
  case True
  let ?xs = "drop off data" and ?t = "8 + u32_at (drop off data) 0 + u32_at (drop off data) 4"
  have head: "u32_at (take 8 ?xs) 0 = u32_at ?xs 0" "u32_at (take 8 ?xs) 4 = u32_at ?xs 4"
    by (simp_all add: u32_at_def)
  show ?thesis
  proof (cases "?t \<le> length ?xs")
    case t: True
    have "read_record_at data off = map_option (\<lambda>(r, n). (r, off + n)) (read_record ?xs 0)"
      using True t decode_record_prefix [OF refl t] by (simp add: read_record_at_def head Let_def)
    also have "\<dots> = read_record data off"
      using True t by (simp add: read_record_def Let_def split: option.split)
    finally show ?thesis .
  next
    case t: False
    then have "read_record_at data off = None" using True by (simp add: read_record_at_def head Let_def)
    moreover have "read_record data off = None" using True t by (simp add: read_record_def Let_def)
    ultimately show ?thesis by simp
  qed
qed

definition whole :: "bytes \<Rightarrow> bool" where
  "whole f \<longleftrightarrow> snd (scan_all decode_record f) = []"

definition segment_records :: "bytes \<Rightarrow> nat \<Rightarrow> spool_record list" where
  "segment_records f off = fst (scan_all decode_record (drop off f))"

lemma whole_iff: "whole f \<longleftrightarrow> (\<exists>rs. (\<forall>r \<in> set rs. valid_record r) \<and> f = concat (map encode_record rs))"
proof
  assume "whole f"
  then obtain rs where "scan_all decode_record f = (rs, [])" unfolding whole_def by (metis prod.collapse)
  then show "\<exists>rs. (\<forall>r \<in> set rs. valid_record r) \<and> f = concat (map encode_record rs)"
    by (auto simp: records.scan_complete)
next
  assume "\<exists>rs. (\<forall>r \<in> set rs. valid_record r) \<and> f = concat (map encode_record rs)"
  then obtain rs where "\<forall>r \<in> set rs. valid_record r" "f = concat (map encode_record rs)" by blast
  then have "scan_all decode_record f = (rs, [])" by (simp add: records.scan_complete)
  then show "whole f" by (simp add: whole_def)
qed

lemma whole_Nil [simp]: "whole []"
  by (auto simp: whole_iff intro: exI [of _ "[]"])

lemma whole_append: "whole f \<Longrightarrow> whole g \<Longrightarrow> whole (f @ g)"
  unfolding whole_iff by (metis Un_iff concat_append map_append set_append)

lemma whole_encode: "valid_record r \<Longrightarrow> whole (encode_record r)"
  unfolding whole_iff by (intro exI [of _ "[r]"]) simp

lemma segment_records_whole:
  "whole (drop off f) \<Longrightarrow> scan_all decode_record (drop off f) = (segment_records f off, [])"
  by (simp add: whole_def segment_records_def prod_eq_iff)

text \<open>What a read at a record boundary finds: the first remaining record, or the end.\<close>

lemma read_at_boundary:
  assumes "off \<le> length f" "whole (drop off f)"
  shows "read_record_at f off = None \<and> segment_records f off = []
    \<or> (\<exists>r rest. valid_record r \<and> drop off f = encode_record r @ rest \<and> whole rest
         \<and> read_record_at f off = Some (r, off + length (encode_record r))
         \<and> segment_records f off = r # segment_records f (off + length (encode_record r)))"
proof -
  obtain rs where rs: "\<forall>r \<in> set rs. valid_record r" "drop off f = concat (map encode_record rs)"
    using assms(2) by (auto simp: whole_iff)
  have sr: "segment_records f off = rs"
    using rs by (simp add: segment_records_def records.scan_all_encs [of rs "[]", simplified])
  show ?thesis
  proof (cases rs)
    case Nil
    then show ?thesis using sr rs assms(1) by (simp add: read_record_at_eq read_record_decode)
  next
    case (Cons r rs')
    then have d: "drop off f = encode_record r @ concat (map encode_record rs')" "valid_record r"
      using rs by simp_all
    then have "decode_record (drop off f) = Some (r, concat (map encode_record rs'))"
      by (simp add: decode_encode)
    moreover have "length f = off + length (encode_record r) + length (concat (map encode_record rs'))"
      using arg_cong [OF d(1), of length] assms(1) by simp
    ultimately have read: "read_record_at f off = Some (r, off + length (encode_record r))"
      using assms(1) by (simp add: read_record_at_eq read_record_decode)
    have "drop (off + length (encode_record r)) f = concat (map encode_record rs')"
      using d(1) by (metis add.commute append_eq_conv_conj drop_drop)
    then have "segment_records f (off + length (encode_record r)) = rs'"
      using rs(1) Cons by (simp add: segment_records_def records.scan_all_encs [of rs' "[]", simplified])
    moreover have "whole (concat (map encode_record rs'))" using rs(1) Cons by (auto simp: whole_iff)
    ultimately show ?thesis using d read sr Cons by blast
  qed
qed

lemma segment_records_append:
  assumes "off \<le> length f" "whole (drop off f)" "valid_record r"
  shows "segment_records (f @ encode_record r) off = segment_records f off @ [r]"
  using records.scan_all_append [OF segment_records_whole [OF assms(2)] assms(3)] assms(1)
  by (simp add: segment_records_def)

section \<open>The records still to be drained\<close>

definition contents_from :: "(nat \<times> bytes) list \<Rightarrow> cursor \<Rightarrow> spool_record list" where
  "contents_from fs c =
     concat (map (\<lambda>s. case map_of fs s of None \<Rightarrow> []
                       | Some f \<Rightarrow> segment_records f (if s = cu_seg c then cu_offset c else 0))
               (filter (\<lambda>s. cu_seg c \<le> s) (sort (map fst fs))))"

abbreviation contents :: "spool \<Rightarrow> spool_record list" where
  "contents sp \<equiv> contents_from (d_files sp) (sp_cursor sp)"

abbreviation seg_start :: "nat \<Rightarrow> cursor" where
  "seg_start s \<equiv> \<lparr>cu_seg = s, cu_offset = 0\<rparr>"

lemma filter_ge_split:
  "sorted xs \<Longrightarrow> distinct xs \<Longrightarrow>
     filter (\<lambda>s :: nat. a \<le> s) xs = (if a \<in> set xs then [a] else []) @ filter (\<lambda>s. Suc a \<le> s) xs"
proof (induction xs)
  case (Cons x xs)
  then show ?case
    by (cases "x = a") (auto simp: Suc_le_eq order.order_iff_strict intro!: filter_cong)
qed simp

lemma contents_split:
  assumes "distinct (map fst fs)"
  shows "contents_from fs c =
     (case map_of fs (cu_seg c) of None \<Rightarrow> [] | Some f \<Rightarrow> segment_records f (cu_offset c))
     @ contents_from fs (seg_start (Suc (cu_seg c)))"
proof -
  let ?ks = "sort (map fst fs)"
  have split: "filter (\<lambda>s. cu_seg c \<le> s) ?ks
      = (if cu_seg c \<in> fst ` set fs then [cu_seg c] else []) @ filter (\<lambda>s. Suc (cu_seg c) \<le> s) ?ks"
    using filter_ge_split [of ?ks "cu_seg c"] assms by simp
  have none: "cu_seg c \<notin> fst ` set fs \<longleftrightarrow> map_of fs (cu_seg c) = None" by (simp add: map_of_eq_None_iff)
  show ?thesis
    unfolding contents_from_def split
    by (auto simp: none split: option.splits intro!: arg_cong [where f = concat] map_cong)
qed

lemma contents_beyond: "\<forall>k \<in> fst ` set fs. k < cu_seg c \<Longrightarrow> contents_from fs c = []"
  by (auto simp: contents_from_def not_le)

lemma map_of_remove_files: "map_of (remove_files P fs) k = (if P k then None else map_of fs k)"
  by (induction fs) (auto simp: remove_files_def)

lemma keys_remove_files: "map fst (remove_files P fs) = filter (\<lambda>k. \<not> P k) (map fst fs)"
  by (induction fs) (auto simp: remove_files_def)

lemma contents_remove:
  assumes "\<And>k. P k \<Longrightarrow> k < cu_seg c"
  shows "contents_from (remove_files P fs) c = contents_from fs c"
proof -
  have keys: "filter (\<lambda>s. cu_seg c \<le> s) (sort (map fst (remove_files P fs))) = filter (\<lambda>s. cu_seg c \<le> s) (sort (map fst fs))"
    unfolding keys_remove_files filter_sort filter_filter
    by (rule arg_cong [where f = sort], rule filter_cong) (use assms in \<open>force+\<close>)
  have "map_of (remove_files P fs) s = map_of fs s" if "cu_seg c \<le> s" for s
    using assms [of s] that by (auto simp: map_of_remove_files)
  then show ?thesis unfolding contents_from_def keys by (intro arg_cong [where f = concat] map_cong) auto
qed

text \<open>Changing or creating the segment \<open>h\<close>, the last one, extends the records at their end.\<close>

lemma contents_extend:
  assumes "distinct (map fst fs)" "distinct (map fst gs)"
    and "\<And>k. k \<noteq> h \<Longrightarrow> map_of gs k = map_of fs k"
    and "\<forall>k \<in> fst ` set fs \<union> fst ` set gs. k \<le> h"
    and "cu_seg c \<le> h"
    and "\<And>off. off = (if cu_seg c = h then cu_offset c else 0) \<Longrightarrow>
       (case map_of gs h of None \<Rightarrow> [] | Some g \<Rightarrow> segment_records g off)
       = (case map_of fs h of None \<Rightarrow> [] | Some f \<Rightarrow> segment_records f off) @ new"
  shows "contents_from gs c = contents_from fs c @ new"
  using assms(5,6)
proof (induction "h - cu_seg c" arbitrary: c)
  case 0
  then have "cu_seg c = h" by simp
  moreover have "contents_from gs (seg_start (Suc h)) = []" "contents_from fs (seg_start (Suc h)) = []"
    using assms(4) by (intro contents_beyond; simp add: less_Suc_eq_le)+
  ultimately show ?case
    using 0 contents_split [OF assms(1), of c] contents_split [OF assms(2), of c] by simp
next
  case (Suc n)
  then have lt: "cu_seg c < h" by simp
  have "contents_from gs (seg_start (Suc (cu_seg c))) = contents_from fs (seg_start (Suc (cu_seg c))) @ new"
  proof (rule Suc.hyps(1))
    show "n = h - cu_seg (seg_start (Suc (cu_seg c)))" "cu_seg (seg_start (Suc (cu_seg c))) \<le> h"
      using Suc.hyps(2) lt by simp_all
  qed (use Suc.prems(2) [of 0] lt in \<open>simp cong: option.case_cong\<close>)
  moreover have "map_of gs (cu_seg c) = map_of fs (cu_seg c)" using lt assms(3) [of "cu_seg c"] by simp
  ultimately show ?case
    using contents_split [OF assms(1), of c] contents_split [OF assms(2), of c] by simp
qed

section \<open>The invariant\<close>

definition cursor_ok :: "(nat \<times> bytes) list \<Rightarrow> nat \<Rightarrow> cursor \<Rightarrow> bool" where
  "cursor_ok fs h c \<longleftrightarrow> cu_seg c \<le> h \<and>
     (case map_of fs (cu_seg c) of None \<Rightarrow> True
      | Some f \<Rightarrow> cu_offset c \<le> length f \<and> whole (take (cu_offset c) f) \<and> whole (drop (cu_offset c) f))"

definition files_ok :: "(nat \<times> bytes) list \<Rightarrow> nat \<Rightarrow> bool" where
  "files_ok fs h \<longleftrightarrow> distinct (map fst fs) \<and> h \<in> fst ` set fs \<and> (\<forall>(k, f) \<in> set fs. k \<le> h \<and> whole f)"

definition cursor_le :: "cursor \<Rightarrow> cursor \<Rightarrow> bool" where
  "cursor_le a b \<longleftrightarrow> cu_seg a < cu_seg b \<or> cu_seg a = cu_seg b \<and> cu_offset a \<le> cu_offset b"

definition spool_inv :: "spool \<Rightarrow> bool" where
  "spool_inv sp \<longleftrightarrow> files_ok (d_files sp) (sp_head_seq sp)
     \<and> map_option length (map_of (d_files sp) (sp_head_seq sp)) = Some (sp_head_len sp)
     \<and> cursor_ok (d_files sp) (sp_head_seq sp) (sp_cursor sp)"

lemma files_okD:
  assumes "files_ok fs h"
  shows "distinct (map fst fs)" "\<forall>k \<in> fst ` set fs. k \<le> h" "\<And>k f. map_of fs k = Some f \<Longrightarrow> k \<le> h \<and> whole f"
    "\<exists>f. map_of fs h = Some f"
  using assms by (auto simp: files_ok_def dest: map_of_SomeD weak_map_of_SomeI)

lemma cursor_ok_start: "files_ok fs h \<Longrightarrow> s \<le> h \<Longrightarrow> cursor_ok fs h (seg_start s)"
  by (auto simp: cursor_ok_def dest: files_okD(3) split: option.splits)

lemma cursor_ok_remove: "cursor_ok fs h c \<Longrightarrow> cursor_ok (remove_files P fs) h c"
  by (simp add: cursor_ok_def map_of_remove_files)

lemma whole_prefix_step:
  assumes "drop off f = encode_record r @ rest" "off \<le> length f" "valid_record r" "whole (take off f)" "whole rest"
  shows "off + length (encode_record r) \<le> length f \<and> whole (take (off + length (encode_record r)) f)
    \<and> whole (drop (off + length (encode_record r)) f)"
proof -
  have "take (off + length (encode_record r)) f = take off f @ encode_record r"
    using assms(1) by (simp add: take_add)
  moreover have "drop (off + length (encode_record r)) f = rest"
    using assms(1) by (metis add.commute append_eq_conv_conj drop_drop)
  moreover have "off + length (encode_record r) \<le> length f"
    using arg_cong [OF assms(1), of length] assms(2) by simp
  ultimately show ?thesis using assms whole_append whole_encode by simp
qed

subsection \<open>\<open>peek\<close> and \<open>advance\<close>\<close>

lemma peek_spec:
  assumes "spool_inv sp"
  shows "\<exists>c. fst (peek sp) = sp\<lparr>sp_cursor := c\<rparr> \<and> spool_inv (sp\<lparr>sp_cursor := c\<rparr>)
    \<and> contents_from (d_files sp) c = contents sp \<and> cursor_le (sp_cursor sp) c
    \<and> snd (peek sp) = (case contents sp of [] \<Rightarrow> None | r # _ \<Rightarrow> Some (c, r))
    \<and> (contents sp \<noteq> [] \<longrightarrow> (\<exists>f. map_of (d_files sp) (cu_seg c) = Some f
          \<and> (\<exists>n. read_record_at f (cu_offset c) = Some (hd (contents sp), n))))"
  using assms
proof (induction sp rule: peek.induct)
  case (1 sp)
  let ?c = "sp_cursor sp"
  have ok: "files_ok (d_files sp) (sp_head_seq sp)" "cursor_ok (d_files sp) (sp_head_seq sp) ?c"
    using "1.prems" by (auto simp: spool_inv_def)
  note split = contents_split [OF files_okD(1) [OF ok(1)], of ?c]
  define found where "found = Option.bind (map_of (d_files sp) (cu_seg ?c)) (\<lambda>f. read_record_at f (cu_offset ?c))"
  show ?case
  proof (cases found)
    case None
    have here: "(case map_of (d_files sp) (cu_seg ?c) of None \<Rightarrow> [] | Some f \<Rightarrow> segment_records f (cu_offset ?c)) = []"
    proof (cases "map_of (d_files sp) (cu_seg ?c)")
      case (Some f)
      then have "cu_offset ?c \<le> length f" "whole (drop (cu_offset ?c) f)" using ok(2) by (auto simp: cursor_ok_def)
      from read_at_boundary [OF this] None Some show ?thesis by (auto simp: found_def)
    qed simp
    show ?thesis
    proof (cases "cu_seg ?c < sp_head_seq sp")
      case True
      have inv: "spool_inv (next_segment sp)"
        using "1.prems" True cursor_ok_start [OF ok(1), of "Suc (cu_seg ?c)"]
        by (simp add: spool_inv_def next_segment_def)
      have same: "contents (next_segment sp) = contents sp" using split here by (simp add: next_segment_def)
      have "peek sp = peek (next_segment sp)"
        using None True by (simp add: peek.simps [of sp] found_def [symmetric])
      with "1.IH" [OF None [unfolded found_def] True inv] same show ?thesis
        by (simp add: next_segment_def) (auto simp: cursor_le_def)
    next
      case False
      then have "contents_from (d_files sp) (seg_start (Suc (cu_seg ?c))) = []"
        using files_okD(2) [OF ok(1)] by (intro contents_beyond) auto
      then have "contents sp = []" using split here by simp
      moreover have "peek sp = (sp, None)" using None False by (simp add: peek.simps [of sp] found_def [symmetric])
      ultimately show ?thesis using "1.prems" by (intro exI [of _ ?c]) (simp add: cursor_le_def)
    qed
  next
    case (Some p)
    then obtain r n where p: "found = Some (r, n)" by (cases p) auto
    then obtain f where f: "map_of (d_files sp) (cu_seg ?c) = Some f" "read_record_at f (cu_offset ?c) = Some (r, n)"
      by (auto simp: found_def bind_eq_Some_conv)
    then have "cu_offset ?c \<le> length f" "whole (drop (cu_offset ?c) f)" using ok(2) by (auto simp: cursor_ok_def)
    from read_at_boundary [OF this] f have "\<exists>rs. contents sp = r # rs" using split by auto
    moreover have "peek sp = (sp, Some (?c, r))" using p by (simp add: peek.simps [of sp] found_def [symmetric])
    ultimately show ?thesis using "1.prems" f by (intro exI [of _ ?c]) (auto simp: cursor_le_def)
  qed
qed

lemma advance_spec:
  assumes inv: "spool_inv sp" and f: "map_of (d_files sp) (cu_seg (sp_cursor sp)) = Some f"
    and read: "read_record_at f (cu_offset (sp_cursor sp)) = Some (r, n)"
  shows "\<exists>sp'. advance (sp_cursor sp) sp = Inr sp' \<and> spool_inv sp' \<and> contents sp = r # contents sp'
    \<and> d_cursor sp' = Some (cursor_text (sp_cursor sp'))"
proof -
  let ?c = "sp_cursor sp"
  let ?c' = "\<lparr>cu_seg = cu_seg ?c, cu_offset = n\<rparr>"
  let ?fs = "remove_files (\<lambda>k. k < cu_seg ?c) (d_files sp)"
  let ?sp = "sp\<lparr>sp_cursor := ?c', d_cursor := Some (cursor_text ?c'), d_files := ?fs\<rparr>"
  have ok: "files_ok (d_files sp) (sp_head_seq sp)" "cursor_ok (d_files sp) (sp_head_seq sp) ?c"
    using inv by (auto simp: spool_inv_def)
  from ok(2) f have b: "cu_offset ?c \<le> length f" "whole (drop (cu_offset ?c) f)" "whole (take (cu_offset ?c) f)"
    by (auto simp: cursor_ok_def)
  obtain rest where r: "valid_record r" "drop (cu_offset ?c) f = encode_record r @ rest" "whole rest"
      "n = cu_offset ?c + length (encode_record r)"
      "segment_records f (cu_offset ?c) = r # segment_records f n"
    using read_at_boundary [OF b(1,2)] read by auto
  note w = whole_prefix_step [OF r(2) b(1) r(1) b(3) r(3), folded r(4)]
  have adv: "advance ?c sp = Inr ?sp"
    using f read by (simp add: advance_def ok_or_def write_cursor_def Let_def)
  have le: "cu_seg ?c \<le> sp_head_seq sp" using ok(2) by (simp add: cursor_ok_def)
  have "files_ok ?fs (sp_head_seq sp)"
    using ok(1) le by (auto simp: files_ok_def keys_remove_files distinct_filter) (force simp: remove_files_def)+
  moreover have "cursor_ok ?fs (sp_head_seq sp) ?c'"
    using le f w by (simp add: cursor_ok_def map_of_remove_files)
  ultimately have "spool_inv ?sp" using inv le by (simp add: spool_inv_def map_of_remove_files)
  moreover have "contents sp = r # contents ?sp"
  proof -
    have "contents_from ?fs ?c' = contents_from (d_files sp) ?c'" by (rule contents_remove) simp
    also have "\<dots> = segment_records f n @ contents_from (d_files sp) (seg_start (Suc (cu_seg ?c)))"
      using contents_split [OF files_okD(1) [OF ok(1)], of ?c'] f by simp
    finally show ?thesis using contents_split [OF files_okD(1) [OF ok(1)], of ?c] f r(5) by simp
  qed
  ultimately show ?thesis using adv by (intro exI [of _ ?sp]) simp
qed

subsection \<open>\<open>append\<close> and the bound\<close>

lemma map_fst_file_append [simp]: "map fst (file_append s bs fs) = map fst fs"
  by (induction fs) (auto simp: file_append_def)

lemma map_of_file_append:
  "map_of (file_append s bs fs) k = (if k = s then map_option (\<lambda>f. f @ bs) (map_of fs k) else map_of fs k)"
  by (induction fs) (auto simp: file_append_def)

lemma files_ok_file_append:
  assumes "files_ok fs h" "valid_record r" shows "files_ok (file_append s (encode_record r) fs) h"
proof -
  let ?gs = "file_append s (encode_record r) fs"
  have keys: "fst ` set ?gs = fst ` set fs" by (metis list.set_map map_fst_file_append)
  have "k \<le> h \<and> whole g" if "(k, g) \<in> set ?gs" for k g
  proof -
    from that obtain f where f: "(k, f) \<in> set fs" "g = f \<or> g = f @ encode_record r"
      by (auto simp: file_append_def split: if_splits)
    with assms(1) have "k \<le> h" "whole f" by (auto simp: files_ok_def)
    with f(2) show ?thesis using whole_append whole_encode [OF assms(2)] by blast
  qed
  with assms(1) keys show ?thesis unfolding files_ok_def by auto
qed

lemma rotate_head_spec:
  assumes "spool_inv sp"
  shows "spool_inv (rotate_head sp)"
    and "cursor_ok (d_files sp) (sp_head_seq sp) c \<Longrightarrow>
      contents_from (d_files (rotate_head sp)) c = contents_from (d_files sp) c
      \<and> cursor_ok (d_files (rotate_head sp)) (sp_head_seq (rotate_head sp)) c"
proof -
  define h where "h = sp_head_seq sp + 1"
  let ?fs = "file_create h (d_files sp)"
  have ok: "files_ok (d_files sp) (sp_head_seq sp)" "cursor_ok (d_files sp) (sp_head_seq sp) (sp_cursor sp)"
    using assms by (auto simp: spool_inv_def)
  have fresh: "h \<notin> fst ` set (d_files sp)" using files_okD(2) [OF ok(1)] unfolding h_def by fastforce
  then have fs: "?fs = d_files sp @ [(h, [])]" by (simp add: file_create_def)
  have new: "map_of ?fs h = Some []" using fresh [unfolded map_of_eq_None_iff [symmetric]] by (simp add: fs map_add_def)
  have old: "map_of ?fs k = map_of (d_files sp) k" if "k \<noteq> h" for k
    using that by (auto simp: fs map_add_def split: option.split)
  have f: "files_ok ?fs h" using ok(1) fresh unfolding files_ok_def fs by (auto simp: h_def)
  have cok: "cursor_ok ?fs h c" if "cursor_ok (d_files sp) (sp_head_seq sp) c" for c
    using that old [of "cu_seg c"] by (simp add: cursor_ok_def h_def)
  show "spool_inv (rotate_head sp)"
    using f new cok [OF ok(2)] by (simp add: spool_inv_def rotate_head_def h_def)
  assume c: "cursor_ok (d_files sp) (sp_head_seq sp) c"
  have "contents_from ?fs c = contents_from (d_files sp) c @ []"
  proof (rule contents_extend)
    show "distinct (map fst (d_files sp))" "distinct (map fst ?fs)" using ok(1) f by (simp_all add: files_ok_def)
    show "\<forall>k \<in> fst ` set (d_files sp) \<union> fst ` set ?fs. k \<le> h"
    proof
      fix k assume "k \<in> fst ` set (d_files sp) \<union> fst ` set ?fs"
      then have "k \<in> fst ` set (d_files sp) \<or> k = h" by (auto simp: fs)
      then show "k \<le> h" using bspec [OF files_okD(2) [OF ok(1)]] by (auto simp only: h_def le_add1 intro: trans_le_add1)
    qed
    show "cu_seg c \<le> h" using c by (simp add: h_def cursor_ok_def)
    have "map_of (d_files sp) h = None" using fresh by (simp add: map_of_eq_None_iff)
    moreover have "segment_records [] off = []" for off by (simp add: segment_records_def scan_all_def)
    ultimately show "(case map_of ?fs h of None \<Rightarrow> [] | Some g \<Rightarrow> segment_records g off)
       = (case map_of (d_files sp) h of None \<Rightarrow> [] | Some f \<Rightarrow> segment_records f off) @ []" for off
      using new by simp
  qed (rule old)
  then show "contents_from (d_files (rotate_head sp)) c = contents_from (d_files sp) c
      \<and> cursor_ok (d_files (rotate_head sp)) (sp_head_seq (rotate_head sp)) c"
    using cok [OF c] by (simp add: rotate_head_def h_def)
qed

text \<open>Writing a record to the head segment puts it behind every record to be drained, from any
  cursor of the spool.\<close>

lemma write_record_spec:
  assumes "files_ok fs h" "cursor_ok fs h c" "valid_record r"
  shows "contents_from (file_append h (encode_record r) fs) c = contents_from fs c @ [r]
    \<and> cursor_ok (file_append h (encode_record r) fs) h c"
proof -
  let ?gs = "file_append h (encode_record r) fs"
  obtain f where f: "map_of fs h = Some f" using files_okD(4) [OF assms(1)] by blast
  have c: "cu_seg c \<le> h" using assms(2) by (simp add: cursor_ok_def)
  have "cursor_ok ?gs h c"
  proof (cases "cu_seg c = h")
    case True
    with assms(2) f have "cu_offset c \<le> length f" "whole (take (cu_offset c) f)" "whole (drop (cu_offset c) f)"
      by (auto simp: cursor_ok_def)
    with True f show ?thesis
      using whole_append whole_encode [OF assms(3)] by (simp add: cursor_ok_def map_of_file_append)
  qed (use assms(2) in \<open>simp add: cursor_ok_def map_of_file_append\<close>)
  moreover have "contents_from ?gs c = contents_from fs c @ [r]"
  proof (rule contents_extend)
    show "distinct (map fst fs)" "distinct (map fst ?gs)" using assms(1) by (simp_all add: files_ok_def)
    show "\<forall>k \<in> fst ` set fs \<union> fst ` set ?gs. k \<le> h"
      using files_okD(2) [OF assms(1)] by (metis Un_iff list.set_map map_fst_file_append)
    show "map_of ?gs k = map_of fs k" if "k \<noteq> h" for k using that by (simp add: map_of_file_append)
    show "(case map_of ?gs h of None \<Rightarrow> [] | Some g \<Rightarrow> segment_records g off)
       = (case map_of fs h of None \<Rightarrow> [] | Some f \<Rightarrow> segment_records f off) @ [r]"
      if "off = (if cu_seg c = h then cu_offset c else 0)" for off
    proof -
      have "off \<le> length f" "whole (drop off f)"
        using that assms(2) f files_okD(3) [OF assms(1) f] by (auto simp: cursor_ok_def split: if_splits)
      then show ?thesis using f segment_records_append [OF _ _ assms(3)] by (simp add: map_of_file_append)
    qed
  qed (rule c)
  ultimately show ?thesis by blast
qed

text \<open>From an earlier cursor the same records follow, behind others.\<close>

lemma whole_cancel: "whole (a @ b) \<Longrightarrow> whole a \<Longrightarrow> whole b"
proof -
  assume ab: "whole (a @ b)" and "whole a"
  then obtain rs where rs: "\<forall>r \<in> set rs. valid_record r" "a = concat (map encode_record rs)"
    by (auto simp: whole_iff)
  have "scan_all decode_record (a @ b) = (fst (scan_all decode_record (a @ b)), [])"
    using ab by (simp add: whole_def prod_eq_iff)
  moreover obtain ss t where st: "scan_all decode_record b = (ss, t)" by force
  then have "b = concat (map encode_record ss) @ t" "\<forall>r \<in> set ss. valid_record r" "decode_record t = None"
    by (auto simp: records.scan_complete)
  then have "scan_all decode_record (a @ b) = (rs @ ss, t)"
    using rs by (auto simp: records.scan_complete)
  ultimately show "whole b" using st by (auto simp: whole_def)
qed

lemma segment_records_suffix:
  assumes "off \<le> off'" "off' \<le> length f" "whole (take off f)" "whole (take off' f)" "whole (drop off' f)"
  shows "\<exists>x. segment_records f off = x @ segment_records f off'"
proof -
  obtain m where m: "take off' f = take off f @ m" "drop off f = m @ drop off' f"
  proof
    show "take off' f = take off f @ take (off' - off) (drop off f)"
      using assms(1) by (metis le_add_diff_inverse take_add)
    then show "drop off f = take (off' - off) (drop off f) @ drop off' f"
      using assms(1) by (metis add.commute append_take_drop_id drop_drop le_add_diff_inverse)
  qed
  then have "whole m" using assms(3,4) whole_cancel by metis
  then obtain rs where rs: "\<forall>r \<in> set rs. valid_record r" "m = concat (map encode_record rs)" by (auto simp: whole_iff)
  have "scan_all decode_record (drop off' f) = (segment_records f off', [])"
    using assms(5) by (rule segment_records_whole)
  then have "scan_all decode_record (m @ drop off' f) = (rs @ segment_records f off', [])"
    using rs by (auto simp: records.scan_complete)
  then show ?thesis by (simp add: segment_records_def m(2))
qed

lemma contents_suffix:
  assumes "files_ok fs h" "cursor_le a b" "cursor_ok fs h a" "cursor_ok fs h b"
  shows "\<exists>x. contents_from fs a = x @ contents_from fs b"
  using assms(2,3)
proof (induction "cu_seg b - cu_seg a" arbitrary: a)
  case 0
  then have seg: "cu_seg a = cu_seg b" "cu_offset a \<le> cu_offset b" by (auto simp: cursor_le_def)
  show ?case
  proof (cases "map_of fs (cu_seg b)")
    case (Some f)
    with 0 assms(4) seg have "\<exists>x. segment_records f (cu_offset a) = x @ segment_records f (cu_offset b)"
      by (intro segment_records_suffix) (auto simp: cursor_ok_def)
    then show ?thesis
      using contents_split [OF files_okD(1) [OF assms(1)], of a] contents_split [OF files_okD(1) [OF assms(1)], of b]
        Some seg by auto
  qed (use contents_split [OF files_okD(1) [OF assms(1)], of a] contents_split [OF files_okD(1) [OF assms(1)], of b] seg
      in auto)
next
  case (Suc n)
  then have lt: "cu_seg a < cu_seg b" by simp
  then have "cu_seg (seg_start (Suc (cu_seg a))) \<le> h" using assms(4) by (simp add: cursor_ok_def)
  then have "cursor_ok fs h (seg_start (Suc (cu_seg a)))" by (intro cursor_ok_start [OF assms(1)]) simp
  then obtain x where "contents_from fs (seg_start (Suc (cu_seg a))) = x @ contents_from fs b"
  proof -
    have "n = cu_seg b - cu_seg (seg_start (Suc (cu_seg a)))" "cursor_le (seg_start (Suc (cu_seg a))) b"
      using Suc.hyps(2) lt by (auto simp: cursor_le_def)
    from Suc.hyps(1) [OF this \<open>cursor_ok fs h (seg_start (Suc (cu_seg a)))\<close>] show thesis using that by blast
  qed
  then show ?case using contents_split [OF files_okD(1) [OF assms(1)], of a] by simp
qed

lemma contents_skip:
  "a \<le> b \<Longrightarrow> \<forall>k \<in> fst ` set fs. k < b \<longrightarrow> k < a \<Longrightarrow> contents_from fs (seg_start a) = contents_from fs (seg_start b)"
proof -
  assume "a \<le> b" "\<forall>k \<in> fst ` set fs. k < b \<longrightarrow> k < a"
  then have "filter (\<lambda>s. a \<le> s) (sort (map fst fs)) = filter (\<lambda>s. b \<le> s) (sort (map fst fs))"
    by (intro filter_cong refl) (fastforce simp: not_le [symmetric])
  then show ?thesis by (simp add: contents_from_def cong: option.case_cong if_cong)
qed

lemma last_record:
  assumes "files_ok fs h" "s \<le> h" "map_of fs h = Some f" "segment_records f 0 = us @ [r]"
  shows "\<exists>ys. contents_from fs (seg_start s) = ys @ [r]"
  using assms(2)
proof (induction "h - s" arbitrary: s)
  case 0
  moreover have "contents_from fs (seg_start (Suc h)) = []"
    using files_okD(2) [OF assms(1)] by (intro contents_beyond) (simp add: less_Suc_eq_le)
  ultimately show ?case using contents_split [OF files_okD(1) [OF assms(1)], of "seg_start s"] assms(3,4) by simp
next
  case (Suc n)
  then have "\<exists>ys. contents_from fs (seg_start (Suc s)) = ys @ [r]" by simp
  then show ?case
    using contents_split [OF files_okD(1) [OF assms(1)], of "seg_start s"] by (metis append_assoc cursor.select_convs)
qed

lemma drop_oldest_spec:
  assumes inv: "spool_inv sp" and two: "\<not> length (d_files sp) \<le> 1"
    and h: "map_of (d_files sp) (sp_head_seq sp) = Some f" "segment_records f 0 = us @ [r]"
    and c: "contents sp = ys @ [r]"
  shows "spool_inv (drop_oldest sp) \<and> sp_head_seq (drop_oldest sp) = sp_head_seq sp
    \<and> map_of (d_files (drop_oldest sp)) (sp_head_seq sp) = Some f
    \<and> (\<exists>k \<le> length ys. contents (drop_oldest sp) = drop k ys @ [r])"
proof -
  let ?o = "hd (existing_segments sp)" and ?fs = "d_files sp" and ?h = "sp_head_seq sp"
  have ok: "files_ok ?fs ?h" "cursor_ok ?fs ?h (sp_cursor sp)" using inv by (auto simp: spool_inv_def)
  have sorted: "sorted (existing_segments sp)" "distinct (existing_segments sp)"
    using files_okD(1) [OF ok(1)] by (simp_all add: existing_segments_def)
  obtain ks where ks: "existing_segments sp = ?o # ks" "ks \<noteq> []"
  proof -
    have "2 \<le> length (existing_segments sp)" using two by simp
    then obtain a b xs where "existing_segments sp = a # b # xs" by (metis Suc_le_length_iff numeral_2_eq_2)
    then show thesis using that by simp
  qed
  have "?h \<in> set (?o # ks)" using ok(1) ks(1) by (metis files_ok_def set_existing_segments)
  moreover have "hd ks \<le> ?h" "?o < hd ks"
  proof -
    have "hd ks \<in> set (existing_segments sp)" using ks by (metis hd_in_set list.set_intros(2))
    then show "hd ks \<le> ?h" using files_okD(2) [OF ok(1)] by auto
    show "?o < hd ks" using sorted ks by (metis distinct.simps(2) hd_in_set le_neq_implies_less sorted_simps(2))
  qed
  ultimately have lt: "?o < ?h" by simp
  let ?gs = "remove_files (\<lambda>k. k = ?o) ?fs"
  let ?c = "if cu_seg (sp_cursor sp) \<le> ?o then seg_start (?o + 1) else sp_cursor sp"
  have d: "drop_oldest sp = sp\<lparr>d_files := ?gs, sp_dropped := sp_dropped sp + 1, sp_cursor := ?c\<rparr>"
    by (simp add: drop_oldest_def Let_def)
  have g: "files_ok ?gs ?h"
    using ok(1) lt by (auto simp: files_ok_def keys_remove_files) (force simp: remove_files_def)+
  have "cursor_ok ?gs ?h ?c"
    using cursor_ok_start [OF g, of "?o + 1"] lt cursor_ok_remove [OF ok(2)] by simp
  with g inv lt have 1: "spool_inv (drop_oldest sp)" by (simp add: spool_inv_def d map_of_remove_files)
  have cg: "contents_from ?gs ?c = contents_from ?fs ?c" by (rule contents_remove) (auto split: if_splits)
  have "\<exists>k \<le> length ys. contents_from ?fs ?c = drop k ys @ [r]"
  proof (cases "cu_seg (sp_cursor sp) \<le> ?o")
    case True
    obtain zs where zs: "contents_from ?fs (seg_start (?o + 1)) = zs @ [r]"
      using last_record [OF ok(1) _ h] lt by (metis Suc_eq_plus1 Suc_leI)
    have "cursor_le (sp_cursor sp) (seg_start (?o + 1))" using True by (simp add: cursor_le_def)
    from contents_suffix [OF ok(1) this ok(2)] have "\<exists>x. contents sp = x @ contents_from ?fs (seg_start (?o + 1))"
      using cursor_ok_start [OF ok(1), of "?o + 1"] lt by simp
    then obtain x where "ys @ [r] = x @ zs @ [r]" using zs c by auto
    then have "ys = x @ zs" by simp
    then have "contents_from ?fs ?c = drop (length x) ys @ [r]" "length x \<le> length ys" using True zs by simp_all
    then show ?thesis by blast
  next
    case False
    then show ?thesis using c by (intro exI [of _ 0]) simp
  qed
  with 1 cg d h(1) lt show ?thesis by (simp add: map_of_remove_files)
qed

lemma enforce_bound_spec:
  assumes "spool_inv sp" "map_of (d_files sp) (sp_head_seq sp) = Some f" "segment_records f 0 = us @ [r]"
    and "contents sp = ys @ [r]" and "enforce_bound sp dropped = (sp', dropped')"
  shows "spool_inv sp' \<and> (\<exists>k \<le> length ys. contents sp' = drop k ys @ [r] \<and> (\<not> dropped' \<longrightarrow> k = 0))
    \<and> (depth_bytes sp' \<le> sp_max_bytes sp \<or> length (d_files sp') \<le> 1) \<and> (dropped \<longrightarrow> dropped')"
  using assms
proof (induction sp dropped arbitrary: ys rule: enforce_bound.induct)
  case (1 sp dropped)
  show ?case
  proof (cases "depth_bytes sp \<le> sp_max_bytes sp \<or> length (existing_segments sp) \<le> 1")
    case True
    with "1.prems" show ?thesis by (auto simp: enforce_bound.simps [of sp] intro!: exI [of _ 0])
  next
    case False
    then have two: "\<not> length (d_files sp) \<le> 1" by simp
    note d = drop_oldest_spec [OF "1.prems"(1) two "1.prems"(2,3,4)]
    then obtain k where k: "k \<le> length ys" "contents (drop_oldest sp) = drop k ys @ [r]" by blast
    have e: "enforce_bound (drop_oldest sp) True = (sp', dropped')"
      using "1.prems"(5) False by (simp add: enforce_bound.simps [of sp])
    have f: "map_of (d_files (drop_oldest sp)) (sp_head_seq (drop_oldest sp)) = Some f" using d by simp
    have m: "sp_max_bytes (drop_oldest sp) = sp_max_bytes sp" by (simp add: drop_oldest_def Let_def)
    from "1.IH" [OF False _ f "1.prems"(3) k(2) e] d obtain j where
      "spool_inv sp'" "j \<le> length ys - k" "contents sp' = drop j (drop k ys) @ [r]" "dropped'"
      "depth_bytes sp' \<le> sp_max_bytes sp \<or> length (d_files sp') \<le> 1"
      unfolding m by auto
    with k(1) show ?thesis by (intro conjI exI [of _ "j + k"]) auto
  qed
qed

section \<open>Reopening after a crash\<close>

lemma whole_prefix_encs:
  assumes "\<forall>r \<in> set rs. valid_record r" "decode_record t = None" "off \<le> length data"
    and "drop off data = concat (map encode_record rs) @ t"
  shows "whole_prefix data off = length data - length t"
  using assms
proof (induction rs arbitrary: off)
  case Nil
  then have "read_record data off = None" "off = length data - length t"
    by (auto simp: read_record_decode dest: arg_cong [where f = length])
  then show ?case by (simp add: whole_prefix.simps)
next
  case (Cons r rs)
  then have d: "decode_record (drop off data) = Some (r, concat (map encode_record rs) @ t)"
    by (simp add: decode_encode)
  let ?n = "length data - length (concat (map encode_record rs) @ t)"
  have "read_record data off = Some (r, ?n)" using Cons.prems(3) d by (simp add: read_record_decode)
  moreover have "drop ?n data = concat (map encode_record rs) @ t"
  proof -
    have "data = (take off data @ encode_record r) @ concat (map encode_record rs) @ t"
      using Cons.prems(4) by (metis append_assoc append_take_drop_id concat.simps(2) list.simps(9))
    then show ?thesis by (metis append_eq_conv_conj diff_add_inverse2 length_append)
  qed
  ultimately show ?case using Cons.IH [of ?n] Cons.prems by (subst whole_prefix.simps) simp
qed

lemma take_whole_prefix: "whole f \<Longrightarrow> decode_record t = None \<Longrightarrow> take (whole_prefix (f @ t) 0) (f @ t) = f"
  using whole_prefix_encs [of _ t 0 "f @ t"] by (auto simp: whole_iff)

lemma torn_no_record: "valid_record r \<Longrightarrow> strict_prefix t (encode_record r) \<Longrightarrow> decode_record t = None"
proof (rule ccontr)
  assume r: "valid_record r" and t: "strict_prefix t (encode_record r)" and "decode_record t \<noteq> None"
  then obtain r' rest where d: "decode_record t = Some (r', rest)" by auto
  from t obtain u where u: "encode_record r = t @ u" "u \<noteq> []" by (auto simp: strict_prefix_def prefix_def)
  from decode_sound [OF d] u have "valid_record r'" "encode_record r @ [] = encode_record r' @ (rest @ u)" by auto
  from records.enc_inj [OF r this(1), THEN iffD1, OF this(2)] u(2) show False by simp
qed

text \<open>The cursor on disk never runs ahead of the drain.\<close>

definition persisted :: "spool \<Rightarrow> bool" where
  "persisted sp \<longleftrightarrow> (case read_cursor sp of None \<Rightarrow> True
     | Some pc \<Rightarrow> cursor_ok (d_files sp) (sp_head_seq sp) pc \<and> cursor_le pc (sp_cursor sp))"

text \<open>What a crash leaves: the files, and behind the last record any proper prefix of another.\<close>

definition crash :: "bytes \<Rightarrow> spool \<Rightarrow> disk" where
  "crash t sp = \<lparr>d_files = file_append (sp_head_seq sp) t (d_files sp), d_cursor = d_cursor sp\<rparr>"

lemma sorted_last: "sorted xs \<Longrightarrow> x \<in> set xs \<Longrightarrow> (x :: nat) \<le> last xs"
  by (induction xs) auto

lemma last_existing: "files_ok fs h \<Longrightarrow> map fst (d_files d) = map fst fs \<Longrightarrow> existing_segments d \<noteq> [] \<and> last (existing_segments d) = h"
proof -
  assume ok: "files_ok fs h" and k: "map fst (d_files d) = map fst fs"
  let ?s = "existing_segments d"
  have set: "set ?s = fst ` set fs" using k by (metis list.set_map set_existing_segments)
  then have h: "h \<in> set ?s" using ok by (simp add: files_ok_def)
  then have ne: "?s \<noteq> []" by (metis empty_iff list.set(1))
  have "last ?s \<le> h" using files_okD(2) [OF ok] set ne by (metis last_in_set)
  moreover have "h \<le> last ?s"
    using h by (intro sorted_last) (simp_all add: existing_segments_def)
  ultimately show "?s \<noteq> [] \<and> last ?s = h" using ne by simp
qed

lemma open_crash:
  fixes m :: nat
  assumes inv: "spool_inv sp" and pers: "persisted sp" and t: "decode_record t = None"
  defines "sp' \<equiv> spool_open m (crash t sp)"
  shows "d_files sp' = d_files sp \<and> sp_head_seq sp' = sp_head_seq sp \<and> d_cursor sp' = d_cursor sp
    \<and> sp_max_bytes sp' = m \<and> spool_inv sp' \<and> persisted sp' \<and> (\<exists>x. contents sp' = x @ contents sp)"
proof -
  let ?h = "sp_head_seq sp" and ?fs = "d_files sp" and ?d = "crash t sp"
  have ok: "files_ok ?fs ?h" using inv by (simp add: spool_inv_def)
  note l = last_existing [OF ok, of ?d]
  have keys: "map fst (d_files ?d) = map fst ?fs" by (simp add: crash_def)
  have tr: "truncate_torn_tail ?h (d_files ?d) = ?fs"
  proof -
    have "(case (if k = ?h then (k, f @ t) else (k, f)) of (k, f) \<Rightarrow>
        if k = ?h then (k, take (whole_prefix f 0) f) else (k, f)) = (k, f)" if "(k, f) \<in> set ?fs" for k f
      using that ok t by (auto simp: files_ok_def take_whole_prefix simp del: take_append)
    then show ?thesis
      by (auto simp: truncate_torn_tail_def crash_def file_append_def comp_def intro!: map_idI)
  qed
  have files: "d_files sp' = ?fs"
    using l keys tr ok by (simp add: sp'_def spool_open_def Let_def file_create_def files_ok_def)
  have head: "sp_head_seq sp' = ?h" "d_cursor sp' = d_cursor sp" "sp_max_bytes sp' = m"
    using l keys by (simp_all add: sp'_def spool_open_def Let_def crash_def)
  have len: "map_option length (map_of ?fs ?h) = Some (sp_head_len sp')"
    using l keys tr ok files_okD(4) [OF ok]
    by (auto simp: sp'_def spool_open_def Let_def file_create_def files_ok_def)
  have rc: "read_cursor sp' = read_cursor sp" "read_cursor ?d = read_cursor sp"
    using head by (simp_all add: read_cursor_def crash_def)
  have cur: "sp_cursor sp' = (case read_cursor sp of Some c \<Rightarrow> c | None \<Rightarrow> seg_start (hd (existing_segments ?d)))"
    using l keys rc by (simp add: sp'_def spool_open_def Let_def split: option.split list.split)
  have cok: "cursor_ok ?fs ?h (sp_cursor sp)" using inv by (simp add: spool_inv_def)
  have "cursor_ok ?fs ?h (sp_cursor sp') \<and> (\<exists>x. contents_from ?fs (sp_cursor sp') = x @ contents sp)"
  proof (cases "read_cursor sp")
    case None
    let ?o = "hd (existing_segments ?d)"
    have o: "?o \<in> fst ` set ?fs" "\<forall>k \<in> fst ` set ?fs. ?o \<le> k"
    proof -
      have set: "set (existing_segments ?d) = fst ` set ?fs" using keys by (metis list.set_map set_existing_segments)
      then show "?o \<in> fst ` set ?fs" using l keys by (metis hd_in_set)
      have "sorted (existing_segments ?d)" by (simp add: existing_segments_def)
      then show "\<forall>k \<in> fst ` set ?fs. ?o \<le> k" using l keys
        unfolding set [symmetric] by (cases "existing_segments ?d") auto
    qed
    have "contents_from ?fs (seg_start 0) = contents_from ?fs (seg_start ?o)"
      using o(2) by (intro contents_skip) auto
    moreover have "cursor_le (seg_start 0) (sp_cursor sp)" by (auto simp: cursor_le_def)
    ultimately have "\<exists>x. contents_from ?fs (seg_start ?o) = x @ contents sp"
      using contents_suffix [OF ok _ cursor_ok_start [OF ok, of 0] cok] by simp
    moreover have "cursor_ok ?fs ?h (seg_start ?o)" using o(1) files_okD(2) [OF ok] by (intro cursor_ok_start [OF ok]) blast
    ultimately show ?thesis using None cur by simp
  next
    case (Some pc)
    with pers cur show ?thesis using contents_suffix [OF ok _ _ cok] by (simp add: persisted_def)
  qed
  moreover have "persisted sp'"
    using pers rc(1) cur files head(1) by (auto simp: persisted_def cursor_le_def split: option.splits)
  ultimately show ?thesis using ok files head len by (simp add: spool_inv_def)
qed

section \<open>Runs of the spool\<close>

text \<open>A run interleaves appends (of records a connector can produce), reads, confirmed deliveries
  at the cursor, and crashes followed by reopening.\<close>

datatype spool_label = Appended spool_record bool | Peeked | Delivered spool_record | Reopened

inductive spool_step :: "spool \<Rightarrow> spool_label \<Rightarrow> spool \<Rightarrow> bool" where
  append: "valid_record r \<Longrightarrow> spool_append r sp = (sp', dropped) \<Longrightarrow> spool_step sp (Appended r dropped) sp'"
| peek: "fst (peek sp) = sp' \<Longrightarrow> spool_step sp Peeked sp'"
| deliver: "map_of (d_files sp) (cu_seg (sp_cursor sp)) = Some f \<Longrightarrow>
    read_record_at f (cu_offset (sp_cursor sp)) = Some (r, n) \<Longrightarrow>
    advance (sp_cursor sp) sp = Inr sp' \<Longrightarrow> spool_step sp (Delivered r) sp'"
| reopen: "valid_record r \<Longrightarrow> strict_prefix t (encode_record r) \<Longrightarrow>
    spool_step sp Reopened (spool_open m (crash t sp))"

inductive spool_run :: "spool_label list \<Rightarrow> spool \<Rightarrow> bool" where
  start: "spool_run [] (spool_open m \<lparr>d_files = [], d_cursor = None\<rparr>)"
| step: "spool_run tr sp \<Longrightarrow> spool_step sp l sp' \<Longrightarrow> spool_run (tr @ [l]) sp'"

inductive_cases spool_step_AppendedE: "spool_step sp (Appended r d) sp'"
inductive_cases spool_step_PeekedE: "spool_step sp Peeked sp'"
inductive_cases spool_step_DeliveredE: "spool_step sp (Delivered r) sp'"
inductive_cases spool_step_ReopenedE: "spool_step sp Reopened sp'"

lemma spool_start: "spool_inv (spool_open m \<lparr>d_files = [], d_cursor = None\<rparr>)
    \<and> persisted (spool_open m \<lparr>d_files = [], d_cursor = None\<rparr>)
    \<and> contents_from (d_files (spool_open m \<lparr>d_files = [], d_cursor = None\<rparr>)) (seg_start 0) = []"
  by (simp add: spool_open_def existing_segments_def Let_def read_cursor_def spool_inv_def files_ok_def
      cursor_ok_def persisted_def file_create_def contents_from_def segment_records_def scan_all_def)

lemma read_write_cursor:
  "read_cursor (write_cursor c d) = (if int (cu_seg c) \<le> U64_MAX \<and> int (cu_offset c) \<le> U64_MAX then Some c else None)"
proof -
  have sw: "split_whitespace (cursor_text c) = [show_nat (cu_seg c), show_nat (cu_offset c)]"
    unfolding cursor_text_def using show_int_digits [of "int (cu_seg c)"] show_int_digits [of "int (cu_offset c)"]
    by (intro split_whitespace_two) auto
  have p: "parse_uint 10 U64_MAX (show_nat n) = (if int n \<le> U64_MAX then Some (int n) else None)" for n
  proof (cases "int n \<le> U64_MAX")
    case False
    have "parse_uint 10 (int n) (show_nat n) = Some (int n)" by (rule parse_uint_show) simp_all
    then show ?thesis using False
      by (auto simp: parse_uint_def Let_def split: option.splits if_splits)
  qed (simp add: parse_uint_show)
  show ?thesis by (simp add: read_cursor_def write_cursor_def sw p)
qed

text \<open>Appending, before the bound is enforced.\<close>

definition written :: "spool_record \<Rightarrow> spool \<Rightarrow> spool" where
  "written r sp = (let sp = (if SEGMENT_BYTES \<le> sp_head_len sp then rotate_head sp else sp)
     in sp\<lparr>d_files := file_append (sp_head_seq sp) (encode_record r) (d_files sp),
           sp_head_len := sp_head_len sp + length (encode_record r)\<rparr>)"

lemma spool_append_written: "spool_append r sp = enforce_bound (written r sp) False"
  by (simp add: spool_append_def written_def Let_def)

lemma written_spec:
  assumes inv: "spool_inv sp" and r: "valid_record r"
  shows "spool_inv (written r sp)" "sp_cursor (written r sp) = sp_cursor sp" "d_cursor (written r sp) = d_cursor sp"
    "sp_max_bytes (written r sp) = sp_max_bytes sp"
    "\<exists>f us. map_of (d_files (written r sp)) (sp_head_seq (written r sp)) = Some f \<and> segment_records f 0 = us @ [r]"
    "cursor_ok (d_files sp) (sp_head_seq sp) c \<Longrightarrow>
       contents_from (d_files (written r sp)) c = contents_from (d_files sp) c @ [r]
       \<and> cursor_ok (d_files (written r sp)) (sp_head_seq (written r sp)) c"
proof -
  define s where "s = (if SEGMENT_BYTES \<le> sp_head_len sp then rotate_head sp else sp)"
  have w: "written r sp = s\<lparr>d_files := file_append (sp_head_seq s) (encode_record r) (d_files s),
      sp_head_len := sp_head_len s + length (encode_record r)\<rparr>"
    by (simp add: written_def s_def Let_def)
  have s: "spool_inv s" "sp_cursor s = sp_cursor sp" "d_cursor s = d_cursor sp" "sp_max_bytes s = sp_max_bytes sp"
    using inv rotate_head_spec(1) [OF inv] by (auto simp: s_def) (simp_all add: rotate_head_def)
  have sc: "contents_from (d_files s) c = contents_from (d_files sp) c \<and> cursor_ok (d_files s) (sp_head_seq s) c"
    if "cursor_ok (d_files sp) (sp_head_seq sp) c" for c
    using rotate_head_spec(2) [OF inv that] that by (simp add: s_def)
  have ok: "files_ok (d_files s) (sp_head_seq s)" "cursor_ok (d_files s) (sp_head_seq s) (sp_cursor s)"
    using s(1) by (auto simp: spool_inv_def)
  obtain f where f: "map_of (d_files s) (sp_head_seq s) = Some f" using files_okD(4) [OF ok(1)] by blast
  then have hl: "sp_head_len s = length f" using s(1) by (simp add: spool_inv_def)
  show "sp_cursor (written r sp) = sp_cursor sp" "d_cursor (written r sp) = d_cursor sp"
    "sp_max_bytes (written r sp) = sp_max_bytes sp"
    using s by (simp_all add: w)
  have fw: "map_of (d_files (written r sp)) (sp_head_seq (written r sp)) = Some (f @ encode_record r)"
    by (simp add: w map_of_file_append f)
  moreover have "segment_records (f @ encode_record r) 0 = segment_records f 0 @ [r]"
    using files_okD(3) [OF ok(1) f] by (intro segment_records_append [OF _ _ r]) auto
  ultimately show "\<exists>f us. map_of (d_files (written r sp)) (sp_head_seq (written r sp)) = Some f \<and> segment_records f 0 = us @ [r]"
    by blast
  have any: "contents_from (d_files (written r sp)) c = contents_from (d_files s) c @ [r]
      \<and> cursor_ok (d_files (written r sp)) (sp_head_seq (written r sp)) c"
    if "cursor_ok (d_files s) (sp_head_seq s) c" for c
    using write_record_spec [OF ok(1) that r] by (simp add: w)
  show "cursor_ok (d_files sp) (sp_head_seq sp) c \<Longrightarrow>
       contents_from (d_files (written r sp)) c = contents_from (d_files sp) c @ [r]
       \<and> cursor_ok (d_files (written r sp)) (sp_head_seq (written r sp)) c"
    using any sc by simp
  show "spool_inv (written r sp)"
    using files_ok_file_append [OF ok(1) r] fw hl any [OF ok(2)]
    by (simp add: spool_inv_def w)
qed

lemma enforce_bound_cursor:
  assumes "enforce_bound sp d = (sp', d')" "spool_inv sp"
  shows "d_cursor sp' = d_cursor sp \<and> sp_head_seq sp' = sp_head_seq sp \<and> cursor_le (sp_cursor sp) (sp_cursor sp')
    \<and> (\<forall>c. cursor_ok (d_files sp) (sp_head_seq sp) c \<longrightarrow> cursor_ok (d_files sp') (sp_head_seq sp) c)
    \<and> (d' = d \<and> sp' = sp \<or> d')"
  using assms(1)
proof (induction sp d rule: enforce_bound.induct)
  case (1 sp d)
  show ?case
  proof (cases "depth_bytes sp \<le> sp_max_bytes sp \<or> length (existing_segments sp) \<le> 1")
    case True
    with "1.prems" show ?thesis by (simp add: enforce_bound.simps [of sp] cursor_le_def)
  next
    case False
    then have "enforce_bound (drop_oldest sp) True = (sp', d')" using "1.prems" by (simp add: enforce_bound.simps [of sp])
    from "1.IH" [OF False this] show ?thesis
      by (auto simp: drop_oldest_def Let_def cursor_le_def cursor_ok_remove split: if_splits)
  qed
qed

lemma persisted_mono:
  assumes "persisted sp" "d_cursor sp' = d_cursor sp" "cursor_le (sp_cursor sp) (sp_cursor sp')"
    and "\<And>c. cursor_ok (d_files sp) (sp_head_seq sp) c \<Longrightarrow> cursor_ok (d_files sp') (sp_head_seq sp') c"
  shows "persisted sp'"
proof -
  have "read_cursor sp' = read_cursor sp" using assms(2) by (simp add: read_cursor_def)
  then show ?thesis using assms by (auto simp: persisted_def cursor_le_def split: option.splits)
qed

lemma spool_append_spec:
  assumes inv: "spool_inv sp" "persisted sp" and r: "valid_record r" and a: "spool_append r sp = (sp', dropped)"
  shows "spool_inv sp' \<and> persisted sp'
    \<and> (\<exists>k \<le> length (contents sp). contents sp' = drop k (contents sp) @ [r] \<and> (\<not> dropped \<longrightarrow> k = 0))
    \<and> (depth_bytes sp' \<le> sp_max_bytes sp \<or> length (d_files sp') \<le> 1)
    \<and> (\<not> dropped \<longrightarrow> contents_from (d_files sp') (seg_start 0) = contents_from (d_files sp) (seg_start 0) @ [r])"
proof -
  note w = written_spec [OF inv(1) r]
  from a have e: "enforce_bound (written r sp) False = (sp', dropped)" by (simp add: spool_append_written)
  obtain f us where f: "map_of (d_files (written r sp)) (sp_head_seq (written r sp)) = Some f" "segment_records f 0 = us @ [r]"
    using w(5) by blast
  have cok: "cursor_ok (d_files sp) (sp_head_seq sp) (sp_cursor sp)" "files_ok (d_files sp) (sp_head_seq sp)"
    using inv(1) by (auto simp: spool_inv_def)
  have "contents (written r sp) = contents sp @ [r]" using w(6) [OF cok(1)] w(2) by simp
  note b = enforce_bound_spec [OF w(1) f this e, unfolded w(4)] and c = enforce_bound_cursor [OF e w(1)]
  have "persisted (written r sp)"
    using inv(2) by (rule persisted_mono) (use w(2,3,6) in \<open>simp_all add: cursor_le_def\<close>)
  then have p: "persisted sp'"
    by (rule persisted_mono) (use c in \<open>simp_all only: simp_thms\<close>)
  have "contents_from (d_files sp') (seg_start 0) = contents_from (d_files sp) (seg_start 0) @ [r]" if "\<not> dropped"
  proof -
    have "sp' = written r sp" using that c by blast
    then show ?thesis using w(6) [OF cursor_ok_start [OF cok(2), of 0]] by simp
  qed
  with b p show ?thesis by blast
qed

lemma advance_first:
  assumes "spool_inv sp" "advance (sp_cursor sp) sp = Inr sp'"
  shows "\<exists>x. contents_from (d_files sp) (seg_start 0) = x @ contents_from (d_files sp') (seg_start 0)"
proof -
  let ?c = "cu_seg (sp_cursor sp)"
  from assms(2) have gs: "d_files sp' = remove_files (\<lambda>k. k < ?c) (d_files sp)"
    by (auto simp: advance_def try_bind_Inr_iff write_cursor_def Let_def)
  have ok: "files_ok (d_files sp) (sp_head_seq sp)" "?c \<le> sp_head_seq sp"
    using assms(1) by (auto simp: spool_inv_def cursor_ok_def)
  have "contents_from (d_files sp') (seg_start 0) = contents_from (d_files sp') (seg_start ?c)"
    unfolding gs by (rule contents_skip) (auto simp: remove_files_def)
  also have "\<dots> = contents_from (d_files sp) (seg_start ?c)" unfolding gs by (rule contents_remove) simp
  finally have eq: "contents_from (d_files sp') (seg_start 0) = contents_from (d_files sp) (seg_start ?c)" .
  have "cursor_le (seg_start 0) (seg_start ?c)" by (auto simp: cursor_le_def)
  from contents_suffix [OF ok(1) this cursor_ok_start [OF ok(1), of 0] cursor_ok_start [OF ok]]
  show ?thesis unfolding eq by simp
qed

lemma deliver_spec:
  assumes inv: "spool_inv sp" and d: "spool_step sp (Delivered r) sp'"
  shows "spool_inv sp' \<and> persisted sp' \<and> contents sp = r # contents sp'
    \<and> (\<exists>x. contents_from (d_files sp) (seg_start 0) = x @ contents_from (d_files sp') (seg_start 0))"
proof -
  from d obtain f n where 1: "map_of (d_files sp) (cu_seg (sp_cursor sp)) = Some f"
      "read_record_at f (cu_offset (sp_cursor sp)) = Some (r, n)" "advance (sp_cursor sp) sp = Inr sp'"
    by (rule spool_step_DeliveredE)
  from advance_spec [OF inv 1(1,2)] 1(3) have s: "spool_inv sp'" "contents sp = r # contents sp'"
      "d_cursor sp' = Some (cursor_text (sp_cursor sp'))"
    by auto
  have "read_cursor sp' = read_cursor (write_cursor (sp_cursor sp') sp')"
    using s(3) by (simp add: read_cursor_def write_cursor_def)
  then have "persisted sp'"
    using s(1) unfolding persisted_def read_write_cursor by (auto simp: spool_inv_def cursor_le_def)
  with s advance_first [OF inv 1(3)] show ?thesis by simp
qed

lemma peek_step_spec:
  assumes "spool_inv sp" "persisted sp" "spool_step sp Peeked sp'"
  shows "spool_inv sp' \<and> persisted sp' \<and> contents sp' = contents sp \<and> d_files sp' = d_files sp"
proof -
  from assms(3) have sp': "fst (peek sp) = sp'" by (cases rule: spool_step_PeekedE)
  from peek_spec [OF assms(1)] obtain c where "fst (peek sp) = sp\<lparr>sp_cursor := c\<rparr>"
      "spool_inv (sp\<lparr>sp_cursor := c\<rparr>)" "contents_from (d_files sp) c = contents sp" "cursor_le (sp_cursor sp) c"
    by blast
  then have c: "sp' = sp\<lparr>sp_cursor := c\<rparr>" "spool_inv sp'"
      "contents_from (d_files sp) c = contents sp" "cursor_le (sp_cursor sp) c"
    using sp' by simp_all
  have "persisted sp'" using assms(2) by (rule persisted_mono) (simp_all add: c)
  with c show ?thesis by simp
qed

fun appended :: "spool_label list \<Rightarrow> spool_record list" where
  "appended [] = []"
| "appended (Appended r d # ls) = r # appended ls"
| "appended (_ # ls) = appended ls"

fun delivered :: "spool_label list \<Rightarrow> spool_record list" where
  "delivered [] = []"
| "delivered (Delivered r # ls) = r # delivered ls"
| "delivered (_ # ls) = delivered ls"

definition no_drop :: "spool_label list \<Rightarrow> bool" where
  "no_drop ls \<longleftrightarrow> (\<forall>r. Appended r True \<notin> set ls)"

lemma appended_append [simp]: "appended (xs @ ys) = appended xs @ appended ys"
  by (induction xs rule: appended.induct) auto

lemma delivered_append [simp]: "delivered (xs @ ys) = delivered xs @ delivered ys"
  by (induction xs rule: delivered.induct) auto

lemma spool_run_inv: "spool_run tr sp \<Longrightarrow> spool_inv sp \<and> persisted sp"
proof (induction rule: spool_run.induct)
  case (step tr sp l sp')
  show ?case
  proof (cases l)
    case (Appended r d)
    then show ?thesis using step spool_append_spec [of sp r sp' d] by (auto elim: spool_step_AppendedE)
  next
    case Peeked
    then show ?thesis using step peek_step_spec by blast
  next
    case (Delivered r)
    then show ?thesis using step deliver_spec by blast
  next
    case Reopened
    with step obtain t r m where "valid_record r" "strict_prefix t (encode_record r)" "sp' = spool_open m (crash t sp)"
      by (auto elim: spool_step_ReopenedE)
    then show ?thesis using step.IH open_crash [of sp t m] torn_no_record by simp
  qed
qed (simp add: spool_start)

text \<open>Two suffixes of one list.\<close>

lemma suffix_drop_le:
  assumes "drop j xs = x @ drop k xs" "k \<le> length xs"
  shows "\<exists>i \<le> k. drop j xs = drop i xs"
proof (cases "j \<le> k")
  case False
  then have "length x = 0" using arg_cong [OF assms(1), of length] assms(2) by (simp only: length_append length_drop)
  then show ?thesis using assms(1) by auto
qed blast

lemma spool_run_log:
  "spool_run tr sp \<Longrightarrow> no_drop tr \<Longrightarrow>
     (\<exists>j. contents_from (d_files sp) (seg_start 0) = drop j (appended tr))
     \<and> (\<exists>k \<le> length (appended tr). contents sp = drop k (appended tr)
          \<and> set (take k (appended tr)) \<subseteq> set (delivered tr))"
proof (induction rule: spool_run.induct)
  case (start m)
  have "contents (spool_open m \<lparr>d_files = [], d_cursor = None\<rparr>) = []"
    by (simp add: spool_open_def existing_segments_def Let_def read_cursor_def file_create_def contents_from_def
        segment_records_def scan_all_def)
  then show ?case using spool_start [of m] by simp
next
  case (step tr sp l sp')
  have nd: "no_drop tr" using step.prems by (auto simp: no_drop_def)
  have inv: "spool_inv sp" "persisted sp" using spool_run_inv [OF step.hyps(1)] by auto
  from step.IH [OF nd] obtain j k where jk: "contents_from (d_files sp) (seg_start 0) = drop j (appended tr)"
      "k \<le> length (appended tr)" "contents sp = drop k (appended tr)" "set (take k (appended tr)) \<subseteq> set (delivered tr)"
    by blast
  show ?case
  proof (cases l)
    case (Appended r d)
    then have l: "l = Appended r False" using step.prems by (cases d) (auto simp: no_drop_def)
    with step.hyps(2) have "valid_record r" "spool_append r sp = (sp', False)" by (auto elim: spool_step_AppendedE)
    from spool_append_spec [OF inv this] jk
    have "contents sp' = drop k (appended (tr @ [l]))"
        "contents_from (d_files sp') (seg_start 0) = drop (min j (length (appended tr))) (appended (tr @ [l]))"
      by (auto simp: l min_def)
    moreover have "k \<le> length (appended (tr @ [l]))" "set (take k (appended (tr @ [l]))) \<subseteq> set (delivered (tr @ [l]))"
      using jk(2,4) by (simp_all add: l)
    ultimately show ?thesis by blast
  next
    case Peeked
    then have "spool_step sp Peeked sp'" using step.hyps(2) by simp
    from peek_step_spec [OF inv this] have "contents sp' = contents sp" "d_files sp' = d_files sp" by auto
    with jk Peeked show ?thesis by auto
  next
    case (Delivered r)
    then have "spool_step sp (Delivered r) sp'" using step.hyps(2) by simp
    from deliver_spec [OF inv(1) this] obtain x where x: "contents sp = r # contents sp'"
        "contents_from (d_files sp) (seg_start 0) = x @ contents_from (d_files sp') (seg_start 0)"
      by blast
    then have k: "k < length (appended tr)" "appended tr ! k = r" "contents sp' = drop (Suc k) (appended tr)"
      using jk(3) by (metis drop_eq_Nil list.distinct(1) not_le, metis append_take_drop_id jk(2) length_take
          min.absorb2 nth_append_length, metis drop_Suc list.sel(3) tl_drop)
    have "contents_from (d_files sp') (seg_start 0) = drop (length x + j) (appended tr)"
      using x(2) jk(1) by (metis append_eq_conv_conj drop_drop)
    moreover have "set (take (Suc k) (appended tr)) \<subseteq> set (delivered (tr @ [l]))"
      using jk(4) k Delivered by (auto simp: take_Suc_conv_app_nth)
    moreover have "appended (tr @ [l]) = appended tr" by (simp add: Delivered)
    ultimately show ?thesis using k(1,3) by (metis Suc_leI)
  next
    case Reopened
    with step.hyps(2) obtain t r m where t: "valid_record r" "strict_prefix t (encode_record r)"
        "sp' = spool_open m (crash t sp)"
      by (auto elim: spool_step_ReopenedE)
    note o = open_crash [OF inv torn_no_record [OF t(1,2)], of m, folded t(3)]
    then obtain x where x: "contents sp' = x @ contents sp" by blast
    have "\<exists>y. contents_from (d_files sp) (seg_start 0) = y @ contents sp'"
    proof -
      have f: "files_ok (d_files sp) (sp_head_seq sp)" using inv(1) by (simp add: spool_inv_def)
      have "cursor_ok (d_files sp) (sp_head_seq sp) (sp_cursor sp')" using o unfolding spool_inv_def by metis
      moreover have "cursor_le (seg_start 0) (sp_cursor sp')" by (auto simp: cursor_le_def)
      ultimately show ?thesis using contents_suffix [OF f _ cursor_ok_start [OF f, of 0]] o by simp
    qed
    then obtain y where "drop j (appended tr) = y @ contents sp'" using jk(1) by auto
    then have "contents sp' = drop (length y + j) (appended tr)" by (metis append_eq_conv_conj drop_drop)
    with x jk(3) obtain i where i: "i \<le> k" "contents sp' = drop i (appended tr)"
      using suffix_drop_le [of "length y + j" "appended tr" x k] jk(2) by auto
    have "set (take i (appended tr)) \<subseteq> set (take k (appended tr))" using i(1) by (rule set_take_subset_set_take)
    moreover have "appended (tr @ [l]) = appended tr" "delivered (tr @ [l]) = delivered tr" by (simp_all add: Reopened)
    ultimately show ?thesis using i jk o by (metis order_trans)
  qed
qed

lemma parse_seg_name: "int n \<le> U64_MAX \<Longrightarrow> parse_seg_name (seg_name n) = Some n"
proof -
  assume n: "int n \<le> U64_MAX"
  define hex where "hex = pad_left 16 CHR ''0'' (map digit_char (digits_of 16 (int n)))"
  have "strip_prefix (seg_name n) ''spool-'' = Some (hex @ ''.seg'')" "strip_suffix (hex @ ''.seg'') ''.seg'' = Some hex"
    by (simp_all add: strip_prefix_Some_iff strip_suffix_Some_iff seg_name_def hex_def)
  moreover have "parse_uint 16 U64_MAX hex = Some (int n)"
    unfolding hex_def pad_left_def using n by (intro parse_uint_digits) simp_all
  ultimately show ?thesis by (simp add: parse_seg_name_def)
qed

lemma peek_advance_spec:
  assumes "spool_inv sp" "peek sp = (sp', found)"
  shows "spool_inv sp' \<and> contents_from (d_files sp') (sp_cursor sp') = contents_from (d_files sp) (sp_cursor sp)
    \<and> (case contents_from (d_files sp) (sp_cursor sp) of
         [] \<Rightarrow> found = None
       | r # rs \<Rightarrow> \<exists>c sp''. found = Some (c, r) \<and> advance c sp' = Inr sp'' \<and> spool_inv sp''
           \<and> contents_from (d_files sp'') (sp_cursor sp'') = rs)"
proof -
  from peek_spec [OF assms(1)] assms(2) obtain c where c: "sp' = sp\<lparr>sp_cursor := c\<rparr>" "spool_inv sp'"
      "contents_from (d_files sp) c = contents sp"
      "found = (case contents sp of [] \<Rightarrow> None | r # _ \<Rightarrow> Some (c, r))"
      "contents sp \<noteq> [] \<longrightarrow> (\<exists>f. map_of (d_files sp) (cu_seg c) = Some f
          \<and> (\<exists>n. read_record_at f (cu_offset c) = Some (hd (contents sp), n)))"
    by auto
  show ?thesis
  proof (cases "contents sp")
    case (Cons r rs)
    with c(5) obtain f n where "map_of (d_files sp) (cu_seg c) = Some f" "read_record_at f (cu_offset c) = Some (r, n)"
      by auto
    with advance_spec [OF c(2), of f r n] c(1,3) Cons show ?thesis using c(2,4) by auto
  qed (use c in simp)
qed

section \<open>Properties\<close>

text \<open>A record written anywhere in a segment is read back at its offset, with the offset behind
  it; the reader that fetches only the record from the file agrees with the reader on the whole
  data, at every offset of any data.\<close>

theorem spool_record_roundtrip:
  assumes "valid_record r"
  shows "read_record (pre @ encode_record r @ post) (length pre) = Some (r, length pre + length (encode_record r))
    \<and> read_record_at data off = read_record data off"
  using assms by (simp add: read_record_decode decode_encode read_record_at_eq)

text \<open>Truncating a torn tail keeps exactly the whole records at the front: what remains is their
  encoding, and no further record can be read from what was cut.\<close>

theorem truncate_keeps_whole_records:
  "\<exists>rs tail. data = concat (map encode_record rs) @ tail \<and> list_all valid_record rs
     \<and> decode_record tail = None \<and> take (whole_prefix data 0) data = concat (map encode_record rs)"
proof -
  obtain rs tail where s: "scan_all decode_record data = (rs, tail)" by force
  then have d: "data = concat (map encode_record rs) @ tail" "\<forall>r \<in> set rs. valid_record r" "decode_record tail = None"
    by (auto simp: records.scan_complete)
  then have "whole (concat (map encode_record rs))" by (auto simp: whole_iff)
  with d show ?thesis using take_whole_prefix [of "concat (map encode_record rs)" tail] by (metis list_all_iff)
qed

text \<open>C31. \<open>append\<close> puts the record behind all others; only when it reports a dropped segment may
  records be missing at the front, never the new one, and afterwards the spool is within its
  bound or has a single segment.\<close>

theorem spool_append_fifo:
  assumes "spool_inv sp" "persisted sp" "valid_record r" "spool_append r sp = (sp', dropped)"
  shows "spool_inv sp' \<and> persisted sp'
    \<and> (\<exists>k \<le> length (contents_from (d_files sp) (sp_cursor sp)).
         contents_from (d_files sp') (sp_cursor sp') = drop k (contents_from (d_files sp) (sp_cursor sp)) @ [r]
         \<and> (\<not> dropped \<longrightarrow> k = 0))
    \<and> (depth_bytes sp' \<le> sp_max_bytes sp \<or> length (existing_segments sp') \<le> 1)"
  using spool_append_spec [OF assms] by simp

text \<open>\<open>peek\<close> returns the first record still to be drained, or nothing exactly when there is
  none, without losing any; confirming the record it returned removes exactly that one.\<close>

theorem spool_peek_advance:
  assumes "spool_inv sp" "peek sp = (sp', found)"
  shows "spool_inv sp' \<and> contents_from (d_files sp') (sp_cursor sp') = contents_from (d_files sp) (sp_cursor sp)
    \<and> (case contents_from (d_files sp) (sp_cursor sp) of
         [] \<Rightarrow> found = None
       | r # rs \<Rightarrow> \<exists>c sp''. found = Some (c, r) \<and> advance c sp' = Inr sp'' \<and> spool_inv sp''
           \<and> contents_from (d_files sp'') (sp_cursor sp'') = rs)"
  using peek_advance_spec [OF assms] .

text \<open>C4. No record is lost while nothing is dropped: in every run of appends, reads, confirmed
  deliveries, crashes with a torn tail and reopenings, each appended record has been delivered or
  is still to be drained, in the order of the appends.\<close>

theorem spool_at_least_once:
  assumes "spool_run tr sp" "no_drop tr"
  shows "\<exists>k. contents_from (d_files sp) (sp_cursor sp) = drop k (appended tr)
           \<and> set (take k (appended tr)) \<subseteq> set (delivered tr)"
  using spool_run_log [OF assms] by blast

text \<open>The cursor file is synced on every delivery and the segments only on rotation. When a power
  loss leaves the cursor behind the end of the last segment, reopening keeps it there: a record
  appended afterwards is on disk and \<open>peek\<close> reports nothing to drain.\<close>

theorem stale_cursor_hides_record:
  "let d = \<lparr>d_files = [(0, [])], d_cursor = Some ''0 40''\<rparr>;
       (sp, dropped) = spool_append \<lparr>sr_event_id = ''e1'', sr_sealed = [1, 2, 3]\<rparr> (spool_open 1000 d)
   in \<not> dropped \<and> depth_bytes sp = 13 \<and> snd (peek sp) = None"
  by code_simp

section \<open>Witnesses\<close>

definition ex_record :: spool_record where
  "ex_record = \<lparr>sr_event_id = ''e1'', sr_sealed = [1, 2, 3]\<rparr>"

definition ex_spool :: spool where
  "ex_spool = spool_open 1000 \<lparr>d_files = [], d_cursor = None\<rparr>"

lemma ex_record_valid: "valid_record ex_record"
  by code_simp

lemma ex_spool_inv: "spool_inv ex_spool \<and> persisted ex_spool"
  using spool_start [of 1000] by (simp add: ex_spool_def)

theorem spool_record_roundtrip_witness:
  "valid_record ex_record
   \<and> read_record ([9] @ encode_record ex_record @ [8]) 1 = Some (ex_record, 1 + length (encode_record ex_record))"
  using spool_record_roundtrip [OF ex_record_valid, of "[9]" "[8]"] ex_record_valid by simp

theorem spool_append_fifo_witness:
  "\<exists>sp'. spool_append ex_record ex_spool = (sp', False)
     \<and> contents_from (d_files sp') (sp_cursor sp') = contents_from (d_files ex_spool) (sp_cursor ex_spool) @ [ex_record]"
proof -
  have "\<not> snd (spool_append ex_record ex_spool)" by code_simp
  then obtain sp' where a: "spool_append ex_record ex_spool = (sp', False)"
    by (cases "spool_append ex_record ex_spool") simp
  from spool_append_fifo [OF _ _ ex_record_valid a] ex_spool_inv a show ?thesis by auto
qed

theorem spool_peek_advance_witness:
  "\<exists>sp'. peek ex_spool = (sp', None) \<and> spool_inv sp'"
proof -
  have c: "contents_from (d_files ex_spool) (sp_cursor ex_spool) = []" by code_simp
  obtain sp' found where p: "peek ex_spool = (sp', found)" by force
  from spool_peek_advance [OF _ p] ex_spool_inv c p show ?thesis by auto
qed

theorem spool_at_least_once_witness:
  "\<exists>sp k. spool_run [Appended ex_record False] sp
     \<and> contents_from (d_files sp) (sp_cursor sp) = drop k (appended [Appended ex_record False])"
proof -
  have "\<not> snd (spool_append ex_record ex_spool)" by code_simp
  then obtain sp' where a: "spool_append ex_record ex_spool = (sp', False)"
    by (cases "spool_append ex_record ex_spool") simp
  have "spool_run ([] @ [Appended ex_record False]) sp'"
    using spool_run.step [OF spool_run.start [of 1000, folded ex_spool_def] spool_step.append [OF ex_record_valid a]] .
  then have r: "spool_run [Appended ex_record False] sp'" by simp
  have "no_drop [Appended ex_record False]" by (simp add: no_drop_def)
  from spool_at_least_once [OF r this] r show ?thesis by blast
qed

end
