(* ===== verification/Stream_Framing.thy ===== *)
theory Stream_Framing
  imports Codec
begin

text \<open>
  \<open>rust/connectors/common/src/stream.rs\<close>: frames out of a byte stream. The buffered reader is
  the list of chunks its \<open>fill_buf\<close> will return and how the stream ends, in end of file or in an
  I/O error. Of the caller's buffer only its length and the bytes written so far matter. The
  lemmas show that line framing does not depend on how the stream is cut into chunks, that an
  overlong line is dropped up to its newline and no further, and that the two length-prefixed
  framings are codecs.
\<close>

datatype io_error = UnexpectedEof | InvalidData | OtherIo

datatype framing = Line | LengthDelimited | LengthU32le

record reader =
  rd_chunks :: "bytes list"
  rd_end :: "io_error option"

definition copy_bounded :: "nat \<Rightarrow> bytes \<times> bool \<Rightarrow> bytes \<Rightarrow> bytes \<times> bool" where
  "copy_bounded cap st src =
     (let room = cap - length (fst st)
      in if room < length src then (fst st @ take room src, True) else (fst st @ src, snd st))"

definition trim_cr :: "bytes \<Rightarrow> bytes" where
  "trim_cr bs = rev (dropWhile (\<lambda>b. b = 13) (rev bs))"

definition finish_line :: "bytes \<times> bool \<Rightarrow> io_error + bytes" where
  "finish_line st = (if snd st then Inl InvalidData else Inr (trim_cr (fst st)))"

text \<open>\<open>consume\<close>: a chunk used up is gone.\<close>

definition consume :: "nat \<Rightarrow> bytes list \<Rightarrow> bytes list" where
  "consume n cs = (case cs of [] \<Rightarrow> [] | c # r \<Rightarrow> if n < length c then drop n c # r else r)"

fun read_line_from :: "nat \<Rightarrow> bytes \<times> bool \<Rightarrow> bytes list \<Rightarrow> io_error option \<Rightarrow> (io_error + bytes) \<times> bytes list" where
  "read_line_from cap st [] fin =
     (case fin of Some e \<Rightarrow> (Inl e, [])
      | None \<Rightarrow> (if fst st = [] \<and> \<not> snd st then Inl UnexpectedEof else finish_line st, []))"
| "read_line_from cap st (chunk # cs) fin =
     (if chunk = [] then (if fst st = [] \<and> \<not> snd st then Inl UnexpectedEof else finish_line st, cs)
      else case position (\<lambda>b. b = 10) chunk of
        Some pos \<Rightarrow> (finish_line (copy_bounded cap st (take pos chunk)), consume (pos + 1) (chunk # cs))
      | None \<Rightarrow> read_line_from cap (copy_bounded cap st chunk) cs fin)"

definition read_line :: "nat \<Rightarrow> reader \<Rightarrow> (io_error + bytes) \<times> reader" where
  "read_line cap r =
     (let (res, cs) = read_line_from cap ([], False) (rd_chunks r) (rd_end r) in (res, r\<lparr>rd_chunks := cs\<rparr>))"

text \<open>\<open>AsyncReadExt::read_exact\<close>: all \<open>n\<close> bytes, or the way the stream ended.\<close>

definition read_exact :: "nat \<Rightarrow> reader \<Rightarrow> (io_error + bytes) \<times> reader" where
  "read_exact n r =
     (let s = concat (rd_chunks r)
      in if length s < n
         then (Inl (case rd_end r of Some e \<Rightarrow> e | None \<Rightarrow> UnexpectedEof), r\<lparr>rd_chunks := []\<rparr>)
         else (Inr (take n s), r\<lparr>rd_chunks := (if length s = n then [] else [drop n s])\<rparr>))"

definition read_payload :: "nat \<Rightarrow> nat \<Rightarrow> reader \<Rightarrow> (io_error + bytes) \<times> reader" where
  "read_payload cap n r = (if cap < n then (Inl InvalidData, r) else read_exact n r)"

definition read_frame :: "framing \<Rightarrow> nat \<Rightarrow> reader \<Rightarrow> (io_error + bytes) \<times> reader" where
  "read_frame fr cap r =
     (case fr of
        Line \<Rightarrow> read_line cap r
      | LengthDelimited \<Rightarrow>
          (case read_exact 2 r of
             (Inl e, r') \<Rightarrow> (Inl e, r')
           | (Inr len, r') \<Rightarrow> read_payload cap (unat (u16_from_be (len ! 0) (len ! 1))) r')
      | LengthU32le \<Rightarrow>
          (case read_exact 4 r of
             (Inl e, r') \<Rightarrow> (Inl e, r')
           | (Inr len, r') \<Rightarrow> read_payload cap (unat (u32_from_le (len ! 0) (len ! 1) (len ! 2) (len ! 3))) r'))"

section \<open>Lines\<close>

text \<open>The reference: a line of the whole remaining stream.\<close>

definition line_of :: "bytes \<Rightarrow> bytes" where
  "line_of s = takeWhile (\<lambda>b. b \<noteq> 10) s"

definition line_result :: "nat \<Rightarrow> bytes \<Rightarrow> io_error + bytes" where
  "line_result cap s = (if s = [] then Inl UnexpectedEof
     else if cap < length (line_of s) then Inl InvalidData else Inr (trim_cr (line_of s)))"

definition after_line :: "bytes \<Rightarrow> bytes" where
  "after_line s = drop (length (line_of s) + 1) s"

text \<open>The state of the copy after the bytes \<open>s\<close> of the line.\<close>

definition copied :: "nat \<Rightarrow> bytes \<Rightarrow> bytes \<times> bool" where
  "copied cap s = (take cap s, cap < length s)"

lemma copy_copied: "copy_bounded cap (copied cap s) t = copied cap (s @ t)"
  by (auto simp: copy_bounded_def copied_def Let_def min_def)

lemma finish_copied: "finish_line (copied cap s) = (if cap < length s then Inl InvalidData else Inr (trim_cr s))"
  by (simp add: finish_line_def copied_def)

lemma copied_empty: "fst (copied cap s) = [] \<and> \<not> snd (copied cap s) \<longleftrightarrow> s = []"
  by (auto simp: copied_def)

lemma line_of_append: "10 \<notin> set s \<Longrightarrow> line_of (s @ t) = s @ line_of t"
  by (induction s) (auto simp: line_of_def)

lemma line_of_newline: "10 \<notin> set s \<Longrightarrow> line_of (s @ 10 # t) = s"
  by (simp add: line_of_append) (simp add: line_of_def)

lemma concat_consume: "n \<le> length c \<Longrightarrow> concat (consume n (c # cs)) = drop n c @ concat cs"
  by (auto simp: consume_def)

lemma read_line_from_spec:
  assumes "10 \<notin> set s" "list_all (\<lambda>c. c \<noteq> []) cs"
    and "read_line_from cap (copied cap s) cs None = (res, cs')"
  shows "res = line_result cap (s @ concat cs) \<and> concat cs' = after_line (s @ concat cs) \<and> list_all (\<lambda>c. c \<noteq> []) cs'"
  using assms
proof (induction cs arbitrary: s)
  case Nil
  have "line_of s = s" using Nil.prems(1) line_of_append [of s "[]"] by (simp add: line_of_def)
  with Nil.prems show ?case
    using copied_empty [of cap s] by (auto simp: line_result_def after_line_def finish_copied)
next
  case (Cons c cs)
  then have c: "c \<noteq> []" "list_all (\<lambda>c. c \<noteq> []) cs" by auto
  show ?case
  proof (cases "position (\<lambda>b. b = 10) c")
    case None
    then have "10 \<notin> set (s @ c)" using Cons.prems(1) by (auto simp: position_None_iff)
    moreover have "read_line_from cap (copied cap (s @ c)) cs None = (res, cs')"
      using Cons.prems(3) c None by (simp add: copy_copied)
    ultimately show ?thesis using Cons.IH [of "s @ c"] c by simp
  next
    case (Some pos)
    then obtain u v where uv: "c = u @ 10 # v" "length u = pos" "10 \<notin> set u"
      using position_Some_split [OF Some] by auto
    have line: "line_of (s @ concat (c # cs)) = s @ u"
      using line_of_newline [of "s @ u" "v @ concat cs"] Cons.prems(1) uv by simp
    have r: "res = finish_line (copied cap (s @ u))" "cs' = consume (pos + 1) (c # cs)"
      using Cons.prems(3) c(1) Some uv by (simp_all add: copy_copied)
    have "concat cs' = v @ concat cs" unfolding r(2) using concat_consume [of "pos + 1" c cs] uv by simp
    moreover have "after_line (s @ concat (c # cs)) = v @ concat cs" unfolding after_line_def line using uv by simp
    moreover have "list_all (\<lambda>c. c \<noteq> []) cs'" using r(2) c by (auto simp: consume_def)
    ultimately show ?thesis using r(1) line uv by (simp add: line_result_def finish_copied)
  qed
qed

section \<open>Length-prefixed frames\<close>

definition u16_to_be :: "u16 \<Rightarrow> bytes" where
  "u16_to_be w = [ucast (drop_bit 8 w), ucast w]"

definition encode_u16 :: "bytes \<Rightarrow> bytes" where
  "encode_u16 p = u16_to_be (of_nat (length p)) @ p"

definition encode_u32le :: "bytes \<Rightarrow> bytes" where
  "encode_u32le p = rev (u32_to_be (of_nat (length p))) @ p"

definition frame_decoder :: "framing \<Rightarrow> nat \<Rightarrow> bytes \<Rightarrow> (bytes \<times> bytes) option" where
  "frame_decoder fr cap s = (case read_frame fr cap \<lparr>rd_chunks = [s], rd_end = None\<rparr> of
     (Inr p, r) \<Rightarrow> Some (p, concat (rd_chunks r)) | _ \<Rightarrow> None)"

lemma read_exact_concat:
  "read_exact n r = (res, r') \<Longrightarrow>
     (if length (concat (rd_chunks r)) < n then \<exists>e. res = Inl e
      else res = Inr (take n (concat (rd_chunks r))) \<and> concat (rd_chunks r') = drop n (concat (rd_chunks r)))"
  by (auto simp: read_exact_def Let_def split: if_splits)

lemma read_payload_concat:
  "read_payload cap n r = (res, r') \<Longrightarrow>
     (if cap < n \<or> length (concat (rd_chunks r)) < n then \<exists>e. res = Inl e
      else res = Inr (take n (concat (rd_chunks r))) \<and> concat (rd_chunks r') = drop n (concat (rd_chunks r)))"
  using read_exact_concat [of n r res r'] by (auto simp: read_payload_def split: if_splits)

lemma frame_decoder_u16:
  "frame_decoder LengthDelimited cap s =
     (let n = unat (u16_from_be (s ! 0) (s ! 1))
      in if length s < 2 \<or> cap < n \<or> length s < 2 + n then None else Some (take n (drop 2 s), drop n (drop 2 s)))"
proof -
  let ?r = "\<lparr>rd_chunks = [s], rd_end = None\<rparr>"
  obtain res r' where e: "read_exact 2 ?r = (res, r')" by force
  note x = read_exact_concat [OF e]
  show ?thesis
  proof (cases "length s < 2")
    case True
    with x e show ?thesis by (auto simp: frame_decoder_def read_frame_def Let_def)
  next
    case False
    define n where "n = unat (u16_from_be (s ! 0) (s ! 1))"
    from False x have r: "res = Inr (take 2 s)" "concat (rd_chunks r') = drop 2 s" by auto
    obtain q r'' where p: "read_payload cap n r' = (q, r'')" by force
    have "frame_decoder LengthDelimited cap s = (case q of Inl _ \<Rightarrow> None | Inr pl \<Rightarrow> Some (pl, concat (rd_chunks r'')))"
      using e p r False by (auto simp: frame_decoder_def read_frame_def n_def split: sum.split)
    with read_payload_concat [OF p] r(2) False show ?thesis
      unfolding n_def [symmetric] Let_def
      by (cases "cap < n \<or> length (drop 2 s) < n") auto
  qed
qed

lemma frame_decoder_u32:
  "frame_decoder LengthU32le cap s =
     (let n = unat (u32_from_le (s ! 0) (s ! 1) (s ! 2) (s ! 3))
      in if length s < 4 \<or> cap < n \<or> length s < 4 + n then None else Some (take n (drop 4 s), drop n (drop 4 s)))"
proof -
  let ?r = "\<lparr>rd_chunks = [s], rd_end = None\<rparr>"
  obtain res r' where e: "read_exact 4 ?r = (res, r')" by force
  note x = read_exact_concat [OF e]
  show ?thesis
  proof (cases "length s < 4")
    case True
    with x e show ?thesis by (auto simp: frame_decoder_def read_frame_def Let_def)
  next
    case False
    define n where "n = unat (u32_from_le (s ! 0) (s ! 1) (s ! 2) (s ! 3))"
    from False x have r: "res = Inr (take 4 s)" "concat (rd_chunks r') = drop 4 s" by auto
    obtain q r'' where p: "read_payload cap n r' = (q, r'')" by force
    have "frame_decoder LengthU32le cap s = (case q of Inl _ \<Rightarrow> None | Inr pl \<Rightarrow> Some (pl, concat (rd_chunks r'')))"
      using e p r False by (auto simp: frame_decoder_def read_frame_def n_def split: sum.split)
    with read_payload_concat [OF p] r(2) False show ?thesis
      unfolding n_def [symmetric] Let_def
      by (cases "cap < n \<or> length (drop 4 s) < n") auto
  qed
qed

definition fits :: "nat \<Rightarrow> nat \<Rightarrow> bytes \<Rightarrow> bool" where
  "fits cap bits p \<longleftrightarrow> length p \<le> cap \<and> length p < 2 ^ bits"

lemma u16_to_from_be: "u16_to_be (u16_from_be a b) = [a, b]"
proof -
  have "ucast (drop_bit 8 (u16_from_be a b)) = a" "ucast (u16_from_be a b) = b"
    by (rule bit_word_eqI; simp add: u16_from_be_def bit_or_iff bit_push_bit_iff bit_ucast_iff bit_drop_bit_eq;
        auto dest: bit_u8_high)+
  then show ?thesis by (simp add: u16_to_be_def)
qed

interpretation u16_frames: prefix_codec encode_u16 "frame_decoder LengthDelimited cap" "fits cap 16" for cap
proof (unfold_locales, goal_cases)
  case (1 p rest)
  then have "unat (of_nat (length p) :: u16) = length p"
    by (simp add: fits_def unsigned_of_nat take_bit_nat_eq_self)
  with 1 show ?case
    by (simp add: frame_decoder_u16 encode_u16_def u16_to_be_def u16_from_to_be fits_def Let_def)
next
  case (2 s p rest)
  let ?w = "u16_from_be (s ! 0) (s ! 1)"
  from 2 have d: "2 \<le> length s" "unat ?w \<le> cap" "2 + unat ?w \<le> length s" "p = take (unat ?w) (drop 2 s)" "rest = drop (unat ?w) (drop 2 s)"
    by (auto simp: frame_decoder_u16 Let_def not_less split: if_splits)
  then have lp: "length p = unat ?w" by simp
  have "unat ?w < 2 ^ 16" using unsigned_less [of ?w, where ?'a = nat] by simp
  moreover have "u16_to_be ?w = take 2 s" using d(1)
    by (cases s; cases "tl s") (auto simp: u16_to_from_be)
  moreover have "s = take 2 s @ p @ rest" unfolding d(4,5) append_take_drop_id ..
  ultimately show ?case using d(2) lp by (simp add: fits_def encode_u16_def)
qed (simp add: encode_u16_def u16_to_be_def)

lemma rev_u32_to_be: "rev (u32_to_be w) = [ucast w, ucast (drop_bit 8 w), ucast (drop_bit 16 w), ucast (drop_bit 24 w)]"
  by (simp add: u32_to_be_def)

interpretation u32le_frames: prefix_codec encode_u32le "frame_decoder LengthU32le cap" "fits cap 32" for cap
proof (unfold_locales, goal_cases)
  case (1 p rest)
  then have "unat (of_nat (length p) :: u32) = length p"
    by (simp add: fits_def unsigned_of_nat take_bit_nat_eq_self)
  with 1 show ?case
    by (simp add: frame_decoder_u32 encode_u32le_def rev_u32_to_be u32_from_le_def u32_from_to_be fits_def Let_def)
next
  case (2 s p rest)
  let ?w = "u32_from_le (s ! 0) (s ! 1) (s ! 2) (s ! 3)"
  from 2 have d: "4 \<le> length s" "unat ?w \<le> cap" "4 + unat ?w \<le> length s" "p = take (unat ?w) (drop 4 s)" "rest = drop (unat ?w) (drop 4 s)"
    by (auto simp: frame_decoder_u32 Let_def not_less split: if_splits)
  then have lp: "length p = unat ?w" by simp
  have "unat ?w < 2 ^ 32" using unsigned_less [of ?w, where ?'a = nat] by simp
  moreover have "rev (u32_to_be ?w) = take 4 s"
  proof -
    obtain a b c e xs where "s = a # b # c # e # xs"
      using d(1) by (auto simp: numeral_eq_Suc Suc_le_length_iff)
    then show ?thesis by (simp add: u32_from_le_def u32_to_from_be)
  qed
  moreover have "s = take 4 s @ p @ rest" unfolding d(4,5) append_take_drop_id ..
  ultimately show ?case using d(2) lp by (simp add: fits_def encode_u32le_def)
qed (simp add: encode_u32le_def u32_to_be_def)

section \<open>Properties\<close>

text \<open>C37. Line framing does not depend on how the stream arrives in chunks: the result and the
  remaining bytes are those of the first line of the whole stream. A line longer than the buffer
  is rejected and exactly it and its newline are consumed; at the end of an empty stream the
  error is \<open>UnexpectedEof\<close>.\<close>

theorem read_line_chunking:
  assumes "list_all (\<lambda>c. c \<noteq> []) (rd_chunks r)" "rd_end r = None" "read_line cap r = (res, r')"
  shows "res = line_result cap (concat (rd_chunks r)) \<and> concat (rd_chunks r') = after_line (concat (rd_chunks r))
    \<and> list_all (\<lambda>c. c \<noteq> []) (rd_chunks r') \<and> rd_end r' = None"
proof -
  obtain cs where f: "read_line_from cap ([], False) (rd_chunks r) None = (res, cs)" "r' = r\<lparr>rd_chunks := cs\<rparr>"
    using assms(2,3) by (auto simp: read_line_def split: prod.splits)
  have "copied cap [] = ([], False)" by (simp add: copied_def)
  with read_line_from_spec [of "[]" "rd_chunks r" cap res cs] assms f show ?thesis by simp
qed

text \<open>A stream of length-prefixed frames that fit the buffer is read back frame by frame, in
  both framings, and what follows them, if no frame can be read from it, is left.\<close>

theorem length_framing_roundtrip:
  assumes "\<forall>p \<in> set ps. fits cap 16 p" "\<forall>p \<in> set qs. fits cap 32 p"
    and "frame_decoder LengthDelimited cap s = None" "frame_decoder LengthU32le cap t = None"
  shows "scan_all (frame_decoder LengthDelimited cap) (concat (map encode_u16 ps) @ s) = (ps, s)
    \<and> scan_all (frame_decoder LengthU32le cap) (concat (map encode_u32le qs) @ t) = (qs, t)"
  using u16_frames.scan_all_encs [OF assms(1,3)] u32le_frames.scan_all_encs [OF assms(2,4)] by blast

section \<open>Witnesses\<close>

definition ex_reader :: reader where
  "ex_reader = \<lparr>rd_chunks = [[111, 110], [101, 13], [10, 116], [119, 111]], rd_end = None\<rparr>"

theorem read_line_chunking_witness:
  "\<exists>r'. read_line 64 ex_reader = (Inr [111, 110, 101], r') \<and> concat (rd_chunks r') = [116, 119, 111]"
proof -
  have c: "list_all (\<lambda>c. c \<noteq> []) (rd_chunks ex_reader)" "rd_end ex_reader = None" by (simp_all add: ex_reader_def)
  obtain res r' where r: "read_line 64 ex_reader = (res, r')" by force
  have "line_result 64 (concat (rd_chunks ex_reader)) = Inr [111, 110, 101]" by code_simp
  moreover have "after_line (concat (rd_chunks ex_reader)) = [116, 119, 111]" by code_simp
  ultimately show ?thesis using read_line_chunking [OF c r] r by simp
qed

theorem length_framing_roundtrip_witness:
  "scan_all (frame_decoder LengthDelimited 8) (concat (map encode_u16 [[1, 2, 3], []]) @ [0]) = ([[1, 2, 3], []], [0])
   \<and> scan_all (frame_decoder LengthU32le 8) (concat (map encode_u32le [[7]]) @ []) = ([[7]], [])"
proof (rule length_framing_roundtrip)
  show "frame_decoder LengthDelimited 8 [0] = None" "frame_decoder LengthU32le 8 [] = None"
    by (simp_all add: frame_decoder_u16 frame_decoder_u32)
qed (simp_all add: fits_def)

end
