(* ===== verification/Store.thy ===== *)
theory Store
  imports Seal
begin

text \<open>
  \<open>rust/connectors/sink/src/store.rs\<close>: the append-only store of the sink, with its hash chain, its
  audit and the acceptance check in front of it. The SQLite table is the list of its rows in
  \<open>seq\<close> order together with the \<open>AUTOINCREMENT\<close> counter. SHA-256 (\<open>sha2\<close>) is the argument
  \<open>sha\<close>; only that a digest has 32 bytes is relied on. No injectivity is assumed: the statement
  about tampering names the collision that tampering would need.
\<close>

definition GENESIS :: bytes where "GENESIS = replicate 32 0"

record row =
  r_seq :: int
  r_received_at :: str
  r_source_id :: str
  r_event_id :: str
  r_entity_type :: str
  r_timestamp :: str
  r_latitude :: "f64 option"
  r_longitude :: "f64 option"
  r_altitude_m :: "f64 option"
  r_sealed :: bytes
  r_prev_hash :: bytes
  r_record_hash :: bytes

record store =
  st_rows :: "row list"
  st_last_rowid :: int

datatype audit_result = Intact int bytes | Broken int str

datatype refusal = Undecodable | UnregisteredSource str | SignatureError seal_error

datatype store_error = BadHashLength nat | UniqueViolation

definition chain_link :: "(bytes \<Rightarrow> bytes) \<Rightarrow> bytes \<Rightarrow> bytes \<Rightarrow> bytes" where
  "chain_link sha prev sealed = sha (prev @ sealed)"

definition store_new :: store where
  "store_new = \<lparr>st_rows = [], st_last_rowid = 0\<rparr>"

definition store_head :: "store \<Rightarrow> store_error + bytes" where
  "store_head st =
     (if st_rows st = [] then Inr GENESIS
      else let h = r_record_hash (last (st_rows st))
           in if length h = 32 then Inr h else Inl (BadHashLength (length h)))"

definition store_count :: "store \<Rightarrow> int" where
  "store_count st = int (length (st_rows st))"

definition new_row :: "int \<Rightarrow> str \<Rightarrow> event \<Rightarrow> bytes \<Rightarrow> bytes \<Rightarrow> bytes \<Rightarrow> row" where
  "new_row seq received_at e sealed prev h =
     \<lparr>r_seq = seq, r_received_at = received_at, r_source_id = ev_source_id e, r_event_id = ev_id e,
      r_entity_type = ev_entity_type e, r_timestamp = ev_timestamp e,
      r_latitude = map_option latitude (ev_location e), r_longitude = map_option longitude (ev_location e),
      r_altitude_m = map_option altitude_m (ev_location e),
      r_sealed = sealed, r_prev_hash = prev, r_record_hash = h\<rparr>"

definition store_append :: "(bytes \<Rightarrow> bytes) \<Rightarrow> bytes \<Rightarrow> event \<Rightarrow> str \<Rightarrow> store
    \<Rightarrow> store_error + store \<times> int \<times> bytes" where
  "store_append sha sealed e received_at st =
     try_bind (store_head st) (\<lambda>prev.
       let h = chain_link sha prev sealed;
           seq = st_last_rowid st + 1
       in if h \<in> set (map r_record_hash (st_rows st)) then Inl UniqueViolation
          else Inr (\<lparr>st_rows = st_rows st @ [new_row seq received_at e sealed prev h], st_last_rowid = seq\<rparr>, seq, h))"

fun audit_from :: "ed25519 \<Rightarrow> (bytes \<Rightarrow> bytes) \<Rightarrow> (str \<Rightarrow> bytes option) \<Rightarrow> bytes \<Rightarrow> int \<Rightarrow> int \<Rightarrow> row list \<Rightarrow> audit_result" where
  "audit_from E sha keys expected_prev expected_seq records [] = Intact records expected_prev"
| "audit_from E sha keys expected_prev expected_seq records (r # rs) =
     (if r_seq r \<noteq> expected_seq
      then Broken expected_seq (''record '' @ show_int expected_seq @ '' is missing (next stored is ''
             @ show_int (r_seq r) @ '')'')
      else if r_prev_hash r \<noteq> expected_prev
      then Broken (r_seq r) ''previous-hash does not match the record before it''
      else let recomputed = chain_link sha expected_prev (r_sealed r) in
      if r_record_hash r \<noteq> recomputed
      then Broken (r_seq r) ''record hash does not match its stored bytes''
      else case keys (r_source_id r) of
        None \<Rightarrow> Broken (r_seq r) (''no verifying key configured for source '' @ r_source_id r)
      | Some key \<Rightarrow>
          (case verify E (r_sealed r) key of
             Inl _ \<Rightarrow> Broken (r_seq r) (''signature does not verify for source '' @ r_source_id r)
           | Inr _ \<Rightarrow> audit_from E sha keys recomputed (expected_seq + 1) (records + 1) rs))"

definition audit :: "ed25519 \<Rightarrow> (bytes \<Rightarrow> bytes) \<Rightarrow> (str \<Rightarrow> bytes option) \<Rightarrow> store \<Rightarrow> audit_result" where
  "audit E sha keys st = audit_from E sha keys GENESIS 1 0 (st_rows st)"

definition accept :: "ed25519 \<Rightarrow> (bytes \<Rightarrow> event option) \<Rightarrow> (str \<Rightarrow> bytes option) \<Rightarrow> bytes \<Rightarrow> refusal + event" where
  "accept E decode keys sealed =
     try_bind (ok_or Undecodable (decode (drop (min SEAL_SIGNATURE_LEN (length sealed)) sealed))) (\<lambda>e.
     try_bind (ok_or (UnregisteredSource (ev_source_id e)) (keys (ev_source_id e))) (\<lambda>key.
       case verify E sealed key of Inl err \<Rightarrow> Inl (SignatureError err) | Inr _ \<Rightarrow> Inr e))"

section \<open>The chain\<close>

fun chain_head :: "(bytes \<Rightarrow> bytes) \<Rightarrow> bytes \<Rightarrow> bytes list \<Rightarrow> bytes" where
  "chain_head sha h [] = h"
| "chain_head sha h (x # xs) = chain_head sha (chain_link sha h x) xs"

text \<open>The inputs a chain hashes.\<close>

fun chain_inputs :: "(bytes \<Rightarrow> bytes) \<Rightarrow> bytes \<Rightarrow> bytes list \<Rightarrow> bytes list" where
  "chain_inputs sha h [] = []"
| "chain_inputs sha h (x # xs) = (h @ x) # chain_inputs sha (chain_link sha h x) xs"

lemma chain_head_append: "chain_head sha h (xs @ [x]) = chain_link sha (chain_head sha h xs) x"
  by (induction xs arbitrary: h) auto

lemma chain_inputs_append: "chain_inputs sha h (xs @ [x]) = chain_inputs sha h xs @ [chain_head sha h xs @ x]"
  by (induction xs arbitrary: h) auto

lemma length_chain_head: "\<forall>m. length (sha m) = 32 \<Longrightarrow> length h = 32 \<Longrightarrow> length (chain_head sha h xs) = 32"
  by (induction xs arbitrary: h) (auto simp: chain_link_def)

definition row_ok :: "ed25519 \<Rightarrow> (str \<Rightarrow> bytes option) \<Rightarrow> row \<Rightarrow> bool" where
  "row_ok E keys r \<longleftrightarrow> (case keys (r_source_id r) of None \<Rightarrow> False
     | Some key \<Rightarrow> (case verify E (r_sealed r) key of Inl _ \<Rightarrow> False | Inr _ \<Rightarrow> True))"

fun rows_linked :: "(bytes \<Rightarrow> bytes) \<Rightarrow> bytes \<Rightarrow> int \<Rightarrow> row list \<Rightarrow> bool" where
  "rows_linked sha h n [] = True"
| "rows_linked sha h n (r # rs) \<longleftrightarrow> r_seq r = n \<and> r_prev_hash r = h \<and> r_record_hash r = chain_link sha h (r_sealed r)
     \<and> rows_linked sha (chain_link sha h (r_sealed r)) (n + 1) rs"

lemma audit_from_Intact_iff:
  "audit_from E sha keys h n k rs = Intact m h' \<longleftrightarrow>
     rows_linked sha h n rs \<and> (\<forall>r \<in> set rs. row_ok E keys r) \<and> m = k + int (length rs)
     \<and> h' = chain_head sha h (map r_sealed rs)"
  by (induction rs arbitrary: h n k) (auto simp: row_ok_def Let_def split: option.splits sum.splits)

lemma rows_linked_append:
  "rows_linked sha h n (rs @ [r]) \<longleftrightarrow> rows_linked sha h n rs \<and> r_seq r = n + int (length rs)
     \<and> r_prev_hash r = chain_head sha h (map r_sealed rs)
     \<and> r_record_hash r = chain_link sha (chain_head sha h (map r_sealed rs)) (r_sealed r)"
  by (induction rs arbitrary: h n) auto

lemma rows_linked_last:
  "rows_linked sha h n rs \<Longrightarrow> rs \<noteq> [] \<Longrightarrow> r_record_hash (last rs) = chain_head sha h (map r_sealed rs)"
  by (induction rs arbitrary: h n) auto

text \<open>Two chains of one length with one head hash the same envelopes, or two different inputs to one
  digest.\<close>

lemma chain_binds:
  assumes sha: "\<forall>m. length (sha m) = 32" and "length xs = length ys"
    and "chain_head sha GENESIS xs = chain_head sha GENESIS ys"
  shows "xs = ys \<or> (\<exists>a \<in> set (chain_inputs sha GENESIS xs). \<exists>b \<in> set (chain_inputs sha GENESIS ys). a \<noteq> b \<and> sha a = sha b)"
  using assms(2,3)
proof (induction xs ys rule: rev_induct2)
  case (4 x xs y ys)
  let ?a = "chain_head sha GENESIS xs" and ?b = "chain_head sha GENESIS ys"
  have eq: "sha (?a @ x) = sha (?b @ y)" using 4 by (simp add: chain_head_append chain_link_def)
  have len: "length ?a = 32" "length ?b = 32"
    using length_chain_head [OF sha, of GENESIS] by (simp_all add: GENESIS_def)
  show ?case
  proof (cases "?a @ x = ?b @ y")
    case True
    then have "?a = ?b" "x = y" using len by (simp_all add: append_eq_append_conv)
    with 4 show ?thesis by (auto simp: chain_inputs_append)
  next
    case False
    with eq show ?thesis by (auto simp: chain_inputs_append)
  qed
qed auto

section \<open>Properties\<close>

text \<open>C5. What the audit certifies: it reports an intact store exactly when the rows are numbered from
  one without a gap, each row holds the hash of the row before it and its own, and each envelope
  verifies under the registered key of its source; it then reports the number of rows and the
  head of the chain.\<close>

theorem audit_intact_iff:
  "audit E sha keys st = Intact n h \<longleftrightarrow>
     rows_linked sha GENESIS 1 (st_rows st) \<and> list_all (row_ok E keys) (st_rows st)
     \<and> n = store_count st \<and> h = chain_head sha GENESIS (map r_sealed (st_rows st))"
  by (simp add: list_all_iff audit_def audit_from_Intact_iff store_count_def)

text \<open>C33. Two intact stores that report the same count and head hold the same envelopes in the same
  order, unless their chains hash two different inputs to one digest.\<close>

theorem audit_binds_contents:
  assumes "\<forall>m. length (sha m) = 32"
    and "audit E sha keys st = Intact n h" "audit E sha keys' st' = Intact n h"
  shows "map r_sealed (st_rows st) = map r_sealed (st_rows st')
    \<or> (\<exists>a \<in> set (chain_inputs sha GENESIS (map r_sealed (st_rows st))).
        \<exists>b \<in> set (chain_inputs sha GENESIS (map r_sealed (st_rows st'))). a \<noteq> b \<and> sha a = sha b)"
  using assms(2,3) by (intro chain_binds [OF assms(1)]) (auto simp: audit_def audit_from_Intact_iff)

text \<open>Recording an accepted event keeps the store intact, one record longer, with the head the
  append returned; the event is bound to the key registered for the source inside the signed
  bytes.\<close>

theorem accept_append_intact:
  assumes "audit E sha keys st = Intact n h" "st_last_rowid st = n" "\<forall>m. length (sha m) = 32"
    and "accept E decode keys sealed = Inr e"
    and "store_append sha sealed e now st = Inr (st', seq, h')"
  shows "audit E sha keys st' = Intact (n + 1) h' \<and> seq = n + 1 \<and> st_last_rowid st' = n + 1
    \<and> (\<exists>key. keys (ev_source_id e) = Some key \<and> verify E sealed key = Inr (drop 64 sealed)
          \<and> decode (drop 64 sealed) = Some e)"
proof -
  from assms(1) have a: "rows_linked sha GENESIS 1 (st_rows st)" "\<forall>r \<in> set (st_rows st). row_ok E keys r"
      "n = int (length (st_rows st))" "h = chain_head sha GENESIS (map r_sealed (st_rows st))"
    by (auto simp: audit_def audit_from_Intact_iff)
  have head: "store_head st = Inr h"
  proof (cases "st_rows st = []")
    case False
    then show ?thesis
      using rows_linked_last [OF a(1)] a(4) length_chain_head [OF assms(3), of GENESIS]
      by (simp add: store_head_def GENESIS_def)
  qed (use a in \<open>simp add: store_head_def\<close>)
  from assms(4) obtain key where k: "keys (ev_source_id e) = Some key"
      "\<exists>c. verify E sealed key = Inr c" "decode (drop (min SEAL_SIGNATURE_LEN (length sealed)) sealed) = Some e"
    unfolding accept_def try_bind_Inr_iff ok_or_Inr_iff by (fastforce split: sum.split_asm)
  then have len: "64 \<le> length sealed" "verify E sealed key = Inr (drop 64 sealed)"
    by (auto simp: verify_def SEAL_SIGNATURE_LEN_def Let_def split: if_splits)
  define r where "r = new_row (n + 1) now e sealed h h'"
  have "h' = chain_link sha h sealed" "seq = n + 1" "st' = \<lparr>st_rows = st_rows st @ [r], st_last_rowid = n + 1\<rparr>"
    using assms(5) unfolding store_append_def assms(2) head r_def by (auto simp: Let_def split: if_splits)
  then have r: "st_rows st' = st_rows st @ [r]" "st_last_rowid st' = n + 1" "seq = n + 1"
      "h' = chain_link sha h sealed" "r_seq r = n + 1" "r_prev_hash r = h" "r_record_hash r = h'"
      "r_sealed r = sealed" "r_source_id r = ev_source_id e"
    by (simp_all add: r_def new_row_def)
  have "row_ok E keys r" using r k len by (simp add: row_ok_def)
  with a r have "audit E sha keys st' = Intact (n + 1) h'"
    by (simp add: audit_def audit_from_Intact_iff rows_linked_append chain_head_append)
  with r k len show ?thesis by (simp add: SEAL_SIGNATURE_LEN_def)
qed

text \<open>The audit reads the \<open>seq\<close>, \<open>source_id\<close>, \<open>sealed\<close>, \<open>prev_hash\<close> and
  \<open>record_hash\<close> columns only: an edit of the copied event columns or of the receive time is not detected.\<close>

theorem audit_ignores_copied_columns:
  "audit E sha keys (st\<lparr>st_rows := map (\<lambda>r. r\<lparr>r_received_at := f1 r, r_event_id := f2 r, r_entity_type := f3 r,
      r_timestamp := f4 r, r_latitude := f5 r, r_longitude := f6 r, r_altitude_m := f7 r\<rparr>) (st_rows st)\<rparr>)
   = audit E sha keys st"
proof -
  have "audit_from E sha keys h n k (map (\<lambda>r. r\<lparr>r_received_at := f1 r, r_event_id := f2 r, r_entity_type := f3 r,
      r_timestamp := f4 r, r_latitude := f5 r, r_longitude := f6 r, r_altitude_m := f7 r\<rparr>) rs)
    = audit_from E sha keys h n k rs" for h n k rs
    by (induction rs arbitrary: h n k) (simp_all add: Let_def split: option.split sum.split)
  then show ?thesis by (simp add: audit_def)
qed

section \<open>Witnesses\<close>

definition toy_sha :: "bytes \<Rightarrow> bytes" where
  "toy_sha m = replicate 32 (fold (\<lambda>b a. 31 * a + b) m 7)"

definition toy_keys :: "str \<Rightarrow> bytes option" where
  "toy_keys = map_of [(''acme-radar-1'', [7])]"

lemma toy_sha_32: "\<forall>m. length (toy_sha m) = 32"
  by (simp add: toy_sha_def)

lemma ex_accept: "accept toy_scheme (\<lambda>_. Some ex_event) toy_keys (seal toy_scheme [1] [7]) = Inr ex_event"
proof -
  have "ev_source_id ex_event = ''acme-radar-1''"
    by (simp add: ex_event_def built_event_def ex_builder_def eb_defs eb_new_def)
  moreover have "verify toy_scheme (seal toy_scheme [1] [7]) [7] = Inr [1]" by code_simp
  ultimately show ?thesis by (simp add: accept_def ok_or_def toy_keys_def)
qed

text \<open>A store of envelopes that the key of \<open>acme-radar-1\<close> sealed, as appends would have written it.\<close>

fun ex_rows :: "(bytes \<Rightarrow> bytes) \<Rightarrow> str \<Rightarrow> bytes \<Rightarrow> int \<Rightarrow> bytes list \<Rightarrow> row list" where
  "ex_rows sha now h n [] = []"
| "ex_rows sha now h n (x # xs) = new_row n now ex_event x h (chain_link sha h x) # ex_rows sha now (chain_link sha h x) (n + 1) xs"

definition ex_store :: "(bytes \<Rightarrow> bytes) \<Rightarrow> str \<Rightarrow> bytes list \<Rightarrow> store" where
  "ex_store sha now xs = \<lparr>st_rows = ex_rows sha now GENESIS 1 xs, st_last_rowid = int (length xs)\<rparr>"

lemma ex_rows_sealed: "map r_sealed (ex_rows sha now h n xs) = xs"
  by (induction xs arbitrary: h n) (simp_all add: new_row_def)

lemma ex_store_intact:
  assumes "list_all (\<lambda>x. \<exists>m. verify toy_scheme x [7] = Inr m) xs"
  shows "audit toy_scheme sha toy_keys (ex_store sha now xs) = Intact (int (length xs)) (chain_head sha GENESIS xs)"
proof -
  have src: "ev_source_id ex_event = ''acme-radar-1''"
    by (simp add: ex_event_def built_event_def ex_builder_def eb_defs eb_new_def)
  have "audit_from toy_scheme sha toy_keys h n k (ex_rows sha now h n xs) = Intact (k + int (length xs)) (chain_head sha h xs)" for h n k
    using assms by (induction xs arbitrary: h n k) (auto simp: new_row_def src toy_keys_def Let_def)
  from this [of GENESIS 1 0] show ?thesis by (simp add: audit_def ex_store_def)
qed

abbreviation ex_envelope :: "u8 \<Rightarrow> bytes" where
  "ex_envelope b \<equiv> seal toy_scheme [b] [7]"

text \<open>Two stores of the same two envelopes, received on different days, have one head and hold the same bytes; and under a digest that is
  constant, two stores of different envelopes have one head, and the collision is there.\<close>

theorem audit_binds_contents_witness:
  "ex_store toy_sha ''monday'' [ex_envelope 1, ex_envelope 2] \<noteq> ex_store toy_sha ''friday'' [ex_envelope 1, ex_envelope 2]
   \<and> map r_sealed (st_rows (ex_store toy_sha ''monday'' [ex_envelope 1, ex_envelope 2])) = map r_sealed (st_rows (ex_store toy_sha ''friday'' [ex_envelope 1, ex_envelope 2]))
   \<and> (\<exists>a \<in> set (chain_inputs (\<lambda>m. GENESIS) GENESIS [ex_envelope 1]). \<exists>b \<in> set (chain_inputs (\<lambda>m. GENESIS) GENESIS [ex_envelope 2]).
        a \<noteq> b \<and> (\<lambda>m. GENESIS) a = (\<lambda>m. GENESIS) b)"
proof -
  let ?A = "ex_store toy_sha ''monday'' [ex_envelope 1, ex_envelope 2]" and ?B = "ex_store toy_sha ''friday'' [ex_envelope 1, ex_envelope 2]"
  let ?sha = "\<lambda>m :: bytes. GENESIS"
  have v: "verify toy_scheme (ex_envelope 1) [7] = Inr [1]" "verify toy_scheme (ex_envelope 2) [7] = Inr [2]" "ex_envelope 1 \<noteq> ex_envelope 2"
    by code_simp+
  have i: "audit toy_scheme toy_sha toy_keys ?A = Intact 2 (chain_head toy_sha GENESIS [ex_envelope 1, ex_envelope 2])"
      "audit toy_scheme toy_sha toy_keys ?B = Intact 2 (chain_head toy_sha GENESIS [ex_envelope 1, ex_envelope 2])"
      "audit toy_scheme ?sha toy_keys (ex_store ?sha [] [ex_envelope 1]) = Intact 1 GENESIS"
      "audit toy_scheme ?sha toy_keys (ex_store ?sha [] [ex_envelope 2]) = Intact 1 GENESIS"
    using v by (simp_all add: ex_store_intact) (simp_all add: chain_link_def)
  have s: "map r_sealed (st_rows (ex_store sha now xs)) = xs" for sha now xs by (simp add: ex_store_def ex_rows_sealed)
  have "list_all (\<lambda>a. list_all (\<lambda>b. a = b \<or> toy_sha a \<noteq> toy_sha b) (chain_inputs toy_sha GENESIS [ex_envelope 1, ex_envelope 2]))
      (chain_inputs toy_sha GENESIS [ex_envelope 1, ex_envelope 2])" by code_simp
  then have "map r_sealed (st_rows ?A) = map r_sealed (st_rows ?B)"
    using audit_binds_contents [OF toy_sha_32 i(1,2)] unfolding s list_all_iff by blast
  moreover have "?A \<noteq> ?B" by (simp add: ex_store_def new_row_def)
  moreover have "\<forall>m. length (?sha m) = 32" by (simp add: GENESIS_def)
  from audit_binds_contents [OF this i(3,4)] v(3)
  have "\<exists>a \<in> set (chain_inputs ?sha GENESIS [ex_envelope 1]). \<exists>b \<in> set (chain_inputs ?sha GENESIS [ex_envelope 2]). a \<noteq> b \<and> ?sha a = ?sha b"
    unfolding s by simp
  ultimately show ?thesis by blast
qed

theorem accept_append_intact_witness:
  "\<exists>st' h'. store_append toy_sha (seal toy_scheme [1] [7]) ex_event ''now'' store_new = Inr (st', 1, h')
     \<and> audit toy_scheme toy_sha toy_keys st' = Intact 1 h'"
proof -
  obtain st' seq h' where a: "store_append toy_sha (seal toy_scheme [1] [7]) ex_event ''now'' store_new = Inr (st', seq, h')"
    by (auto simp: store_append_def store_head_def store_new_def Let_def)
  have i: "audit toy_scheme toy_sha toy_keys store_new = Intact 0 GENESIS" by (simp add: audit_def store_new_def)
  have "st_last_rowid store_new = 0" by (simp add: store_new_def)
  from accept_append_intact [OF i this toy_sha_32 ex_accept a] a show ?thesis by auto
qed

end
