(* ===== verification/Carry.thy ===== *)
theory Carry
  imports F64
begin

text \<open>
  The bounded state that the connectors keep per track. Raw frames are carried forward to the next
  event of a track, bounded in number and in bytes: the oldest are dropped first. The AIS connector
  keeps such a buffer per vessel, the MAVLink connector per vehicle and the ADS-B connector per
  aircraft. The contract is the locale \<open>carry_buffer\<close>; its client lemmas are about a whole sequence
  of pushes. The loop the sources write out is \<open>trim_pending\<close>, and a push that runs it
  (\<open>trimmed_buffer\<close>) meets the contract. The tracks themselves are kept in a map with their keys in
  insertion order, and the oldest is evicted at a cap (\<open>fifo_cache\<close>).
\<close>

text \<open>\<open>while pending.len() > max_frames || pending_bytes > max_bytes { pop_front }\<close>: the remaining
  frames, their bytes and the number dropped. The subtraction cannot wrap, because the count is the
  sum of the lengths (\<open>trim_pending_spec\<close>).\<close>

fun trim_pending :: "nat \<Rightarrow> nat \<Rightarrow> bytes list \<Rightarrow> nat \<Rightarrow> bytes list \<times> nat \<times> nat" where
  "trim_pending max_frames max_bytes [] n = ([], n, 0)"
| "trim_pending max_frames max_bytes (f # fs) n =
     (if max_frames < length (f # fs) \<or> max_bytes < n
      then let (fs', n', d) = trim_pending max_frames max_bytes fs (n - length f) in (fs', n', Suc d)
      else (f # fs, n, 0))"

abbreviation bytes_in :: "bytes list \<Rightarrow> nat" where
  "bytes_in fs \<equiv> sum_list (map length fs)"

lemma trim_pending_spec:
  assumes "n = bytes_in fs" "trim_pending mf mb fs n = (fs', n', d)"
  shows "fs' = drop d fs \<and> d \<le> length fs \<and> n' = bytes_in fs' \<and> length fs' \<le> mf \<and> n' \<le> mb
    \<and> (length fs \<le> mf \<longrightarrow> n \<le> mb \<longrightarrow> d = 0)"
  using assms
proof (induction fs arbitrary: n fs' n' d)
  case (Cons f fs)
  show ?case
  proof (cases "mf < length (f # fs) \<or> mb < n")
    case True
    obtain gs m e where t: "trim_pending mf mb fs (n - length f) = (gs, m, e)" by (metis prod_cases3)
    have "n - length f = bytes_in fs" using Cons.prems(1) by simp
    from Cons.IH [OF this t] True Cons.prems t show ?thesis by auto
  next
    case False
    with Cons.prems show ?thesis by auto
  qed
qed auto

locale carry_buffer =
  fixes push :: "bytes \<Rightarrow> 'c \<Rightarrow> 'c \<times> nat"
    and frames :: "'c \<Rightarrow> bytes list"
    and lost :: "'c \<Rightarrow> bool"
    and inv :: "'c \<Rightarrow> bool"
    and max_frames :: nat
    and max_bytes :: nat
  assumes bounded: "inv c \<Longrightarrow> length (frames c) \<le> max_frames \<and> bytes_in (frames c) \<le> max_bytes"
    and push_inv: "inv c \<Longrightarrow> inv (fst (push f c))"
    and push_frames: "inv c \<Longrightarrow> frames (fst (push f c)) = drop (snd (push f c)) (frames c @ [f])
          \<and> snd (push f c) \<le> length (frames c) + 1"
    and push_lost: "inv c \<Longrightarrow> lost (fst (push f c)) \<longleftrightarrow> lost c \<or> 0 < snd (push f c)"
    and push_fits: "inv c \<Longrightarrow> length (frames c) < max_frames \<Longrightarrow> bytes_in (frames c) + length f \<le> max_bytes
          \<Longrightarrow> snd (push f c) = 0"
begin

fun push_all :: "bytes list \<Rightarrow> 'c \<Rightarrow> 'c \<times> nat" where
  "push_all [] c = (c, 0)"
| "push_all (f # fs) c = (let (c1, d1) = push f c; (c2, d2) = push_all fs c1 in (c2, d1 + d2))"

text \<open>After any number of pushes the buffer holds the newest frames, the bounds hold, the number of
  dropped frames is exact, and the loss is flagged exactly when there was one.\<close>

lemma push_all_spec:
  assumes "inv c"
  shows "inv (fst (push_all fs c)) \<and> frames (fst (push_all fs c)) = drop (snd (push_all fs c)) (frames c @ fs)
    \<and> snd (push_all fs c) \<le> length (frames c @ fs)
    \<and> (lost (fst (push_all fs c)) \<longleftrightarrow> lost c \<or> 0 < snd (push_all fs c))"
  using assms
proof (induction fs arbitrary: c)
  case (Cons f fs)
  obtain c1 d1 where p: "push f c = (c1, d1)" by force
  obtain c2 d2 where q: "push_all fs c1 = (c2, d2)" by force
  have i: "inv c1" "frames c1 = drop d1 (frames c @ [f])" "d1 \<le> length (frames c) + 1" "lost c1 \<longleftrightarrow> lost c \<or> 0 < d1"
    using push_inv [OF Cons.prems, of f] push_frames [OF Cons.prems, of f] push_lost [OF Cons.prems, of f] p by auto
  from Cons.IH [OF i(1)] q have j: "inv c2" "frames c2 = drop d2 (frames c1 @ fs)" "d2 \<le> length (frames c1 @ fs)"
      "lost c2 \<longleftrightarrow> lost c1 \<or> 0 < d2"
    by auto
  have "drop d1 ((frames c @ [f]) @ fs) = drop d1 (frames c @ [f]) @ fs"
    using i(3) by (subst drop_append) simp
  then have e: "frames c1 @ fs = drop d1 (frames c @ f # fs)" using i(2) by (simp del: drop_append)
  have "frames c2 = drop (d1 + d2) (frames c @ f # fs)"
    unfolding j(2) e by (simp add: add.commute del: drop_append)
  moreover have "d1 + d2 \<le> length (frames c @ f # fs)"
    using j(3) i(3) unfolding e by (simp del: drop_append)
  ultimately show ?case using i(4) j(1,4) p q by (auto simp del: drop_append)
qed simp

lemma push_all_fits:
  assumes "inv c" "length (frames c @ fs) \<le> max_frames" "bytes_in (frames c @ fs) \<le> max_bytes"
  shows "snd (push_all fs c) = 0"
  using assms
proof (induction fs arbitrary: c)
  case (Cons f fs)
  obtain c1 where p: "push f c = (c1, 0)"
    using push_fits [OF Cons.prems(1), of f] Cons.prems(2,3) by (cases "push f c") auto
  have f1: "frames c1 = frames c @ [f]" "inv c1"
    using push_frames [OF Cons.prems(1), of f] push_inv [OF Cons.prems(1), of f] p by auto
  have "snd (push_all fs c1) = 0" by (rule Cons.IH) (use f1 Cons.prems in auto)
  with p show ?case by (simp split: prod.splits)
qed simp

end

text \<open>A push that appends the frame and runs the loop, with a flag that remembers a loss.\<close>

locale trimmed_buffer =
  fixes push :: "bytes \<Rightarrow> 'c \<Rightarrow> 'c \<times> nat"
    and frames :: "'c \<Rightarrow> bytes list"
    and count :: "'c \<Rightarrow> nat"
    and lost :: "'c \<Rightarrow> bool"
    and inv :: "'c \<Rightarrow> bool"
    and max_frames :: nat
    and max_bytes :: nat
  assumes inv_iff: "inv c \<longleftrightarrow> count c = bytes_in (frames c) \<and> length (frames c) \<le> max_frames \<and> count c \<le> max_bytes"
    and push_trims: "trim_pending max_frames max_bytes (frames c @ [f]) (count c + length f) = (fs, n, d)
          \<Longrightarrow> frames (fst (push f c)) = fs \<and> count (fst (push f c)) = n
            \<and> (lost (fst (push f c)) \<longleftrightarrow> lost c \<or> 0 < d) \<and> snd (push f c) = d"
begin

lemma push_spec:
  assumes "inv c"
  shows "inv (fst (push f c)) \<and> frames (fst (push f c)) = drop (snd (push f c)) (frames c @ [f])
    \<and> snd (push f c) \<le> length (frames c) + 1 \<and> (lost (fst (push f c)) \<longleftrightarrow> lost c \<or> 0 < snd (push f c))
    \<and> (length (frames c) < max_frames \<longrightarrow> bytes_in (frames c) + length f \<le> max_bytes \<longrightarrow> snd (push f c) = 0)"
proof -
  obtain fs n d where t: "trim_pending max_frames max_bytes (frames c @ [f]) (count c + length f) = (fs, n, d)"
    by (metis prod_cases3)
  have "count c + length f = bytes_in (frames c @ [f])" using assms by (simp add: inv_iff)
  from trim_pending_spec [OF this t] push_trims [OF t] show ?thesis using assms
    by (auto simp: inv_iff simp del: drop_append)
qed

end

sublocale trimmed_buffer \<subseteq> carry_buffer push frames lost inv max_frames max_bytes
proof
  fix c f
  assume i: "inv c"
  then show "length (frames c) \<le> max_frames \<and> bytes_in (frames c) \<le> max_bytes" by (simp add: inv_iff)
  from push_spec [OF i, of f] show "inv (fst (push f c))" by blast
  from push_spec [OF i, of f] show "frames (fst (push f c)) = drop (snd (push f c)) (frames c @ [f])
      \<and> snd (push f c) \<le> length (frames c) + 1" by blast
  from push_spec [OF i, of f] show "lost (fst (push f c)) \<longleftrightarrow> lost c \<or> 0 < snd (push f c)" by (elim conjE)
  show "snd (push f c) = 0" if "length (frames c) < max_frames" "bytes_in (frames c) + length f \<le> max_bytes"
    using push_spec [OF i, of f] that by blast
qed

section \<open>A bounded cache\<close>

record ('k, 'v) fifo_cache =
  c_map :: "'k \<rightharpoonup> 'v"
  c_order :: "'k list"

definition cache_new :: "('k, 'v) fifo_cache" where
  "cache_new = \<lparr>c_map = (\<lambda>_. None), c_order = []\<rparr>"

definition cache_get :: "'k \<Rightarrow> ('k, 'v) fifo_cache \<Rightarrow> 'v option" where
  "cache_get k c = c_map c k"

definition fifo_evict :: "nat \<Rightarrow> ('k, 'v) fifo_cache \<Rightarrow> ('k, 'v) fifo_cache" where
  "fifo_evict cap c = (if cap \<le> length (c_order c)
     then case c_order c of [] \<Rightarrow> c | oldest # r \<Rightarrow> c\<lparr>c_map := (c_map c)(oldest := None), c_order := r\<rparr>
     else c)"

definition fifo_entry :: "nat \<Rightarrow> 'v \<Rightarrow> 'k \<Rightarrow> ('k, 'v) fifo_cache \<Rightarrow> ('k, 'v) fifo_cache \<times> 'v" where
  "fifo_entry cap dflt k c =
     (case c_map c k of
        Some v \<Rightarrow> (c, v)
      | None \<Rightarrow> let c' = fifo_evict cap c
                in (c'\<lparr>c_map := (c_map c')(k \<mapsto> dflt), c_order := c_order c' @ [k]\<rparr>, dflt))"

text \<open>The write through the reference that \<open>fifo_entry\<close> hands out.\<close>

definition cache_put :: "'k \<Rightarrow> 'v \<Rightarrow> ('k, 'v) fifo_cache \<Rightarrow> ('k, 'v) fifo_cache" where
  "cache_put k v c = c\<lparr>c_map := (c_map c)(k \<mapsto> v)\<rparr>"

definition fifo_inv :: "nat \<Rightarrow> ('k, 'v) fifo_cache \<Rightarrow> bool" where
  "fifo_inv cap c \<longleftrightarrow> distinct (c_order c) \<and> set (c_order c) = dom (c_map c) \<and> length (c_order c) \<le> cap"

lemma fifo_inv_new [simp]: "fifo_inv cap cache_new"
  by (simp add: fifo_inv_def cache_new_def)

lemma fifo_inv_put: "fifo_inv cap c \<Longrightarrow> cache_get k c \<noteq> None \<Longrightarrow> fifo_inv cap (cache_put k v c)"
  by (auto simp: fifo_inv_def cache_put_def cache_get_def insert_absorb)

lemma fifo_evict_spec:
  assumes "fifo_inv cap c" "0 < cap"
  shows "distinct (c_order (fifo_evict cap c)) \<and> set (c_order (fifo_evict cap c)) = dom (c_map (fifo_evict cap c))
    \<and> length (c_order (fifo_evict cap c)) < cap \<and> c_map (fifo_evict cap c) \<subseteq>\<^sub>m c_map c"
proof (cases "cap \<le> length (c_order c)")
  case True
  then obtain k r where "c_order c = k # r"
    using assms(2) by (cases "c_order c") auto
  with assms True show ?thesis by (auto simp: fifo_evict_def fifo_inv_def map_le_def)
next
  case False
  with assms show ?thesis by (simp add: fifo_evict_def fifo_inv_def)
qed

lemma fifo_inv_entry: "fifo_inv cap c \<Longrightarrow> 0 < cap \<Longrightarrow> fifo_inv cap (fst (fifo_entry cap d k c))"
proof (cases "c_map c k")
  case None
  assume i: "fifo_inv cap c" "0 < cap"
  have "k \<notin> dom (c_map (fifo_evict cap c))"
    using fifo_evict_spec [OF i] None unfolding map_le_def by (metis domIff)
  with None fifo_evict_spec [OF i] show ?thesis
    by (auto simp: fifo_entry_def fifo_inv_def Let_def)
qed (simp add: fifo_entry_def)

lemma fifo_entry_get:
  "cache_get k (fst (fifo_entry cap d k c)) = Some (snd (fifo_entry cap d k c))"
  "snd (fifo_entry cap d k c) = (case cache_get k c of Some v \<Rightarrow> v | None \<Rightarrow> d)"
  by (auto simp: fifo_entry_def cache_get_def Let_def split: option.split)

lemma cache_put_get [simp]: "cache_get m (cache_put k v c) = (if m = k then Some v else cache_get m c)"
  by (simp add: cache_get_def cache_put_def)

text \<open>Another key keeps its value or is the evicted one; below the cap nothing is evicted.\<close>

lemma fifo_entry_other:
  assumes "fifo_inv cap c" "m \<noteq> k"
  shows "cache_get m (fst (fifo_entry cap d k c)) = cache_get m c
    \<or> cache_get m (fst (fifo_entry cap d k c)) = None \<and> length (c_order c) = cap
        \<and> c_order c \<noteq> [] \<and> m = hd (c_order c) \<and> cache_get k c = None"
  using assms by (auto simp: fifo_entry_def cache_get_def Let_def fifo_evict_def fifo_inv_def split: option.split list.split)

end
