(* ===== verification/Ais_Cache.thy ===== *)
theory Ais_Cache
  imports Carry
begin

text \<open>
  \<open>rust/connectors/ais-nmea/src/ais/cache.rs\<close>: the per-vessel state of the AIS connector. The cache
  is the \<open>fifo_cache\<close> of the theory \<open>Carry\<close>; \<open>cache_entry\<close> is \<open>entry(mmsi)\<close>, returning the cache with
  the vessel present. \<open>push_raw\<close> interprets the locale \<open>trimmed_buffer\<close>, so the carry buffer meets the
  contract \<open>carry_buffer\<close>.
\<close>

definition MAX_VESSELS :: nat where "MAX_VESSELS = 10000"
definition MAX_PENDING_FRAMES :: nat where "MAX_PENDING_FRAMES = 64"
definition MAX_PENDING_BYTES :: nat where "MAX_PENDING_BYTES = 16 * 1024"

record identity =
  i_name :: "str option"
  i_callsign :: "str option"
  i_ship_type :: "str option"
  i_imo :: "u32 option"

definition identity_default :: identity where
  "identity_default = \<lparr>i_name = None, i_callsign = None, i_ship_type = None, i_imo = None\<rparr>"

type_synonym 'v mmsi_cache = "(u32, 'v) fifo_cache"

definition cache_entry :: "'v \<Rightarrow> u32 \<Rightarrow> 'v mmsi_cache \<Rightarrow> 'v mmsi_cache \<times> 'v" where
  "cache_entry dflt mmsi c = fifo_entry MAX_VESSELS dflt mmsi c"

record carry =
  pending :: "bytes list"
  pending_bytes :: nat
  dropped_since_emit :: bool

definition carry_default :: carry where
  "carry_default = \<lparr>pending = [], pending_bytes = 0, dropped_since_emit = False\<rparr>"

definition push_raw :: "bytes \<Rightarrow> carry \<Rightarrow> carry \<times> nat" where
  "push_raw raw c =
     (let (fs, n, d) = trim_pending MAX_PENDING_FRAMES MAX_PENDING_BYTES (pending c @ [raw]) (pending_bytes c + length raw)
      in (\<lparr>pending = fs, pending_bytes = n, dropped_since_emit = dropped_since_emit c \<or> 0 < d\<rparr>, d))"

definition drain_with :: "bytes list \<Rightarrow> carry \<Rightarrow> carry \<times> bytes \<times> bool" where
  "drain_with tail c = (carry_default, join [10] (pending c @ tail), dropped_since_emit c)"

section \<open>The bounded cache\<close>

abbreviation cache_inv :: "'v mmsi_cache \<Rightarrow> bool" where
  "cache_inv \<equiv> fifo_inv MAX_VESSELS"

lemma MAX_VESSELS_pos: "0 < MAX_VESSELS"
  by (simp add: MAX_VESSELS_def)

section \<open>The carry buffer\<close>

definition carry_inv :: "carry \<Rightarrow> bool" where
  "carry_inv c \<longleftrightarrow> pending_bytes c = bytes_in (pending c) \<and> length (pending c) \<le> MAX_PENDING_FRAMES
     \<and> pending_bytes c \<le> MAX_PENDING_BYTES"

lemma carry_inv_default [simp]: "carry_inv carry_default"
  by (simp add: carry_inv_def carry_default_def)

interpretation ais_carry: trimmed_buffer push_raw pending pending_bytes dropped_since_emit carry_inv MAX_PENDING_FRAMES MAX_PENDING_BYTES
  by unfold_locales (auto simp: carry_inv_def push_raw_def)

lemma drain_with_inv: "carry_inv (fst (drain_with tail c))"
  by (simp add: drain_with_def)

section \<open>Properties\<close>

text \<open>The cache never holds more than its cap of vessels, whatever MMSIs the feed sends: touching
  a vessel keeps the invariant, gives it its old value or the default, and can only evict the vessel
  that was entered first, and that only at the cap.\<close>

theorem cache_entry_bounded:
  assumes "cache_inv c" "cache_entry dflt mmsi c = (c', v)"
  shows "cache_inv c' \<and> card (dom (c_map c')) \<le> MAX_VESSELS
    \<and> cache_get mmsi c' = Some v \<and> v = (case cache_get mmsi c of Some x \<Rightarrow> x | None \<Rightarrow> dflt)
    \<and> (\<forall>m. m \<noteq> mmsi \<longrightarrow> cache_get m c' = cache_get m c
         \<or> cache_get m c' = None \<and> length (c_order c) = MAX_VESSELS \<and> m = hd (c_order c) \<and> cache_get mmsi c = None)"
proof -
  have i: "cache_inv c'" using fifo_inv_entry [OF assms(1) MAX_VESSELS_pos, where d = dflt and k = mmsi] assms(2) by (simp add: cache_entry_def)
  then have "card (dom (c_map c')) = length (c_order c')"
    by (metis fifo_inv_def distinct_card)
  then show ?thesis
    using i fifo_entry_other [OF assms(1), where k = mmsi and d = dflt]
      fifo_entry_get [where cap = MAX_VESSELS and k = mmsi and d = dflt and c = c] assms(2)
    by (auto simp: fifo_inv_def cache_entry_def)
qed

text \<open>Between two events of a vessel its carry buffer is lossless up to the caps: after any
  sentences, the payload drained with the event's own sentence is the newest of them in order,
  newline-joined; the flag says whether any was dropped, and none is dropped while they fit.\<close>

theorem carry_drains_newest:
  assumes "ais_carry.push_all fs carry_default = (c, d)"
  shows "drain_with [own] c = (carry_default, join [10] (drop d fs @ [own]), 0 < d)
    \<and> length (drop d fs) \<le> MAX_PENDING_FRAMES \<and> bytes_in (drop d fs) \<le> MAX_PENDING_BYTES
    \<and> (length fs \<le> MAX_PENDING_FRAMES \<longrightarrow> bytes_in fs \<le> MAX_PENDING_BYTES \<longrightarrow> d = 0)"
proof -
  have "pending carry_default = []" "\<not> dropped_since_emit carry_default" by (simp_all add: carry_default_def)
  with ais_carry.push_all_spec [OF carry_inv_default, of fs] ais_carry.push_all_fits [OF carry_inv_default, of fs] assms
  show ?thesis using ais_carry.bounded [of c] by (auto simp: drain_with_def)
qed

section \<open>Witnesses\<close>

theorem cache_entry_bounded_witness:
  "cache_get 7 (fst (cache_entry carry_default 7 cache_new)) = Some carry_default"
proof -
  obtain c v where e: "cache_entry carry_default 7 cache_new = (c, v)" by force
  from cache_entry_bounded [OF fifo_inv_new e] e show ?thesis by (simp add: cache_get_def cache_new_def)
qed

theorem carry_drains_newest_witness:
  "drain_with [[3]] (fst (ais_carry.push_all [[1], [2]] carry_default)) = (carry_default, [1, 10, 2, 10, 3], False)"
proof -
  obtain c d where e: "ais_carry.push_all [[1], [2]] carry_default = (c, d)" by force
  from carry_drains_newest [OF e, of "[3]"] e show ?thesis
    by (simp add: MAX_PENDING_FRAMES_def MAX_PENDING_BYTES_def)
qed

end
