(* ===== verification/Ais_Bits.thy ===== *)
theory Ais_Bits
  imports Event_Builder
begin

text \<open>
  \<open>rust/connectors/ais-nmea/src/ais/bits.rs\<close>: the six-bit armoured AIS payload, read by bit
  position. \<open>bits_u\<close> is \<open>None\<close> where the source would index past the payload and panic; the
  lemmas show that the checked readers never reach that case, that an \<open>n\<close>-bit read is the number
  its bits denote, and the range of the signed reader.
\<close>

datatype ais_error = NotAscii | NotNmea | Checksum | Fields | Armor u8 | AisTruncated | AisBuild build_error

definition SIXBIT_ASCII :: str where
  "SIXBIT_ASCII = ''@ABCDEFGHIJKLMNOPQRSTUVWXYZ['' @ [char_of (92 :: nat)] @ '']^_ !'' @ [char_of (34 :: nat)]
     @ ''#$%&'' @ [char_of (39 :: nat)] @ ''()*+,-./0123456789:;<=>?''"

record bits =
  six :: bytes
  valid_bits :: nat

definition unarmor :: "u8 \<Rightarrow> u8 option" where
  "unarmor c = (let v = uint c - 48; v = (if 40 < v then v - 8 else v)
                in if 0 \<le> v \<and> v \<le> 63 then Some (word_of_int v) else None)"

fun unarmor_all :: "bytes \<Rightarrow> ais_error + bytes" where
  "unarmor_all [] = Inr []"
| "unarmor_all (c # cs) = (case unarmor c of None \<Rightarrow> Inl (Armor c)
     | Some v \<Rightarrow> try_bind (unarmor_all cs) (\<lambda>vs. Inr (v # vs)))"

definition from_payload :: "str \<Rightarrow> u8 \<Rightarrow> ais_error + bits" where
  "from_payload payload fill =
     try_bind (unarmor_all (as_bytes payload)) (\<lambda>s. Inr \<lparr>six = s, valid_bits = length s * 6 - unat fill\<rparr>)"

definition shift_in :: "u64 \<Rightarrow> u8 \<Rightarrow> u64" where
  "shift_in val b = push_bit 1 val OR ucast b"

fun bits_u_from :: "bytes \<Rightarrow> nat \<Rightarrow> nat \<Rightarrow> u64 \<Rightarrow> u64 option" where
  "bits_u_from s pos 0 val = Some val"
| "bits_u_from s pos (Suc n) val =
     (case slice_get s (pos div 6) of None \<Rightarrow> None
      | Some b \<Rightarrow> bits_u_from s (Suc pos) n (shift_in val (drop_bit (5 - pos mod 6) b AND 1)))"

definition bits_u :: "bits \<Rightarrow> nat \<Rightarrow> nat \<Rightarrow> u64 option" where
  "bits_u b start n = bits_u_from (six b) start n 0"

definition opt_u :: "bits \<Rightarrow> nat \<Rightarrow> nat \<Rightarrow> u64 option" where
  "opt_u b start n = (if start + n \<le> valid_bits b then bits_u b start n else None)"

definition opt_i :: "bits \<Rightarrow> nat \<Rightarrow> nat \<Rightarrow> int option" where
  "opt_i b start n = map_option (\<lambda>u. if u AND push_bit (n - 1) 1 \<noteq> 0 then uint u - 2 ^ n else uint u) (opt_u b start n)"

text \<open>The characters of a text field; every six-bit value is an index of \<open>SIXBIT_ASCII\<close>.\<close>

definition text_chars :: "bits \<Rightarrow> nat \<Rightarrow> nat \<Rightarrow> str option" where
  "text_chars b start k = those (map (\<lambda>i. Option.bind (bits_u b (start + i * 6) 6) (\<lambda>v. slice_get SIXBIT_ASCII (unat v))) [0..<k])"

definition opt_text :: "bits \<Rightarrow> nat \<Rightarrow> nat \<Rightarrow> str option" where
  "opt_text b start n =
     (if valid_bits b < start + n then None
      else Option.bind (text_chars b start (n div 6)) (\<lambda>s.
        let t = trim (trim_end_char CHR ''@'' s) in if t = [] then None else Some t))"

section \<open>Lemmas\<close>

definition bits_wf :: "bits \<Rightarrow> bool" where
  "bits_wf b \<longleftrightarrow> (\<forall>v \<in> set (six b). v \<le> 63) \<and> valid_bits b \<le> 6 * length (six b)"

definition payload_bit :: "bytes \<Rightarrow> nat \<Rightarrow> bool" where
  "payload_bit s i = bit (s ! (i div 6)) (5 - i mod 6)"

text \<open>The reference: the number a list of bits denotes, most significant first.\<close>

definition bits_value :: "bytes \<Rightarrow> nat \<Rightarrow> nat \<Rightarrow> int" where
  "bits_value s pos n = fold (\<lambda>i v. 2 * v + of_bool (payload_bit s i)) [pos..<pos + n] 0"

lemma unarmor_all_six: "unarmor_all cs = Inr vs \<Longrightarrow> length vs = length cs \<and> (\<forall>v \<in> set vs. v \<le> 63)"
proof (induction cs arbitrary: vs)
  case (Cons c cs)
  then obtain v vs' where v: "unarmor c = Some v" "unarmor_all cs = Inr vs'" "vs = v # vs'"
    by (auto simp: try_bind_Inr_iff split: option.splits)
  from v(1) obtain x where x: "0 \<le> x" "x \<le> 63" "v = word_of_int x"
    by (auto simp: unarmor_def Let_def split: if_splits)
  then have "uint v = x" by (simp add: uint_word_of_int)
  then have "v \<le> 63" using x by (simp add: word_le_def)
  with v Cons.IH [OF v(2)] show ?case by simp
qed simp

lemma from_payload_wf: "from_payload p fill = Inr b \<Longrightarrow> bits_wf b \<and> length (six b) = length p"
  by (auto simp: from_payload_def try_bind_Inr_iff bits_wf_def dest!: unarmor_all_six)

lemma one_bit: "drop_bit k (b :: u8) AND 1 = of_bool (bit b k)"
  by (simp add: and_one_eq mod_2_eq_odd bit_iff_odd_drop_bit)

lemma uint_shift_in:
  assumes "uint v < 2 ^ 63"
  shows "uint (shift_in v (of_bool c)) = 2 * uint v + of_bool c"
proof -
  have "push_bit 1 v OR of_bool c = push_bit 1 v + of_bool c"
    by (rule disjunctive_add [symmetric]) (cases c; auto simp: bit_push_bit_iff bit_1_iff simp del: push_bit_Suc One_nat_def)
  moreover have "uint (push_bit 1 v + of_bool c) = 2 * uint v + of_bool c"
    using assms uint_nonnegative [of v] by (cases c) (simp_all add: push_bit_eq_mult uint_word_ariths)
  moreover have "ucast (of_bool c :: u8) = (of_bool c :: u64)" by (cases c) simp_all
  ultimately show ?thesis by (simp add: shift_in_def del: push_bit_Suc One_nat_def)
qed

lemma bits_u_from_value:
  assumes "pos + n \<le> 6 * length s" "uint val < 2 ^ k" "k + n \<le> 64"
  shows "\<exists>u. bits_u_from s pos n val = Some u \<and> uint u < 2 ^ (k + n)
    \<and> uint u = fold (\<lambda>i v. 2 * v + of_bool (payload_bit s i)) [pos..<pos + n] (uint val)"
  using assms
proof (induction n arbitrary: pos val k)
  case (Suc n)
  let ?c = "payload_bit s pos"
  let ?val = "shift_in val (of_bool ?c)"
  have in_range: "pos div 6 < length s" using Suc.prems(1) by (simp add: less_mult_imp_div_less mult.commute)
  have "(2 :: int) ^ k \<le> 2 ^ 63" using Suc.prems(3) by (intro power_increasing) auto
  then have v: "uint ?val = 2 * uint val + of_bool ?c" using Suc.prems(2) by (intro uint_shift_in) simp
  then have "uint ?val < 2 ^ Suc k" using Suc.prems(2) by simp
  from Suc.IH [OF _ this, of "Suc pos"] Suc.prems obtain u where
    u: "bits_u_from s (Suc pos) n ?val = Some u" "uint u < 2 ^ (Suc k + n)"
    "uint u = fold (\<lambda>i v. 2 * v + of_bool (payload_bit s i)) [Suc pos..<Suc pos + n] (uint ?val)"
    by auto
  have "bits_u_from s pos (Suc n) val = Some u"
    using in_range u(1) by (simp add: one_bit payload_bit_def)
  moreover have "[pos..<pos + Suc n] = pos # [Suc pos..<Suc pos + n]" by (subst upt_conv_Cons) simp_all
  ultimately show ?case using u(2,3) by (simp only: v fold_simps add_Suc_right add_Suc) simp
qed simp

lemma bits_u_value:
  assumes "start + n \<le> 6 * length (six b)" "n \<le> 64"
  shows "\<exists>u. bits_u b start n = Some u \<and> uint u = bits_value (six b) start n \<and> uint u < 2 ^ n"
  using bits_u_from_value [of start n "six b" 0 0] assms by (auto simp: bits_u_def bits_value_def)

lemma opt_u_value:
  assumes "bits_wf b" "n \<le> 64"
  shows "opt_u b start n = None \<longleftrightarrow> valid_bits b < start + n"
    and "opt_u b start n = Some u \<Longrightarrow> uint u = bits_value (six b) start n \<and> uint u < 2 ^ n"
proof -
  have "\<exists>u. bits_u b start n = Some u \<and> uint u = bits_value (six b) start n \<and> uint u < 2 ^ n"
    if "start + n \<le> valid_bits b"
    using that assms by (intro bits_u_value) (auto simp: bits_wf_def)
  then show "opt_u b start n = None \<longleftrightarrow> valid_bits b < start + n"
    and "opt_u b start n = Some u \<Longrightarrow> uint u = bits_value (six b) start n \<and> uint u < 2 ^ n"
    by (auto simp: opt_u_def split: if_splits)
qed

lemma sign_bit:
  assumes "1 \<le> n" "n \<le> 64" "uint (u :: u64) < 2 ^ n"
  shows "u AND push_bit (n - 1) 1 \<noteq> 0 \<longleftrightarrow> 2 ^ (n - 1) \<le> uint u"
proof -
  have "u AND push_bit (n - 1) 1 \<noteq> 0 \<longleftrightarrow> bit u (n - 1)"
    by (simp only: bit_iff_and_push_bit_not_eq_0)
  also have "\<dots> \<longleftrightarrow> odd (uint u div 2 ^ (n - 1))"
  proof -
    have "n - 1 < 64" using assms(1,2) by linarith
    then show ?thesis by (simp add: bit_uint_iff flip: bit_iff_odd)
  qed
  also have "\<dots> \<longleftrightarrow> 2 ^ (n - 1) \<le> uint u"
  proof (cases "2 ^ (n - 1) \<le> uint u")
    case True
    have "(2 :: int) ^ n = 2 * 2 ^ (n - 1)" using assms(1) by (cases n) simp_all
    with True assms(3) have "uint u div 2 ^ (n - 1) = 1" by (intro int_div_pos_eq [of _ _ _ "uint u - 2 ^ (n - 1)"]) simp_all
    with True show ?thesis by simp
  qed simp
  finally show ?thesis .
qed

text \<open>The signed reader is the two's complement value of its bits.\<close>

lemma opt_i_value:
  assumes "bits_wf b" "1 \<le> n" "n \<le> 64" "opt_i b start n = Some i"
  shows "- (2 ^ (n - 1)) \<le> i \<and> i < 2 ^ (n - 1) \<and> i mod 2 ^ n = bits_value (six b) start n"
proof -
  from assms(4) obtain u where u: "opt_u b start n = Some u"
      "i = (if u AND push_bit (n - 1) 1 \<noteq> 0 then uint u - 2 ^ n else uint u)"
    by (auto simp: opt_i_def)
  note v = opt_u_value(2) [OF assms(1,3) u(1)]
  have i: "i = (if 2 ^ (n - 1) \<le> uint u then uint u - 2 ^ n else uint u)"
    using u(2) sign_bit [OF assms(2,3)] v by simp
  have p: "(2 :: int) ^ n = 2 * 2 ^ (n - 1)" using assms(2) by (cases n) simp_all
  have "(uint u - 2 ^ n) mod 2 ^ n = uint u" "uint u mod 2 ^ n = uint u"
    using v uint_nonnegative [of u] by (simp_all add: mod_pos_pos_trivial)
  then show ?thesis using v i p uint_nonnegative [of u] by (auto split: if_splits)
qed

lemma length_SIXBIT_ASCII: "length SIXBIT_ASCII = 64"
  by code_simp

lemma those_Some: "(\<forall>x \<in> set xs. x \<noteq> None) \<Longrightarrow> \<exists>ys. those xs = Some ys \<and> length ys = length xs"
  by (induction xs) (auto split: option.splits)

text \<open>Inside the payload a text field is always read: \<open>None\<close> from \<open>opt_text\<close> means that it runs past
  the payload or is blank, never an index out of range.\<close>

lemma text_chars_total:
  assumes "start + 6 * k \<le> 6 * length (six b)"
  shows "\<exists>s. text_chars b start k = Some s \<and> length s = k"
proof -
  have "Option.bind (bits_u b (start + i * 6) 6) (\<lambda>v. slice_get SIXBIT_ASCII (unat v)) \<noteq> None" if "i < k" for i
  proof -
    have "start + i * 6 + 6 \<le> 6 * length (six b)" using assms that by linarith
    from bits_u_value [OF this] obtain u where u: "bits_u b (start + i * 6) 6 = Some u" "uint u < 2 ^ 6" by auto
    have "unat u < 64" using u(2) uint_nonnegative [of u] by (simp add: unat_eq_nat_uint nat_less_iff del: nat_uint_eq)
    with u(1) show ?thesis by (simp add: length_SIXBIT_ASCII)
  qed
  then have "\<forall>x \<in> set (map (\<lambda>i. Option.bind (bits_u b (start + i * 6) 6) (\<lambda>v. slice_get SIXBIT_ASCII (unat v))) [0..<k]). x \<noteq> None"
    by (simp only: set_map set_upt ball_simps atLeastLessThan_iff) simp
  from those_Some [OF this] show ?thesis by (simp add: text_chars_def)
qed

lemma opt_text_not_Nil: "opt_text b start n = Some s \<Longrightarrow> s \<noteq> []"
  by (auto simp: opt_text_def Let_def bind_eq_Some_conv split: if_splits)

section \<open>Properties\<close>

text \<open>The checked bit readers never read past the payload: they return a value exactly when the
  field lies inside the valid bits, the unsigned value its bits denote, and for the signed reader
  the two's complement value, within its range.\<close>

theorem ais_bit_fields:
  assumes "from_payload payload fill = Inr b" "1 \<le> n" "n \<le> 64"
  shows "(start + n \<le> valid_bits b \<longrightarrow>
            (\<exists>u i. opt_u b start n = Some u \<and> uint u = bits_value (six b) start n \<and> uint u < 2 ^ n
               \<and> opt_i b start n = Some i \<and> - (2 ^ (n - 1)) \<le> i \<and> i < 2 ^ (n - 1)
               \<and> i mod 2 ^ n = bits_value (six b) start n))
    \<and> (valid_bits b < start + n \<longrightarrow> opt_u b start n = None \<and> opt_i b start n = None)
    \<and> valid_bits b \<le> 6 * length payload"
proof -
  have wf: "bits_wf b" "length (six b) = length payload" using from_payload_wf [OF assms(1)] by auto
  note iff = opt_u_value(1) [OF wf(1) assms(3), of start]
  have "\<exists>u i. opt_u b start n = Some u \<and> uint u = bits_value (six b) start n \<and> uint u < 2 ^ n
       \<and> opt_i b start n = Some i \<and> - (2 ^ (n - 1)) \<le> i \<and> i < 2 ^ (n - 1)
       \<and> i mod 2 ^ n = bits_value (six b) start n" if inside: "start + n \<le> valid_bits b"
  proof -
    obtain u where u: "opt_u b start n = Some u" using iff inside by (cases "opt_u b start n") auto
    then obtain i where i: "opt_i b start n = Some i" by (simp add: opt_i_def)
    show ?thesis
      using opt_u_value(2) [OF wf(1) assms(3) u] opt_i_value [OF wf(1) assms(2,3) i] u i by blast
  qed
  moreover have "opt_u b start n = None \<and> opt_i b start n = None" if "valid_bits b < start + n"
    using iff that by (simp add: opt_i_def)
  ultimately show ?thesis using wf by (simp add: bits_wf_def)
qed

section \<open>Witnesses\<close>

theorem ais_bit_fields_witness:
  "\<exists>b i. from_payload ''w>'' 2 = Inr b \<and> valid_bits b = 10 \<and> opt_i b 0 8 = Some i \<and> - 128 \<le> i \<and> i < 128"
proof -
  have b: "from_payload ''w>'' 2 = Inr \<lparr>six = [63, 14], valid_bits = 10\<rparr>" by code_simp
  from ais_bit_fields [OF b, of 8 0] b show ?thesis by auto
qed

end
