(* ===== verification/Connector.thy ===== *)
theory Connector
  imports Event_Builder Ontology
begin

text \<open>
  What the parsers of the connectors share: the operator's enrichment (\<open>config.rs\<close>), the effects
  a parser reads from its environment, and how it fills an event builder with the values that a
  frame carries. The lemmas bound the keys a builder can end up with by a fixed list, which gives
  that its keys are distinct, few and governed whatever the frame carried.
\<close>

record enrichment =
  hostility :: "str option"

text \<open>The clock and the identifier source at one call: a monotonic instant in nanoseconds, the
  RFC 3339 rendering of the wall clock, and a fresh UUID.\<close>

record effects =
  instant :: nat
  wall_clock :: str
  uuid :: str

text \<open>A formatter of the \<open>time\<close> crate renders what the builder accepts as RFC 3339.\<close>

definition formats_rfc3339 :: "(int \<Rightarrow> str option) \<Rightarrow> bool" where
  "formats_rfc3339 fmt \<longleftrightarrow> (\<forall>n ts. fmt n = Some ts \<longrightarrow> is_rfc3339 ts)"

text \<open>\<open>if let Some(v) = ... { b = b.attribute(key, v); }\<close> and the same for metadata.\<close>

definition opt_attribute :: "str \<Rightarrow> str option \<Rightarrow> event_builder \<Rightarrow> event_builder" where
  "opt_attribute k v b = (case v of None \<Rightarrow> b | Some x \<Rightarrow> eb_attribute k x b)"

definition opt_metadata :: "str \<Rightarrow> str option \<Rightarrow> event_builder \<Rightarrow> event_builder" where
  "opt_metadata k v b = (case v of None \<Rightarrow> b | Some x \<Rightarrow> eb_metadata k x b)"

text \<open>The fields that the keyed setters leave alone.\<close>

lemma eb_attribute_sel [simp]:
  "b_id (eb_attribute k v b) = b_id b"
  "b_timestamp (eb_attribute k v b) = b_timestamp b"
  "b_location (eb_attribute k v b) = b_location b"
  "b_source_id (eb_attribute k v b) = b_source_id b"
  "b_entity_type (eb_attribute k v b) = b_entity_type b"
  "b_policy_tags (eb_attribute k v b) = b_policy_tags b"
  "b_confidence (eb_attribute k v b) = b_confidence b"
  "b_payload (eb_attribute k v b) = b_payload b"
  by (simp_all add: eb_attribute_def)

lemma eb_metadata_sel [simp]:
  "b_id (eb_metadata k v b) = b_id b"
  "b_timestamp (eb_metadata k v b) = b_timestamp b"
  "b_location (eb_metadata k v b) = b_location b"
  "b_source_id (eb_metadata k v b) = b_source_id b"
  "b_entity_type (eb_metadata k v b) = b_entity_type b"
  "b_policy_tags (eb_metadata k v b) = b_policy_tags b"
  "b_confidence (eb_metadata k v b) = b_confidence b"
  "b_payload (eb_metadata k v b) = b_payload b"
  by (simp_all add: eb_metadata_def)

lemma opt_attribute_sel [simp]:
  "b_id (opt_attribute k v b) = b_id b"
  "b_timestamp (opt_attribute k v b) = b_timestamp b"
  "b_location (opt_attribute k v b) = b_location b"
  "b_source_id (opt_attribute k v b) = b_source_id b"
  "b_entity_type (opt_attribute k v b) = b_entity_type b"
  "b_policy_tags (opt_attribute k v b) = b_policy_tags b"
  "b_confidence (opt_attribute k v b) = b_confidence b"
  "b_payload (opt_attribute k v b) = b_payload b"
  by (simp_all add: opt_attribute_def split: option.split)

lemma opt_metadata_sel [simp]:
  "b_id (opt_metadata k v b) = b_id b"
  "b_timestamp (opt_metadata k v b) = b_timestamp b"
  "b_location (opt_metadata k v b) = b_location b"
  "b_source_id (opt_metadata k v b) = b_source_id b"
  "b_entity_type (opt_metadata k v b) = b_entity_type b"
  "b_policy_tags (opt_metadata k v b) = b_policy_tags b"
  "b_confidence (opt_metadata k v b) = b_confidence b"
  "b_payload (opt_metadata k v b) = b_payload b"
  by (simp_all add: opt_metadata_def split: option.split)

lemma eb_identity_sel [simp]:
  "b_id (eb_identity s i b) = b_id b"
  "b_timestamp (eb_identity s i b) = b_timestamp b"
  "b_location (eb_identity s i b) = b_location b"
  "b_source_id (eb_identity s i b) = b_source_id b"
  "b_entity_type (eb_identity s i b) = b_entity_type b"
  "b_policy_tags (eb_identity s i b) = b_policy_tags b"
  "b_confidence (eb_identity s i b) = b_confidence b"
  "b_payload (eb_identity s i b) = b_payload b"
  by (simp_all add: eb_identity_def)

section \<open>The keys of a builder\<close>

text \<open>Every attribute key is one of \<open>as\<close> and every metadata key one of \<open>ms\<close>, each at most once.\<close>

definition keys_within :: "str list \<Rightarrow> str list \<Rightarrow> event_builder \<Rightarrow> bool" where
  "keys_within as ms b \<longleftrightarrow> subseq (map fst (b_attributes b)) as \<and> subseq (map fst (b_metadata b)) ms"

lemma keys_new: "keys_within [] [] (eb_new s t)"
  by (simp add: keys_within_def eb_new_def)

lemma subseq_snoc: "subseq xs ys \<Longrightarrow> subseq xs (ys @ [y])" "subseq xs ys \<Longrightarrow> subseq (xs @ [y]) (ys @ [y])"
  by (auto intro: list_emb_append_mono list_emb_append2)

lemma keys_attribute: "keys_within as ms b \<Longrightarrow> keys_within (as @ [k]) ms (eb_attribute k v b)"
  by (simp add: keys_within_def eb_attribute_def subseq_snoc)

lemma keys_opt_attribute: "keys_within as ms b \<Longrightarrow> keys_within (as @ [k]) ms (opt_attribute k v b)"
  by (cases v) (simp_all add: keys_within_def eb_attribute_def subseq_snoc opt_attribute_def)

lemma keys_metadata: "keys_within as ms b \<Longrightarrow> keys_within as (ms @ [k]) (eb_metadata k v b)"
  by (simp add: keys_within_def eb_metadata_def subseq_snoc)

lemma keys_opt_metadata: "keys_within as ms b \<Longrightarrow> keys_within as (ms @ [k]) (opt_metadata k v b)"
  by (cases v) (simp_all add: keys_within_def eb_metadata_def subseq_snoc opt_metadata_def)

lemma keys_more: "keys_within as ms b \<Longrightarrow> keys_within (as @ [k]) ms b" "keys_within as ms b \<Longrightarrow> keys_within as (ms @ [k]) b"
  by (simp_all add: keys_within_def subseq_snoc)

lemma keys_identity:
  "keys_within as ms b \<Longrightarrow> keys_within ((as @ [''alt_id'']) @ [''alt_id_standard'']) ms (eb_identity std i b)"
  unfolding eb_identity_def
  by (cases "i = [] \<or> MAX_ALT_ID_LEN < length i") (simp_all only: if_True if_False keys_attribute keys_more)

lemma keys_setters:
  "keys_within as ms b \<Longrightarrow> keys_within as ms (eb_new_id u b)"
  "keys_within as ms b \<Longrightarrow> keys_within as ms (eb_id u b)"
  "keys_within as ms b \<Longrightarrow> keys_within as ms (eb_now c b)"
  "keys_within as ms b \<Longrightarrow> keys_within as ms (eb_timestamp c b)"
  "keys_within as ms b \<Longrightarrow> keys_within as ms (eb_payload p b)"
  "keys_within as ms b \<Longrightarrow> keys_within as ms (eb_confidence f b)"
  "keys_within as ms b \<Longrightarrow> keys_within as ms (eb_location x y z b)"
  by (simp_all add: keys_within_def eb_defs)

lemma subseq_distinct: "subseq xs ys \<Longrightarrow> distinct ys \<Longrightarrow> distinct xs"
  by (metis distinct_nthsI subseq_conv_nths)

lemma subseq_set: "subseq xs ys \<Longrightarrow> set xs \<subseteq> set ys"
  by (auto simp: subseq_conv_nths set_nths)

lemma keys_within_distinct:
  assumes "keys_within as ms b" "distinct as" "distinct ms"
  shows "distinct (map fst (b_attributes b))" "distinct (map fst (b_metadata b))"
    "length (b_attributes b) \<le> length as" "length (b_metadata b) \<le> length ms"
    "fst ` set (b_attributes b) \<subseteq> set as"
  using assms list_emb_length [of "(=)" "map fst (b_attributes b)" as] list_emb_length [of "(=)" "map fst (b_metadata b)" ms]
  by (auto simp: keys_within_def dest: subseq_distinct) (metis fst_conv image_eqI list.set_map subseq_set subsetD)

text \<open>A builder whose keys come from short distinct lists builds unless its fixed fields are at
  fault, and the event carries no attribute outside the list.\<close>

lemma keys_within_buildable:
  assumes "keys_within as ms b" "distinct as" "distinct ms" "length as \<le> MAX_ATTRIBUTES" "length ms \<le> MAX_METADATA"
    "length (b_policy_tags b) \<le> MAX_POLICY_TAGS" "b_strict_entity_namespace b"
  shows "buildable b \<longleftrightarrow> b_id b \<noteq> None \<and> (\<exists>ts. b_timestamp b = Some ts \<and> is_rfc3339 ts)
     \<and> (\<forall>loc. b_location b = Some loc \<longrightarrow> location_ok loc) \<and> b_source_id b \<noteq> []
     \<and> is_namespaced (b_entity_type b) \<and> f64_within (f64_of_int 0) (f64_of_int 1) (b_confidence b)"
proof -
  have "is_namespaced (b_entity_type b) \<Longrightarrow> b_entity_type b \<noteq> []" by (auto simp: is_namespaced_def strip_prefix_def)
  then show ?thesis using keys_within_distinct [OF assms(1-3)] assms(4-7) by (auto simp: buildable_def)
qed

lemma keys_within_builds:
  assumes "keys_within as ms b" "distinct as" "distinct ms" "length as \<le> MAX_ATTRIBUTES" "length ms \<le> MAX_METADATA"
    "b_policy_tags b = []" "b_confidence b = FNum False 0" "is_namespaced (b_entity_type b)"
  shows "buildable b \<longleftrightarrow> b_id b \<noteq> None \<and> (\<exists>ts. b_timestamp b = Some ts \<and> is_rfc3339 ts)
     \<and> (\<forall>loc. b_location b = Some loc \<longrightarrow> location_ok loc) \<and> b_source_id b \<noteq> []"
proof -
  have "f64_within (f64_of_int 0) (f64_of_int 1) (FNum False 0)"
    using f64_of_int_exact [of 0] f64_of_int_exact [of 1] by (simp add: f64_within_def f64_le_def signed_val_def)
  moreover have "b_entity_type b \<noteq> []" using assms(8) by (auto simp: is_namespaced_def strip_prefix_def)
  ultimately show ?thesis
    using keys_within_distinct [OF assms(1-3)] assms(4-8) by (auto simp: buildable_def)
qed

lemma built_attributes: "a_key ` set (ev_attributes (built_event b)) = fst ` set (b_attributes b)"
  by (simp add: built_event_def image_image to_attr_def)

lemma ungoverned_Nil:
  assumes "keys_within as ms b" "distinct as" "distinct ms" "list_all (governs ont (b_entity_type b)) as"
  shows "ungoverned ont (built_event b) = []"
proof -
  have "a_key ` set (ev_attributes (built_event b)) \<subseteq> set as"
    using keys_within_distinct(5) [OF assms(1-3)] by (simp add: built_attributes)
  with assms(4) show ?thesis
    by (auto simp: ungoverned_def filter_empty_conv list_all_iff built_event_def)
qed

lemma ungoverned_within:
  assumes "keys_within as ms b" "distinct as" "distinct ms"
  shows "set (ungoverned ont (built_event b)) \<subseteq> set (filter (\<lambda>k. \<not> governs ont (b_entity_type b) k) as)"
proof -
  have "a_key ` set (ev_attributes (built_event b)) \<subseteq> set as"
    using keys_within_distinct(5) [OF assms] by (simp add: built_attributes)
  then show ?thesis by (auto simp: ungoverned_def built_event_def)
qed

text \<open>Setters under a condition.\<close>

lemma keys_if_metadata: "keys_within as ms b \<Longrightarrow> keys_within as (ms @ [k]) (if c then eb_metadata k v b else b)"
  by (simp add: keys_metadata keys_more)

lemma keys_if_identity:
  "keys_within as ms b \<Longrightarrow> keys_within ((as @ [''alt_id'']) @ [''alt_id_standard'']) ms (if c then eb_identity s i b else b)"
  by (cases c) (simp_all only: if_True if_False keys_identity keys_more)

lemma keys_attribute_and_metadata:
  "keys_within as ms b \<Longrightarrow> keys_within (as @ [k]) (ms @ [k'])
     (case r of None \<Rightarrow> b | Some x \<Rightarrow> eb_metadata k' (g x) (eb_attribute k (f x) b))"
  by (cases r) (simp_all add: keys_metadata keys_attribute keys_more)

lemma keys_location_pair:
  "keys_within as ms b \<Longrightarrow> keys_within as ms
     (case (x, y) of (Some lat, Some lon) \<Rightarrow> eb_location lat lon alt b | _ \<Rightarrow> b)"
  by (simp add: keys_setters split: option.split)

lemma keys_governed: "keys_within as ms b \<Longrightarrow> keys_within (as @ [k]) (ms @ [k]) (eb_governed ont ty k v b)"
  by (simp add: eb_governed_def keys_attribute keys_metadata keys_more)

lemma eb_governed_sel [simp]:
  "b_id (eb_governed ont ty k v b) = b_id b"
  "b_timestamp (eb_governed ont ty k v b) = b_timestamp b"
  "b_location (eb_governed ont ty k v b) = b_location b"
  "b_source_id (eb_governed ont ty k v b) = b_source_id b"
  "b_entity_type (eb_governed ont ty k v b) = b_entity_type b"
  "b_policy_tags (eb_governed ont ty k v b) = b_policy_tags b"
  "b_confidence (eb_governed ont ty k v b) = b_confidence b"
  "b_payload (eb_governed ont ty k v b) = b_payload b"
  by (simp_all add: eb_governed_def)

lemma opt_pair_sel [simp]:
  "b_id (case r of None \<Rightarrow> b | Some x \<Rightarrow> eb_metadata k (g x) (eb_attribute k' (f x) b)) = b_id b"
  "b_source_id (case r of None \<Rightarrow> b | Some x \<Rightarrow> eb_metadata k (g x) (eb_attribute k' (f x) b)) = b_source_id b"
  "b_entity_type (case r of None \<Rightarrow> b | Some x \<Rightarrow> eb_metadata k (g x) (eb_attribute k' (f x) b)) = b_entity_type b"
  "b_policy_tags (case r of None \<Rightarrow> b | Some x \<Rightarrow> eb_metadata k (g x) (eb_attribute k' (f x) b)) = b_policy_tags b"
  "b_confidence (case r of None \<Rightarrow> b | Some x \<Rightarrow> eb_metadata k (g x) (eb_attribute k' (f x) b)) = b_confidence b"
  "b_payload (case r of None \<Rightarrow> b | Some x \<Rightarrow> eb_metadata k (g x) (eb_attribute k' (f x) b)) = b_payload b"
  "b_location (case r of None \<Rightarrow> b | Some x \<Rightarrow> eb_metadata k (g x) (eb_attribute k' (f x) b)) = b_location b"
  by (simp_all split: option.split)

text \<open>The setters of the fixed fields, seen through the selectors.\<close>

lemma eb_fixed_sel:
  "b_id (eb_new_id u b) = Some u" "b_id (eb_now c b) = b_id b" "b_id (eb_payload p b) = b_id b" "b_id (eb_location x y z b) = b_id b"
  "b_timestamp (eb_now c b) = Some c"
  "b_location (eb_location x y z b) = Some \<lparr>latitude = x, longitude = y, altitude_m = z\<rparr>"
  "b_location (eb_now c b) = b_location b" "b_location (eb_payload p b) = b_location b" "b_location (eb_new_id u b) = b_location b"
  "b_source_id (eb_new_id u b) = b_source_id b" "b_source_id (eb_now c b) = b_source_id b"
  "b_source_id (eb_payload p b) = b_source_id b" "b_source_id (eb_location x y z b) = b_source_id b"
  "b_entity_type (eb_new_id u b) = b_entity_type b" "b_entity_type (eb_now c b) = b_entity_type b"
  "b_entity_type (eb_payload p b) = b_entity_type b" "b_entity_type (eb_location x y z b) = b_entity_type b"
  "b_policy_tags (eb_new_id u b) = b_policy_tags b" "b_policy_tags (eb_now c b) = b_policy_tags b"
  "b_policy_tags (eb_payload p b) = b_policy_tags b" "b_policy_tags (eb_location x y z b) = b_policy_tags b"
  "b_confidence (eb_new_id u b) = b_confidence b" "b_confidence (eb_now c b) = b_confidence b"
  "b_confidence (eb_payload p b) = b_confidence b" "b_confidence (eb_location x y z b) = b_confidence b"
  "b_payload (eb_new_id u b) = b_payload b" "b_payload (eb_now c b) = b_payload b"
  "b_payload (eb_payload p b) = p" "b_payload (eb_location x y z b) = b_payload b"
  "b_source_id (eb_new s t) = s" "b_entity_type (eb_new s t) = t" "b_policy_tags (eb_new s t) = []"
  "b_confidence (eb_new s t) = FNum False 0" "b_location (eb_new s t) = None"
  by (simp_all add: eb_defs eb_new_def)

lemma eb_timestamp_now: "eb_timestamp ts b = eb_now ts b"
  by (simp add: eb_defs)

text \<open>What a parser gets from \<open>build\<close>: an event exactly when the location, if any, is valid.\<close>

lemma build_located:
  assumes "keys_within as ms b" "distinct as" "distinct ms" "length as \<le> MAX_ATTRIBUTES" "length ms \<le> MAX_METADATA"
    "b_policy_tags b = []" "b_confidence b = FNum False 0" "is_namespaced (b_entity_type b)"
    "b_id b = Some u" "b_timestamp b = Some clock" "is_rfc3339 clock" "b_source_id b \<noteq> []"
  shows "build b = Inr e \<longleftrightarrow> e = built_event b \<and> (\<forall>loc. b_location b = Some loc \<longrightarrow> location_ok loc)"
  using keys_within_builds [OF assms(1-8)] assms(9-12) by (auto simp: build_Inr_iff)

lemma build_source: "build b = Inr e \<Longrightarrow> canonical_event e \<and> ev_source_id e = b_source_id b"
  by (auto simp: build_Inr_iff built_event_def dest: buildable_canonical)

text \<open>Setters under a case distinction, with room for the keys of the other branches.\<close>

lemma keys_case_option:
  "(\<And>x. r = Some x \<Longrightarrow> keys_within as ms (f x)) \<Longrightarrow> keys_within as ms b \<Longrightarrow> keys_within as ms (case r of None \<Rightarrow> b | Some x \<Rightarrow> f x)"
  by (cases r) simp_all

lemma keys_case_prod: "(\<And>x y. p = (x, y) \<Longrightarrow> keys_within as ms (f x y)) \<Longrightarrow> keys_within as ms (case p of (x, y) \<Rightarrow> f x y)"
  by (cases p) simp_all

lemma keys_if: "keys_within as ms b \<Longrightarrow> keys_within as ms b' \<Longrightarrow> keys_within as ms (if c then b else b')"
  by simp

lemmas keys_branches = keys_case_option keys_case_prod keys_if

lemmas keys_rules = keys_governed keys_setters keys_attribute keys_opt_attribute keys_metadata keys_opt_metadata keys_identity keys_new
  keys_if_metadata keys_if_identity keys_attribute_and_metadata keys_location_pair

section \<open>The interface of a parser\<close>

text \<open>The trait \<open>FrameParser\<close> of \<open>runtime.rs\<close>: a parser turns a frame into events, changing its own
  state. What the runtime relies on is that the parser keeps its source and that every event is
  canonical and of that source.\<close>

text \<open>What a parser makes of a feed of frames, each with the effects it meets; a panic ends the feed.\<close>

fun parse_feed :: "('fx \<Rightarrow> bytes \<Rightarrow> 's \<Rightarrow> ('s \<times> ('e + event list)) option) \<Rightarrow> ('fx \<times> bytes) list \<Rightarrow> 's \<Rightarrow> ('e + event list) list" where
  "parse_feed parse [] st = []"
| "parse_feed parse ((fx, frame) # fs) st =
     (case parse fx frame st of None \<Rightarrow> [] | Some (st', r) \<Rightarrow> r # parse_feed parse fs st')"

locale frame_parser =
  fixes parse :: "'fx \<Rightarrow> bytes \<Rightarrow> 's \<Rightarrow> ('s \<times> ('e + event list)) option"
    and source :: "'s \<Rightarrow> str"
  assumes parse_source: "parse fx frame st = Some (st', r) \<Longrightarrow> source st' = source st"
    and parse_canonical: "parse fx frame st = Some (st', Inr es) \<Longrightarrow> e \<in> set es
          \<Longrightarrow> canonical_event e \<and> ev_source_id e = source st"
begin

lemma parse_feed_sound:
  "Inr es \<in> set (parse_feed parse fs st) \<Longrightarrow> e \<in> set es \<Longrightarrow> canonical_event e \<and> ev_source_id e = source st"
proof (induction fs arbitrary: st)
  case (Cons f fs)
  obtain fx frame where f: "f = (fx, frame)" by force
  show ?case
  proof (cases "parse fx frame st")
    case (Some p)
    obtain st' r where p: "p = (st', r)" by force
    with Some Cons.prems f have "Inr es = r \<or> Inr es \<in> set (parse_feed parse fs st')" by auto
    then show ?thesis using Cons.IH [of st'] Cons.prems(2) parse_canonical Some p parse_source by metis
  qed (use Cons.prems f in auto)
qed simp

end

end
