(* ===== verification/Ttm.thy ===== *)
theory Ttm
  imports Ais_Bits Connector
begin

text \<open>
  \<open>rust/connectors/ais-nmea/src/ttm.rs\<close>: ARPA radar targets placed against the own-ship fix of the
  bus. A sentence is its list of fields. The mathematics library is an argument of \<open>forward\<close>, the
  clock is the argument \<open>now\<close>, in nanoseconds. \<open>None\<close> from \<open>parse_coord\<close> and \<open>ttm_handle\<close> is the
  panic of a string cut inside a character.
\<close>

definition KNOTS_TO_MPS :: f64 where "KNOTS_TO_MPS = f64_of_rat (514444 / 1000000)"
definition NM_TO_M :: f64 where "NM_TO_M = f64_of_int 1852"
definition EARTH_RADIUS_M :: f64 where "EARTH_RADIUS_M = f64_of_int 6371000"
definition FIX_MAX_AGE :: nat where "FIX_MAX_AGE = 60000000000"

record own_fix =
  fix_lat :: f64
  fix_lon :: f64
  fix_at :: nat

record ttm_state =
  own_ship :: "own_fix option"
  site :: "(f64 \<times> f64) option"
  non_tracking :: u64

record radar_target =
  rt_number :: str
  rt_position :: "(f64 \<times> f64) option"
  rt_range_m :: f64
  rt_bearing_deg :: "f64 option"
  rt_speed_mps :: "f64 option"
  rt_course_deg :: "f64 option"
  rt_name :: "str option"
  rt_cpa_m :: "f64 option"
  rt_tcpa_min :: "f64 option"
  rt_raw :: bytes

definition ttm_new :: "(f64 \<times> f64) option \<Rightarrow> ttm_state" where
  "ttm_new s = \<lparr>own_ship = None, site = s, non_tracking = 0\<rparr>"

text \<open>The sentence without its leading character, up to the checksum.\<close>

definition ttm_wants :: "str \<Rightarrow> bool" where
  "ttm_wants sentence =
     (let star = (case find_char CHR ''*'' sentence of Some i \<Rightarrow> i | None \<Rightarrow> length sentence);
          talker = hd (split_char CHR '','' (take star sentence))
      in 3 \<le> length talker
         \<and> (ends_with talker ''TTM'' \<or> ends_with talker ''GGA'' \<or> ends_with talker ''RMC''))"

definition observer :: "nat \<Rightarrow> ttm_state \<Rightarrow> (f64 \<times> f64) option" where
  "observer now st =
     (case own_ship st of
        Some f \<Rightarrow> if now - fix_at f \<le> FIX_MAX_AGE then Some (fix_lat f, fix_lon f) else site st
      | None \<Rightarrow> site st)"

definition forward :: "libm \<Rightarrow> f64 \<Rightarrow> f64 \<Rightarrow> f64 \<Rightarrow> f64 \<Rightarrow> f64 \<times> f64" where
  "forward m lat lon bearing_deg distance_m =
     (let phi1 = f64_to_radians lat; lam1 = f64_to_radians lon; theta = f64_to_radians bearing_deg;
          delta = f64_div distance_m EARTH_RADIUS_M;
          phi2 = m_asin m (f64_add (f64_mul (m_sin m phi1) (m_cos m delta))
                                   (f64_mul (f64_mul (m_cos m phi1) (m_sin m delta)) (m_cos m theta)));
          lam2 = f64_add lam1
                   (m_atan2 m (f64_mul (f64_mul (m_sin m theta) (m_sin m delta)) (m_cos m phi1))
                              (f64_sub (m_cos m delta) (f64_mul (m_sin m phi1) (m_sin m phi2))))
      in (f64_to_degrees phi2, f64_to_degrees lam2))"

definition parse_coord :: "str option \<Rightarrow> str option \<Rightarrow> f64 option option" where
  "parse_coord value hemi =
     (case value of None \<Rightarrow> Some None | Some v0 \<Rightarrow>
      case hemi of None \<Rightarrow> Some None | Some h0 \<Rightarrow>
      let v = trim v0; h = trim h0 in
      if length v < 3 then Some None
      else
        case str_cut v ((case find_char CHR ''.'' v of Some i \<Rightarrow> i | None \<Rightarrow> length v) - 2) of
          None \<Rightarrow> None
        | Some (d, m) \<Rightarrow> Some (Option.bind (parse_f64 d) (\<lambda>degrees. Option.bind (parse_f64 m) (\<lambda>minutes.
            let dd = f64_add degrees (f64_div minutes (f64_of_int 60))
            in if h = ''N'' \<or> h = ''E'' then Some dd
               else if h = ''S'' \<or> h = ''W'' then Some (f64_neg dd)
               else None))))"

definition angle_ok :: "f64 \<Rightarrow> bool" where
  "angle_ok a \<longleftrightarrow> f64_within (f64_of_int 0) (f64_of_int 360) a"

text \<open>The units of field 10: metres per distance unit and metres per second per speed unit.\<close>

definition units_of :: "str \<Rightarrow> f64 \<times> f64" where
  "units_of u =
     (if u = ''K'' then (f64_of_int 1000, f64_div (f64_of_int 1) (f64_of_rat (36 / 10)))
      else if u = ''S'' then (f64_of_rat (1609344 / 1000), f64_of_rat (44704 / 100000))
      else (NM_TO_M, KNOTS_TO_MPS))"

definition decode_ttm ::
  "libm \<Rightarrow> nat \<Rightarrow> str list \<Rightarrow> bytes \<Rightarrow> ttm_state \<Rightarrow> ttm_state \<times> (ais_error + radar_target option)" where
  "decode_ttm m now f raw st =
     (if length f < 13 then (st, Inl Fields)
      else if f ! 12 \<noteq> ''T'' then (st\<lparr>non_tracking := non_tracking st + 1\<rparr>, Inr None)
      else let number = trim (f ! 1) in
      if number = [] then (st, Inl Fields)
      else let (dist_to_m, speed_to_mps) = units_of (f ! 10) in
      case parse_f64 (f ! 2) of None \<Rightarrow> (st, Inl Fields) | Some d \<Rightarrow>
      if \<not> f64_le (f64_of_int 0) d then (st, Inl Fields)
      else let
        range_m = f64_mul d dist_to_m;
        bearing_true = (f ! 4 = ''T'');
        bearing_deg = filter_option angle_ok (parse_f64 (f ! 3));
        speed_mps = map_option (\<lambda>s. f64_mul s speed_to_mps) (parse_f64 (f ! 5));
        course_deg = (if f ! 7 = ''T'' then filter_option angle_ok (parse_f64 (f ! 6)) else None);
        cpa_m = map_option (\<lambda>x. f64_mul x dist_to_m) (parse_f64 (f ! 8));
        tcpa_min = parse_f64 (f ! 9);
        name = filter_option (\<lambda>s. s \<noteq> []) (Some (trim (f ! 11)));
        position = (case (bearing_true, bearing_deg, observer now st) of
                      (True, Some brg, Some (lat, lon)) \<Rightarrow> Some (forward m lat lon brg range_m)
                    | _ \<Rightarrow> None)
      in (st, Inr (Some \<lparr>rt_number = number, rt_position = position, rt_range_m = range_m,
                         rt_bearing_deg = bearing_deg, rt_speed_mps = speed_mps,
                         rt_course_deg = course_deg, rt_name = name, rt_cpa_m = cpa_m,
                         rt_tcpa_min = tcpa_min, rt_raw = raw\<rparr>)))"

definition update_fix :: "nat \<Rightarrow> str list \<Rightarrow> nat \<Rightarrow> ttm_state \<Rightarrow> ttm_state option" where
  "update_fix now f lat_at st =
     (case parse_coord (slice_get f lat_at) (slice_get f (lat_at + 1)) of None \<Rightarrow> None | Some lat \<Rightarrow>
      case parse_coord (slice_get f (lat_at + 2)) (slice_get f (lat_at + 3)) of None \<Rightarrow> None | Some lon \<Rightarrow>
      Some (case (lat, lon) of
              (Some la, Some lo) \<Rightarrow> st\<lparr>own_ship := Some \<lparr>fix_lat = la, fix_lon = lo, fix_at = now\<rparr>\<rparr>
            | _ \<Rightarrow> st))"

definition ttm_handle ::
  "libm \<Rightarrow> nat \<Rightarrow> str list \<Rightarrow> bytes \<Rightarrow> ttm_state \<Rightarrow> (ttm_state \<times> (ais_error + radar_target option)) option" where
  "ttm_handle m now f raw st =
     (if ends_with (f ! 0) ''GGA'' then
        if 7 \<le> length f \<and> f ! 6 \<noteq> ''0'' then map_option (\<lambda>st'. (st', Inr None)) (update_fix now f 2 st)
        else Some (st, Inr None)
      else if ends_with (f ! 0) ''RMC'' then
        if 7 \<le> length f \<and> f ! 2 = ''A'' then map_option (\<lambda>st'. (st', Inr None)) (update_fix now f 3 st)
        else Some (st, Inr None)
      else Some (decode_ttm m now f raw st))"

definition ttm_builder :: "str \<Rightarrow> enrichment \<Rightarrow> effects \<Rightarrow> radar_target \<Rightarrow> event_builder" where
  "ttm_builder source_id en fx t =
     (let b = eb_attribute ''environment'' ''SURFACE''
               (eb_metadata ''range_m'' (fmt_fixed 0 (rt_range_m t))
                (eb_metadata ''target_number'' (rt_number t)
                 (eb_metadata ''source_uid'' (''arpa-'' @ rt_number t)
                  (eb_payload (rt_raw t) (eb_now (wall_clock fx) (eb_new_id (uuid fx)
                    (eb_new source_id ''mim:object'')))))));
          b = (case rt_position t of Some (lat, lon) \<Rightarrow> eb_location lat lon (f64_of_int 0) b | None \<Rightarrow> b);
          b = opt_metadata ''bearing_deg'' (map_option (fmt_fixed 1) (rt_bearing_deg t)) b;
          b = opt_attribute ''speed'' (map_option (fmt_fixed 2) (rt_speed_mps t)) b;
          b = opt_attribute ''course'' (map_option (fmt_fixed 1) (rt_course_deg t)) b;
          b = opt_attribute ''callsign'' (rt_name t) b;
          b = opt_metadata ''cpa_m'' (map_option (fmt_fixed 0) (rt_cpa_m t)) b;
          b = opt_metadata ''tcpa_min'' (map_option (fmt_fixed 1) (rt_tcpa_min t)) b
      in opt_attribute ''hostility'' (hostility en) b)"

definition ttm_to_event :: "str \<Rightarrow> enrichment \<Rightarrow> effects \<Rightarrow> radar_target \<Rightarrow> build_error + event" where
  "ttm_to_event source_id en fx t = build (ttm_builder source_id en fx t)"

section \<open>Lemmas\<close>

lemma parse_coord_ascii:
  assumes "\<And>s. v = Some s \<Longrightarrow> is_ascii s"
  shows "parse_coord v h \<noteq> None"
proof (cases v)
  case (Some v0)
  then have a: "is_ascii (trim v0)" using assms is_ascii_trim by simp
  have "(case find_char c (trim v0) of Some i \<Rightarrow> i | None \<Rightarrow> length (trim v0)) - 2 \<le> length (trim v0)" for c
    using find_char_Some [of c "trim v0"] by (fastforce split: option.split)
  from ascii_char_boundary [OF a this] show ?thesis
    by (simp add: parse_coord_def Some str_cut_def Let_def split: option.split)
qed (simp add: parse_coord_def)

lemma slice_get_ascii: "list_all is_ascii f \<Longrightarrow> slice_get f i = Some s \<Longrightarrow> is_ascii s"
  by (auto simp: list_all_length slice_simps)

lemma update_fix_ascii: "list_all is_ascii f \<Longrightarrow> update_fix now f i st \<noteq> None"
  using parse_coord_ascii [of "slice_get f i" "slice_get f (i + 1)"]
    parse_coord_ascii [of "slice_get f (i + 2)" "slice_get f (i + 3)"] slice_get_ascii [of f]
  by (auto simp: update_fix_def split: option.split)

lemma ttm_handle_ascii: "list_all is_ascii f \<Longrightarrow> ttm_handle m now f raw st \<noteq> None"
  using update_fix_ascii [of f now 2 st] update_fix_ascii [of f now 3 st] by (simp add: ttm_handle_def)

text \<open>The attribute keys and the metadata keys of a target event.\<close>

definition ttm_attributes :: "str list" where
  "ttm_attributes = [''environment'', ''speed'', ''course'', ''callsign'', ''hostility'']"

definition ttm_metadata :: "str list" where
  "ttm_metadata = [''source_uid'', ''target_number'', ''range_m'', ''bearing_deg'', ''cpa_m'', ''tcpa_min'']"

lemma keys_ttm: "keys_within ttm_attributes ttm_metadata (ttm_builder src en fx t)"
proof -
  have "keys_within ((((([] @ [''environment'']) @ [''speed'']) @ [''course'']) @ [''callsign'']) @ [''hostility''])
     (((((([] @ [''source_uid'']) @ [''target_number'']) @ [''range_m'']) @ [''bearing_deg'']) @ [''cpa_m'']) @ [''tcpa_min''])
     (ttm_builder src en fx t)"
    unfolding ttm_builder_def Let_def by (cases "rt_position t") (auto simp del: append.simps append_assoc intro!: keys_rules)
  then show ?thesis by (simp add: ttm_attributes_def ttm_metadata_def)
qed

lemma ttm_builder_fields:
  "b_id (ttm_builder src en fx t) = Some (uuid fx)" "b_timestamp (ttm_builder src en fx t) = Some (wall_clock fx)"
  "b_source_id (ttm_builder src en fx t) = src" "b_entity_type (ttm_builder src en fx t) = ''mim:object''"
  "b_policy_tags (ttm_builder src en fx t) = []" "b_confidence (ttm_builder src en fx t) = FNum False 0"
  "b_location (ttm_builder src en fx t)
     = map_option (\<lambda>(lat, lon). \<lparr>latitude = lat, longitude = lon, altitude_m = f64_of_int 0\<rparr>) (rt_position t)"
  by (simp_all add: ttm_builder_def Let_def eb_new_id_def eb_now_def eb_payload_def eb_location_def eb_new_def
      split: option.split prod.split)

lemma ttm_governed: "list_all (governs ONTOLOGY ''mim:object'') ttm_attributes"
  by code_simp

lemma ttm_keys_small:
  "distinct ttm_attributes" "distinct ttm_metadata" "length ttm_attributes \<le> MAX_ATTRIBUTES"
  "length ttm_metadata \<le> MAX_METADATA" "is_namespaced ''mim:object''"
  by code_simp+

section \<open>Properties\<close>

text \<open>A radar target comes only from a sentence whose status is tracking. Its range is a number
  that is not negative, its bearing and course lie within the circle, a course is reported only where
  the sentence flags it as true, and it is placed exactly when the bearing is true and known and
  there is an observer: a fix at most sixty seconds old, else the configured site.\<close>

theorem ttm_target_sound:
  assumes "decode_ttm m now f raw st = (st', Inr (Some t))"
  shows "f ! 12 = ''T'' \<and> st' = st \<and> rt_number t \<noteq> []
    \<and> (\<exists>d. parse_f64 (f ! 2) = Some d \<and> f64_le (f64_of_int 0) d \<and> rt_range_m t = f64_mul d (fst (units_of (f ! 10))))
    \<and> (\<forall>a. rt_bearing_deg t = Some a \<longrightarrow> angle_ok a)
    \<and> (\<forall>a. rt_course_deg t = Some a \<longrightarrow> angle_ok a \<and> f ! 7 = ''T'')
    \<and> (rt_position t = None \<longleftrightarrow> f ! 4 \<noteq> ''T'' \<or> rt_bearing_deg t = None \<or> observer now st = None)"
  using assms
  by (auto simp: decode_ttm_def Let_def filter_option_Some_iff split: if_splits option.splits prod.splits bool.splits)

text \<open>For a configured source and a clock that renders RFC 3339, a target's event is built exactly
  when its computed place, if it has one, is a valid location; the event then carries no attribute
  outside the governed vocabulary of \<open>mim:object\<close>.\<close>

theorem ttm_event_builds:
  assumes "src \<noteq> []" "is_rfc3339 (wall_clock fx)"
  shows "(\<exists>e. ttm_to_event src en fx t = Inr e \<and> ungoverned ONTOLOGY e = [] \<and> canonical_event e)
    \<longleftrightarrow> (\<forall>lat lon. rt_position t = Some (lat, lon)
           \<longrightarrow> location_ok \<lparr>latitude = lat, longitude = lon, altitude_m = f64_of_int 0\<rparr>)"
proof -
  let ?b = "ttm_builder src en fx t"
  have ty: "is_namespaced (b_entity_type ?b)" by (simp only: ttm_builder_fields ttm_keys_small)
  have "ungoverned ONTOLOGY (built_event ?b) = []"
    by (rule ungoverned_Nil [OF keys_ttm ttm_keys_small(1,2)]) (simp only: ttm_builder_fields ttm_governed)
  moreover have "buildable ?b \<longleftrightarrow> (\<forall>lat lon. rt_position t = Some (lat, lon)
           \<longrightarrow> location_ok \<lparr>latitude = lat, longitude = lon, altitude_m = f64_of_int 0\<rparr>)"
    using keys_within_builds [OF keys_ttm ttm_keys_small(1-4) ttm_builder_fields(5,6) ty] assms
    by (auto simp: ttm_builder_fields)
  ultimately show ?thesis by (auto simp: ttm_to_event_def build_Inr_iff dest: buildable_canonical)
qed

section \<open>Witnesses\<close>

definition ex_ttm_fields :: "str list" where
  "ex_ttm_fields = [''RATTM'', ''01'', ''2.5'', ''100'', ''R'', ''10'', ''90'', ''T'', [], [], ''N'', [], ''T'']"

definition flat_libm :: libm where
  "flat_libm = \<lparr>m_sin = (\<lambda>x. x), m_cos = (\<lambda>x. f64_of_int 1), m_asin = (\<lambda>x. x), m_atan2 = (\<lambda>x y. x), m_hypot = f64_add\<rparr>"

definition ex_target :: radar_target where
  "ex_target = \<lparr>rt_number = ''01'', rt_position = None, rt_range_m = FNum False 4630, rt_bearing_deg = Some (FNum False 100),
     rt_speed_mps = map_option (\<lambda>s. f64_mul s KNOTS_TO_MPS) (parse_f64 ''10''), rt_course_deg = Some (FNum False 90), rt_name = None,
     rt_cpa_m = None, rt_tcpa_min = None, rt_raw = []\<rparr>"

lemma ex_ttm_decoded: "decode_ttm flat_libm 0 ex_ttm_fields [] (ttm_new None) = (ttm_new None, Inr (Some ex_target))"
  by code_simp

theorem ttm_target_sound_witness:
  "decode_ttm flat_libm 0 ex_ttm_fields [] (ttm_new None) = (ttm_new None, Inr (Some ex_target))
   \<and> angle_ok (FNum False 100) \<and> rt_position ex_target = None"
  using ttm_target_sound [OF ex_ttm_decoded] ex_ttm_decoded by (simp add: ex_target_def)

definition ex_effects :: effects where
  "ex_effects = \<lparr>instant = 0, wall_clock = ''2026-06-10T08:00:00Z'', uuid = ''0''\<rparr>"

lemma ex_effects_clock: "is_rfc3339 (wall_clock ex_effects)"
  by code_simp

theorem ttm_event_builds_witness:
  "\<exists>e. ttm_to_event ''arpa'' \<lparr>hostility = None\<rparr> ex_effects ex_target = Inr e \<and> ungoverned ONTOLOGY e = []"
  using ttm_event_builds [of "''arpa''" ex_effects "\<lparr>hostility = None\<rparr>" ex_target] ex_effects_clock
  by (auto simp: ex_target_def)


end
