(* ===== verification/Ais.thy ===== *)
theory Ais
  imports Ais_Cache Ttm
begin

text \<open>
  \<open>rust/connectors/ais-nmea/src/ais.rs\<close>: NMEA sentences to vessel events. The parser's mutexes are
  one record of state, threaded through each call; the clock and the fresh identifier of a call are
  the argument \<open>fx\<close>. The result of a call is \<open>None\<close> where the source panics, and otherwise the new
  state with the error or the value. \<open>reassemble\<close> is the fragment part of \<open>parse_sentence\<close>.
\<close>

section \<open>State\<close>

record ais_position =
  p_msg_type :: u8
  p_mmsi :: u32
  p_lat :: "f64 option"
  p_lon :: "f64 option"
  p_cog_deg :: "f64 option"
  p_sog_kn :: "f64 option"
  p_heading_deg :: "f64 option"
  p_rot_degmin :: "f64 option"
  p_nav_status :: "str option"
  p_ship_type :: "str option"
  p_name :: "str option"
  p_callsign :: "str option"
  p_imo :: "u32 option"
  p_raw :: bytes
  p_truncated :: bool

record reasm_key =
  talker :: str
  channel :: str
  seq :: u8

definition REASM_TTL :: nat where "REASM_TTL = 10000000000"

record pending_msg =
  pm_total :: u8
  pm_payload :: str
  pm_raws :: "bytes list"
  pm_first_seen :: nat

definition pending_new :: "u8 \<Rightarrow> nat \<Rightarrow> pending_msg" where
  "pending_new t now = \<lparr>pm_total = t, pm_payload = [], pm_raws = [], pm_first_seen = now\<rparr>"

definition continues :: "pending_msg \<Rightarrow> u8 \<Rightarrow> u8 \<Rightarrow> bool" where
  "continues p frag_count frag_num \<longleftrightarrow> pm_total p = frag_count \<and> length (pm_raws p) + 1 = unat frag_num"

record ais_parser =
  ap_source_id :: str
  ap_enrichment :: enrichment
  ap_pending :: "reasm_key \<rightharpoonup> pending_msg"
  ap_identities :: "identity mmsi_cache"
  ap_carry :: "carry mmsi_cache"
  ap_dropped :: u64
  ap_radar :: ttm_state

definition ais_new :: "str \<Rightarrow> enrichment \<Rightarrow> ais_parser" where
  "ais_new source_id en = \<lparr>ap_source_id = source_id, ap_enrichment = en, ap_pending = (\<lambda>_. None),
     ap_identities = cache_new, ap_carry = cache_new, ap_dropped = 0, ap_radar = ttm_new None\<rparr>"

definition with_site :: "f64 \<Rightarrow> f64 \<Rightarrow> ais_parser \<Rightarrow> ais_parser" where
  "with_site lat lon p = p\<lparr>ap_radar := ttm_new (Some (lat, lon))\<rparr>"

section \<open>Sentences\<close>

definition BACKSLASH :: char where "BACKSLASH = char_of (92 :: nat)"

definition strip_tag_block :: "str \<Rightarrow> str" where
  "strip_tag_block s =
     (case strip_prefix s [BACKSLASH] of
        Some rest \<Rightarrow> (case find_char BACKSLASH rest of Some e \<Rightarrow> drop (e + 1) rest | None \<Rightarrow> s)
      | None \<Rightarrow> s)"

definition is_sentence :: "str \<Rightarrow> bool" where
  "is_sentence s \<longleftrightarrow> starts_with s ''!'' \<or> starts_with s ''$''"

definition xor_bytes :: "str \<Rightarrow> u8" where
  "xor_bytes s = fold (\<lambda>b a. a XOR b) (as_bytes s) 0"

definition verify_checksum :: "str \<Rightarrow> ais_error + unit" where
  "verify_checksum s =
     try_bind (ok_or Checksum (rfind_char CHR ''*'' s)) (\<lambda>star.
     try_bind (ok_or Checksum (str_get_range s (star + 1) (star + 3))) (\<lambda>given.
     try_bind (ok_or Checksum (parse_uint 16 255 given)) (\<lambda>v.
     if uint (xor_bytes (take (star - 1) (drop 1 s))) = v then Inr () else Inl Checksum)))"

text \<open>\<open>s[1..star].split(',')\<close> up to the first asterisk.\<close>

definition sentence_fields :: "str \<Rightarrow> str list" where
  "sentence_fields s =
     (let star = (case find_char CHR ''*'' s of Some i \<Rightarrow> i | None \<Rightarrow> length s)
      in split_char CHR '','' (take (star - 1) (drop 1 s)))"

section \<open>Field codes\<close>

datatype layout = ClassA | ClassB bool

fun offsets :: "layout \<Rightarrow> nat \<times> nat \<times> nat \<times> nat \<times> nat" where
  "offsets ClassA = (50, 61, 89, 116, 128)"
| "offsets (ClassB _) = (46, 57, 85, 112, 124)"

definition nav_status :: "u64 \<Rightarrow> str option" where
  "nav_status code =
     (let c = uint code in
      if c = 0 then Some ''under-way-using-engine'' else if c = 1 then Some ''at-anchor''
      else if c = 2 then Some ''not-under-command'' else if c = 3 then Some ''restricted-manoeuvrability''
      else if c = 4 then Some ''constrained-by-draught'' else if c = 5 then Some ''moored''
      else if c = 6 then Some ''aground'' else if c = 7 then Some ''engaged-in-fishing''
      else if c = 8 then Some ''under-way-sailing'' else if 9 \<le> c \<and> c \<le> 13 then Some ''reserved''
      else if c = 14 then Some ''ais-sart'' else None)"

definition ship_type :: "u8 \<Rightarrow> str option" where
  "ship_type code =
     (let c = uint code in
      if 20 \<le> c \<and> c \<le> 29 then Some ''wing-in-ground'' else if c = 30 then Some ''fishing''
      else if c = 31 \<or> c = 32 then Some ''towing'' else if c = 33 then Some ''dredging''
      else if c = 34 then Some ''diving-ops'' else if c = 35 then Some ''military-ops''
      else if c = 36 then Some ''sailing'' else if c = 37 then Some ''pleasure-craft''
      else if 40 \<le> c \<and> c \<le> 49 then Some ''high-speed-craft'' else if c = 50 then Some ''pilot-vessel''
      else if c = 51 then Some ''search-and-rescue'' else if c = 52 then Some ''tug''
      else if c = 53 then Some ''port-tender'' else if c = 54 then Some ''anti-pollution''
      else if c = 55 then Some ''law-enforcement'' else if c = 58 then Some ''medical-transport''
      else if 60 \<le> c \<and> c \<le> 69 then Some ''passenger'' else if 70 \<le> c \<and> c \<le> 79 then Some ''cargo''
      else if 80 \<le> c \<and> c \<le> 89 then Some ''tanker'' else if 90 \<le> c \<and> c \<le> 99 then Some ''other-vessel''
      else None)"

definition decode_rot :: "int \<Rightarrow> f64 option" where
  "decode_rot raw =
     (if raw \<le> -128 \<or> 127 < raw then None
      else let s = f64_div (f64_of_int raw) (f64_of_rat (4733 / 1000))
           in Some (f64_mul (f64_mul s s) (f64_of_int (sgn raw))))"

section \<open>Messages\<close>

definition merge_identity ::
  "u32 \<Rightarrow> str option \<Rightarrow> str option \<Rightarrow> str option \<Rightarrow> u32 option \<Rightarrow> ais_parser \<Rightarrow> ais_parser" where
  "merge_identity mmsi name callsign ship imo st =
     (let (c, e) = cache_entry identity_default mmsi (ap_identities st);
          e = (case filter_option (\<lambda>v. v \<noteq> []) name of Some v \<Rightarrow> e\<lparr>i_name := Some v\<rparr> | None \<Rightarrow> e);
          e = (case filter_option (\<lambda>v. v \<noteq> []) callsign of Some v \<Rightarrow> e\<lparr>i_callsign := Some v\<rparr> | None \<Rightarrow> e);
          e = (if ship \<noteq> None then e\<lparr>i_ship_type := ship\<rparr> else e);
          e = (if imo \<noteq> None then e\<lparr>i_imo := imo\<rparr> else e)
      in st\<lparr>ap_identities := cache_put mmsi e c\<rparr>)"

definition static_class_a :: "bits \<Rightarrow> u32 \<Rightarrow> ais_parser \<Rightarrow> ais_parser" where
  "static_class_a b mmsi st =
     (let imo = filter_option (\<lambda>v. v \<noteq> 0) (map_option ucast (opt_u b 40 30));
          callsign = opt_text b 70 42;
          name = opt_text b 112 120;
          ship = Option.bind (opt_u b 232 8) (\<lambda>c. ship_type (ucast c))
      in merge_identity mmsi name callsign ship imo st)"

definition static_class_b :: "bits \<Rightarrow> u32 \<Rightarrow> ais_parser \<Rightarrow> ais_parser" where
  "static_class_b b mmsi st =
     (if opt_u b 38 2 = Some 0 then merge_identity mmsi (opt_text b 40 120) None None None st
      else if opt_u b 38 2 = Some 1 then
        merge_identity mmsi None (opt_text b 90 42) (Option.bind (opt_u b 40 8) (\<lambda>c. ship_type (ucast c))) None st
      else st)"

definition position_fields :: "bits \<Rightarrow> u8 \<Rightarrow> u32 \<Rightarrow> layout \<Rightarrow> identity \<Rightarrow> ais_position" where
  "position_fields b msg_type mmsi lay ident =
     (let (sog_off, lon_off, lat_off, cog_off, hdg_off) = offsets lay
      in \<lparr>p_msg_type = msg_type, p_mmsi = mmsi,
          p_lat = filter_option (f64_within (f64_of_int (-90)) (f64_of_int 90))
            (map_option (\<lambda>v. f64_div (f64_of_int v) (f64_of_int 600000)) (opt_i b lat_off 27)),
          p_lon = filter_option (f64_within (f64_of_int (-180)) (f64_of_int 180))
            (map_option (\<lambda>v. f64_div (f64_of_int v) (f64_of_int 600000)) (opt_i b lon_off 28)),
          p_cog_deg = map_option (\<lambda>v. f64_div (f64_of_int (uint v)) (f64_of_int 10))
            (filter_option (\<lambda>v. v \<noteq> 3600) (opt_u b cog_off 12)),
          p_sog_kn = map_option (\<lambda>v. f64_div (f64_of_int (uint v)) (f64_of_int 10))
            (filter_option (\<lambda>v. v \<noteq> 1023) (opt_u b sog_off 10)),
          p_heading_deg = map_option (\<lambda>v. f64_of_int (uint v)) (filter_option (\<lambda>v. v \<noteq> 511) (opt_u b hdg_off 9)),
          p_rot_degmin = (if lay = ClassA then Option.bind (opt_i b 42 8) decode_rot else None),
          p_nav_status = (if lay = ClassA then Option.bind (opt_u b 38 4) nav_status else None),
          p_ship_type = i_ship_type ident, p_name = i_name ident, p_callsign = i_callsign ident,
          p_imo = i_imo ident, p_raw = [], p_truncated = False\<rparr>)"

definition vessel_position :: "bits \<Rightarrow> u8 \<Rightarrow> u32 \<Rightarrow> layout \<Rightarrow> ais_parser \<Rightarrow> ais_parser \<times> ais_position" where
  "vessel_position b msg_type mmsi lay st =
     (let st = (if lay = ClassB True
                then merge_identity mmsi (opt_text b 143 120) None
                       (Option.bind (opt_u b 263 8) (\<lambda>c. ship_type (ucast c))) None st
                else st);
          ident = (case cache_get mmsi (ap_identities st) of Some i \<Rightarrow> i | None \<Rightarrow> identity_default)
      in (st, position_fields b msg_type mmsi lay ident))"

text \<open>The loop over the sentences of a message without a position.\<close>

fun carry_raws :: "bytes list \<Rightarrow> carry \<Rightarrow> u64 \<Rightarrow> carry \<times> u64" where
  "carry_raws [] e n = (e, n)"
| "carry_raws (raw # raws) e n = (let (e', d) = push_raw raw e in carry_raws raws e' (n + of_nat d))"

definition layout_of :: "u8 \<Rightarrow> layout option" where
  "layout_of msg_type =
     (if 1 \<le> msg_type \<and> msg_type \<le> 3 then Some ClassA
      else if msg_type = 18 then Some (ClassB False)
      else if msg_type = 19 then Some (ClassB True) else None)"

definition decode :: "bits \<Rightarrow> bytes list \<Rightarrow> ais_parser \<Rightarrow> (ais_parser \<times> (ais_error + ais_position option)) option" where
  "decode b raws st =
     (if valid_bits b < 38 then Some (st, Inl AisTruncated)
      else case bits_u b 0 6 of None \<Rightarrow> None | Some ty \<Rightarrow>
      case bits_u b 8 30 of None \<Rightarrow> None | Some m \<Rightarrow>
      let msg_type = ucast ty; mmsi = ucast m;
          lay = layout_of msg_type;
          st = (if msg_type = 5 then static_class_a b mmsi st
                else if msg_type = 24 then static_class_b b mmsi st else st);
          (c, e) = cache_entry carry_default mmsi (ap_carry st)
      in case lay of
           None \<Rightarrow> let (e', n) = carry_raws raws e (ap_dropped st)
                   in Some (st\<lparr>ap_carry := cache_put mmsi e' c, ap_dropped := n\<rparr>, Inr None)
         | Some l \<Rightarrow>
             let (e', raw, truncated) = drain_with raws e;
                 (st', p) = vessel_position b msg_type mmsi l (st\<lparr>ap_carry := cache_put mmsi e' c\<rparr>)
             in Some (st', Inr (Some (p\<lparr>p_raw := raw, p_truncated := truncated\<rparr>))))"

text \<open>The fragment of a message: its key, the number of fragments, its own number, payload and raw
  sentence. The result is the completed message, if this fragment completes one.\<close>

definition retain_fresh :: "nat \<Rightarrow> (reasm_key \<rightharpoonup> pending_msg) \<Rightarrow> reasm_key \<rightharpoonup> pending_msg" where
  "retain_fresh now m k = filter_option (\<lambda>p. now - pm_first_seen p < REASM_TTL) (m k)"

definition reassemble ::
  "nat \<Rightarrow> reasm_key \<Rightarrow> u8 \<Rightarrow> u8 \<Rightarrow> str \<Rightarrow> bytes \<Rightarrow> (reasm_key \<rightharpoonup> pending_msg)
     \<Rightarrow> (reasm_key \<rightharpoonup> pending_msg) \<times> pending_msg option" where
  "reassemble now key frag_count frag_num payload raw pend =
     (let pend = retain_fresh now pend;
          (pend, found) = (if frag_num = 1 then (pend, Some (pending_new frag_count now))
                           else (pend(key := None), filter_option (\<lambda>e. continues e frag_count frag_num) (pend key)))
      in case found of
           None \<Rightarrow> (pend, None)
         | Some e \<Rightarrow>
             let e = e\<lparr>pm_payload := pm_payload e @ payload, pm_raws := pm_raws e @ [raw]\<rparr>
             in if frag_num < frag_count then (pend(key \<mapsto> e), None) else (pend, Some e))"

definition parse_sentence ::
  "effects \<Rightarrow> bytes \<Rightarrow> ais_parser \<Rightarrow> (ais_parser \<times> (ais_error + ais_position option)) option" where
  "parse_sentence fx frame st =
     (case from_utf8 frame of None \<Rightarrow> Some (st, Inl NotAscii) | Some text \<Rightarrow>
      let original = trim text; s = strip_tag_block original in
      if \<not> is_sentence s then Some (st, Inl NotNmea)
      else case verify_checksum s of Inl err \<Rightarrow> Some (st, Inl err) | Inr _ \<Rightarrow>
      let fields = sentence_fields s in
      if \<not> (ends_with (fields ! 0) ''VDM'' \<or> ends_with (fields ! 0) ''VDO'') then Some (st, Inr None)
      else if length fields < 7 then Some (st, Inl Fields)
      else case parse_uint 10 255 (fields ! 1) of None \<Rightarrow> Some (st, Inl Fields) | Some fc \<Rightarrow>
      case parse_uint 10 255 (fields ! 2) of None \<Rightarrow> Some (st, Inl Fields) | Some fn \<Rightarrow>
      let frag_count = word_of_int fc; frag_num = word_of_int fn;
          sq = word_of_int (case parse_uint 10 255 (fields ! 3) of Some v \<Rightarrow> v | None \<Rightarrow> 0);
          payload = fields ! 5;
          fill = word_of_int (case parse_uint 10 255 (fields ! 6) of Some v \<Rightarrow> v | None \<Rightarrow> 0) in
      if frag_count = 0 \<or> frag_num = 0 \<or> frag_count < frag_num then Some (st, Inl Fields)
      else let raw = as_bytes original in
      if frag_count = 1 then
        (case from_payload payload fill of Inl err \<Rightarrow> Some (st, Inl err) | Inr b \<Rightarrow> decode b [raw] st)
      else
        let (pend, done_msg) = reassemble (instant fx) \<lparr>talker = fields ! 0, channel = fields ! 4, seq = sq\<rparr>
                                frag_count frag_num payload raw (ap_pending st);
            st = st\<lparr>ap_pending := pend\<rparr>
        in case done_msg of None \<Rightarrow> Some (st, Inr None) | Some e \<Rightarrow>
           (case from_payload (pm_payload e) fill of Inl err \<Rightarrow> Some (st, Inl err) | Inr b \<Rightarrow> decode b (pm_raws e) st))"

section \<open>Events\<close>

definition ais_base_builder :: "str \<Rightarrow> enrichment \<Rightarrow> effects \<Rightarrow> ais_position \<Rightarrow> event_builder" where
  "ais_base_builder source_id en fx p =
     (let mmsi = show_int (uint (p_mmsi p));
          b = eb_metadata ''mmsi'' mmsi (eb_metadata ''source_uid'' mmsi
                (eb_payload (p_raw p) (eb_new_id (uuid fx) (eb_new source_id ''mim:vessel''))));
          b = (if 1 \<le> uint (p_mmsi p) \<and> uint (p_mmsi p) \<le> 999999999
               then eb_identity ''AIS'' (pad_left 9 CHR ''0'' mmsi) b else b);
          b = (case (p_lat p, p_lon p) of (Some lat, Some lon) \<Rightarrow> eb_location lat lon (f64_of_int 0) b | _ \<Rightarrow> b);
          b = opt_metadata ''imo'' (map_option (\<lambda>i. show_int (uint i)) (p_imo p)) b;
          b = (if p_truncated p then eb_metadata ''payload_truncated'' ''true'' b else b);
          b = opt_attribute ''hostility'' (hostility en) b;
          b = (case p_sog_kn p of None \<Rightarrow> b
               | Some kn \<Rightarrow> eb_metadata ''speed_kn'' (fmt_fixed 1 kn) (eb_attribute ''speed'' (fmt_fixed 2 (f64_mul kn KNOTS_TO_MPS)) b));
          b = opt_attribute ''course'' (map_option (fmt_fixed 1) (p_cog_deg p)) b;
          b = opt_attribute ''heading'' (map_option (fmt_fixed 0) (p_heading_deg p)) b;
          b = opt_attribute ''rate_of_turn'' (map_option (fmt_fixed 1) (p_rot_degmin p)) b;
          b = opt_attribute ''nav_status'' (p_nav_status p) b;
          b = opt_attribute ''vessel_type'' (p_ship_type p) b;
          b = opt_attribute ''vessel_name'' (p_name p) b
      in opt_attribute ''callsign'' (p_callsign p) b)"

definition ais_to_event_at :: "str \<Rightarrow> enrichment \<Rightarrow> effects \<Rightarrow> ais_position \<Rightarrow> str \<Rightarrow> ais_error + event" where
  "ais_to_event_at source_id en fx p observed =
     (case build (eb_timestamp observed (ais_base_builder source_id en fx p)) of Inl err \<Rightarrow> Inl (AisBuild err) | Inr e \<Rightarrow> Inr e)"

definition ais_frame_event :: "effects \<Rightarrow> ais_parser \<Rightarrow> ais_position \<Rightarrow> ais_error + event list" where
  "ais_frame_event fx st p =
     (case build (eb_now (wall_clock fx) (ais_base_builder (ap_source_id st) (ap_enrichment st) fx p)) of
        Inl err \<Rightarrow> Inl (AisBuild err) | Inr e \<Rightarrow> Inr [e])"

text \<open>The radar part of \<open>parse\<close>; the outer \<open>None\<close> means that the sentence is not one of its own.\<close>

definition radar_sentence :: "bytes \<Rightarrow> str option" where
  "radar_sentence frame =
     Option.bind (from_utf8 frame) (\<lambda>text. filter_option (\<lambda>s. is_sentence s \<and> ttm_wants (drop 1 s)) (Some (strip_tag_block (trim text))))"

definition parse_radar ::
  "libm \<Rightarrow> effects \<Rightarrow> str \<Rightarrow> ais_parser \<Rightarrow> (ais_parser \<times> (ais_error + event list)) option" where
  "parse_radar m fx s st =
     (case verify_checksum s of Inl err \<Rightarrow> Some (st, Inl err) | Inr _ \<Rightarrow>
      case ttm_handle m (instant fx) (sentence_fields s) (as_bytes s) (ap_radar st) of None \<Rightarrow> None
      | Some (radar, r) \<Rightarrow>
          Some (st\<lparr>ap_radar := radar\<rparr>,
            case r of Inl err \<Rightarrow> Inl err | Inr None \<Rightarrow> Inr []
            | Inr (Some target) \<Rightarrow>
                (case ttm_to_event (ap_source_id st) (ap_enrichment st) fx target of
                   Inl err \<Rightarrow> Inl (AisBuild err) | Inr e \<Rightarrow> Inr [e])))"

definition ais_parse :: "libm \<Rightarrow> effects \<Rightarrow> bytes \<Rightarrow> ais_parser \<Rightarrow> (ais_parser \<times> (ais_error + event list)) option" where
  "ais_parse m fx frame st =
     (case radar_sentence frame of
        Some s \<Rightarrow> parse_radar m fx s st
      | None \<Rightarrow>
          (case parse_sentence fx frame st of None \<Rightarrow> None
           | Some (st', r) \<Rightarrow>
               Some (st', case r of Inl err \<Rightarrow> Inl err | Inr None \<Rightarrow> Inr []
                          | Inr (Some p) \<Rightarrow> ais_frame_event fx st' p)))"

section \<open>The events of a position\<close>

text \<open>The attribute keys and the metadata keys a vessel event can carry.\<close>

definition ais_attributes :: "str list" where
  "ais_attributes = [''alt_id'', ''alt_id_standard'', ''hostility'', ''speed'', ''course'', ''heading'',
     ''rate_of_turn'', ''nav_status'', ''vessel_type'', ''vessel_name'', ''callsign'']"

definition ais_metadata :: "str list" where
  "ais_metadata = [''source_uid'', ''mmsi'', ''imo'', ''payload_truncated'', ''speed_kn'']"

lemma keys_ais: "keys_within ais_attributes ais_metadata (ais_base_builder src en fx p)"
proof -
  have "keys_within
     ((((((((((([] @ [''alt_id'']) @ [''alt_id_standard'']) @ [''hostility'']) @ [''speed'']) @ [''course'']) @ [''heading''])
        @ [''rate_of_turn'']) @ [''nav_status'']) @ [''vessel_type'']) @ [''vessel_name'']) @ [''callsign''])
     ((((([] @ [''source_uid'']) @ [''mmsi'']) @ [''imo'']) @ [''payload_truncated'']) @ [''speed_kn''])
     (ais_base_builder src en fx p)"
    unfolding ais_base_builder_def Let_def by (rule keys_rules)+
  then show ?thesis by (simp add: ais_attributes_def ais_metadata_def)
qed

lemma ais_builder_fields:
  "b_id (ais_base_builder src en fx p) = Some (uuid fx)"
  "b_source_id (ais_base_builder src en fx p) = src" "b_entity_type (ais_base_builder src en fx p) = ''mim:vessel''"
  "b_policy_tags (ais_base_builder src en fx p) = []" "b_confidence (ais_base_builder src en fx p) = FNum False 0"
  "b_payload (ais_base_builder src en fx p) = p_raw p"
  "b_location (ais_base_builder src en fx p) = (case (p_lat p, p_lon p) of
     (Some lat, Some lon) \<Rightarrow> Some \<lparr>latitude = lat, longitude = lon, altitude_m = f64_of_int 0\<rparr> | _ \<Rightarrow> None)"
  by (simp_all add: ais_base_builder_def Let_def eb_new_id_def eb_payload_def eb_location_def eb_new_def
      split: option.split)

lemma ais_keys_small:
  "distinct ais_attributes" "distinct ais_metadata" "length ais_attributes \<le> MAX_ATTRIBUTES"
  "length ais_metadata \<le> MAX_METADATA" "is_namespaced ''mim:vessel''"
  "filter (\<lambda>k. \<not> governs ONTOLOGY ''mim:vessel'' k) ais_attributes = [''rate_of_turn'', ''vessel_type'', ''vessel_name'']"
  by code_simp+

section \<open>Checksums\<close>

lemma is_char_boundary_append: "is_char_boundary (u @ s) (length u + i) = is_char_boundary s i"
  by (simp add: is_char_boundary_def)

lemma str_get_range_append: "str_get_range (u @ s) (length u + a) (length u + b) = str_get_range s a b"
  by (simp add: str_get_range_def is_char_boundary_append slice_range_def)

lemma rfind_char_last: "c \<notin> set v \<Longrightarrow> rfind_char c (u @ c # v) = Some (length u)"
proof -
  assume "c \<notin> set v"
  then have "rfind_char c v = None" by (induction v) auto
  then have "rfind_char c (c # v) = Some 0" by simp
  then show ?thesis by (induction u) auto
qed

definition checksum_text :: "str \<Rightarrow> int option" where
  "checksum_text hh = Option.bind (str_get_range hh 0 2) (parse_uint 16 255)"

lemma verify_checksum_body:
  assumes "CHR ''*'' \<notin> set hh"
  shows "verify_checksum (c # body @ CHR ''*'' # hh)
    = (if checksum_text hh = Some (uint (xor_bytes body)) then Inr () else Inl Checksum)"
proof -
  let ?s = "c # body @ CHR ''*'' # hh"
  have r: "rfind_char CHR ''*'' ?s = Some (Suc (length body))"
    using rfind_char_last [OF assms, of "c # body"] by simp
  have g: "str_get_range ?s (Suc (length body) + 1) (Suc (length body) + 3) = str_get_range hh 0 2"
    using str_get_range_append [of "c # body @ [CHR ''*'']" hh 0 2] by (simp add: numeral_eq_Suc)
  have t: "take (Suc (length body) - 1) (drop 1 ?s) = body" by simp
  show ?thesis
    unfolding verify_checksum_def r ok_or_def option.case try_bind_simps g t checksum_text_def
    by (auto simp: ok_or_def split: option.split)
qed

lemma xor_bytes_fold: "fold (\<lambda>b a. a XOR b) bs (x :: u8) = x XOR fold (\<lambda>b a. a XOR b) bs 0"
proof (induction bs arbitrary: x)
  case (Cons b bs)
  show ?case using Cons [of "x XOR b"] Cons [of b] by (simp add: xor.assoc)
qed simp

lemma xor_bytes_split: "xor_bytes (u @ c # v) = xor_bytes (u @ v) XOR of_char c"
proof -
  have a: "xor_bytes (x @ y) = xor_bytes x XOR xor_bytes y" for x y
    using xor_bytes_fold [of "as_bytes y" "xor_bytes x"] by (simp add: xor_bytes_def)
  have "xor_bytes [c] = of_char c" by (simp add: xor_bytes_def as_bytes_def)
  then show ?thesis using a [of u "[c] @ v"] a [of "[c]" v] a [of u v] by (simp add: xor.assoc xor.commute xor.left_commute)
qed

lemma xor_bytes_change:
  assumes "x \<noteq> c" shows "xor_bytes (u @ x # v) \<noteq> xor_bytes (u @ c # v)"
proof
  assume "xor_bytes (u @ x # v) = xor_bytes (u @ c # v)"
  then have "xor_bytes (u @ v) XOR (xor_bytes (u @ v) XOR of_char x) = xor_bytes (u @ v) XOR (xor_bytes (u @ v) XOR of_char c)"
    by (simp add: xor_bytes_split)
  then have "(of_char x :: u8) = of_char c" by (simp add: xor.assoc [symmetric])
  then have "x = c" by (metis char_of_uint_of_char)
  with assms show False ..
qed

section \<open>Reassembly\<close>

record fragment =
  fr_time :: nat
  fr_key :: reasm_key
  fr_count :: u8
  fr_num :: u8
  fr_payload :: str
  fr_raw :: bytes

text \<open>The fragments of a feed, one after the other, each with what it completes.\<close>

fun feed :: "fragment list \<Rightarrow> (reasm_key \<rightharpoonup> pending_msg) \<Rightarrow> (fragment \<times> pending_msg option) list" where
  "feed [] pend = []"
| "feed (x # xs) pend =
     (let (pend', r) = reassemble (fr_time x) (fr_key x) (fr_count x) (fr_num x) (fr_payload x) (fr_raw x) pend
      in (x, r) # feed xs pend')"

definition results_of :: "reasm_key \<Rightarrow> (fragment \<times> pending_msg option) list \<Rightarrow> pending_msg option list" where
  "results_of k rs = map snd (filter (\<lambda>(x, _). fr_key x = k) rs)"

text \<open>The message after its first fragments.\<close>

definition partial :: "fragment list \<Rightarrow> nat \<Rightarrow> pending_msg" where
  "partial own i = \<lparr>pm_total = of_nat (length own), pm_payload = concat (map fr_payload (take i own)),
     pm_raws = map fr_raw (take i own), pm_first_seen = fr_time (own ! 0)\<rparr>"

definition in_order :: "fragment list \<Rightarrow> bool" where
  "in_order own \<longleftrightarrow> 2 \<le> length own \<and> length own \<le> 255
     \<and> (\<forall>i < length own. fr_count (own ! i) = of_nat (length own) \<and> fr_num (own ! i) = of_nat (i + 1))"

definition fresh_at :: "fragment list \<Rightarrow> nat \<Rightarrow> bool" where
  "fresh_at own now \<longleftrightarrow> now - fr_time (own ! 0) < REASM_TTL"

lemma reassemble_foreign:
  assumes "reassemble (fr_time x) (fr_key x) fc fn pl raw pend = (pend', r)" "fr_key x \<noteq> k"
    "pend k = Some (partial own i)" "fresh_at own (fr_time x)"
  shows "pend' k = Some (partial own i)"
  using assms
  by (auto simp: reassemble_def Let_def retain_fresh_def filter_option_def fresh_at_def partial_def split: if_splits option.splits)

lemma take_Suc_map: "i < length xs \<Longrightarrow> map f (take (Suc i) xs) = map f (take i xs) @ [f (xs ! i)]"
  by (simp add: take_Suc_conv_app_nth)

lemma reassemble_own:
  assumes "in_order own" "i < length own" "x = own ! i" "fr_key x = k" "fresh_at own (fr_time x)"
    and "0 < i \<Longrightarrow> pend k = Some (partial own i)"
    and "reassemble (fr_time x) (fr_key x) (fr_count x) (fr_num x) (fr_payload x) (fr_raw x) pend = (pend', r)"
  shows "if Suc i < length own then r = None \<and> pend' k = Some (partial own (Suc i))
         else r = Some (partial own (Suc i))"
proof -
  have fc: "fr_count x = of_nat (length own)" "fr_num x = of_nat (Suc i)" and n: "length own \<le> 255" "2 \<le> length own"
    using assms(1-3) by (auto simp: in_order_def)
  have u: "unat (fr_num x) = Suc i" "unat (fr_count x) = length own"
    unfolding fc by (rule unat_of_nat_u8; use assms(2) n in linarith)+
  have lt: "fr_num x < fr_count x \<longleftrightarrow> Suc i < length own" by (simp add: word_less_nat_alt u)
  have one: "fr_num x = 1 \<longleftrightarrow> i = 0" 
    by (simp add: word_eq_iff_unsigned [where ?'a = nat] u(1))
  have step: "(partial own i)\<lparr>pm_payload := pm_payload (partial own i) @ fr_payload x, pm_raws := pm_raws (partial own i) @ [fr_raw x]\<rparr>
      = partial own (Suc i)"
    using assms(2,3) by (simp add: partial_def take_Suc_map)
  show ?thesis
  proof (cases "i = 0")
    case True
    have "pending_new (fr_count x) (fr_time x) = partial own 0" using assms(3) True fc by (simp add: pending_new_def partial_def)
    with True one step lt assms(4,7) show ?thesis by (auto simp: reassemble_def Let_def split: if_splits)
  next
    case False
    then have p: "retain_fresh (fr_time x) pend k = Some (partial own i)"
      using assms(5,6) by (simp add: retain_fresh_def filter_option_def fresh_at_def partial_def)
    have "continues (partial own i) (fr_count x) (fr_num x)"
      using assms(2) fc(1) u by (simp add: continues_def partial_def)
    with False p one step lt assms(4,7) show ?thesis
      by (auto simp: reassemble_def Let_def filter_option_def split: if_splits)
  qed
qed

lemma feed_in_order:
  assumes "in_order own" "i \<le> length own" "filter (\<lambda>x. fr_key x = k) xs = drop i own"
    and "\<forall>x \<in> set xs. fresh_at own (fr_time x)"
    and "0 < i \<Longrightarrow> i < length own \<Longrightarrow> pend k = Some (partial own i)"
  shows "results_of k (feed xs pend)
    = (if i = length own then [] else replicate (length own - 1 - i) None @ [Some (partial own (length own))])"
  using assms(2-)
proof (induction xs arbitrary: i pend)
  case Nil
  then show ?case by (simp add: results_of_def)
next
  case (Cons x xs)
  obtain pend' r where st: "reassemble (fr_time x) (fr_key x) (fr_count x) (fr_num x) (fr_payload x) (fr_raw x) pend = (pend', r)"
    by force
  have fresh: "fresh_at own (fr_time x)" "\<forall>x \<in> set xs. fresh_at own (fr_time x)" using Cons.prems(3) by auto
  show ?case
  proof (cases "fr_key x = k")
    case False
    have "results_of k (feed (x # xs) pend) = results_of k (feed xs pend')" using False st by (simp add: results_of_def)
    moreover have "0 < i \<Longrightarrow> i < length own \<Longrightarrow> pend' k = Some (partial own i)"
      using reassemble_foreign [OF st False _ fresh(1)] Cons.prems(4) by blast
    ultimately show ?thesis using Cons.IH [of i pend'] Cons.prems False fresh by simp
  next
    case True
    then have d: "drop i own = x # filter (\<lambda>x. fr_key x = k) xs" using Cons.prems(2) by simp
    then have i: "i < length own" "x = own ! i" "filter (\<lambda>x. fr_key x = k) xs = drop (Suc i) own"
      using drop_all [of own i] nth_via_drop [OF d] by (simp_all add: drop_Suc drop_tl not_le [symmetric]) (auto simp: not_le [symmetric])
    have res: "results_of k (feed (x # xs) pend) = r # results_of k (feed xs pend')" using True st by (simp add: results_of_def)
    note own = reassemble_own [OF assms(1) i(1,2) True fresh(1) _ st]
    show ?thesis
    proof (cases "Suc i < length own")
      case True
      with own Cons.prems(4) i(1) have "r = None" "pend' k = Some (partial own (Suc i))" by (auto split: if_splits)
      moreover have "length own - 1 - i = Suc (length own - 1 - Suc i)" using True by linarith
      ultimately show ?thesis using res Cons.IH [of "Suc i" pend'] i fresh True by simp
    next
      case False
      with i(1) have n: "Suc i = length own" by simp
      with own Cons.prems(4) i(1) have "r = Some (partial own (Suc i))" by (auto split: if_splits)
      with res n Cons.IH [of "length own" pend'] i fresh show ?thesis by simp
    qed
  qed
qed

section \<open>Positions\<close>

definition position_ok :: "ais_position \<Rightarrow> bool" where
  "position_ok p \<longleftrightarrow> (\<forall>lat. p_lat p = Some lat \<longrightarrow> f64_within (f64_of_int (-90)) (f64_of_int 90) lat)
     \<and> (\<forall>lon. p_lon p = Some lon \<longrightarrow> f64_within (f64_of_int (-180)) (f64_of_int 180) lon)"

lemma position_location_ok:
  assumes "position_ok p" "p_lat p = Some lat" "p_lon p = Some lon"
  shows "location_ok \<lparr>latitude = lat, longitude = lon, altitude_m = f64_of_int 0\<rparr>"
proof -
  have e: "f64_of_int (-90) = FNum True 90" "f64_of_int 90 = FNum False 90" "f64_of_int (-180) = FNum True 180"
      "f64_of_int 180 = FNum False 180" "f64_of_int 0 = FNum False 0"
    using f64_of_int_exact [of "-90"] f64_of_int_exact [of 90] f64_of_int_exact [of "-180"] f64_of_int_exact [of 180]
      f64_of_int_exact [of 0] by simp_all
  from assms have w: "f64_within (f64_of_int (-90)) (f64_of_int 90) lat" "f64_within (f64_of_int (-180)) (f64_of_int 180) lon"
    by (simp_all add: position_ok_def)
  then have "is_finite lat" "is_finite lon" unfolding e by (auto dest: f64_within_finite)
  with w e(5) show ?thesis by (simp add: location_ok_def)
qed

lemma position_fields_ok: "position_ok (position_fields b ty mmsi lay ident)"
  by (cases lay) (auto simp: position_ok_def position_fields_def filter_option_Some_iff)

text \<open>What a call leaves alone.\<close>

lemma merge_identity_fixed [simp]:
  "ap_source_id (merge_identity m n c s i st) = ap_source_id st" "ap_enrichment (merge_identity m n c s i st) = ap_enrichment st"
  "ap_carry (merge_identity m n c s i st) = ap_carry st" "ap_dropped (merge_identity m n c s i st) = ap_dropped st"
  by (simp_all add: merge_identity_def Let_def split: prod.split)

lemma statics_fixed [simp]:
  "ap_source_id (static_class_a b m st) = ap_source_id st" "ap_enrichment (static_class_a b m st) = ap_enrichment st"
  "ap_source_id (static_class_b b m st) = ap_source_id st" "ap_enrichment (static_class_b b m st) = ap_enrichment st"
  by (simp_all add: static_class_a_def static_class_b_def Let_def)

lemma vessel_position_fixed:
  assumes "vessel_position b ty m lay st = (st', p)"
  shows "ap_source_id st' = ap_source_id st \<and> ap_enrichment st' = ap_enrichment st \<and> position_ok p"
  using assms by (auto simp: vessel_position_def Let_def position_fields_ok split: if_splits)

lemma decode_spec:
  assumes "decode b raws st = Some (st', r)"
  shows "ap_source_id st' = ap_source_id st \<and> ap_enrichment st' = ap_enrichment st
    \<and> (\<forall>p. r = Inr (Some p) \<longrightarrow> position_ok p)"
  using assms
  by (auto simp: decode_def Let_def position_ok_def dest!: vessel_position_fixed split: if_splits option.splits prod.splits)

lemma decode_total: "bits_wf b \<Longrightarrow> decode b raws st \<noteq> None"
proof -
  assume w: "bits_wf b"
  show ?thesis
  proof (cases "valid_bits b < 38")
    case False
    then have "0 + 6 \<le> 6 * length (six b)" "8 + 30 \<le> 6 * length (six b)" using w by (auto simp: bits_wf_def)
    with bits_u_value [of 0 6 b] bits_u_value [of 8 30 b]
    obtain t m where "bits_u b 0 6 = Some t" "bits_u b 8 30 = Some m" by auto
    with False show ?thesis by (simp add: decode_def Let_def split: option.split prod.split)
  qed (simp add: decode_def)
qed

lemma parse_sentence_cases:
  assumes "parse_sentence fx frame st = res"
  obtains (finished) st' r where "res = Some (st', r)" "st'\<lparr>ap_pending := ap_pending st\<rparr> = st" "\<nexists>p. r = Inr (Some p)"
  | (decoded) pl fill b raws st0 where "res = decode b raws st0" "from_payload pl fill = Inr b"
      "st0\<lparr>ap_pending := ap_pending st\<rparr> = st"
proof -
  have s: "st\<lparr>ap_pending := ap_pending st\<rparr> = st" by simp
  show thesis
    using assms s
    by (auto simp: parse_sentence_def Let_def split: option.splits if_splits sum.splits prod.splits
        intro: finished decoded)
qed

lemma parse_sentence_spec:
  assumes "parse_sentence fx frame st = Some (st', Inr (Some p))"
  shows "ap_source_id st' = ap_source_id st \<and> ap_enrichment st' = ap_enrichment st \<and> position_ok p"
  using assms
proof (cases rule: parse_sentence_cases)
  case (decoded pl fill b raws st0)
  have "ap_source_id (st0\<lparr>ap_pending := ap_pending st\<rparr>) = ap_source_id st"
      "ap_enrichment (st0\<lparr>ap_pending := ap_pending st\<rparr>) = ap_enrichment st"
    using decoded(3) by simp_all
  with decode_spec [OF decoded(1) [symmetric]] show ?thesis by simp
qed auto

lemma parse_sentence_total: "parse_sentence fx frame st \<noteq> None"
proof -
  obtain res where res: "parse_sentence fx frame st = res" by simp
  then show ?thesis
  proof (cases rule: parse_sentence_cases)
    case (decoded pl fill b raws st0)
    with res show ?thesis using decode_total from_payload_wf by metis
  qed (use res in auto)
qed

lemma ais_event_of_position:
  assumes "position_ok p" "ap_source_id st \<noteq> []" "is_rfc3339 (wall_clock fx)"
  shows "\<exists>e. ais_frame_event fx st p = Inr [e] \<and> canonical_event e \<and> ev_payload e = p_raw p
    \<and> set (ungoverned ONTOLOGY e) \<subseteq> {''rate_of_turn'', ''vessel_type'', ''vessel_name''}"
proof -
  let ?b = "eb_now (wall_clock fx) (ais_base_builder (ap_source_id st) (ap_enrichment st) fx p)"
  note fields = ais_builder_fields [of "ap_source_id st" "ap_enrichment st" fx p]
  have keys: "keys_within ais_attributes ais_metadata ?b" by (intro keys_setters keys_ais)
  have f: "b_id ?b = Some (uuid fx)" "b_timestamp ?b = Some (wall_clock fx)" "b_source_id ?b = ap_source_id st"
      "b_entity_type ?b = ''mim:vessel''" "b_policy_tags ?b = []" "b_confidence ?b = FNum False 0" "b_payload ?b = p_raw p"
      "b_location ?b = b_location (ais_base_builder (ap_source_id st) (ap_enrichment st) fx p)"
    by (simp_all add: fields eb_now_def)
  have "\<forall>loc. b_location ?b = Some loc \<longrightarrow> location_ok loc"
    using position_location_ok [OF assms(1)] by (auto simp: f(8) fields(7) split: option.splits)
  with assms(2,3) have "buildable ?b"
    using keys_within_builds [OF keys ais_keys_small(1-4) f(5,6), unfolded f(4), OF ais_keys_small(5)]
    by (simp add: f)
  moreover have "set (ungoverned ONTOLOGY (built_event ?b)) \<subseteq> {''rate_of_turn'', ''vessel_type'', ''vessel_name''}"
    using ungoverned_within [OF keys ais_keys_small(1,2), of ONTOLOGY] unfolding f(4) ais_keys_small(6) by simp
  moreover have "ev_payload (built_event ?b) = p_raw p" by (simp add: built_event_def f)
  ultimately show ?thesis
    by (auto simp: ais_frame_event_def build_Inr_iff [THEN iffD2] dest: buildable_canonical)
qed

lemma split_char_subset: "t \<in> set (split_char c s) \<Longrightarrow> set t \<subseteq> set s"
proof (induction s arbitrary: t)
  case (Cons x s)
  then show ?case by (cases "split_char c s") (fastforce split: if_splits)+
qed simp

lemma strip_tag_block_subset: "set (strip_tag_block s) \<subseteq> set s"
  by (auto simp: strip_tag_block_def strip_prefix_def dest: in_set_dropD split: option.splits if_splits)

lemma sentence_fields_ascii: "is_ascii s \<Longrightarrow> list_all is_ascii (sentence_fields s)"
proof -
  assume a: "is_ascii s"
  have "set t \<subseteq> set s" if "t \<in> set (sentence_fields s)" for t
    using that split_char_subset [of t] by (fastforce simp: sentence_fields_def Let_def dest: in_set_takeD in_set_dropD)
  with a show ?thesis by (auto simp: list_all_iff intro: is_ascii_subset)
qed

lemma radar_sentence_ascii:
  assumes "radar_sentence frame = Some s" "list_all (\<lambda>b. b < 0x80) frame"
  shows "is_ascii s"
proof -
  from assms(1) obtain msg where t: "from_utf8 frame = Some msg" "s = strip_tag_block (trim msg)"
    by (auto simp: radar_sentence_def bind_eq_Some_conv filter_option_Some_iff)
  then have "as_bytes msg = frame" by (auto simp: from_utf8_def split: if_splits)
  with assms(2) have "is_ascii msg" by (auto simp: is_ascii_def as_bytes_def list_all_iff)
  then show ?thesis unfolding t(2) by (rule is_ascii_subset) (use strip_tag_block_subset set_trim in fast)
qed

section \<open>The parser interface\<close>

lemma parse_sentence_source:
  assumes "parse_sentence fx frame st = Some (st', r)"
  shows "ap_source_id st' = ap_source_id st"
  using assms
proof (cases rule: parse_sentence_cases)
  case finished
  then have "ap_source_id (st'\<lparr>ap_pending := ap_pending st\<rparr>) = ap_source_id st" by simp
  then show ?thesis by simp
next
  case (decoded pl fill b raws st0)
  then have "ap_source_id (st0\<lparr>ap_pending := ap_pending st\<rparr>) = ap_source_id st" by simp
  with decode_spec [OF decoded(1) [symmetric]] show ?thesis by simp
qed

interpretation ais_frames: frame_parser "ais_parse m" ap_source_id
proof
  fix fx frame st st' r
  assume "ais_parse m fx frame st = Some (st', r)"
  then show "ap_source_id st' = ap_source_id st"
    by (auto simp: ais_parse_def parse_radar_def split: option.splits sum.splits dest: parse_sentence_source)
next
  fix fx frame st st' es e
  assume p: "ais_parse m fx frame st = Some (st', Inr es)" and e: "e \<in> set es"
  show "canonical_event e \<and> ev_source_id e = ap_source_id st"
  proof (cases "radar_sentence frame")
    case None
    with p e obtain pos where s: "parse_sentence fx frame st = Some (st', Inr (Some pos))" "ais_frame_event fx st' pos = Inr es"
      by (auto simp: ais_parse_def split: option.splits sum.splits)
    from s(2) e have b: "build (eb_now (wall_clock fx) (ais_base_builder (ap_source_id st') (ap_enrichment st') fx pos)) = Inr e"
      by (auto simp: ais_frame_event_def split: sum.splits)
    then have "ev_source_id e = ap_source_id st'" by (auto simp: build_Inr_iff built_event_def eb_now_def ais_builder_fields)
    with b parse_sentence_source [OF s(1)] show ?thesis by (auto simp: build_Inr_iff dest: buildable_canonical)
  next
    case (Some s)
    with p e obtain t where "ttm_to_event (ap_source_id st) (ap_enrichment st) fx t = Inr e"
      by (auto simp: ais_parse_def parse_radar_def split: option.splits sum.splits)
    then have "buildable (ttm_builder (ap_source_id st) (ap_enrichment st) fx t)"
        "e = built_event (ttm_builder (ap_source_id st) (ap_enrichment st) fx t)"
      by (simp_all add: ttm_to_event_def build_Inr_iff)
    then show ?thesis by (auto simp: built_event_def ttm_builder_fields dest: buildable_canonical)
  qed
qed

section \<open>Properties\<close>

text \<open>A position report always becomes an event: with a configured source and a clock that renders
  RFC 3339, the event of every position that \<open>parse_sentence\<close> returns is built, canonical, carries
  the raw sentences as its payload, and no attribute that \<open>mim:vessel\<close> does not declare except
  \<open>rate_of_turn\<close>, \<open>vessel_type\<close> and \<open>vessel_name\<close>.\<close>

theorem ais_position_builds:
  assumes "parse_sentence fx frame st = Some (st', Inr (Some p))" "ap_source_id st \<noteq> []" "is_rfc3339 (wall_clock fx)"
  shows "\<exists>e. ais_frame_event fx st' p = Inr [e] \<and> canonical_event e \<and> ev_payload e = p_raw p
    \<and> set (ungoverned ONTOLOGY e) \<subseteq> {''rate_of_turn'', ''vessel_type'', ''vessel_name''}"
  using parse_sentence_spec [OF assms(1)] ais_event_of_position [OF _ _ assms(3), of p st'] assms(2) by simp

text \<open>C34. A message sent in fragments is reassembled: when the feed delivers its fragments in order,
  interleaved with any fragments of other messages and all before the message is ten seconds old,
  each fragment but the last yields nothing and the last yields the message with the payloads and
  the raw sentences joined in order, whatever was pending before.\<close>

theorem ais_reassembly:
  assumes "filter (\<lambda>x. fr_key x = k) xs = own" "in_order own" "\<forall>x \<in> set xs. fresh_at own (fr_time x)"
  shows "results_of k (feed xs pend) = replicate (length own - 1) None
    @ [Some \<lparr>pm_total = of_nat (length own), pm_payload = concat (map fr_payload own), pm_raws = map fr_raw own,
             pm_first_seen = fr_time (own ! 0)\<rparr>]"
proof -
  have "own \<noteq> []" using assms(2) by (auto simp: in_order_def)
  with feed_in_order [OF assms(2), of 0 k xs pend] assms(1,3) show ?thesis by (simp add: partial_def)
qed

text \<open>The sentence checksum detects every change of one character between the start and the
  checksum.\<close>

theorem checksum_detects_one_change:
  assumes "verify_checksum (start # u @ c # v @ CHR ''*'' # hh) = Inr ()" "CHR ''*'' \<notin> set hh" "x \<noteq> c"
  shows "verify_checksum (start # u @ x # v @ CHR ''*'' # hh) = Inl Checksum"
  using assms xor_bytes_change [OF assms(3), of u v]
    verify_checksum_body [OF assms(2), of start "u @ c # v"] verify_checksum_body [OF assms(2), of start "u @ x # v"]
  by (auto simp: word_eq_iff_unsigned [where ?'a = int] split: if_splits)

text \<open>On ASCII input the connector never panics: \<open>parse\<close> returns on every frame and state.\<close>

theorem ais_parse_ascii_total:
  assumes "list_all (\<lambda>b. b < 0x80) frame"
  shows "ais_parse m fx frame st \<noteq> None"
proof (cases "radar_sentence frame")
  case None
  with parse_sentence_total [of fx frame st] show ?thesis by (auto simp: ais_parse_def)
next
  case (Some s)
  then have "list_all is_ascii (sentence_fields s)" using assms radar_sentence_ascii sentence_fields_ascii by blast
  from ttm_handle_ascii [OF this, of m "instant fx" "as_bytes s" "ap_radar st"] Some show ?thesis
    by (auto simp: ais_parse_def parse_radar_def split: option.splits sum.splits)
qed

text \<open>Outside ASCII it can: a position sentence of the bus with a valid checksum whose latitude
  field starts with a two-byte character panics in \<open>parse_coord\<close>, which cuts the field inside it.\<close>

lemma ais_parse_panics:
  "from_utf8 (map of_nat [36, 71, 80, 71, 71, 65, 44, 44, 195, 169, 49, 46, 53, 44, 78, 44, 48, 48, 48, 48, 48, 46, 48, 44, 69, 44, 49, 42, 48, 50]) \<noteq> None
   \<and> ais_parse flat_libm ex_effects
       (map of_nat [36, 71, 80, 71, 71, 65, 44, 44, 195, 169, 49, 46, 53, 44, 78, 44, 48, 48, 48, 48, 48, 46, 48, 44, 69, 44, 49, 42, 48, 50])
       (ais_new ''ais-1'' \<lparr>hostility = None\<rparr>) = None"
proof -
  have "Option.is_none (ais_parse flat_libm ex_effects
       (map of_nat [36, 71, 80, 71, 71, 65, 44, 44, 195, 169, 49, 46, 53, 44, 78, 44, 48, 48, 48, 48, 48, 46, 48, 44, 69, 44, 49, 42, 48, 50])
       (ais_new ''ais-1'' \<lparr>hostility = None\<rparr>))" by code_simp
  moreover have "from_utf8 (map of_nat [36, 71, 80, 71, 71, 65, 44, 44, 195, 169, 49, 46, 53, 44, 78, 44, 48, 48, 48, 48, 48, 46, 48, 44, 69, 44, 49, 42, 48, 50]) \<noteq> None"
    by code_simp
  ultimately show ?thesis by (simp only: Option.is_none_def simp_thms)
qed

section \<open>Witnesses\<close>

definition ex_ais :: ais_parser where
  "ex_ais = ais_new ''ais-1'' \<lparr>hostility = None\<rparr>"

definition ex_text :: str where
  "ex_text = ''!AIVDM,1,1,,A,13HOI:0P0000VOHLCnHQKwvL05Ip,0*23''"

definition ex_bits :: bits where
  "ex_bits = (case from_payload ''13HOI:0P0000VOHLCnHQKwvL05Ip'' 0 of Inr b \<Rightarrow> b | Inl _ \<Rightarrow> \<lparr>six = [], valid_bits = 0\<rparr>)"

lemma ex_text_parts:
  "from_utf8 (as_bytes ex_text) = Some ex_text" "trim ex_text = ex_text" "strip_tag_block ex_text = ex_text"
  "is_sentence ex_text" "verify_checksum ex_text = Inr ()"
  "sentence_fields ex_text = [''AIVDM'', ''1'', ''1'', [], ''A'', ''13HOI:0P0000VOHLCnHQKwvL05Ip'', ''0'']"
  "ends_with ''AIVDM'' ''VDM''" "parse_uint 10 255 ''1'' = Some 1" "parse_uint 10 255 ''0'' = Some 0"
  by code_simp+

lemma ex_bits_parts: "from_payload ''13HOI:0P0000VOHLCnHQKwvL05Ip'' 0 = Inr ex_bits" "valid_bits ex_bits = 168"
  "bits_u ex_bits 0 6 = Some 1"
  by code_simp+

lemma decode_class_a:
  assumes "bits_wf b" "38 \<le> valid_bits b" "bits_u b 0 6 = Some 1"
  shows "\<exists>st' p. decode b raws st = Some (st', Inr (Some p))"
proof -
  have "8 + 30 \<le> 6 * length (six b)" using assms(1,2) by (auto simp: bits_wf_def)
  with bits_u_value [of 8 30 b] obtain m where "bits_u b 8 30 = Some m" by auto
  moreover have "layout_of 1 = Some ClassA" by (simp add: layout_of_def)
  ultimately show ?thesis using assms by (simp add: decode_def Let_def split: prod.split)
qed

lemma ex_sentence: "\<exists>st' p. parse_sentence ex_effects (as_bytes ex_text) ex_ais = Some (st', Inr (Some p))"
proof -
  have "parse_sentence ex_effects (as_bytes ex_text) ex_ais = decode ex_bits [as_bytes ex_text] ex_ais"
    by (simp add: parse_sentence_def ex_text_parts ex_bits_parts Let_def)
  moreover have "bits_wf ex_bits" using from_payload_wf ex_bits_parts(1) by blast
  ultimately show ?thesis using decode_class_a [OF _ _ ex_bits_parts(3)] by (simp add: ex_bits_parts(2))
qed

theorem ais_position_builds_witness:
  "\<exists>st' p e. parse_sentence ex_effects (as_bytes ex_text) ex_ais = Some (st', Inr (Some p))
     \<and> ais_frame_event ex_effects st' p = Inr [e] \<and> canonical_event e"
proof -
  obtain st' p where p: "parse_sentence ex_effects (as_bytes ex_text) ex_ais = Some (st', Inr (Some p))"
    using ex_sentence by blast
  have "ap_source_id ex_ais \<noteq> []" by (simp add: ex_ais_def ais_new_def)
  from ais_position_builds [OF p this ex_effects_clock] p show ?thesis by blast
qed

definition ex_fragments :: "fragment list" where
  "ex_fragments = map (\<lambda>(k, n, t). \<lparr>fr_time = t, fr_key = \<lparr>talker = ''AIVDM'', channel = k, seq = 0\<rparr>, fr_count = 2, fr_num = n,
       fr_payload = k, fr_raw = []\<rparr>) [(''A'', 1, 0), (''B'', 1, 1), (''B'', 2, 2), (''A'', 2, 3)]"

theorem ais_reassembly_witness:
  "results_of \<lparr>talker = ''AIVDM'', channel = ''A'', seq = 0\<rparr> (feed ex_fragments (\<lambda>_. None))
     = [None, Some \<lparr>pm_total = 2, pm_payload = ''AA'', pm_raws = [[], []], pm_first_seen = 0\<rparr>]"
proof -
  let ?k = "\<lparr>talker = ''AIVDM'', channel = ''A'', seq = 0\<rparr>"
  let ?own = "filter (\<lambda>x. fr_key x = ?k) ex_fragments"
  have own: "?own = [\<lparr>fr_time = 0, fr_key = ?k, fr_count = 2, fr_num = 1, fr_payload = ''A'', fr_raw = []\<rparr>,
      \<lparr>fr_time = 3, fr_key = ?k, fr_count = 2, fr_num = 2, fr_payload = ''A'', fr_raw = []\<rparr>]"
    by (simp add: ex_fragments_def)
  have "in_order ?own" unfolding own by (auto simp: in_order_def less_Suc_eq)
  moreover have "\<forall>x \<in> set ex_fragments. fresh_at ?own (fr_time x)"
    unfolding own by (simp add: ex_fragments_def fresh_at_def REASM_TTL_def)
  ultimately show ?thesis using ais_reassembly [OF refl, of ?k ex_fragments "\<lambda>_. None"] unfolding own by simp
qed

theorem checksum_detects_one_change_witness:
  "verify_checksum ''!AC*02'' = Inr () \<and> verify_checksum ''!BC*02'' = Inl Checksum"
proof -
  have "verify_checksum ''!AC*02'' = Inr ()" by code_simp
  with checksum_detects_one_change [of "CHR ''!''" "[]" "CHR ''A''" "''C''" "''02''" "CHR ''B''"] show ?thesis by simp
qed

theorem ais_parse_ascii_total_witness: "ais_parse flat_libm ex_effects (as_bytes ex_text) ex_ais \<noteq> None"
proof -
  have "list_all (\<lambda>b. b < 0x80) (as_bytes ex_text)" by code_simp
  from ais_parse_ascii_total [OF this] show ?thesis .
qed

end
