(* ===== verification/Mav_Messages.thy ===== *)
theory Mav_Messages
  imports Connector
begin

text \<open>
  \<open>rust/connectors/mavlink/src/mavlink/messages.rs\<close>: the CRC and the payload decoders of the
  MAVLink messages. The little-endian readers are \<open>None\<close> where the source indexes past the payload
  and panics; a decoder that updates the snapshot of a vehicle inherits it. Signed integers are
  \<open>int\<close>. The lemmas show that the CRC detects every change of one byte and that on a payload of
  the message's full length no decoder panics.
\<close>

section \<open>The vehicle snapshot\<close>

record vehicle_state =
  vehicle_type :: "str option"
  status :: "str option"
  armed :: "bool option"
  mode :: "str option"
  custom_mode :: "u32 option"
  roll_deg :: "f64 option"
  pitch_deg :: "f64 option"
  yaw_deg :: "f64 option"
  airspeed_mps :: "f64 option"
  throttle_pct :: "u16 option"
  climb_mps :: "f64 option"
  battery_voltage_v :: "f64 option"
  battery_current_a :: "f64 option"
  battery_remaining_pct :: "int option"
  battery_consumed_mah :: "int option"
  battery_temp_c :: "f64 option"
  cpu_load_pct :: "f64 option"
  gps_fix :: "str option"
  gps_sats :: "u8 option"
  gps_hdop :: "f64 option"
  gps_h_acc_m :: "f64 option"
  gps_v_acc_m :: "f64 option"
  gps_vel_acc_mps :: "f64 option"
  gps_hdg_acc_deg :: "f64 option"

definition vehicle_state_default :: vehicle_state where
  "vehicle_state_default = \<lparr>vehicle_type = None, status = None, armed = None, mode = None, custom_mode = None,
     roll_deg = None, pitch_deg = None, yaw_deg = None, airspeed_mps = None, throttle_pct = None, climb_mps = None,
     battery_voltage_v = None, battery_current_a = None, battery_remaining_pct = None, battery_consumed_mah = None,
     battery_temp_c = None, cpu_load_pct = None, gps_fix = None, gps_sats = None, gps_hdop = None, gps_h_acc_m = None,
     gps_v_acc_m = None, gps_vel_acc_mps = None, gps_hdg_acc_deg = None\<rparr>"

section \<open>CRC\<close>

definition crc_extra_and_len :: "u32 \<Rightarrow> (u8 \<times> nat) option" where
  "crc_extra_and_len msg_id =
     (if msg_id = 0 then Some (50, 9) else if msg_id = 1 then Some (124, 31)
      else if msg_id = 24 then Some (24, 52) else if msg_id = 30 then Some (39, 28)
      else if msg_id = 33 then Some (104, 28) else if msg_id = 74 then Some (20, 20)
      else if msg_id = 147 then Some (154, 36) else None)"

definition crc_mix :: "u16 \<Rightarrow> u8 \<Rightarrow> u16" where
  "crc_mix h t = h XOR push_bit 8 (ucast t) XOR push_bit 3 (ucast t) XOR drop_bit 4 (ucast t)"

definition crc_accum :: "u8 \<Rightarrow> u16 \<Rightarrow> u16" where
  "crc_accum b crc =
     (let tmp = b XOR ucast (crc AND 0xFF); tmp = tmp XOR push_bit 4 tmp
      in crc_mix (drop_bit 8 crc) tmp)"

definition crc :: "bytes \<Rightarrow> u8 \<Rightarrow> u16" where
  "crc data extra = crc_accum extra (fold crc_accum data 0xFFFF)"

section \<open>Readers\<close>

definition u16le :: "bytes \<Rightarrow> nat \<Rightarrow> u16 option" where
  "u16le b off = do { x0 \<leftarrow> slice_get b off; x1 \<leftarrow> slice_get b (off + 1); Some (u16_from_le x0 x1) }"

definition i16le :: "bytes \<Rightarrow> nat \<Rightarrow> int option" where
  "i16le b off = map_option sint (u16le b off)"

definition u32le :: "bytes \<Rightarrow> nat \<Rightarrow> u32 option" where
  "u32le b off = do { x0 \<leftarrow> slice_get b off; x1 \<leftarrow> slice_get b (off + 1); x2 \<leftarrow> slice_get b (off + 2);
     x3 \<leftarrow> slice_get b (off + 3); Some (u32_from_le x0 x1 x2 x3) }"

definition i32le :: "bytes \<Rightarrow> nat \<Rightarrow> int option" where
  "i32le b off = map_option sint (u32le b off)"

text \<open>\<open>f32le(b, off) as f64\<close>.\<close>

definition f32le :: "bytes \<Rightarrow> nat \<Rightarrow> f64 option" where
  "f32le b off = map_option f64_of_f32_bits (u32le b off)"

definition i8_at :: "bytes \<Rightarrow> nat \<Rightarrow> int option" where
  "i8_at b off = map_option sint (slice_get b off)"

text \<open>A quantity in hundredths, thousandths and so on.\<close>

definition scaled :: "int \<Rightarrow> int \<Rightarrow> f64" where
  "scaled n d = f64_div (f64_of_int n) (f64_of_int d)"

section \<open>Codes\<close>

definition vehicle_type_of :: "u8 \<Rightarrow> str option" where
  "vehicle_type_of t =
     (let c = uint t in
      if c = 1 then Some ''fixed-wing'' else if c \<in> {2, 3, 13, 14, 15} then Some ''multirotor''
      else if c = 4 then Some ''helicopter'' else if c = 7 \<or> c = 8 then Some ''airship''
      else if c = 10 then Some ''ground-vehicle'' else if c = 11 then Some ''surface-vessel''
      else if c = 12 then Some ''submarine'' else if 19 \<le> c \<and> c \<le> 23 then Some ''vtol'' else None)"

definition mav_state :: "u8 \<Rightarrow> str option" where
  "mav_state s = slice_get [''uninitialised'', ''booting'', ''calibrating'', ''standby'', ''active'', ''critical'',
     ''emergency'', ''powering-off'', ''terminating''] (unat s)"

definition base_flag_mode :: "u8 \<Rightarrow> str option" where
  "base_flag_mode base_mode =
     map_option snd (find (\<lambda>(flag, _). base_mode AND flag \<noteq> 0)
       [(0x04, ''auto''), (0x08, ''guided''), (0x10, ''stabilize''), (0x40, ''manual'')])"

definition gps_fix_of :: "u8 \<Rightarrow> str option" where
  "gps_fix_of t = slice_get [''no-gps'', ''no-fix'', ''2d'', ''3d'', ''dgps'', ''rtk-float'', ''rtk-fixed'', ''static'',
     ''ppp''] (unat t)"

section \<open>Messages\<close>

definition heartbeat :: "bytes \<Rightarrow> vehicle_state \<Rightarrow> vehicle_state option" where
  "heartbeat p s = do {
     base_mode \<leftarrow> slice_get p 6; ty \<leftarrow> slice_get p 4; sys \<leftarrow> slice_get p 7;
     custom \<leftarrow> (if base_mode AND 0x01 \<noteq> 0 then map_option Some (u32le p 0) else Some None);
     Some (s\<lparr>vehicle_type := vehicle_type_of ty, status := mav_state sys, armed := Some (base_mode AND 0x80 \<noteq> 0),
             mode := base_flag_mode base_mode, custom_mode := custom\<rparr>) }"

definition sys_status :: "bytes \<Rightarrow> vehicle_state \<Rightarrow> vehicle_state option" where
  "sys_status p s = do {
     load \<leftarrow> u16le p 12; voltage_mv \<leftarrow> u16le p 14; current_ca \<leftarrow> i16le p 16; remaining \<leftarrow> i8_at p 30;
     let s = (if load \<noteq> 0xFFFF then s\<lparr>cpu_load_pct := Some (scaled (uint load) 10)\<rparr> else s);
     let s = (if voltage_mv \<noteq> 0xFFFF then s\<lparr>battery_voltage_v := Some (scaled (uint voltage_mv) 1000)\<rparr> else s);
     let s = (if current_ca \<noteq> -1 then s\<lparr>battery_current_a := Some (scaled current_ca 100)\<rparr> else s);
     Some (if remaining \<noteq> -1 then s\<lparr>battery_remaining_pct := Some remaining\<rparr> else s) }"

definition attitude :: "bytes \<Rightarrow> vehicle_state \<Rightarrow> vehicle_state option" where
  "attitude p s = do {
     roll \<leftarrow> f32le p 4; pitch \<leftarrow> f32le p 8; yaw \<leftarrow> f32le p 12;
     Some (s\<lparr>roll_deg := Some (f64_to_degrees roll), pitch_deg := Some (f64_to_degrees pitch),
             yaw_deg := Some (f64_rem_euclid (f64_to_degrees yaw) (f64_of_int 360))\<rparr>) }"

definition vfr_hud :: "bytes \<Rightarrow> vehicle_state \<Rightarrow> vehicle_state option" where
  "vfr_hud p s = do {
     airspeed \<leftarrow> f32le p 0; climb \<leftarrow> f32le p 12; throttle \<leftarrow> u16le p 18;
     Some (s\<lparr>airspeed_mps := Some airspeed, climb_mps := Some climb, throttle_pct := Some throttle\<rparr>) }"

definition battery_status :: "bytes \<Rightarrow> vehicle_state \<Rightarrow> vehicle_state option" where
  "battery_status p s = do {
     consumed_mah \<leftarrow> i32le p 0; temp_cdeg \<leftarrow> i16le p 8; cell0_mv \<leftarrow> u16le p 10; current_ca \<leftarrow> i16le p 30;
     remaining \<leftarrow> i8_at p 35;
     let s = (if consumed_mah \<noteq> -1 then s\<lparr>battery_consumed_mah := Some consumed_mah\<rparr> else s);
     let s = (if temp_cdeg \<noteq> 32767 then s\<lparr>battery_temp_c := Some (scaled temp_cdeg 100)\<rparr> else s);
     let s = (if cell0_mv \<noteq> 0xFFFF then s\<lparr>battery_voltage_v := Some (scaled (uint cell0_mv) 1000)\<rparr> else s);
     let s = (if current_ca \<noteq> -1 then s\<lparr>battery_current_a := Some (scaled current_ca 100)\<rparr> else s);
     Some (if remaining \<noteq> -1 then s\<lparr>battery_remaining_pct := Some remaining\<rparr> else s) }"

section \<open>The decoders do not panic\<close>

lemma readers_inside:
  "off + 2 \<le> length b \<Longrightarrow> u16le b off \<noteq> None" "off + 2 \<le> length b \<Longrightarrow> i16le b off \<noteq> None"
  "off + 4 \<le> length b \<Longrightarrow> u32le b off \<noteq> None" "off + 4 \<le> length b \<Longrightarrow> i32le b off \<noteq> None"
  "off + 4 \<le> length b \<Longrightarrow> f32le b off \<noteq> None" "off < length b \<Longrightarrow> i8_at b off \<noteq> None"
  by (simp_all add: u16le_def i16le_def u32le_def i32le_def f32le_def i8_at_def)

lemma decoders_total:
  "length p = 9 \<Longrightarrow> heartbeat p s \<noteq> None" "length p = 31 \<Longrightarrow> sys_status p s \<noteq> None"
  "length p = 28 \<Longrightarrow> attitude p s \<noteq> None" "length p = 20 \<Longrightarrow> vfr_hud p s \<noteq> None"
  "length p = 36 \<Longrightarrow> battery_status p s \<noteq> None"
  by (simp_all add: heartbeat_def sys_status_def attitude_def vfr_hud_def battery_status_def Let_def u16le_def
      i16le_def u32le_def i32le_def f32le_def i8_at_def)

section \<open>The CRC detects one changed byte\<close>

lemma bit_u8_ucast: "bit (ucast (t :: u8) :: u16) n \<longleftrightarrow> bit t n"
  by (auto simp: bit_ucast_iff dest: bit_u8_high)

lemma bit_crc_mix:
  "bit (crc_mix h t) n \<longleftrightarrow> n < 16 \<and> (((bit h n \<noteq> (8 \<le> n \<and> bit t (n - 8))) \<noteq> (3 \<le> n \<and> bit t (n - 3))) \<noteq> bit t (4 + n))"
  by (auto simp: crc_mix_def bit_xor_iff bit_push_bit_iff bit_drop_bit_eq bit_u8_ucast dest: bit_imp_le_length)

lemma crc_mix_inj:
  assumes "crc_mix h t = crc_mix h' t'" "\<And>n. 8 \<le> n \<Longrightarrow> \<not> bit h n" "\<And>n. 8 \<le> n \<Longrightarrow> \<not> bit h' n"
  shows "t = t' \<and> h = h'"
proof -
  have b: "bit (crc_mix h t) n = bit (crc_mix h' t') n" for n using assms(1) by simp
  have hi: "bit t j = bit t' j" if "3 \<le> j" for j
  proof (cases "j < 8")
    case True
    then have "\<not> bit t (5 + j)" "\<not> bit t' (5 + j)" "\<not> bit t (12 + j)" "\<not> bit t' (12 + j)"
      using that by (auto dest: bit_u8_high)
    then show ?thesis using b [of "8 + j"] assms(2,3) [of "8 + j"] True that by (simp add: bit_crc_mix add.commute)
  qed (auto dest: bit_u8_high)
  have lo: "bit t j = bit t' j" if "j < 3" for j
  proof -
    have "bit t (5 + j) = bit t' (5 + j)" by (rule hi) simp
    moreover have "\<not> bit t (12 + j)" "\<not> bit t' (12 + j)" by (auto dest: bit_u8_high)
    ultimately show ?thesis using b [of "8 + j"] assms(2,3) [of "8 + j"] that by (auto simp: bit_crc_mix add.commute)
  qed
  have "bit t j = bit t' j" for j using hi [of j] lo [of j] by (cases "j < 3") auto
  then have t: "t = t'" by (intro bit_word_eqI)
  have "bit h j = bit h' j" for j using b [of j] t by (cases "j < 16") (auto simp: bit_crc_mix dest: bit_imp_le_length)
  with t show ?thesis by (auto intro: bit_word_eqI)
qed

lemma mix4_inj: "x XOR push_bit 4 x = y XOR push_bit 4 y \<Longrightarrow> x = (y :: u8)"
proof -
  assume e: "x XOR push_bit 4 x = y XOR push_bit 4 y"
  have b: "bit (x XOR push_bit 4 x) n = bit (y XOR push_bit 4 y) n" for n using e by simp
  have lo: "bit x n = bit y n" if "n < 4" for n using b [of n] that by (simp add: bit_xor_iff bit_push_bit_iff)
  have "bit x n = bit y n" if "4 \<le> n" "n < 8" for n
    using b [of n] lo [of "n - 4"] that by (auto simp: bit_xor_iff bit_push_bit_iff)
  with lo show ?thesis by (intro bit_word_eqI) (metis len_num0 not_less numeral_code(2) bit_u8_high)
qed

lemma crc_accum_inj:
  assumes "crc_accum b c = crc_accum b' c'"
  shows "b XOR ucast (c AND 0xFF) = b' XOR ucast (c' AND 0xFF) \<and> drop_bit 8 c = drop_bit 8 c'"
proof -
  have "\<not> bit (drop_bit 8 c) n" if "8 \<le> n" for c :: u16 and n
    using that by (auto simp: bit_drop_bit_eq dest: bit_imp_le_length)
  with crc_mix_inj [OF assms [unfolded crc_accum_def Let_def]] mix4_inj show ?thesis by blast
qed

lemma low_byte_eq: "ucast (c AND 0xFF) = (ucast (c' AND 0xFF) :: u8) \<Longrightarrow> drop_bit 8 c = drop_bit 8 c' \<Longrightarrow> c = (c' :: u16)"
proof (rule bit_word_eqI)
  fix n :: nat
  assume lo: "ucast (c AND 0xFF) = (ucast (c' AND 0xFF) :: u8)" and hi: "drop_bit 8 c = drop_bit 8 c'"
  have m: "(0xFF :: u16) = mask 8" by (simp add: mask_eq_exp_minus_1)
  show "bit c n = bit c' n"
  proof (cases "n < 8")
    case True
    have "bit (ucast (c AND 0xFF) :: u8) n = bit (ucast (c' AND 0xFF) :: u8) n" using lo by simp
    with True show ?thesis unfolding m by (simp add: bit_ucast_iff bit_and_iff bit_mask_iff)
  next
    case False
    have "bit (drop_bit 8 c) (n - 8) = bit (drop_bit 8 c') (n - 8)" using hi by simp
    with False show ?thesis by (simp add: bit_drop_bit_eq)
  qed
qed

lemma crc_accum_inj_crc: "crc_accum b c = crc_accum b c' \<Longrightarrow> c = c'"
proof -
  assume "crc_accum b c = crc_accum b c'"
  from crc_accum_inj [OF this] have e: "b XOR ucast (c AND 0xFF) = b XOR ucast (c' AND 0xFF)" "drop_bit 8 c = drop_bit 8 c'" by auto
  from e(1) have "b XOR (b XOR ucast (c AND 0xFF)) = b XOR (b XOR ucast (c' AND 0xFF))" by simp
  then have "ucast (c AND 0xFF) = (ucast (c' AND 0xFF) :: u8)" by (simp add: xor.assoc [symmetric])
  from low_byte_eq [OF this e(2)] show ?thesis .
qed

lemma crc_accum_inj_byte: "crc_accum b c = crc_accum b' c \<Longrightarrow> b = b'"
proof -
  assume "crc_accum b c = crc_accum b' c"
  from crc_accum_inj [OF this] have "(b XOR ucast (c AND 0xFF)) XOR ucast (c AND 0xFF) = (b' XOR ucast (c AND 0xFF)) XOR ucast (c AND 0xFF)"
    by simp
  then show ?thesis by (simp add: xor.assoc)
qed

lemma fold_crc_inj: "fold crc_accum v c = fold crc_accum v c' \<Longrightarrow> c = c'"
  by (induction v arbitrary: c c') (auto dest: crc_accum_inj_crc)

lemma crc_change: "x \<noteq> y \<Longrightarrow> crc (u @ x # v) extra \<noteq> crc (u @ y # v) extra"
  by (auto simp: crc_def dest!: crc_accum_inj_crc fold_crc_inj crc_accum_inj_byte)

end
