(* ===== verification/Mavlink.thy ===== *)
theory Mavlink
  imports Mav_Messages Carry
begin

text \<open>
  \<open>rust/connectors/mavlink/src/mavlink.rs\<close>: MAVLink frames to aircraft events. The mutex around the
  vehicles is a map threaded through the calls; an entry is created on first use. \<open>None\<close> as the
  result of a call is a panic of the source. \<open>mav_header\<close> is the first part of \<open>parse_frame\<close>, up
  to the header fields, and \<open>mav_message\<close> the last, which dispatches on the message.
\<close>

definition MAV_MAX_PENDING_FRAMES :: nat where "MAV_MAX_PENDING_FRAMES = 128"
definition MAV_MAX_PENDING_BYTES :: nat where "MAV_MAX_PENDING_BYTES = 32 * 1024"

datatype mav_error = NotMavlink | MavTruncated | BadCrc | MavBuild build_error

record mav_position =
  mp_sysid :: u8
  mp_msg_id :: u32
  mp_lat :: f64
  mp_lon :: f64
  mp_alt_m :: f64
  mp_relative_alt_m :: "f64 option"
  mp_heading_deg :: "f64 option"
  mp_course_deg :: "f64 option"
  mp_sog_mps :: "f64 option"
  mp_vertical_speed_mps :: "f64 option"
  mp_state :: vehicle_state
  mp_raw :: bytes
  mp_truncated :: bool

record vehicle =
  v_state :: vehicle_state
  v_pending :: "bytes list"
  v_pending_bytes :: nat
  v_dropped :: bool

definition vehicle_default :: vehicle where
  "vehicle_default = \<lparr>v_state = vehicle_state_default, v_pending = [], v_pending_bytes = 0, v_dropped = False\<rparr>"

definition mav_push_raw :: "bytes \<Rightarrow> vehicle \<Rightarrow> vehicle \<times> nat" where
  "mav_push_raw raw v =
     (let (fs, n, d) = trim_pending MAV_MAX_PENDING_FRAMES MAV_MAX_PENDING_BYTES (v_pending v @ [raw])
                         (v_pending_bytes v + length raw)
      in (v\<lparr>v_pending := fs, v_pending_bytes := n, v_dropped := v_dropped v \<or> 0 < d\<rparr>, d))"

definition drain_payload :: "vehicle \<Rightarrow> vehicle \<times> bytes \<times> bool" where
  "drain_payload v = (v\<lparr>v_pending := [], v_pending_bytes := 0, v_dropped := False\<rparr>, concat (v_pending v), v_dropped v)"

record mav_parser =
  ma_source_id :: str
  ma_enrichment :: enrichment
  ma_vehicles :: "u8 \<rightharpoonup> vehicle"
  ma_dropped :: u64

definition mav_new :: "str \<Rightarrow> enrichment \<Rightarrow> mav_parser" where
  "mav_new source_id en = \<lparr>ma_source_id = source_id, ma_enrichment = en, ma_vehicles = (\<lambda>_. None), ma_dropped = 0\<rparr>"

definition vehicle_entry :: "u8 \<Rightarrow> mav_parser \<Rightarrow> vehicle" where
  "vehicle_entry sysid st = (case ma_vehicles st sysid of Some v \<Rightarrow> v | None \<Rightarrow> vehicle_default)"

definition put_vehicle :: "u8 \<Rightarrow> vehicle \<Rightarrow> mav_parser \<Rightarrow> mav_parser" where
  "put_vehicle sysid v st = st\<lparr>ma_vehicles := (ma_vehicles st)(sysid \<mapsto> v)\<rparr>"

definition mav_mutate :: "u8 \<Rightarrow> (vehicle_state \<Rightarrow> vehicle_state option) \<Rightarrow> mav_parser \<Rightarrow> mav_parser option" where
  "mav_mutate sysid f st =
     (let v = vehicle_entry sysid st in map_option (\<lambda>s. put_vehicle sysid (v\<lparr>v_state := s\<rparr>) st) (f (v_state v)))"

definition mav_snapshot :: "u8 \<Rightarrow> mav_parser \<Rightarrow> vehicle_state" where
  "mav_snapshot sysid st = (case ma_vehicles st sysid of Some v \<Rightarrow> v_state v | None \<Rightarrow> vehicle_state_default)"

definition mav_carry :: "u8 \<Rightarrow> bytes \<Rightarrow> mav_parser \<Rightarrow> mav_parser" where
  "mav_carry sysid raw st =
     (let (v, d) = mav_push_raw raw (vehicle_entry sysid st)
      in put_vehicle sysid v (st\<lparr>ma_dropped := ma_dropped st + of_nat d\<rparr>))"

definition mav_drain :: "u8 \<Rightarrow> mav_parser \<Rightarrow> mav_parser \<times> bytes \<times> bool" where
  "mav_drain sysid st =
     (let (v, raw, truncated) = drain_payload (vehicle_entry sysid st) in (put_vehicle sysid v st, raw, truncated))"

section \<open>Positions\<close>

definition global_position :: "u8 \<Rightarrow> bytes \<Rightarrow> mav_parser \<Rightarrow> (mav_parser \<times> mav_position) option" where
  "global_position sysid p st = do {
     vx \<leftarrow> i16le p 20; vy \<leftarrow> i16le p 22; vz \<leftarrow> i16le p 24; hdg_cdeg \<leftarrow> u16le p 26;
     lat \<leftarrow> i32le p 4; lon \<leftarrow> i32le p 8; alt \<leftarrow> i32le p 12; rel \<leftarrow> i32le p 16;
     let climb = f64_div (f64_neg (f64_of_int vz)) (f64_of_int 100);
     let (st, raw, truncated) = mav_drain sysid st;
     let vxf = f64_of_int vx; let vyf = f64_of_int vy;
     Some (st, \<lparr>mp_sysid = sysid, mp_msg_id = 33, mp_lat = scaled lat 10000000, mp_lon = scaled lon 10000000,
       mp_alt_m = scaled alt 1000, mp_relative_alt_m = Some (scaled rel 1000),
       mp_heading_deg = (if hdg_cdeg \<noteq> 0xFFFF then Some (scaled (uint hdg_cdeg) 100) else None),
       mp_course_deg = None,
       mp_sog_mps = Some (f64_div (f64_sqrt (f64_add (f64_mul vxf vxf) (f64_mul vyf vyf))) (f64_of_int 100)),
       mp_vertical_speed_mps = Some (if f64_eq climb (f64_of_int 0) then f64_of_int 0 else climb),
       mp_state = mav_snapshot sysid st, mp_raw = raw, mp_truncated = truncated\<rparr>) }"

definition gps_ext :: "u32 \<Rightarrow> f64 option" where
  "gps_ext v = (if v \<noteq> 0 \<and> v \<noteq> 0xFFFFFFFF then Some (f64_of_int (uint v)) else None)"

definition gps_raw :: "u8 \<Rightarrow> bytes \<Rightarrow> mav_parser \<Rightarrow> (mav_parser \<times> mav_position) option" where
  "gps_raw sysid p st = do {
     eph \<leftarrow> u16le p 20; vel_cms \<leftarrow> u16le p 24; cog_cdeg \<leftarrow> u16le p 26; fix_type \<leftarrow> slice_get p 28; sats \<leftarrow> slice_get p 29;
     h_acc \<leftarrow> u32le p 34; v_acc \<leftarrow> u32le p 38; vel_acc \<leftarrow> u32le p 42; hdg_acc \<leftarrow> u32le p 46;
     lat \<leftarrow> i32le p 8; lon \<leftarrow> i32le p 12; alt \<leftarrow> i32le p 16;
     st \<leftarrow> mav_mutate sysid (\<lambda>s. Some (s\<lparr>gps_fix := gps_fix_of fix_type,
         gps_sats := (if sats \<noteq> 0xFF then Some sats else None),
         gps_hdop := (if eph \<noteq> 0xFFFF then Some (scaled (uint eph) 100) else None),
         gps_h_acc_m := map_option (\<lambda>mm. f64_div mm (f64_of_int 1000)) (gps_ext h_acc),
         gps_v_acc_m := map_option (\<lambda>mm. f64_div mm (f64_of_int 1000)) (gps_ext v_acc),
         gps_vel_acc_mps := map_option (\<lambda>mms. f64_div mms (f64_of_int 1000)) (gps_ext vel_acc),
         gps_hdg_acc_deg := filter_option (\<lambda>deg. f64_le deg (f64_of_int 360))
           (map_option (\<lambda>de5. f64_div de5 (f64_of_int 100000)) (gps_ext hdg_acc))\<rparr>)) st;
     let (st, raw, truncated) = mav_drain sysid st;
     Some (st, \<lparr>mp_sysid = sysid, mp_msg_id = 24, mp_lat = scaled lat 10000000, mp_lon = scaled lon 10000000,
       mp_alt_m = scaled alt 1000, mp_relative_alt_m = None, mp_heading_deg = None,
       mp_course_deg = (if cog_cdeg \<noteq> 0xFFFF then Some (scaled (uint cog_cdeg) 100) else None),
       mp_sog_mps = (if vel_cms \<noteq> 0xFFFF then Some (scaled (uint vel_cms) 100) else None),
       mp_vertical_speed_mps = None, mp_state = mav_snapshot sysid st, mp_raw = raw, mp_truncated = truncated\<rparr>) }"

section \<open>Frames\<close>

text \<open>Payload length, header length, system id and message id.\<close>

definition mav_header :: "bytes \<Rightarrow> mav_error + nat \<times> nat \<times> u8 \<times> u32" where
  "mav_header frame =
     (case frame of [] \<Rightarrow> Inl MavTruncated
      | magic # _ \<Rightarrow>
          if magic = 0xFE then
            if length frame < 6 then Inl MavTruncated
            else Inr (unat (frame ! 1), 6, frame ! 3, ucast (frame ! 5))
          else if magic = 0xFD then
            if length frame < 10 then Inl MavTruncated
            else Inr (unat (frame ! 1), 10, frame ! 5,
                      ucast (frame ! 7) OR push_bit 8 (ucast (frame ! 8)) OR push_bit 16 (ucast (frame ! 9)))
          else Inl NotMavlink)"

definition zero_extend :: "nat \<Rightarrow> bytes \<Rightarrow> bytes" where
  "zero_extend full_len body = take full_len body @ replicate (full_len - length body) 0"

definition mav_message ::
  "u8 \<Rightarrow> u32 \<Rightarrow> bytes \<Rightarrow> mav_parser \<Rightarrow> (mav_parser \<times> mav_position option) option" where
  "mav_message sysid msg_id p st =
     (if msg_id = 33 then map_option (\<lambda>(st, pos). (st, Some pos)) (global_position sysid p st)
      else if msg_id = 24 then map_option (\<lambda>(st, pos). (st, Some pos)) (gps_raw sysid p st)
      else map_option (\<lambda>st. (st, None))
        (if msg_id = 0 then mav_mutate sysid (heartbeat p) st
         else if msg_id = 1 then mav_mutate sysid (sys_status p) st
         else if msg_id = 30 then mav_mutate sysid (attitude p) st
         else if msg_id = 74 then mav_mutate sysid (vfr_hud p) st
         else if msg_id = 147 then mav_mutate sysid (battery_status p) st
         else Some st))"

definition parse_frame :: "bytes \<Rightarrow> mav_parser \<Rightarrow> (mav_parser \<times> (mav_error + mav_position option)) option" where
  "parse_frame frame st =
     (case mav_header frame of Inl err \<Rightarrow> Some (st, Inl err)
      | Inr (len, header_len, sysid, msg_id) \<Rightarrow>
          let crc_start = header_len + len; msg_end = crc_start + 2 in
          if length frame < crc_start + 2 then Some (st, Inl MavTruncated)
          else case crc_extra_and_len msg_id of
            None \<Rightarrow> Some (mav_carry sysid (take msg_end frame) st, Inr None)
          | Some (crc_extra, full_len) \<Rightarrow>
              let given = ucast (frame ! crc_start) OR push_bit 8 (ucast (frame ! (crc_start + 1))) in
              if crc (take (crc_start - 1) (drop 1 frame)) crc_extra \<noteq> given then Some (st, Inl BadCrc)
              else map_option (\<lambda>(st, pos). (st, Inr pos))
                (mav_message sysid msg_id (zero_extend full_len (take len (drop header_len frame)))
                  (mav_carry sysid (take msg_end frame) st)))"

section \<open>Events\<close>

definition mav_base_builder :: "str \<Rightarrow> enrichment \<Rightarrow> effects \<Rightarrow> mav_position \<Rightarrow> event_builder" where
  "mav_base_builder source_id en fx p =
     (let s = mp_state p; sysid = show_int (uint (mp_sysid p));
          f1 = fmt_fixed 1; f2 = fmt_fixed 2;
          b = eb_identity ''MAVLink'' sysid (eb_metadata ''mav_sysid'' sysid (eb_metadata ''source_uid'' sysid
                (eb_payload (mp_raw p) (eb_location (mp_lat p) (mp_lon p) (mp_alt_m p)
                  (eb_new_id (uuid fx) (eb_new source_id ''mim:aircraft''))))));
          b = (if mp_truncated p then eb_metadata ''payload_truncated'' ''true'' b else b);
          b = opt_attribute ''hostility'' (hostility en) b;
          b = opt_attribute ''speed'' (map_option f1 (mp_sog_mps p)) b;
          b = opt_attribute ''heading'' (map_option f1 (mp_heading_deg p)) b;
          b = opt_attribute ''course'' (map_option f1 (mp_course_deg p)) b;
          b = opt_attribute ''vertical_rate'' (map_option f1
                (case mp_vertical_speed_mps p of Some v \<Rightarrow> Some v | None \<Rightarrow> climb_mps s)) b;
          b = opt_attribute ''relative_altitude'' (map_option f1 (mp_relative_alt_m p)) b;
          b = opt_attribute ''vehicle_type'' (vehicle_type s) b;
          b = opt_attribute ''status'' (status s) b;
          b = opt_attribute ''armed'' (map_option (\<lambda>a. if a then ''true'' else ''false'') (armed s)) b;
          b = opt_attribute ''mode'' (mode s) b;
          b = opt_attribute ''roll'' (map_option f1 (roll_deg s)) b;
          b = opt_attribute ''pitch'' (map_option f1 (pitch_deg s)) b;
          b = opt_attribute ''yaw'' (map_option f1 (yaw_deg s)) b;
          b = opt_attribute ''airspeed'' (map_option f1 (airspeed_mps s)) b;
          b = opt_attribute ''throttle'' (map_option (\<lambda>v. show_int (uint v)) (throttle_pct s)) b;
          b = opt_attribute ''battery_voltage'' (map_option f2 (battery_voltage_v s)) b;
          b = opt_attribute ''battery_current'' (map_option f2 (battery_current_a s)) b;
          b = opt_attribute ''battery'' (map_option show_int (battery_remaining_pct s)) b;
          b = opt_attribute ''battery_consumed'' (map_option show_int (battery_consumed_mah s)) b;
          b = opt_attribute ''battery_temp'' (map_option f1 (battery_temp_c s)) b;
          b = opt_attribute ''cpu_load'' (map_option (fmt_fixed 0) (cpu_load_pct s)) b;
          b = opt_attribute ''gps_fix'' (gps_fix s) b;
          b = opt_attribute ''gps_satellites'' (map_option (\<lambda>v. show_int (uint v)) (gps_sats s)) b;
          b = opt_attribute ''gps_hdop'' (map_option f2 (gps_hdop s)) b;
          b = (if mp_msg_id p = 24 then
                 opt_attribute ''angle_accuracy'' (map_option f2 (gps_hdg_acc_deg s))
                  (opt_attribute ''speed_accuracy'' (map_option f2 (gps_vel_acc_mps s))
                   (opt_attribute ''position_accuracy_v_m'' (map_option f2 (gps_v_acc_m s))
                    (opt_attribute ''position_accuracy_h_m'' (map_option f2 (gps_h_acc_m s)) b)))
               else b)
      in opt_metadata ''custom_mode'' (map_option (\<lambda>v. show_int (uint v)) (custom_mode s)) b)"

definition mav_to_event_at :: "str \<Rightarrow> enrichment \<Rightarrow> effects \<Rightarrow> mav_position \<Rightarrow> str \<Rightarrow> mav_error + event" where
  "mav_to_event_at source_id en fx p observed =
     (case build (eb_timestamp observed (mav_base_builder source_id en fx p)) of Inl err \<Rightarrow> Inl (MavBuild err) | Inr e \<Rightarrow> Inr e)"

definition mav_parse :: "effects \<Rightarrow> bytes \<Rightarrow> mav_parser \<Rightarrow> (mav_parser \<times> (mav_error + event list)) option" where
  "mav_parse fx frame st =
     (case parse_frame frame st of None \<Rightarrow> None
      | Some (st', Inl err) \<Rightarrow> Some (st', Inl err)
      | Some (st', Inr None) \<Rightarrow> Some (st', Inr [])
      | Some (st', Inr (Some pos)) \<Rightarrow>
          Some (st', case build (eb_now (wall_clock fx) (mav_base_builder (ma_source_id st') (ma_enrichment st') fx pos)) of
                       Inl err \<Rightarrow> Inl (MavBuild err) | Inr e \<Rightarrow> Inr [e]))"

section \<open>The carry buffer of a vehicle\<close>

definition vehicle_inv :: "vehicle \<Rightarrow> bool" where
  "vehicle_inv v \<longleftrightarrow> v_pending_bytes v = bytes_in (v_pending v) \<and> length (v_pending v) \<le> MAV_MAX_PENDING_FRAMES
     \<and> v_pending_bytes v \<le> MAV_MAX_PENDING_BYTES"

interpretation vehicle_carry: trimmed_buffer mav_push_raw v_pending v_pending_bytes v_dropped vehicle_inv
  MAV_MAX_PENDING_FRAMES MAV_MAX_PENDING_BYTES
  by unfold_locales (auto simp: vehicle_inv_def mav_push_raw_def)

text \<open>Every vehicle keeps to the caps, and only the vehicle of a frame is touched by it.\<close>

definition mav_inv :: "mav_parser \<Rightarrow> bool" where
  "mav_inv st \<longleftrightarrow> (\<forall>sysid v. ma_vehicles st sysid = Some v \<longrightarrow> vehicle_inv v)"

lemma vehicle_inv_default: "vehicle_inv vehicle_default"
  by (simp add: vehicle_inv_def vehicle_default_def)

lemma vehicle_inv_entry: "mav_inv st \<Longrightarrow> vehicle_inv (vehicle_entry sysid st)"
  by (auto simp: mav_inv_def vehicle_entry_def vehicle_inv_default split: option.split)

lemma mav_inv_put: "mav_inv st \<Longrightarrow> vehicle_inv v \<Longrightarrow> mav_inv (put_vehicle sysid v st)"
  by (auto simp: mav_inv_def put_vehicle_def)

definition only_vehicle :: "u8 \<Rightarrow> mav_parser \<Rightarrow> mav_parser \<Rightarrow> bool" where
  "only_vehicle sysid st st' \<longleftrightarrow> ma_source_id st' = ma_source_id st \<and> ma_enrichment st' = ma_enrichment st
     \<and> (\<forall>k. k \<noteq> sysid \<longrightarrow> ma_vehicles st' k = ma_vehicles st k) \<and> (mav_inv st \<longrightarrow> mav_inv st')"

lemma only_vehicle_refl: "only_vehicle sysid st st"
  by (simp add: only_vehicle_def)

lemma only_vehicle_trans: "only_vehicle sysid a b \<Longrightarrow> only_vehicle sysid b c \<Longrightarrow> only_vehicle sysid a c"
  by (simp add: only_vehicle_def)

lemma only_vehicle_put: "(mav_inv st \<Longrightarrow> vehicle_inv v) \<Longrightarrow> only_vehicle sysid st (put_vehicle sysid v st)"
  by (auto simp: only_vehicle_def mav_inv_put) (simp_all add: put_vehicle_def)

lemma only_vehicle_carry: "only_vehicle sysid st (mav_carry sysid raw st)"
proof -
  obtain v d where p: "mav_push_raw raw (vehicle_entry sysid st) = (v, d)" by force
  have "mav_inv st \<Longrightarrow> vehicle_inv v" using vehicle_carry.push_inv [OF vehicle_inv_entry, where f = raw] p by (metis fst_conv)
  then show ?thesis
    using only_vehicle_put [of "st\<lparr>ma_dropped := ma_dropped st + of_nat d\<rparr>" v sysid]
    by (simp add: mav_carry_def p only_vehicle_def mav_inv_def)
qed

lemma only_vehicle_mutate: "mav_mutate sysid f st = Some st' \<Longrightarrow> only_vehicle sysid st st'"
  using vehicle_inv_entry [of st sysid]
  by (auto simp: mav_mutate_def Let_def vehicle_inv_def intro!: only_vehicle_put)

lemma only_vehicle_drain: "only_vehicle sysid st (fst (mav_drain sysid st))"
  by (auto simp: mav_drain_def drain_payload_def vehicle_inv_def intro!: only_vehicle_put)

lemma only_vehicle_positions:
  "global_position sysid p st = Some (st', pos) \<Longrightarrow> only_vehicle sysid st st'"
  "gps_raw sysid p st = Some (st', pos) \<Longrightarrow> only_vehicle sysid st st'"
  by (auto simp: global_position_def gps_raw_def bind_eq_Some_conv Let_def case_prod_beta only_vehicle_drain
      dest!: only_vehicle_mutate intro: only_vehicle_trans)

lemma only_vehicle_message: "mav_message sysid msg_id p st = Some (st', r) \<Longrightarrow> only_vehicle sysid st st'"
  unfolding mav_message_def
  by (auto split: if_split_asm simp: only_vehicle_refl only_vehicle_positions only_vehicle_mutate)

section \<open>Frames do not panic\<close>

lemma length_zero_extend [simp]: "length (zero_extend n b) = n"
  by (simp add: zero_extend_def)

text \<open>A payload sent without its trailing zeros decodes like the whole one.\<close>

lemma zero_extend_trimmed: "zero_extend n (b @ replicate k 0) = zero_extend n b"
proof -
  have "zero_extend n (b @ replicate k 0) = take n (b @ replicate (k + n) 0)"
    by (auto simp: zero_extend_def replicate_add min_def intro!: nth_equalityI simp: nth_append)
  moreover have "take n (b @ replicate (k + n) 0) = zero_extend n b"
    by (auto simp: zero_extend_def min_def intro!: nth_equalityI simp: nth_append)
  ultimately show ?thesis by simp
qed

lemma mav_mutate_total: "(\<And>s. f s \<noteq> None) \<Longrightarrow> mav_mutate sysid f st \<noteq> None"
  by (simp add: mav_mutate_def Let_def)

lemma global_position_total: "length p = 28 \<Longrightarrow> global_position sysid p st \<noteq> None"
  by (simp add: global_position_def Let_def u16le_def i16le_def u32le_def i32le_def split: prod.split)

lemma gps_raw_total: "length p = 52 \<Longrightarrow> gps_raw sysid p st \<noteq> None"
  by (simp add: gps_raw_def Let_def u16le_def i16le_def u32le_def i32le_def mav_mutate_def split: prod.split)

lemma mav_message_total:
  assumes "crc_extra_and_len msg_id = Some (e, n)" "length p = n"
  shows "mav_message sysid msg_id p st \<noteq> None"
  using assms global_position_total [of p sysid st] gps_raw_total [of p sysid st] decoders_total [of p]
    mav_mutate_total [of "heartbeat p"] mav_mutate_total [of "sys_status p"] mav_mutate_total [of "attitude p"]
    mav_mutate_total [of "vfr_hud p"] mav_mutate_total [of "battery_status p"]
  by (auto simp: crc_extra_and_len_def mav_message_def split: if_splits)

lemma parse_frame_total: "parse_frame frame st \<noteq> None"
proof -
  have "crc_extra_and_len m = Some (e, n) \<Longrightarrow> mav_message k m (zero_extend n b) s \<noteq> None" for m e n k b s
    by (rule mav_message_total) simp_all
  then show ?thesis by (simp add: parse_frame_def Let_def split: sum.split option.split)
qed

lemma parse_frame_only:
  assumes "parse_frame frame st = Some (st', r)"
  shows "st' = st \<or> (\<exists>len h sysid msg_id. mav_header frame = Inr (len, h, sysid, msg_id) \<and> only_vehicle sysid st st')"
  using assms only_vehicle_trans [OF only_vehicle_carry only_vehicle_message]
  by (auto simp: parse_frame_def Let_def only_vehicle_carry split: sum.splits option.splits if_splits)

section \<open>Corruption\<close>

lemma mav_header_length: "mav_header frame = Inr (len, h, sysid, msg_id) \<Longrightarrow> 6 \<le> h \<and> h \<le> length frame"
  by (auto simp: mav_header_def split: list.splits if_splits)

lemma mav_header_update:
  assumes "mav_header frame = Inr (len, h, sysid, msg_id)" "h \<le> i"
  shows "mav_header (frame[i := x]) = Inr (len, h, sysid, msg_id)"
proof -
  from assms(1) obtain m r where f: "frame = m # r" by (auto simp: mav_header_def split: list.splits)
  with assms mav_header_length [OF assms(1)] obtain j where "i = Suc j" by (cases i) auto
  with assms f show ?thesis by (auto simp: mav_header_def nth_list_update split: if_splits)
qed

lemma covered_update:
  assumes "1 \<le> i" "i < n" "n \<le> length frame"
  shows "\<exists>u v. take (n - 1) (drop 1 frame) = u @ frame ! i # v \<and> take (n - 1) (drop 1 (frame[i := x])) = u @ x # v"
proof -
  obtain m r where f: "frame = m # r" using assms by (cases frame) auto
  obtain j where i: "i = Suc j" using assms(1) by (cases i) auto
  have j: "j < n - 1" "n - 1 \<le> length r" using assms f i by auto
  let ?t = "take (n - 1) r"
  have "?t = take j ?t @ r ! j # drop (Suc j) ?t" using j id_take_nth_drop [of j ?t] by simp
  moreover have "take (n - 1) (r[j := x]) = take j ?t @ x # drop (Suc j) ?t"
    unfolding take_update_swap using j upd_conv_take_nth_drop [of j ?t x] by simp
  ultimately show ?thesis using f i by auto
qed

section \<open>The events of a position\<close>

definition mav_attributes :: "str list" where
  "mav_attributes = [''alt_id'', ''alt_id_standard'', ''hostility'', ''speed'', ''heading'', ''course'', ''vertical_rate'',
     ''relative_altitude'', ''vehicle_type'', ''status'', ''armed'', ''mode'', ''roll'', ''pitch'', ''yaw'', ''airspeed'',
     ''throttle'', ''battery_voltage'', ''battery_current'', ''battery'', ''battery_consumed'', ''battery_temp'',
     ''cpu_load'', ''gps_fix'', ''gps_satellites'', ''gps_hdop'', ''position_accuracy_h_m'', ''position_accuracy_v_m'',
     ''speed_accuracy'', ''angle_accuracy'']"

definition mav_metadata :: "str list" where
  "mav_metadata = [''source_uid'', ''mav_sysid'', ''payload_truncated'', ''custom_mode'']"

text \<open>The attributes that the ontology does not declare on \<open>mim:aircraft\<close>.\<close>

definition mav_ungoverned :: "str list" where
  "mav_ungoverned = filter (\<lambda>k. \<not> governs ONTOLOGY ''mim:aircraft'' k) mav_attributes"

lemma keys_if_four:
  assumes "keys_within as ms b"
  shows "keys_within ((((as @ [k1]) @ [k2]) @ [k3]) @ [k4]) ms
    (if c then opt_attribute k4 v4 (opt_attribute k3 v3 (opt_attribute k2 v2 (opt_attribute k1 v1 b))) else b)"
  using assms by (cases c) (simp_all only: if_True if_False keys_opt_attribute keys_more)

lemma keys_mav: "keys_within mav_attributes mav_metadata (mav_base_builder src en fx p)"
proof -
  have "keys_within (foldl (\<lambda>a k. a @ [k]) [] mav_attributes) (foldl (\<lambda>a k. a @ [k]) [] mav_metadata) (mav_base_builder src en fx p)"
    unfolding mav_attributes_def mav_metadata_def foldl.simps mav_base_builder_def Let_def
    by (rule keys_rules keys_if_four)+
  moreover have "foldl (\<lambda>a k. a @ [k]) a ks = a @ ks" for a ks :: "str list" by (induction ks arbitrary: a) auto
  ultimately show ?thesis by simp
qed

lemma mav_builder_fields:
  "b_id (mav_base_builder src en fx p) = Some (uuid fx)"
  "b_source_id (mav_base_builder src en fx p) = src" "b_entity_type (mav_base_builder src en fx p) = ''mim:aircraft''"
  "b_policy_tags (mav_base_builder src en fx p) = []" "b_confidence (mav_base_builder src en fx p) = FNum False 0"
  "b_payload (mav_base_builder src en fx p) = mp_raw p"
  "b_location (mav_base_builder src en fx p) = Some \<lparr>latitude = mp_lat p, longitude = mp_lon p, altitude_m = mp_alt_m p\<rparr>"
  by (simp_all add: mav_base_builder_def Let_def eb_new_id_def eb_payload_def eb_location_def eb_new_def)

lemma mav_keys_small:
  "distinct mav_attributes" "distinct mav_metadata" "length mav_attributes \<le> MAX_ATTRIBUTES"
  "length mav_metadata \<le> MAX_METADATA" "is_namespaced ''mim:aircraft''"
  by code_simp+

lemma mav_event_of_position:
  assumes "src \<noteq> []" "is_rfc3339 clock"
  shows "(\<exists>e. build (eb_now clock (mav_base_builder src en fx p)) = Inr e \<and> canonical_event e \<and> ev_payload e = mp_raw p
        \<and> set (ungoverned ONTOLOGY e) \<subseteq> set mav_ungoverned)
    \<longleftrightarrow> location_ok \<lparr>latitude = mp_lat p, longitude = mp_lon p, altitude_m = mp_alt_m p\<rparr>"
proof -
  let ?b = "eb_now clock (mav_base_builder src en fx p)"
  note fields = mav_builder_fields [of src en fx p]
  have keys: "keys_within mav_attributes mav_metadata ?b" by (intro keys_setters keys_mav)
  have f: "b_id ?b = Some (uuid fx)" "b_timestamp ?b = Some clock" "b_source_id ?b = src"
      "b_entity_type ?b = ''mim:aircraft''" "b_policy_tags ?b = []" "b_confidence ?b = FNum False 0" "b_payload ?b = mp_raw p"
      "b_location ?b = Some \<lparr>latitude = mp_lat p, longitude = mp_lon p, altitude_m = mp_alt_m p\<rparr>"
    by (simp_all add: fields eb_now_def)
  have "buildable ?b \<longleftrightarrow> location_ok \<lparr>latitude = mp_lat p, longitude = mp_lon p, altitude_m = mp_alt_m p\<rparr>"
    using keys_within_builds [OF keys mav_keys_small(1-4) f(5,6), unfolded f(4), OF mav_keys_small(5)] assms
    by (simp add: f)
  moreover have "set (ungoverned ONTOLOGY (built_event ?b)) \<subseteq> set mav_ungoverned"
    using ungoverned_within [OF keys mav_keys_small(1,2), of ONTOLOGY] unfolding f(4) mav_ungoverned_def .
  moreover have "ev_payload (built_event ?b) = mp_raw p" by (simp add: built_event_def f)
  ultimately show ?thesis by (auto simp: build_Inr_iff dest: buildable_canonical)
qed

section \<open>The parser interface\<close>

interpretation mav_frames: frame_parser mav_parse ma_source_id
proof
  fix fx frame st st' r
  assume "mav_parse fx frame st = Some (st', r)"
  then obtain r' where "parse_frame frame st = Some (st', r')"
    by (auto simp: mav_parse_def split: option.splits sum.splits)
  from parse_frame_only [OF this] show "ma_source_id st' = ma_source_id st" by (auto simp: only_vehicle_def)
next
  fix fx frame st st' es e
  assume p: "mav_parse fx frame st = Some (st', Inr es)" and e: "e \<in> set es"
  then obtain pos where f: "parse_frame frame st = Some (st', Inr (Some pos))"
      and b: "build (eb_now (wall_clock fx) (mav_base_builder (ma_source_id st') (ma_enrichment st') fx pos)) = Inr e"
    by (auto simp: mav_parse_def split: option.splits sum.splits)
  have "ma_source_id st' = ma_source_id st" using parse_frame_only [OF f] by (auto simp: only_vehicle_def)
  moreover have "ev_source_id e = ma_source_id st'"
    using b by (auto simp: build_Inr_iff built_event_def eb_now_def mav_builder_fields)
  ultimately show "canonical_event e \<and> ev_source_id e = ma_source_id st"
    using b by (auto simp: build_Inr_iff dest: buildable_canonical)
qed

section \<open>Properties\<close>

text \<open>The MAVLink parser never panics, on any bytes and in any state, keeps every vehicle's carry
  buffer within its caps, and touches only the vehicle that the frame names.\<close>

theorem mav_parse_total:
  "\<exists>st' r. mav_parse fx frame st = Some (st', r)
     \<and> (st' = st \<or> (\<exists>len h sysid msg_id. mav_header frame = Inr (len, h, sysid, msg_id) \<and> only_vehicle sysid st st'))"
proof -
  obtain st' r where p: "parse_frame frame st = Some (st', r)" using parse_frame_total [of frame st] by auto
  then have "\<exists>r'. mav_parse fx frame st = Some (st', r')" by (simp add: mav_parse_def split: sum.split option.split)
  with parse_frame_only [OF p] show ?thesis by blast
qed

text \<open>C35. The CRC protects the payload: when a frame of a known message is accepted, the same frame
  with any one byte of its payload changed is rejected with a CRC mismatch and leaves the state as it
  was.\<close>

theorem mav_crc_rejects_changed_payload:
  assumes "mav_header frame = Inr (len, h, sysid, msg_id)" "crc_extra_and_len msg_id = Some (extra, n)"
    and "parse_frame frame st = Some (st', Inr r)" "h \<le> i" "i < h + len" "x \<noteq> frame ! i"
  shows "parse_frame (frame[i := x]) st0 = Some (st0, Inl BadCrc)"
proof -
  let ?g = "frame[i := x]"
  from assms(1-3) have l: "h + len + 2 \<le> length frame"
    and c: "crc (take (h + len - 1) (drop 1 frame)) extra
      = ucast (frame ! (h + len)) OR push_bit 8 (ucast (frame ! (h + len + 1)))"
    by (auto simp: parse_frame_def Let_def split: if_splits)
  have h: "mav_header ?g = Inr (len, h, sysid, msg_id)" using mav_header_update [OF assms(1,4)] .
  have "1 \<le> i" "h + len \<le> length frame" using mav_header_length [OF assms(1)] assms(4) l by auto
  from covered_update [OF this(1) assms(5) this(2), of x] obtain u v where
    "take (h + len - 1) (drop 1 frame) = u @ frame ! i # v" "take (h + len - 1) (drop 1 ?g) = u @ x # v" by blast
  with crc_change [OF assms(6), of u v extra] c
  have "crc (take (h + len - 1) (drop 1 ?g)) extra \<noteq> ucast (frame ! (h + len)) OR push_bit 8 (ucast (frame ! (h + len + 1)))"
    by simp
  moreover have "?g ! (h + len) = frame ! (h + len)" "?g ! (h + len + 1) = frame ! (h + len + 1)" using assms(5) by simp_all
  ultimately show ?thesis using l assms(2) by (simp add: parse_frame_def h Let_def)
qed

text \<open>With a configured source and a clock that renders RFC 3339, a position message becomes an
  event exactly when its latitude, longitude and altitude are a valid location; the event is
  canonical, carries the frames received since the last one, and no undeclared attribute outside
  \<open>mav_ungoverned\<close>.\<close>

theorem mav_position_builds_iff:
  assumes "parse_frame frame st = Some (st', Inr (Some p))" "ma_source_id st \<noteq> []" "is_rfc3339 (wall_clock fx)"
  shows "(\<exists>e. mav_parse fx frame st = Some (st', Inr [e]) \<and> canonical_event e \<and> ev_payload e = mp_raw p
        \<and> set (ungoverned ONTOLOGY e) \<subseteq> set mav_ungoverned)
    \<longleftrightarrow> location_ok \<lparr>latitude = mp_lat p, longitude = mp_lon p, altitude_m = mp_alt_m p\<rparr>"
proof -
  have "ma_source_id st' = ma_source_id st" using parse_frame_only [OF assms(1)] by (auto simp: only_vehicle_def)
  with mav_event_of_position [of "ma_source_id st'" "wall_clock fx" "ma_enrichment st'" fx p] assms show ?thesis
    by (auto simp: mav_parse_def split: sum.split)
qed

section \<open>Witnesses\<close>

definition ex_mav :: mav_parser where
  "ex_mav = mav_new ''mav-1'' \<lparr>hostility = None\<rparr>"

definition mav_effects :: effects where
  "mav_effects = \<lparr>instant = 0, wall_clock = ''2026-06-10T08:00:00Z'', uuid = ''0''\<rparr>"

text \<open>A GLOBAL_POSITION_INT of all zeros, trimmed to an empty payload, and a HEARTBEAT.\<close>

definition ex_global :: bytes where
  "ex_global = [253, 0, 0, 0, 0, 1, 1, 33, 0, 0, 78, 239]"

definition ex_heartbeat :: bytes where
  "ex_heartbeat = [254, 9, 0, 7, 1, 0, 0, 0, 0, 0, 0, 0, 0, 0, 0, 173, 85]"

lemma ex_global_parts:
  "mav_header ex_global = Inr (0, 10, 1, 33)" "length ex_global = 12"
  "crc (take 9 (drop 1 ex_global)) 104 = ucast (ex_global ! 10) OR push_bit 8 (ucast (ex_global ! 11))"
  by (simp_all add: ex_global_def mav_header_def crc_def crc_accum_def crc_mix_def)

lemma ex_heartbeat_parts:
  "mav_header ex_heartbeat = Inr (9, 6, 7, 0)" "length ex_heartbeat = 17"
  "crc (take 14 (drop 1 ex_heartbeat)) 50 = ucast (ex_heartbeat ! 15) OR push_bit 8 (ucast (ex_heartbeat ! 16))"
  "ex_heartbeat ! 6 = 0"
  by (simp_all add: ex_heartbeat_def mav_header_def crc_def crc_accum_def crc_mix_def)

lemma zero_readers: "i16le (zero_extend 28 []) 20 = Some 0" "i32le (zero_extend 28 []) 4 = Some 0"
  "i32le (zero_extend 28 []) 8 = Some 0" "i32le (zero_extend 28 []) 12 = Some 0"
  by (simp_all add: zero_extend_def i16le_def i32le_def u16le_def u32le_def u16_from_le_def u16_from_be_def
      u32_from_le_def u32_from_be_def)

lemma ex_global_position:
  "\<exists>st' p. parse_frame ex_global ex_mav = Some (st', Inr (Some p)) \<and> mp_lat p = scaled 0 10000000
     \<and> mp_lon p = scaled 0 10000000 \<and> mp_alt_m p = scaled 0 1000"
proof -
  let ?st = "mav_carry 1 ex_global ex_mav"
  obtain st' p where g: "global_position 1 (zero_extend 28 []) ?st = Some (st', p)"
    using global_position_total [of "zero_extend 28 []" 1 ?st] by auto
  have "mp_lat p = scaled 0 10000000 \<and> mp_lon p = scaled 0 10000000 \<and> mp_alt_m p = scaled 0 1000"
    using g by (auto simp: global_position_def zero_readers bind_eq_Some_conv Let_def case_prod_beta)
  moreover have "crc_extra_and_len 33 = Some (104, 28)" by (simp add: crc_extra_and_len_def)
  ultimately show ?thesis using g ex_global_parts by (simp add: parse_frame_def mav_message_def)
qed

lemma origin_ok: "location_ok \<lparr>latitude = scaled 0 10000000, longitude = scaled 0 10000000, altitude_m = scaled 0 1000\<rparr>"
  by code_simp

theorem mav_position_builds_iff_witness:
  "\<exists>st' e. mav_parse mav_effects ex_global ex_mav = Some (st', Inr [e]) \<and> canonical_event e"
proof -
  obtain st' p where p: "parse_frame ex_global ex_mav = Some (st', Inr (Some p))" and l: "mp_lat p = scaled 0 10000000"
      "mp_lon p = scaled 0 10000000" "mp_alt_m p = scaled 0 1000"
    using ex_global_position by blast
  have c: "is_rfc3339 (wall_clock mav_effects)" "ma_source_id ex_mav \<noteq> []" by code_simp+
  from mav_position_builds_iff [OF p c(2,1)] origin_ok show ?thesis unfolding l by blast
qed

theorem mav_crc_rejects_changed_payload_witness:
  "parse_frame (ex_heartbeat[6 := 1]) ex_mav = Some (ex_mav, Inl BadCrc)"
proof -
  have x: "crc_extra_and_len 0 = Some (50, 9)" by (simp add: crc_extra_and_len_def)
  obtain st' r where m: "mav_message 7 0 (zero_extend 9 (take 9 (drop 6 ex_heartbeat))) (mav_carry 7 ex_heartbeat ex_mav) = Some (st', r)"
    using mav_message_total [OF x, of "zero_extend 9 (take 9 (drop 6 ex_heartbeat))" 7 "mav_carry 7 ex_heartbeat ex_mav"] by auto
  have "parse_frame ex_heartbeat ex_mav = Some (st', Inr r)"
    using ex_heartbeat_parts m by (simp add: parse_frame_def x)
  from mav_crc_rejects_changed_payload [OF ex_heartbeat_parts(1) x this, of 6 1 ex_mav] show ?thesis
    by (simp add: ex_heartbeat_parts(4))
qed


end
