(* ===== verification/Adsb.thy ===== *)
theory Adsb
  imports Connector Carry
begin

text \<open>
  \<open>rust/connectors/adsb/src/adsb.rs\<close>: SBS-1 lines to aircraft events. Identity, velocity and squawk
  are cached per ICAO address and joined to the next position report, and every line is carried to
  that event. The mutex around the cache is the cache threaded through the calls; nothing here
  indexes out of range, so the parser is a total function.
\<close>

definition ADSB_FT_TO_M :: f64 where "ADSB_FT_TO_M = f64_of_rat (3048 / 10000)"
definition FTMIN_TO_MPS :: f64 where "FTMIN_TO_MPS = f64_div ADSB_FT_TO_M (f64_of_int 60)"
definition ADSB_KNOTS_TO_MPS :: f64 where "ADSB_KNOTS_TO_MPS = f64_of_rat (514444 / 1000000)"

datatype adsb_error = NotAscii | NotSbs | NoIcao | AdsbBuild build_error

record aircraft_state =
  as_callsign :: "str option"
  as_squawk :: "str option"
  as_ground_speed_kn :: "f64 option"
  as_track_deg :: "f64 option"
  as_vertical_rate_ftmin :: "f64 option"
  as_altitude_ft :: "f64 option"
  as_on_ground :: "bool option"

definition aircraft_state_default :: aircraft_state where
  "aircraft_state_default = \<lparr>as_callsign = None, as_squawk = None, as_ground_speed_kn = None, as_track_deg = None,
     as_vertical_rate_ftmin = None, as_altitude_ft = None, as_on_ground = None\<rparr>"

record adsb_position =
  dp_icao :: str
  dp_msg_type :: int
  dp_lat :: f64
  dp_lon :: f64
  dp_alt_m :: f64
  dp_state :: aircraft_state
  dp_raw :: bytes
  dp_truncated :: bool

definition MAX_AIRCRAFT :: nat where "MAX_AIRCRAFT = 10000"
definition ADSB_MAX_PENDING_FRAMES :: nat where "ADSB_MAX_PENDING_FRAMES = 64"
definition ADSB_MAX_PENDING_BYTES :: nat where "ADSB_MAX_PENDING_BYTES = 16 * 1024"

record adsb_entry =
  en_state :: aircraft_state
  en_pending :: "bytes list"
  en_pending_bytes :: nat
  en_dropped :: bool

definition adsb_entry_default :: adsb_entry where
  "adsb_entry_default = \<lparr>en_state = aircraft_state_default, en_pending = [], en_pending_bytes = 0, en_dropped = False\<rparr>"

definition adsb_push_raw :: "bytes \<Rightarrow> adsb_entry \<Rightarrow> adsb_entry \<times> nat" where
  "adsb_push_raw raw e =
     (let (fs, n, d) = trim_pending ADSB_MAX_PENDING_FRAMES ADSB_MAX_PENDING_BYTES (en_pending e @ [raw])
                         (en_pending_bytes e + length raw)
      in (e\<lparr>en_pending := fs, en_pending_bytes := n, en_dropped := en_dropped e \<or> 0 < d\<rparr>, d))"

definition adsb_drain_payload :: "adsb_entry \<Rightarrow> adsb_entry \<times> bytes \<times> bool" where
  "adsb_drain_payload e =
     (e\<lparr>en_pending := [], en_pending_bytes := 0, en_dropped := False\<rparr>, join [10] (en_pending e), en_dropped e)"

definition state_cache_entry :: "str \<Rightarrow> (str, adsb_entry) fifo_cache \<Rightarrow> (str, adsb_entry) fifo_cache \<times> adsb_entry" where
  "state_cache_entry icao c = fifo_entry MAX_AIRCRAFT adsb_entry_default icao c"

record adsb_parser =
  ad_source_id :: str
  ad_enrichment :: enrichment
  ad_aircraft :: "(str, adsb_entry) fifo_cache"
  ad_dropped :: u64

definition adsb_new :: "str \<Rightarrow> enrichment \<Rightarrow> adsb_parser" where
  "adsb_new source_id en = \<lparr>ad_source_id = source_id, ad_enrichment = en, ad_aircraft = cache_new, ad_dropped = 0\<rparr>"

section \<open>Lines\<close>

definition adsb_field :: "str list \<Rightarrow> nat \<Rightarrow> str option" where
  "adsb_field parts idx = filter_option (\<lambda>s. s \<noteq> []) (map_option trim (slice_get parts idx))"

definition adsb_num :: "str list \<Rightarrow> nat \<Rightarrow> f64 option" where
  "adsb_num parts idx = Option.bind (adsb_field parts idx) parse_f64"

definition trim_line_end :: "str \<Rightarrow> str" where
  "trim_line_end s = rev (dropWhile (\<lambda>c. c = CHR 0x0D \<or> c = CHR 0x0A) (rev s))"

text \<open>The fields a line carries replace the cached ones; the others stay. \<open>set_some\<close> is
  \<open>if let Some(x) = r { ... }\<close>.\<close>

definition set_some :: "('a \<Rightarrow> 's \<Rightarrow> 's) \<Rightarrow> 'a option \<Rightarrow> 's \<Rightarrow> 's" where
  "set_some f r s = (case r of Some x \<Rightarrow> f x s | None \<Rightarrow> s)"

definition update_state :: "str list \<Rightarrow> aircraft_state \<Rightarrow> aircraft_state" where
  "update_state parts s =
     (let s = set_some (\<lambda>cs s. s\<lparr>as_callsign := Some (trim cs)\<rparr>) (adsb_field parts 10) s;
          s = set_some (\<lambda>ft s. s\<lparr>as_altitude_ft := Some ft\<rparr>) (adsb_num parts 11) s;
          s = set_some (\<lambda>kn s. s\<lparr>as_ground_speed_kn := Some kn\<rparr>) (adsb_num parts 12) s;
          s = set_some (\<lambda>deg s. s\<lparr>as_track_deg := Some deg\<rparr>) (adsb_num parts 13) s;
          s = set_some (\<lambda>ftmin s. s\<lparr>as_vertical_rate_ftmin := Some ftmin\<rparr>) (adsb_num parts 16) s;
          s = set_some (\<lambda>sq s. s\<lparr>as_squawk := Some sq\<rparr>) (adsb_field parts 17) s
      in set_some (\<lambda>g s. s\<lparr>as_on_ground := Some (g = ''1'')\<rparr>) (adsb_field parts 21) s)"

text \<open>The message type and the fix of a position line.\<close>

definition adsb_fix :: "str list \<Rightarrow> (int \<times> f64 \<times> f64) option" where
  "adsb_fix parts = do {
     msg_type \<leftarrow> filter_option (\<lambda>t. t = 2 \<or> t = 3) (Option.bind (adsb_field parts 1) parse_u8);
     lat \<leftarrow> adsb_num parts 14; lon \<leftarrow> adsb_num parts 15;
     if f64_within (f64_of_int (-90)) (f64_of_int 90) lat \<and> f64_within (f64_of_int (-180)) (f64_of_int 180) lon
     then Some (msg_type, lat, lon) else None }"

text \<open>A \<open>MSG\<close> line of the aircraft \<open>icao\<close>.\<close>

definition adsb_message :: "str \<Rightarrow> str \<Rightarrow> str list \<Rightarrow> adsb_parser \<Rightarrow> adsb_parser \<times> adsb_position option" where
  "adsb_message icao line parts st =
     (let (cache, e) = state_cache_entry icao (ad_aircraft st);
          (e, d) = adsb_push_raw (as_bytes line) e;
          e = e\<lparr>en_state := update_state parts (en_state e)\<rparr>;
          st = st\<lparr>ad_dropped := ad_dropped st + of_nat d\<rparr>
      in case adsb_fix parts of
           None \<Rightarrow> (st\<lparr>ad_aircraft := cache_put icao e cache\<rparr>, None)
         | Some (msg_type, lat, lon) \<Rightarrow>
             let s = en_state e; (e, raw, truncated) = adsb_drain_payload e
             in (st\<lparr>ad_aircraft := cache_put icao e cache\<rparr>,
                 Some \<lparr>dp_icao = icao, dp_msg_type = msg_type, dp_lat = lat, dp_lon = lon,
                   dp_alt_m = (case as_altitude_ft s of Some ft \<Rightarrow> f64_mul ft ADSB_FT_TO_M | None \<Rightarrow> f64_of_int 0),
                   dp_state = s, dp_raw = raw, dp_truncated = truncated\<rparr>))"

definition parse_line :: "bytes \<Rightarrow> adsb_parser \<Rightarrow> adsb_parser \<times> (adsb_error + adsb_position option)" where
  "parse_line frame st =
     (case from_utf8 frame of None \<Rightarrow> (st, Inl NotAscii)
      | Some msg \<Rightarrow>
          let line = trim_line_end msg; parts = split_char CHR '','' line in
          if line = [] then (st, Inr None)
          else if hd parts = ''MSG'' then
            (case adsb_field parts 4 of None \<Rightarrow> (st, Inl NoIcao)
             | Some icao \<Rightarrow> apsnd Inr (adsb_message (to_ascii_uppercase icao) line parts st))
          else if hd parts \<in> {''SEL'', ''ID'', ''AIR'', ''STA'', ''CLK''} then (st, Inr None)
          else (st, Inl NotSbs))"

section \<open>Events\<close>

text \<open>A rate that is a negative zero is printed without its sign.\<close>

definition vertical_rate_mps :: "f64 \<Rightarrow> str" where
  "vertical_rate_mps ftmin =
     (let mps = f64_mul ftmin FTMIN_TO_MPS in fmt_fixed 1 (if f64_eq mps (f64_of_int 0) then f64_of_int 0 else mps))"

definition adsb_base_builder :: "str \<Rightarrow> enrichment \<Rightarrow> effects \<Rightarrow> adsb_position \<Rightarrow> event_builder" where
  "adsb_base_builder source_id en fx p =
     (let s = dp_state p;
          b = eb_identity ''ICAO24'' (dp_icao p) (eb_metadata ''icao'' (dp_icao p) (eb_metadata ''source_uid'' (dp_icao p)
                (eb_payload (dp_raw p) (eb_location (dp_lat p) (dp_lon p) (dp_alt_m p)
                  (eb_new_id (uuid fx) (eb_new source_id ''mim:aircraft''))))));
          b = (if dp_truncated p then eb_metadata ''payload_truncated'' ''true'' b else b);
          b = opt_attribute ''hostility'' (hostility en) b;
          b = opt_attribute ''callsign'' (filter_option (\<lambda>c. c \<noteq> []) (as_callsign s)) b;
          b = (case as_ground_speed_kn s of None \<Rightarrow> b
               | Some kn \<Rightarrow> eb_metadata ''speed_kn'' (fmt_fixed 1 kn)
                   (eb_attribute ''speed'' (fmt_fixed 2 (f64_mul kn ADSB_KNOTS_TO_MPS)) b));
          b = opt_attribute ''course'' (map_option (fmt_fixed 1) (as_track_deg s)) b;
          b = (case as_vertical_rate_ftmin s of None \<Rightarrow> b
               | Some ftmin \<Rightarrow> eb_metadata ''vertical_rate_ftmin'' (fmt_fixed 0 ftmin)
                   (eb_attribute ''vertical_rate'' (vertical_rate_mps ftmin) b));
          b = opt_metadata ''altitude_ft'' (map_option (fmt_fixed 0) (as_altitude_ft s)) b;
          b = opt_attribute ''squawk'' (filter_option (\<lambda>q. q \<noteq> []) (as_squawk s)) b
      in opt_attribute ''on_ground'' (map_option (\<lambda>g. if g then ''true'' else ''false'') (as_on_ground s)) b)"

definition adsb_to_event_at :: "str \<Rightarrow> enrichment \<Rightarrow> effects \<Rightarrow> adsb_position \<Rightarrow> str \<Rightarrow> adsb_error + event" where
  "adsb_to_event_at source_id en fx p observed =
     (case build (eb_timestamp observed (adsb_base_builder source_id en fx p)) of Inl err \<Rightarrow> Inl (AdsbBuild err) | Inr e \<Rightarrow> Inr e)"

definition adsb_parse :: "effects \<Rightarrow> bytes \<Rightarrow> adsb_parser \<Rightarrow> adsb_parser \<times> (adsb_error + event list)" where
  "adsb_parse fx frame st =
     (case parse_line frame st of
        (st', Inl err) \<Rightarrow> (st', Inl err)
      | (st', Inr None) \<Rightarrow> (st', Inr [])
      | (st', Inr (Some pos)) \<Rightarrow>
          (st', case build (eb_now (wall_clock fx) (adsb_base_builder (ad_source_id st') (ad_enrichment st') fx pos)) of
                  Inl err \<Rightarrow> Inl (AdsbBuild err) | Inr e \<Rightarrow> Inr [e]))"

section \<open>The cache of aircraft\<close>

definition adsb_entry_inv :: "adsb_entry \<Rightarrow> bool" where
  "adsb_entry_inv e \<longleftrightarrow> en_pending_bytes e = bytes_in (en_pending e) \<and> length (en_pending e) \<le> ADSB_MAX_PENDING_FRAMES
     \<and> en_pending_bytes e \<le> ADSB_MAX_PENDING_BYTES"

interpretation adsb_carry: trimmed_buffer adsb_push_raw en_pending en_pending_bytes en_dropped adsb_entry_inv
  ADSB_MAX_PENDING_FRAMES ADSB_MAX_PENDING_BYTES
  by unfold_locales (auto simp: adsb_entry_inv_def adsb_push_raw_def)

definition adsb_inv :: "adsb_parser \<Rightarrow> bool" where
  "adsb_inv st \<longleftrightarrow> fifo_inv MAX_AIRCRAFT (ad_aircraft st)
     \<and> (\<forall>icao e. cache_get icao (ad_aircraft st) = Some e \<longrightarrow> adsb_entry_inv e)"

lemma MAX_AIRCRAFT_pos: "0 < MAX_AIRCRAFT"
  by (simp add: MAX_AIRCRAFT_def)

lemma adsb_entry_inv_default: "adsb_entry_inv adsb_entry_default"
  by (simp add: adsb_entry_inv_def adsb_entry_default_def)

definition cached_entry :: "str \<Rightarrow> adsb_parser \<Rightarrow> adsb_entry" where
  "cached_entry icao st = (case cache_get icao (ad_aircraft st) of Some e \<Rightarrow> e | None \<Rightarrow> adsb_entry_default)"

text \<open>What a \<open>MSG\<close> line leaves in the entry of its aircraft.\<close>

definition entry_after :: "str \<Rightarrow> str list \<Rightarrow> adsb_entry \<Rightarrow> adsb_entry" where
  "entry_after line parts e =
     (let e = (fst (adsb_push_raw (as_bytes line) e))\<lparr>en_state := update_state parts (en_state e)\<rparr>
      in if adsb_fix parts = None then e else fst (adsb_drain_payload e))"

lemma adsb_push_state: "en_state (fst (adsb_push_raw raw e)) = en_state e"
  by (simp add: adsb_push_raw_def case_prod_beta)

lemma adsb_message_cache:
  "ad_aircraft (fst (adsb_message icao line parts st))
     = cache_put icao (entry_after line parts (cached_entry icao st)) (fst (state_cache_entry icao (ad_aircraft st)))"
  by (simp add: adsb_message_def entry_after_def cached_entry_def adsb_push_state case_prod_beta Let_def
      state_cache_entry_def fifo_entry_get split: option.split)

lemma adsb_message_fixed:
  "ad_source_id (fst (adsb_message icao line parts st)) = ad_source_id st"
  "ad_enrichment (fst (adsb_message icao line parts st)) = ad_enrichment st"
  by (simp_all add: adsb_message_def case_prod_beta Let_def split: option.split)

lemma entry_after_inv: "adsb_entry_inv e \<Longrightarrow> adsb_entry_inv (entry_after line parts e)"
  using adsb_carry.push_inv [of e "as_bytes line"]
  by (auto simp: entry_after_def Let_def adsb_drain_payload_def adsb_entry_inv_def)

lemma entry_after_state: "en_state (entry_after line parts e) = update_state parts (en_state e)"
  by (simp add: entry_after_def Let_def adsb_drain_payload_def)

lemma adsb_message_get:
  assumes "adsb_inv st"
  shows "cache_get icao (ad_aircraft (fst (adsb_message icao line parts st))) = Some (entry_after line parts (cached_entry icao st))"
    "i \<noteq> icao \<Longrightarrow> cache_get i (ad_aircraft (fst (adsb_message icao line parts st))) = cache_get i (ad_aircraft st)
      \<or> cache_get i (ad_aircraft (fst (adsb_message icao line parts st))) = None
        \<and> length (c_order (ad_aircraft st)) = MAX_AIRCRAFT \<and> cache_get icao (ad_aircraft st) = None"
  using assms fifo_entry_other [of MAX_AIRCRAFT "ad_aircraft st" i icao adsb_entry_default]
  by (auto simp: adsb_message_cache adsb_inv_def state_cache_entry_def)

lemma adsb_message_inv: "adsb_inv st \<Longrightarrow> adsb_inv (fst (adsb_message icao line parts st))"
proof -
  assume i: "adsb_inv st"
  let ?c = "fst (state_cache_entry icao (ad_aircraft st))" and ?e = "entry_after line parts (cached_entry icao st)"
  have "fifo_inv MAX_AIRCRAFT ?c" "cache_get icao ?c \<noteq> None"
    using i fifo_inv_entry [OF _ MAX_AIRCRAFT_pos] by (auto simp: adsb_inv_def state_cache_entry_def fifo_entry_get)
  then have "fifo_inv MAX_AIRCRAFT (cache_put icao ?e ?c)" by (rule fifo_inv_put)
  moreover have "adsb_entry_inv (cached_entry icao st)"
    using i adsb_entry_inv_default by (auto simp: cached_entry_def adsb_inv_def split: option.split)
  ultimately show ?thesis
    using i adsb_message_get(1) [OF i, of icao line parts] adsb_message_get(2) [OF i, where icao = icao and line = line and parts = parts]
      entry_after_inv [of "cached_entry icao st" line parts]
    by (auto simp: adsb_inv_def adsb_message_cache) (metis option.distinct(1))
qed

text \<open>The aircraft, line and fields of a \<open>MSG\<close> line; every other line leaves the parser as it is.\<close>

definition adsb_msg :: "bytes \<Rightarrow> (str \<times> str \<times> str list) option" where
  "adsb_msg frame = do {
     msg \<leftarrow> from_utf8 frame;
     let line = trim_line_end msg; let parts = split_char CHR '','' line;
     if line \<noteq> [] \<and> hd parts = ''MSG''
     then map_option (\<lambda>icao. (to_ascii_uppercase icao, line, parts)) (adsb_field parts 4) else None }"

lemma parse_line_msg:
  "adsb_msg frame = Some (icao, line, parts) \<Longrightarrow> parse_line frame st = apsnd Inr (adsb_message icao line parts st)"
  "adsb_msg frame = None \<Longrightarrow> fst (parse_line frame st) = st \<and> (\<forall>p. snd (parse_line frame st) \<noteq> Inr (Some p))"
  by (auto simp: adsb_msg_def parse_line_def Let_def bind_eq_Some_conv split: option.splits if_splits)

lemma parse_line_inv: "adsb_inv st \<Longrightarrow> adsb_inv (fst (parse_line frame st))"
  by (cases "adsb_msg frame") (auto simp: parse_line_msg adsb_message_inv)

lemma parse_line_fixed:
  "ad_source_id (fst (parse_line frame st)) = ad_source_id st" "ad_enrichment (fst (parse_line frame st)) = ad_enrichment st"
  by (cases "adsb_msg frame"; auto simp: parse_line_msg adsb_message_fixed)+

lemma adsb_parse_fst: "fst (adsb_parse fx frame st) = fst (parse_line frame st)"
  by (simp add: adsb_parse_def split: prod.split sum.split option.split)


section \<open>Feeds\<close>

definition adsb_feed :: "bytes list \<Rightarrow> adsb_parser \<Rightarrow> adsb_parser" where
  "adsb_feed frames st = fold (\<lambda>frame st. fst (parse_line frame st)) frames st"

text \<open>The aircraft of a feed, and what its lines say of one of them: the specification of the cache.\<close>

definition feed_icaos :: "bytes list \<Rightarrow> str set" where
  "feed_icaos frames = (\<lambda>(icao, line, parts). icao) ` set (List.map_filter adsb_msg frames)"

text \<open>The fields of the lines of one aircraft, in order; what a line says in a column is its text without the surrounding white space,
  when there is any text; and what a feed says last is what the last line says that says anything.\<close>

definition lines_of :: "str \<Rightarrow> bytes list \<Rightarrow> str list list" where
  "lines_of icao frames = map (\<lambda>(i, line, parts). parts) (filter (\<lambda>(i, line, parts). i = icao) (List.map_filter adsb_msg frames))"

definition column_text :: "nat \<Rightarrow> str list \<Rightarrow> str option" where
  "column_text col parts = (if col < length parts \<and> trim (parts ! col) \<noteq> [] then Some (trim (parts ! col)) else None)"

definition last_given :: "(str list \<Rightarrow> 'a option) \<Rightarrow> str list list \<Rightarrow> 'a option" where
  "last_given f ls = (case List.map_filter f ls of [] \<Rightarrow> None | xs \<Rightarrow> Some (last xs))"

definition column_number :: "nat \<Rightarrow> str list \<Rightarrow> f64 option" where
  "column_number col parts = (case column_text col parts of None \<Rightarrow> None | Some t \<Rightarrow> parse_f64 t)"

definition latest_state :: "str \<Rightarrow> bytes list \<Rightarrow> aircraft_state" where
  "latest_state icao frames = (let ls = lines_of icao frames in
     \<lparr>as_callsign = map_option trim (last_given (column_text 10) ls), as_squawk = last_given (column_text 17) ls,
       as_ground_speed_kn = last_given (column_number 12) ls, as_track_deg = last_given (column_number 13) ls,
       as_vertical_rate_ftmin = last_given (column_number 16) ls, as_altitude_ft = last_given (column_number 11) ls,
       as_on_ground = map_option (\<lambda>g. g = ''1'') (last_given (column_text 21) ls)\<rparr>)"

lemma last_given_snoc: "last_given f (ls @ [p]) = (case f p of None \<Rightarrow> last_given f ls | Some x \<Rightarrow> Some x)"
proof -
  have "List.map_filter f (ls @ [p]) = List.map_filter f ls @ (case f p of None \<Rightarrow> [] | Some x \<Rightarrow> [x])"
    by (induction ls) (auto simp: List.map_filter_def split: option.split)
  then show ?thesis by (cases "f p"; cases "List.map_filter f ls") (simp_all add: last_given_def)
qed

lemma adsb_column: "adsb_field parts n = column_text n parts" "adsb_num parts n = column_number n parts"
proof -
  show "adsb_field parts n = column_text n parts"
    by (cases "n < length parts") (simp_all add: adsb_field_def column_text_def slice_get_def filter_option_def)
  then show "adsb_num parts n = column_number n parts"
    by (simp add: adsb_num_def column_number_def split: option.split)
qed

lemma lines_of_snoc:
  "lines_of icao (fs @ [f]) = lines_of icao fs @ (case adsb_msg f of Some (i, line, parts) \<Rightarrow> if i = icao then [parts] else [] | None \<Rightarrow> [])"
  by (auto simp: lines_of_def List.map_filter_def split: option.split)

lemma latest_state_Nil: "latest_state icao [] = aircraft_state_default"
  by (simp add: latest_state_def lines_of_def last_given_def List.map_filter_def aircraft_state_default_def)

lemma latest_state_snoc:
  "latest_state icao (fs @ [f]) = (case adsb_msg f of
     Some (i, line, parts) \<Rightarrow> if i = icao then update_state parts (latest_state icao fs) else latest_state icao fs | None \<Rightarrow> latest_state icao fs)"
proof -
  have "latest_state icao (fs @ [f]) = update_state parts (latest_state icao fs)" if "lines_of icao (fs @ [f]) = lines_of icao fs @ [parts]" for parts
    unfolding latest_state_def that Let_def last_given_snoc update_state_def adsb_column
    by (simp add: set_some_def split: option.split)
  moreover have "latest_state icao (fs @ [f]) = latest_state icao fs" if "lines_of icao (fs @ [f]) = lines_of icao fs"
    unfolding latest_state_def that ..
  ultimately show ?thesis by (auto simp: lines_of_snoc split: option.split)
qed

lemma adsb_inv_new: "adsb_inv (adsb_new src en)"
  by (simp add: adsb_inv_def adsb_new_def) (simp add: cache_get_def cache_new_def)

lemma adsb_feed_inv: "adsb_inv st \<Longrightarrow> adsb_inv (adsb_feed frames st)"
  unfolding adsb_feed_def by (induction frames arbitrary: st) (simp_all add: parse_line_inv)

lemma finite_feed_icaos [simp]: "finite (feed_icaos frames)"
  by (simp add: feed_icaos_def)

lemma feed_icaos_snoc:
  "feed_icaos (fs @ [f]) = (case adsb_msg f of None \<Rightarrow> feed_icaos fs | Some (i, line, parts) \<Rightarrow> insert i (feed_icaos fs))"
  by (auto simp: feed_icaos_def List.map_filter_def split: option.split)

lemma adsb_order_length: "adsb_inv st \<Longrightarrow> length (c_order (ad_aircraft st)) = card (dom (c_map (ad_aircraft st)))"
  by (metis adsb_inv_def fifo_inv_def distinct_card)

lemma adsb_feed_refines:
  assumes "card (feed_icaos frames) \<le> MAX_AIRCRAFT"
  shows "dom (c_map (ad_aircraft (adsb_feed frames (adsb_new src en)))) = feed_icaos frames
    \<and> en_state (cached_entry icao (adsb_feed frames (adsb_new src en))) = latest_state icao frames"
  using assms
proof (induction frames rule: rev_induct)
  case Nil
  show ?case by (simp add: adsb_feed_def feed_icaos_def List.map_filter_def adsb_new_def cache_new_def cached_entry_def
        cache_get_def latest_state_Nil adsb_entry_default_def)
next
  case (snoc f fs)
  let ?st = "adsb_feed fs (adsb_new src en)"
  show ?case
  proof (cases "adsb_msg f")
    case None
    with snoc show ?thesis by (simp add: adsb_feed_def latest_state_snoc feed_icaos_snoc parse_line_msg)
  next
    case (Some m)
    obtain i line parts where m: "m = (i, line, parts)" by (metis prod_cases3)
    have s: "adsb_feed (fs @ [f]) (adsb_new src en) = fst (adsb_message i line parts ?st)"
      using Some m by (simp add: adsb_feed_def parse_line_msg)
    have ic: "feed_icaos (fs @ [f]) = insert i (feed_icaos fs)" using Some m by (simp add: feed_icaos_snoc)
    have le: "card (feed_icaos fs) \<le> MAX_AIRCRAFT"
      using snoc.prems card_insert_le [of "feed_icaos fs" i] unfolding ic by (auto simp: card_insert_if split: if_splits)
    note ih = snoc.IH [OF le]
    note inv = adsb_feed_inv [OF adsb_inv_new, of fs src en]
    have room: "\<not> (length (c_order (ad_aircraft ?st)) = MAX_AIRCRAFT \<and> cache_get i (ad_aircraft ?st) = None)"
    proof
      assume a: "length (c_order (ad_aircraft ?st)) = MAX_AIRCRAFT \<and> cache_get i (ad_aircraft ?st) = None"
      then have "i \<notin> feed_icaos fs" using ih by (metis cache_get_def domIff)
      with snoc.prems a adsb_order_length [OF inv] ih show False unfolding ic by simp
    qed
    have other: "cache_get k (ad_aircraft (fst (adsb_message i line parts ?st))) = cache_get k (ad_aircraft ?st)" if "k \<noteq> i" for k
      using adsb_message_get(2) [OF inv that] room by blast
    note here = adsb_message_get(1) [OF inv, of i line parts]
    have "dom (c_map (ad_aircraft (fst (adsb_message i line parts ?st)))) = insert i (dom (c_map (ad_aircraft ?st)))"
      using here other unfolding dom_def cache_get_def by auto (metis option.distinct(1))+
    moreover have "en_state (cached_entry icao (fst (adsb_message i line parts ?st)))
        = (if icao = i then update_state parts (en_state (cached_entry icao ?st)) else en_state (cached_entry icao ?st))"
      using here other [of icao] by (simp add: cached_entry_def [of _ "fst _"] entry_after_state) (simp add: cached_entry_def)
    ultimately show ?thesis using ih Some m unfolding s ic by (simp add: latest_state_snoc)
  qed
qed

section \<open>Position reports\<close>

definition adsb_attributes :: "str list" where
  "adsb_attributes = [''alt_id'', ''alt_id_standard'', ''hostility'', ''callsign'', ''speed'', ''course'', ''vertical_rate'',
     ''squawk'', ''on_ground'']"

definition adsb_metadata :: "str list" where
  "adsb_metadata = [''source_uid'', ''icao'', ''payload_truncated'', ''speed_kn'', ''vertical_rate_ftmin'', ''altitude_ft'']"

lemma keys_adsb: "keys_within adsb_attributes adsb_metadata (adsb_base_builder src en fx p)"
proof -
  have "keys_within (foldl (\<lambda>a k. a @ [k]) [] adsb_attributes) (foldl (\<lambda>a k. a @ [k]) [] adsb_metadata) (adsb_base_builder src en fx p)"
    unfolding adsb_attributes_def adsb_metadata_def foldl.simps adsb_base_builder_def Let_def
    by (rule keys_rules)+
  moreover have "foldl (\<lambda>a k. a @ [k]) a ks = a @ ks" for a ks :: "str list" by (induction ks arbitrary: a) auto
  ultimately show ?thesis by simp
qed

lemma adsb_builder_fields:
  "b_id (adsb_base_builder src en fx p) = Some (uuid fx)"
  "b_source_id (adsb_base_builder src en fx p) = src" "b_entity_type (adsb_base_builder src en fx p) = ''mim:aircraft''"
  "b_policy_tags (adsb_base_builder src en fx p) = []" "b_confidence (adsb_base_builder src en fx p) = FNum False 0"
  "b_payload (adsb_base_builder src en fx p) = dp_raw p"
  "b_location (adsb_base_builder src en fx p) = Some \<lparr>latitude = dp_lat p, longitude = dp_lon p, altitude_m = dp_alt_m p\<rparr>"
  by (simp_all add: adsb_base_builder_def Let_def eb_fixed_sel)

lemma adsb_keys_small:
  "distinct adsb_attributes" "distinct adsb_metadata" "length adsb_attributes \<le> MAX_ATTRIBUTES"
  "length adsb_metadata \<le> MAX_METADATA" "is_namespaced ''mim:aircraft''"
  "filter (\<lambda>k. \<not> governs ONTOLOGY ''mim:aircraft'' k) adsb_attributes = [''on_ground'']"
  by code_simp+

lemma adsb_message_position:
  assumes "adsb_message icao line parts st = (st', Some p)"
  shows "adsb_fix parts = Some (dp_msg_type p, dp_lat p, dp_lon p) \<and> dp_icao p = icao
    \<and> dp_state p = update_state parts (en_state (cached_entry icao st))
    \<and> dp_alt_m p = (case as_altitude_ft (dp_state p) of Some ft \<Rightarrow> f64_mul ft ADSB_FT_TO_M | None \<Rightarrow> f64_of_int 0)
    \<and> dp_raw p = join [10] (en_pending (fst (adsb_push_raw (as_bytes line) (cached_entry icao st))))
    \<and> (dp_truncated p \<longleftrightarrow> en_dropped (fst (adsb_push_raw (as_bytes line) (cached_entry icao st))))"
  using assms by (auto simp: adsb_message_def state_cache_entry_def fifo_entry_get case_prod_beta Let_def cached_entry_def
      adsb_push_state adsb_drain_payload_def split: option.splits)

lemma adsb_fix_ok: "adsb_fix parts = Some (t, lat, lon) \<Longrightarrow> is_finite alt \<longleftrightarrow> location_ok \<lparr>latitude = lat, longitude = lon, altitude_m = alt\<rparr>"
  using f64_of_int_exact [of "-90"] f64_of_int_exact [of 90] f64_of_int_exact [of "-180"] f64_of_int_exact [of 180]
  by (auto simp: adsb_fix_def location_ok_def bind_eq_Some_conv dest: f64_within_finite split: if_splits)


lemma adsb_event_of_position:
  assumes "src \<noteq> []" "is_rfc3339 clock"
  shows "build (eb_now clock (adsb_base_builder src en fx p)) = Inr e
    \<longleftrightarrow> e = built_event (eb_now clock (adsb_base_builder src en fx p))
      \<and> location_ok \<lparr>latitude = dp_lat p, longitude = dp_lon p, altitude_m = dp_alt_m p\<rparr>"
  using build_located [of adsb_attributes adsb_metadata "eb_now clock (adsb_base_builder src en fx p)" "uuid fx" clock e]
    adsb_keys_small assms keys_setters(3) [OF keys_adsb]
  by (simp add: eb_fixed_sel adsb_builder_fields)

lemma adsb_parse_position:
  assumes "parse_line frame st = (st', Inr (Some p))"
  shows "snd (adsb_parse fx frame st) = (case build (eb_now (wall_clock fx) (adsb_base_builder (ad_source_id st) (ad_enrichment st) fx p)) of
     Inl err \<Rightarrow> Inl (AdsbBuild err) | Inr e \<Rightarrow> Inr [e])"
  using assms parse_line_fixed [of frame st] by (simp add: adsb_parse_def)

lemma parse_line_position:
  assumes "parse_line frame st = (st', Inr (Some p))"
  obtains icao line parts where "adsb_msg frame = Some (icao, line, parts)" "adsb_message icao line parts st = (st', Some p)"
proof (cases "adsb_msg frame")
  case None
  with parse_line_msg(2) [OF None, of st] assms show ?thesis by simp
next
  case (Some m)
  obtain icao line parts where m: "m = (icao, line, parts)" by (metis prod_cases3)
  with Some assms parse_line_msg(1) [of frame icao line parts st] that [of icao line parts] show ?thesis
    by (cases "adsb_message icao line parts st") auto
qed

lemma adsb_position_ok:
  assumes "parse_line frame st = (st', Inr (Some p))"
  shows "is_finite (dp_alt_m p) \<longleftrightarrow> location_ok \<lparr>latitude = dp_lat p, longitude = dp_lon p, altitude_m = dp_alt_m p\<rparr>"
  using assms
proof (rule parse_line_position)
  fix icao line parts
  assume "adsb_message icao line parts st = (st', Some p)"
  from adsb_message_position [OF this] show ?thesis by (intro adsb_fix_ok) blast
qed

lemma adsb_parse_finite:
  assumes "parse_line frame st = (st', Inr (Some p))" "ad_source_id st \<noteq> []" "is_rfc3339 (wall_clock fx)"
  shows "(\<exists>e. adsb_parse fx frame st = (st', Inr [e])) \<longleftrightarrow> is_finite (dp_alt_m p)"
proof -
  have "fst (adsb_parse fx frame st) = st'" using assms(1) by (simp add: adsb_parse_fst)
  then show ?thesis
    using adsb_parse_position [OF assms(1), of fx] adsb_event_of_position [OF assms(2,3), of "ad_enrichment st" fx p]
      adsb_position_ok [OF assms(1)]
    by (cases "adsb_parse fx frame st") (auto split: sum.splits)
qed

lemma adsb_parse_event:
  assumes "parse_line frame st = (st', Inr (Some p))" "ad_source_id st \<noteq> []" "is_rfc3339 (wall_clock fx)"
    "adsb_parse fx frame st = (st', Inr [e])"
  shows "canonical_event e \<and> ev_payload e = dp_raw p \<and> set (ungoverned ONTOLOGY e) \<subseteq> {''on_ground''}"
proof -
  let ?b = "eb_now (wall_clock fx) (adsb_base_builder (ad_source_id st) (ad_enrichment st) fx p)"
  have b: "build ?b = Inr e" using assms(4) adsb_parse_position [OF assms(1), of fx] by (auto split: sum.splits)
  have "set (ungoverned ONTOLOGY (built_event ?b)) \<subseteq> {''on_ground''}"
    using ungoverned_within [OF keys_setters(3) [OF keys_adsb] adsb_keys_small(1,2), of ONTOLOGY "wall_clock fx"
        "ad_source_id st" "ad_enrichment st" fx p] adsb_keys_small(6)
    by (simp add: eb_fixed_sel adsb_builder_fields)
  with b build_source [OF b] show ?thesis by (auto simp: build_Inr_iff built_event_def eb_fixed_sel adsb_builder_fields)
qed

lemma update_state_altitude:
  "as_altitude_ft (update_state parts s) = (case adsb_num parts 11 of Some ft \<Rightarrow> Some ft | None \<Rightarrow> as_altitude_ft s)"
proof -
  have keep: "(\<And>x s. as_altitude_ft (g x s) = as_altitude_ft s) \<Longrightarrow> as_altitude_ft (set_some g r s) = as_altitude_ft s"
    for r :: "'b option" and g s
    by (cases r) (simp_all add: set_some_def)
  show ?thesis by (simp add: update_state_def keep) (simp add: set_some_def keep split: option.split)
qed

lemma cached_entry_inv: "adsb_inv st \<Longrightarrow> adsb_entry_inv (cached_entry icao st)"
  using adsb_entry_inv_default by (auto simp: cached_entry_def adsb_inv_def split: option.split)

lemma adsb_position_carry:
  assumes "adsb_inv st" "parse_line frame st = (st', Inr (Some p))"
  shows "\<exists>icao line parts d. adsb_msg frame = Some (icao, line, parts)
    \<and> dp_state p = update_state parts (en_state (cached_entry icao st))
    \<and> dp_raw p = join [10] (drop d (en_pending (cached_entry icao st) @ [as_bytes line]))
    \<and> (dp_truncated p \<longleftrightarrow> en_dropped (cached_entry icao st) \<or> 0 < d)"
  using assms(2)
proof (rule parse_line_position)
  fix icao line parts
  assume m: "adsb_msg frame = Some (icao, line, parts)" "adsb_message icao line parts st = (st', Some p)"
  note i = cached_entry_inv [OF assms(1), of icao]
  from adsb_carry.push_frames [OF i, of "as_bytes line"] adsb_carry.push_lost [OF i, of "as_bytes line"]
    adsb_message_position [OF m(2)] m(1)
  show ?thesis
    by (intro exI [of _ icao] exI [of _ line] exI [of _ parts] exI [of _ "snd (adsb_push_raw (as_bytes line) (cached_entry icao st))"])
       (simp del: drop_append)
qed

interpretation adsb_frames: frame_parser "\<lambda>fx frame st. Some (adsb_parse fx frame st)" ad_source_id
proof
  fix fx frame st st' r
  assume "Some (adsb_parse fx frame st) = Some (st', r)"
  then show "ad_source_id st' = ad_source_id st" by (metis adsb_parse_fst fst_conv option.inject parse_line_fixed(1))
next
  fix fx frame st st' es e
  assume "Some (adsb_parse fx frame st) = Some (st', Inr es)" "e \<in> set es"
  then obtain p where "build (eb_now (wall_clock fx) (adsb_base_builder (ad_source_id st') (ad_enrichment st') fx p)) = Inr e"
      "ad_source_id st' = ad_source_id st"
    using parse_line_fixed(1) [of frame st] by (auto simp: adsb_parse_def split: prod.splits sum.splits option.splits)
  from build_source [OF this(1)] this(2) show "canonical_event e \<and> ev_source_id e = ad_source_id st"
    by (simp add: eb_fixed_sel adsb_builder_fields)
qed

section \<open>Properties\<close>

text \<open>C36. The cache refines its specification: on any feed of lines that names at most the cap of
  aircraft, the aircraft in the cache are those of the feed, and of each one it holds, for the callsign, the altitude, the speed, the
  track, the vertical rate, the squawk and the ground flag, what the last of its own lines says that says anything in that
  column of the format.\<close>

theorem adsb_state_refines:
  assumes "card (feed_icaos frames) \<le> MAX_AIRCRAFT"
  shows "dom (c_map (ad_aircraft (adsb_feed frames (adsb_new src en)))) = feed_icaos frames
    \<and> (\<forall>icao e. cache_get icao (ad_aircraft (adsb_feed frames (adsb_new src en))) = Some e
         \<longrightarrow> en_state e = latest_state icao frames)"
  using adsb_feed_refines [OF assms, where src = src and en = en] by (metis cached_entry_def option.simps(5))

text \<open>On any feed whatever, the cache of the parser holds at most its cap of aircraft and every
  carry buffer keeps to its caps.\<close>

theorem adsb_cache_bounded:
  "adsb_inv (adsb_feed frames (adsb_new src en))
   \<and> card (dom (c_map (ad_aircraft (adsb_feed frames (adsb_new src en))))) \<le> MAX_AIRCRAFT"
  using adsb_feed_inv [OF adsb_inv_new, of frames src en] adsb_order_length [of "adsb_feed frames (adsb_new src en)"]
  by (auto simp: adsb_inv_def fifo_inv_def)

text \<open>With a configured source and a clock that renders RFC 3339, a position report becomes an event
  exactly when its altitude in metres is finite. The event is canonical, has the cached state with
  the line's own fields, and carries every line of the aircraft since its last event up to the caps;
  \<open>on_ground\<close> is the only attribute it can have that the ontology does not declare.\<close>

theorem adsb_position_builds_iff:
  assumes "adsb_inv st" "parse_line frame st = (st', Inr (Some p))" "ad_source_id st \<noteq> []" "is_rfc3339 (wall_clock fx)"
  shows "((\<exists>e. adsb_parse fx frame st = (st', Inr [e])) \<longleftrightarrow> is_finite (dp_alt_m p))
    \<and> (\<forall>e. adsb_parse fx frame st = (st', Inr [e]) \<longrightarrow> canonical_event e \<and> ev_payload e = dp_raw p
         \<and> set (ungoverned ONTOLOGY e) \<subseteq> {''on_ground''})
    \<and> (\<exists>icao line parts d. adsb_msg frame = Some (icao, line, parts)
         \<and> dp_state p = update_state parts (en_state (cached_entry icao st))
         \<and> dp_raw p = join [10] (drop d (en_pending (cached_entry icao st) @ [as_bytes line]))
         \<and> (dp_truncated p \<longleftrightarrow> en_dropped (cached_entry icao st) \<or> 0 < d))"
  using adsb_parse_finite [OF assms(2-4)] adsb_parse_event [OF assms(2-4)] adsb_position_carry [OF assms(1,2)] by blast


text \<open>An altitude that does not stay finite sticks: once a line of an aircraft carried one (the text
  \<open>inf\<close> parses as a number), each later position report that has no altitude of its own is refused,
  although its latitude and longitude are good.\<close>

theorem adsb_bad_altitude_sticks:
  assumes "adsb_inv st" "ad_source_id st \<noteq> []" "is_rfc3339 (wall_clock fx)"
    and "adsb_msg f1 = Some (icao, l1, p1)" "adsb_num p1 11 = Some ft" "\<not> is_finite (f64_mul ft ADSB_FT_TO_M)"
    and "adsb_msg f2 = Some (icao, l2, p2)" "adsb_num p2 11 = None" "adsb_fix p2 \<noteq> None"
  shows "\<exists>err. snd (adsb_parse fx f2 (fst (parse_line f1 st))) = Inl (AdsbBuild err)"
proof -
  let ?st = "fst (parse_line f1 st)"
  have "cache_get icao (ad_aircraft ?st) = Some (entry_after l1 p1 (cached_entry icao st))"
    using adsb_message_get(1) [OF assms(1), of icao l1 p1] parse_line_msg(1) [OF assms(4)] by simp
  then have e: "en_state (cached_entry icao ?st) = update_state p1 (en_state (cached_entry icao st))"
    using entry_after_state by (simp add: cached_entry_def)
  obtain st2 p where m: "adsb_message icao l2 p2 ?st = (st2, Some p)"
    using assms(9) by (auto simp: adsb_message_def Let_def case_prod_beta split: option.splits)
  then have l: "parse_line f2 ?st = (st2, Inr (Some p))" using parse_line_msg(1) [OF assms(7), of ?st] by simp
  have "as_altitude_ft (dp_state p) = Some ft"
    using adsb_message_position [OF m] assms(5,8) by (simp add: e update_state_altitude)
  then have "\<not> is_finite (dp_alt_m p)" using adsb_message_position [OF m] assms(6) by simp
  with adsb_position_ok [OF l] adsb_event_of_position [of "ad_source_id ?st" "wall_clock fx" "ad_enrichment ?st" fx p]
    parse_line_fixed(1) [of f1 st] assms(2,3) adsb_parse_position [OF l, of fx]
  show ?thesis by (auto split: sum.splits)
qed

section \<open>Witnesses\<close>

definition ex_adsb :: adsb_parser where
  "ex_adsb = adsb_new ''adsb-1'' \<lparr>hostility = None\<rparr>"

definition adsb_effects :: effects where
  "adsb_effects = \<lparr>instant = 0, wall_clock = ''2026-06-10T08:00:00Z'', uuid = ''0''\<rparr>"

definition sbs_infinite :: bytes where
  "sbs_infinite = as_bytes ''MSG,5,1,1,4ca2d6,1,,,,,,inf''"

definition sbs_fix :: bytes where
  "sbs_fix = as_bytes ''MSG,3,1,1,4CA2D6,1,,,,,,,,,51.5,-0.5''"

lemma sbs_parts:
  "\<exists>l p. adsb_msg sbs_infinite = Some (''4CA2D6'', l, p) \<and> adsb_num p 11 = Some (FInf False)"
  "\<exists>l p. adsb_msg sbs_fix = Some (''4CA2D6'', l, p) \<and> adsb_num p 11 = None \<and> adsb_fix p \<noteq> None"
proof -
  have "\<forall>m \<in> set_option (adsb_msg sbs_infinite). fst m = ''4CA2D6'' \<and> adsb_num (snd (snd m)) 11 = Some (FInf False)"
    "adsb_msg sbs_infinite \<noteq> None"
    by code_simp+
  then show "\<exists>l p. adsb_msg sbs_infinite = Some (''4CA2D6'', l, p) \<and> adsb_num p 11 = Some (FInf False)" by auto
  have "\<forall>m \<in> set_option (adsb_msg sbs_fix). fst m = ''4CA2D6'' \<and> adsb_num (snd (snd m)) 11 = None
      \<and> adsb_fix (snd (snd m)) \<noteq> None"
    "adsb_msg sbs_fix \<noteq> None"
    by code_simp+
  then show "\<exists>l p. adsb_msg sbs_fix = Some (''4CA2D6'', l, p) \<and> adsb_num p 11 = None \<and> adsb_fix p \<noteq> None" by auto
qed

lemma ex_adsb_ready: "adsb_inv ex_adsb" "ad_source_id ex_adsb \<noteq> []" "is_rfc3339 (wall_clock adsb_effects)"
  by (simp_all add: ex_adsb_def adsb_inv_new) (simp_all add: adsb_new_def, code_simp)

theorem adsb_bad_altitude_sticks_witness:
  "\<exists>err. snd (adsb_parse adsb_effects sbs_fix (fst (parse_line sbs_infinite ex_adsb))) = Inl (AdsbBuild err)"
proof -
  obtain l1 p1 l2 p2 where a: "adsb_msg sbs_infinite = Some (''4CA2D6'', l1, p1)" "adsb_num p1 11 = Some (FInf False)"
      and b: "adsb_msg sbs_fix = Some (''4CA2D6'', l2, p2)" "adsb_num p2 11 = None" "adsb_fix p2 \<noteq> None"
    using sbs_parts by blast
  have "\<not> is_finite (f64_mul (FInf False) ADSB_FT_TO_M)" by code_simp
  from adsb_bad_altitude_sticks [OF ex_adsb_ready a this b] show ?thesis .
qed

definition sbs_feed :: "bytes list" where
  "sbs_feed = [as_bytes ''MSG,4,1,1,4ca2d6,1,,,,,,,450,90'', as_bytes ''MSG,5,1,1,4CA2D6,1,,,,,,1000'', as_bytes ''MSG,4,1,1,A0B1C2,1,,,,,,,30,10'',
     as_bytes ''MSG,5,1,1,4CA2D6,1,,,,,EIN1 ,2000'']"

lemma sbs_feed_latest: "latest_state ''4CA2D6'' sbs_feed = \<lparr>as_callsign = Some ''EIN1'', as_squawk = None, as_ground_speed_kn = Some (f64_of_int 450),
    as_track_deg = Some (f64_of_int 90), as_vertical_rate_ftmin = None, as_altitude_ft = Some (f64_of_int 2000), as_on_ground = None\<rparr>"
  by code_simp

theorem adsb_state_refines_witness:
  "\<exists>e. cache_get ''4CA2D6'' (ad_aircraft (adsb_feed sbs_feed (adsb_new ''a'' \<lparr>hostility = None\<rparr>))) = Some e
     \<and> as_callsign (en_state e) = Some ''EIN1'' \<and> as_ground_speed_kn (en_state e) = Some (f64_of_int 450)
     \<and> as_altitude_ft (en_state e) = Some (f64_of_int 2000)"
proof -
  have "card (feed_icaos sbs_feed) \<le> card (set (List.map_filter adsb_msg sbs_feed))"
    unfolding feed_icaos_def by (rule card_image_le) simp
  also have "\<dots> \<le> length (List.map_filter adsb_msg sbs_feed)" by (rule card_length)
  also have "\<dots> \<le> MAX_AIRCRAFT" by (simp add: List.map_filter_def sbs_feed_def MAX_AIRCRAFT_def)
  finally have r: "dom (c_map (ad_aircraft (adsb_feed sbs_feed (adsb_new ''a'' \<lparr>hostility = None\<rparr>)))) = feed_icaos sbs_feed
      \<and> (\<forall>icao e. cache_get icao (ad_aircraft (adsb_feed sbs_feed (adsb_new ''a'' \<lparr>hostility = None\<rparr>))) = Some e \<longrightarrow> en_state e = latest_state icao sbs_feed)"
    by (rule adsb_state_refines)
  have "list_ex (\<lambda>(i, l, p). i = ''4CA2D6'') (List.map_filter adsb_msg sbs_feed)" by code_simp
  then have "''4CA2D6'' \<in> feed_icaos sbs_feed" by (force simp: feed_icaos_def list_ex_iff)
  then have "''4CA2D6'' \<in> dom (c_map (ad_aircraft (adsb_feed sbs_feed (adsb_new ''a'' \<lparr>hostility = None\<rparr>))))" using r by blast
  then obtain e where "cache_get ''4CA2D6'' (ad_aircraft (adsb_feed sbs_feed (adsb_new ''a'' \<lparr>hostility = None\<rparr>))) = Some e"
    unfolding cache_get_def by blast
  with r sbs_feed_latest show ?thesis by auto
qed

theorem adsb_position_builds_iff_witness:
  "\<exists>st' p e. parse_line sbs_fix ex_adsb = (st', Inr (Some p)) \<and> adsb_parse adsb_effects sbs_fix ex_adsb = (st', Inr [e]) \<and> canonical_event e"
proof -
  obtain l p2 where b: "adsb_msg sbs_fix = Some (''4CA2D6'', l, p2)" "adsb_num p2 11 = None" "adsb_fix p2 \<noteq> None"
    using sbs_parts by blast
  obtain st2 p where m: "adsb_message ''4CA2D6'' l p2 ex_adsb = (st2, Some p)"
    using b(3) by (auto simp: adsb_message_def Let_def case_prod_beta split: option.splits)
  then have pl: "parse_line sbs_fix ex_adsb = (st2, Inr (Some p))" using parse_line_msg(1) [OF b(1)] by simp
  have "cached_entry ''4CA2D6'' ex_adsb = adsb_entry_default"
    by (simp add: cached_entry_def ex_adsb_def adsb_new_def cache_get_def cache_new_def)
  then have "dp_alt_m p = f64_of_int 0"
    using adsb_message_position [OF m] b(2)
    by (simp add: update_state_altitude adsb_entry_default_def aircraft_state_default_def)
  then have "is_finite (dp_alt_m p)" using f64_of_int_exact [of 0] by simp
  with adsb_position_builds_iff [OF ex_adsb_ready(1) pl ex_adsb_ready(2,3)] pl show ?thesis by blast
qed


end
