(* ===== verification/Ast_Wire.thy ===== *)
theory Ast_Wire
  imports Event_Builder
begin

text \<open>
  \<open>rust/connectors/asterix/src/asterix/field.rs\<close> and \<open>wire.rs\<close>: the length engine of ASTERIX (block
  header, FSPEC walk, octet length of each item) and the value decoders that the categories share.
  \<open>Option\<close> results of the source are \<open>option\<close>; in the value decoders \<open>None\<close> is the panic of an index
  out of range. The lemmas show that a record walk goes forward and tiles its record, that every item
  it returns has the length its category declares, and that it recovers what an encoder wrote.
\<close>

section \<open>Items and their lengths\<close>

datatype item = Item nat

definition ITEM_SP :: item where "ITEM_SP = Item 1000"
definition ITEM_RE :: item where "ITEM_RE = Item 1001"
definition ITEM_SPARE :: item where "ITEM_SPARE = Item 1002"

datatype field =
    Fixed nat
  | Extended nat
  | Repetitive nat
  | Explicit
  | Compound "field list"
  | Spare
  | Opaque

datatype asterix_error =
    BadBlock "u8 option" nat nat
  | AstTruncated
  | UnsupportedItem u8 nat
  | AstBuild build_error

text \<open>The loop of \<open>Field::Extended\<close>. Every unit in use is positive; a unit of zero would not end
  when the octet before \<open>off\<close> has its low bit set, and is \<open>None\<close> here.\<close>

function extended_len :: "nat \<Rightarrow> bytes \<Rightarrow> nat \<Rightarrow> nat \<Rightarrow> nat option" where
  "extended_len unit data off n =
     (if off + (n + unit) = 0 then None
      else let last = off + (n + unit) - 1 in
        if length data \<le> last then None
        else if data ! last AND 1 = 0 then Some (n + unit)
        else if unit = 0 then None
        else extended_len unit data off (n + unit))"
  by auto

termination
  by (relation "measure (\<lambda>(unit, data, off, n). length data - (off + n))") auto

text \<open>The seven presence bits of an octet, bit 8 first.\<close>

definition presence :: "u8 \<Rightarrow> bool list" where
  "presence octet = map (\<lambda>b. octet AND drop_bit b 0x80 \<noteq> 0) [0..<7]"

function primary_bits :: "bytes \<Rightarrow> nat \<Rightarrow> bool list option" where
  "primary_bits data off =
     (if length data \<le> off then None
      else let octet = data ! off in
        if octet AND 1 = 0 then Some (presence octet)
        else map_option (\<lambda>bits. presence octet @ bits) (primary_bits data (off + 1)))"
  by auto

termination
  by (relation "measure (\<lambda>(data, off). length data - off)") auto

declare extended_len.simps [simp del] primary_bits.simps [simp del]

text \<open>\<open>subs_len\<close> is the loop over the presence bits of a compound item; its first argument holds the
  subfields from the current position on.\<close>

fun field_len :: "field \<Rightarrow> bytes \<Rightarrow> nat \<Rightarrow> nat option"
  and subs_len :: "field list \<Rightarrow> bool list \<Rightarrow> bytes \<Rightarrow> nat \<Rightarrow> nat \<Rightarrow> nat option" where
  "field_len (Fixed n) data off = Some n"
| "field_len Spare data off = Some 0"
| "field_len (Extended unit) data off = extended_len unit data off 0"
| "field_len (Repetitive n) data off = map_option (\<lambda>rep. 1 + unat rep * n) (slice_get data off)"
| "field_len Explicit data off = map_option unat (slice_get data off)"
| "field_len (Compound subs) data off =
     Option.bind (primary_bits data off) (\<lambda>bits. subs_len subs bits data off ((length bits + 6) div 7))"
| "field_len Opaque data off = None"
| "subs_len subs [] data off n = Some n"
| "subs_len [] (p # bits) data off n = (if p then None else subs_len [] bits data off n)"
| "subs_len (sub # subs) (p # bits) data off n =
     (if p then Option.bind (field_len sub data (off + n)) (\<lambda>k. subs_len subs bits data off (n + k))
      else subs_len subs bits data off n)"

text \<open>The loop of \<open>walk_compound\<close> from subfield \<open>i\<close> on.\<close>

fun compound_from :: "field list \<Rightarrow> bool list \<Rightarrow> nat \<Rightarrow> bytes \<Rightarrow> nat \<Rightarrow> (nat \<times> bytes) list" where
  "compound_from subs [] i data off = []"
| "compound_from [] (p # bits) i data off = (if p then [] else compound_from [] bits (Suc i) data off)"
| "compound_from (sub # subs) (p # bits) i data off =
     (if p then
        (case field_len sub data off of None \<Rightarrow> []
         | Some n \<Rightarrow> if length data < off + n then []
             else (i, take n (drop off data)) # compound_from subs bits (Suc i) data (off + n))
      else compound_from subs bits (Suc i) data off)"

definition walk_compound :: "field list \<Rightarrow> bytes \<Rightarrow> (nat \<times> bytes) list" where
  "walk_compound subs data =
     (case primary_bits data 0 of None \<Rightarrow> []
      | Some bits \<Rightarrow> compound_from subs bits 0 data ((length bits + 6) div 7))"

section \<open>Blocks and records\<close>

definition block_header :: "bytes \<Rightarrow> asterix_error + u8 \<times> nat" where
  "block_header frame =
     (case frame of
        cat # hi # lo # _ \<Rightarrow>
          let len = unat (u16_from_be hi lo) in
          if len < 3 \<or> length frame < len then Inl (BadBlock (Some cat) len (length frame)) else Inr (cat, len)
      | _ \<Rightarrow> Inl (BadBlock None 0 (length frame)))"

text \<open>The FRNs that an FSPEC octet names, numbered from \<open>frn\<close>; the counter is a saturating \<open>u8\<close>.\<close>

fun fspec_octet :: "bool list \<Rightarrow> nat \<Rightarrow> nat list \<times> nat" where
  "fspec_octet [] frn = ([], frn)"
| "fspec_octet (p # bits) frn =
     (let (frns, next) = fspec_octet bits (min 255 (frn + 1)) in (if p then frn # frns else frns, next))"

function walk_fspec :: "bytes \<Rightarrow> nat \<Rightarrow> nat \<Rightarrow> asterix_error + nat list \<times> nat" where
  "walk_fspec data off frn =
     (if length data \<le> off then Inl AstTruncated
      else let octet = data ! off; (here, next) = fspec_octet (presence octet) frn in
        if octet AND 1 = 0 then Inr (here, off + 1)
        else try_bind (walk_fspec data (off + 1) next) (\<lambda>(frns, end). Inr (here @ frns, end)))"
  by auto

termination
  by (relation "measure (\<lambda>(data, off, frn). length data - off)") auto

declare walk_fspec.simps [simp del]

fun walk_items ::
  "u8 \<Rightarrow> (item \<times> field) list \<Rightarrow> bytes \<Rightarrow> nat list \<Rightarrow> nat \<Rightarrow> asterix_error + (item \<times> bytes) list \<times> nat" where
  "walk_items cat uap data [] off = Inr ([], off)"
| "walk_items cat uap data (frn # frns) off =
     try_bind (ok_or (UnsupportedItem cat frn) (slice_get uap (frn - 1))) (\<lambda>(item, field).
       case field_len field data off of
         None \<Rightarrow> Inl (case field of Opaque \<Rightarrow> UnsupportedItem cat frn | Compound _ \<Rightarrow> UnsupportedItem cat frn | _ \<Rightarrow> AstTruncated)
       | Some n \<Rightarrow>
           try_bind (ok_or AstTruncated (slice_range data off (off + n))) (\<lambda>bytes.
             try_bind (walk_items cat uap data frns (off + n)) (\<lambda>(items, end). Inr ((item, bytes) # items, end))))"

definition walk_record ::
  "u8 \<Rightarrow> (item \<times> field) list \<Rightarrow> bytes \<Rightarrow> nat \<Rightarrow> asterix_error + (item \<times> bytes) list \<times> nat" where
  "walk_record cat uap data off =
     try_bind (walk_fspec data off 1) (\<lambda>(present, off). walk_items cat uap data present off)"

section \<open>Values\<close>

fun be_uint_from :: "bytes \<Rightarrow> nat \<Rightarrow> nat \<Rightarrow> u64 \<Rightarrow> u64 option" where
  "be_uint_from data start 0 v = Some v"
| "be_uint_from data start (Suc n) v =
     Option.bind (slice_get data start) (\<lambda>b. be_uint_from data (Suc start) n (push_bit 8 v OR ucast b))"

definition be_uint :: "bytes \<Rightarrow> nat \<Rightarrow> nat \<Rightarrow> u64 option" where
  "be_uint data start n = be_uint_from data start n 0"

definition sign_extend :: "u64 \<Rightarrow> nat \<Rightarrow> int" where
  "sign_extend v bits = (let shift = 64 - bits in sint (signed_drop_bit shift (push_bit shift v)))"

definition be_signed :: "bytes \<Rightarrow> nat \<Rightarrow> nat \<Rightarrow> f64 option" where
  "be_signed data start n = map_option (\<lambda>v. f64_of_int (sign_extend v (n * 8))) (be_uint data start n)"

definition time_of_day_s :: "bytes \<Rightarrow> f64 option" where
  "time_of_day_s item = map_option (\<lambda>v. f64_div (f64_of_int (uint v)) (f64_of_int 128)) (be_uint item 0 3)"

definition mode_3a :: "u16 \<Rightarrow> str" where
  "mode_3a v = (let code = v AND 0x0FFF
     in map (\<lambda>s. digit_char (uint (drop_bit s code AND 7))) [9, 6, 3, 0])"

definition icao_char :: "u8 \<Rightarrow> char" where
  "icao_char c = (if 1 \<le> c \<and> c \<le> 26 then char_of (65 + uint c - 1)
     else if 48 \<le> c \<and> c \<le> 57 then char_of (48 + uint c - 48) else CHR '' '')"

text \<open>The length check comes first, so \<open>be_uint\<close> is in range.\<close>

definition aircraft_id :: "bytes \<Rightarrow> str option" where
  "aircraft_id item =
     (if length item < 6 then None
      else Option.bind (be_uint item 0 6) (\<lambda>v.
        let s = trim (map (\<lambda>k. icao_char (ucast (drop_bit (42 - 6 * k) v AND 0x3F))) [0..<8])
        in if s = [] then None else Some s))"

definition u16_at :: "bytes \<Rightarrow> nat \<Rightarrow> u16 option" where
  "u16_at item i = Option.bind (slice_get item i) (\<lambda>a. map_option (\<lambda>b. u16_from_be a b) (slice_get item (i + 1)))"

definition i16_at :: "bytes \<Rightarrow> nat \<Rightarrow> int option" where
  "i16_at item i = map_option sint (u16_at item i)"

section \<open>Lengths\<close>

text \<open>What the length engine guarantees of the bytes of a measured item.\<close>

fun field_fits :: "field \<Rightarrow> bytes \<Rightarrow> bool" where
  "field_fits (Fixed n) bs \<longleftrightarrow> length bs = n"
| "field_fits (Extended unit) bs \<longleftrightarrow> unit \<le> length bs"
| "field_fits Spare bs \<longleftrightarrow> bs = []"
| "field_fits _ bs \<longleftrightarrow> True"

lemma extended_len_ge: "extended_len unit data off n = Some k \<Longrightarrow> n + unit \<le> k"
proof (induction unit data off n rule: extended_len.induct)
  case (1 unit data off n)
  then show ?case by (subst (asm) (2) extended_len.simps) (auto simp: Let_def split: if_splits)
qed

lemma field_len_fits: "field_len f data off = Some n \<Longrightarrow> length bs = n \<Longrightarrow> field_fits f bs"
  by (cases f) (auto dest: extended_len_ge)

lemma length_presence [simp]: "length (presence octet) = 7"
  by (simp add: presence_def)

lemma primary_bits_length: "primary_bits data off = Some bits \<Longrightarrow> length bits mod 7 = 0 \<and> 7 \<le> length bits"
proof (induction data off arbitrary: bits rule: primary_bits.induct)
  case (1 data off)
  then show ?case by (subst (asm) (2) primary_bits.simps) (auto simp: Let_def mod_add_eq split: if_splits)
qed

lemma slice_get_Suc: "i < j \<Longrightarrow> slice_get (x # xs) (j - i) = slice_get xs (j - Suc i)"
  by (cases "j - i") (auto simp: slice_get_def diff_Suc)

lemma compound_from_fits:
  "(j, bs) \<in> set (compound_from subs bits i data off) \<Longrightarrow> i \<le> j \<and> (\<exists>f. slice_get subs (j - i) = Some f \<and> field_fits f bs)"
proof (induction subs bits i data off rule: compound_from.induct)
  case (3 sub subs p bits i data off)
  show ?case
  proof (cases "p \<and> (\<exists>n. field_len sub data off = Some n \<and> off + n \<le> length data)")
    case True
    then obtain n where n: "field_len sub data off = Some n" "off + n \<le> length data" by blast
    with True "3.prems" consider "j = i" "bs = take n (drop off data)" | "(j, bs) \<in> set (compound_from subs bits (Suc i) data (off + n))"
      by auto
    then show ?thesis
    proof cases
      case 1
      with n field_len_fits [OF n(1), of bs] show ?thesis by (simp add: slice_get_def)
    next
      case 2
      from "3.IH"(1) [OF _ n(1) _ 2] True n(2) have "i < j" "\<exists>f. slice_get subs (j - Suc i) = Some f \<and> field_fits f bs" by auto
      then show ?thesis by (simp add: slice_get_Suc)
    qed
  next
    case False
    then have "\<not> p \<and> (j, bs) \<in> set (compound_from subs bits (Suc i) data off)"
      using "3.prems" by (auto split: option.splits if_splits)
    with "3.IH"(2) have "i < j" "\<exists>f. slice_get subs (j - Suc i) = Some f \<and> field_fits f bs" by auto
    then show ?thesis by (simp add: slice_get_Suc)
  qed
qed (auto simp: slice_get_def split: if_splits)

lemma walk_compound_fits:
  "(j, bs) \<in> set (walk_compound subs data) \<Longrightarrow> \<exists>f. slice_get subs j = Some f \<and> field_fits f bs"
  using compound_from_fits [of j bs subs _ 0 data] by (auto simp: walk_compound_def split: option.splits)

section \<open>The record walk\<close>

lemma walk_fspec_range: "walk_fspec data off frn = Inr (frns, end) \<Longrightarrow> off < end \<and> end \<le> length data"
proof (induction data off frn arbitrary: frns rule: walk_fspec.induct)
  case (1 data off frn)
  obtain here nxt where f: "fspec_octet (presence (data ! off)) frn = (here, nxt)" by force
  from "1.prems" show ?case
    by (subst (asm) walk_fspec.simps)
       (auto simp: f try_bind_Inr_iff split: if_splits dest: "1.IH" [OF _ refl refl f [symmetric]])
qed

text \<open>An item with its bytes is one the category declares, of the declared length.\<close>

definition item_fits :: "(item \<times> field) list \<Rightarrow> item \<times> bytes \<Rightarrow> bool" where
  "item_fits uap ib \<longleftrightarrow> list_ex (\<lambda>(item, f). item = fst ib \<and> field_fits f (snd ib)) uap"

lemma walk_items_spec:
  "walk_items cat uap data frns off = Inr (items, end) \<Longrightarrow> off \<le> length data \<Longrightarrow>
     off \<le> end \<and> end \<le> length data \<and> take (end - off) (drop off data) = concat (map snd items)
     \<and> list_all (item_fits uap) items \<and> length items = length frns"
proof (induction frns arbitrary: off items)
  case (Cons frn frns)
  from Cons.prems obtain item f n bytes rest where
    u: "slice_get uap (frn - 1) = Some (item, f)" and n: "field_len f data off = Some n"
    and b: "slice_range data off (off + n) = Some bytes"
    and r: "walk_items cat uap data frns (off + n) = Inr (rest, end)" and i: "items = (item, bytes) # rest"
    by (auto simp: try_bind_Inr_iff ok_or_Inr_iff split: option.splits)
  have l: "off + n \<le> length data" "bytes = take n (drop off data)" using b by (auto simp: slice_simps)
  note ih = Cons.IH [OF r l(1)]
  have "take (end - off) (drop off data) = take n (drop off data) @ take (end - (off + n)) (drop (off + n) data)"
  proof -
    have "end - off = n + (end - (off + n))" using ih by simp
    then show ?thesis by (simp only: take_add drop_drop) (simp add: add.commute)
  qed
  moreover have "item_fits uap (item, bytes)"
    using slice_get_in_set [OF u] field_len_fits [OF n, of bytes] l by (auto simp: item_fits_def list_ex_iff)
  ultimately show ?case using ih l i by simp
qed simp

lemma walk_record_spec:
  assumes "walk_record cat uap data off = Inr (items, end)"
  shows "\<exists>fs. off < fs \<and> fs \<le> end \<and> end \<le> length data \<and> take (end - fs) (drop fs data) = concat (map snd items)
    \<and> list_all (item_fits uap) items"
proof -
  from assms obtain frns fs where w: "walk_fspec data off 1 = Inr (frns, fs)" "walk_items cat uap data frns fs = Inr (items, end)"
    by (auto simp: walk_record_def try_bind_Inr_iff)
  with walk_fspec_range [OF w(1)] walk_items_spec [OF w(2)] show ?thesis by auto
qed


section \<open>The walk inverts an encoder\<close>

text \<open>Measuring does not depend on what surrounds the measured bytes.\<close>

lemma extended_len_in:
  "off + (n + unit) = Suc j \<Longrightarrow> j < length data \<Longrightarrow> extended_len unit data off n =
     (if data ! j AND 1 = 0 then Some (n + unit) else if unit = 0 then None else extended_len unit data off (n + unit))"
  by (subst extended_len.simps) (simp add: Let_def)

lemma extended_len_SomeD: "extended_len unit data off n = Some k \<Longrightarrow> \<exists>j. off + (n + unit) = Suc j \<and> j < length data"
  by (subst (asm) extended_len.simps) (auto simp: Let_def gr0_conv_Suc split: if_splits)

lemma extended_len_context:
  "extended_len unit data off n = Some k \<Longrightarrow> extended_len unit (pre @ data @ rest) (length pre + off) n = Some k"
proof (induction unit data off n rule: extended_len.induct)
  case (1 unit data off n)
  from extended_len_SomeD [OF "1.prems"] obtain j where l: "off + (n + unit) = Suc j" "j < length data" by blast
  then have x: "extended_len unit (pre @ data @ rest) (length pre + off) n =
      (if data ! j AND 1 = 0 then Some (n + unit) else if unit = 0 then None
       else extended_len unit (pre @ data @ rest) (length pre + off) (n + unit))"
    using extended_len_in [of "length pre + off" n unit "length pre + j" "pre @ data @ rest"] by (simp add: nth_append)
  show ?case
  proof (cases "data ! j AND 1 = 0 \<or> unit = 0")
    case True
    with "1.prems" show ?thesis unfolding x extended_len_in [OF l] by (auto split: if_splits)
  next
    case False
    then have f: "extended_len unit data off (n + unit) = Some k" using "1.prems" unfolding extended_len_in [OF l] by simp
    have "off + (n + unit) \<noteq> 0" "j = off + (n + unit) - 1" "\<not> length data \<le> j" using l by simp_all
    from "1.IH" [OF this _ _ f] False show ?thesis unfolding x by simp
  qed
qed

lemma primary_bits_context:
  "primary_bits data off = Some bits \<Longrightarrow> primary_bits (pre @ data @ rest) (length pre + off) = Some bits"
proof (induction data off arbitrary: bits rule: primary_bits.induct)
  case (1 data off)
  have c: "off < length data" using "1.prems" by (subst (asm) primary_bits.simps) (simp split: if_splits)
  show ?case
  proof (cases "data ! off AND 1 = 0")
    case True
    with "1.prems" c show ?thesis
      by (subst primary_bits.simps) (subst (asm) primary_bits.simps, simp add: Let_def nth_append)
  next
    case False
    with "1.prems" c obtain more where m: "primary_bits data (off + 1) = Some more" "bits = presence (data ! off) @ more"
      by (subst (asm) primary_bits.simps) (auto simp: Let_def)
    from "1.IH" [OF _ refl False m(1)] c False m(2) show ?thesis
      by (subst primary_bits.simps) (simp add: Let_def nth_append)
  qed
qed

lemma field_len_context:
  "field_len f data off = Some n \<Longrightarrow> field_len f (pre @ data @ rest) (length pre + off) = Some n"
  "subs_len subs bits data off m = Some n \<Longrightarrow> subs_len subs bits (pre @ data @ rest) (length pre + off) m = Some n"
proof (induction f data off and subs bits data off m arbitrary: n and n rule: field_len_subs_len.induct)
  case (6 subs data off)
  then show ?case using primary_bits_context [of data off] by (auto simp: bind_eq_Some_conv)
next
  case (10 sub subs p bits data off m)
  then show ?case by (auto simp: bind_eq_Some_conv add.assoc split: if_splits)
qed (auto simp: slice_get_def nth_append extended_len_context split: if_splits)

text \<open>An encoder of records: for each position of the category's profile, the bytes of the item if it
  is present. The FSPEC has seven presence bits to an octet and FX on every octet but the last.\<close>

definition pad7 :: "bool list \<Rightarrow> bool list" where
  "pad7 bits = take 7 (bits @ replicate 7 False)"

definition octet_of :: "bool list \<Rightarrow> bool \<Rightarrow> u8" where
  "octet_of bits fx = foldl (\<lambda>w b. push_bit 1 w OR of_bool b) 0 (pad7 bits @ [fx])"

function fspec_of :: "bool list \<Rightarrow> bytes" where
  "fspec_of bits = (if length bits \<le> 7 then [octet_of bits False] else octet_of (take 7 bits) True # fspec_of (drop 7 bits))"
  by auto

termination
  by (relation "measure length") auto

declare fspec_of.simps [simp del]

definition write_record :: "bytes option list \<Rightarrow> bytes" where
  "write_record xs = fspec_of (map (\<lambda>x. x \<noteq> None) xs) @ concat (List.map_filter (\<lambda>x. x) xs)"

fun present_from :: "bool list \<Rightarrow> nat \<Rightarrow> nat list" where
  "present_from [] frn = []"
| "present_from (p # bits) frn = (if p then frn # present_from bits (Suc frn) else present_from bits (Suc frn))"

lemma presence_bits: "presence w = map (\<lambda>b. bit w (7 - b)) [0..<7]"
proof -
  have "drop_bit b (0x80 :: u8) = 2 ^ (7 - b)" if "b < 7" for b
  proof -
    have "b \<in> {0, 1, 2, 3, 4, 5, 6}" using that by auto
    then show ?thesis by auto
  qed
  then show ?thesis by (simp add: presence_def and_exp_eq_0_iff_not_bit)
qed

lemma octet_of_bits:
  assumes "length bits \<le> 7"
  shows "presence (octet_of bits fx) = pad7 bits" "octet_of bits fx AND 1 = 0 \<longleftrightarrow> \<not> fx"
proof -
  have l: "length (pad7 bits) = 7" by (simp add: pad7_def)
  then obtain b0 b1 b2 b3 b4 b5 b6 where b: "pad7 bits = [b0, b1, b2, b3, b4, b5, b6]"
    by (auto simp: length_Suc_conv numeral_eq_Suc)
  show "presence (octet_of bits fx) = pad7 bits"
    by (simp add: presence_bits octet_of_def b upt_rec bit_simps)
  show "octet_of bits fx AND 1 = 0 \<longleftrightarrow> \<not> fx"
    by (simp add: octet_of_def b bit_simps flip: bit_0)
qed

lemma present_from_append: "present_from (xs @ ys) frn = present_from xs frn @ present_from ys (frn + length xs)"
  by (induction xs arbitrary: frn) simp_all

lemma present_from_pad: "length bits \<le> 7 \<Longrightarrow> present_from (pad7 bits) frn = present_from bits frn"
proof -
  assume "length bits \<le> 7"
  then have "pad7 bits = bits @ replicate (7 - length bits) False" by (simp add: pad7_def)
  moreover have "present_from (replicate n False) k = []" for n k by (induction n arbitrary: k) simp_all
  ultimately show ?thesis by (simp add: present_from_append)
qed

lemma fspec_octet_present: "frn + length bits \<le> 255 \<Longrightarrow> fspec_octet bits frn = (present_from bits frn, frn + length bits)"
  by (induction bits arbitrary: frn) simp_all

lemma walk_fspec_encoded:
  "frn + length bits + 7 \<le> 255 \<Longrightarrow> walk_fspec (pre @ fspec_of bits @ rest) (length pre) frn
     = Inr (present_from bits frn, length pre + length (fspec_of bits))"
proof (induction bits arbitrary: pre frn rule: fspec_of.induct)
  case (1 bits)
  show ?case
  proof (cases "length bits \<le> 7")
    case True
    then show ?thesis using "1.prems"
      by (subst walk_fspec.simps)
         (simp add: fspec_of.simps [of bits] octet_of_bits fspec_octet_present present_from_pad pad7_def [of bits, symmetric] Let_def)
  next
    case False
    let ?o = "octet_of (take 7 bits) True"
    have o: "presence ?o = take 7 bits" "?o AND 1 \<noteq> 0"
      using octet_of_bits [of "take 7 bits" True] False by (simp_all add: pad7_def)
    have f: "fspec_of bits = ?o # fspec_of (drop 7 bits)" using False by (simp add: fspec_of.simps [of bits])
    have p: "fspec_octet (take 7 bits) frn = (present_from (take 7 bits) frn, frn + 7)"
      using fspec_octet_present [of frn "take 7 bits"] "1.prems" False by simp
    have "present_from bits frn = present_from (take 7 bits) frn @ present_from (drop 7 bits) (frn + 7)"
      using present_from_append [of "take 7 bits" "drop 7 bits" frn] False by simp
    with "1.IH" [OF False, of "frn + 7" "pre @ [?o]"] "1.prems" False show ?thesis
      by (subst walk_fspec.simps) (simp add: f o p)
  qed
qed

text \<open>The items an encoded record holds, and that each measures to its own length.\<close>

definition encoded_items :: "(item \<times> field) list \<Rightarrow> bytes option list \<Rightarrow> (item \<times> bytes) list" where
  "encoded_items uap xs = List.map_filter (\<lambda>((item, f), x). map_option (\<lambda>bs. (item, bs)) x) (zip uap xs)"

definition encodable :: "(item \<times> field) list \<Rightarrow> bytes option list \<Rightarrow> bool" where
  "encodable uap xs \<longleftrightarrow> length xs \<le> length uap
     \<and> list_all (\<lambda>((item, f), x). case x of None \<Rightarrow> True | Some bs \<Rightarrow> field_len f bs 0 = Some (length bs)) (zip uap xs)"

lemma walk_items_encoded:
  "encodable (drop k uap) xs \<Longrightarrow>
     walk_items cat uap (pre @ concat (List.map_filter (\<lambda>x. x) xs) @ rest) (present_from (map (\<lambda>x. x \<noteq> None) xs) (Suc k)) (length pre)
       = Inr (encoded_items (drop k uap) xs, length pre + length (concat (List.map_filter (\<lambda>x. x) xs)))"
proof (induction xs arbitrary: k pre)
  case Nil
  then show ?case by (simp add: encoded_items_def List.map_filter_def)
next
  case (Cons x xs)
  from Cons.prems obtain item f us where d: "drop k uap = (item, f) # us"
    by (cases "drop k uap") (auto simp: encodable_def)
  then have "k < length uap" by (metis drop_eq_Nil linorder_not_le list.distinct(1))
  with d have u: "slice_get uap k = Some (item, f)" "drop (Suc k) uap = us"
    using Cons_nth_drop_Suc [of k uap] by (simp_all add: slice_get_def)
  have e: "encodable (drop (Suc k) uap) xs" using Cons.prems d u(2) by (simp add: encodable_def)
  show ?case
  proof (cases x)
    case None
    with Cons.IH [OF e] d u(2) show ?thesis by (simp add: encoded_items_def List.map_filter_simps)
  next
    case (Some bs)
    let ?body = "concat (List.map_filter (\<lambda>x. x) xs)"
    have "field_len f (pre @ bs @ ?body @ rest) (length pre) = Some (length bs)"
      using Cons.prems d Some field_len_context(1) [of f bs 0 "length bs" pre "?body @ rest"] by (simp add: encodable_def)
    moreover have "slice_range (pre @ bs @ ?body @ rest) (length pre) (length pre + length bs) = Some bs"
      by (simp add: slice_range_def)
    ultimately show ?thesis
      using Cons.IH [OF e, of "pre @ bs"] Some u d
      by (simp add: encoded_items_def List.map_filter_simps ok_or_def)
  qed
qed

section \<open>Properties\<close>

text \<open>C26. The record walk inverts the encoder: a record written with any choice of present items of a
  category's profile, each measuring to its own length, is read back as those items with their
  bytes, wherever it stands and whatever follows it.\<close>

theorem walk_record_inverts_encoder:
  assumes "encodable uap xs" "length xs \<le> 247"
  shows "walk_record cat uap (pre @ write_record xs @ rest) (length pre)
    = Inr (encoded_items uap xs, length pre + length (write_record xs))"
proof -
  let ?m = "map (\<lambda>x. x \<noteq> None) xs"
  have f: "walk_fspec (pre @ fspec_of ?m @ concat (List.map_filter (\<lambda>x. x) xs) @ rest) (length pre) 1
      = Inr (present_from ?m (Suc 0), length pre + length (fspec_of ?m))"
    using walk_fspec_encoded [of 1 ?m pre "concat (List.map_filter (\<lambda>x. x) xs) @ rest"] assms(2) by simp
  from walk_items_encoded [of 0 uap xs cat "pre @ fspec_of ?m" rest] assms(1) f show ?thesis
    by (simp add: walk_record_def write_record_def add.assoc)
qed

text \<open>A record walk that succeeds goes forward and stays inside the data, so a block is walked in
  finitely many records; the items tile what follows the FSPEC without gap or overlap, and each has
  the length its category declares.\<close>

theorem walk_record_tiles:
  assumes "walk_record cat uap data off = Inr (items, end)"
  shows "\<exists>fs. off < fs \<and> fs \<le> end \<and> end \<le> length data
    \<and> take (end - off) (drop off data) = take (fs - off) (drop off data) @ concat (map snd items)
    \<and> list_all (item_fits uap) items"
proof -
  obtain fs where f: "off < fs" "fs \<le> end" "end \<le> length data" "take (end - fs) (drop fs data) = concat (map snd items)"
      "list_all (item_fits uap) items"
    using walk_record_spec [OF assms] by blast
  have "take (end - off) (drop off data) = take (fs - off) (drop off data) @ take (end - fs) (drop fs data)"
  proof -
    have "end - off = (fs - off) + (end - fs)" using f by simp
    with f(1) show ?thesis by (simp only: take_add drop_drop) simp
  qed
  with f show ?thesis by metis
qed

section \<open>Witnesses\<close>

definition ex_uap :: "(item \<times> field) list" where
  "ex_uap = [(Item 10, Fixed 2), (Item 20, Extended 1), (Item 30, Repetitive 2), (Item 40, Compound [Fixed 1, Fixed 2])]"

definition ex_items :: "bytes option list" where
  "ex_items = [Some [25, 10], Some [3, 4], None, Some [0x40, 7, 8]]"

theorem walk_record_inverts_encoder_witness:
  "walk_record 48 ex_uap ([9] @ write_record ex_items @ [1, 2]) 1
     = Inr ([(Item 10, [25, 10]), (Item 20, [3, 4]), (Item 40, [0x40, 7, 8])], 1 + length (write_record ex_items))"
proof -
  have "encodable ex_uap ex_items"
    by (simp add: encodable_def ex_uap_def ex_items_def extended_len.simps primary_bits.simps presence_def upt_rec)
  moreover have "length ex_items \<le> 247" by (simp add: ex_items_def)
  moreover have "encoded_items ex_uap ex_items = [(Item 10, [25, 10]), (Item 20, [3, 4]), (Item 40, [0x40, 7, 8])]"
    by (simp add: encoded_items_def ex_uap_def ex_items_def List.map_filter_simps)
  ultimately show ?thesis using walk_record_inverts_encoder [of ex_uap ex_items 48 "[9]" "[1, 2]"] by simp
qed

theorem walk_record_tiles_witness:
  "\<exists>fs::nat. 0 < fs \<and> fs \<le> 3 \<and> take 3 [0x80, 25, 10] = take fs [0x80, 25, 10] @ [25, 10 :: u8] \<and> list_all (item_fits ex_uap) [(Item 10, [25, 10])]"
proof -
  have "walk_record 48 ex_uap [0x80, 25, 10] 0 = Inr ([(Item 10, [25, 10])], 3)"
    by (simp add: walk_record_def walk_fspec.simps presence_def upt_rec ex_uap_def ok_or_def slice_range_def)
  from walk_record_tiles [OF this] show ?thesis by auto
qed


end
