(* ===== verification/Ast_Categories.thy ===== *)
theory Ast_Categories
  imports Ast_Wire Connector
begin

text \<open>
  \<open>rust/connectors/asterix/src/asterix/cat010.rs\<close>, \<open>cat021.rs\<close>, \<open>cat034.rs\<close>, \<open>cat048.rs\<close> and
  \<open>cat062.rs\<close>: the profile of each category and the decoder of its items. A decoder folds over the
  items of a record; \<open>None\<close> is the panic of an index out of range. The lemmas show that no decoder
  panics on items that the record walk returned.
\<close>

definition AST_KNOTS_TO_MPS :: f64 where "AST_KNOTS_TO_MPS = f64_of_rat (514444 / 1000000)"
definition AST_NM_TO_M :: f64 where "AST_NM_TO_M = f64_of_int 1852"
definition AST_FT_TO_M :: f64 where "AST_FT_TO_M = f64_of_rat (3048 / 10000)"
definition ANGLE_16 :: f64 where "ANGLE_16 = f64_div (f64_of_int 360) (f64_of_int 65536)"
definition SPEED_LSB_KN :: f64 where "SPEED_LSB_KN = f64_div (f64_of_int 3600) (f64_of_int 16384)"
definition AST_EARTH_RADIUS_M :: f64 where "AST_EARTH_RADIUS_M = f64_of_int 6371000"

abbreviation f64_quarter :: f64 where "f64_quarter \<equiv> f64_of_rat (1 / 4)"
abbreviation f64_half :: f64 where "f64_half \<equiv> f64_of_rat (1 / 2)"
abbreviation f64_6_25 :: f64 where "f64_6_25 \<equiv> f64_of_rat (25 / 4)"

record asterix_target =
  at_category :: u8
  at_sac :: u8
  at_sic :: u8
  at_track :: "u32 option"
  at_icao :: "u32 option"
  at_lat :: "f64 option"
  at_lon :: "f64 option"
  at_polar :: "(f64 \<times> f64) option"
  at_cartesian_m :: "(f64 \<times> f64) option"
  at_message_type :: "u8 option"
  at_report_type :: "str option"
  at_vehicle_fleet :: "str option"
  at_size :: "(f64 \<times> f64 option \<times> f64 option) option"
  at_position_sd_m :: "(f64 \<times> f64) option"
  at_accuracy_v_m :: "f64 option"
  at_velocity_sd_mps :: "(f64 \<times> f64) option"
  at_alt_ft :: "f64 option"
  at_ground_speed_kn :: "f64 option"
  at_track_angle_deg :: "f64 option"
  at_vertical_rate_ftmin :: "f64 option"
  at_squawk :: "str option"
  at_callsign :: "str option"
  at_emitter :: "str option"
  at_time_of_day_s :: "f64 option"
  at_simulated :: bool
  at_test_target :: bool
  at_field_monitor :: bool
  at_raw :: bytes

definition target_of :: "u8 \<Rightarrow> asterix_target" where
  "target_of category = \<lparr>at_category = category, at_sac = 0, at_sic = 0, at_track = None, at_icao = None, at_lat = None,
     at_lon = None, at_polar = None, at_cartesian_m = None, at_message_type = None, at_report_type = None,
     at_vehicle_fleet = None, at_size = None, at_position_sd_m = None, at_accuracy_v_m = None, at_velocity_sd_mps = None,
     at_alt_ft = None, at_ground_speed_kn = None, at_track_angle_deg = None, at_vertical_rate_ftmin = None,
     at_squawk = None, at_callsign = None, at_emitter = None, at_time_of_day_s = None, at_simulated = False,
     at_test_target = False, at_field_monitor = False, at_raw = []\<rparr>"

definition set_pos :: "f64 \<Rightarrow> f64 \<Rightarrow> asterix_target \<Rightarrow> asterix_target" where
  "set_pos lat lon t = t\<lparr>at_lat := Some lat, at_lon := Some lon\<rparr>"

record sensor =
  se_lat :: f64
  se_lon :: f64
  se_alt_m :: f64

definition forward_geodetic :: "libm \<Rightarrow> f64 \<Rightarrow> f64 \<Rightarrow> f64 \<Rightarrow> f64 \<Rightarrow> f64 \<times> f64" where
  "forward_geodetic lm lat lon bearing_deg dist_m =
     (let d = f64_div dist_m AST_EARTH_RADIUS_M; br = f64_to_radians bearing_deg;
          lat1 = f64_to_radians lat; lon1 = f64_to_radians lon;
          lat2 = m_asin lm (f64_add (f64_mul (m_sin lm lat1) (m_cos lm d))
                   (f64_mul (f64_mul (m_cos lm lat1) (m_sin lm d)) (m_cos lm br)));
          lon2 = f64_add lon1 (m_atan2 lm (f64_mul (f64_mul (m_sin lm br) (m_sin lm d)) (m_cos lm lat1))
                   (f64_sub (m_cos lm d) (f64_mul (m_sin lm lat1) (m_sin lm lat2))))
      in (f64_to_degrees lat2, f64_to_degrees lon2))"

text \<open>\<open>for (id, item) in items { ... }\<close>, each step of which may panic.\<close>

fun each_pair :: "('i \<Rightarrow> bytes \<Rightarrow> 't \<Rightarrow> 't option) \<Rightarrow> ('i \<times> bytes) list \<Rightarrow> 't \<Rightarrow> 't option" where
  "each_pair step [] t = Some t"
| "each_pair step ((i, item) # rest) t = Option.bind (step i item t) (each_pair step rest)"

text \<open>A 16-bit binary angle and a ground speed, as floating-point numbers.\<close>

definition angle_at :: "bytes \<Rightarrow> nat \<Rightarrow> f64 option" where
  "angle_at item i = map_option (\<lambda>v. f64_mul (f64_of_int (uint v)) ANGLE_16) (u16_at item i)"

definition speed_at :: "bytes \<Rightarrow> nat \<Rightarrow> f64 option" where
  "speed_at item i = map_option (\<lambda>v. f64_mul (f64_of_int (uint v)) SPEED_LSB_KN) (u16_at item i)"

definition data_source :: "bytes \<Rightarrow> asterix_target \<Rightarrow> asterix_target option" where
  "data_source item t = do { sac \<leftarrow> slice_get item 0; sic \<leftarrow> slice_get item 1; Some (t\<lparr>at_sac := sac, at_sic := sic\<rparr>) }"

section \<open>CAT010\<close>

definition CAT010_UAP :: "(item \<times> field) list" where
  "CAT010_UAP = [(Item 10, Fixed 2), (Item 0, Fixed 1), (Item 20, Extended 1), (Item 140, Fixed 3), (Item 41, Fixed 8),
     (Item 40, Fixed 4), (Item 42, Fixed 4), (Item 200, Fixed 4), (Item 202, Fixed 4), (Item 161, Fixed 2),
     (Item 170, Extended 1), (Item 60, Fixed 2), (Item 220, Fixed 3), (Item 245, Fixed 7),
     (Item 250, Repetitive 8), (Item 300, Fixed 1), (Item 90, Fixed 2), (Item 91, Fixed 2),
     (Item 270, Extended 1), (Item 550, Fixed 1), (Item 310, Fixed 1), (Item 500, Fixed 4),
     (Item 280, Repetitive 2), (Item 131, Fixed 1), (Item 210, Fixed 2), (ITEM_SPARE, Spare), (ITEM_SP, Explicit),
     (ITEM_RE, Explicit)]"

definition LSB_041 :: f64 where "LSB_041 = f64_div (f64_of_int 180) (f64_of_int (2 ^ 31))"

definition vehicle_fleet_of :: "u8 \<Rightarrow> str option" where
  "vehicle_fleet_of code = map_of [(1, ''atc-equipment-maintenance''), (2, ''airport-maintenance''), (3, ''fire''),
     (4, ''bird-scarer''), (5, ''snow-plough''), (6, ''runway-sweeper''), (7, ''emergency''), (8, ''police''), (9, ''bus''),
     (10, ''tug''), (11, ''grass-cutter''), (12, ''fuel''), (13, ''baggage''), (14, ''catering''),
     (15, ''aircraft-maintenance''), (16, ''flyco'')] code"

definition report_type_of :: "u8 \<Rightarrow> str" where
  "report_type_of o1 = (let typ = drop_bit 5 o1 in
     if typ = 0 then ''ssr-multilateration'' else if typ = 1 then ''mode-s-multilateration''
     else if typ = 2 then ''ads-b'' else if typ = 3 then ''psr'' else if typ = 4 then ''magnetic-loop''
     else if typ = 5 then ''hf-multilateration'' else ''other'')"

definition cat010_descriptor :: "bytes \<Rightarrow> asterix_target \<Rightarrow> asterix_target option" where
  "cat010_descriptor item t = do {
     o1 \<leftarrow> slice_get item 0;
     let t = t\<lparr>at_report_type := Some (report_type_of o1)\<rparr>;
     Some (if o1 AND 0x01 \<noteq> 0 then
             (case slice_get item 1 of None \<Rightarrow> t
              | Some ext \<Rightarrow> t\<lparr>at_simulated := ext AND 0x80 \<noteq> 0, at_test_target := ext AND 0x40 \<noteq> 0,
                             at_field_monitor := ext AND 0x20 \<noteq> 0\<rparr>)
           else t) }"

text \<open>Velocity from I010/202: east and north in quarter metres per second.\<close>

definition cat010_velocity :: "libm \<Rightarrow> bytes \<Rightarrow> asterix_target \<Rightarrow> asterix_target option" where
  "cat010_velocity lm item t = do {
     x \<leftarrow> be_signed item 0 2; y \<leftarrow> be_signed item 2 2;
     let vx = f64_mul x f64_quarter; let vy = f64_mul y f64_quarter;
     let speed_mps = f64_sqrt (f64_add (f64_mul vx vx) (f64_mul vy vy));
     let t = t\<lparr>at_ground_speed_kn := Some (f64_div speed_mps AST_KNOTS_TO_MPS)\<rparr>;
     Some (if f64_lt (f64_of_int 0) speed_mps
           then t\<lparr>at_track_angle_deg := Some (f64_rem_euclid (f64_to_degrees (m_atan2 lm vx vy)) (f64_of_int 360))\<rparr> else t) }"

definition flight_level :: "bytes \<Rightarrow> asterix_target \<Rightarrow> asterix_target option" where
  "flight_level item t = do {
     o1 \<leftarrow> slice_get item 0;
     if o1 AND 0xC0 = 0
     then do { w \<leftarrow> u16_at item 0;
               Some (t\<lparr>at_alt_ft := Some (f64_mul (f64_of_int (sign_extend (ucast (w AND 0x3FFF)) 14)) (f64_of_int 25))\<rparr>) }
     else Some t }"

definition checked_squawk :: "bytes \<Rightarrow> asterix_target \<Rightarrow> asterix_target option" where
  "checked_squawk item t = do {
     w \<leftarrow> u16_at item 0; Some (if w AND 0xC000 = 0 then t\<lparr>at_squawk := Some (mode_3a w)\<rparr> else t) }"

definition polar_velocity :: "bytes \<Rightarrow> asterix_target \<Rightarrow> asterix_target option" where
  "polar_velocity item t = do {
     gs \<leftarrow> speed_at item 0; hd \<leftarrow> angle_at item 2;
     Some (t\<lparr>at_ground_speed_kn := Some gs, at_track_angle_deg := Some hd\<rparr>) }"

definition cat010_size :: "bytes \<Rightarrow> asterix_target \<Rightarrow> asterix_target option" where
  "cat010_size item t = do {
     o1 \<leftarrow> slice_get item 0;
     let half = (\<lambda>o' :: u8. f64_of_int (uint (drop_bit 1 o')));
     let orientation = map_option (\<lambda>o'. f64_div (f64_mul (half o') (f64_of_int 360)) (f64_of_int 128)) (slice_get item 1);
     let width = map_option half (slice_get item 2);
     Some (t\<lparr>at_size := Some (half o1, width, orientation)\<rparr>) }"

definition cat010_item :: "libm \<Rightarrow> item \<Rightarrow> bytes \<Rightarrow> asterix_target \<Rightarrow> asterix_target option" where
  "cat010_item lm i item t =
     (if i = Item 10 then data_source item t
      else if i = Item 0 then map_option (\<lambda>m. t\<lparr>at_message_type := Some m\<rparr>) (slice_get item 0)
      else if i = Item 20 then cat010_descriptor item t
      else if i = Item 140 then map_option (\<lambda>s. t\<lparr>at_time_of_day_s := Some s\<rparr>) (time_of_day_s item)
      else if i = Item 41 then do { lat \<leftarrow> be_signed item 0 4; lon \<leftarrow> be_signed item 4 4;
        Some (set_pos (f64_mul lat LSB_041) (f64_mul lon LSB_041) t) }
      else if i = Item 40 then do { rho \<leftarrow> u16_at item 0; theta \<leftarrow> angle_at item 2;
        Some (t\<lparr>at_polar := Some (f64_div (f64_of_int (uint rho)) AST_NM_TO_M, theta)\<rparr>) }
      else if i = Item 42 then do { x \<leftarrow> be_signed item 0 2; y \<leftarrow> be_signed item 2 2; Some (t\<lparr>at_cartesian_m := Some (x, y)\<rparr>) }
      else if i = Item 200 then polar_velocity item t
      else if i = Item 202 then cat010_velocity lm item t
      else if i = Item 161 then map_option (\<lambda>v. t\<lparr>at_track := Some (ucast (v AND 0x0FFF))\<rparr>) (u16_at item 0)
      else if i = Item 60 then checked_squawk item t
      else if i = Item 220 then map_option (\<lambda>v. t\<lparr>at_icao := Some (ucast v)\<rparr>) (be_uint item 0 3)
      else if i = Item 245 then Some (t\<lparr>at_callsign := Option.bind (slice_range item 1 7) aircraft_id\<rparr>)
      else if i = Item 300 then map_option (\<lambda>c. t\<lparr>at_vehicle_fleet := vehicle_fleet_of c\<rparr>) (slice_get item 0)
      else if i = Item 90 then flight_level item t
      else if i = Item 91 then map_option (\<lambda>h. t\<lparr>at_alt_ft := Some (f64_mul h f64_6_25)\<rparr>) (be_signed item 0 2)
      else if i = Item 270 then cat010_size item t
      else if i = Item 500 then do { x \<leftarrow> slice_get item 0; y \<leftarrow> slice_get item 1;
        Some (t\<lparr>at_position_sd_m := Some (f64_mul (f64_of_int (uint x)) f64_quarter, f64_mul (f64_of_int (uint y)) f64_quarter)\<rparr>) }
      else Some t)"

definition cat010_place :: "libm \<Rightarrow> sensor option \<Rightarrow> asterix_target \<Rightarrow> asterix_target" where
  "cat010_place lm site t =
     (case site of None \<Rightarrow> t
      | Some s \<Rightarrow>
          if at_lat t \<noteq> None then t
          else case at_polar t of
            Some (rho_nm, theta) \<Rightarrow>
              (let (lat, lon) = forward_geodetic lm (se_lat s) (se_lon s) theta (f64_mul rho_nm AST_NM_TO_M) in set_pos lat lon t)
          | None \<Rightarrow> (case at_cartesian_m t of
              Some (x, y) \<Rightarrow>
                let dist = f64_sqrt (f64_add (f64_mul x x) (f64_mul y y));
                    bearing = f64_rem_euclid (f64_to_degrees (m_atan2 lm x y)) (f64_of_int 360);
                    (lat, lon) = forward_geodetic lm (se_lat s) (se_lon s) bearing dist
                in set_pos lat lon t
            | None \<Rightarrow> t))"

definition cat010_decode :: "libm \<Rightarrow> (item \<times> bytes) list \<Rightarrow> sensor option \<Rightarrow> asterix_target option" where
  "cat010_decode lm items site = map_option (cat010_place lm site) (each_pair (cat010_item lm) items (target_of 10))"

section \<open>CAT021\<close>

definition CAT021_UAP :: "(item \<times> field) list" where
  "CAT021_UAP = [(Item 10, Fixed 2), (Item 40, Extended 1), (Item 161, Fixed 2), (Item 15, Fixed 1), (Item 71, Fixed 3),
     (Item 130, Fixed 6), (Item 131, Fixed 8), (Item 72, Fixed 3), (Item 150, Fixed 2), (Item 151, Fixed 2),
     (Item 80, Fixed 3), (Item 73, Fixed 3), (Item 74, Fixed 4), (Item 75, Fixed 3), (Item 76, Fixed 4),
     (Item 140, Fixed 2), (Item 90, Extended 1), (Item 210, Fixed 1), (Item 70, Fixed 2), (Item 230, Fixed 2),
     (Item 145, Fixed 2), (Item 152, Fixed 2), (Item 200, Fixed 1), (Item 155, Fixed 2), (Item 157, Fixed 2),
     (Item 160, Fixed 4), (Item 165, Fixed 2), (Item 77, Fixed 3), (Item 170, Fixed 6), (Item 20, Fixed 1),
     (Item 220, Opaque), (Item 146, Fixed 2), (Item 148, Fixed 2), (Item 110, Opaque), (Item 16, Fixed 1),
     (Item 8, Fixed 1), (Item 271, Extended 1), (Item 132, Fixed 1), (Item 250, Repetitive 8),
     (Item 260, Fixed 7), (Item 400, Fixed 1), (Item 295, Opaque), (ITEM_RE, Explicit), (ITEM_SP, Explicit)]"

definition LSB_130 :: f64 where "LSB_130 = f64_div (f64_of_int 180) (f64_of_int (2 ^ 23))"
definition LSB_131 :: f64 where "LSB_131 = f64_div (f64_of_int 180) (f64_of_int (2 ^ 30))"

definition emitter_category :: "u8 \<Rightarrow> str option" where
  "emitter_category code = map_of [(1, ''light''), (2, ''small''), (3, ''medium''), (4, ''high-vortex''), (5, ''heavy''),
     (6, ''high-performance''), (7, ''rotorcraft''), (10, ''glider''), (11, ''lighter-than-air''), (12, ''uav''),
     (13, ''space''), (20, ''emergency-vehicle''), (21, ''service-vehicle'')] code"

definition cat021_item :: "item \<Rightarrow> bytes \<Rightarrow> asterix_target \<Rightarrow> asterix_target option" where
  "cat021_item i item t =
     (if i = Item 10 then data_source item t
      else if i = Item 161 then map_option (\<lambda>v. t\<lparr>at_track := Some (ucast v)\<rparr>) (u16_at item 0)
      else if i = Item 130 then do { lat \<leftarrow> be_signed item 0 3; lon \<leftarrow> be_signed item 3 3;
        Some (set_pos (f64_mul lat LSB_130) (f64_mul lon LSB_130) t) }
      else if i = Item 131 then do { lat \<leftarrow> be_signed item 0 4; lon \<leftarrow> be_signed item 4 4;
        Some (set_pos (f64_mul lat LSB_131) (f64_mul lon LSB_131) t) }
      else if i = Item 80 then map_option (\<lambda>v. t\<lparr>at_icao := Some (ucast v)\<rparr>) (be_uint item 0 3)
      else if i = Item 140 then map_option (\<lambda>h. t\<lparr>at_alt_ft := Some (f64_mul (f64_of_int h) f64_6_25)\<rparr>) (i16_at item 0)
      else if i = Item 70 then map_option (\<lambda>v. t\<lparr>at_squawk := Some (mode_3a v)\<rparr>) (u16_at item 0)
      else if i = Item 145 then map_option (\<lambda>fl. case at_alt_ft t of Some _ \<Rightarrow> t
        | None \<Rightarrow> t\<lparr>at_alt_ft := Some (f64_mul (f64_of_int fl) (f64_of_int 25))\<rparr>) (i16_at item 0)
      else if i = Item 160 then polar_velocity item t
      else if i = Item 170 then Some (t\<lparr>at_callsign := aircraft_id item\<rparr>)
      else if i = Item 20 then map_option (\<lambda>c. t\<lparr>at_emitter := emitter_category c\<rparr>) (slice_get item 0)
      else Some t)"

definition cat021_decode :: "(item \<times> bytes) list \<Rightarrow> asterix_target option" where
  "cat021_decode items = each_pair cat021_item items (target_of 21)"

section \<open>CAT034\<close>

definition CAT034_SUB_050 :: "field list" where
  "CAT034_SUB_050 = [Fixed 1, Spare, Spare, Fixed 1, Fixed 1, Fixed 2, Spare]"

definition CAT034_SUB_060 :: "field list" where
  "CAT034_SUB_060 = [Fixed 1, Spare, Spare, Fixed 1, Fixed 1, Fixed 1, Spare]"

definition CAT034_UAP :: "(item \<times> field) list" where
  "CAT034_UAP = [(Item 10, Fixed 2), (Item 0, Fixed 1), (Item 30, Fixed 3), (Item 20, Fixed 1), (Item 41, Fixed 2),
     (Item 50, Compound CAT034_SUB_050), (Item 60, Compound CAT034_SUB_060), (Item 70, Repetitive 2),
     (Item 100, Fixed 8), (Item 110, Fixed 1), (Item 120, Fixed 8), (Item 90, Fixed 2), (ITEM_RE, Explicit),
     (ITEM_SP, Explicit)]"

definition LSB_120 :: f64 where "LSB_120 = f64_div (f64_of_int 180) (f64_of_int (2 ^ 23))"

definition NORTH_MARKER :: u8 where "NORTH_MARKER = 1"
definition SECTOR_CROSSING :: u8 where "SECTOR_CROSSING = 2"
definition JAMMING_STROBE :: u8 where "JAMMING_STROBE = 4"
definition SSR_JAMMING_STROBE :: u8 where "SSR_JAMMING_STROBE = 6"
definition MODE_S_JAMMING_STROBE :: u8 where "MODE_S_JAMMING_STROBE = 7"

record radar_status =
  rs_nogo :: "bool option"
  rs_rdp_overload :: "bool option"
  rs_xmt_overload :: "bool option"
  rs_monitoring_disconnected :: "bool option"
  rs_time_source_invalid :: "bool option"
  rs_psr_overload :: "bool option"
  rs_ssr_overload :: "bool option"
  rs_mds_overload :: "bool option"

definition radar_status_default :: radar_status where
  "radar_status_default = \<lparr>rs_nogo = None, rs_rdp_overload = None, rs_xmt_overload = None, rs_monitoring_disconnected = None,
     rs_time_source_invalid = None, rs_psr_overload = None, rs_ssr_overload = None, rs_mds_overload = None\<rparr>"

definition newer :: "'a option \<Rightarrow> 'a option \<Rightarrow> 'a option" where
  "newer old new = (if new \<noteq> None then new else old)"

definition status_merge :: "radar_status \<Rightarrow> radar_status \<Rightarrow> radar_status" where
  "status_merge self other = \<lparr>rs_nogo = newer (rs_nogo self) (rs_nogo other),
     rs_rdp_overload = newer (rs_rdp_overload self) (rs_rdp_overload other),
     rs_xmt_overload = newer (rs_xmt_overload self) (rs_xmt_overload other),
     rs_monitoring_disconnected = newer (rs_monitoring_disconnected self) (rs_monitoring_disconnected other),
     rs_time_source_invalid = newer (rs_time_source_invalid self) (rs_time_source_invalid other),
     rs_psr_overload = newer (rs_psr_overload self) (rs_psr_overload other),
     rs_ssr_overload = newer (rs_ssr_overload self) (rs_ssr_overload other),
     rs_mds_overload = newer (rs_mds_overload self) (rs_mds_overload other)\<rparr>"

definition degraded :: "radar_status \<Rightarrow> bool" where
  "degraded s \<longleftrightarrow> Some True \<in> set [rs_nogo s, rs_rdp_overload s, rs_xmt_overload s, rs_psr_overload s, rs_ssr_overload s, rs_mds_overload s]"

record service_report =
  sv_sac :: u8
  sv_sic :: u8
  sv_message_type :: u8
  sv_time_of_day_s :: "f64 option"
  sv_sector :: "u8 option"
  sv_rotation_period_s :: "f64 option"
  sv_position :: "(f64 \<times> f64 \<times> f64) option"
  sv_status :: radar_status
  sv_window :: "(f64 \<times> f64 \<times> f64 \<times> f64) option"
  sv_raw :: bytes

definition service_report_default :: service_report where
  "service_report_default = \<lparr>sv_sac = 0, sv_sic = 0, sv_message_type = 0, sv_time_of_day_s = None, sv_sector = None,
     sv_rotation_period_s = None, sv_position = None, sv_status = radar_status_default, sv_window = None, sv_raw = []\<rparr>"

definition is_published :: "service_report \<Rightarrow> bool" where
  "is_published r \<longleftrightarrow> sv_message_type r \<in> {NORTH_MARKER, JAMMING_STROBE, SSR_JAMMING_STROBE, MODE_S_JAMMING_STROBE}"

definition message_name :: "service_report \<Rightarrow> str" where
  "message_name r = (let m = sv_message_type r in
     if m = NORTH_MARKER then ''north-marker'' else if m = SECTOR_CROSSING then ''sector-crossing''
     else if m = 3 then ''geographical-filtering'' else if m = JAMMING_STROBE then ''jamming-strobe''
     else if m = 5 then ''solar-storm'' else if m = SSR_JAMMING_STROBE then ''ssr-jamming-strobe''
     else if m = MODE_S_JAMMING_STROBE then ''mode-s-jamming-strobe'' else ''unknown'')"

definition cat034_status :: "nat \<Rightarrow> bytes \<Rightarrow> radar_status \<Rightarrow> radar_status option" where
  "cat034_status sub bs s =
     (if sub = 0 then map_option (\<lambda>com. s\<lparr>rs_nogo := Some (com AND 0x80 \<noteq> 0), rs_rdp_overload := Some (com AND 0x10 \<noteq> 0),
        rs_xmt_overload := Some (com AND 0x08 \<noteq> 0), rs_monitoring_disconnected := Some (com AND 0x04 \<noteq> 0),
        rs_time_source_invalid := Some (com AND 0x02 \<noteq> 0)\<rparr>) (slice_get bs 0)
      else if sub = 3 then map_option (\<lambda>b. s\<lparr>rs_psr_overload := Some (b AND 0x10 \<noteq> 0)\<rparr>) (slice_get bs 0)
      else if sub = 4 then map_option (\<lambda>b. s\<lparr>rs_ssr_overload := Some (b AND 0x10 \<noteq> 0)\<rparr>) (slice_get bs 0)
      else if sub = 5 then map_option (\<lambda>b. s\<lparr>rs_mds_overload := Some (b AND 0x10 \<noteq> 0)\<rparr>) (slice_get bs 0)
      else Some s)"

definition over :: "u16 \<Rightarrow> int \<Rightarrow> f64" where
  "over v n = f64_div (f64_of_int (uint v)) (f64_of_int n)"

definition cat034_item :: "item \<Rightarrow> bytes \<Rightarrow> service_report \<Rightarrow> service_report option" where
  "cat034_item i item r =
     (if i = Item 10 then do { sac \<leftarrow> slice_get item 0; sic \<leftarrow> slice_get item 1; Some (r\<lparr>sv_sac := sac, sv_sic := sic\<rparr>) }
      else if i = Item 0 then map_option (\<lambda>m. r\<lparr>sv_message_type := m\<rparr>) (slice_get item 0)
      else if i = Item 30 then map_option (\<lambda>s. r\<lparr>sv_time_of_day_s := Some s\<rparr>) (time_of_day_s item)
      else if i = Item 20 then map_option (\<lambda>s. r\<lparr>sv_sector := Some s\<rparr>) (slice_get item 0)
      else if i = Item 41 then map_option (\<lambda>p. r\<lparr>sv_rotation_period_s := Some (over p 128)\<rparr>) (u16_at item 0)
      else if i = Item 50 then map_option (\<lambda>s. r\<lparr>sv_status := s\<rparr>)
        (each_pair cat034_status (walk_compound CAT034_SUB_050 item) (sv_status r))
      else if i = Item 100 then do { r0 \<leftarrow> u16_at item 0; r1 \<leftarrow> u16_at item 2; a0 \<leftarrow> angle_at item 4; a1 \<leftarrow> angle_at item 6;
        Some (r\<lparr>sv_window := Some (over r0 256, over r1 256, a0, a1)\<rparr>) }
      else if i = Item 120 then do { h \<leftarrow> be_signed item 0 2; lat \<leftarrow> be_signed item 2 3; lon \<leftarrow> be_signed item 5 3;
        Some (r\<lparr>sv_position := Some (f64_mul lat LSB_120, f64_mul lon LSB_120, h)\<rparr>) }
      else Some r)"

definition cat034_decode :: "(item \<times> bytes) list \<Rightarrow> service_report option" where
  "cat034_decode items = each_pair cat034_item items service_report_default"

section \<open>CAT048\<close>

definition CAT048_SUB_130 :: "field list" where
  "CAT048_SUB_130 = [Fixed 1, Fixed 1, Fixed 1, Fixed 1, Fixed 1, Fixed 1, Fixed 1]"

definition CAT048_SUB_120 :: "field list" where
  "CAT048_SUB_120 = [Fixed 2, Repetitive 6]"

definition CAT048_UAP :: "(item \<times> field) list" where
  "CAT048_UAP = [(Item 10, Fixed 2), (Item 140, Fixed 3), (Item 20, Extended 1), (Item 40, Fixed 4), (Item 70, Fixed 2),
     (Item 90, Fixed 2), (Item 130, Compound CAT048_SUB_130), (Item 220, Fixed 3), (Item 240, Fixed 6),
     (Item 250, Repetitive 8), (Item 161, Fixed 2), (Item 42, Fixed 4), (Item 200, Fixed 4),
     (Item 170, Extended 1), (Item 210, Fixed 4), (Item 30, Extended 1), (Item 80, Fixed 2), (Item 100, Fixed 4),
     (Item 110, Fixed 2), (Item 120, Compound CAT048_SUB_120), (Item 230, Fixed 2), (Item 260, Fixed 7),
     (Item 55, Fixed 1), (Item 50, Fixed 2), (Item 65, Fixed 1), (Item 60, Fixed 2), (ITEM_SP, Explicit),
     (ITEM_RE, Explicit)]"

definition cat048_descriptor :: "bytes \<Rightarrow> asterix_target \<Rightarrow> asterix_target option" where
  "cat048_descriptor item t = do {
     o1 \<leftarrow> slice_get item 0;
     let t = t\<lparr>at_simulated := o1 AND 0x10 \<noteq> 0, at_field_monitor := o1 AND 0x02 \<noteq> 0\<rparr>;
     Some (if o1 AND 0x01 \<noteq> 0 then
             (case slice_get item 1 of None \<Rightarrow> t | Some ext \<Rightarrow> t\<lparr>at_test_target := ext AND 0x80 \<noteq> 0\<rparr>)
           else t) }"

definition cat048_item :: "item \<Rightarrow> bytes \<Rightarrow> asterix_target \<Rightarrow> asterix_target option" where
  "cat048_item i item t =
     (if i = Item 10 then data_source item t
      else if i = Item 140 then map_option (\<lambda>s. t\<lparr>at_time_of_day_s := Some s\<rparr>) (time_of_day_s item)
      else if i = Item 20 then cat048_descriptor item t
      else if i = Item 40 then do { rho \<leftarrow> u16_at item 0; theta \<leftarrow> angle_at item 2; Some (t\<lparr>at_polar := Some (over rho 256, theta)\<rparr>) }
      else if i = Item 70 then checked_squawk item t
      else if i = Item 90 then flight_level item t
      else if i = Item 220 then map_option (\<lambda>v. t\<lparr>at_icao := Some (ucast v)\<rparr>) (be_uint item 0 3)
      else if i = Item 240 then Some (t\<lparr>at_callsign := aircraft_id item\<rparr>)
      else if i = Item 161 then map_option (\<lambda>v. t\<lparr>at_track := Some (ucast (v AND 0x0FFF))\<rparr>) (u16_at item 0)
      else if i = Item 200 then polar_velocity item t
      else Some t)"

definition cat048_place :: "libm \<Rightarrow> sensor option \<Rightarrow> asterix_target \<Rightarrow> asterix_target" where
  "cat048_place lm site t =
     (case (at_polar t, site) of
        (Some (rho_nm, theta), Some s) \<Rightarrow>
          let slant_m = f64_mul rho_nm AST_NM_TO_M;
              height_m = (case at_alt_ft t of Some ft \<Rightarrow> f64_sub (f64_mul ft AST_FT_TO_M) (se_alt_m s) | None \<Rightarrow> f64_of_int 0);
              ground_m = (if f64_lt (f64_abs height_m) slant_m
                then f64_sqrt (f64_sub (f64_mul slant_m slant_m) (f64_mul height_m height_m)) else f64_of_int 0);
              (lat, lon) = forward_geodetic lm (se_lat s) (se_lon s) theta ground_m
          in set_pos lat lon t
      | _ \<Rightarrow> t)"

definition cat048_decode :: "libm \<Rightarrow> (item \<times> bytes) list \<Rightarrow> sensor option \<Rightarrow> asterix_target option" where
  "cat048_decode lm items site = map_option (cat048_place lm site) (each_pair cat048_item items (target_of 48))"

section \<open>CAT062\<close>

definition CAT062_SUB_380 :: "field list" where
  "CAT062_SUB_380 = [Fixed 3, Fixed 6, Fixed 2, Fixed 2, Fixed 2, Fixed 2, Fixed 2, Extended 1, Repetitive 15, Fixed 2, Fixed 2,
     Fixed 7, Fixed 2, Fixed 2, Fixed 2, Fixed 2, Fixed 2, Fixed 2, Fixed 1, Fixed 8, Fixed 1, Fixed 6, Fixed 2,
     Fixed 1, Repetitive 8, Fixed 2, Fixed 2, Fixed 2]"

definition CAT062_SUB_290 :: "field list" where
  "CAT062_SUB_290 = [Fixed 1, Fixed 1, Fixed 1, Fixed 1, Fixed 2, Fixed 1, Fixed 1, Fixed 1, Fixed 1, Fixed 1, Spare, Spare,
     Spare, Spare]"

definition CAT062_SUB_295 :: "field list" where
  "CAT062_SUB_295 = [Fixed 1, Fixed 1, Fixed 1, Fixed 1, Fixed 1, Fixed 1, Fixed 1, Fixed 1, Fixed 1, Fixed 1, Fixed 1, Fixed 1,
     Fixed 1, Fixed 1, Fixed 1, Fixed 1, Fixed 1, Fixed 1, Fixed 1, Fixed 1, Fixed 1, Fixed 1, Fixed 1, Fixed 1,
     Fixed 1, Fixed 1, Fixed 1, Fixed 1, Fixed 1, Fixed 1, Fixed 1, Spare, Spare, Spare, Spare]"

definition CAT062_SUB_500 :: "field list" where
  "CAT062_SUB_500 = [Fixed 4, Fixed 2, Fixed 4, Fixed 1, Fixed 1, Fixed 2, Fixed 2, Fixed 1, Spare, Spare, Spare, Spare, Spare,
     Spare]"

definition CAT062_SUB_340 :: "field list" where
  "CAT062_SUB_340 = [Fixed 2, Fixed 4, Fixed 2, Fixed 2, Fixed 2, Fixed 1, Spare]"

definition CAT062_SUB_110 :: "field list" where
  "CAT062_SUB_110 = [Fixed 1, Fixed 4, Fixed 6, Fixed 2, Fixed 2, Fixed 1, Fixed 1]"

definition CAT062_SUB_390 :: "field list" where
  "CAT062_SUB_390 = [Fixed 2, Fixed 7, Fixed 4, Fixed 1, Fixed 4, Fixed 1, Fixed 4, Fixed 4, Fixed 3, Fixed 2, Fixed 2,
     Repetitive 4, Fixed 6, Fixed 1, Fixed 7, Fixed 7, Fixed 2, Fixed 7, Spare, Spare, Spare]"

definition CAT062_UAP :: "(item \<times> field) list" where
  "CAT062_UAP = [(Item 10, Fixed 2), (ITEM_SPARE, Opaque), (Item 15, Fixed 1), (Item 70, Fixed 3), (Item 105, Fixed 8),
     (Item 100, Fixed 6), (Item 185, Fixed 4), (Item 210, Fixed 2), (Item 60, Fixed 2), (Item 245, Fixed 7),
     (Item 380, Compound CAT062_SUB_380), (Item 40, Fixed 2), (Item 80, Extended 1),
     (Item 290, Compound CAT062_SUB_290), (Item 200, Fixed 1), (Item 295, Compound CAT062_SUB_295),
     (Item 136, Fixed 2), (Item 130, Fixed 2), (Item 135, Fixed 2), (Item 220, Fixed 2),
     (Item 390, Compound CAT062_SUB_390), (Item 270, Extended 1), (Item 300, Fixed 1),
     (Item 110, Compound CAT062_SUB_110), (Item 120, Fixed 2), (Item 510, Extended 3),
     (Item 500, Compound CAT062_SUB_500), (Item 340, Compound CAT062_SUB_340), (ITEM_SPARE, Opaque),
     (ITEM_SPARE, Opaque), (ITEM_SPARE, Opaque), (ITEM_SPARE, Opaque), (ITEM_SPARE, Opaque), (ITEM_RE, Explicit),
     (ITEM_SP, Explicit)]"

definition LSB_105 :: f64 where "LSB_105 = f64_div (f64_of_int 180) (f64_of_int (2 ^ 25))"

definition cat062_derived :: "nat \<Rightarrow> bytes \<Rightarrow> asterix_target \<Rightarrow> asterix_target option" where
  "cat062_derived sub bs t =
     (if sub = 0 then map_option (\<lambda>v. t\<lparr>at_icao := Some (ucast v)\<rparr>) (be_uint bs 0 3)
      else if sub = 1 then Some (t\<lparr>at_callsign := aircraft_id bs\<rparr>)
      else Some t)"

definition cat062_accuracy :: "nat \<Rightarrow> bytes \<Rightarrow> asterix_target \<Rightarrow> asterix_target option" where
  "cat062_accuracy sub bs t =
     (if sub = 0 then do { x \<leftarrow> u16_at bs 0; y \<leftarrow> u16_at bs 2;
        Some (t\<lparr>at_position_sd_m := Some (f64_mul (f64_of_int (uint x)) f64_half, f64_mul (f64_of_int (uint y)) f64_half)\<rparr>) }
      else if sub = 4 then map_option (\<lambda>b. t\<lparr>at_accuracy_v_m :=
        Some (f64_mul (f64_mul (f64_of_int (uint b)) (f64_of_int 25)) AST_FT_TO_M)\<rparr>) (slice_get bs 0)
      else if sub = 5 then do { x \<leftarrow> slice_get bs 0; y \<leftarrow> slice_get bs 1;
        Some (t\<lparr>at_velocity_sd_mps := Some (f64_mul (f64_of_int (uint x)) f64_quarter, f64_mul (f64_of_int (uint y)) f64_quarter)\<rparr>) }
      else Some t)"

definition cat062_velocity :: "libm \<Rightarrow> bytes \<Rightarrow> asterix_target \<Rightarrow> asterix_target option" where
  "cat062_velocity lm item t = do {
     x \<leftarrow> i16_at item 0; y \<leftarrow> i16_at item 2;
     let vx = f64_mul (f64_of_int x) f64_quarter; let vy = f64_mul (f64_of_int y) f64_quarter;
     Some (t\<lparr>at_ground_speed_kn := Some (f64_div (f64_sqrt (f64_add (f64_mul vx vx) (f64_mul vy vy))) AST_KNOTS_TO_MPS),
            at_track_angle_deg := Some (f64_rem_euclid (f64_to_degrees (m_atan2 lm vx vy)) (f64_of_int 360))\<rparr>) }"

definition cat062_item :: "libm \<Rightarrow> item \<Rightarrow> bytes \<Rightarrow> asterix_target \<Rightarrow> asterix_target option" where
  "cat062_item lm i item t =
     (if i = Item 10 then data_source item t
      else if i = Item 70 then map_option (\<lambda>s. t\<lparr>at_time_of_day_s := Some s\<rparr>) (time_of_day_s item)
      else if i = Item 105 then do { lat \<leftarrow> be_signed item 0 4; lon \<leftarrow> be_signed item 4 4;
        Some (set_pos (f64_mul lat LSB_105) (f64_mul lon LSB_105) t) }
      else if i = Item 185 then cat062_velocity lm item t
      else if i = Item 60 then map_option (\<lambda>v. t\<lparr>at_squawk := Some (mode_3a v)\<rparr>) (u16_at item 0)
      else if i = Item 245 then Some (t\<lparr>at_callsign := Option.bind (slice_range item 1 7) aircraft_id\<rparr>)
      else if i = Item 380 then each_pair cat062_derived (walk_compound CAT062_SUB_380 item) t
      else if i = Item 40 then map_option (\<lambda>v. t\<lparr>at_track := Some (ucast v)\<rparr>) (u16_at item 0)
      else if i = Item 136 then map_option (\<lambda>fl. t\<lparr>at_alt_ft := Some (f64_mul (f64_of_int fl) (f64_of_int 25))\<rparr>) (i16_at item 0)
      else if i = Item 220 then map_option (\<lambda>v. t\<lparr>at_vertical_rate_ftmin := Some (f64_mul (f64_of_int v) f64_6_25)\<rparr>) (i16_at item 0)
      else if i = Item 500 then each_pair cat062_accuracy (walk_compound CAT062_SUB_500 item) t
      else Some t)"

definition cat062_decode :: "libm \<Rightarrow> (item \<times> bytes) list \<Rightarrow> asterix_target option" where
  "cat062_decode lm items = each_pair (cat062_item lm) items (target_of 62)"

section \<open>No decoder panics\<close>

lemma be_uint_from_None: "be_uint_from data start n v = None \<longleftrightarrow> 0 < n \<and> length data < start + n"
  by (induction n arbitrary: start v) (auto simp: slice_get_def bind_eq_None_conv)

named_theorems total_simps \<open>when the value decoders are defined\<close>

lemma reader_None [total_simps]:
  "be_uint data start n = None \<longleftrightarrow> 0 < n \<and> length data < start + n"
  "be_signed data start n = None \<longleftrightarrow> 0 < n \<and> length data < start + n"
  "u16_at data i = None \<longleftrightarrow> length data < i + 2"
  "i16_at data i = None \<longleftrightarrow> length data < i + 2"
  "angle_at data i = None \<longleftrightarrow> length data < i + 2"
  "speed_at data i = None \<longleftrightarrow> length data < i + 2"
  "time_of_day_s data = None \<longleftrightarrow> length data < 3"
  by (auto simp: be_uint_def be_signed_def be_uint_from_None u16_at_def i16_at_def angle_at_def speed_at_def time_of_day_s_def
      slice_get_def bind_eq_None_conv)

lemmas [total_simps] = slice_get_None_iff bind_eq_None_conv data_source_def polar_velocity_def checked_squawk_def Suc_le_eq
  cat010_descriptor_def cat010_velocity_def cat010_size_def cat048_descriptor_def cat062_velocity_def Let_def

lemma flight_level_total [total_simps]: "2 \<le> length item \<Longrightarrow> flight_level item t \<noteq> None"
  by (cases "u16_at item 0") (auto simp: flight_level_def total_simps)

lemma each_pair_total:
  "(\<And>i bs t. (i, bs) \<in> set items \<Longrightarrow> step i bs t \<noteq> None) \<Longrightarrow> each_pair step items t \<noteq> None"
proof (induction items arbitrary: t)
  case (Cons p items)
  obtain i bs where p: "p = (i, bs)" by force
  from Cons.prems [of i bs t] p obtain t' where "step i bs t = Some t'" by auto
  moreover have "each_pair step items t' \<noteq> None" by (rule Cons.IH) (use Cons.prems in auto)
  ultimately show ?case using p by simp
qed simp

lemma cat010_item_total: "item_fits CAT010_UAP (i, bs) \<Longrightarrow> cat010_item lm i bs t \<noteq> None"
  unfolding item_fits_def CAT010_UAP_def list_ex_Nil_iff list_ex_Cons_iff prod.case fst_conv snd_conv
  by (elim disjE conjE FalseE; hypsubst; simp add: cat010_item_def ITEM_SP_def ITEM_RE_def ITEM_SPARE_def total_simps)

lemma cat021_item_total: "item_fits CAT021_UAP (i, bs) \<Longrightarrow> cat021_item i bs t \<noteq> None"
  unfolding item_fits_def CAT021_UAP_def list_ex_Nil_iff list_ex_Cons_iff prod.case fst_conv snd_conv
  by (elim disjE conjE FalseE; hypsubst; simp add: cat021_item_def ITEM_SP_def ITEM_RE_def ITEM_SPARE_def total_simps)

lemma cat048_item_total: "item_fits CAT048_UAP (i, bs) \<Longrightarrow> cat048_item i bs t \<noteq> None"
  unfolding item_fits_def CAT048_UAP_def list_ex_Nil_iff list_ex_Cons_iff prod.case fst_conv snd_conv
  by (elim disjE conjE FalseE; hypsubst; simp add: cat048_item_def ITEM_SP_def ITEM_RE_def ITEM_SPARE_def total_simps)

lemma subfield_total:
  assumes "list_all (\<lambda>j. \<forall>bs t. field_fits (subs ! j) bs \<longrightarrow> step j bs t \<noteq> None) [0..<length subs]"
  shows "each_pair step (walk_compound subs data) t \<noteq> None"
proof (rule each_pair_total)
  fix j bs t
  assume "(j, bs) \<in> set (walk_compound subs data)"
  from walk_compound_fits [OF this] assms show "step j bs t \<noteq> None" by (auto simp: slice_get_Some_iff list_all_iff)
qed

lemma cat062_subs_total:
  "each_pair cat062_derived (walk_compound CAT062_SUB_380 data) t \<noteq> None"
  "each_pair cat062_accuracy (walk_compound CAT062_SUB_500 data) t \<noteq> None"
  by (rule subfield_total, simp add: CAT062_SUB_380_def CAT062_SUB_500_def upt_rec cat062_derived_def cat062_accuracy_def total_simps del: not_None_eq)+

lemma cat062_item_total: "item_fits CAT062_UAP (i, bs) \<Longrightarrow> cat062_item lm i bs t \<noteq> None"
  unfolding item_fits_def CAT062_UAP_def list_ex_Nil_iff list_ex_Cons_iff prod.case fst_conv snd_conv
  by (elim disjE conjE FalseE; hypsubst;
      simp add: cat062_item_def ITEM_SP_def ITEM_RE_def ITEM_SPARE_def total_simps cat062_subs_total del: not_None_eq)

lemma cat034_subs_total: "each_pair cat034_status (walk_compound CAT034_SUB_050 data) s \<noteq> None"
  by (rule subfield_total) (simp add: CAT034_SUB_050_def upt_rec cat034_status_def total_simps del: not_None_eq)

lemma cat034_item_total: "item_fits CAT034_UAP (i, bs) \<Longrightarrow> cat034_item i bs r \<noteq> None"
  unfolding item_fits_def CAT034_UAP_def list_ex_Nil_iff list_ex_Cons_iff prod.case fst_conv snd_conv
  by (elim disjE conjE FalseE; hypsubst;
      simp add: cat034_item_def ITEM_SP_def ITEM_RE_def ITEM_SPARE_def total_simps cat034_subs_total del: not_None_eq)

lemma each_item_total:
  "list_all (item_fits uap) items \<Longrightarrow> (\<And>i bs t. item_fits uap (i, bs) \<Longrightarrow> step i bs t \<noteq> None) \<Longrightarrow> each_pair step items t \<noteq> None"
  by (rule each_pair_total) (auto simp: list_all_iff)

text \<open>A category's decoder is defined on every list of items that fit its profile.\<close>

lemma ast_decode_total:
  "list_all (item_fits CAT010_UAP) items \<Longrightarrow> cat010_decode lm items site \<noteq> None"
  "list_all (item_fits CAT021_UAP) items \<Longrightarrow> cat021_decode items \<noteq> None"
  "list_all (item_fits CAT034_UAP) items \<Longrightarrow> cat034_decode items \<noteq> None"
  "list_all (item_fits CAT048_UAP) items \<Longrightarrow> cat048_decode lm items site \<noteq> None"
  "list_all (item_fits CAT062_UAP) items \<Longrightarrow> cat062_decode lm items \<noteq> None"
  using each_item_total [OF _ cat010_item_total] each_item_total [OF _ cat021_item_total] each_item_total [OF _ cat034_item_total]
    each_item_total [OF _ cat048_item_total] each_item_total [OF _ cat062_item_total]
  by (simp_all add: cat010_decode_def cat021_decode_def cat034_decode_def cat048_decode_def cat062_decode_def option.map_disc_iff del: not_None_eq)

end
