(* ===== verification/Asterix.thy ===== *)
theory Asterix
  imports Ast_Categories
begin

text \<open>
  \<open>rust/connectors/asterix/src/asterix.rs\<close>: datagrams of ASTERIX data blocks to events. The mutex
  around the radars' status and the atomic counters are fields of the parser, threaded through the
  calls; \<open>None\<close> as the result of a call is a panic. The loops over the records of a block and the
  blocks of a datagram end because the record walk goes forward and a block has at least three octets.
  The builder's chain is cut into steps, one per group of fields.
\<close>

section \<open>The parser\<close>

record asterix_parser =
  ax_source_id :: str
  ax_enrichment :: enrichment
  ax_sensor :: "sensor option"
  ax_cat010_type :: "str option"
  ax_surface_domain :: "str option"
  ax_cat034_type :: "str option"
  ax_radar_status :: "u8 \<times> u8 \<rightharpoonup> radar_status"
  ax_ignored_blocks :: u64
  ax_test_targets :: u64
  ax_north_markers :: u64
  ax_sector_crossings :: u64
  ax_jamming_strobes :: u64
  ax_radar_degraded :: u64

definition asterix_new :: "str \<Rightarrow> enrichment \<Rightarrow> asterix_parser" where
  "asterix_new source_id en = \<lparr>ax_source_id = source_id, ax_enrichment = en, ax_sensor = None, ax_cat010_type = None,
     ax_surface_domain = None, ax_cat034_type = None, ax_radar_status = (\<lambda>_. None), ax_ignored_blocks = 0, ax_test_targets = 0,
     ax_north_markers = 0, ax_sector_crossings = 0, ax_jamming_strobes = 0, ax_radar_degraded = 0\<rparr>"

definition with_sensor :: "sensor option \<Rightarrow> asterix_parser \<Rightarrow> asterix_parser" where
  "with_sensor site st = st\<lparr>ax_sensor := site\<rparr>"

text \<open>The map's domain entry must be in the vocabulary of \<open>mim:object\<close>'s \<open>environment\<close>.\<close>

definition with_entity_map :: "(str \<rightharpoonup> str) \<Rightarrow> asterix_parser \<Rightarrow> (fault + asterix_parser) option" where
  "with_entity_map m st =
     (let st = st\<lparr>ax_cat010_type := m ''cat010'', ax_cat034_type := m ''cat034'', ax_surface_domain := m ''cat010_domain''\<rparr>
      in case ax_surface_domain st of None \<Rightarrow> Some (Inr st)
         | Some v \<Rightarrow> map_option (\<lambda>fs. case fs of f # _ \<Rightarrow> Inl f | [] \<Rightarrow> Inr st)
             (check ONTOLOGY \<lparr>de_entity_type = ''mim:object'', de_attributes = [''environment''],
                de_fixed_values = [(''environment'', v)]\<rparr>))"

section \<open>Blocks\<close>

abbreviation record_bytes :: "bytes \<Rightarrow> nat \<Rightarrow> nat \<Rightarrow> bytes" where
  "record_bytes block off next \<equiv> take (next - off) (drop off block)"

text \<open>A record is a track when it is a target report with a position of some kind.\<close>

definition is_track :: "u8 \<Rightarrow> asterix_target \<Rightarrow> bool" where
  "is_track cat t \<longleftrightarrow> (cat \<noteq> 10 \<or> at_message_type t = Some 1)
     \<and> (at_lat t \<noteq> None \<or> at_polar t \<noteq> None \<or> at_cartesian_m t \<noteq> None)"

lemma walk_record_forward: "walk_record cat uap block off = Inr (items, next) \<Longrightarrow> off < next \<and> next \<le> length block"
  using walk_record_spec by fastforce

function target_records ::
  "u8 \<Rightarrow> (item \<times> field) list \<Rightarrow> ((item \<times> bytes) list \<Rightarrow> asterix_target option) \<Rightarrow> bytes \<Rightarrow> nat
    \<Rightarrow> (asterix_error + asterix_target list) option" where
  "target_records cat uap dec block off =
     (if length block \<le> off then Some (Inr [])
      else case walk_record cat uap block off of
        Inl err \<Rightarrow> Some (Inl err)
      | Inr (items, next) \<Rightarrow>
          (case dec items of None \<Rightarrow> None
           | Some t \<Rightarrow> map_option (map_sum (\<lambda>e. e)
               (\<lambda>ts. if is_track cat t then t\<lparr>at_raw := record_bytes block off next\<rparr> # ts else ts))
               (target_records cat uap dec block next)))"
  by pat_completeness auto

termination
  by (relation "measure (\<lambda>(cat, uap, dec, block, off). length block - off)") (auto dest!: walk_record_forward)

declare target_records.simps [simp del]

definition parse_block :: "libm \<Rightarrow> bytes \<Rightarrow> asterix_parser \<Rightarrow> (asterix_error + asterix_target list) option" where
  "parse_block lm frame st =
     (case block_header frame of Inl err \<Rightarrow> Some (Inl err)
      | Inr (cat, len) \<Rightarrow>
          let block = take len frame; site = ax_sensor st in
          if cat = 10 then target_records cat CAT010_UAP (\<lambda>items. cat010_decode lm items site) block 3
          else if cat = 21 then target_records cat CAT021_UAP cat021_decode block 3
          else if cat = 48 then target_records cat CAT048_UAP (\<lambda>items. cat048_decode lm items site) block 3
          else if cat = 62 then target_records cat CAT062_UAP (cat062_decode lm) block 3
          else Some (Inr []))"

text \<open>What one CAT034 record does: its radar's status takes what it reports, and it is counted.\<close>

definition merge_report :: "service_report \<Rightarrow> asterix_parser \<Rightarrow> asterix_parser \<times> service_report" where
  "merge_report r st =
     (let radar = (sv_sac r, sv_sic r);
          known = (case ax_radar_status st radar of Some s \<Rightarrow> s | None \<Rightarrow> radar_status_default);
          merged = status_merge known (sv_status r)
      in (st\<lparr>ax_radar_status := (ax_radar_status st)(radar \<mapsto> merged)\<rparr>, r\<lparr>sv_status := merged\<rparr>))"

definition count_report :: "service_report \<Rightarrow> asterix_parser \<Rightarrow> asterix_parser" where
  "count_report r st =
     (let m = sv_message_type r;
          st = (if m = NORTH_MARKER then st\<lparr>ax_north_markers := ax_north_markers st + 1\<rparr>
                else if m = SECTOR_CROSSING then st\<lparr>ax_sector_crossings := ax_sector_crossings st + 1\<rparr>
                else if m \<in> {JAMMING_STROBE, SSR_JAMMING_STROBE, MODE_S_JAMMING_STROBE}
                then st\<lparr>ax_jamming_strobes := ax_jamming_strobes st + 1\<rparr> else st)
      in if m = NORTH_MARKER \<and> degraded (sv_status r) then st\<lparr>ax_radar_degraded := ax_radar_degraded st + 1\<rparr> else st)"

function service_records :: "bytes \<Rightarrow> nat \<Rightarrow> asterix_parser \<Rightarrow> (asterix_parser \<times> (asterix_error + service_report list)) option" where
  "service_records block off st =
     (if length block \<le> off then Some (st, Inr [])
      else case walk_record 34 CAT034_UAP block off of
        Inl err \<Rightarrow> Some (st, Inl err)
      | Inr (items, next) \<Rightarrow>
          (case cat034_decode items of None \<Rightarrow> None
           | Some r \<Rightarrow>
               let (st, r) = merge_report (r\<lparr>sv_raw := record_bytes block off next\<rparr>) st
               in map_option (apsnd (map_sum (\<lambda>e. e) (\<lambda>rs. r # rs))) (service_records block next (count_report r st))))"
  by pat_completeness auto

termination
  by (relation "measure (\<lambda>(block, off, st). length block - off)") (auto dest!: walk_record_forward)

declare service_records.simps [simp del]

definition parse_service_block :: "bytes \<Rightarrow> asterix_parser \<Rightarrow> (asterix_parser \<times> (asterix_error + service_report list)) option" where
  "parse_service_block frame st =
     (case block_header frame of Inl err \<Rightarrow> Some (st, Inl err)
      | Inr (cat, len) \<Rightarrow> if cat \<noteq> 34 then Some (st, Inr []) else service_records (take len frame) 3 st)"

lemma block_header_spec: "block_header frame = Inr (cat, len) \<Longrightarrow> 3 \<le> len \<and> len \<le> length frame"
  by (auto simp: block_header_def Let_def split: list.splits if_splits)

function parse_datagram ::
  "libm \<Rightarrow> bytes \<Rightarrow> asterix_parser \<Rightarrow> (asterix_parser \<times> (asterix_error + asterix_target list \<times> service_report list)) option" where
  "parse_datagram lm rest st =
     (if rest = [] then Some (st, Inr ([], []))
      else case block_header rest of
        Inl err \<Rightarrow> Some (st, Inl err)
      | Inr (cat, len) \<Rightarrow>
          if cat \<in> {10, 21, 48, 62} then
            (case parse_block lm (take len rest) st of None \<Rightarrow> None
             | Some (Inl err) \<Rightarrow> Some (st, Inl err)
             | Some (Inr ts) \<Rightarrow> map_option (apsnd (map_sum (\<lambda>e. e) (apfst (\<lambda>more. ts @ more)))) (parse_datagram lm (drop len rest) st))
          else if cat = 34 then
            (case parse_service_block (take len rest) st of None \<Rightarrow> None
             | Some (st', Inl err) \<Rightarrow> Some (st', Inl err)
             | Some (st', Inr rs) \<Rightarrow> map_option (apsnd (map_sum (\<lambda>e. e) (apsnd (\<lambda>more. rs @ more)))) (parse_datagram lm (drop len rest) st'))
          else parse_datagram lm (drop len rest) (st\<lparr>ax_ignored_blocks := ax_ignored_blocks st + 1\<rparr>))"
  by pat_completeness auto

termination
  by (relation "measure (\<lambda>(lm, rest, st). length rest)") (auto dest!: block_header_spec)

declare parse_datagram.simps [simp del]

definition asterix_parse_frame :: "libm \<Rightarrow> bytes \<Rightarrow> asterix_parser \<Rightarrow> (asterix_parser \<times> (asterix_error + asterix_target list)) option" where
  "asterix_parse_frame lm frame st = map_option (apsnd (map_sum (\<lambda>e. e) fst)) (parse_datagram lm frame st)"

section \<open>Events of tracks\<close>

definition fmt_icao :: "u32 \<Rightarrow> str" where
  "fmt_icao v = pad_left 6 CHR ''0'' (map upper_digit_char (digits_of 16 (uint v)))"

definition colon_joined :: "int list \<Rightarrow> str" where
  "colon_joined ns = join '':'' (map show_int ns)"

text \<open>The identifier of a track and its identity: an ICAO address, or the track number scoped by
  category and data source.\<close>

definition track_uid :: "asterix_target \<Rightarrow> str \<times> (str \<times> str) option" where
  "track_uid t =
     (case (at_icao t, at_track t) of
        (Some icao, _) \<Rightarrow> (''icao:'' @ fmt_icao icao, Some (''ICAO24'', fmt_icao icao))
      | (None, Some track) \<Rightarrow>
          (let scoped = colon_joined [uint (at_category t), uint (at_sac t), uint (at_sic t), uint track]
           in (''asterix:'' @ scoped, Some (''ASTERIX'', scoped)))
      | (None, None) \<Rightarrow> (''asterix:'' @ colon_joined [uint (at_category t), uint (at_sac t), uint (at_sic t)], None))"

definition track_type :: "str option \<Rightarrow> asterix_target \<Rightarrow> str" where
  "track_type cat010_type t =
     (if at_category t \<noteq> 10 then ''mim:aircraft''
      else case cat010_type of Some ty \<Rightarrow> ty
      | None \<Rightarrow> if at_vehicle_fleet t \<noteq> None then ''mim:land-vehicle''
                else if at_icao t \<noteq> None \<or> at_callsign t \<noteq> None then ''mim:aircraft'' else ''mim:object'')"

definition positive :: "f64 \<Rightarrow> bool" where
  "positive x \<longleftrightarrow> f64_lt (f64_of_int 0) x"

definition tb_identity :: "(str \<times> str) option \<Rightarrow> event_builder \<Rightarrow> event_builder" where
  "tb_identity ident b = (case ident of None \<Rightarrow> b | Some (std, i) \<Rightarrow> eb_identity std i b)"

definition tb_position_sd :: "libm \<Rightarrow> asterix_target \<Rightarrow> event_builder \<Rightarrow> event_builder" where
  "tb_position_sd lm t b =
     (case at_position_sd_m t of None \<Rightarrow> b
      | Some (sx, sy) \<Rightarrow>
          let b = eb_metadata ''position_sd_y_m'' (fmt_fixed 2 sy) (eb_metadata ''position_sd_x_m'' (fmt_fixed 2 sx) b);
              h = m_hypot lm sx sy
          in if positive h then eb_attribute ''position_accuracy_h_m'' (fmt_fixed 2 h) b else b)"

definition tb_accuracy_v :: "asterix_target \<Rightarrow> event_builder \<Rightarrow> event_builder" where
  "tb_accuracy_v t b =
     (case (at_accuracy_v_m t, at_alt_ft t) of
        (Some v, Some _) \<Rightarrow> if positive v then eb_attribute ''position_accuracy_v_m'' (fmt_fixed 2 v) b else b
      | _ \<Rightarrow> b)"

definition tb_velocity_sd :: "libm \<Rightarrow> asterix_target \<Rightarrow> event_builder \<Rightarrow> event_builder" where
  "tb_velocity_sd lm t b =
     (case at_velocity_sd_mps t of None \<Rightarrow> b
      | Some (vx, vy) \<Rightarrow>
          let s = m_hypot lm vx vy in if positive s then eb_attribute ''speed_accuracy'' (fmt_fixed 2 s) b else b)"

definition opt_governed :: "str \<Rightarrow> str \<Rightarrow> str option \<Rightarrow> event_builder \<Rightarrow> event_builder" where
  "opt_governed ty k v b = (case v of None \<Rightarrow> b | Some x \<Rightarrow> eb_governed ONTOLOGY ty k x b)"

definition tb_place :: "asterix_target \<Rightarrow> event_builder \<Rightarrow> event_builder" where
  "tb_place t b =
     (case (at_lat t, at_lon t) of
        (Some lat, Some lon) \<Rightarrow>
          eb_location lat lon (case at_alt_ft t of Some ft \<Rightarrow> f64_mul ft AST_FT_TO_M | None \<Rightarrow> f64_of_int 0) b
      | _ \<Rightarrow> (case at_polar t of
          Some (rho, theta) \<Rightarrow> eb_metadata ''azimuth_deg'' (fmt_fixed 3 theta) (eb_metadata ''range_nm'' (fmt_fixed 3 rho) b)
        | None \<Rightarrow> (case at_cartesian_m t of
            Some (x, y) \<Rightarrow> eb_metadata ''y_m'' (fmt_fixed 0 y) (eb_metadata ''x_m'' (fmt_fixed 0 x) b)
          | None \<Rightarrow> b)))"

definition tb_size :: "asterix_target \<Rightarrow> event_builder \<Rightarrow> event_builder" where
  "tb_size t b =
     (case at_size t of None \<Rightarrow> b
      | Some (l, w, orientation) \<Rightarrow>
          opt_metadata ''target_orientation_deg'' (map_option (fmt_fixed 1) orientation)
            (opt_metadata ''target_width_m'' (map_option (fmt_fixed 0) w)
              (eb_metadata ''target_length_m'' (fmt_fixed 0 l) b)))"

definition climb_mps_of :: "f64 \<Rightarrow> str" where
  "climb_mps_of ftmin = fmt_fixed 1 (f64_div (f64_mul ftmin AST_FT_TO_M) (f64_of_int 60))"

definition target_builder :: "libm \<Rightarrow> effects \<Rightarrow> asterix_parser \<Rightarrow> asterix_target \<Rightarrow> event_builder" where
  "target_builder lm fx st t =
     (let (source_uid, ident) = track_uid t; ty = track_type (ax_cat010_type st) t;
          b = eb_metadata ''asterix_category'' (show_int (uint (at_category t))) (eb_metadata ''source_uid'' source_uid
                (eb_payload (at_raw t) (eb_new_id (uuid fx) (eb_new (ax_source_id st) ty))));
          b = tb_identity ident b;
          b = tb_position_sd lm t b;
          b = tb_accuracy_v t b;
          b = tb_velocity_sd lm t b;
          b = opt_governed ty ''environment'' (ax_surface_domain st) b;
          b = tb_place t b;
          b = tb_size t b;
          b = opt_metadata ''report_type'' (at_report_type t) b;
          b = opt_metadata ''vehicle_fleet'' (at_vehicle_fleet t) b;
          b = opt_metadata ''altitude_ft'' (map_option (fmt_fixed 0) (at_alt_ft t)) b;
          b = opt_metadata ''time_of_day_s'' (map_option (fmt_fixed 3) (at_time_of_day_s t)) b;
          b = opt_attribute ''hostility'' (hostility (ax_enrichment st)) b;
          b = (case at_ground_speed_kn t of None \<Rightarrow> b
               | Some kn \<Rightarrow> eb_metadata ''speed_kn'' (fmt_fixed 1 kn)
                   (eb_attribute ''speed'' (fmt_fixed 2 (f64_mul kn AST_KNOTS_TO_MPS)) b));
          b = opt_attribute ''course'' (map_option (fmt_fixed 1) (at_track_angle_deg t)) b;
          b = (case at_vertical_rate_ftmin t of None \<Rightarrow> b
               | Some ftmin \<Rightarrow> eb_metadata ''vertical_rate_ftmin'' (fmt_fixed 0 ftmin)
                   (eb_attribute ''vertical_rate'' (climb_mps_of ftmin) b));
          b = opt_governed ty ''squawk'' (at_squawk t) b;
          b = opt_attribute ''callsign'' (at_callsign t) b
      in opt_metadata ''emitter_category'' (at_emitter t) b)"

section \<open>Events of radars\<close>

definition sb_place :: "sensor option \<Rightarrow> service_report \<Rightarrow> event_builder \<Rightarrow> event_builder" where
  "sb_place site r b =
     (case sv_position r of
        Some (lat, lon, h) \<Rightarrow> eb_location lat lon h b
      | None \<Rightarrow> (case site of Some s \<Rightarrow> eb_location (se_lat s) (se_lon s) (se_alt_m s) b | None \<Rightarrow> b))"

definition sb_rotation :: "str \<Rightarrow> service_report \<Rightarrow> event_builder \<Rightarrow> event_builder" where
  "sb_rotation ty r b =
     (case sv_rotation_period_s r of None \<Rightarrow> b
      | Some p \<Rightarrow>
          let b = eb_metadata ''rotation_period_s'' (fmt_fixed 3 p) (eb_governed ONTOLOGY ty ''scan_period_s'' (fmt_fixed 3 p) b)
          in if sv_message_type r = NORTH_MARKER then eb_governed ONTOLOGY ty ''update_interval_s'' (fmt_fixed 3 p) b else b)"

definition sb_window :: "str \<Rightarrow> service_report \<Rightarrow> event_builder \<Rightarrow> event_builder" where
  "sb_window ty r b =
     (case sv_window r of None \<Rightarrow> b
      | Some (r0, r1, a0, a1) \<Rightarrow>
          let b = (if sv_message_type r = NORTH_MARKER
                   then eb_governed ONTOLOGY ty ''detection_range_m'' (fmt_fixed 0 (f64_mul r1 AST_NM_TO_M))
                          (eb_governed ONTOLOGY ty ''coverage_bearing_end_deg'' (fmt_fixed 3 a1)
                            (eb_governed ONTOLOGY ty ''coverage_bearing_start_deg'' (fmt_fixed 3 a0) b))
                   else b)
          in eb_metadata ''window_azimuth_end_deg'' (fmt_fixed 3 a1) (eb_metadata ''window_azimuth_start_deg'' (fmt_fixed 3 a0)
               (eb_metadata ''window_range_end_nm'' (fmt_fixed 3 r1) (eb_metadata ''window_range_start_nm'' (fmt_fixed 3 r0) b))))"

definition flag_of :: "bool option \<Rightarrow> str option" where
  "flag_of f = map_option (\<lambda>v. if v then ''true'' else ''false'') f"

definition sb_flags :: "radar_status \<Rightarrow> event_builder \<Rightarrow> event_builder" where
  "sb_flags s b =
     (let b = opt_metadata ''nogo'' (flag_of (rs_nogo s)) b;
          b = opt_metadata ''rdp_overload'' (flag_of (rs_rdp_overload s)) b;
          b = opt_metadata ''xmt_overload'' (flag_of (rs_xmt_overload s)) b;
          b = opt_metadata ''monitoring_disconnected'' (flag_of (rs_monitoring_disconnected s)) b;
          b = opt_metadata ''time_source_invalid'' (flag_of (rs_time_source_invalid s)) b;
          b = opt_metadata ''psr_overload'' (flag_of (rs_psr_overload s)) b;
          b = opt_metadata ''ssr_overload'' (flag_of (rs_ssr_overload s)) b
      in opt_metadata ''mds_overload'' (flag_of (rs_mds_overload s)) b)"

definition service_type :: "asterix_parser \<Rightarrow> str" where
  "service_type st = (case ax_cat034_type st of Some ty \<Rightarrow> ty | None \<Rightarrow> ''mim:sensor'')"

definition service_builder :: "effects \<Rightarrow> asterix_parser \<Rightarrow> service_report \<Rightarrow> event_builder" where
  "service_builder fx st r =
     (let ty = service_type st; radar = colon_joined [uint (sv_sac r), uint (sv_sic r)];
          b = eb_identity ''ASTERIX'' radar (eb_metadata ''message_type'' (message_name r)
                (eb_metadata ''asterix_category'' (show_int 34) (eb_metadata ''source_uid'' (''asterix:radar:'' @ radar)
                  (eb_payload (sv_raw r) (eb_new_id (uuid fx) (eb_new (ax_source_id st) ty))))));
          b = sb_place (ax_sensor st) r b;
          b = opt_attribute ''hostility'' (hostility (ax_enrichment st)) b;
          b = opt_metadata ''time_of_day_s'' (map_option (fmt_fixed 3) (sv_time_of_day_s r)) b;
          b = sb_rotation ty r b;
          b = opt_metadata ''sector'' (map_option (\<lambda>s. show_int (uint s)) (sv_sector r)) b;
          b = sb_window ty r b
      in sb_flags (sv_status r) b)"

section \<open>The parser's result\<close>

definition asterix_to_event_at :: "libm \<Rightarrow> effects \<Rightarrow> asterix_parser \<Rightarrow> asterix_target \<Rightarrow> str \<Rightarrow> asterix_error + event" where
  "asterix_to_event_at lm fx st t observed = map_sum AstBuild (\<lambda>e. e) (build (eb_timestamp observed (target_builder lm fx st t)))"

definition service_event_at :: "effects \<Rightarrow> asterix_parser \<Rightarrow> service_report \<Rightarrow> str \<Rightarrow> asterix_error + event" where
  "service_event_at fx st r observed = map_sum AstBuild (\<lambda>e. e) (build (eb_timestamp observed (service_builder fx st r)))"

definition is_test :: "asterix_target \<Rightarrow> bool" where
  "is_test t \<longleftrightarrow> at_simulated t \<or> at_test_target t \<or> at_field_monitor t"

text \<open>The loop over the tracks: a test target is counted and skipped, and the first track that does
  not build ends it. Each event has its own identifier and clock, which are numbered here.\<close>

fun track_events ::
  "libm \<Rightarrow> (nat \<Rightarrow> effects) \<Rightarrow> nat \<Rightarrow> asterix_target list \<Rightarrow> asterix_parser \<Rightarrow> asterix_parser \<times> (asterix_error + event list)" where
  "track_events lm fxs n [] st = (st, Inr [])"
| "track_events lm fxs n (t # ts) st =
     (if is_test t then track_events lm fxs n ts (st\<lparr>ax_test_targets := ax_test_targets st + 1\<rparr>)
      else case build (eb_now (wall_clock (fxs n)) (target_builder lm (fxs n) st t)) of
        Inl err \<Rightarrow> (st, Inl (AstBuild err))
      | Inr e \<Rightarrow> apsnd (map_sum (\<lambda>e. e) (\<lambda>es. e # es)) (track_events lm fxs (Suc n) ts st))"

fun report_events :: "(nat \<Rightarrow> effects) \<Rightarrow> nat \<Rightarrow> service_report list \<Rightarrow> asterix_parser \<Rightarrow> asterix_error + event list" where
  "report_events fxs n [] st = Inr []"
| "report_events fxs n (r # rs) st =
     (case build (eb_now (wall_clock (fxs n)) (service_builder (fxs n) st r)) of
        Inl err \<Rightarrow> Inl (AstBuild err)
      | Inr e \<Rightarrow> map_sum (\<lambda>e. e) (\<lambda>es. e # es) (report_events fxs (Suc n) rs st))"

definition asterix_parse ::
  "libm \<Rightarrow> (nat \<Rightarrow> effects) \<Rightarrow> bytes \<Rightarrow> asterix_parser \<Rightarrow> (asterix_parser \<times> (asterix_error + event list)) option" where
  "asterix_parse lm fxs frame st =
     (case parse_datagram lm frame st of None \<Rightarrow> None
      | Some (st', Inl err) \<Rightarrow> Some (st', Inl err)
      | Some (st', Inr (targets, reports)) \<Rightarrow>
          let published = filter is_published reports in
          (case report_events fxs 0 published st' of
             Inl err \<Rightarrow> Some (st', Inl err)
           | Inr es \<Rightarrow> Some (apsnd (map_sum (\<lambda>e. e) (\<lambda>more. es @ more))
               (track_events lm fxs (length published) targets st'))))"

section \<open>No datagram panics\<close>

lemma target_records_total:
  assumes "\<And>items. list_all (item_fits uap) items \<Longrightarrow> dec items \<noteq> None"
  shows "target_records cat uap dec block off \<noteq> None"
proof (induction "length block - off" arbitrary: off rule: less_induct)
  case less
  show ?case
  proof (cases "length block \<le> off")
    case False
    show ?thesis
    proof (cases "walk_record cat uap block off")
      case (Inr p)
      obtain items nxt where p: "p = (items, nxt)" by force
      have w: "walk_record cat uap block off = Inr (items, nxt)" using Inr p by simp
      from walk_record_spec [OF w] assms obtain t where "dec items = Some t" by fastforce
      moreover have "target_records cat uap dec block nxt \<noteq> None"
        using walk_record_forward [OF w] False by (intro less) linarith
      ultimately show ?thesis using False w by (subst target_records.simps) simp
    qed (use False in \<open>subst target_records.simps, simp\<close>)
  qed (subst target_records.simps, simp)
qed

lemma parse_block_total: "parse_block lm frame st \<noteq> None"
  by (auto simp: parse_block_def Let_def ast_decode_total target_records_total split: sum.split simp del: not_None_eq)

lemma service_records_total: "service_records block off st \<noteq> None"
proof (induction "length block - off" arbitrary: off st rule: less_induct)
  case less
  show ?case
  proof (cases "length block \<le> off")
    case False
    show ?thesis
    proof (cases "walk_record 34 CAT034_UAP block off")
      case (Inr p)
      obtain items nxt where p: "p = (items, nxt)" by force
      have w: "walk_record 34 CAT034_UAP block off = Inr (items, nxt)" using Inr p by simp
      from walk_record_spec [OF w] ast_decode_total(3) [of items] obtain r where "cat034_decode items = Some r" by auto
      moreover have "service_records block nxt st' \<noteq> None" for st'
        using walk_record_forward [OF w] False by (intro less) linarith
      ultimately show ?thesis using False w by (subst service_records.simps) (simp add: case_prod_beta del: not_None_eq)
    qed (use False in \<open>subst service_records.simps, simp\<close>)
  qed (subst service_records.simps, simp)
qed

lemma parse_service_block_total: "parse_service_block frame st \<noteq> None"
  by (auto simp: parse_service_block_def service_records_total split: sum.split simp del: not_None_eq)

lemma parse_datagram_total: "parse_datagram lm rest st \<noteq> None"
proof (induction lm rest st rule: parse_datagram.induct)
  case (1 lm rest st)
  show ?case
    using parse_block_total [of lm "take (snd (projr (block_header rest))) rest" st]
      parse_service_block_total [of "take (snd (projr (block_header rest))) rest" st] "1.IH"
    by (subst parse_datagram.simps)
       (auto simp: option.map_disc_iff split: sum.split option.split simp del: not_None_eq)
qed

lemma asterix_parse_total: "asterix_parse lm fxs frame st \<noteq> None"
  using parse_datagram_total [of lm frame st] by (auto simp: asterix_parse_def Let_def split: sum.splits)

section \<open>The keys of the builders\<close>

lemma keys_tb_identity:
  "keys_within as ms b \<Longrightarrow> keys_within ((as @ [''alt_id'']) @ [''alt_id_standard'']) ms (tb_identity ident b)"
  unfolding tb_identity_def by (rule keys_branches keys_identity keys_more | assumption)+

lemma keys_tb_position_sd:
  "keys_within as ms b \<Longrightarrow> keys_within (as @ [''position_accuracy_h_m'']) ((ms @ [''position_sd_x_m'']) @ [''position_sd_y_m'']) (tb_position_sd lm t b)"
  unfolding tb_position_sd_def Let_def by (rule keys_branches keys_attribute keys_metadata keys_more | assumption)+

lemma keys_tb_accuracy_v: "keys_within as ms b \<Longrightarrow> keys_within (as @ [''position_accuracy_v_m'']) ms (tb_accuracy_v t b)"
  unfolding tb_accuracy_v_def by (rule keys_branches keys_attribute keys_more | assumption)+

lemma keys_tb_velocity_sd: "keys_within as ms b \<Longrightarrow> keys_within (as @ [''speed_accuracy'']) ms (tb_velocity_sd lm t b)"
  unfolding tb_velocity_sd_def Let_def by (rule keys_branches keys_attribute keys_more | assumption)+

lemma keys_opt_governed: "keys_within as ms b \<Longrightarrow> keys_within (as @ [k]) (ms @ [k]) (opt_governed ty k v b)"
  unfolding opt_governed_def by (rule keys_branches keys_governed keys_more | assumption)+

lemma keys_tb_place:
  "keys_within as ms b \<Longrightarrow> keys_within as ((((ms @ [''range_nm'']) @ [''azimuth_deg'']) @ [''x_m'']) @ [''y_m'']) (tb_place t b)"
  unfolding tb_place_def by (rule keys_branches keys_setters(7) keys_metadata keys_more | assumption)+

lemma keys_tb_size:
  "keys_within as ms b \<Longrightarrow>
     keys_within as (((ms @ [''target_length_m'']) @ [''target_width_m'']) @ [''target_orientation_deg'']) (tb_size t b)"
  unfolding tb_size_def by (rule keys_branches keys_opt_metadata keys_metadata keys_more | assumption)+

lemma keys_sb_place: "keys_within as ms b \<Longrightarrow> keys_within as ms (sb_place site r b)"
  unfolding sb_place_def by (rule keys_branches keys_setters(7) | assumption)+

lemma keys_sb_rotation:
  "keys_within as ms b \<Longrightarrow> keys_within ((as @ [''scan_period_s'']) @ [''update_interval_s''])
     (((ms @ [''scan_period_s'']) @ [''rotation_period_s'']) @ [''update_interval_s'']) (sb_rotation ty r b)"
  unfolding sb_rotation_def Let_def by (rule keys_branches keys_governed keys_metadata keys_more | assumption)+


lemma keys_sb_window:
  "keys_within as ms b \<Longrightarrow>
     keys_within (((as @ [''coverage_bearing_start_deg'']) @ [''coverage_bearing_end_deg'']) @ [''detection_range_m''])
       (((((((ms @ [''coverage_bearing_start_deg'']) @ [''coverage_bearing_end_deg'']) @ [''detection_range_m''])
         @ [''window_range_start_nm'']) @ [''window_range_end_nm'']) @ [''window_azimuth_start_deg'']) @ [''window_azimuth_end_deg''])
       (sb_window ty r b)"
  unfolding sb_window_def Let_def by (rule keys_branches keys_governed keys_metadata keys_more | assumption)+

lemma keys_sb_flags:
  "keys_within as ms b \<Longrightarrow> keys_within as ((((((((ms @ [''nogo'']) @ [''rdp_overload'']) @ [''xmt_overload''])
     @ [''monitoring_disconnected'']) @ [''time_source_invalid'']) @ [''psr_overload'']) @ [''ssr_overload'']) @ [''mds_overload''])
     (sb_flags s b)"
  unfolding sb_flags_def Let_def by (rule keys_opt_metadata | assumption)+

lemmas asterix_keys_rules = keys_rules keys_tb_identity keys_tb_position_sd keys_tb_accuracy_v keys_tb_velocity_sd keys_opt_governed
  keys_tb_place keys_tb_size keys_sb_place keys_sb_rotation keys_sb_window keys_sb_flags

definition target_attributes :: "str list" where
  "target_attributes = [''alt_id'', ''alt_id_standard'', ''position_accuracy_h_m'', ''position_accuracy_v_m'', ''speed_accuracy'',
     ''environment'', ''hostility'', ''speed'', ''course'', ''vertical_rate'', ''squawk'', ''callsign'']"

definition target_metadata :: "str list" where
  "target_metadata = [''source_uid'', ''asterix_category'', ''position_sd_x_m'', ''position_sd_y_m'', ''environment'',
     ''range_nm'', ''azimuth_deg'', ''x_m'', ''y_m'', ''target_length_m'', ''target_width_m'', ''target_orientation_deg'',
     ''report_type'', ''vehicle_fleet'', ''altitude_ft'', ''time_of_day_s'', ''speed_kn'', ''vertical_rate_ftmin'', ''squawk'',
     ''emitter_category'']"

definition service_attributes :: "str list" where
  "service_attributes = [''alt_id'', ''alt_id_standard'', ''hostility'', ''scan_period_s'', ''update_interval_s'',
     ''coverage_bearing_start_deg'', ''coverage_bearing_end_deg'', ''detection_range_m'']"

definition service_metadata :: "str list" where
  "service_metadata = [''source_uid'', ''asterix_category'', ''message_type'', ''time_of_day_s'', ''scan_period_s'',
     ''rotation_period_s'', ''update_interval_s'', ''sector'', ''coverage_bearing_start_deg'', ''coverage_bearing_end_deg'',
     ''detection_range_m'', ''window_range_start_nm'', ''window_range_end_nm'', ''window_azimuth_start_deg'',
     ''window_azimuth_end_deg'', ''nogo'', ''rdp_overload'', ''xmt_overload'', ''monitoring_disconnected'',
     ''time_source_invalid'', ''psr_overload'', ''ssr_overload'', ''mds_overload'']"

lemma snoc_all: "foldl (\<lambda>a k. a @ [k]) a ks = a @ ks" for a :: "str list"
  by (induction ks arbitrary: a) auto

lemma keys_target: "keys_within target_attributes target_metadata (target_builder lm fx st t)"
proof -
  have "keys_within (foldl (\<lambda>a k. a @ [k]) [] target_attributes) (foldl (\<lambda>a k. a @ [k]) [] target_metadata) (target_builder lm fx st t)"
    unfolding target_attributes_def target_metadata_def foldl.simps target_builder_def Let_def
    by (cases "track_uid t") (simp only: prod.case, (rule asterix_keys_rules)+)
  then show ?thesis by (simp add: snoc_all)
qed

lemma keys_service: "keys_within service_attributes service_metadata (service_builder fx st r)"
proof -
  have "keys_within (foldl (\<lambda>a k. a @ [k]) [] service_attributes) (foldl (\<lambda>a k. a @ [k]) [] service_metadata) (service_builder fx st r)"
    unfolding service_attributes_def service_metadata_def foldl.simps service_builder_def Let_def
    by (rule asterix_keys_rules)+
  then show ?thesis by (simp add: snoc_all)
qed

lemma asterix_keys_small:
  "distinct target_attributes" "distinct target_metadata" "length target_attributes \<le> MAX_ATTRIBUTES" "length target_metadata \<le> MAX_METADATA"
  "distinct service_attributes" "distinct service_metadata" "length service_attributes \<le> MAX_ATTRIBUTES" "length service_metadata \<le> MAX_METADATA"
  by code_simp+

section \<open>The fixed fields of the builders\<close>

text \<open>The fields that no step of the builders changes.\<close>

definition fixed_of :: "event_builder \<Rightarrow> str option \<times> str \<times> str \<times> str list \<times> f64 \<times> bytes" where
  "fixed_of b = (b_id b, b_source_id b, b_entity_type b, b_policy_tags b, b_confidence b, b_payload b)"

lemma fixed_of_steps:
  "fixed_of (eb_metadata k v b) = fixed_of b" "fixed_of (eb_attribute k v b) = fixed_of b"
  "fixed_of (opt_metadata k w b) = fixed_of b" "fixed_of (opt_attribute k w b) = fixed_of b"
  "fixed_of (opt_governed ty k w b) = fixed_of b" "fixed_of (eb_identity std i b) = fixed_of b"
  "fixed_of (tb_identity ident b) = fixed_of b" "fixed_of (tb_position_sd lm t b) = fixed_of b"
  "fixed_of (tb_accuracy_v t b) = fixed_of b" "fixed_of (tb_velocity_sd lm t b) = fixed_of b"
  "fixed_of (tb_place t b) = fixed_of b" "fixed_of (tb_size t b) = fixed_of b"
  "fixed_of (sb_place site r b) = fixed_of b" "fixed_of (sb_rotation ty r b) = fixed_of b"
  "fixed_of (sb_window ty r b) = fixed_of b" "fixed_of (sb_flags s b) = fixed_of b"
  "fixed_of (case q of None \<Rightarrow> b | Some x \<Rightarrow> eb_metadata k (g x) (eb_attribute k' (f x) b)) = fixed_of b"
  by (simp_all add: fixed_of_def tb_identity_def tb_position_sd_def tb_accuracy_v_def tb_velocity_sd_def tb_place_def
      tb_size_def sb_place_def sb_rotation_def sb_window_def sb_flags_def opt_governed_def eb_fixed_sel Let_def split: option.split prod.split)

lemma location_steps:
  "b_location (opt_governed ty k w b) = b_location b" "b_location (tb_identity ident b) = b_location b"
  "b_location (tb_position_sd lm t b) = b_location b" "b_location (tb_accuracy_v t b) = b_location b"
  "b_location (tb_velocity_sd lm t b) = b_location b" "b_location (tb_size t b) = b_location b"
  "b_location (sb_rotation ty r b) = b_location b" "b_location (sb_window ty r b) = b_location b"
  "b_location (sb_flags s b) = b_location b"
  by (simp_all add: tb_identity_def tb_position_sd_def tb_accuracy_v_def tb_velocity_sd_def tb_size_def sb_rotation_def
      sb_window_def sb_flags_def opt_governed_def Let_def split: option.split prod.split)

text \<open>Where a track is, if the record or the site says so.\<close>

definition track_location :: "asterix_target \<Rightarrow> geo_point option" where
  "track_location t = (case (at_lat t, at_lon t) of
     (Some lat, Some lon) \<Rightarrow> Some \<lparr>latitude = lat, longitude = lon,
        altitude_m = (case at_alt_ft t of Some ft \<Rightarrow> f64_mul ft AST_FT_TO_M | None \<Rightarrow> f64_of_int 0)\<rparr>
   | _ \<Rightarrow> None)"

lemma target_builder_fields:
  "fixed_of (target_builder lm fx st t)
     = (Some (uuid fx), ax_source_id st, track_type (ax_cat010_type st) t, [], FNum False 0, at_raw t)"
  "b_location (target_builder lm fx st t) = track_location t"
proof -
  show "fixed_of (target_builder lm fx st t)
     = (Some (uuid fx), ax_source_id st, track_type (ax_cat010_type st) t, [], FNum False 0, at_raw t)"
    by (cases "track_uid t") (simp add: target_builder_def Let_def fixed_of_steps, simp add: fixed_of_def eb_fixed_sel)
  have p: "b_location b = None \<Longrightarrow> b_location (tb_place t b) = track_location t" for b
    by (simp add: tb_place_def track_location_def eb_fixed_sel split: option.split prod.split)
  show "b_location (target_builder lm fx st t) = track_location t"
    by (cases "track_uid t") (simp add: target_builder_def Let_def location_steps p eb_fixed_sel)
qed


definition service_location :: "sensor option \<Rightarrow> service_report \<Rightarrow> geo_point option" where
  "service_location site r = (case sv_position r of
     Some (lat, lon, h) \<Rightarrow> Some \<lparr>latitude = lat, longitude = lon, altitude_m = h\<rparr>
   | None \<Rightarrow> map_option (\<lambda>s. \<lparr>latitude = se_lat s, longitude = se_lon s, altitude_m = se_alt_m s\<rparr>) site)"

lemma service_builder_fields:
  "fixed_of (service_builder fx st r) = (Some (uuid fx), ax_source_id st, service_type st, [], FNum False 0, sv_raw r)"
  "b_location (service_builder fx st r) = service_location (ax_sensor st) r"
proof -
  show "fixed_of (service_builder fx st r) = (Some (uuid fx), ax_source_id st, service_type st, [], FNum False 0, sv_raw r)"
    by (simp add: service_builder_def Let_def fixed_of_steps) (simp add: fixed_of_def eb_fixed_sel)
  have p: "b_location b = None \<Longrightarrow> b_location (sb_place site r b) = service_location site r" for b site
    by (simp add: sb_place_def service_location_def eb_fixed_sel split: option.split prod.split)
  show "b_location (service_builder fx st r) = service_location (ax_sensor st) r"
    by (simp add: service_builder_def Let_def location_steps p eb_fixed_sel)
qed

text \<open>A parser whose settings can make events: a source, and namespaced types.\<close>

definition asterix_ready :: "asterix_parser \<Rightarrow> bool" where
  "asterix_ready st \<longleftrightarrow> ax_source_id st \<noteq> [] \<and> is_namespaced (service_type st)
     \<and> (case ax_cat010_type st of Some ty \<Rightarrow> is_namespaced ty | None \<Rightarrow> True)"

lemma track_type_namespaced: "asterix_ready st \<Longrightarrow> is_namespaced (track_type (ax_cat010_type st) t)"
proof -
  have "is_namespaced ''mim:aircraft''" "is_namespaced ''mim:land-vehicle''" "is_namespaced ''mim:object''" by code_simp+
  then show "asterix_ready st \<Longrightarrow> ?thesis" by (auto simp: asterix_ready_def track_type_def split: option.splits)
qed

definition placed :: "geo_point option \<Rightarrow> bool" where
  "placed loc = (case loc of None \<Rightarrow> True | Some l \<Rightarrow> location_ok l)"

lemma fixed_of_now: "fixed_of (eb_now c b) = fixed_of b" "b_timestamp (eb_now c b) = Some c" "b_location (eb_now c b) = b_location b"
  by (simp_all add: fixed_of_def eb_fixed_sel)

lemma target_builds:
  assumes "asterix_ready st" "is_rfc3339 (wall_clock fx)"
  shows "build (eb_now (wall_clock fx) (target_builder lm fx st t)) = Inr e
    \<longleftrightarrow> e = built_event (eb_now (wall_clock fx) (target_builder lm fx st t)) \<and> placed (track_location t)"
proof -
  let ?b = "eb_now (wall_clock fx) (target_builder lm fx st t)"
  have "fixed_of ?b = (Some (uuid fx), ax_source_id st, track_type (ax_cat010_type st) t, [], FNum False 0, at_raw t)"
    "b_timestamp ?b = Some (wall_clock fx)" "b_location ?b = track_location t"
    by (simp_all add: fixed_of_now target_builder_fields)
  with build_located [OF keys_setters(3) [OF keys_target] asterix_keys_small(1-4), of "wall_clock fx" lm fx st t "uuid fx" "wall_clock fx" e]
    track_type_namespaced [OF assms(1), of t] assms
  show ?thesis by (auto simp: fixed_of_def asterix_ready_def placed_def split: option.splits)
qed

lemma service_builds:
  assumes "asterix_ready st" "is_rfc3339 (wall_clock fx)"
  shows "build (eb_now (wall_clock fx) (service_builder fx st r)) = Inr e
    \<longleftrightarrow> e = built_event (eb_now (wall_clock fx) (service_builder fx st r)) \<and> placed (service_location (ax_sensor st) r)"
proof -
  let ?b = "eb_now (wall_clock fx) (service_builder fx st r)"
  have "fixed_of ?b = (Some (uuid fx), ax_source_id st, service_type st, [], FNum False 0, sv_raw r)"
    "b_timestamp ?b = Some (wall_clock fx)" "b_location ?b = service_location (ax_sensor st) r"
    by (simp_all add: fixed_of_now service_builder_fields)
  with build_located [OF keys_setters(3) [OF keys_service] asterix_keys_small(5-8), of "wall_clock fx" fx st r "uuid fx" "wall_clock fx" e] assms
  show ?thesis by (auto simp: fixed_of_def asterix_ready_def placed_def split: option.splits)
qed

lemma target_event_payload:
  "build (eb_now c (target_builder lm fx st t)) = Inr e \<Longrightarrow> ev_payload e = at_raw t \<and> ev_source_id e = ax_source_id st"
  using target_builder_fields(1) [of lm fx st t]
  by (auto simp: build_Inr_iff built_event_def fixed_of_def eb_fixed_sel)

lemma service_event_payload:
  "build (eb_now c (service_builder fx st r)) = Inr e \<Longrightarrow> ev_payload e = sv_raw r \<and> ev_source_id e = ax_source_id st"
  using service_builder_fields(1) [of fx st r]
  by (auto simp: build_Inr_iff built_event_def fixed_of_def eb_fixed_sel)

section \<open>The settings stay\<close>

text \<open>Parsing changes only the radars' status and the counters.\<close>

definition settings :: "asterix_parser \<Rightarrow> str \<times> enrichment \<times> sensor option \<times> str option \<times> str option \<times> str option" where
  "settings st = (ax_source_id st, ax_enrichment st, ax_sensor st, ax_cat010_type st, ax_surface_domain st, ax_cat034_type st)"

lemma settings_service: "service_records block off st = Some (st', r) \<Longrightarrow> settings st' = settings st"
proof (induction "length block - off" arbitrary: off st r rule: less_induct)
  case less
  show ?case
  proof (cases "length block \<le> off")
    case True
    with less.prems show ?thesis by (subst (asm) service_records.simps) simp
  next
    case False
    show ?thesis
    proof (cases "walk_record 34 CAT034_UAP block off")
      case (Inl e)
      with less.prems False show ?thesis by (subst (asm) service_records.simps) simp
    next
      case (Inr p)
      obtain items nxt where p: "p = (items, nxt)" by force
      have f: "length block - nxt < length block - off"
        using walk_record_forward [of 34 CAT034_UAP block off items nxt] Inr p False by auto
      from less.prems False Inr p obtain q st1 r1 r2 where m: "merge_report q st = (st1, r1)"
          "service_records block nxt (count_report r1 st1) = Some (st', r2)"
        unfolding service_records.simps [of block off st] by (auto simp: Let_def split: option.splits prod.splits)
      have "settings (count_report r1 st1) = settings st"
        using m(1) by (auto simp: merge_report_def count_report_def settings_def Let_def)
      with less.hyps [OF f m(2)] show ?thesis by simp
    qed
  qed
qed

lemma settings_service_block: "parse_service_block frame st = Some (st', q) \<Longrightarrow> settings st' = settings st"
  by (auto simp: parse_service_block_def settings_service split: sum.splits if_splits)

lemma settings_datagram: "parse_datagram lm rest st = Some (st', r) \<Longrightarrow> settings st' = settings st"
proof (induction "length rest" arbitrary: rest st r rule: less_induct)
  case less
  show ?case
  proof (cases "rest = [] \<or> (\<exists>err. block_header rest = Inl err)")
    case True
    with less.prems show ?thesis by (subst (asm) parse_datagram.simps) (auto split: if_splits)
  next
    case False
    then obtain cat len where h: "block_header rest = Inr (cat, len)" by (cases "block_header rest") auto
    have ih: "parse_datagram lm (drop len rest) s1 = Some (st', q) \<Longrightarrow> settings st' = settings s1" for s1 q
      by (rule less.hyps) (use block_header_spec [OF h] in auto)
    have i: "settings (st\<lparr>ax_ignored_blocks := n\<rparr>) = settings st" for n by (simp add: settings_def)
    from less.prems False h show ?thesis
      by (subst (asm) parse_datagram.simps)
         (auto simp: i split: if_splits option.splits sum.splits dest!: ih settings_service_block)
  qed
qed

section \<open>The events of a datagram\<close>

lemma report_events_spec:
  assumes "asterix_ready st" "\<And>n. is_rfc3339 (wall_clock (fxs n))"
  shows "(\<exists>es. report_events fxs n rs st = Inr es) \<longleftrightarrow> list_all (\<lambda>r. placed (service_location (ax_sensor st) r)) rs"
    "report_events fxs n rs st = Inr es \<Longrightarrow> map ev_payload es = map sv_raw rs"
proof -
  show "(\<exists>es. report_events fxs n rs st = Inr es) \<longleftrightarrow> list_all (\<lambda>r. placed (service_location (ax_sensor st) r)) rs"
  proof (induction rs arbitrary: n)
    case (Cons r rs)
    have "(\<exists>e. build (eb_now (wall_clock (fxs n)) (service_builder (fxs n) st r)) = Inr e)
        \<longleftrightarrow> placed (service_location (ax_sensor st) r)"
      using service_builds [OF assms(1,2)] by simp
    with Cons [of "Suc n"] show ?case
      by (cases "report_events fxs (Suc n) rs st";
          cases "build (eb_now (wall_clock (fxs n)) (service_builder (fxs n) st r))") auto
  qed simp
  show "report_events fxs n rs st = Inr es \<Longrightarrow> map ev_payload es = map sv_raw rs"
  proof (induction rs arbitrary: n es)
    case (Cons r rs)
    then show ?case
      by (cases "report_events fxs (Suc n) rs st") (auto dest: service_event_payload split: sum.splits)
  qed simp
qed

lemma target_builder_counter [simp]: "target_builder lm fx (st\<lparr>ax_test_targets := n\<rparr>) t = target_builder lm fx st t"
  by (simp add: target_builder_def)

lemma ready_counter [simp]: "asterix_ready (st\<lparr>ax_test_targets := n\<rparr>) = asterix_ready st"
  by (simp add: asterix_ready_def service_type_def)

lemma track_events_spec:
  assumes "asterix_ready st" "\<And>n. is_rfc3339 (wall_clock (fxs n))"
  shows "(\<exists>es. snd (track_events lm fxs n ts st) = Inr es) \<longleftrightarrow> list_all (\<lambda>t. is_test t \<or> placed (track_location t)) ts"
    "snd (track_events lm fxs n ts st) = Inr es \<Longrightarrow> map ev_payload es = map at_raw (filter (\<lambda>t. \<not> is_test t) ts)"
proof -
  show "(\<exists>es. snd (track_events lm fxs n ts st) = Inr es) \<longleftrightarrow> list_all (\<lambda>t. is_test t \<or> placed (track_location t)) ts"
    using assms(1)
  proof (induction ts arbitrary: n st)
    case (Cons t ts)
    have "(\<exists>e. build (eb_now (wall_clock (fxs n)) (target_builder lm (fxs n) st t)) = Inr e) \<longleftrightarrow> placed (track_location t)"
      using target_builds [OF Cons.prems assms(2)] by simp
    with Cons.IH [OF Cons.prems, of "Suc n"] Cons.IH [of "st\<lparr>ax_test_targets := ax_test_targets st + 1\<rparr>" n] Cons.prems
    show ?case
      by (cases "snd (track_events lm fxs (Suc n) ts st)";
          cases "build (eb_now (wall_clock (fxs n)) (target_builder lm (fxs n) st t))") auto
  qed simp
  show "snd (track_events lm fxs n ts st) = Inr es \<Longrightarrow> map ev_payload es = map at_raw (filter (\<lambda>t. \<not> is_test t) ts)"
  proof (induction ts arbitrary: n st es)
    case (Cons t ts)
    then show ?case
      by (cases "snd (track_events lm fxs (Suc n) ts st)") (auto dest: target_event_payload split: sum.splits if_splits)
  qed simp
qed

lemma track_events_sound:
  "snd (track_events lm fxs n ts st) = Inr es \<Longrightarrow> e \<in> set es \<Longrightarrow> canonical_event e \<and> ev_source_id e = ax_source_id st"
proof (induction ts arbitrary: n st es)
  case (Cons t ts)
  show ?case
  proof (cases "is_test t")
    case True
    with Cons.prems Cons.IH [of n "st\<lparr>ax_test_targets := ax_test_targets st + 1\<rparr>"] show ?thesis by simp
  next
    case False
    with Cons.prems obtain x xs where b: "build (eb_now (wall_clock (fxs n)) (target_builder lm (fxs n) st t)) = Inr x"
        and r: "snd (track_events lm fxs (Suc n) ts st) = Inr xs" and "es = x # xs"
      by (cases "snd (track_events lm fxs (Suc n) ts st)") (auto split: sum.splits)
    with Cons.prems(2) Cons.IH [OF r] build_source [OF b] target_event_payload [OF b] show ?thesis by auto
  qed
qed simp

lemma report_events_sound:
  "report_events fxs n rs st = Inr es \<Longrightarrow> e \<in> set es \<Longrightarrow> canonical_event e \<and> ev_source_id e = ax_source_id st"
proof (induction rs arbitrary: n es)
  case (Cons r rs)
  from Cons.prems obtain x xs where b: "build (eb_now (wall_clock (fxs n)) (service_builder (fxs n) st r)) = Inr x"
      and r: "report_events fxs (Suc n) rs st = Inr xs" and "es = x # xs"
    by (cases "report_events fxs (Suc n) rs st") (auto split: sum.splits)
  with Cons.prems(2) Cons.IH [OF r] build_source [OF b] service_event_payload [OF b] show ?case by auto
qed simp

lemma settings_track_events: "settings (fst (track_events lm fxs n ts st)) = settings st"
  by (induction ts arbitrary: n st) (auto simp: settings_def split: sum.split)

lemma asterix_parse_settings: "asterix_parse lm fxs frame st = Some (st', r) \<Longrightarrow> settings st' = settings st"
  using settings_datagram [of lm frame st]
  by (auto simp: asterix_parse_def Let_def split: option.splits sum.splits)
     (metis apsnd_conv fst_conv prod.collapse settings_track_events)+

interpretation asterix_frames: frame_parser "asterix_parse lm" ax_source_id for lm
proof
  fix fxs frame st st' r
  assume "asterix_parse lm fxs frame st = Some (st', r)"
  from asterix_parse_settings [OF this] show "ax_source_id st' = ax_source_id st" by (simp add: settings_def)
next
  fix fxs frame st st' es e
  assume a: "asterix_parse lm fxs frame st = Some (st', Inr es)" "e \<in> set es"
  then obtain st1 ts rs xs ys where d: "parse_datagram lm frame st = Some (st1, Inr (ts, rs))"
      and x: "report_events fxs 0 (filter is_published rs) st1 = Inr xs"
      and y: "snd (track_events lm fxs (length (filter is_published rs)) ts st1) = Inr ys" and "es = xs @ ys"
    by (cases "parse_datagram lm frame st")
       (auto simp: asterix_parse_def Let_def apsnd_def map_prod_def split: sum.splits prod.splits,
        metis (no_types, lifting) map_sum.simps obj_sumE sum.inject(2) sum.distinct(2) snd_conv)
  have "ax_source_id st1 = ax_source_id st" using settings_datagram [OF d] by (simp add: settings_def)
  with report_events_sound [OF x] track_events_sound [OF y] a(2) \<open>es = xs @ ys\<close>
  show "canonical_event e \<and> ev_source_id e = ax_source_id st" by auto
qed


section \<open>Properties\<close>

text \<open>C25. The ASTERIX parser returns on every datagram, in every state and with any site: no item of any
  of the five categories is read out of range, the loops over blocks and records end, and only the
  radars' status and the counters can change.\<close>

theorem asterix_never_panics:
  "\<exists>st' r. asterix_parse lm fxs frame st = Some (st', r) \<and> settings st' = settings st"
proof -
  obtain p where "asterix_parse lm fxs frame st = Some p" using asterix_parse_total [of lm fxs frame st] by auto
  with asterix_parse_settings [of lm fxs frame st] show ?thesis by (cases p) auto
qed

text \<open>A datagram that decodes is published whole or not at all: with settings that can make events,
  it gives events exactly when each published radar report and each track that is not a test target
  has a valid position or none. The events are then canonical and carry the bytes of those records,
  reports first, in order; one record with a position out of range loses every other one.\<close>

theorem asterix_all_or_nothing:
  assumes "asterix_ready st" "\<And>n. is_rfc3339 (wall_clock (fxs n))" "parse_datagram lm frame st = Some (st1, Inr (ts, rs))"
  shows "((\<exists>st' es. asterix_parse lm fxs frame st = Some (st', Inr es))
      \<longleftrightarrow> list_all (\<lambda>r. placed (service_location (ax_sensor st) r)) (filter is_published rs)
        \<and> list_all (\<lambda>t. is_test t \<or> placed (track_location t)) ts)
    \<and> (\<forall>st' es. asterix_parse lm fxs frame st = Some (st', Inr es)
        \<longrightarrow> map ev_payload es = map sv_raw (filter is_published rs) @ map at_raw (filter (\<lambda>t. \<not> is_test t) ts)
          \<and> list_all canonical_event es)"
proof -
  let ?pub = "filter is_published rs"
  have s: "settings st1 = settings st" using settings_datagram [OF assms(3)] .
  then have r: "asterix_ready st1" "ax_sensor st1 = ax_sensor st"
    using assms(1) by (auto simp: settings_def asterix_ready_def service_type_def)
  obtain st2 tr where t: "track_events lm fxs (length ?pub) ts st1 = (st2, tr)" by force
  have e: "asterix_parse lm fxs frame st = (case report_events fxs 0 ?pub st1 of Inl err \<Rightarrow> Some (st1, Inl err)
      | Inr es \<Rightarrow> Some (st2, map_sum (\<lambda>e. e) (\<lambda>more. es @ more) tr))"
    using assms(3) t by (simp add: asterix_parse_def Let_def split: sum.split)
  note re = report_events_spec [where fxs = fxs and n = 0 and rs = ?pub, OF r(1) assms(2)]
    and te = track_events_spec [where fxs = fxs and lm = lm and n = "length ?pub" and ts = ts, OF r(1) assms(2)]
  have "list_all canonical_event es" if "asterix_parse lm fxs frame st = Some (st', Inr es)" for st' es
    using asterix_frames.parse_canonical [OF that] by (simp add: list_all_iff)
  with re te t r(2) e show ?thesis
    by (cases "report_events fxs 0 ?pub st1"; cases tr) auto
qed

section \<open>Witnesses\<close>

definition ex_asterix :: asterix_parser where
  "ex_asterix = asterix_new ''radar-1'' \<lparr>hostility = None\<rparr>"

definition ast_effects :: "nat \<Rightarrow> effects" where
  "ast_effects n = \<lparr>instant = 0, wall_clock = ''2026-06-10T08:00:00Z'', uuid = show_nat n\<rparr>"

text \<open>A CAT048 block with one record: the data source and a polar position.\<close>

definition ex_datagram :: bytes where
  "ex_datagram = [48, 0, 10, 0x90, 25, 10, 0x64, 0, 0x20, 0]"

lemma ex_walk: "walk_record 48 CAT048_UAP ex_datagram 3 = Inr ([(Item 10, [25, 10]), (Item 40, [0x64, 0, 0x20, 0])], 10)"
  by (simp add: walk_record_def walk_fspec.simps presence_def upt_rec CAT048_UAP_def ok_or_def slice_range_def ex_datagram_def)

lemma ex_decode:
  "\<exists>t. cat048_decode lm [(Item 10, [25, 10]), (Item 40, [0x64, 0, 0x20, 0])] None = Some t
     \<and> at_lat t = None \<and> at_polar t \<noteq> None \<and> \<not> is_test t"
  by (simp add: is_test_def cat048_decode_def cat048_item_def data_source_def slice_get_def u16_at_def angle_at_def cat048_place_def
      target_of_def)

lemma ex_asterix_ready: "asterix_ready ex_asterix" "is_rfc3339 (wall_clock (ast_effects n))"
proof -
  have "is_namespaced ''mim:sensor''" "is_rfc3339 ''2026-06-10T08:00:00Z''" by code_simp+
  then show "asterix_ready ex_asterix" "is_rfc3339 (wall_clock (ast_effects n))"
    by (simp_all add: asterix_ready_def ex_asterix_def asterix_new_def service_type_def ast_effects_def)
qed

definition ast_libm :: libm where
  "ast_libm = \<lparr>m_sin = (\<lambda>x. x), m_cos = (\<lambda>x. x), m_asin = (\<lambda>x. x), m_atan2 = (\<lambda>y x. y), m_hypot = (\<lambda>x y. x)\<rparr>"

lemma ex_parse_datagram:
  "\<exists>t. parse_datagram lm ex_datagram ex_asterix = Some (ex_asterix, Inr ([t], []))
     \<and> at_lat t = None \<and> \<not> is_test t \<and> at_raw t = drop 3 ex_datagram"
proof -
  obtain t where t: "cat048_decode lm [(Item 10, [25, 10]), (Item 40, [0x64, 0, 0x20, 0])] None = Some t"
      "at_lat t = None" "at_polar t \<noteq> None" "\<not> is_test t"
    using ex_decode [of lm] by blast
  have h: "block_header ex_datagram = Inr (48, 10)" "take 10 ex_datagram = ex_datagram" "drop 10 ex_datagram = []"
      "length ex_datagram = 10" "ex_datagram \<noteq> []" "ax_sensor ex_asterix = None"
    by (simp_all add: block_header_def ex_datagram_def u16_from_be_def ex_asterix_def asterix_new_def)
  have e: "target_records 48 CAT048_UAP dec ex_datagram 10 = Some (Inr [])" for dec
    by (subst target_records.simps) (simp add: h)
  have "target_records 48 CAT048_UAP (\<lambda>items. cat048_decode lm items None) ex_datagram 3
      = Some (Inr [t\<lparr>at_raw := take 7 (drop 3 ex_datagram)\<rparr>])"
    by (subst target_records.simps) (simp add: h ex_walk t e is_track_def)
  then have "parse_block lm ex_datagram ex_asterix = Some (Inr [t\<lparr>at_raw := take 7 (drop 3 ex_datagram)\<rparr>])"
    by (simp add: parse_block_def h)
  moreover have "parse_datagram lm [] ex_asterix = Some (ex_asterix, Inr ([], []))" by (subst parse_datagram.simps) simp
  ultimately have "parse_datagram lm ex_datagram ex_asterix = Some (ex_asterix, Inr ([t\<lparr>at_raw := take 7 (drop 3 ex_datagram)\<rparr>], []))"
    by (subst parse_datagram.simps) (simp add: h)
  then show ?thesis using t(2,4) h(4)
    by (intro exI [of _ "t\<lparr>at_raw := take 7 (drop 3 ex_datagram)\<rparr>"] conjI) (simp_all add: is_test_def)
qed

theorem asterix_all_or_nothing_witness:
  "\<exists>st' es. asterix_parse ast_libm ast_effects ex_datagram ex_asterix = Some (st', Inr es) \<and> map ev_payload es = [drop 3 ex_datagram]"
proof -
  obtain t where t: "parse_datagram ast_libm ex_datagram ex_asterix = Some (ex_asterix, Inr ([t], []))"
      "at_lat t = None" "\<not> is_test t" "at_raw t = drop 3 ex_datagram"
    using ex_parse_datagram [of ast_libm] by blast
  have "placed (track_location t)" using t(2) by (simp add: placed_def track_location_def)
  with asterix_all_or_nothing [OF ex_asterix_ready t(1)] t(3,4) show ?thesis by fastforce
qed

end
