(* ===== verification/Klv.thy ===== *)
theory Klv
  imports Connector
begin

text \<open>
  \<open>rust/connectors/klv/src/klv.rs\<close>: MISB ST 0601 local sets to aircraft events. The parser keeps no
  state. Formatting a time is the \<open>time\<close> crate's: the argument \<open>fmt\<close> is
  \<open>from_unix_timestamp_nanos\<close> followed by \<open>format(&Rfc3339)\<close>, \<open>None\<close> where either fails. A slice that
  would panic is \<open>None\<close>. A slice is shorter than \<open>isize::MAX\<close> and a length below \<open>2 ^ 32\<close>, so the
  checked additions cannot overflow.
\<close>

definition UAS_LS_KEY :: bytes where
  "UAS_LS_KEY = [0x06, 0x0e, 0x2b, 0x34, 0x02, 0x0b, 0x01, 0x01, 0x0e, 0x01, 0x03, 0x01, 0x01, 0x00, 0x00, 0x00]"

datatype klv_error = NotUasLs | KlvTruncated | BadLength | BadChecksum | KlvBuild build_error

record uas_metadata =
  um_timestamp :: "str option"
  um_tail_number :: "str option"
  um_designation :: "str option"
  um_mission_id :: "str option"
  um_heading_deg :: "f64 option"
  um_pitch_deg :: "f64 option"
  um_roll_deg :: "f64 option"
  um_lat :: f64
  um_lon :: f64
  um_alt_m :: "f64 option"
  um_ls_version :: "u8 option"
  um_raw :: bytes

definition uas_metadata_default :: uas_metadata where
  "uas_metadata_default = \<lparr>um_timestamp = None, um_tail_number = None, um_designation = None, um_mission_id = None,
     um_heading_deg = None, um_pitch_deg = None, um_roll_deg = None, um_lat = f64_of_int 0, um_lon = f64_of_int 0,
     um_alt_m = None, um_ls_version = None, um_raw = []\<rparr>"

record klv_parser =
  kp_source_id :: str
  kp_enrichment :: enrichment

definition klv_new :: "str \<Rightarrow> enrichment \<Rightarrow> klv_parser" where
  "klv_new source_id en = \<lparr>kp_source_id = source_id, kp_enrichment = en\<rparr>"

section \<open>Readers\<close>

definition bcc_16 :: "bytes \<Rightarrow> u16" where
  "bcc_16 bs = fold (\<lambda>(i, b) sum. sum + push_bit (8 * ((i + 1) mod 2)) (ucast b)) (enumerate 0 bs) 0"

fun read_ber_octets :: "nat \<Rightarrow> bytes \<Rightarrow> nat \<Rightarrow> nat \<Rightarrow> klv_error + nat \<times> nat" where
  "read_ber_octets 0 buf pos len = Inr (len, pos)"
| "read_ber_octets (Suc n) buf pos len =
     (case slice_get buf pos of None \<Rightarrow> Inl KlvTruncated
      | Some b \<Rightarrow> read_ber_octets n buf (pos + 1) (256 * len + unat b))"

definition read_ber_len :: "bytes \<Rightarrow> nat \<Rightarrow> klv_error + nat \<times> nat" where
  "read_ber_len buf pos =
     (case slice_get buf pos of None \<Rightarrow> Inl KlvTruncated
      | Some b0 \<Rightarrow>
          if b0 AND 0x80 = 0 then Inr (unat b0, pos + 1)
          else let n = unat (b0 AND 0x7f) in
            if n = 0 \<or> 4 < n then Inl BadLength else read_ber_octets n buf (pos + 1) 0)"

function read_ber_oid_from :: "bytes \<Rightarrow> nat \<Rightarrow> u32 \<Rightarrow> klv_error + u32 \<times> nat" where
  "read_ber_oid_from buf pos tag =
     (case slice_get buf pos of None \<Rightarrow> Inl KlvTruncated
      | Some b \<Rightarrow>
          let tag = push_bit 7 tag OR ucast (b AND 0x7f) in
          if b AND 0x80 = 0 then Inr (tag, pos + 1) else read_ber_oid_from buf (pos + 1) tag)"
  by pat_completeness auto
termination
  by (relation "measure (\<lambda>(buf, pos, tag). length buf - pos)") (auto simp: slice_simps)

declare read_ber_oid_from.simps [simp del]

definition read_ber_oid_tag :: "bytes \<Rightarrow> nat \<Rightarrow> klv_error + u32 \<times> nat" where
  "read_ber_oid_tag buf pos = read_ber_oid_from buf pos 0"

text \<open>The conversions \<open>v.try_into().ok()\<close> succeed exactly on the length of the array.\<close>

definition be_u16 :: "bytes \<Rightarrow> u16 option" where
  "be_u16 v = (case v of [a, b] \<Rightarrow> Some (u16_from_be a b) | _ \<Rightarrow> None)"

definition be_i16 :: "bytes \<Rightarrow> int option" where
  "be_i16 v = map_option sint (be_u16 v)"

definition be_i32 :: "bytes \<Rightarrow> int option" where
  "be_i32 v = (case v of [a, b, c, d] \<Rightarrow> Some (sint (u32_from_be a b c d)) | _ \<Rightarrow> None)"

definition be_u64 :: "bytes \<Rightarrow> u64 option" where
  "be_u64 v = (if length v = 8 then Some (u64_from_be v) else None)"

definition i32_angle :: "int \<Rightarrow> int \<Rightarrow> f64 option" where
  "i32_angle v half_deg =
     (if v = - (2 ^ 31) then None
      else Some (f64_div (f64_mul (f64_of_int v) (f64_of_int half_deg)) (f64_of_int (2 ^ 31 - 1))))"

definition i16_scaled :: "int \<Rightarrow> int \<Rightarrow> f64 option" where
  "i16_scaled v half_deg =
     (if v = - (2 ^ 15) then None
      else Some (f64_div (f64_mul (f64_of_int v) (f64_of_int half_deg)) (f64_of_int (2 ^ 15 - 1))))"

definition klv_ascii :: "bytes \<Rightarrow> str option" where
  "klv_ascii v = (let s = trim (from_utf8_lossy v) in if s = [] then None else Some s)"

definition klv_heading :: "u16 \<Rightarrow> f64" where
  "klv_heading v = f64_div (f64_mul (f64_of_int (uint v)) (f64_of_int 360)) (f64_of_int 65535)"

definition klv_altitude :: "u16 \<Rightarrow> f64" where
  "klv_altitude v = f64_add (f64_of_int (-900)) (f64_div (f64_mul (f64_of_int (uint v)) (f64_of_int 19900)) (f64_of_int 65535))"

section \<open>Sets\<close>

type_synonym klv_state = "uas_metadata \<times> f64 option \<times> f64 option"

definition klv_item :: "(int \<Rightarrow> str option) \<Rightarrow> u32 \<Rightarrow> bytes \<Rightarrow> klv_state \<Rightarrow> klv_state" where
  "klv_item fmt tag v st =
     (case st of (m, lat, lon) \<Rightarrow>
      if tag = 2 then (m\<lparr>um_timestamp := Option.bind (be_u64 v) (\<lambda>us. fmt (uint us * 1000))\<rparr>, lat, lon)
      else if tag = 3 then (m\<lparr>um_mission_id := klv_ascii v\<rparr>, lat, lon)
      else if tag = 4 then (m\<lparr>um_tail_number := klv_ascii v\<rparr>, lat, lon)
      else if tag = 5 then (m\<lparr>um_heading_deg := map_option klv_heading (be_u16 v)\<rparr>, lat, lon)
      else if tag = 6 then (m\<lparr>um_pitch_deg := Option.bind (be_i16 v) (\<lambda>x. i16_scaled x 20)\<rparr>, lat, lon)
      else if tag = 7 then (m\<lparr>um_roll_deg := Option.bind (be_i16 v) (\<lambda>x. i16_scaled x 50)\<rparr>, lat, lon)
      else if tag = 10 then (m\<lparr>um_designation := klv_ascii v\<rparr>, lat, lon)
      else if tag = 13 then (m, Option.bind (be_i32 v) (\<lambda>x. i32_angle x 90), lon)
      else if tag = 14 then (m, lat, Option.bind (be_i32 v) (\<lambda>x. i32_angle x 180))
      else if tag = 15 then (m\<lparr>um_alt_m := map_option klv_altitude (be_u16 v)\<rparr>, lat, lon)
      else if tag = 65 then (m\<lparr>um_ls_version := slice_get v 0\<rparr>, lat, lon)
      else (m, lat, lon))"

lemma read_ber_octets_pos: "read_ber_octets n buf pos len = Inr (l, pos') \<Longrightarrow> pos' = pos + n"
  by (induction n arbitrary: pos len) (fastforce split: option.splits)+

lemma read_ber_len_pos: "read_ber_len buf pos = Inr (l, pos') \<Longrightarrow> pos < pos'"
  by (auto simp: read_ber_len_def Let_def split: option.splits if_splits dest: read_ber_octets_pos)

lemma read_ber_oid_pos: "read_ber_oid_from buf pos tag = Inr (t, pos') \<Longrightarrow> pos < pos' \<and> pos' \<le> length buf"
proof (induction buf pos tag rule: read_ber_oid_from.induct)
  case (1 buf pos tag)
  then show ?case
    by (subst (asm) (2) read_ber_oid_from.simps) (fastforce simp: slice_simps Let_def split: option.splits if_splits)
qed

function klv_items :: "(int \<Rightarrow> str option) \<Rightarrow> bytes \<Rightarrow> nat \<Rightarrow> nat \<Rightarrow> klv_state \<Rightarrow> (klv_error + klv_state) option" where
  "klv_items fmt frame end_pos p st =
     (if end_pos \<le> p then Some (Inr st)
      else case read_ber_oid_tag frame p of Inl e \<Rightarrow> Some (Inl e)
      | Inr (tag, p1) \<Rightarrow>
          (case read_ber_len frame p1 of Inl e \<Rightarrow> Some (Inl e)
           | Inr (len, p2) \<Rightarrow>
               let vend = p2 + len in
               if end_pos < vend then Some (Inl KlvTruncated)
               else (case slice_range frame p2 vend of None \<Rightarrow> None
                     | Some v \<Rightarrow> klv_items fmt frame end_pos vend (klv_item fmt tag v st))))"
  by pat_completeness auto
termination
proof (relation "measure (\<lambda>(fmt, frame, end_pos, p, st). end_pos - p)", goal_cases)
  case (2 fmt frame end_pos p st x y1 x2 x1 y x3)
  then show ?case
    by (auto simp: read_ber_oid_tag_def dest!: read_ber_oid_pos read_ber_len_pos)
qed simp

declare klv_items.simps [simp del]

text \<open>The \<open>let (Some(lat), Some(lon))\<close> after the loop.\<close>

definition klv_result :: "bytes \<Rightarrow> klv_error + klv_state \<Rightarrow> klv_error + uas_metadata option" where
  "klv_result pkt r =
     (case r of Inl e \<Rightarrow> Inl e
      | Inr (m, Some lat, Some lon) \<Rightarrow> Inr (Some (m\<lparr>um_lat := lat, um_lon := lon, um_raw := pkt\<rparr>))
      | Inr _ \<Rightarrow> Inr None)"

definition klv_parse_set :: "(int \<Rightarrow> str option) \<Rightarrow> bytes \<Rightarrow> (klv_error + uas_metadata option) option" where
  "klv_parse_set fmt frame =
     (if length frame < 17 \<or> take 16 frame \<noteq> UAS_LS_KEY then Some (Inl NotUasLs)
      else case read_ber_len frame 16 of Inl e \<Rightarrow> Some (Inl e)
      | Inr (set_len, pos) \<Rightarrow>
          let end_pos = pos + set_len in
          if length frame < end_pos \<or> end_pos < pos + 2 then Some (Inl KlvTruncated)
          else do {
            pkt \<leftarrow> slice_range frame 0 end_pos;
            hi \<leftarrow> slice_get pkt (end_pos - 2); lo \<leftarrow> slice_get pkt (end_pos - 1);
            covered \<leftarrow> slice_range pkt 0 (end_pos - 2);
            if bcc_16 covered \<noteq> u16_from_be hi lo then Some (Inl BadChecksum)
            else map_option (klv_result pkt) (klv_items fmt frame end_pos pos (uas_metadata_default, None, None)) })"

section \<open>Events\<close>

definition klv_base_builder :: "str \<Rightarrow> enrichment \<Rightarrow> effects \<Rightarrow> uas_metadata \<Rightarrow> event_builder" where
  "klv_base_builder source_id en fx m =
     (let b = eb_new source_id ''mim:aircraft''; b = eb_new_id (uuid fx) b;
          b = eb_location (um_lat m) (um_lon m) (case um_alt_m m of Some a \<Rightarrow> a | None \<Rightarrow> f64_of_int 0) b;
          b = eb_payload (um_raw m) b;
          b = opt_metadata ''source_uid'' (case um_tail_number m of Some t \<Rightarrow> Some t | None \<Rightarrow> um_designation m) b;
          b = opt_metadata ''tail_number'' (um_tail_number m) b;
          b = opt_metadata ''mission_id'' (um_mission_id m) b;
          b = opt_metadata ''uas_ls_version'' (map_option (\<lambda>v. show_int (uint v)) (um_ls_version m)) b;
          b = opt_attribute ''hostility'' (hostility en) b;
          b = opt_attribute ''platform_designation'' (um_designation m) b;
          b = opt_attribute ''heading'' (map_option (fmt_fixed 1) (um_heading_deg m)) b;
          b = opt_attribute ''pitch'' (map_option (fmt_fixed 1) (um_pitch_deg m)) b
      in opt_attribute ''roll'' (map_option (fmt_fixed 1) (um_roll_deg m)) b)"

definition klv_to_event_at :: "str \<Rightarrow> enrichment \<Rightarrow> effects \<Rightarrow> uas_metadata \<Rightarrow> str \<Rightarrow> klv_error + event" where
  "klv_to_event_at source_id en fx m observed =
     (case build (eb_timestamp observed (klv_base_builder source_id en fx m)) of Inl err \<Rightarrow> Inl (KlvBuild err) | Inr e \<Rightarrow> Inr e)"

definition klv_parse :: "(int \<Rightarrow> str option) \<Rightarrow> effects \<Rightarrow> bytes \<Rightarrow> klv_parser \<Rightarrow> (klv_parser \<times> (klv_error + event list)) option" where
  "klv_parse fmt fx frame st =
     (case klv_parse_set fmt frame of None \<Rightarrow> None
      | Some (Inl e) \<Rightarrow> Some (st, Inl e)
      | Some (Inr None) \<Rightarrow> Some (st, Inr [])
      | Some (Inr (Some m)) \<Rightarrow>
          let timestamp = um_timestamp m;
              b = klv_base_builder (kp_source_id st) (kp_enrichment st) fx (m\<lparr>um_timestamp := None\<rparr>);
              b = (case timestamp of Some ts \<Rightarrow> eb_timestamp ts b | None \<Rightarrow> eb_now (wall_clock fx) b)
          in Some (st, case build b of Inl err \<Rightarrow> Inl (KlvBuild err) | Inr e \<Rightarrow> Inr [e]))"

section \<open>No panic\<close>

lemma klv_items_total: "end_pos \<le> length frame \<Longrightarrow> klv_items fmt frame end_pos p st \<noteq> None"
proof (induction fmt frame end_pos p st rule: klv_items.induct)
  case (1 fmt frame end_pos p st)
  then show ?case
    by (subst klv_items.simps)
       (auto simp: Let_def slice_simps split: sum.split option.split simp del: not_None_eq)
qed

definition klv_checked :: "bytes \<Rightarrow> nat \<Rightarrow> bool" where
  "klv_checked frame e \<longleftrightarrow> bcc_16 (take (e - 2) frame) = u16_from_be (frame ! (e - 2)) (frame ! (e - 1))"

lemma klv_parse_set_in:
  assumes "17 \<le> length frame" "take 16 frame = UAS_LS_KEY" "read_ber_len frame 16 = Inr (n, pos)" "pos + n \<le> length frame" "2 \<le> n"
  shows "klv_parse_set fmt frame =
    (if klv_checked frame (pos + n)
     then map_option (klv_result (take (pos + n) frame)) (klv_items fmt frame (pos + n) pos (uas_metadata_default, None, None))
     else Some (Inl BadChecksum))"
  using assms by (simp add: klv_parse_set_def klv_checked_def Let_def slice_range_def slice_get_def)

lemma klv_parse_set_cases:
  obtains e where "klv_parse_set fmt frame = Some (Inl e)"
  | n pos where "17 \<le> length frame" "take 16 frame = UAS_LS_KEY" "read_ber_len frame 16 = Inr (n, pos)" "pos + n \<le> length frame" "2 \<le> n"
proof (cases "17 \<le> length frame \<and> take 16 frame = UAS_LS_KEY")
  case True
  show thesis
  proof (cases "read_ber_len frame 16")
    case (Inr q)
    with True that show thesis by (cases q) (force simp: klv_parse_set_def Let_def not_le not_less)
  qed (use True that(1) in \<open>simp add: klv_parse_set_def\<close>)
qed (use that(1) in \<open>auto simp: klv_parse_set_def\<close>)

lemma klv_parse_set_total: "klv_parse_set fmt frame \<noteq> None"
proof (rule klv_parse_set_cases [of fmt frame])
  fix n pos
  assume "17 \<le> length frame" "take 16 frame = UAS_LS_KEY" "read_ber_len frame 16 = Inr (n, pos)" "pos + n \<le> length frame" "2 \<le> n"
  then show ?thesis
    using klv_items_total [of "pos + n" frame fmt pos] by (subst klv_parse_set_in) (auto split: prod.split)
qed simp

section \<open>An encoder\<close>

text \<open>Local sets as ST 0601 writes them: tags in base 128, lengths in the shortest form.\<close>

fun be_octets :: "nat \<Rightarrow> nat \<Rightarrow> bytes" where
  "be_octets 0 n = []"
| "be_octets (Suc k) n = of_nat (n div 256 ^ k mod 256) # be_octets k n"

definition ber_len :: "nat \<Rightarrow> bytes" where
  "ber_len n = (if n < 128 then [of_nat n] else if n < 256 then 0x81 # be_octets 1 n
     else if n < 65536 then 0x82 # be_octets 2 n else 0x84 # be_octets 4 n)"

fun ber_more :: "nat \<Rightarrow> bytes" where
  "ber_more t = (if t = 0 then [] else ber_more (t div 128) @ [0x80 OR of_nat (t mod 128)])"

declare ber_more.simps [simp del]

definition ber_oid :: "nat \<Rightarrow> bytes" where
  "ber_oid t = ber_more (t div 128) @ [of_nat (t mod 128)]"

definition klv_encode :: "(nat \<times> bytes) list \<Rightarrow> bytes" where
  "klv_encode items = concat (map (\<lambda>(t, v). ber_oid t @ ber_len (length v) @ v) items)"

definition klv_set :: "(nat \<times> bytes) list \<Rightarrow> bytes" where
  "klv_set items =
     (let body = klv_encode items @ [1, 2]; head = UAS_LS_KEY @ ber_len (length body + 2) @ body; sum = bcc_16 head
      in head @ [ucast (drop_bit 8 sum), ucast sum])"

lemma length_be_octets [simp]: "length (be_octets k n) = k"
  by (induction k) auto

lemma read_be_octets: "read_ber_octets k (pre @ be_octets k n @ rest) (length pre) len = Inr (len * 256 ^ k + n mod 256 ^ k, length pre + k)"
proof (induction k arbitrary: pre len)
  case (Suc k)
  let ?d = "n div 256 ^ k mod 256"
  have "read_ber_octets k ((pre @ [of_nat ?d]) @ be_octets k n @ rest) (length (pre @ [of_nat ?d :: u8])) (256 * len + ?d)
      = Inr ((256 * len + ?d) * 256 ^ k + n mod 256 ^ k, length pre + Suc k)"
    by (subst Suc.IH) simp
  moreover have "(256 * len + ?d) * 256 ^ k + n mod 256 ^ k = len * 256 ^ Suc k + n mod 256 ^ Suc k"
  proof -
    have "n mod 256 ^ Suc k = 256 ^ k * ?d + n mod 256 ^ k" using mod_mult2_eq [of n "256 ^ k" 256] by (simp add: mult.commute)
    then show ?thesis by (simp add: distrib_right)
  qed
  ultimately show ?case by (simp add: slice_get_middle unat_of_nat_u8)
qed simp

lemma read_ber_len_enc:
  assumes "n < 2 ^ 32"
  shows "read_ber_len (pre @ ber_len n @ rest) (length pre) = Inr (n, length pre + length (ber_len n))"
proof -
  have long: "read_ber_len (pre @ (h # be_octets k n) @ rest) (length pre) = Inr (n, length pre + Suc k)"
    if "h AND 0x80 \<noteq> 0" "unat (h AND 0x7f) = k" "0 < k" "k \<le> 4" "n < 256 ^ k" for h k
    using that read_be_octets [of k "pre @ [h]" n rest 0] by (simp add: read_ber_len_def slice_get_middle)
  have short: "read_ber_len (pre @ [of_nat n] @ rest) (length pre) = Inr (n, length pre + 1)" if "n < 128"
  proof -
    have "(of_nat n :: u8) AND 0x80 = 0"
    proof -
      have "take_bit 7 (of_nat n :: u8) = of_nat n" using that by (metis take_bit_of_nat take_bit_nat_eq_self power_7_eq)
      then have "\<not> bit (of_nat n :: u8) 7" by (metis bit_take_bit_iff less_irrefl)
      then show ?thesis using and_exp_eq_0_iff_not_bit [of "of_nat n :: u8" 7] by simp
    qed
    then show ?thesis using that by (simp add: read_ber_len_def slice_get_middle unat_of_nat_u8)
  qed
  show ?thesis
  proof -
    consider "n < 128" | "128 \<le> n" "n < 256" | "256 \<le> n" "n < 65536" | "65536 \<le> n" by linarith
    then show ?thesis
      using assms short long [of "0x81" 1] long [of "0x82" 2] long [of "0x84" 4]
      by cases (simp_all only: ber_len_def if_True if_False not_less [symmetric] length_Cons length_be_octets list.size(3), simp_all)
  qed
qed

lemma or_of_nat_u32: "r < 128 \<Longrightarrow> push_bit 7 (of_nat a :: u32) OR of_nat r = of_nat (128 * a + r)"
proof -
  assume r: "r < 128"
  have "take_bit 7 (of_nat r :: u32) = of_nat r" using r by (metis take_bit_of_nat take_bit_nat_eq_self power_7_eq)
  then have "push_bit 7 (of_nat a :: u32) OR of_nat r = push_bit 7 (of_nat a) + of_nat r"
    by (intro disjunctive_add [symmetric]) (metis bit_push_bit_iff bit_take_bit_iff leD)
  then show ?thesis by (simp add: push_bit_eq_mult)
qed

lemma cont_octet:
  assumes "r < 128"
  shows "(0x80 OR of_nat r :: u8) AND 0x80 \<noteq> 0" "(of_nat r :: u8) AND 0x80 = 0"
    "ucast ((0x80 OR of_nat r :: u8) AND 0x7f) = (of_nat r :: u32)" "ucast ((of_nat r :: u8) AND 0x7f) = (of_nat r :: u32)"
proof -
  have t: "take_bit 7 (of_nat r :: u8) = of_nat r" using assms by (metis take_bit_of_nat take_bit_nat_eq_self power_7_eq)
  then have b: "bit (of_nat r :: u8) n \<Longrightarrow> n < 7" for n by (metis bit_take_bit_iff)
  have m: "(0x7f :: u8) = mask 7" by (simp add: mask_eq_exp_minus_1)
  have u: "ucast (of_nat r :: u8) = (of_nat r :: u32)"
    using assms by (simp add: unsigned_of_nat take_bit_nat_eq_self)
  have x: "bit (0x80 :: u8) n \<longleftrightarrow> n = 7" for n using bit_exp_iff [where ?'a = "8 word", of 7 n] by auto
  show "(of_nat r :: u8) AND 0x80 = 0"
    using b [of 7] and_exp_eq_0_iff_not_bit [of "of_nat r :: u8" 7] by auto
  show "(0x80 OR of_nat r :: u8) AND 0x80 \<noteq> 0"
    using and_exp_eq_0_iff_not_bit [of "0x80 OR of_nat r :: u8" 7] x [of 7] by (simp add: bit_or_iff)
  show "ucast ((of_nat r :: u8) AND 0x7f) = (of_nat r :: u32)"
    unfolding m take_bit_eq_mask [symmetric] t by (rule u)
  have "take_bit 7 (0x80 OR of_nat r :: u8) = of_nat r"
    by (rule bit_word_eqI) (auto simp: bit_take_bit_iff bit_or_iff x dest: b)
  then show "ucast ((0x80 OR of_nat r :: u8) AND 0x7f) = (of_nat r :: u32)"
    unfolding m take_bit_eq_mask [symmetric] by (simp add: u)
qed

lemma read_ber_more:
  "read_ber_oid_from (pre @ ber_more a @ ys) (length pre) 0 = read_ber_oid_from (pre @ ber_more a @ ys) (length pre + length (ber_more a)) (of_nat a)"
proof (induction a arbitrary: ys rule: ber_more.induct)
  case (1 t)
  show ?case
  proof (cases "t = 0")
    case False
    let ?h = "0x80 OR of_nat (t mod 128) :: u8" and ?q = "ber_more (t div 128)"
    have e: "ber_more t = ?q @ [?h]" using False by (subst ber_more.simps) simp
    have "read_ber_oid_from (pre @ ?q @ [?h] @ ys) (length pre) 0
        = read_ber_oid_from ((pre @ ?q) @ ?h # ys) (length (pre @ ?q)) (of_nat (t div 128))"
      using "1.IH" [OF False, of "[?h] @ ys"] by simp
    also have "\<dots> = read_ber_oid_from ((pre @ ?q) @ ?h # ys) (length (pre @ ?q) + 1) (of_nat t)"
      using cont_octet [of "t mod 128"] or_of_nat_u32 [of "t mod 128" "t div 128"]
      by (subst read_ber_oid_from.simps) (simp add: slice_get_middle del: of_nat_add of_nat_mult)
    finally show ?thesis by (simp add: e)
  qed (simp add: ber_more.simps)
qed

lemma read_ber_oid_enc: "read_ber_oid_tag (pre @ ber_oid t @ ys) (length pre) = Inr (of_nat t, length pre + length (ber_oid t))"
proof -
  let ?l = "of_nat (t mod 128) :: u8" and ?q = "ber_more (t div 128)"
  have "read_ber_oid_tag (pre @ ber_oid t @ ys) (length pre)
      = read_ber_oid_from ((pre @ ?q) @ ?l # ys) (length (pre @ ?q)) (of_nat (t div 128))"
    using read_ber_more [of pre "t div 128" "?l # ys"] by (simp add: read_ber_oid_tag_def ber_oid_def)
  also have "\<dots> = Inr (of_nat t, length pre + length (ber_oid t))"
    using cont_octet [of "t mod 128"] or_of_nat_u32 [of "t mod 128" "t div 128"]
    by (subst read_ber_oid_from.simps) (simp add: slice_get_middle ber_oid_def del: of_nat_add of_nat_mult)
  finally show ?thesis .
qed

definition klv_decoded :: "(int \<Rightarrow> str option) \<Rightarrow> (nat \<times> bytes) list \<Rightarrow> klv_state \<Rightarrow> klv_state" where
  "klv_decoded fmt items st = fold (\<lambda>(t, v). klv_item fmt (of_nat t) v) items st"

lemma ber_oid_not_Nil [simp]: "ber_oid t \<noteq> []"
  by (simp add: ber_oid_def)

lemma klv_encode_append: "klv_encode (xs @ ys) = klv_encode xs @ klv_encode ys"
  by (simp add: klv_encode_def)

lemma klv_encode_checksum: "klv_encode [(Suc 0, [x, y])] = [1, 2, x, y]"
  by (simp add: klv_encode_def ber_oid_def ber_more.simps ber_len_def)

lemma klv_decoded_checksum: "klv_decoded fmt (items @ [(Suc 0, v)]) st = klv_decoded fmt items st"
  by (simp add: klv_decoded_def klv_item_def split: prod.split)

lemma klv_items_one:
  assumes "length v < 2 ^ 32" "length pre + length (ber_oid t @ ber_len (length v) @ v) \<le> e"
  shows "klv_items fmt (pre @ ber_oid t @ ber_len (length v) @ v @ ys) e (length pre) st
    = klv_items fmt (pre @ ber_oid t @ ber_len (length v) @ v @ ys) e (length pre + length (ber_oid t @ ber_len (length v) @ v))
        (klv_item fmt (of_nat t) v st)"
proof -
  let ?f = "pre @ ber_oid t @ ber_len (length v) @ v @ ys"
  have "0 < length (ber_oid t)" by simp
  with assms(2) have "\<not> e \<le> length pre" unfolding length_append by linarith
  moreover have "read_ber_oid_tag ?f (length pre) = Inr (of_nat t, length (pre @ ber_oid t))"
    using read_ber_oid_enc [of pre t] by simp
  moreover have "read_ber_len ?f (length (pre @ ber_oid t)) = Inr (length v, length (pre @ ber_oid t @ ber_len (length v)))"
    using read_ber_len_enc [OF assms(1), of "pre @ ber_oid t" "v @ ys"] by simp
  moreover have "slice_range ?f (length (pre @ ber_oid t @ ber_len (length v))) (length (pre @ ber_oid t @ ber_len (length v)) + length v) = Some v"
    by (simp add: slice_range_def)
  ultimately show ?thesis
    using assms(2) by (subst klv_items.simps) (simp add: Let_def add.assoc)
qed

lemma klv_items_enc:
  assumes "list_all (\<lambda>(t, v). length v < 2 ^ 32) items" "length pre + length (klv_encode items) \<le> e"
  shows "klv_items fmt (pre @ klv_encode items @ ys) e (length pre) st
    = klv_items fmt (pre @ klv_encode items @ ys) e (length pre + length (klv_encode items)) (klv_decoded fmt items st)"
  using assms
proof (induction items arbitrary: pre st)
  case (Cons i items)
  obtain t v where i: "i = (t, v)" by force
  let ?x = "ber_oid t @ ber_len (length v) @ v"
  have "klv_items fmt (pre @ ?x @ klv_encode items @ ys) e (length pre) st
      = klv_items fmt ((pre @ ?x) @ klv_encode items @ ys) e (length (pre @ ?x)) (klv_item fmt (of_nat t) v st)"
    using klv_items_one [of v pre t e fmt "klv_encode items @ ys" st] Cons.prems by (simp add: i klv_encode_def)
  also have "\<dots> = klv_items fmt ((pre @ ?x) @ klv_encode items @ ys) e (length (pre @ ?x) + length (klv_encode items))
      (klv_decoded fmt items (klv_item fmt (of_nat t) v st))"
    using Cons.prems by (intro Cons.IH) (simp_all add: i klv_encode_def)
  finally show ?case by (simp add: i klv_encode_def klv_decoded_def add.assoc)
qed (simp add: klv_encode_def klv_decoded_def)

lemma length_UAS_LS_KEY [simp]: "length UAS_LS_KEY = 16"
  by (simp add: UAS_LS_KEY_def)

lemma klv_parse_set_enc:
  assumes "length (klv_encode items) < 2 ^ 31"
  shows "klv_parse_set fmt (klv_set items @ rest)
    = Some (klv_result (klv_set items) (Inr (klv_decoded fmt items (uas_metadata_default, None, None))))"
proof -
  let ?body = "klv_encode items @ [1, 2]" and ?st = "(uas_metadata_default, None, None)"
  let ?n = "length ?body + 2" and ?h = "UAS_LS_KEY @ ber_len (length ?body + 2) @ ?body"
  let ?c = "[ucast (drop_bit 8 (bcc_16 ?h)), ucast (bcc_16 ?h)] :: bytes" and ?pos = "16 + length (ber_len ?n)"
  have s: "klv_set items = ?h @ ?c" by (simp add: klv_set_def Let_def)
  have n: "?n < 2 ^ 32" using assms by simp
  have len: "length (klv_set items) = ?pos + ?n" by (simp add: s)
  have r: "read_ber_len (klv_set items @ rest) 16 = Inr (?n, ?pos)"
    using read_ber_len_enc [OF n, of UAS_LS_KEY "?body @ ?c @ rest"] by (simp add: s)
  have small: "list_all (\<lambda>(t, v). length v < 2 ^ 32) items"
  proof -
    have "length v \<le> length (klv_encode items)" if "(t, v) \<in> set items" for t v
      using that by (induction items) (auto simp: klv_encode_def)
    then show ?thesis using assms by (force simp: list_all_iff)
  qed
  have "klv_items fmt (klv_set items @ rest) (?pos + ?n) ?pos ?st
      = klv_items fmt (klv_set items @ rest) (?pos + ?n) (?pos + length (klv_encode (items @ [(1, ?c)]))) (klv_decoded fmt (items @ [(1, ?c)]) ?st)"
    using klv_items_enc [of "items @ [(1, ?c)]" "UAS_LS_KEY @ ber_len ?n" "?pos + ?n" fmt rest ?st] small
    by (simp add: s klv_encode_append klv_encode_checksum)
  also have "\<dots> = Some (Inr (klv_decoded fmt items ?st))"
    by (subst klv_items.simps) (simp add: klv_encode_append klv_encode_checksum klv_decoded_checksum)
  finally have i: "klv_items fmt (klv_set items @ rest) (?pos + ?n) ?pos ?st = Some (Inr (klv_decoded fmt items ?st))" .
  have "klv_checked (klv_set items @ rest) (?pos + ?n)"
  proof -
    have "take (?pos + ?n - 2) (klv_set items @ rest) = ?h" by (simp add: s)
    moreover have "(klv_set items @ rest) ! (?pos + ?n - 2) = ucast (drop_bit 8 (bcc_16 ?h))"
      by (simp add: s nth_append)
    moreover have "(klv_set items @ rest) ! (?pos + ?n - 1) = ucast (bcc_16 ?h)"
      by (simp add: s nth_append)
    ultimately show ?thesis by (simp only: klv_checked_def u16_from_to_be)
  qed
  with i show ?thesis
    using r len by (subst klv_parse_set_in [where pos = ?pos and n = ?n]) (simp_all add: s)
qed

section \<open>The checksum\<close>

lemma bcc_16_sum: "bcc_16 bs = (\<Sum>(i, b) \<leftarrow> enumerate 0 bs. push_bit (8 * ((i + 1) mod 2)) (ucast b))"
  using fold_plus [of "\<lambda>(i, b). push_bit (8 * ((i + 1) mod 2)) (ucast b)" "enumerate 0 bs" 0]
  by (simp add: bcc_16_def case_prod_beta')

lemma bcc_term_inj:
  assumes "push_bit (8 * (k mod 2)) (ucast x :: u16) = push_bit (8 * (k mod 2)) (ucast y)"
  shows "x = (y :: u8)"
proof (rule bit_word_eqI)
  fix n :: nat
  assume n: "n < LENGTH(8)"
  have "bit (push_bit (8 * (k mod 2)) (ucast x :: u16)) (8 * (k mod 2) + n) = bit (push_bit (8 * (k mod 2)) (ucast y :: u16)) (8 * (k mod 2) + n)"
    by (simp only: assms)
  moreover have "8 * (k mod 2) + n < 16" using n by (cases "even k") (simp_all add: odd_iff_mod_2_eq_one)
  ultimately show "bit x n = bit y n" using n by (simp add: bit_push_bit_iff bit_ucast_iff)
qed

lemma bcc_16_change:
  assumes "i < length bs" "b \<noteq> bs ! i"
  shows "bcc_16 (bs[i := b]) \<noteq> bcc_16 bs"
proof -
  define f :: "nat \<times> u8 \<Rightarrow> u16" where "f = (\<lambda>(i, b). push_bit (8 * ((i + 1) mod 2)) (ucast b))"
  have split: "bcc_16 (xs @ x # ys) = (sum_list (map f (enumerate 0 xs)) + sum_list (map f (enumerate (Suc (length xs)) ys))) + f (length xs, x)" for xs x ys
    by (simp add: bcc_16_sum enumerate_append_eq f_def ac_simps)
  have "bs = take i bs @ bs ! i # drop (Suc i) bs" "bs[i := b] = take i bs @ b # drop (Suc i) bs"
    using assms(1) by (simp_all add: id_take_nth_drop upd_conv_take_nth_drop)
  then have "bcc_16 (bs[i := b]) = bcc_16 bs \<longleftrightarrow> f (i, b) = f (i, bs ! i)"
    using assms(1) split [of "take i bs" b "drop (Suc i) bs"] split [of "take i bs" "bs ! i" "drop (Suc i) bs"] by simp
  with assms(2) bcc_term_inj [of "i + 1" b "bs ! i"] show ?thesis by (auto simp: f_def)
qed

lemma read_ber_octets_update:
  "read_ber_octets n buf pos len = Inr (l, e) \<Longrightarrow> e \<le> i \<Longrightarrow> read_ber_octets n (buf[i := b]) pos len = Inr (l, e)"
proof (induction n arbitrary: pos len)
  case (Suc n)
  then obtain c where c: "slice_get buf pos = Some c" "read_ber_octets n buf (pos + 1) (256 * len + unat c) = Inr (l, e)"
    by (auto split: option.splits)
  from read_ber_octets_pos [OF c(2)] Suc.prems(2) have "pos \<noteq> i" by simp
  with c Suc show ?case by (simp add: slice_get_def split: if_splits)
qed simp

lemma read_ber_len_update:
  "read_ber_len buf pos = Inr (l, e) \<Longrightarrow> e \<le> i \<Longrightarrow> read_ber_len (buf[i := b]) pos = Inr (l, e)"
  using read_ber_len_pos [of buf pos l e] read_ber_octets_update [of _ buf "pos + 1" 0 l e i b]
  by (auto simp: read_ber_len_def Let_def slice_get_def split: if_splits)

section \<open>Positions\<close>

lemma i32_angle_bounds:
  assumes "i32_angle (sint (w :: u32)) h = Some x" "0 < h" "h < 2 ^ 15"
  shows "magnitude_le h x"
proof -
  have "- (2 ^ 31) \<le> sint w" "sint w < 2 ^ 31" using sint_range_size [of w] by (simp_all add: word_size)
  moreover have "sint w \<noteq> - (2 ^ 31)" "x = f64_div (f64_mul (f64_of_int (sint w)) (f64_of_int h)) (f64_of_int (2 ^ 31 - 1))"
    using assms(1) by (auto simp: i32_angle_def split: if_splits)
  moreover have "\<bar>sint w\<bar> \<le> 2 ^ 31 - 1" using calculation(1-3) by linarith
  ultimately show ?thesis using scaled_bounds [of "sint w" "2 ^ 31 - 1" h] assms(2,3) by simp
qed

lemma klv_altitude_finite: "is_finite (klv_altitude v)"
proof -
  have "uint v \<le> 65535" using uint_bounded [of v] by simp
  then obtain s m where m: "f64_div (f64_mul (f64_of_int (uint v)) (f64_of_int 19900)) (f64_of_int 65535) = FNum s m" "0 \<le> m" "m \<le> 19900"
    using scaled_bounds [of "uint v" 65535 19900] by (auto simp: magnitude_le_def)
  define x where "x = - 900 + signed_val s m"
  have "\<bar>x\<bar> \<le> of_int 20800" using m(2,3) by (auto simp: x_def signed_val_def abs_if)
  moreover have "(of_int 20800 :: rat) < pow2 1024" by (simp add: pow2_def)
  ultimately obtain k where "fl (x < 0) \<bar>x\<bar> = FNum (x < 0) k"
    using fl_le [of "\<bar>x\<bar>" "of_int 20800" "x < 0"] representable_int [of 20800] by auto
  then show ?thesis
    using m(1) f64_of_int_exact [of "-900"] by (simp add: klv_altitude_def x_def signed_val_def Let_def)
qed

definition klv_ok :: "(int \<Rightarrow> str option) \<Rightarrow> klv_state \<Rightarrow> bool" where
  "klv_ok fmt st = (case st of (m, lat, lon) \<Rightarrow>
     pred_option (magnitude_le 90) lat \<and> pred_option (magnitude_le 180) lon \<and> pred_option is_finite (um_alt_m m)
     \<and> (\<forall>ts. um_timestamp m = Some ts \<longrightarrow> (\<exists>n. fmt n = Some ts)))"

lemma be_i32_angle: "0 < h \<Longrightarrow> h < 2 ^ 15 \<Longrightarrow> pred_option (magnitude_le h) (Option.bind (be_i32 v) (\<lambda>x. i32_angle x h))"
  by (auto simp: be_i32_def i32_angle_bounds pred_option_def Option.bind_eq_Some_conv elem_set split: list.splits)

lemma klv_item_ok: "klv_ok fmt st \<Longrightarrow> klv_ok fmt (klv_item fmt tag v st)"
proof -
  assume "klv_ok fmt st"
  moreover obtain m lat lon where "st = (m, lat, lon)" by (metis prod_cases3)
  moreover note be_i32_angle [of 90 v] be_i32_angle [of 180 v]
  ultimately show ?thesis
    by (auto simp: klv_ok_def klv_item_def klv_altitude_finite pred_option_def elem_set Option.bind_eq_Some_conv)
qed

lemma klv_items_ok: "klv_items fmt frame e p st = Some (Inr st') \<Longrightarrow> klv_ok fmt st \<Longrightarrow> klv_ok fmt st'"
proof (induction fmt frame e p st rule: klv_items.induct)
  case (1 fmt frame e p st)
  show ?case
  proof (cases "e \<le> p")
    case True
    with "1.prems" show ?thesis by (simp add: klv_items.simps)
  next
    case False
    with "1.prems"(1) obtain tag p1 len p2 v where r: "read_ber_oid_tag frame p = Inr (tag, p1)" "read_ber_len frame p1 = Inr (len, p2)"
        "\<not> e < p2 + len" "slice_range frame p2 (p2 + len) = Some v"
        "klv_items fmt frame e (p2 + len) (klv_item fmt tag v st) = Some (Inr st')"
      by (subst (asm) klv_items.simps) (auto simp: Let_def split: if_splits sum.splits option.splits)
    show ?thesis by (rule "1.IH" [OF False r(1) refl r(2) refl refl r(3,4,5)]) (rule klv_item_ok [OF "1.prems"(2)])
  qed
qed

lemma klv_result_Some:
  "klv_result pkt r = Inr (Some m) \<longleftrightarrow>
     (\<exists>m' lat lon. r = Inr (m', Some lat, Some lon) \<and> m = m'\<lparr>um_lat := lat, um_lon := lon, um_raw := pkt\<rparr>)"
  by (auto simp: klv_result_def split: sum.splits option.splits)

lemma klv_parse_set_sound:
  assumes "klv_parse_set fmt frame = Some (Inr (Some m))"
  shows "location_ok \<lparr>latitude = um_lat m, longitude = um_lon m, altitude_m = (case um_alt_m m of Some a \<Rightarrow> a | None \<Rightarrow> f64_of_int 0)\<rparr>"
    "um_timestamp m = Some ts \<Longrightarrow> \<exists>n. fmt n = Some ts"
    "\<exists>n pos. read_ber_len frame 16 = Inr (n, pos) \<and> pos + n \<le> length frame \<and> um_raw m = take (pos + n) frame"
proof -
  obtain n pos where h: "17 \<le> length frame" "take 16 frame = UAS_LS_KEY" "read_ber_len frame 16 = Inr (n, pos)" "pos + n \<le> length frame" "2 \<le> n"
    by (rule klv_parse_set_cases [of fmt frame]) (use assms in simp_all)
  obtain m' lat lon where i: "klv_items fmt frame (pos + n) pos (uas_metadata_default, None, None) = Some (Inr (m', Some lat, Some lon))"
    and m: "m = m'\<lparr>um_lat := lat, um_lon := lon, um_raw := take (pos + n) frame\<rparr>"
    using assms klv_parse_set_in [OF h, of fmt] by (auto simp: klv_result_Some split: if_splits)
  have "klv_ok fmt (m', Some lat, Some lon)"
    by (rule klv_items_ok [OF i]) (simp add: klv_ok_def uas_metadata_default_def)
  then have k: "magnitude_le 90 lat" "magnitude_le 180 lon" "pred_option is_finite (um_alt_m m')"
      "\<And>ts. um_timestamp m' = Some ts \<Longrightarrow> \<exists>n. fmt n = Some ts"
    by (auto simp: klv_ok_def)
  with magnitude_within [of 90 lat] magnitude_within [of 180 lon] f64_of_int_exact [of 0] k(3)
  show "location_ok \<lparr>latitude = um_lat m, longitude = um_lon m, altitude_m = (case um_alt_m m of Some a \<Rightarrow> a | None \<Rightarrow> f64_of_int 0)\<rparr>"
    by (auto simp: m location_ok_def split: option.split)
  show "um_timestamp m = Some ts \<Longrightarrow> \<exists>n. fmt n = Some ts" using k(4) by (simp add: m)
  show "\<exists>n pos. read_ber_len frame 16 = Inr (n, pos) \<and> pos + n \<le> length frame \<and> um_raw m = take (pos + n) frame"
    using h(3,4) by (simp add: m)
qed

definition klv_attributes :: "str list" where
  "klv_attributes = [''hostility'', ''platform_designation'', ''heading'', ''pitch'', ''roll'']"

definition klv_metadata :: "str list" where
  "klv_metadata = [''source_uid'', ''tail_number'', ''mission_id'', ''uas_ls_version'']"

lemma keys_klv: "keys_within klv_attributes klv_metadata (klv_base_builder src en fx m)"
proof -
  have "keys_within (foldl (\<lambda>a k. a @ [k]) [] klv_attributes) (foldl (\<lambda>a k. a @ [k]) [] klv_metadata) (klv_base_builder src en fx m)"
    unfolding klv_attributes_def klv_metadata_def foldl.simps klv_base_builder_def Let_def
    by (rule keys_rules)+
  moreover have "foldl (\<lambda>a k. a @ [k]) a ks = a @ ks" for a ks :: "str list" by (induction ks arbitrary: a) auto
  ultimately show ?thesis by simp
qed

lemma klv_builder_fields:
  "b_id (klv_base_builder src en fx m) = Some (uuid fx)"
  "b_source_id (klv_base_builder src en fx m) = src" "b_entity_type (klv_base_builder src en fx m) = ''mim:aircraft''"
  "b_policy_tags (klv_base_builder src en fx m) = []" "b_confidence (klv_base_builder src en fx m) = FNum False 0"
  "b_payload (klv_base_builder src en fx m) = um_raw m"
  "b_location (klv_base_builder src en fx m)
     = Some \<lparr>latitude = um_lat m, longitude = um_lon m, altitude_m = (case um_alt_m m of Some a \<Rightarrow> a | None \<Rightarrow> f64_of_int 0)\<rparr>"
  by (simp_all add: klv_base_builder_def Let_def eb_fixed_sel)

lemma klv_keys_small:
  "distinct klv_attributes" "distinct klv_metadata" "length klv_attributes \<le> MAX_ATTRIBUTES"
  "length klv_metadata \<le> MAX_METADATA" "is_namespaced ''mim:aircraft''"
  "filter (\<lambda>k. \<not> governs ONTOLOGY ''mim:aircraft'' k) klv_attributes = [''platform_designation'', ''pitch'', ''roll'']"
  by code_simp+

lemma klv_builds:
  assumes "src \<noteq> []" "is_rfc3339 clock"
  shows "build (eb_now clock (klv_base_builder src en fx m)) = Inr e
    \<longleftrightarrow> e = built_event (eb_now clock (klv_base_builder src en fx m))
      \<and> location_ok \<lparr>latitude = um_lat m, longitude = um_lon m, altitude_m = (case um_alt_m m of Some a \<Rightarrow> a | None \<Rightarrow> f64_of_int 0)\<rparr>"
  using build_located [of klv_attributes klv_metadata "eb_now clock (klv_base_builder src en fx m)" "uuid fx" clock e]
    klv_keys_small assms keys_setters(3) [OF keys_klv]
  by (simp add: eb_fixed_sel klv_builder_fields)

lemma klv_parse_builder:
  assumes "klv_parse_set fmt frame = Some (Inr (Some m))"
  shows "klv_parse fmt fx frame st = Some (st, case build (eb_now (case um_timestamp m of Some ts \<Rightarrow> ts | None \<Rightarrow> wall_clock fx)
      (klv_base_builder (kp_source_id st) (kp_enrichment st) fx m)) of Inl err \<Rightarrow> Inl (KlvBuild err) | Inr e \<Rightarrow> Inr [e])"
proof -
  have "klv_base_builder src en fx (m\<lparr>um_timestamp := None\<rparr>) = klv_base_builder src en fx m" for src en
    by (simp add: klv_base_builder_def cong: option.case_cong)
  then show ?thesis using assms by (simp add: klv_parse_def eb_timestamp_now split: option.split)
qed

interpretation klv_frames: frame_parser "klv_parse fmt" kp_source_id for fmt
proof
  fix fx frame st st' r
  assume "klv_parse fmt fx frame st = Some (st', r)"
  then show "kp_source_id st' = kp_source_id st"
    by (auto simp: klv_parse_def Let_def split: option.splits sum.splits)
next
  fix fx frame st st' es e
  assume p: "klv_parse fmt fx frame st = Some (st', Inr es)" "e \<in> set es"
  then obtain m where m: "klv_parse_set fmt frame = Some (Inr (Some m))"
    by (auto simp: klv_parse_def Let_def split: option.splits sum.splits)
  with p klv_parse_builder [OF m, of fx st] obtain clock where
      "build (eb_now clock (klv_base_builder (kp_source_id st) (kp_enrichment st) fx m)) = Inr e"
    by (auto split: sum.splits)
  from build_source [OF this] show "canonical_event e \<and> ev_source_id e = kp_source_id st"
    by (simp add: eb_fixed_sel klv_builder_fields)
qed

section \<open>Properties\<close>

text \<open>C27. Every set that is accepted and has a position becomes exactly one event, with a configured source,
  a clock and a time formatter that render RFC 3339: the scaled position is always within the range
  of the builder. The event is canonical, carries as its payload exactly the set, from its key to the end that its length gives, and only
  \<open>platform_designation\<close>, \<open>pitch\<close> and \<open>roll\<close> can be outside the ontology.\<close>

theorem klv_position_builds:
  assumes "klv_parse_set fmt frame = Some (Inr (Some m))" "kp_source_id st \<noteq> []" "is_rfc3339 (wall_clock fx)"
    "formats_rfc3339 fmt"
  shows "\<exists>e. klv_parse fmt fx frame st = Some (st, Inr [e]) \<and> canonical_event e
    \<and> (\<exists>n pos. read_ber_len frame 16 = Inr (n, pos) \<and> pos + n \<le> length frame \<and> ev_payload e = take (pos + n) frame)
    \<and> ev_location e = Some \<lparr>latitude = um_lat m, longitude = um_lon m, altitude_m = (case um_alt_m m of Some a \<Rightarrow> a | None \<Rightarrow> f64_of_int 0)\<rparr>
    \<and> set (ungoverned ONTOLOGY e) \<subseteq> {''platform_designation'', ''pitch'', ''roll''}"
proof -
  define clock where "clock = (case um_timestamp m of Some ts \<Rightarrow> ts | None \<Rightarrow> wall_clock fx)"
  let ?b = "eb_now clock (klv_base_builder (kp_source_id st) (kp_enrichment st) fx m)"
  have "is_rfc3339 clock"
    using assms(3,4) klv_parse_set_sound(2) [OF assms(1)] by (auto simp: clock_def formats_rfc3339_def split: option.split)
  with klv_builds [OF assms(2)] klv_parse_set_sound(1) [OF assms(1)] have b: "build ?b = Inr (built_event ?b)" by blast
  then have "klv_parse fmt fx frame st = Some (st, Inr [built_event ?b])"
    using klv_parse_builder [OF assms(1), of fx st] by (simp add: clock_def)
  moreover have "set (ungoverned ONTOLOGY (built_event ?b)) \<subseteq> {''platform_designation'', ''pitch'', ''roll''}"
    using ungoverned_within [OF keys_setters(3) [OF keys_klv] klv_keys_small(1,2), of ONTOLOGY clock "kp_source_id st" "kp_enrichment st" fx m]
      klv_keys_small(6) by (simp add: eb_fixed_sel klv_builder_fields)
  ultimately show ?thesis
    using build_source [OF b] klv_parse_set_sound(3) [OF assms(1)]
    by (intro exI [of _ "built_event ?b"]) (simp add: built_event_def eb_fixed_sel klv_builder_fields)
qed

text \<open>C28. The reader inverts the encoding of ST 0601: from a set of items with any tags (in base 128) and
  values of any length (in the shortest form), closed by its checksum, it decodes exactly the items in
  order and takes exactly the set, whatever bytes follow.\<close>

theorem klv_set_roundtrip:
  assumes "length (klv_encode items) < 2 ^ 31"
  shows "klv_parse_set fmt (klv_set items @ rest)
    = Some (klv_result (klv_set items) (Inr (klv_decoded fmt items (uas_metadata_default, None, None))))"
  using klv_parse_set_enc [OF assms] .

text \<open>The checksum detects every change of one byte: in a set that was accepted, whichever byte after the
  length is changed, the set is refused as \<open>BadChecksum\<close>.\<close>

theorem klv_detects_one_change:
  assumes "klv_parse_set fmt frame = Some (Inr r)" "read_ber_len frame 16 = Inr (n, pos)" "pos \<le> i" "i < pos + n" "b \<noteq> frame ! i"
  shows "klv_parse_set fmt (frame[i := b]) = Some (Inl BadChecksum)"
proof (rule klv_parse_set_cases [of fmt frame])
  fix n' pos'
  assume h: "17 \<le> length frame" "take 16 frame = UAS_LS_KEY" "read_ber_len frame 16 = Inr (n', pos')" "pos' + n' \<le> length frame" "2 \<le> n'"
  with assms(2) have e: "n' = n" "pos' = pos" by simp_all
  let ?e = "pos + n"
  have p: "16 < pos" using read_ber_len_pos [OF assms(2)] .
  have c: "klv_checked frame ?e" using assms(1) klv_parse_set_in [OF h, of fmt] e by (auto split: if_splits)
  have "\<not> klv_checked (frame[i := b]) ?e"
  proof (cases "i < ?e - 2")
    case True
    then have "take (?e - 2) (frame[i := b]) = (take (?e - 2) frame)[i := b]" "frame[i := b] ! (?e - 2) = frame ! (?e - 2)"
        "frame[i := b] ! (?e - 1) = frame ! (?e - 1)"
      by (simp_all add: take_update_swap)
    with c bcc_16_change [of i "take (?e - 2) frame" b] True h(4) assms(5) e show ?thesis by (simp add: klv_checked_def)
  next
    case False
    with assms(4) h(4,5) e have "i = ?e - 2 \<or> i = ?e - 1" "?e - 2 \<noteq> ?e - 1" by linarith+
    with c u16_from_be_inj h(4) e assms(4,5) show ?thesis by (auto simp: klv_checked_def) metis+
  qed
  moreover have "17 \<le> length (frame[i := b])" "take 16 (frame[i := b]) = UAS_LS_KEY" "read_ber_len (frame[i := b]) 16 = Inr (n, pos)"
      "?e \<le> length (frame[i := b])" "2 \<le> n"
    using h e p assms(2,3) read_ber_len_update by simp_all
  ultimately show ?thesis using klv_parse_set_in [of "frame[i := b]" n pos fmt] by simp
qed (use assms(1) in simp)

text \<open>The parser returns on every frame: no slice is out of range.\<close>

theorem klv_never_panics: "klv_parse fmt fx frame st \<noteq> None"
  using klv_parse_set_total [of fmt frame]
  by (auto simp: klv_parse_def Let_def split: option.splits sum.splits simp del: not_None_eq)

section \<open>Witnesses\<close>

definition ex_klv :: klv_parser where
  "ex_klv = klv_new ''klv-1'' \<lparr>hostility = None\<rparr>"

definition klv_effects :: effects where
  "klv_effects = \<lparr>instant = 0, wall_clock = ''2026-06-10T08:00:00Z'', uuid = ''0''\<rparr>"

definition ex_format :: "int \<Rightarrow> str option" where
  "ex_format n = Some ''2023-11-14T22:13:20Z''"

definition ex_klv_items :: "(nat \<times> bytes) list" where
  "ex_klv_items = [(2, [0, 6, 10, 0x24, 0x18, 0x1e, 0x40, 0]), (13, [0, 0, 0, 0]), (14, [0, 0, 0, 0])]"

definition ex_klv_set :: bytes where
  "ex_klv_set = klv_set ex_klv_items"

lemma ex_klv_items_small: "length (klv_encode ex_klv_items) < 2 ^ 31"
  by (simp add: ex_klv_items_def klv_encode_def ber_oid_def ber_more.simps ber_len_def)

lemma ex_klv_parsed: "\<exists>m. klv_parse_set ex_format ex_klv_set = Some (Inr (Some m))"
  using klv_parse_set_enc [OF ex_klv_items_small, of ex_format "[]"]
  by (simp add: ex_klv_set_def ex_klv_items_def klv_decoded_def klv_item_def be_i32_def i32_angle_def u32_from_be_def klv_result_def)

lemma ex_klv_length: "read_ber_len ex_klv_set 16 = Inr (26, 17)"
  using read_ber_len_enc [of 26 UAS_LS_KEY]
  by (simp add: ex_klv_set_def klv_set_def Let_def ex_klv_items_def klv_encode_def ber_oid_def ber_more.simps ber_len_def)

theorem klv_position_builds_witness:
  "\<exists>e. klv_parse ex_format klv_effects ex_klv_set ex_klv = Some (ex_klv, Inr [e]) \<and> canonical_event e
     \<and> (\<exists>n pos. read_ber_len ex_klv_set 16 = Inr (n, pos) \<and> ev_payload e = take (pos + n) ex_klv_set)"
proof -
  obtain m where m: "klv_parse_set ex_format ex_klv_set = Some (Inr (Some m))" using ex_klv_parsed by blast
  have "is_rfc3339 ''2026-06-10T08:00:00Z''" "is_rfc3339 ''2023-11-14T22:13:20Z''" by code_simp+
  then have "kp_source_id ex_klv \<noteq> []" "is_rfc3339 (wall_clock klv_effects)" "formats_rfc3339 ex_format"
    by (simp_all add: formats_rfc3339_def ex_klv_def klv_new_def klv_effects_def ex_format_def)
  from klv_position_builds [OF m this] show ?thesis by blast
qed

theorem klv_set_roundtrip_witness:
  "klv_parse_set ex_format (klv_set ex_klv_items @ [7])
    = Some (klv_result (klv_set ex_klv_items) (Inr (klv_decoded ex_format ex_klv_items (uas_metadata_default, None, None))))"
  by (rule klv_set_roundtrip [OF ex_klv_items_small])

theorem klv_detects_one_change_witness: "klv_parse_set ex_format (ex_klv_set[20 := 9]) = Some (Inl BadChecksum)"
proof -
  obtain m where m: "klv_parse_set ex_format ex_klv_set = Some (Inr (Some m))" using ex_klv_parsed by blast
  have "ex_klv_set ! 20 = 6"
    by (simp add: ex_klv_set_def klv_set_def Let_def ex_klv_items_def klv_encode_def ber_oid_def ber_more.simps ber_len_def UAS_LS_KEY_def)
  with klv_detects_one_change [OF m ex_klv_length, of 20 9] show ?thesis by simp
qed

end
