(* ===== verification/Gmti.thy ===== *)
theory Gmti
  imports Connector
begin

text \<open>
  \<open>rust/connectors/gmti/src/gmti.rs\<close>: STANAG 4607 packets to one event per located target report. The
  parser keeps no state. The reader is the record \<open>gmti_reader\<close>, threaded through the fields of a dwell; its
  reads fail with \<open>GmtiTruncated\<close>. The slices that the code takes with brackets are \<open>None\<close> where they
  would panic.
\<close>

definition PACKET_HEADER_LEN :: nat where "PACKET_HEADER_LEN = 32"
definition SEGMENT_HEADER_LEN :: nat where "SEGMENT_HEADER_LEN = 5"
definition SEG_DWELL :: u8 where "SEG_DWELL = 2"

definition SENSOR_FIELDS :: "(nat \<times> nat) list" where
  "SENSOR_FIELDS = [(10, 4), (11, 4), (12, 2), (13, 2), (14, 4), (15, 1), (16, 1), (17, 2), (18, 2), (19, 2), (20, 2), (21, 2)]"

definition ORIENTATION_FIELDS :: "(nat \<times> nat) list" where
  "ORIENTATION_FIELDS = [(26, 2), (27, 2), (28, 2), (29, 1)]"

definition TARGET_UNCERTAINTY_FIELDS :: "(nat \<times> nat) list" where
  "TARGET_UNCERTAINTY_FIELDS = [(40, 1), (41, 2), (42, 2), (43, 1), (44, 2), (45, 1), (46, 4)]"

datatype gmti_error = NotGmti | GmtiTruncated | BadSegment | GmtiBuild build_error

record gmti_target =
  gt_platform :: str
  gt_job_id :: u32
  gt_dwell_index :: u16
  gt_mti_index :: "u16 option"
  gt_dwell_time_ms :: int
  gt_sensor_lat :: f64
  gt_sensor_lon :: f64
  gt_lat :: f64
  gt_lon :: f64
  gt_height_m :: "f64 option"
  gt_radial_velocity_mps :: "f64 option"
  gt_snr_db :: "int option"
  gt_classification :: "u8 option"
  gt_rcs_db :: "int option"
  gt_raw :: bytes

record gmti_parser =
  gp_source_id :: str
  gp_enrichment :: enrichment

definition gmti_new :: "str \<Rightarrow> enrichment \<Rightarrow> gmti_parser" where
  "gmti_new source_id en = \<lparr>gp_source_id = source_id, gp_enrichment = en\<rparr>"

section \<open>The reader\<close>

record gmti_reader =
  rd_buf :: bytes
  rd_pos :: nat

type_synonym 'a read = "gmti_reader \<Rightarrow> gmti_error + 'a \<times> gmti_reader"

definition reader_new :: "bytes \<Rightarrow> gmti_reader" where
  "reader_new buf = \<lparr>rd_buf = buf, rd_pos = 0\<rparr>"

definition rd_take :: "nat \<Rightarrow> bytes read" where
  "rd_take n r = (let end_pos = rd_pos r + n in
     case slice_range (rd_buf r) (rd_pos r) end_pos of None \<Rightarrow> Inl GmtiTruncated
     | Some s \<Rightarrow> Inr (s, r\<lparr>rd_pos := end_pos\<rparr>))"

text \<open>\<open>f(r)?\<close> followed by the rest, and a value mapped over a read.\<close>

definition rd_bind :: "'a read \<Rightarrow> ('a \<Rightarrow> 'b read) \<Rightarrow> 'b read" where
  "rd_bind m f r = try_bind (m r) (\<lambda>(x, r'). f x r')"

definition rd_return :: "'a \<Rightarrow> 'a read" where
  "rd_return x r = Inr (x, r)"

definition rd_map :: "('a \<Rightarrow> 'b) \<Rightarrow> 'a read \<Rightarrow> 'b read" where
  "rd_map f m = rd_bind m (\<lambda>x. rd_return (f x))"

definition rd_skip :: "nat \<Rightarrow> unit read" where
  "rd_skip n = rd_map (\<lambda>_. ()) (rd_take n)"

definition rd_u8 :: "u8 read" where
  "rd_u8 = rd_map (\<lambda>s. s ! 0) (rd_take 1)"

definition rd_i8 :: "int read" where
  "rd_i8 = rd_map sint rd_u8"

definition rd_u16 :: "u16 read" where
  "rd_u16 = rd_map (\<lambda>s. u16_from_be (s ! 0) (s ! 1)) (rd_take 2)"

definition rd_i16 :: "int read" where
  "rd_i16 = rd_map sint rd_u16"

definition rd_u32 :: "u32 read" where
  "rd_u32 = rd_map (\<lambda>s. u32_from_be (s ! 0) (s ! 1) (s ! 2) (s ! 3)) (rd_take 4)"

definition rd_i32 :: "int read" where
  "rd_i32 = rd_map sint rd_u32"

definition rd_u64 :: "u64 read" where
  "rd_u64 = rd_map u64_from_be (rd_take 8)"

text \<open>\<open>if bit(n) { Some(...) } else { None }\<close>.\<close>

definition rd_if :: "bool \<Rightarrow> 'a read \<Rightarrow> 'a option read" where
  "rd_if c m = (if c then rd_map Some m else rd_return None)"

definition mask_bit :: "u64 \<Rightarrow> nat \<Rightarrow> bool" where
  "mask_bit existence n \<longleftrightarrow> drop_bit (63 - n) existence AND 1 = 1"

fun skip_present :: "u64 \<Rightarrow> (nat \<times> nat) list \<Rightarrow> unit read" where
  "skip_present existence [] = rd_return ()"
| "skip_present existence ((n, len) # fs) =
     (if mask_bit existence n then rd_bind (rd_skip len) (\<lambda>_. skip_present existence fs) else skip_present existence fs)"

section \<open>Angles\<close>

definition gmti_scale :: f64 where
  "gmti_scale = f64_of_rat (45 / 32)"

definition sa32 :: "int \<Rightarrow> f64" where
  "sa32 v = f64_div (f64_mul (f64_of_int v) gmti_scale) (f64_of_int 33554432)"

definition ba32 :: "u32 \<Rightarrow> f64" where
  "ba32 v = f64_div (f64_mul (f64_of_int (uint v)) gmti_scale) (f64_of_int 16777216)"

definition norm_lon :: "f64 \<Rightarrow> f64" where
  "norm_lon deg = (if f64_lt (f64_of_int 180) deg then f64_sub deg (f64_of_int 360) else deg)"

section \<open>Dwells\<close>

text \<open>What the reports of a dwell share.\<close>

record dwell =
  dw_mask :: u64
  dw_index :: u16
  dw_target_count :: u16
  dw_time_ms :: int
  dw_sensor_lat :: f64
  dw_sensor_lon :: f64
  dw_lat_scale :: "f64 option"
  dw_lon_scale :: "f64 option"
  dw_center_lat :: f64
  dw_center_lon_0_360 :: f64

definition read_dwell :: "dwell read" where
  "read_dwell =
     rd_bind (rd_skip SEGMENT_HEADER_LEN) (\<lambda>_.
     rd_bind rd_u64 (\<lambda>existence.
     rd_bind rd_u16 (\<lambda>revisit.
     rd_bind rd_u16 (\<lambda>dwell_index.
     rd_bind rd_u8 (\<lambda>last_dwell.
     rd_bind rd_u16 (\<lambda>target_count.
     rd_bind rd_i32 (\<lambda>dwell_time_ms.
     rd_bind (rd_map sa32 rd_i32) (\<lambda>sensor_lat.
     rd_bind (rd_map (\<lambda>v. norm_lon (ba32 v)) rd_u32) (\<lambda>sensor_lon.
     rd_bind rd_i32 (\<lambda>sensor_alt_cm.
     rd_bind (rd_if (mask_bit existence 8) (rd_map sa32 rd_i32)) (\<lambda>lat_scale.
     rd_bind (rd_if (mask_bit existence 9) (rd_map ba32 rd_u32)) (\<lambda>lon_scale.
     rd_bind (skip_present existence SENSOR_FIELDS) (\<lambda>_.
     rd_bind (rd_map sa32 rd_i32) (\<lambda>center_lat.
     rd_bind (rd_map ba32 rd_u32) (\<lambda>center_lon.
     rd_bind (rd_skip 4) (\<lambda>_.
     rd_bind (skip_present existence ORIENTATION_FIELDS) (\<lambda>_.
     rd_return \<lparr>dw_mask = existence, dw_index = dwell_index, dw_target_count = target_count, dw_time_ms = dwell_time_ms,
       dw_sensor_lat = sensor_lat, dw_sensor_lon = sensor_lon, dw_lat_scale = lat_scale, dw_lon_scale = lon_scale,
       dw_center_lat = center_lat, dw_center_lon_0_360 = center_lon\<rparr>)))))))))))))))))"

text \<open>Absolute position, else the delta from the dwell centre; neither is \<open>None\<close>.\<close>

definition report_position :: "dwell \<Rightarrow> f64 option \<Rightarrow> f64 option \<Rightarrow> int option \<Rightarrow> int option \<Rightarrow> (f64 \<times> f64) option" where
  "report_position d hr_lat hr_lon delta_lat delta_lon =
     (case (hr_lat, hr_lon) of (Some la, Some lo) \<Rightarrow> Some (la, norm_lon lo)
      | _ \<Rightarrow> (case (delta_lat, delta_lon, dw_lat_scale d, dw_lon_scale d) of
           (Some dla, Some dlo, Some ls, Some los) \<Rightarrow>
             Some (f64_add (dw_center_lat d) (f64_mul (f64_of_int dla) ls),
                   norm_lon (f64_add (dw_center_lon_0_360 d) (f64_mul (f64_of_int dlo) los)))
         | _ \<Rightarrow> None))"

text \<open>One iteration of the loop over the reports; \<open>None\<close> is \<open>continue\<close>.\<close>

definition read_report :: "str \<Rightarrow> u32 \<Rightarrow> bytes \<Rightarrow> dwell \<Rightarrow> gmti_target option read" where
  "read_report platform job_id seg d =
     (let bit_n = mask_bit (dw_mask d) in
     rd_bind (rd_if (bit_n 30) rd_u16) (\<lambda>mti_index.
     rd_bind (rd_if (bit_n 31) (rd_map sa32 rd_i32)) (\<lambda>hr_lat.
     rd_bind (rd_if (bit_n 32) (rd_map ba32 rd_u32)) (\<lambda>hr_lon.
     rd_bind (rd_if (bit_n 33) rd_i16) (\<lambda>delta_lat.
     rd_bind (rd_if (bit_n 34) rd_i16) (\<lambda>delta_lon.
     rd_bind (rd_if (bit_n 35) (rd_map f64_of_int rd_i16)) (\<lambda>height_m.
     rd_bind (rd_if (bit_n 36) (rd_map (\<lambda>v. f64_div (f64_of_int v) (f64_of_int 100)) rd_i16)) (\<lambda>radial_velocity_mps.
     rd_bind (rd_if (bit_n 37) (rd_skip 2)) (\<lambda>_.
     rd_bind (rd_if (bit_n 38) rd_i8) (\<lambda>snr_db.
     rd_bind (rd_if (bit_n 39) rd_u8) (\<lambda>classification.
     rd_bind (skip_present (dw_mask d) TARGET_UNCERTAINTY_FIELDS) (\<lambda>_.
     rd_bind (rd_if (bit_n 47) rd_i8) (\<lambda>rcs_db.
     rd_return (map_option (\<lambda>(lat, lon).
       \<lparr>gt_platform = platform, gt_job_id = job_id, gt_dwell_index = dw_index d, gt_mti_index = mti_index,
        gt_dwell_time_ms = dw_time_ms d, gt_sensor_lat = dw_sensor_lat d, gt_sensor_lon = dw_sensor_lon d,
        gt_lat = lat, gt_lon = lon, gt_height_m = height_m, gt_radial_velocity_mps = radial_velocity_mps,
        gt_snr_db = snr_db, gt_classification = classification, gt_rcs_db = rcs_db, gt_raw = seg\<rparr>)
       (report_position d hr_lat hr_lon delta_lat delta_lon)))))))))))))))"

fun read_reports :: "nat \<Rightarrow> str \<Rightarrow> u32 \<Rightarrow> bytes \<Rightarrow> dwell \<Rightarrow> gmti_target list \<Rightarrow> gmti_target list read" where
  "read_reports 0 platform job_id seg d out_list = rd_return out_list"
| "read_reports (Suc n) platform job_id seg d out_list =
     rd_bind (read_report platform job_id seg d) (\<lambda>t.
       read_reports n platform job_id seg d (out_list @ (case t of None \<Rightarrow> [] | Some x \<Rightarrow> [x])))"

definition parse_dwell :: "bytes \<Rightarrow> str \<Rightarrow> u32 \<Rightarrow> gmti_target list \<Rightarrow> gmti_error + gmti_target list" where
  "parse_dwell seg platform job_id out_list =
     map_sum id fst (rd_bind read_dwell (\<lambda>d. read_reports (unat (dw_target_count d)) platform job_id seg d out_list) (reader_new seg))"

section \<open>Packets\<close>

definition u32_be :: "bytes \<Rightarrow> u32 option" where
  "u32_be b = do { b0 \<leftarrow> slice_get b 0; b1 \<leftarrow> slice_get b 1; b2 \<leftarrow> slice_get b 2; b3 \<leftarrow> slice_get b 3; Some (u32_from_be b0 b1 b2 b3) }"

function gmti_segments :: "bytes \<Rightarrow> nat \<Rightarrow> str \<Rightarrow> u32 \<Rightarrow> nat \<Rightarrow> gmti_target list \<Rightarrow> (gmti_error + gmti_target list) option" where
  "gmti_segments frame packet_size platform job_id off targets =
     (if packet_size < off + SEGMENT_HEADER_LEN then Some (Inr targets)
      else case slice_get frame off of None \<Rightarrow> None
      | Some seg_type \<Rightarrow>
        (case Option.bind (slice_range frame (off + 1) (off + 5)) u32_be of None \<Rightarrow> None
         | Some sz \<Rightarrow>
             let seg_size = unat sz in
             if seg_size < SEGMENT_HEADER_LEN \<or> packet_size < off + seg_size then Some (Inl BadSegment)
             else if seg_type = SEG_DWELL then
               (case slice_range frame off (off + seg_size) of None \<Rightarrow> None
                | Some seg \<Rightarrow>
                    (case parse_dwell seg platform job_id targets of Inl e \<Rightarrow> Some (Inl e)
                     | Inr targets' \<Rightarrow> gmti_segments frame packet_size platform job_id (off + seg_size) targets'))
             else gmti_segments frame packet_size platform job_id (off + seg_size) targets))"
  by pat_completeness auto
termination
  by (relation "measure (\<lambda>(frame, packet_size, platform, job_id, off, targets). packet_size - off)")
     (auto simp: SEGMENT_HEADER_LEN_def)

declare gmti_segments.simps [simp del]

definition parse_packet :: "bytes \<Rightarrow> (gmti_error + gmti_target list) option" where
  "parse_packet frame =
     (if length frame < PACKET_HEADER_LEN then Some (Inl GmtiTruncated)
      else do {
        edition \<leftarrow> slice_get frame 0;
        if edition \<noteq> 2 \<and> edition \<noteq> 3 then Some (Inl NotGmti)
        else do {
          sz \<leftarrow> Option.bind (slice_range frame 2 6) u32_be;
          let packet_size = unat sz in
          if packet_size < PACKET_HEADER_LEN \<or> length frame < packet_size then Some (Inl GmtiTruncated)
          else do {
            name \<leftarrow> slice_range frame 14 24;
            job_id \<leftarrow> Option.bind (slice_range frame 28 32) u32_be;
            gmti_segments frame packet_size (trim (from_utf8_lossy name)) job_id PACKET_HEADER_LEN [] } } })"

section \<open>Events\<close>

definition gmti_base_builder :: "str \<Rightarrow> enrichment \<Rightarrow> effects \<Rightarrow> gmti_target \<Rightarrow> event_builder" where
  "gmti_base_builder source_id en fx t =
     (let report = (case gt_mti_index t of Some i \<Rightarrow> show_int (uint i) | None \<Rightarrow> ''na'');
          source_uid = gt_platform t @ '':'' @ show_int (uint (gt_job_id t)) @ '':'' @ show_int (uint (gt_dwell_index t)) @ '':'' @ report;
          b = eb_new source_id ''mim:object''; b = eb_new_id (uuid fx) b;
          b = eb_location (gt_lat t) (gt_lon t) (case gt_height_m t of Some h \<Rightarrow> h | None \<Rightarrow> f64_of_int 0) b;
          b = eb_payload (gt_raw t) b;
          b = eb_metadata ''source_uid'' source_uid b;
          b = eb_metadata ''platform'' (gt_platform t) b;
          b = eb_metadata ''job_id'' (show_int (uint (gt_job_id t))) b;
          b = eb_metadata ''dwell_index'' (show_int (uint (gt_dwell_index t))) b;
          b = eb_metadata ''dwell_time_ms'' (show_int (gt_dwell_time_ms t)) b;
          b = eb_metadata ''sensor_lat'' (fmt_fixed 6 (gt_sensor_lat t)) b;
          b = eb_metadata ''sensor_lon'' (fmt_fixed 6 (gt_sensor_lon t)) b;
          b = opt_metadata ''mti_report_index'' (map_option (\<lambda>i. show_int (uint i)) (gt_mti_index t)) b;
          b = opt_attribute ''hostility'' (hostility en) b;
          b = opt_attribute ''radial_velocity'' (map_option (fmt_fixed 2) (gt_radial_velocity_mps t)) b;
          b = opt_attribute ''snr_db'' (map_option show_int (gt_snr_db t)) b;
          b = opt_attribute ''classification_code'' (map_option (\<lambda>c. show_int (uint c)) (gt_classification t)) b
      in opt_attribute ''rcs_db'' (map_option show_int (gt_rcs_db t)) b)"

definition gmti_to_event_at :: "str \<Rightarrow> enrichment \<Rightarrow> effects \<Rightarrow> gmti_target \<Rightarrow> str \<Rightarrow> gmti_error + event" where
  "gmti_to_event_at source_id en fx t observed =
     (case build (eb_timestamp observed (gmti_base_builder source_id en fx t)) of Inl err \<Rightarrow> Inl (GmtiBuild err) | Inr e \<Rightarrow> Inr e)"

text \<open>The loop over the targets, each event with the clock and the identifier it meets.\<close>

fun gmti_events :: "gmti_parser \<Rightarrow> (nat \<Rightarrow> effects) \<Rightarrow> nat \<Rightarrow> gmti_target list \<Rightarrow> gmti_error + event list" where
  "gmti_events st fx i [] = Inr []"
| "gmti_events st fx i (t # ts) =
     (case build (eb_now (wall_clock (fx i)) (gmti_base_builder (gp_source_id st) (gp_enrichment st) (fx i) t)) of
        Inl err \<Rightarrow> Inl (GmtiBuild err)
      | Inr e \<Rightarrow> try_bind (gmti_events st fx (i + 1) ts) (\<lambda>es. Inr (e # es)))"

definition gmti_parse :: "(nat \<Rightarrow> effects) \<Rightarrow> bytes \<Rightarrow> gmti_parser \<Rightarrow> (gmti_parser \<times> (gmti_error + event list)) option" where
  "gmti_parse fx frame st =
     map_option (\<lambda>r. (st, try_bind r (gmti_events st fx 0))) (parse_packet frame)"

lemma gmti_scale_exact: "gmti_scale = FNum False (of_int 45 * pow2 (-5))"
  using fl_dyadic [of 45 "-5" False] by (simp add: gmti_scale_def f64_of_rat_def pow2_def)

lemma scale_exact:
  assumes "\<bar>v\<bar> \<le> 2 ^ 32" "j \<le> 25"
  shows "f64_div (f64_mul (f64_of_int v) gmti_scale) (f64_of_int (2 ^ j)) = FNum (v < 0) (of_int (\<bar>v\<bar> * 45) * pow2 (- 5 - int j))"
proof -
  have v: "\<bar>v\<bar> * 45 < 2 ^ 53" "\<bar>v\<bar> < 2 ^ 53" using assms(1) by simp_all
  have "f64_mul (f64_of_int v) gmti_scale = fl (v < 0) (of_int (\<bar>v\<bar> * 45) * pow2 (-5))"
    using v by (simp add: f64_of_int_exact gmti_scale_exact mult.assoc)
  also have "\<dots> = FNum (v < 0) (of_int (\<bar>v\<bar> * 45) * pow2 (-5))" using v by (intro fl_dyadic) simp_all
  finally have m: "f64_mul (f64_of_int v) gmti_scale = FNum (v < 0) (of_int (\<bar>v\<bar> * 45) * pow2 (-5))" .
  have "(2 :: int) ^ j \<le> 2 ^ 25" using assms(2) by (intro power_increasing) simp_all
  then have "f64_of_int (2 ^ j) = FNum False (pow2 (int j))"
    using f64_of_int_exact [of "2 ^ j"] by (simp add: pow2_nat)
  then have "f64_div (f64_mul (f64_of_int v) gmti_scale) (f64_of_int (2 ^ j)) = fl (v < 0) (of_int (\<bar>v\<bar> * 45) * pow2 (- 5 - int j))"
    by (simp add: m pow2_diff)
  also have "\<dots> = FNum (v < 0) (of_int (\<bar>v\<bar> * 45) * pow2 (- 5 - int j))" using v assms(2) by (intro fl_dyadic) simp_all
  finally show ?thesis .
qed

lemma sint_u32_bounds: "\<bar>sint (w :: u32)\<bar> \<le> 2 ^ 31"
  using sint_range_size [of w] by (auto simp: word_size abs_if)

lemma sa32_exact: "sa32 (sint (w :: u32)) = FNum (sint w < 0) (of_int (\<bar>sint w\<bar> * 45) * pow2 (-30))"
  using scale_exact [of "sint w" 25] sint_u32_bounds [of w] by (simp add: sa32_def)

lemma ba32_exact: "ba32 w = FNum False (of_int (uint w * 45) * pow2 (-29))"
  using scale_exact [of "uint w" 24] uint_bounded [of w] by (simp add: ba32_def)

lemma sa32_range: "magnitude_le 90 (sa32 (sint (w :: u32)))"
  unfolding sa32_exact using dyadic_magnitude [of "\<bar>sint w\<bar> * 45" 90 30 "sint w < 0"] sint_u32_bounds [of w] by simp

text \<open>A longitude of \<open>n\<close> units in 0..360 as the signed number of units.\<close>

lemma norm_lon_exact:
  assumes "0 \<le> n" "n < 2 ^ 32"
  shows "norm_lon (FNum False (of_int (n * 45) * pow2 (-29))) = (if n \<le> 2 ^ 31 then FNum False (of_int (n * 45) * pow2 (-29))
     else FNum True (of_int ((2 ^ 32 - n) * 45) * pow2 (-29)))"
proof -
  let ?x = "FNum False (of_int (n * 45) * pow2 (-29))"
  have lt: "f64_lt (f64_of_int 180) ?x \<longleftrightarrow> 2 ^ 31 < n"
  proof -
    have "f64_lt (f64_of_int 180) ?x \<longleftrightarrow> (of_int (180 * 2 ^ 29) :: rat) < of_int (n * 45)"
      using f64_of_int_exact [of 180] by (simp add: signed_val_def pow2_def field_simps)
    also have "\<dots> \<longleftrightarrow> 180 * 2 ^ 29 < n * 45" unfolding of_int_less_iff ..
    finally show ?thesis by auto
  qed
  show ?thesis
  proof (cases "2 ^ 31 < n")
    case True
    define m where "m = (2 ^ 32 - n) * 45"
    have m: "0 < m" "m < 2 ^ 53" using assms True by (simp_all add: m_def)
    define q where "q = of_int m * pow2 (-29)"
    have v: "of_int (n * 45) * pow2 (-29) - 360 = - q"
      by (simp add: q_def m_def pow2_def field_simps)
    have "0 < q" using m by (simp add: q_def)
    with v have "f64_sub ?x (f64_of_int 360) = fl True q"
      using f64_of_int_exact [of 360] by (simp add: f64_sub_def signed_val_def Let_def del: of_int_mult)
    with m show ?thesis using True lt fl_dyadic [of m "-29" True] by (simp add: norm_lon_def m_def q_def)
  next
    case False
    with lt show ?thesis by (simp add: norm_lon_def)
  qed
qed

lemma norm_lon_range: "magnitude_le 180 (norm_lon (ba32 w))"
proof -
  define n where "n = uint w"
  have n: "0 \<le> n" "n < 2 ^ 32" using uint_bounded [of w] by (simp_all add: n_def)
  show ?thesis
    unfolding ba32_exact n_def [symmetric] norm_lon_exact [OF n]
    using n dyadic_magnitude [of "n * 45" 180 29 False] dyadic_magnitude [of "(2 ^ 32 - n) * 45" 180 29 True] by simp
qed

section \<open>Reads\<close>

lemma rd_bind_Inr: "rd_bind m f r = Inr (y, r'') \<longleftrightarrow> (\<exists>x r'. m r = Inr (x, r') \<and> f x r' = Inr (y, r''))"
  by (auto simp: rd_bind_def try_bind_Inr_iff)

lemma rd_return_Inr [simp]: "rd_return x r = Inr (y, r') \<longleftrightarrow> x = y \<and> r = r'"
  by (auto simp: rd_return_def)

lemma rd_map_Inr: "rd_map f m r = Inr (y, r') \<longleftrightarrow> (\<exists>x. m r = Inr (x, r') \<and> y = f x)"
  by (auto simp: rd_map_def rd_bind_Inr)

lemma rd_if_Inr: "rd_if c m r = Inr (y, r') \<longleftrightarrow> (if c then \<exists>x. m r = Inr (x, r') \<and> y = Some x else y = None \<and> r' = r)"
  by (auto simp: rd_if_def rd_map_Inr)

lemmas rd_simps = rd_bind_Inr rd_map_Inr rd_if_Inr

lemma read_report_hires:
  assumes "read_report platform job seg d r = Inr (Some t, r')" "mask_bit (dw_mask d) 31" "mask_bit (dw_mask d) 32"
  shows "magnitude_le 90 (gt_lat t) \<and> magnitude_le 180 (gt_lon t)"
  using assms by (auto simp: read_report_def rd_simps report_position_def rd_i32_def Let_def intro: sa32_range norm_lon_range)

lemma rd_i16_finite: "rd_i16 r = Inr (x, r') \<Longrightarrow> is_finite (f64_of_int x)"
proof -
  assume "rd_i16 r = Inr (x, r')"
  then obtain w :: u16 where "x = sint w" by (auto simp: rd_i16_def rd_simps)
  then have "\<bar>x\<bar> < 2 ^ 53" using sint_range_size [of w] by (auto simp: word_size abs_if)
  then show ?thesis by (simp add: f64_of_int_exact)
qed

lemma height_finite: "rd_if c (rd_map f64_of_int rd_i16) r = Inr (h, r') \<Longrightarrow> pred_option is_finite h"
  by (auto simp: rd_simps split: if_splits dest: rd_i16_finite)

lemma read_report_fields:
  assumes "read_report platform job seg d r = Inr (Some t, r')"
  shows "gt_raw t = seg" "pred_option is_finite (gt_height_m t)"
  using assms by (auto simp: read_report_def rd_bind_Inr Let_def dest!: height_finite)


text \<open>What is known of a target: its dwell segment, and the position when the dwell is of high resolution.\<close>

definition hires_dwell :: "bytes \<Rightarrow> bool" where
  "hires_dwell seg \<longleftrightarrow> (let existence = u64_from_be (take 8 (drop 5 seg)) in mask_bit existence 31 \<and> mask_bit existence 32)"

definition target_ok :: "gmti_target \<Rightarrow> bool" where
  "target_ok t \<longleftrightarrow> location_ok \<lparr>latitude = gt_lat t, longitude = gt_lon t, altitude_m = (case gt_height_m t of Some h \<Rightarrow> h | None \<Rightarrow> f64_of_int 0)\<rparr>"

lemma read_dwell_mask: "read_dwell (reader_new seg) = Inr (d, r) \<Longrightarrow> dw_mask d = u64_from_be (take 8 (drop 5 seg))"
  by (auto simp: read_dwell_def rd_bind_Inr rd_map_Inr rd_u64_def rd_skip_def rd_take_def reader_new_def SEGMENT_HEADER_LEN_def
      slice_range_def Let_def split: if_splits option.splits)

lemma hires_target_ok:
  assumes "read_report platform job seg d r = Inr (Some t, r')" "mask_bit (dw_mask d) 31" "mask_bit (dw_mask d) 32"
  shows "target_ok t"
  using read_report_hires [OF assms] read_report_fields(2) [OF assms(1)] magnitude_within [of 90 "gt_lat t"] magnitude_within [of 180 "gt_lon t"]
    f64_of_int_exact [of 0]
  by (auto simp: target_ok_def location_ok_def split: option.split)

lemma read_reports_ok:
  assumes "read_reports n platform job seg d acc r = Inr (ts, r')" "t \<in> set ts"
  shows "t \<in> set acc \<or> (gt_raw t = seg \<and> (mask_bit (dw_mask d) 31 \<longrightarrow> mask_bit (dw_mask d) 32 \<longrightarrow> target_ok t))"
  using assms
proof (induction n arbitrary: acc r)
  case (Suc n)
  then obtain x r1 where x: "read_report platform job seg d r = Inr (x, r1)"
      "read_reports n platform job seg d (acc @ (case x of None \<Rightarrow> [] | Some y \<Rightarrow> [y])) r1 = Inr (ts, r')"
    by (auto simp: rd_bind_Inr)
  from Suc.IH [OF x(2) Suc.prems(2)] x(1) read_report_fields(1) hires_target_ok show ?case
    by (cases x) auto
qed simp

lemma parse_dwell_ok:
  assumes "parse_dwell seg platform job acc = Inr ts" "t \<in> set ts"
  shows "t \<in> set acc \<or> (gt_raw t = seg \<and> (hires_dwell seg \<longrightarrow> target_ok t))"
proof -
  from assms(1) obtain d r r' where "read_dwell (reader_new seg) = Inr (d, r)"
      "read_reports (unat (dw_target_count d)) platform job seg d acc r = Inr (ts, r')"
    by (cases "rd_bind read_dwell (\<lambda>d. read_reports (unat (dw_target_count d)) platform job seg d acc) (reader_new seg)")
       (auto simp: parse_dwell_def rd_bind_Inr)
  from read_dwell_mask [OF this(1)] read_reports_ok [OF this(2) assms(2)] show ?thesis
    by (auto simp: hires_dwell_def Let_def)
qed

lemma gmti_segments_ok:
  "gmti_segments frame size_p platform job off acc = Some (Inr ts) \<Longrightarrow> t \<in> set ts
    \<Longrightarrow> t \<in> set acc \<or> (hires_dwell (gt_raw t) \<longrightarrow> target_ok t)"
proof (induction frame size_p platform job off acc rule: gmti_segments.induct)
  case (1 frame size_p platform job off acc)
  from "1.prems"(1) show ?case
    apply (subst (asm) gmti_segments.simps)
    using "1.IH" "1.prems"(2) parse_dwell_ok
    by (fastforce simp: Let_def split: if_splits option.splits sum.splits)
qed

section \<open>No panic\<close>

lemma u32_be_total: "slice_range xs a (a + 4) = Some b \<Longrightarrow> \<exists>w. u32_be b = Some w"
  by (auto simp: u32_be_def slice_simps)

lemma gmti_segments_total: "size_p \<le> length frame \<Longrightarrow> gmti_segments frame size_p platform job off acc \<noteq> None"
proof (induction frame size_p platform job off acc rule: gmti_segments.induct)
  case (1 frame size_p platform job off acc)
  show ?case
  proof (cases "size_p < off + SEGMENT_HEADER_LEN")
    case False
    with "1.prems" have o: "off < length frame" "off + 5 \<le> length frame" by (simp_all add: SEGMENT_HEADER_LEN_def)
    then obtain w where w: "Option.bind (slice_range frame (off + 1) (off + 5)) u32_be = Some w"
      using u32_be_total [of frame "off + 1"] by (auto simp: slice_range_def)
    from "1.IH" "1.prems" o w False show ?thesis
      by (subst gmti_segments.simps) (auto simp: Let_def slice_range_def split: sum.split simp del: not_None_eq)
  qed (simp add: gmti_segments.simps)
qed

lemma parse_packet_total: "parse_packet frame \<noteq> None"
proof (cases "length frame < PACKET_HEADER_LEN")
  case False
  then have l: "32 \<le> length frame" by (simp add: PACKET_HEADER_LEN_def)
  obtain a where a: "Option.bind (slice_range frame 2 6) u32_be = Some a"
    using u32_be_total [of frame 2] l by (auto simp: slice_range_def)
  obtain b where b: "Option.bind (slice_range frame 28 32) u32_be = Some b"
    using u32_be_total [of frame 28] l by (auto simp: slice_range_def)
  have "frame \<noteq> []" using l by auto
  moreover have "slice_range frame 14 24 \<noteq> None" using l by (simp add: slice_range_def)
  moreover have "\<exists>r. gmti_segments frame (unat a) name b PACKET_HEADER_LEN [] = Some r" if "unat a \<le> length frame" for name
    using gmti_segments_total [OF that] by auto
  ultimately show ?thesis
    using l a b by (auto simp: parse_packet_def slice_get_def Let_def not_less)
qed (simp add: parse_packet_def)

section \<open>Events\<close>

definition gmti_attributes :: "str list" where
  "gmti_attributes = [''hostility'', ''radial_velocity'', ''snr_db'', ''classification_code'', ''rcs_db'']"

definition gmti_metadata :: "str list" where
  "gmti_metadata = [''source_uid'', ''platform'', ''job_id'', ''dwell_index'', ''dwell_time_ms'', ''sensor_lat'', ''sensor_lon'', ''mti_report_index'']"

lemma keys_gmti: "keys_within gmti_attributes gmti_metadata (gmti_base_builder src en fx t)"
proof -
  have "keys_within (foldl (\<lambda>a k. a @ [k]) [] gmti_attributes) (foldl (\<lambda>a k. a @ [k]) [] gmti_metadata) (gmti_base_builder src en fx t)"
    unfolding gmti_attributes_def gmti_metadata_def foldl.simps gmti_base_builder_def Let_def
    by (rule keys_rules)+
  moreover have "foldl (\<lambda>a k. a @ [k]) a ks = a @ ks" for a ks :: "str list" by (induction ks arbitrary: a) auto
  ultimately show ?thesis by simp
qed

lemma gmti_builder_fields:
  "b_id (gmti_base_builder src en fx t) = Some (uuid fx)"
  "b_source_id (gmti_base_builder src en fx t) = src" "b_entity_type (gmti_base_builder src en fx t) = ''mim:object''"
  "b_policy_tags (gmti_base_builder src en fx t) = []" "b_confidence (gmti_base_builder src en fx t) = FNum False 0"
  "b_payload (gmti_base_builder src en fx t) = gt_raw t"
  "b_location (gmti_base_builder src en fx t)
     = Some \<lparr>latitude = gt_lat t, longitude = gt_lon t, altitude_m = (case gt_height_m t of Some h \<Rightarrow> h | None \<Rightarrow> f64_of_int 0)\<rparr>"
  by (simp_all add: gmti_base_builder_def Let_def eb_fixed_sel)

lemma gmti_keys_small:
  "distinct gmti_attributes" "distinct gmti_metadata" "length gmti_attributes \<le> MAX_ATTRIBUTES"
  "length gmti_metadata \<le> MAX_METADATA" "is_namespaced ''mim:object''"
  by code_simp+

lemma gmti_builds:
  assumes "src \<noteq> []" "is_rfc3339 clock"
  shows "build (eb_now clock (gmti_base_builder src en fx t)) = Inr e
    \<longleftrightarrow> e = built_event (eb_now clock (gmti_base_builder src en fx t)) \<and> target_ok t"
  using build_located [of gmti_attributes gmti_metadata "eb_now clock (gmti_base_builder src en fx t)" "uuid fx" clock e]
    gmti_keys_small assms keys_setters(3) [OF keys_gmti]
  by (simp add: eb_fixed_sel gmti_builder_fields target_ok_def)

lemma gmti_events_source:
  "gmti_events st fx i ts = Inr es \<Longrightarrow> e \<in> set es \<Longrightarrow> canonical_event e \<and> ev_source_id e = gp_source_id st"
proof (induction ts arbitrary: i es)
  case (Cons t ts)
  then obtain e' es' where b: "build (eb_now (wall_clock (fx i)) (gmti_base_builder (gp_source_id st) (gp_enrichment st) (fx i) t)) = Inr e'"
      and r: "gmti_events st fx (i + 1) ts = Inr es'" "es = e' # es'"
    by (auto simp: try_bind_Inr_iff split: sum.splits)
  from build_source [OF b] Cons.IH [OF r(1)] Cons.prems(2) r(2) show ?case
    by (auto simp: eb_fixed_sel gmti_builder_fields)
qed simp

lemma gmti_events_spec:
  assumes "gp_source_id st \<noteq> []" "\<And>i. is_rfc3339 (wall_clock (fx i))"
  shows "if list_all target_ok ts
     then \<exists>es. gmti_events st fx i ts = Inr es \<and> list_all2 (\<lambda>t e. canonical_event e \<and> ev_payload e = gt_raw t
         \<and> ev_location e = Some \<lparr>latitude = gt_lat t, longitude = gt_lon t, altitude_m = (case gt_height_m t of Some h \<Rightarrow> h | None \<Rightarrow> f64_of_int 0)\<rparr>) ts es
     else \<exists>err. gmti_events st fx i ts = Inl (GmtiBuild err)"
proof (induction ts arbitrary: i)
  case (Cons t ts)
  let ?b = "eb_now (wall_clock (fx i)) (gmti_base_builder (gp_source_id st) (gp_enrichment st) (fx i) t)"
  note g = gmti_builds [OF assms(1) assms(2) [of i], of "gp_enrichment st" "fx i" t]
  show ?case
  proof (cases "target_ok t")
    case True
    with g have b: "build ?b = Inr (built_event ?b)" by blast
    have "canonical_event (built_event ?b) \<and> ev_payload (built_event ?b) = gt_raw t
        \<and> ev_location (built_event ?b) = Some \<lparr>latitude = gt_lat t, longitude = gt_lon t, altitude_m = (case gt_height_m t of Some h \<Rightarrow> h | None \<Rightarrow> f64_of_int 0)\<rparr>"
      using build_source [OF b] by (simp add: built_event_def eb_fixed_sel gmti_builder_fields)
    with Cons.IH [of "i + 1"] b True show ?thesis by (auto split: if_splits)
  next
    case False
    with g obtain err where "build ?b = Inl err" by (cases "build ?b") auto
    with False show ?thesis by simp
  qed
qed simp

interpretation gmti_frames: frame_parser gmti_parse gp_source_id
proof
  fix fx frame st st' r
  assume "gmti_parse fx frame st = Some (st', r)"
  then show "gp_source_id st' = gp_source_id st" by (auto simp: gmti_parse_def)
next
  fix fx frame st st' es e
  assume "gmti_parse fx frame st = Some (st', Inr es)" "e \<in> set es"
  then show "canonical_event e \<and> ev_source_id e = gp_source_id st"
    by (auto simp: gmti_parse_def try_bind_Inr_iff dest: gmti_events_source)
qed

section \<open>Properties\<close>

text \<open>C29. With a configured source and clocks that render RFC 3339, the targets of a packet are published
  together or not at all: when every target's position is valid there is one canonical event for each
  target, in order, at its position and with its whole dwell segment as payload, and otherwise the
  packet is an error. A report of a high-resolution dwell always has a valid
  position, whatever other dwells the packet has.\<close>

theorem gmti_published_iff:
  assumes "parse_packet frame = Some (Inr ts)" "gp_source_id st \<noteq> []" "\<And>i. is_rfc3339 (wall_clock (fx i))"
  shows "(if list_all target_ok ts
     then \<exists>es. gmti_parse fx frame st = Some (st, Inr es) \<and> list_all2 (\<lambda>t e. canonical_event e \<and> ev_payload e = gt_raw t
         \<and> ev_location e = Some \<lparr>latitude = gt_lat t, longitude = gt_lon t, altitude_m = (case gt_height_m t of Some h \<Rightarrow> h | None \<Rightarrow> f64_of_int 0)\<rparr>) ts es
     else \<exists>err. gmti_parse fx frame st = Some (st, Inl (GmtiBuild err)))
   \<and> list_all (\<lambda>t. hires_dwell (gt_raw t) \<longrightarrow> target_ok t) ts"
proof -
  obtain sz pl job where "gmti_segments frame sz pl job PACKET_HEADER_LEN [] = Some (Inr ts)"
    using assms(1) by (auto simp: parse_packet_def Let_def bind_eq_Some_conv split: if_splits)
  then have "list_all (\<lambda>t. hires_dwell (gt_raw t) \<longrightarrow> target_ok t) ts"
    by (auto simp: list_all_iff dest: gmti_segments_ok)
  moreover have "gmti_parse fx frame st = Some (st, gmti_events st fx 0 ts)"
    using assms(1) by (simp add: gmti_parse_def)
  ultimately show ?thesis using gmti_events_spec [OF assms(2,3), where ts = ts and i = 0] by (simp split: if_split)
qed

text \<open>The parser returns on every frame: no slice is out of range and no loop runs forever.\<close>

theorem gmti_never_panics: "gmti_parse fx frame st \<noteq> None"
  using parse_packet_total [of frame] by (simp add: gmti_parse_def)

section \<open>Witnesses\<close>

definition ex_gmti :: gmti_parser where
  "ex_gmti = gmti_new ''gmti-1'' \<lparr>hostility = None\<rparr>"

definition gmti_effects :: "nat \<Rightarrow> effects" where
  "gmti_effects i = \<lparr>instant = 0, wall_clock = ''2026-06-10T08:00:00Z'', uuid = ''0''\<rparr>"

text \<open>A packet with one dwell of one high-resolution report at the origin.\<close>

definition ex_dwell :: bytes where
  "ex_dwell = [2, 0, 0, 0, 56, 0, 0, 0, 1, 0x80, 0, 0, 0] @ [0, 0, 0, 7, 0, 0, 1] @ replicate 36 0"

definition ex_packet :: bytes where
  "ex_packet = [2, 0, 0, 0, 0, 88] @ replicate 26 0 @ ex_dwell"

lemma ex_existence: "u64_from_be [0, 0, 0, 1, 0x80, 0, 0, 0] = 0x180000000"
  by (simp add: u64_from_be_def)

lemma ex_mask: "mask_bit 0x180000000 n \<longleftrightarrow> n = 31 \<or> n = 32" if "n < 64"
proof -
  have "list_all (\<lambda>n. mask_bit 0x180000000 n \<longleftrightarrow> n = 31 \<or> n = 32) [0..<64]"
    by (simp add: mask_bit_def upt_rec)
  with that show ?thesis by (simp add: list_all_iff)
qed

lemma ex_take: "p + n \<le> 56 \<Longrightarrow> rd_take n \<lparr>rd_buf = ex_dwell, rd_pos = p\<rparr> = Inr (take n (drop p ex_dwell), \<lparr>rd_buf = ex_dwell, rd_pos = p + n\<rparr>)"
  by (simp add: rd_take_def slice_range_def ex_dwell_def)

lemma ex_dwell_at: "take 8 (drop 5 ex_dwell) = [0, 0, 0, 1, 0x80, 0, 0, 0]" "take 2 (drop 18 ex_dwell) = [0, 1]"
  by (simp_all add: ex_dwell_def)

lemmas rd_eval = rd_bind_def rd_map_def rd_if_def rd_return_def rd_skip_def rd_u8_def rd_i8_def rd_u16_def rd_i16_def
  rd_u32_def rd_i32_def rd_u64_def reader_new_def ex_take

lemma ex_dwell_head:
  "\<exists>d. read_dwell (reader_new ex_dwell) = Inr (d, \<lparr>rd_buf = ex_dwell, rd_pos = 48\<rparr>) \<and> dw_mask d = 0x180000000 \<and> dw_target_count d = 1"
  by (simp add: read_dwell_def rd_eval SEGMENT_HEADER_LEN_def ex_dwell_at ex_existence ex_mask SENSOR_FIELDS_def ORIENTATION_FIELDS_def
      u16_from_be_def)

lemma ex_report:
  "dw_mask d = 0x180000000 \<Longrightarrow> \<exists>t r. read_report platform job ex_dwell d \<lparr>rd_buf = ex_dwell, rd_pos = 48\<rparr> = Inr (Some t, r)"
  by (simp add: read_report_def rd_eval ex_mask TARGET_UNCERTAINTY_FIELDS_def report_position_def)

lemma ex_dwell_parsed: "\<exists>t. parse_dwell ex_dwell platform job [] = Inr [t] \<and> gt_raw t = ex_dwell"
proof -
  obtain d where d: "read_dwell (reader_new ex_dwell) = Inr (d, \<lparr>rd_buf = ex_dwell, rd_pos = 48\<rparr>)" "dw_mask d = 0x180000000" "dw_target_count d = 1"
    using ex_dwell_head by blast
  obtain t r where t: "read_report platform job ex_dwell d \<lparr>rd_buf = ex_dwell, rd_pos = 48\<rparr> = Inr (Some t, r)"
    using ex_report [OF d(2)] by blast
  then have "parse_dwell ex_dwell platform job [] = Inr [t]"
    by (simp add: parse_dwell_def rd_bind_def d rd_return_def)
  with read_report_fields(1) [OF t] show ?thesis by blast
qed

lemma ex_packet_parsed: "\<exists>t. parse_packet ex_packet = Some (Inr [t]) \<and> hires_dwell (gt_raw t)"
proof -
  have l: "length ex_packet = 88" "ex_packet ! 0 = 2" "ex_packet ! 32 = 2" "take 4 (drop 2 ex_packet) = [0, 0, 0, 88]"
      "take 4 (drop 33 ex_packet) = [0, 0, 0, 56]" "take 4 (drop 28 ex_packet) = [0, 0, 0, 0]" "take 56 (drop 32 ex_packet) = ex_dwell"
    by code_simp+
  have u: "u32_be [0, 0, 0, b] = Some (ucast b)" for b by (simp add: u32_be_def u32_from_be_def)
  define name where "name = trim (from_utf8_lossy (take 10 (drop 14 ex_packet)))"
  obtain t where t: "parse_dwell ex_dwell name 0 [] = Inr [t]" "gt_raw t = ex_dwell"
    using ex_dwell_parsed by blast
  have "gmti_segments ex_packet 88 name 0 88 [t] = Some (Inr [t])"
    by (subst gmti_segments.simps) (simp add: SEGMENT_HEADER_LEN_def)
  then have "gmti_segments ex_packet 88 name 0 32 [] = Some (Inr [t])"
    by (subst gmti_segments.simps) (simp add: slice_range_def l u SEGMENT_HEADER_LEN_def SEG_DWELL_def t)
  then have "parse_packet ex_packet = Some (Inr [t])"
    by (simp add: parse_packet_def PACKET_HEADER_LEN_def slice_range_def l u flip: name_def)
  moreover have "hires_dwell ex_dwell" by (simp add: hires_dwell_def ex_dwell_at ex_existence ex_mask)
  ultimately show ?thesis using t(2) by (intro exI [of _ t]) simp
qed

theorem gmti_published_iff_witness:
  "\<exists>ts es. parse_packet ex_packet = Some (Inr ts) \<and> gmti_parse gmti_effects ex_packet ex_gmti = Some (ex_gmti, Inr es) \<and> length es = 1"
proof -
  obtain t where t: "parse_packet ex_packet = Some (Inr [t])" "hires_dwell (gt_raw t)" using ex_packet_parsed by blast
  have "is_rfc3339 ''2026-06-10T08:00:00Z''" by code_simp
  then have "gp_source_id ex_gmti \<noteq> []" "\<And>i. is_rfc3339 (wall_clock (gmti_effects i))"
    by (simp_all add: ex_gmti_def gmti_new_def gmti_effects_def)
  from gmti_published_iff [where fx = gmti_effects, OF t(1) this] t show ?thesis by (auto simp: list_all2_Cons1)
qed

end
