(* ===== verification/S4586.thy ===== *)
theory S4586
  imports Connector
begin

text \<open>
  \<open>rust/connectors/stanag4586/src/s4586.rs\<close>: STANAG 4586 datagrams to one event per Inertial States
  message. The parser keeps no state. As in \<open>Klv\<close>, the formatter of the \<open>time\<close> crate is the argument
  \<open>fmt\<close>, and the mathematics library is the record \<open>libm32\<close>. A single-precision value is the double it
  widens to. The readers \<open>be_u32_at\<close>, \<open>be_f32_at\<close> and \<open>be_f64_at\<close> are zero out of range; the slices taken
  with brackets are \<open>None\<close> where they would panic.
\<close>

definition S4586_HEADER :: nat where "S4586_HEADER = 30"
definition S4586_CHECKSUM :: nat where "S4586_CHECKSUM = 4"
definition MSG_INERTIAL_STATES :: u32 where "MSG_INERTIAL_STATES = 101"
definition INERTIAL_BODY_LEN :: nat where "INERTIAL_BODY_LEN = 89"

datatype s4586_error = S4586Checksum u32 | S4586Truncated | S4586Build build_error

record s4586_parser =
  s4_source_id :: str
  s4_enrichment :: enrichment
  s4_entity_type :: str

definition s4586_new :: "str \<Rightarrow> enrichment \<Rightarrow> s4586_parser" where
  "s4586_new source_id en = \<lparr>s4_source_id = source_id, s4_enrichment = en, s4_entity_type = ''mim:aircraft''\<rparr>"

definition s4586_with_entity_type :: "str option \<Rightarrow> s4586_parser \<Rightarrow> s4586_parser" where
  "s4586_with_entity_type ty st = (case ty of Some t \<Rightarrow> st\<lparr>s4_entity_type := t\<rparr> | None \<Rightarrow> st)"

record inertial =
  in_timestamp_s :: f64
  in_vehicle_id :: int
  in_cucs_id :: int
  in_lat :: f64
  in_lon :: f64
  in_altitude_m :: f64
  in_altitude_type :: u8
  in_north_mps :: f64
  in_east_mps :: f64
  in_down_mps :: f64
  in_roll_deg :: f64
  in_pitch_deg :: f64
  in_yaw_deg :: f64
  in_magvar_deg :: f64

section \<open>Readers\<close>

definition be_u32_at :: "bytes \<Rightarrow> nat \<Rightarrow> u32" where
  "be_u32_at b off = (case slice_range b off (off + 4) of
     Some [x0, x1, x2, x3] \<Rightarrow> u32_from_be x0 x1 x2 x3 | _ \<Rightarrow> 0)"

definition be_f32_at :: "bytes \<Rightarrow> nat \<Rightarrow> f64" where
  "be_f32_at b off = (case slice_range b off (off + 4) of
     Some [x0, x1, x2, x3] \<Rightarrow> f64_of_f32_bits (u32_from_be x0 x1 x2 x3) | _ \<Rightarrow> FNum False 0)"

definition be_f64_at :: "bytes \<Rightarrow> nat \<Rightarrow> f64" where
  "be_f64_at b off = (case slice_range b off (off + 8) of Some s \<Rightarrow> f64_of_bits (u64_from_be s) | None \<Rightarrow> FNum False 0)"

definition altitude_type :: "u8 \<Rightarrow> str" where
  "altitude_type v = (if v = 0 then ''pressure'' else if v = 1 then ''baro'' else if v = 2 then ''agl''
     else if v = 3 then ''wgs84'' else ''unknown'')"

definition rfc3339_from_unix_secs :: "(int \<Rightarrow> str option) \<Rightarrow> f64 \<Rightarrow> str option" where
  "rfc3339_from_unix_secs fmt secs =
     (if \<not> is_finite secs then None
      else let nanos = f64_round (f64_mul secs (f64_of_int 1000000000)) in
      if f64_le (f64_of_int (2 ^ 127 - 1)) (f64_abs nanos) then None
      else fmt (f64_trunc_int nanos))"

section \<open>Inertial States\<close>

definition read_inertial :: "bytes \<Rightarrow> inertial option" where
  "read_inertial body = do {
     alt_type \<leftarrow> slice_get body 36;
     Some \<lparr>in_timestamp_s = be_f64_at body 0, in_vehicle_id = sint (be_u32_at body 8), in_cucs_id = sint (be_u32_at body 12),
       in_lat = f64_to_degrees (be_f64_at body 16), in_lon = f64_to_degrees (be_f64_at body 24),
       in_altitude_m = be_f32_at body 32, in_altitude_type = alt_type, in_north_mps = be_f32_at body 37,
       in_east_mps = be_f32_at body 41, in_down_mps = be_f32_at body 45, in_roll_deg = f64_to_degrees (be_f32_at body 61),
       in_pitch_deg = f64_to_degrees (be_f32_at body 65),
       in_yaw_deg = f64_rem_euclid (f64_to_degrees (be_f32_at body 69)) (f64_of_int 360),
       in_magvar_deg = f64_to_degrees (be_f32_at body 85)\<rparr> }"

definition inertial_builder :: "libm32 \<Rightarrow> (int \<Rightarrow> str option) \<Rightarrow> effects \<Rightarrow> s4586_parser \<Rightarrow> bytes \<Rightarrow> inertial \<Rightarrow> event_builder" where
  "inertial_builder lm fmt fx st raw s =
     (let speed_mps = m_hypotf lm (in_north_mps s) (in_east_mps s);
          course_deg = f64_rem_euclid (f64_to_degrees (m_atan2 lm (in_east_mps s) (in_north_mps s))) (f64_of_int 360);
          climb_mps = f64_neg (in_down_mps s);
          b = eb_new (s4_source_id st) (s4_entity_type st); b = eb_new_id (uuid fx) b; b = eb_payload raw b;
          b = eb_location (in_lat s) (in_lon s) (in_altitude_m s) b;
          b = eb_metadata ''source_uid'' (''s4586:vehicle:'' @ show_int (in_vehicle_id s)) b;
          b = eb_metadata ''cucs_id'' (show_int (in_cucs_id s)) b;
          b = eb_metadata ''altitude_type'' (altitude_type (in_altitude_type s)) b;
          b = eb_attribute ''speed'' (fmt_fixed 2 speed_mps) b;
          b = eb_attribute ''course'' (fmt_fixed 1 course_deg) b;
          b = eb_attribute ''heading'' (fmt_fixed 1 (in_yaw_deg s)) b;
          b = eb_attribute ''vertical_rate'' (fmt_fixed 2 climb_mps) b;
          b = eb_metadata ''roll_deg'' (fmt_fixed 2 (in_roll_deg s)) b;
          b = eb_metadata ''pitch_deg'' (fmt_fixed 2 (in_pitch_deg s)) b;
          b = eb_metadata ''magnetic_variation_deg'' (fmt_fixed 3 (in_magvar_deg s)) b;
          b = (case rfc3339_from_unix_secs fmt (in_timestamp_s s) of
                 Some ts \<Rightarrow> eb_timestamp ts b | None \<Rightarrow> eb_now (wall_clock fx) b);
          b = eb_metadata ''timestamp_s'' (fmt_fixed 3 (in_timestamp_s s)) b
      in opt_attribute ''hostility'' (hostility (s4_enrichment st)) b)"

definition decode_inertial ::
  "libm32 \<Rightarrow> (int \<Rightarrow> str option) \<Rightarrow> effects \<Rightarrow> s4586_parser \<Rightarrow> bytes \<Rightarrow> bytes \<Rightarrow> (s4586_error + event) option" where
  "decode_inertial lm fmt fx st body raw =
     (if length body < INERTIAL_BODY_LEN then Some (Inl S4586Truncated)
      else map_option (\<lambda>s. map_sum S4586Build (\<lambda>e. e) (build (inertial_builder lm fmt fx st raw s))) (read_inertial body))"

section \<open>Datagrams\<close>

definition byte_sum :: "bytes \<Rightarrow> u32" where
  "byte_sum bs = fold (\<lambda>b a. a + ucast b) bs 0"

text \<open>The walk from \<open>off\<close> with the events so far; the number of events counts the effects.\<close>

function s4586_walk :: "libm32 \<Rightarrow> (int \<Rightarrow> str option) \<Rightarrow> (nat \<Rightarrow> effects) \<Rightarrow> s4586_parser \<Rightarrow> bytes \<Rightarrow> nat \<Rightarrow> event list
    \<Rightarrow> (s4586_error + event list) option" where
  "s4586_walk lm fmt fx st frame off events =
     (if length frame < off + S4586_HEADER + S4586_CHECKSUM then Some (Inr events)
      else let body_len = unat (be_u32_at frame (off + 18)); msg_end = off + S4586_HEADER + body_len + S4586_CHECKSUM in
      if length frame < msg_end then Some (Inr events)
      else let checksum = be_u32_at frame (msg_end - S4586_CHECKSUM) in
      case slice_range frame off (msg_end - S4586_CHECKSUM) of None \<Rightarrow> None
      | Some covered \<Rightarrow>
          let message_type = be_u32_at frame (off + 14) in
          if byte_sum covered \<noteq> checksum then Some (Inl (S4586Checksum message_type))
          else if message_type = MSG_INERTIAL_STATES then
            (case (slice_range frame (off + S4586_HEADER) (off + S4586_HEADER + body_len), slice_range frame off msg_end) of
               (Some body, Some raw) \<Rightarrow>
                 (case decode_inertial lm fmt (fx (length events)) st body raw of None \<Rightarrow> None
                  | Some (Inl err) \<Rightarrow> Some (Inl err)
                  | Some (Inr e) \<Rightarrow> s4586_walk lm fmt fx st frame msg_end (events @ [e]))
             | _ \<Rightarrow> None)
          else s4586_walk lm fmt fx st frame msg_end events)"
  by pat_completeness auto
termination
  by (relation "measure (\<lambda>(lm, fmt, fx, st, frame, off, events). length frame - off)")
     (auto simp: S4586_HEADER_def S4586_CHECKSUM_def)

declare s4586_walk.simps [simp del]

definition s4586_to_events :: "libm32 \<Rightarrow> (int \<Rightarrow> str option) \<Rightarrow> (nat \<Rightarrow> effects) \<Rightarrow> bytes \<Rightarrow> s4586_parser \<Rightarrow> (s4586_error + event list) option" where
  "s4586_to_events lm fmt fx frame st = s4586_walk lm fmt fx st frame 0 []"

definition s4586_parse ::
  "libm32 \<Rightarrow> (int \<Rightarrow> str option) \<Rightarrow> (nat \<Rightarrow> effects) \<Rightarrow> bytes \<Rightarrow> s4586_parser \<Rightarrow> (s4586_parser \<times> (s4586_error + event list)) option" where
  "s4586_parse lm fmt fx frame st = map_option (\<lambda>r. (st, r)) (s4586_to_events lm fmt fx frame st)"

section \<open>No panic\<close>

lemma read_inertial_total: "89 \<le> length body \<Longrightarrow> \<exists>s. read_inertial body = Some s"
  by (simp add: read_inertial_def)

lemma decode_inertial_total: "\<exists>r. decode_inertial lm fmt fx st body raw = Some r"
  using read_inertial_total [of body] by (auto simp: decode_inertial_def INERTIAL_BODY_LEN_def)

lemma s4586_walk_total: "\<exists>r. s4586_walk lm fmt fx st frame off events = Some r"
proof (induction "length frame - off" arbitrary: off events rule: less_induct)
  case less
  let ?n = "unat (be_u32_at frame (off + 18))" and ?h = "off + S4586_HEADER"
  show ?case
  proof (cases "length frame < ?h + S4586_CHECKSUM \<or> length frame < ?h + ?n + S4586_CHECKSUM")
    case False
    then obtain covered body raw where s: "slice_range frame off (?h + ?n) = Some covered" "slice_range frame ?h (?h + ?n) = Some body"
        "slice_range frame off (?h + ?n + S4586_CHECKSUM) = Some raw"
      by (auto simp: slice_range_def)
    obtain d where d: "decode_inertial lm fmt (fx (length events)) st body raw = Some d"
      using decode_inertial_total by blast
    have "\<exists>r. s4586_walk lm fmt fx st frame (?h + ?n + S4586_CHECKSUM) es = Some r" for es
      by (intro less) (use False in \<open>simp add: S4586_HEADER_def S4586_CHECKSUM_def; arith\<close>)
    with False s d show ?thesis
      by (subst s4586_walk.simps) (simp add: Let_def split: sum.split)
  qed (auto simp: s4586_walk.simps Let_def)
qed

section \<open>Messages\<close>

text \<open>The wrapper of a message, as the standard lays it out.\<close>

record s4586_message =
  sm_idd :: bytes
  sm_instance :: u32
  sm_type :: u32
  sm_stream :: u32
  sm_seq :: u32
  sm_body :: bytes

definition s4586_message_ok :: "s4586_message \<Rightarrow> bool" where
  "s4586_message_ok m \<longleftrightarrow> length (sm_idd m) = 10 \<and> length (sm_body m) < 2 ^ 32"

definition s4586_covered :: "s4586_message \<Rightarrow> bytes" where
  "s4586_covered m = sm_idd m @ u32_to_be (sm_instance m) @ u32_to_be (sm_type m) @ u32_to_be (of_nat (length (sm_body m)))
     @ u32_to_be (sm_stream m) @ u32_to_be (sm_seq m) @ sm_body m"

definition s4586_wrap :: "s4586_message \<Rightarrow> bytes" where
  "s4586_wrap m = s4586_covered m @ u32_to_be (byte_sum (s4586_covered m))"

text \<open>What a sequence of messages stands for: the events of its Inertial States, or the first error.\<close>

fun s4586_decoded :: "libm32 \<Rightarrow> (int \<Rightarrow> str option) \<Rightarrow> (nat \<Rightarrow> effects) \<Rightarrow> s4586_parser \<Rightarrow> s4586_message list \<Rightarrow> event list
    \<Rightarrow> (s4586_error + event list) option" where
  "s4586_decoded lm fmt fx st [] events = Some (Inr events)"
| "s4586_decoded lm fmt fx st (m # ms) events =
     (if sm_type m = MSG_INERTIAL_STATES then
        (case decode_inertial lm fmt (fx (length events)) st (sm_body m) (s4586_wrap m) of None \<Rightarrow> None
         | Some (Inl err) \<Rightarrow> Some (Inl err)
         | Some (Inr e) \<Rightarrow> s4586_decoded lm fmt fx st ms (events @ [e]))
      else s4586_decoded lm fmt fx st ms events)"

lemma be_u32_at_enc: "be_u32_at (pre @ u32_to_be w @ rest) (length pre) = w"
  by (simp add: be_u32_at_def slice_range_def u32_to_be_def u32_from_to_be)

lemma be_u32_at_append: "be_u32_at (pre @ xs) (length pre + i) = be_u32_at xs i"
  by (simp add: be_u32_at_def slice_range_def)

lemma s4586_walk_message:
  assumes "s4586_message_ok m"
  shows "s4586_walk lm fmt fx st (pre @ s4586_wrap m @ rest) (length pre) events =
    (if sm_type m = MSG_INERTIAL_STATES then
        (case decode_inertial lm fmt (fx (length events)) st (sm_body m) (s4586_wrap m) of None \<Rightarrow> None
         | Some (Inl err) \<Rightarrow> Some (Inl err)
         | Some (Inr e) \<Rightarrow> s4586_walk lm fmt fx st (pre @ s4586_wrap m @ rest) (length (pre @ s4586_wrap m)) (events @ [e]))
     else s4586_walk lm fmt fx st (pre @ s4586_wrap m @ rest) (length (pre @ s4586_wrap m)) events)"
proof -
  let ?f = "pre @ s4586_wrap m @ rest" and ?n = "length (sm_body m)" and ?b = "sm_body m @ u32_to_be (byte_sum (s4586_covered m)) @ rest"
  have idd: "length (sm_idd m) = 10" and n: "?n < 2 ^ 32" using assms by (simp_all add: s4586_message_ok_def)
  have lc: "length (s4586_covered m) = 30 + ?n" using idd by (simp add: s4586_covered_def)
  then have lw: "length (s4586_wrap m) = 34 + ?n" by (simp add: s4586_wrap_def)
  have len: "unat (be_u32_at ?f (length pre + 18)) = ?n"
  proof -
    have "be_u32_at ?f (length pre + 18) = of_nat ?n"
      using be_u32_at_enc [of "pre @ sm_idd m @ u32_to_be (sm_instance m) @ u32_to_be (sm_type m)"] idd
      by (simp add: s4586_wrap_def s4586_covered_def)
    with n show ?thesis by (simp add: unsigned_of_nat take_bit_nat_eq_self)
  qed
  have ty: "be_u32_at ?f (length pre + 14) = sm_type m"
    using be_u32_at_enc [of "pre @ sm_idd m @ u32_to_be (sm_instance m)"] idd by (simp add: s4586_wrap_def s4586_covered_def)
  have sum: "be_u32_at ?f (length pre + 30 + ?n) = byte_sum (s4586_covered m)"
    using be_u32_at_enc [of "pre @ s4586_covered m"] lc by (simp add: s4586_wrap_def add.assoc)
  have "slice_range ?f (length pre) (length pre + 30 + ?n) = Some (s4586_covered m)"
    by (simp add: slice_range_def s4586_wrap_def lc)
  moreover have "slice_range ?f (length pre) (length pre + 30 + ?n + 4) = Some (s4586_wrap m)"
    by (simp add: slice_range_def lw)
  moreover have "slice_range ?f (length pre + 30) (length pre + 30 + ?n) = Some (sm_body m)"
  proof -
    have "?f = (pre @ take 30 (s4586_covered m)) @ ?b" "length (pre @ take 30 (s4586_covered m)) = length pre + 30"
      using idd lc by (simp_all add: s4586_wrap_def s4586_covered_def)
    then show ?thesis by (simp add: slice_range_def lw)
  qed
  ultimately show ?thesis
    using lw len ty sum by (subst s4586_walk.simps) (simp add: S4586_HEADER_def S4586_CHECKSUM_def Let_def ac_simps split: option.split sum.split)
qed

definition s4586_stops :: "bytes \<Rightarrow> bool" where
  "s4586_stops tail \<longleftrightarrow> length tail < 34 \<or> length tail < 34 + unat (be_u32_at tail 18)"

lemma s4586_walk_stops:
  "s4586_stops tail \<Longrightarrow> s4586_walk lm fmt fx st (pre @ tail) (length pre) events = Some (Inr events)"
  by (subst s4586_walk.simps) (auto simp: s4586_stops_def S4586_HEADER_def S4586_CHECKSUM_def Let_def be_u32_at_append)

lemma s4586_walk_messages:
  assumes "list_all s4586_message_ok ms" "s4586_stops tail"
  shows "s4586_walk lm fmt fx st (pre @ concat (map s4586_wrap ms) @ tail) (length pre) events = s4586_decoded lm fmt fx st ms events"
  using assms(1)
proof (induction ms arbitrary: pre events)
  case Nil
  then show ?case using s4586_walk_stops [OF assms(2)] by simp
next
  case (Cons m ms)
  from Cons.IH [of "pre @ s4586_wrap m"] Cons.prems
  show ?case by (simp add: s4586_walk_message split: option.split sum.split)
qed

section \<open>The checksum\<close>

lemma byte_sum_append: "byte_sum (xs @ x # ys) = byte_sum xs + byte_sum ys + ucast x"
  unfolding byte_sum_def using fold_plus [of "ucast :: u8 \<Rightarrow> u32"] by simp

lemma byte_sum_change:
  assumes "i < length bs" "b \<noteq> bs ! i"
  shows "byte_sum (bs[i := b]) \<noteq> byte_sum bs"
proof -
  have "bs = take i bs @ bs ! i # drop (Suc i) bs" "bs[i := b] = take i bs @ b # drop (Suc i) bs"
    using assms(1) by (simp_all add: id_take_nth_drop upd_conv_take_nth_drop)
  then have "byte_sum (bs[i := b]) = byte_sum bs \<longleftrightarrow> (ucast b :: u32) = ucast (bs ! i)"
    using byte_sum_append [of "take i bs" b "drop (Suc i) bs"] byte_sum_append [of "take i bs" "bs ! i" "drop (Suc i) bs"] by simp
  with assms(2) ucast_u32_inj show ?thesis by blast
qed

lemma be_u32_at_other: "i < k \<or> k + 4 \<le> i \<Longrightarrow> be_u32_at (xs[i := b]) k = be_u32_at xs k"
  by (simp add: be_u32_at_def slice_range_def take_drop_update)

lemma be_u32_at_change:
  assumes "k \<le> i" "i < k + 4" "k + 4 \<le> length xs" "b \<noteq> xs ! i"
  shows "be_u32_at (xs[i := b]) k \<noteq> be_u32_at xs k"
proof -
  have four: "\<exists>x0 x1 x2 x3. take 4 (drop k ys) = [x0, x1, x2, x3] \<and> be_u32_at ys k = u32_from_be x0 x1 x2 x3" if "length ys = length xs" for ys
  proof -
    have "length (take 4 (drop k ys)) = 4" using that assms(3) by simp
    then obtain x0 x1 x2 x3 where "take 4 (drop k ys) = [x0, x1, x2, x3]" unfolding list_length_4 by blast
    then show ?thesis using that assms(3) by (simp add: be_u32_at_def slice_range_def)
  qed
  have "take 4 (drop k (xs[i := b])) \<noteq> take 4 (drop k xs)"
  proof
    assume "take 4 (drop k (xs[i := b])) = take 4 (drop k xs)"
    then have "take 4 (drop k (xs[i := b])) ! (i - k) = take 4 (drop k xs) ! (i - k)" by simp
    with assms show False by simp
  qed
  with four [of "xs[i := b]"] four [of xs] u32_from_be_inj show ?thesis by fastforce
qed

lemma s4586_first_changed:
  assumes m: "s4586_message_ok m" and i: "i < length (s4586_wrap m)" "i < 18 \<or> 22 \<le> i" and b: "b \<noteq> s4586_wrap m ! i"
  shows "\<exists>t. s4586_walk lm fmt fx st ((s4586_wrap m)[i := b] @ rest) 0 [] = Some (Inl (S4586Checksum t))"
proof -
  let ?n = "length (sm_body m)" and ?f = "s4586_wrap m @ rest"
  let ?g = "?f[i := b]"
  have g: "(s4586_wrap m)[i := b] @ rest = ?g" using i(1) by (simp add: list_update_append1)
  have idd: "length (sm_idd m) = 10" and n: "?n < 2 ^ 32" using m by (simp_all add: s4586_message_ok_def)
  have lc: "length (s4586_covered m) = 30 + ?n" using idd by (simp add: s4586_covered_def)
  then have lw: "length (s4586_wrap m) = 34 + ?n" by (simp add: s4586_wrap_def)
  have "be_u32_at ?f 18 = of_nat ?n"
    using be_u32_at_enc [of "sm_idd m @ u32_to_be (sm_instance m) @ u32_to_be (sm_type m)"] idd by (simp add: s4586_wrap_def s4586_covered_def)
  then have len: "unat (be_u32_at ?g 18) = ?n" using be_u32_at_other [of i 18] i(2) n by (simp add: unsigned_of_nat take_bit_nat_eq_self)
  have sum: "be_u32_at ?f (30 + ?n) = byte_sum (s4586_covered m)" using be_u32_at_enc [of "s4586_covered m"] lc by (simp add: s4586_wrap_def)
  have cov: "take (30 + ?n) ?f = s4586_covered m" by (simp add: s4586_wrap_def lc)
  have fi: "b \<noteq> ?f ! i" using b i(1) by (simp add: nth_append)
  have "byte_sum (take (30 + ?n) ?g) \<noteq> be_u32_at ?g (30 + ?n)"
  proof (cases "i < 30 + ?n")
    case True
    then have "take (30 + ?n) ?g = (s4586_covered m)[i := b]" using cov by (simp add: take_update_swap)
    moreover have "b \<noteq> s4586_covered m ! i" using fi True cov lc by (metis nth_take)
    ultimately show ?thesis
      using True sum byte_sum_change [of i "s4586_covered m" b] be_u32_at_other [of i "30 + ?n" ?f b] lc by simp
  next
    case False
    then have "take (30 + ?n) ?g = s4586_covered m" using cov by simp
    then show ?thesis using False sum be_u32_at_change [of "30 + ?n" i ?f b] i(1) lw fi by simp
  qed
  then show ?thesis
    unfolding g using len lw by (subst s4586_walk.simps) (simp add: S4586_HEADER_def S4586_CHECKSUM_def Let_def slice_range_def)
qed

section \<open>Events\<close>

definition s4586_attributes :: "str list" where
  "s4586_attributes = [''speed'', ''course'', ''heading'', ''vertical_rate'', ''hostility'']"

definition s4586_metadata :: "str list" where
  "s4586_metadata = [''source_uid'', ''cucs_id'', ''altitude_type'', ''roll_deg'', ''pitch_deg'', ''magnetic_variation_deg'', ''timestamp_s'']"

definition inertial_clock :: "(int \<Rightarrow> str option) \<Rightarrow> effects \<Rightarrow> inertial \<Rightarrow> str" where
  "inertial_clock fmt fx s = (case rfc3339_from_unix_secs fmt (in_timestamp_s s) of Some ts \<Rightarrow> ts | None \<Rightarrow> wall_clock fx)"

lemma timestamp_cases:
  "(case r of Some ts \<Rightarrow> eb_timestamp ts b | None \<Rightarrow> eb_now clock b) = eb_now (case r of Some ts \<Rightarrow> ts | None \<Rightarrow> clock) b"
  by (simp add: eb_timestamp_now split: option.split)

lemma keys_inertial: "keys_within s4586_attributes s4586_metadata (inertial_builder lm fmt fx st raw s)"
proof -
  have "keys_within (foldl (\<lambda>a k. a @ [k]) [] s4586_attributes) (foldl (\<lambda>a k. a @ [k]) [] s4586_metadata) (inertial_builder lm fmt fx st raw s)"
    unfolding s4586_attributes_def s4586_metadata_def foldl.simps inertial_builder_def Let_def timestamp_cases
    by (rule keys_rules)+
  moreover have "foldl (\<lambda>a k. a @ [k]) a ks = a @ ks" for a ks :: "str list" by (induction ks arbitrary: a) auto
  ultimately show ?thesis by simp
qed

lemma inertial_builder_fields:
  "b_id (inertial_builder lm fmt fx st raw s) = Some (uuid fx)"
  "b_timestamp (inertial_builder lm fmt fx st raw s) = Some (inertial_clock fmt fx s)"
  "b_source_id (inertial_builder lm fmt fx st raw s) = s4_source_id st" "b_entity_type (inertial_builder lm fmt fx st raw s) = s4_entity_type st"
  "b_policy_tags (inertial_builder lm fmt fx st raw s) = []" "b_confidence (inertial_builder lm fmt fx st raw s) = FNum False 0"
  "b_payload (inertial_builder lm fmt fx st raw s) = raw"
  "b_location (inertial_builder lm fmt fx st raw s) = Some \<lparr>latitude = in_lat s, longitude = in_lon s, altitude_m = in_altitude_m s\<rparr>"
  by (simp_all add: inertial_builder_def Let_def timestamp_cases inertial_clock_def eb_fixed_sel)

lemma s4586_keys_small:
  "distinct s4586_attributes" "distinct s4586_metadata" "length s4586_attributes \<le> MAX_ATTRIBUTES"
  "length s4586_metadata \<le> MAX_METADATA" "list_all (governs ONTOLOGY ''mim:aircraft'') s4586_attributes"
  by code_simp+

lemma inertial_builds:
  assumes "s4_source_id st \<noteq> []" "is_namespaced (s4_entity_type st)" "is_rfc3339 (inertial_clock fmt fx s)"
  shows "build (inertial_builder lm fmt fx st raw s) = Inr e \<longleftrightarrow> e = built_event (inertial_builder lm fmt fx st raw s)
      \<and> location_ok \<lparr>latitude = in_lat s, longitude = in_lon s, altitude_m = in_altitude_m s\<rparr>"
  using build_located [OF keys_inertial s4586_keys_small(1-4), of lm fmt fx st raw s "uuid fx" "inertial_clock fmt fx s" e] assms
  by (simp add: inertial_builder_fields)

lemma inertial_clock_ok: "formats_rfc3339 fmt \<Longrightarrow> is_rfc3339 (wall_clock fx) \<Longrightarrow> is_rfc3339 (inertial_clock fmt fx s)"
  by (auto simp: inertial_clock_def rfc3339_from_unix_secs_def formats_rfc3339_def Let_def split: option.split if_splits)

lemma s4586_walk_sound:
  "s4586_walk lm fmt fx st frame off events = Some (Inr es)
    \<Longrightarrow> \<exists>new. es = events @ new \<and> (\<forall>e \<in> set new. canonical_event e \<and> ev_source_id e = s4_source_id st)"
proof (induction "length frame - off" arbitrary: off events rule: less_induct)
  case less
  let ?n = "unat (be_u32_at frame (off + 18))"
  let ?e = "off + S4586_HEADER + ?n + S4586_CHECKSUM"
  have smaller: "length frame - ?e < length frame - off" if "\<not> length frame < ?e"
    using that by (simp add: S4586_HEADER_def S4586_CHECKSUM_def)
  from less.prems consider "es = events" | "\<not> length frame < ?e" "s4586_walk lm fmt fx st frame ?e events = Some (Inr es)"
    | body raw e where "\<not> length frame < ?e" "decode_inertial lm fmt (fx (length events)) st body raw = Some (Inr e)"
        "s4586_walk lm fmt fx st frame ?e (events @ [e]) = Some (Inr es)"
    by (subst (asm) s4586_walk.simps) (auto simp: Let_def split: if_splits option.splits sum.splits)
  then show ?case
  proof cases
    case 2
    from less.hyps [OF smaller [OF 2(1)] 2(2)] show ?thesis .
  next
    case 3
    then obtain s where "build (inertial_builder lm fmt (fx (length events)) st raw s) = Inr e"
      by (auto simp: decode_inertial_def map_sum_Inr_iff split: if_splits)
    from build_source [OF this] less.hyps [OF smaller [OF 3(1)] 3(3)] show ?thesis by (auto simp: inertial_builder_fields)
  qed auto
qed

interpretation s4586_frames: frame_parser "s4586_parse lm fmt" s4_source_id for lm fmt
proof
  fix fx frame st st' r
  assume "s4586_parse lm fmt fx frame st = Some (st', r)"
  then show "s4_source_id st' = s4_source_id st" by (auto simp: s4586_parse_def)
next
  fix fx frame st st' es e
  assume "s4586_parse lm fmt fx frame st = Some (st', Inr es)" "e \<in> set es"
  then show "canonical_event e \<and> ev_source_id e = s4_source_id st"
    by (auto simp: s4586_parse_def s4586_to_events_def dest: s4586_walk_sound)
qed

section \<open>Properties\<close>

text \<open>C30. The walk inverts the packing of a datagram: from messages wrapped as the standard lays them out,
  followed by a remainder too short for a header or for its declared length, the parser decodes
  exactly the messages in order, with the events of its Inertial States or the first error.\<close>

theorem s4586_datagram_roundtrip:
  assumes "list_all s4586_message_ok ms" "s4586_stops tail"
  shows "s4586_to_events lm fmt fx (concat (map s4586_wrap ms) @ tail) st = s4586_decoded lm fmt fx st ms []"
  using s4586_walk_messages [OF assms, of lm fmt fx st "[]" "[]"] by (simp add: s4586_to_events_def)

text \<open>The checksum detects every change of one byte outside the length field: a datagram whose first
  message was changed so is refused with a checksum error.\<close>

theorem s4586_detects_one_change:
  assumes "s4586_message_ok m" "i < length (s4586_wrap m)" "i < 18 \<or> 22 \<le> i" "b \<noteq> s4586_wrap m ! i"
  shows "\<exists>t. s4586_to_events lm fmt fx ((s4586_wrap m)[i := b] @ rest) st = Some (Inl (S4586Checksum t))"
  using s4586_first_changed [OF assms] by (simp add: s4586_to_events_def)

text \<open>With a configured source, a namespaced entity type, and a clock and formatter that render RFC 3339,
  Inertial States become an event exactly when the position, converted from radians, is within the
  range of the builder and the altitude is finite. The event is canonical, carries the message as
  payload, and has no attribute outside the ontology when the entity type is the default.\<close>

theorem s4586_inertial_builds_iff:
  assumes "INERTIAL_BODY_LEN \<le> length body" "s4_source_id st \<noteq> []" "is_namespaced (s4_entity_type st)" "is_rfc3339 (wall_clock fx)"
    "formats_rfc3339 fmt"
  shows "\<exists>s. read_inertial body = Some s
    \<and> ((\<exists>e. decode_inertial lm fmt fx st body raw = Some (Inr e))
        \<longleftrightarrow> location_ok \<lparr>latitude = in_lat s, longitude = in_lon s, altitude_m = in_altitude_m s\<rparr>)
    \<and> (\<forall>e. decode_inertial lm fmt fx st body raw = Some (Inr e) \<longrightarrow> canonical_event e \<and> ev_payload e = raw
        \<and> (s4_entity_type st = ''mim:aircraft'' \<longrightarrow> ungoverned ONTOLOGY e = []))"
proof -
  obtain s where s: "read_inertial body = Some s" using read_inertial_total [of body] assms(1) by (auto simp: INERTIAL_BODY_LEN_def)
  let ?b = "inertial_builder lm fmt fx st raw s"
  have d: "decode_inertial lm fmt fx st body raw = Some (Inr e) \<longleftrightarrow> build ?b = Inr e" for e
    using assms(1) s by (cases "build ?b") (simp_all add: decode_inertial_def)
  note i = inertial_builds [OF assms(2,3) inertial_clock_ok [OF assms(5,4)], of lm raw s]
  have "canonical_event e \<and> ev_payload e = raw \<and> (s4_entity_type st = ''mim:aircraft'' \<longrightarrow> ungoverned ONTOLOGY e = [])" if "build ?b = Inr e" for e
  proof -
    have e: "e = built_event ?b" using that i by blast
    have "s4_entity_type st = ''mim:aircraft'' \<longrightarrow> ungoverned ONTOLOGY e = []"
      unfolding e using ungoverned_Nil [OF keys_inertial s4586_keys_small(1,2), of ONTOLOGY lm fmt fx st raw s] s4586_keys_small(5)
      by (simp add: inertial_builder_fields)
    then show ?thesis using build_source [OF that] by (simp add: e built_event_def inertial_builder_fields)
  qed
  moreover have "(\<exists>e. decode_inertial lm fmt fx st body raw = Some (Inr e))
      \<longleftrightarrow> location_ok \<lparr>latitude = in_lat s, longitude = in_lon s, altitude_m = in_altitude_m s\<rparr>"
    unfolding d i by blast
  ultimately show ?thesis using s d by (intro exI [of _ s]) simp
qed

text \<open>The parser returns on every datagram.\<close>

theorem s4586_never_panics: "s4586_parse lm fmt fx frame st \<noteq> None"
  using s4586_walk_total [of lm fmt fx st frame 0 "[]"] by (auto simp: s4586_parse_def s4586_to_events_def)

section \<open>Witnesses\<close>

definition ex_s4586 :: s4586_parser where
  "ex_s4586 = s4586_new ''uas-1'' \<lparr>hostility = None\<rparr>"

definition s4586_effects :: "nat \<Rightarrow> effects" where
  "s4586_effects i = \<lparr>instant = 0, wall_clock = ''2026-06-10T08:00:00Z'', uuid = ''0''\<rparr>"

definition s4586_format :: "int \<Rightarrow> str option" where
  "s4586_format n = Some ''1970-01-01T00:00:00Z''"

definition s4586_libm :: libm32 where
  "s4586_libm = \<lparr>m_sin = (\<lambda>x. x), m_cos = (\<lambda>x. x), m_asin = (\<lambda>x. x), m_atan2 = (\<lambda>y x. y), m_hypot = (\<lambda>x y. x), m_hypotf = (\<lambda>x y. x)\<rparr>"

definition ex_message :: s4586_message where
  "ex_message = \<lparr>sm_idd = replicate 10 0, sm_instance = 1, sm_type = 101, sm_stream = 0, sm_seq = 0xFFFFFFFF, sm_body = replicate 89 0\<rparr>"

lemma ex_message_ok: "s4586_message_ok ex_message" "length (s4586_wrap ex_message) = 123" "s4586_wrap ex_message ! 0 = 0"
  by (simp_all add: s4586_message_ok_def ex_message_def s4586_wrap_def s4586_covered_def nth_append)

theorem s4586_datagram_roundtrip_witness:
  "s4586_to_events s4586_libm s4586_format s4586_effects (concat (map s4586_wrap [ex_message, ex_message]) @ [7]) ex_s4586
    = s4586_decoded s4586_libm s4586_format s4586_effects ex_s4586 [ex_message, ex_message] []"
  by (rule s4586_datagram_roundtrip) (simp_all add: ex_message_ok s4586_stops_def)

theorem s4586_detects_one_change_witness:
  "\<exists>t. s4586_to_events s4586_libm s4586_format s4586_effects ((s4586_wrap ex_message)[0 := 1] @ []) ex_s4586 = Some (Inl (S4586Checksum t))"
  by (rule s4586_detects_one_change) (simp_all add: ex_message_ok)

theorem s4586_inertial_builds_iff_witness:
  "\<exists>s. read_inertial (sm_body ex_message) = Some s
    \<and> ((\<exists>e. decode_inertial s4586_libm s4586_format (s4586_effects 0) ex_s4586 (sm_body ex_message) (s4586_wrap ex_message) = Some (Inr e))
        \<longleftrightarrow> location_ok \<lparr>latitude = in_lat s, longitude = in_lon s, altitude_m = in_altitude_m s\<rparr>)"
proof -
  have t: "is_rfc3339 ''2026-06-10T08:00:00Z''" "is_rfc3339 ''1970-01-01T00:00:00Z''" "is_namespaced ''mim:aircraft''" by code_simp+
  have c: "INERTIAL_BODY_LEN \<le> length (sm_body ex_message)" "s4_source_id ex_s4586 \<noteq> []" "is_namespaced (s4_entity_type ex_s4586)"
      "is_rfc3339 (wall_clock (s4586_effects 0))" "formats_rfc3339 s4586_format"
    using t by (simp_all add: INERTIAL_BODY_LEN_def ex_message_def ex_s4586_def s4586_new_def s4586_effects_def s4586_format_def formats_rfc3339_def)
  from s4586_inertial_builds_iff [OF c, of s4586_libm "s4586_wrap ex_message"] show ?thesis by blast
qed

end
