(* ===== verification/Runtime.thy ===== *)
theory Runtime
  imports Seal Marking Ontology Spool
begin

text \<open>
  \<open>rust/connectors/common/src/runtime.rs\<close>: what happens to the events of a frame and to the records
  of the spool. The outcomes of the broker and of the disk are arguments: whether the link is up,
  whether a publish succeeded within its deadline, whether an append to the spool failed and what it
  left. The counters are \<open>AtomicU64\<close>. \<open>rt_sent\<close> is the trace of messages whose publish succeeded. An
  iteration of the drain task takes the spool's lock twice, so it is two steps, with the record in
  flight between them. Pacing, logging and shutdown are left out.
\<close>

section \<open>State\<close>

record metrics =
  mt_received :: u64
  mt_published :: u64
  mt_rejected :: u64
  mt_dropped_backpressure :: u64
  mt_spooled :: u64
  mt_drained :: u64
  mt_spool_corrupt :: u64
  mt_spool_dropped_segments :: u64
  mt_spool_failed :: u64
  mt_ungoverned :: u64

definition metrics_default :: metrics where
  "metrics_default = \<lparr>mt_received = 0, mt_published = 0, mt_rejected = 0, mt_dropped_backpressure = 0, mt_spooled = 0,
     mt_drained = 0, mt_spool_corrupt = 0, mt_spool_dropped_segments = 0, mt_spool_failed = 0, mt_ungoverned = 0\<rparr>"

record runtime =
  rt_metrics :: metrics
  rt_reported :: "(str \<times> str) set"
  rt_spool :: "spool option"
  rt_js_mode :: bool
  rt_inflight :: "(cursor \<times> spool_record) option"
  rt_sent :: "(str \<times> bytes) list"

text \<open>What the run loop holds fixed: the scheme and key, the encoder, the ontology, the marking.\<close>

record run_config =
  rc_scheme :: ed25519
  rc_encode :: "event \<Rightarrow> bytes"
  rc_ontology :: ontology
  rc_signing_key :: bytes
  rc_marking :: "str list option"

definition run_start :: "spool option \<Rightarrow> runtime" where
  "run_start sp = \<lparr>rt_metrics = metrics_default, rt_reported = {}, rt_spool = sp, rt_js_mode = True,
     rt_inflight = None, rt_sent = []\<rparr>"

section \<open>Events\<close>

definition report_ungoverned :: "ontology \<Rightarrow> event \<Rightarrow> runtime \<Rightarrow> runtime" where
  "report_ungoverned ont e st =
     (let m = rt_metrics st; ty = ev_entity_type e in
      if \<not> knows_type ont ty
      then st\<lparr>rt_metrics := m\<lparr>mt_ungoverned := mt_ungoverned m + 1\<rparr>, rt_reported := insert (ty, []) (rt_reported st)\<rparr>
      else let lost = ungoverned ont e in
      st\<lparr>rt_metrics := (if lost \<noteq> [] then m\<lparr>mt_ungoverned := mt_ungoverned m + 1\<rparr> else m),
         rt_reported := rt_reported st \<union> (\<lambda>name. (ty, name)) ` set lost\<rparr>)"

datatype append_outcome = AppendOk | AppendFailed spool

definition rt_spool_append :: "append_outcome \<Rightarrow> str \<Rightarrow> bytes \<Rightarrow> spool \<Rightarrow> runtime \<Rightarrow> runtime" where
  "rt_spool_append io event_id sealed sp st =
     (let m = rt_metrics st in
      case io of
        AppendOk \<Rightarrow>
          (let (sp', dropped) = spool_append \<lparr>sr_event_id = event_id, sr_sealed = sealed\<rparr> sp;
               m = m\<lparr>mt_spooled := mt_spooled m + 1\<rparr>;
               m = (if dropped then m\<lparr>mt_spool_dropped_segments := mt_spool_dropped_segments m + 1\<rparr> else m)
           in st\<lparr>rt_spool := Some sp', rt_metrics := m\<rparr>)
      | AppendFailed sp' \<Rightarrow> st\<lparr>rt_spool := Some sp', rt_metrics := m\<lparr>mt_spool_failed := mt_spool_failed m + 1\<rparr>\<rparr>)"

record publish_outcome =
  po_connected :: bool
  po_published :: bool
  po_append :: append_outcome

definition publish_or_spool :: "publish_outcome \<Rightarrow> str \<Rightarrow> bytes \<Rightarrow> runtime \<Rightarrow> runtime" where
  "publish_or_spool po event_id sealed st =
     (if rt_spool st \<noteq> None \<and> \<not> po_connected po
      then rt_spool_append (po_append po) event_id sealed (the (rt_spool st)) st
      else let m = rt_metrics st in
      if po_published po
      then st\<lparr>rt_metrics := m\<lparr>mt_published := mt_published m + 1\<rparr>, rt_sent := rt_sent st @ [(event_id, sealed)]\<rparr>
      else case rt_spool st of
        Some sp \<Rightarrow> rt_spool_append (po_append po) event_id sealed sp st
      | None \<Rightarrow> st\<lparr>rt_metrics := m\<lparr>mt_dropped_backpressure := mt_dropped_backpressure m + 1\<rparr>\<rparr>)"

definition stamp :: "run_config \<Rightarrow> event \<Rightarrow> event" where
  "stamp cfg e = (case rc_marking cfg of Some m \<Rightarrow> marking_apply m e | None \<Rightarrow> e)"

definition seal_event :: "run_config \<Rightarrow> event \<Rightarrow> bytes" where
  "seal_event cfg e = seal (rc_scheme cfg) (canonical_bytes (rc_encode cfg) e) (rc_signing_key cfg)"

definition handle_event :: "run_config \<Rightarrow> publish_outcome \<Rightarrow> event \<Rightarrow> runtime \<Rightarrow> runtime" where
  "handle_event cfg po e st =
     (let e = stamp cfg e; st = report_ungoverned (rc_ontology cfg) e st
      in publish_or_spool po (ev_id e) (seal_event cfg e) st)"

text \<open>The loop over the events of a frame, each with the outcomes it meets.\<close>

fun handle_events :: "run_config \<Rightarrow> (event \<times> publish_outcome) list \<Rightarrow> runtime \<Rightarrow> runtime" where
  "handle_events cfg [] st = st"
| "handle_events cfg ((e, po) # es) st = handle_events cfg es (handle_event cfg po e st)"

text \<open>The body of the run loop for one received frame and what the parser made of it.\<close>

definition on_frame :: "run_config \<Rightarrow> ('e + (event \<times> publish_outcome) list) \<Rightarrow> runtime \<Rightarrow> runtime" where
  "on_frame cfg parsed st =
     (let m = rt_metrics st; m = m\<lparr>mt_received := mt_received m + 1\<rparr> in
      case parsed of
        Inl _ \<Rightarrow> st\<lparr>rt_metrics := m\<lparr>mt_rejected := mt_rejected m + 1\<rparr>\<rparr>
      | Inr es \<Rightarrow> handle_events cfg es (st\<lparr>rt_metrics := m\<rparr>))"

section \<open>Draining\<close>

datatype js_outcome = Acked | NoResponders | JsFailed

record drain_outcome =
  do_js :: js_outcome
  do_plain :: bool

definition drain_peek :: "runtime \<Rightarrow> runtime" where
  "drain_peek st = (case rt_spool st of None \<Rightarrow> st
     | Some sp \<Rightarrow> (let (sp', item) = peek sp in st\<lparr>rt_spool := Some sp', rt_inflight := item\<rparr>))"

definition advance_or_keep :: "cursor \<Rightarrow> runtime \<Rightarrow> runtime" where
  "advance_or_keep pos st = (case rt_spool st of None \<Rightarrow> st
     | Some sp \<Rightarrow> (case advance pos sp of Inl _ \<Rightarrow> st | Inr sp' \<Rightarrow> st\<lparr>rt_spool := Some sp'\<rparr>))"

definition drain_finish :: "run_config \<Rightarrow> drain_outcome \<Rightarrow> runtime \<Rightarrow> runtime" where
  "drain_finish cfg oc st =
     (case rt_inflight st of None \<Rightarrow> st
      | Some (pos, r) \<Rightarrow>
          let st = st\<lparr>rt_inflight := None\<rparr>; m = rt_metrics st in
          (case verify (rc_scheme cfg) (sr_sealed r) (ed_verifying_key (rc_scheme cfg) (rc_signing_key cfg)) of
             Inl _ \<Rightarrow> advance_or_keep pos (st\<lparr>rt_metrics := m\<lparr>mt_spool_corrupt := mt_spool_corrupt m + 1\<rparr>\<rparr>)
           | Inr _ \<Rightarrow>
               let js_mode = rt_js_mode st \<and> do_js oc \<noteq> NoResponders;
                   delivered = rt_js_mode st \<and> do_js oc = Acked;
                   delivered = (if \<not> delivered \<and> \<not> js_mode then do_plain oc else delivered);
                   st = st\<lparr>rt_js_mode := js_mode\<rparr>
               in if delivered
                  then (advance_or_keep pos st)\<lparr>rt_metrics := m\<lparr>mt_drained := mt_drained m + 1\<rparr>,
                         rt_sent := rt_sent st @ [(sr_event_id r, sr_sealed r)]\<rparr>
                  else st))"

section \<open>Runs\<close>

text \<open>The tasks of a connector interleaved: the run loop handles a frame, the drain task peeks or
  finishes.\<close>

datatype 'e run_action =
    Frame "'e + (event \<times> publish_outcome) list"
  | DrainPeek
  | DrainFinish drain_outcome

fun run_step :: "run_config \<Rightarrow> 'e run_action \<Rightarrow> runtime \<Rightarrow> runtime" where
  "run_step cfg (Frame parsed) st = on_frame cfg parsed st"
| "run_step cfg DrainPeek st = (if rt_inflight st = None then drain_peek st else st)"
| "run_step cfg (DrainFinish oc) st = drain_finish cfg oc st"

fun run :: "run_config \<Rightarrow> 'e run_action list \<Rightarrow> runtime \<Rightarrow> runtime" where
  "run cfg [] st = st"
| "run cfg (a # as) st = run cfg as (run_step cfg a st)"

section \<open>Accounting\<close>

fun events_of :: "'e run_action \<Rightarrow> event list" where
  "events_of (Frame (Inr eps)) = map fst eps"
| "events_of _ = []"

definition frames_in :: "'e run_action list \<Rightarrow> nat" where
  "frames_in as = length (filter (\<lambda>a. case a of Frame _ \<Rightarrow> True | _ \<Rightarrow> False) as)"

definition rejects_in :: "'e run_action list \<Rightarrow> nat" where
  "rejects_in as = length (filter (\<lambda>a. case a of Frame (Inl _) \<Rightarrow> True | _ \<Rightarrow> False) as)"

text \<open>The counters into one of which every handled event goes.\<close>

definition fates :: "runtime \<Rightarrow> u64" where
  "fates st = (let m = rt_metrics st in
     mt_published m + mt_dropped_backpressure m + mt_spooled m + mt_spool_failed m)"

definition received_rejected :: "runtime \<Rightarrow> u64 \<times> u64" where
  "received_rejected st = (mt_received (rt_metrics st), mt_rejected (rt_metrics st))"

lemmas count_defs = fates_def received_rejected_def Let_def

lemma report_counts:
  "fates (report_ungoverned ont e st) = fates st" "received_rejected (report_ungoverned ont e st) = received_rejected st"
  by (simp_all add: report_ungoverned_def count_defs)

lemma rt_spool_append_counts:
  "fates (rt_spool_append io i s sp st) = fates st + 1"
  "received_rejected (rt_spool_append io i s sp st) = received_rejected st"
  by (simp_all add: rt_spool_append_def count_defs split: append_outcome.split prod.split)

lemma publish_counts:
  "fates (publish_or_spool po i s st) = fates st + 1"
  "received_rejected (publish_or_spool po i s st) = received_rejected st"
  by (auto simp: publish_or_spool_def rt_spool_append_counts Let_def split: option.split)
     (simp_all add: count_defs)

lemma handle_events_counts:
  "fates (handle_events cfg eps st) = fates st + of_nat (length eps)
   \<and> received_rejected (handle_events cfg eps st) = received_rejected st"
proof (induction eps arbitrary: st)
  case (Cons ep eps)
  obtain e po where ep: "ep = (e, po)" by force
  have "fates (handle_event cfg po e st) = fates st + 1" "received_rejected (handle_event cfg po e st) = received_rejected st"
    by (simp_all add: handle_event_def Let_def publish_counts report_counts)
  with Cons [of "handle_event cfg po e st"] ep show ?case by simp
qed simp

lemma drain_counts:
  "fates (drain_peek st) = fates st" "received_rejected (drain_peek st) = received_rejected st"
  "fates (drain_finish cfg oc st) = fates st" "received_rejected (drain_finish cfg oc st) = received_rejected st"
  by (simp_all add: drain_peek_def drain_finish_def advance_or_keep_def count_defs split: option.split prod.split sum.split)

lemma run_step_counts:
  "fates (run_step cfg a st) = fates st + of_nat (length (events_of a))
   \<and> received_rejected (run_step cfg a st)
       = (fst (received_rejected st) + of_nat (frames_in [a]), snd (received_rejected st) + of_nat (rejects_in [a]))"
proof (cases a)
  case (Frame parsed)
  show ?thesis
  proof (cases parsed)
    case (Inl x)
    with Frame show ?thesis by (simp add: on_frame_def frames_in_def rejects_in_def count_defs)
  next
    case (Inr eps)
    with Frame handle_events_counts [of cfg eps] show ?thesis
      by (simp add: on_frame_def frames_in_def rejects_in_def Let_def) (simp add: count_defs)
  qed
qed (simp_all add: drain_counts frames_in_def rejects_in_def)

lemma run_counts:
  "fates (run cfg as st) = fates st + of_nat (length (concat (map events_of as)))
   \<and> received_rejected (run cfg as st)
       = (fst (received_rejected st) + of_nat (frames_in as), snd (received_rejected st) + of_nat (rejects_in as))"
proof (induction as arbitrary: st)
  case (Cons a as)
  have "frames_in (a # as) = frames_in [a] + frames_in as" "rejects_in (a # as) = rejects_in [a] + rejects_in as"
    by (simp_all add: frames_in_def rejects_in_def)
  with Cons [of "run_step cfg a st"] run_step_counts [of cfg a st] show ?case by (simp add: add.assoc)
qed (simp add: frames_in_def rejects_in_def)

section \<open>What is sent\<close>

definition sent_verified :: "run_config \<Rightarrow> runtime \<Rightarrow> bool" where
  "sent_verified cfg st \<longleftrightarrow> (\<forall>(i, s) \<in> set (rt_sent st).
     \<exists>m. verify (rc_scheme cfg) s (ed_verifying_key (rc_scheme cfg) (rc_signing_key cfg)) = Inr m)"

lemma report_sent: "rt_sent (report_ungoverned ont e st) = rt_sent st"
  by (simp add: report_ungoverned_def Let_def)

lemma publish_sent:
  "rt_sent (publish_or_spool po i s st) = rt_sent st \<or> rt_sent (publish_or_spool po i s st) = rt_sent st @ [(i, s)]"
  by (auto simp: publish_or_spool_def rt_spool_append_def Let_def split: option.split append_outcome.split prod.split)

lemma handle_event_sent:
  "rt_sent (handle_event cfg po e st) = rt_sent st
   \<or> rt_sent (handle_event cfg po e st) = rt_sent st @ [(ev_id (stamp cfg e), seal_event cfg (stamp cfg e))]"
  using publish_sent [of po "ev_id (stamp cfg e)" "seal_event cfg (stamp cfg e)" "report_ungoverned (rc_ontology cfg) (stamp cfg e) st"]
  by (simp add: handle_event_def Let_def report_sent)

lemma handle_events_verified:
  "ed25519_correct (rc_scheme cfg) \<Longrightarrow> sent_verified cfg st \<Longrightarrow> sent_verified cfg (handle_events cfg eps st)"
proof (induction eps arbitrary: st)
  case (Cons ep eps)
  obtain e po where ep: "ep = (e, po)" by force
  have "sent_verified cfg (handle_event cfg po e st)"
    using handle_event_sent [of cfg po e st] Cons.prems verify_seal [OF Cons.prems(1)]
    by (auto simp: sent_verified_def seal_event_def)
  with Cons ep show ?case by simp
qed simp

lemma drain_finish_verified: "sent_verified cfg st \<Longrightarrow> sent_verified cfg (drain_finish cfg oc st)"
  by (auto simp: sent_verified_def drain_finish_def advance_or_keep_def Let_def split: option.splits sum.splits)

lemma run_step_verified:
  "ed25519_correct (rc_scheme cfg) \<Longrightarrow> sent_verified cfg st \<Longrightarrow> sent_verified cfg (run_step cfg a st)"
proof (cases a)
  case (Frame parsed)
  assume "ed25519_correct (rc_scheme cfg)" "sent_verified cfg st"
  with Frame handle_events_verified [of cfg "st\<lparr>rt_metrics := m\<rparr>" for m] show ?thesis
    by (cases parsed) (simp_all add: on_frame_def Let_def sent_verified_def)
next
  case DrainPeek
  assume "sent_verified cfg st"
  with DrainPeek show ?thesis by (simp add: drain_peek_def sent_verified_def split: option.split prod.split)
qed (simp add: drain_finish_verified)

lemma run_verified:
  "ed25519_correct (rc_scheme cfg) \<Longrightarrow> sent_verified cfg st \<Longrightarrow> sent_verified cfg (run cfg as st)"
  by (induction as arbitrary: st) (simp_all add: run_step_verified)

section \<open>Store and forward\<close>

abbreviation acked :: drain_outcome where
  "acked \<equiv> \<lparr>do_js = Acked, do_plain = True\<rparr>"

text \<open>Whole iterations of the drain task while the broker acknowledges.\<close>

fun drain_rounds :: "nat \<Rightarrow> 'e run_action list" where
  "drain_rounds 0 = []"
| "drain_rounds (Suc n) = DrainPeek # DrainFinish acked # drain_rounds n"

definition record_of :: "run_config \<Rightarrow> event \<Rightarrow> spool_record" where
  "record_of cfg e = \<lparr>sr_event_id = ev_id (stamp cfg e), sr_sealed = seal_event cfg (stamp cfg e)\<rparr>"

definition message_of :: "run_config \<Rightarrow> event \<Rightarrow> str \<times> bytes" where
  "message_of cfg e = (ev_id (stamp cfg e), seal_event cfg (stamp cfg e))"

definition record_verifies :: "run_config \<Rightarrow> spool_record \<Rightarrow> bool" where
  "record_verifies cfg r \<longleftrightarrow>
     (\<exists>m. verify (rc_scheme cfg) (sr_sealed r) (ed_verifying_key (rc_scheme cfg) (rc_signing_key cfg)) = Inr m)"

lemma drain_round:
  assumes "rt_spool st = Some sp" "spool_inv sp" "contents sp = r # rs" "rt_inflight st = None" "record_verifies cfg r"
  shows "\<exists>sp' st'. run cfg [DrainPeek, DrainFinish acked] st = st' \<and> rt_spool st' = Some sp' \<and> spool_inv sp'
    \<and> contents sp' = rs \<and> rt_inflight st' = None \<and> rt_sent st' = rt_sent st @ [(sr_event_id r, sr_sealed r)]"
proof -
  obtain sp1 found where p: "peek sp = (sp1, found)" by force
  from peek_advance_spec [OF assms(2) p] assms(3) obtain c sp2 where
    "found = Some (c, r)" "advance c sp1 = Inr sp2" "spool_inv sp2" "contents sp2 = rs" by auto
  with p assms show ?thesis
    by (auto simp: drain_peek_def drain_finish_def record_verifies_def advance_or_keep_def Let_def)
qed

lemma drain_rounds_empty:
  assumes "rt_spool st = Some sp" "spool_inv sp" "contents sp = []" "rt_inflight st = None"
  shows "rt_sent (run cfg (drain_rounds n) st) = rt_sent st"
  using assms
proof (induction n arbitrary: st sp)
  case (Suc n)
  obtain sp' found where p: "peek sp = (sp', found)" by force
  from peek_advance_spec [OF Suc.prems(2) p] Suc.prems(3) have s: "spool_inv sp'" "contents sp' = []" "found = None" by simp_all
  have "run cfg [DrainPeek, DrainFinish acked] st = st\<lparr>rt_spool := Some sp', rt_inflight := None\<rparr>"
    using Suc.prems(1,4) s(3) p by (simp add: drain_peek_def drain_finish_def)
  with Suc.IH [of "st\<lparr>rt_spool := Some sp', rt_inflight := None\<rparr>" sp'] s(1,2) show ?case by simp
qed simp

lemma drain_rounds_deliver:
  assumes "rt_spool st = Some sp" "spool_inv sp" "contents sp = rs" "rt_inflight st = None" "list_all (record_verifies cfg) rs" "length rs \<le> n"
  shows "rt_sent (run cfg (drain_rounds n) st) = rt_sent st @ map (\<lambda>r. (sr_event_id r, sr_sealed r)) rs"
  using assms
proof (induction rs arbitrary: st sp n)
  case Nil
  then show ?case by (simp add: drain_rounds_empty)
next
  case (Cons r rs)
  then obtain n' where n: "n = Suc n'" "length rs \<le> n'" by (cases n) auto
  from drain_round [OF Cons.prems(1-4), of cfg] Cons.prems(5) obtain sp' st' where
    d: "run cfg [DrainPeek, DrainFinish acked] st = st'" "rt_spool st' = Some sp'" "spool_inv sp'" "contents sp' = rs"
      "rt_inflight st' = None" "rt_sent st' = rt_sent st @ [(sr_event_id r, sr_sealed r)]"
    by auto
  from Cons.IH [OF d(2-5) _ n(2)] Cons.prems(5) d(1,6) n(1) show ?case by simp
qed

text \<open>What the tasks do while the link is down: frames are received, their events go to the spool and the writes succeed, and
  what the drain task attempts is not delivered.\<close>

fun outage_action :: "run_config \<Rightarrow> 'e run_action \<Rightarrow> bool" where
  "outage_action cfg (Frame (Inl err)) = True"
| "outage_action cfg (Frame (Inr eps)) =
     list_all (\<lambda>(e, po). \<not> po_connected po \<and> po_append po = AppendOk \<and> valid_record (record_of cfg e)) eps"
| "outage_action cfg DrainPeek = True"
| "outage_action cfg (DrainFinish oc) = (do_js oc \<noteq> Acked \<and> \<not> do_plain oc)"

text \<open>A bounded queue that held \<open>old\<close> and took \<open>new\<close> holds \<open>now\<close>: the oldest \<open>k\<close> are gone, after \<open>j\<close> reports of a drop. Without a
  report none is gone, and the newest never is.\<close>

definition evicted :: "nat \<Rightarrow> nat \<Rightarrow> 'a list \<Rightarrow> 'a list \<Rightarrow> 'a list \<Rightarrow> bool" where
  "evicted k j old new now \<longleftrightarrow> now = drop k (old @ new) \<and> k \<le> length (old @ new) \<and> j \<le> length new \<and> (j = 0 \<longrightarrow> k = 0)
     \<and> (new \<noteq> [] \<longrightarrow> k < length (old @ new))"

lemma evicted_refl: "evicted 0 0 old [] old"
  by (simp add: evicted_def)

lemma evicted_trans:
  assumes "evicted k j old new now" "evicted k' j' now new' now'"
  shows "evicted (k + k') (j + j') old (new @ new') now'"
proof -
  have e: "now = drop k (old @ new)" "k \<le> length (old @ new)" using assms(1) by (simp_all add: evicted_def)
  have "now' = drop k' (drop k (old @ new) @ new')" using assms(2) e by (simp add: evicted_def)
  also have "drop k (old @ new) @ new' = drop k (old @ new @ new')" using e(2) by simp
  finally have "now' = drop (k + k') (old @ new @ new')" by (simp only: drop_drop add.commute)
  with assms e show ?thesis by (cases "new' = []") (auto simp: evicted_def)
qed

definition dropped_segments :: "runtime \<Rightarrow> u64" where
  "dropped_segments st = mt_spool_dropped_segments (rt_metrics st)"

definition outage_inv :: "run_config \<Rightarrow> runtime \<Rightarrow> spool \<Rightarrow> bool" where
  "outage_inv cfg st sp \<longleftrightarrow> rt_spool st = Some sp \<and> spool_inv sp \<and> persisted sp \<and> list_all (record_verifies cfg) (contents sp)
     \<and> (\<forall>c r. rt_inflight st = Some (c, r) \<longrightarrow> record_verifies cfg r)"

definition outage_effect :: "run_config \<Rightarrow> event list \<Rightarrow> runtime \<Rightarrow> spool \<Rightarrow> runtime \<Rightarrow> bool" where
  "outage_effect cfg es st sp st' \<longleftrightarrow> (\<exists>sp' k j. outage_inv cfg st' sp' \<and> evicted k j (contents sp) (map (record_of cfg) es) (contents sp')
     \<and> dropped_segments st' = dropped_segments st + of_nat j \<and> rt_sent st' = rt_sent st)"

lemma outage_effect_trans:
  assumes "outage_effect cfg es st sp st'" "\<And>sp'. outage_inv cfg st' sp' \<Longrightarrow> outage_effect cfg es' st' sp' st''"
  shows "outage_effect cfg (es @ es') st sp st''"
proof -
  from assms(1) obtain sp' k j where 1: "outage_inv cfg st' sp'" "evicted k j (contents sp) (map (record_of cfg) es) (contents sp')"
      "dropped_segments st' = dropped_segments st + of_nat j" "rt_sent st' = rt_sent st"
    by (auto simp: outage_effect_def)
  from assms(2) [OF 1(1)] obtain sp'' k' j' where 2: "outage_inv cfg st'' sp''"
      "evicted k' j' (contents sp') (map (record_of cfg) es') (contents sp'')"
      "dropped_segments st'' = dropped_segments st' + of_nat j'" "rt_sent st'' = rt_sent st'"
    by (auto simp: outage_effect_def)
  have "dropped_segments st'' = dropped_segments st + of_nat (j + j')" using 1(3) 2(3) by (simp add: add.assoc)
  with 1(4) 2(1,4) evicted_trans [OF 1(2) 2(2)] show ?thesis
    unfolding outage_effect_def by (intro exI [of _ sp''] exI [of _ "k + k'"] exI [of _ "j + j'"]) simp
qed

lemma outage_event:
  assumes "ed25519_correct (rc_scheme cfg)" "outage_inv cfg st sp"
    "\<not> po_connected po" "po_append po = AppendOk" "valid_record (record_of cfg e)"
  shows "outage_effect cfg [e] st sp (handle_event cfg po e st)"
proof -
  obtain sp' dropped where a: "spool_append (record_of cfg e) sp = (sp', dropped)" by force
  have i: "rt_spool st = Some sp" "spool_inv sp" "persisted sp" "list_all (record_verifies cfg) (contents sp)"
    using assms(2) by (simp_all add: outage_inv_def)
  from spool_append_spec [OF i(2,3) assms(5) a] obtain k where
    s: "spool_inv sp'" "persisted sp'" "k \<le> length (contents sp)" "contents sp' = drop k (contents sp) @ [record_of cfg e]" "\<not> dropped \<longrightarrow> k = 0"
    by blast
  have "record_verifies cfg (record_of cfg e)"
    using verify_seal [OF assms(1)] by (simp add: record_verifies_def record_of_def seal_event_def)
  with i(4) s(4) have v: "list_all (record_verifies cfg) (contents sp')" by (auto simp: list_all_iff dest: in_set_dropD)
  let ?st = "handle_event cfg po e st"
  have st: "rt_spool ?st = Some sp'" "rt_inflight ?st = rt_inflight st" "rt_sent ?st = rt_sent st"
      "dropped_segments ?st = dropped_segments st + of_nat (of_bool dropped)"
    using i(1) assms(3,4) a
    by (simp_all add: handle_event_def publish_or_spool_def rt_spool_append_def report_ungoverned_def Let_def record_of_def dropped_segments_def)
  have "outage_inv cfg ?st sp'" using assms(2) s(1,2) v st(1,2) by (simp add: outage_inv_def)
  moreover have "evicted k (of_bool dropped) (contents sp) (map (record_of cfg) [e]) (contents sp')"
    using s(3-5) by (auto simp: evicted_def)
  ultimately show ?thesis using st(3,4) unfolding outage_effect_def by blast
qed

lemma outage_events:
  assumes "ed25519_correct (rc_scheme cfg)" "outage_inv cfg st sp" "outage_action cfg (Frame (Inr eps) :: 'e run_action)"
  shows "outage_effect cfg (map fst eps) st sp (handle_events cfg eps st)"
  using assms(2,3)
proof (induction eps arbitrary: st sp)
  case Nil
  then show ?case using evicted_refl by (fastforce simp: outage_effect_def)
next
  case (Cons ep eps)
  obtain e po where ep: "ep = (e, po)" by force
  have "outage_effect cfg [e] st sp (handle_event cfg po e st)"
    using outage_event [OF assms(1) Cons.prems(1)] Cons.prems(2) ep by simp
  then have "outage_effect cfg ([e] @ map fst eps) st sp (handle_events cfg eps (handle_event cfg po e st))"
    by (rule outage_effect_trans) (use Cons.IH Cons.prems(2) in simp)
  with ep show ?case by simp
qed

lemma outage_quiet:
  assumes "outage_inv cfg st' sp'" "contents sp' = contents sp" "rt_sent st' = rt_sent st" "dropped_segments st' = dropped_segments st"
  shows "outage_effect cfg [] st sp st'"
  using assms evicted_refl [of "contents sp"] unfolding outage_effect_def by (intro exI [of _ sp'] exI [of _ 0]) simp

lemma outage_step:
  assumes "ed25519_correct (rc_scheme cfg)" "outage_inv cfg st sp" "outage_action cfg a"
  shows "outage_effect cfg (events_of a) st sp (run_step cfg a st)"
proof (cases a)
  case (Frame parsed)
  define st0 where "st0 = st\<lparr>rt_metrics := (rt_metrics st)\<lparr>mt_received := mt_received (rt_metrics st) + 1\<rparr>\<rparr>"
  have st0: "outage_inv cfg st0 sp" "rt_sent st0 = rt_sent st" "dropped_segments st0 = dropped_segments st"
    using assms(2) by (simp_all add: st0_def outage_inv_def dropped_segments_def)
  show ?thesis
  proof (cases parsed)
    case (Inl err)
    show ?thesis using Frame Inl assms(2)
      by (auto intro!: outage_quiet [where sp' = sp] simp: on_frame_def Let_def outage_inv_def dropped_segments_def)
  next
    case (Inr eps)
    with Frame outage_events [OF assms(1) st0(1)] assms(3) st0(2,3) show ?thesis
      by (simp add: on_frame_def Let_def st0_def [symmetric] outage_effect_def)
  qed
next
  case DrainPeek
  obtain sp' found where p: "peek sp = (sp', found)" by force
  have i: "rt_spool st = Some sp" "spool_inv sp" "persisted sp" "list_all (record_verifies cfg) (contents sp)"
    using assms(2) by (simp_all add: outage_inv_def)
  have "spool_step sp Peeked sp'" using p by (auto intro: spool_step.intros simp: fst_conv [symmetric])
  with peek_step_spec [OF i(2,3)] have s: "spool_inv sp'" "persisted sp'" "contents sp' = contents sp" by blast+
  note f = peek_advance_spec [OF i(2) p]
  have "record_verifies cfg r" if "found = Some (c, r)" for c r
    using f that i(4) by (auto split: list.splits)
  with s i have "outage_inv cfg (drain_peek st) sp'" by (simp add: drain_peek_def p outage_inv_def)
  then have "outage_effect cfg [] st sp (drain_peek st)"
    using s i(1) by (intro outage_quiet [where sp' = sp']) (simp_all add: drain_peek_def p dropped_segments_def)
  moreover have "outage_effect cfg [] st sp st" using assms(2) by (intro outage_quiet) simp_all
  ultimately show ?thesis using DrainPeek by simp
next
  case (DrainFinish oc)
  have "\<exists>m. verify (rc_scheme cfg) (sr_sealed r) (ed_verifying_key (rc_scheme cfg) (rc_signing_key cfg)) = Inr m"
    if "rt_inflight st = Some (c, r)" for c r
    using assms(2) that by (simp add: outage_inv_def record_verifies_def)
  then have "drain_finish cfg oc st = st\<lparr>rt_inflight := None, rt_js_mode := rt_js_mode (drain_finish cfg oc st)\<rparr>"
    using assms(3) DrainFinish by (cases "rt_inflight st") (auto simp: drain_finish_def Let_def split: sum.splits)
  then obtain b where e: "drain_finish cfg oc st = st\<lparr>rt_inflight := None, rt_js_mode := b\<rparr>" ..
  have "outage_effect cfg [] st sp (drain_finish cfg oc st)"
    using assms(2) unfolding e by (intro outage_quiet [where sp' = sp]) (simp_all add: outage_inv_def dropped_segments_def)
  with DrainFinish show ?thesis by simp
qed

lemma drain_finish_idle: "rt_inflight (drain_finish cfg oc st) = None"
  by (simp add: drain_finish_def advance_or_keep_def Let_def split: option.split sum.split prod.split)

lemma run_append: "run cfg (as @ bs) st = run cfg bs (run cfg as st)"
  by (induction as arbitrary: st) simp_all

lemma outage_run:
  assumes "ed25519_correct (rc_scheme cfg)" "outage_inv cfg st sp" "list_all (outage_action cfg) as"
  shows "outage_effect cfg (concat (map events_of as)) st sp (run cfg as st)"
  using assms(2,3)
proof (induction as arbitrary: st sp)
  case Nil
  then show ?case by (simp add: outage_quiet)
next
  case (Cons a as)
  from outage_step [OF assms(1) Cons.prems(1), of a] Cons.prems(2)
  have "outage_effect cfg (events_of a) st sp (run_step cfg a st)" by simp
  then have "outage_effect cfg (events_of a @ concat (map events_of as)) st sp (run cfg as (run_step cfg a st))"
    by (rule outage_effect_trans) (use Cons.IH Cons.prems(2) in simp)
  then show ?case by simp
qed

section \<open>Properties\<close>

text \<open>C2. Store and forward: whatever the spool held when the link went down, and whatever frames are received and deliveries
  attempted until it is back, enough iterations of the drain task with an acknowledging broker send the backlog and then the events of
  the outage, stamped and sealed, in order and once each. Where the spool exceeded its bound the oldest records are missing; then the drops
  were counted, and the newest event is not among them. The spool's records are ones that the connector's key sealed, its files are
  written, an event's record fits its length fields, and no delivery is under way when the outage begins and when it ends.\<close>

theorem store_and_forward:
  assumes "ed25519_correct (rc_scheme cfg)" "rt_spool st = Some sp" "spool_inv sp" "persisted sp" "rt_inflight st = None"
    and "list_all (record_verifies cfg) (contents_from (d_files sp) (sp_cursor sp))"
    and "list_all (outage_action cfg) as" "rt_inflight (run cfg as st) = None"
    and "length (contents_from (d_files sp) (sp_cursor sp)) + length (concat (map events_of as)) \<le> n"
  shows "\<exists>k j. rt_sent (run cfg (as @ drain_rounds n) st)
      = rt_sent st @ drop k (map (\<lambda>r. (sr_event_id r, sr_sealed r)) (contents_from (d_files sp) (sp_cursor sp))
          @ map (message_of cfg) (concat (map events_of as)))
    \<and> mt_spool_dropped_segments (rt_metrics (run cfg as st)) = mt_spool_dropped_segments (rt_metrics st) + of_nat j
    \<and> j \<le> length (concat (map events_of as)) \<and> (j = 0 \<longrightarrow> k = 0)
    \<and> (concat (map events_of as) \<noteq> [] \<longrightarrow> k < length (contents_from (d_files sp) (sp_cursor sp)) + length (concat (map events_of as)))"
proof -
  let ?es = "concat (map events_of as)"
  have "outage_inv cfg st sp" using assms(2-6) by (simp add: outage_inv_def)
  from outage_run [OF assms(1) this assms(7)] obtain sp' k j where
    o: "outage_inv cfg (run cfg as st) sp'" "evicted k j (contents sp) (map (record_of cfg) ?es) (contents sp')"
      "dropped_segments (run cfg as st) = dropped_segments st + of_nat j" "rt_sent (run cfg as st) = rt_sent st"
    by (auto simp: outage_effect_def)
  from o(2) have c: "contents sp' = drop k (contents sp @ map (record_of cfg) ?es)" by (simp add: evicted_def)
  then obtain m where "n = length (contents sp') + m" using assms(9) by (auto intro: that [of "n - length (contents sp')"])
  have "rt_sent (run cfg (drain_rounds n) (run cfg as st)) = rt_sent st @ map (\<lambda>r. (sr_event_id r, sr_sealed r)) (contents sp')"
    using drain_rounds_deliver [of "run cfg as st" sp' "contents sp'" cfg n] o(1,4) assms(8) \<open>n = _\<close> by (simp add: outage_inv_def)
  moreover have "map (\<lambda>r. (sr_event_id r, sr_sealed r)) (map (record_of cfg) ?es) = map (message_of cfg) ?es"
    by (simp add: record_of_def message_of_def)
  ultimately have "rt_sent (run cfg (as @ drain_rounds n) st)
      = rt_sent st @ drop k (map (\<lambda>r. (sr_event_id r, sr_sealed r)) (contents sp) @ map (message_of cfg) ?es)"
    unfolding run_append c by (simp only: drop_map [symmetric] map_append)
  with o(2,3) show ?thesis unfolding evicted_def dropped_segments_def by (intro exI [of _ k] exI [of _ j]) simp
qed

text \<open>C3. Nothing leaves the connector that its own key did not seal: in every interleaving of frames
  and draining, whatever the spool directory holds and whatever the link and the disk do, every
  message sent verifies under the connector's key.\<close>

theorem runtime_sends_verified:
  assumes "ed25519_correct (rc_scheme cfg)"
  shows "list_all (\<lambda>(i, s). \<exists>m. verify (rc_scheme cfg) s (ed_verifying_key (rc_scheme cfg) (rc_signing_key cfg)) = Inr m)
    (rt_sent (run cfg as (run_start sp)))"
  using run_verified [OF assms, of "run_start sp" as] by (simp add: sent_verified_def run_start_def list_all_iff)

text \<open>C8. Every event is accounted for: after any run, the published, shed, spooled and failed events
  add up to the events the parser returned, the received frames are all counted and the rejected
  ones are those the parser refused.\<close>

theorem runtime_accounting:
  "let m = rt_metrics (run cfg as (run_start sp))
   in mt_published m + mt_dropped_backpressure m + mt_spooled m + mt_spool_failed m
        = of_nat (length (concat (map events_of as)))
      \<and> mt_received m = of_nat (frames_in as) \<and> mt_rejected m = of_nat (rejects_in as)"
  using run_counts [of cfg as "run_start sp"] by (simp add: count_defs run_start_def metrics_default_def)


section \<open>Witnesses\<close>

definition ex_run_config :: run_config where
  "ex_run_config = \<lparr>rc_scheme = toy_scheme, rc_encode = (\<lambda>e. as_bytes (ev_id e)), rc_ontology = ONTOLOGY,
     rc_signing_key = [], rc_marking = Some [''class:secret'']\<rparr>"

definition ex_outage :: publish_outcome where
  "ex_outage = \<lparr>po_connected = False, po_published = False, po_append = AppendOk\<rparr>"

definition ex_outage_run :: "unit run_action list" where
  "ex_outage_run = [Frame (Inl ()), DrainPeek, Frame (Inr [(ex_event, ex_outage)]), DrainFinish \<lparr>do_js = NoResponders, do_plain = False\<rparr>, DrainPeek,
     DrainFinish \<lparr>do_js = JsFailed, do_plain = False\<rparr>]"

theorem store_and_forward_witness:
  "rt_sent (run ex_run_config (ex_outage_run @ drain_rounds 3) (run_start (Some ex_spool)))
     = [message_of ex_run_config ex_event]"
proof -
  have c: "ed25519_correct (rc_scheme ex_run_config)" using toy_scheme_correct by (simp add: ex_run_config_def)
  have s: "rt_spool (run_start (Some ex_spool)) = Some ex_spool" "rt_inflight (run_start (Some ex_spool)) = None"
      "rt_sent (run_start (Some ex_spool)) = []"
    by (simp_all add: run_start_def)
  have e: "contents_from (d_files ex_spool) (sp_cursor ex_spool) = []" by code_simp
  have i: "ev_id (stamp ex_run_config ex_event) = ev_id ex_event"
    by (simp add: stamp_def marking_apply_def Let_def split: option.split)
  have "is_str (ev_id ex_event)" "length (ev_id ex_event) < 1000" by code_simp+
  then have "valid_record (record_of ex_run_config ex_event)"
    by (simp add: valid_record_def record_of_def i seal_event_def canonical_bytes_def seal_def ex_run_config_def
        toy_scheme_def toy_tag_def SEAL_SIGNATURE_LEN_def flip: i)
  then have o: "list_all (outage_action ex_run_config) ex_outage_run" by (simp add: ex_outage_run_def ex_outage_def)
  have f: "rt_inflight (run ex_run_config ex_outage_run (run_start (Some ex_spool))) = None"
    by (simp add: ex_outage_run_def drain_finish_idle)
  have "concat (map events_of ex_outage_run) = [ex_event]" by (simp add: ex_outage_run_def)
  with store_and_forward [OF c s(1) _ _ s(2) _ o f, of 3] ex_spool_inv e s(3) show ?thesis by auto
qed

theorem runtime_sends_verified_witness:
  "list_all (\<lambda>(i, s). \<exists>m. verify toy_scheme s (ed_verifying_key toy_scheme []) = Inr m)
     (rt_sent (run ex_run_config [Frame (Inr [(ex_event, \<lparr>po_connected = True, po_published = True, po_append = AppendOk\<rparr>)])] (run_start None)))"
proof -
  have c: "ed25519_correct (rc_scheme ex_run_config)" using toy_scheme_correct by (simp add: ex_run_config_def)
  from runtime_sends_verified [OF c, of "[Frame (Inr [(ex_event, \<lparr>po_connected = True, po_published = True, po_append = AppendOk\<rparr>)])]" None]
  show ?thesis by (simp add: ex_run_config_def)
qed


end
