(* ===== verification/Str_Ops.thy ===== *)
theory Str_Ops
  imports Prelude
begin

text \<open>
  More of the standard library's operations on strings, for the components that read and write text:
  \<open>split_once\<close>, \<open>trim_matches\<close>, comparison without regard to ASCII case, and the laws of \<open>trim\<close> and
  \<open>split_whitespace\<close> on text without white space.
\<close>

section \<open>Operations\<close>

definition eq_ignore_ascii_case :: "str \<Rightarrow> str \<Rightarrow> bool" where
  "eq_ignore_ascii_case a b \<longleftrightarrow> to_ascii_lowercase a = to_ascii_lowercase b"

text \<open>\<open>str::split_once\<close> and \<open>str::trim_matches\<close> with an ASCII character.\<close>

definition split_once :: "char \<Rightarrow> str \<Rightarrow> (str \<times> str) option" where
  "split_once c s = map_option (\<lambda>i. (take i s, drop (Suc i) s)) (find_char c s)"

definition trim_matches :: "char \<Rightarrow> str \<Rightarrow> str" where
  "trim_matches c s = trim_end_char c (dropWhile (\<lambda>x. x = c) s)"

abbreviation USIZE_MAX :: int where
  "USIZE_MAX \<equiv> 18446744073709551615"

abbreviation parse_usize :: "str \<Rightarrow> int option" where
  "parse_usize \<equiv> parse_uint 10 USIZE_MAX"

text \<open>\<open>parse\<close> of a signed type with bounds \<open>mn\<close> and \<open>mx\<close>.\<close>

definition parse_sint :: "int \<Rightarrow> int \<Rightarrow> str \<Rightarrow> int option" where
  "parse_sint mn mx s =
     (case s of
        c # cs \<Rightarrow> if c = CHR ''-''
                  then (if cs = [] then None
                        else Option.bind (digits_val 10 0 cs) (\<lambda>v. if mn \<le> - v then Some (- v) else None))
                  else parse_uint 10 mx s
      | [] \<Rightarrow> None)"

text \<open>\<open>str::split\<close> with a string: at the leftmost matches that do not overlap. The empty pattern matches
  between any two characters and at both ends.\<close>

fun utf8_chars :: "str \<Rightarrow> str list" where
  "utf8_chars [] = []"
| "utf8_chars (c # cs) =
     (case utf8_chars cs of
        (d # ds) # rest \<Rightarrow> if utf8_cont (of_char d) then (c # d # ds) # rest else [c] # (d # ds) # rest
      | _ \<Rightarrow> [[c]])"

function (sequential) split_from :: "str \<Rightarrow> str \<Rightarrow> str \<Rightarrow> str list" where
  "split_from d cur [] = [rev cur]"
| "split_from d cur (c # cs) =
     (if d \<noteq> [] \<and> prefix d (c # cs) then rev cur # split_from d [] (drop (length d) (c # cs))
      else split_from d (c # cur) cs)"
  by pat_completeness auto
termination by (relation "measure (\<lambda>(d, cur, s). length s)") auto

definition split_str :: "str \<Rightarrow> str \<Rightarrow> str list" where
  "split_str d s = (if d = [] then [[]] @ utf8_chars s @ [[]] else split_from d [] s)"

section \<open>Laws\<close>

lemma split_once_append: "c \<notin> set a \<Longrightarrow> split_once c (a @ c # b) = Some (a, b)"
proof -
  assume "c \<notin> set a"
  then have "find_char c (a @ c # b) = Some (length a)" unfolding find_char_Some_iff by blast
  then show ?thesis by (simp add: split_once_def)
qed

text \<open>Text of printable ASCII characters other than the space has no white space.\<close>

definition is_graphic :: "char \<Rightarrow> bool" where
  "is_graphic c \<longleftrightarrow> (33::int) \<le> of_char c \<and> of_char c \<le> (126::int)"

lemma white_space_no_graphic: "list_all (\<lambda>w. w \<noteq> [] \<and> \<not> is_graphic (hd w) \<and> \<not> is_graphic (last w)) white_space"
  by code_simp

lemma starts_white_graphic: "is_graphic c \<Longrightarrow> \<not> starts_white (c # cs)"
  using white_space_no_graphic
  by (auto simp: starts_white_def find_None_iff list_all_iff prefix_Cons)

lemma trim_start_graphic: "is_graphic c \<Longrightarrow> trim_start (c # cs) = c # cs"
  using starts_white_graphic [of c cs] by (subst trim_start.simps) (simp add: starts_white_def)

lemma trim_end_graphic: "is_graphic c \<Longrightarrow> trim_end (cs @ [c]) = cs @ [c]"
proof -
  assume c: "is_graphic c"
  have "\<not> suffix w (cs @ [c])" if "w \<in> set white_space" for w
  proof
    assume "suffix w (cs @ [c])"
    moreover have "w \<noteq> []" "\<not> is_graphic (last w)" using white_space_no_graphic that by (auto simp: list_all_iff)
    ultimately show False using c by (auto simp: suffix_def dest: arg_cong [where f = last])
  qed
  then have "find (\<lambda>w. suffix w (cs @ [c])) white_space = None" by (auto simp: find_None_iff)
  then show ?thesis by (subst trim_end.simps) simp
qed

lemma trim_Nil: "trim [] = []"
  by (simp add: trim_def trim_start.simps [of "[]"] trim_end.simps [of "[]"] white_space_def)

lemma trim_ends:
  assumes "s \<noteq> []" "is_graphic (hd s)" "is_graphic (last s)"
  shows "trim s = s"
proof -
  from assms(1,2) have "trim_start s = s" by (cases s) (simp_all add: trim_start_graphic)
  moreover have "trim_end s = s" using trim_end_graphic [OF assms(3), of "butlast s"] assms(1) by simp
  ultimately show ?thesis by (simp add: trim_def)
qed

lemma trim_graphic: "list_all is_graphic s \<Longrightarrow> trim s = s"
  by (cases "s = []") (simp_all add: trim_Nil trim_ends list_all_iff)

lemma trim_space_graphic: "list_all is_graphic s \<Longrightarrow> trim (CHR '' '' # s) = s"
proof (cases s)
  case (Cons c cs)
  assume s: "list_all is_graphic s"
  with Cons have "trim_start (CHR '' '' # s) = s" by (intro trim_start_space) (simp add: starts_white_graphic)
  then show ?thesis using trim_graphic [OF s] Cons s by (simp add: trim_def trim_start_graphic)
qed (simp add: trim_def trim_start_space trim_start.simps [of "[]"] trim_end.simps [of "[]"] white_space_def starts_white_def)

lemma ws_word_graphic: "list_all is_graphic s \<Longrightarrow> ws_word (s @ rest) = s @ ws_word rest"
  by (induction s) (auto simp: starts_white_graphic)

lemma split_whitespace_Nil: "split_whitespace [] = []"
  by (subst split_whitespace.simps) (simp add: trim_start.simps white_space_def)

lemma split_whitespace_graphic:
  assumes "s \<noteq> []" "list_all is_graphic s"
  shows "split_whitespace (s @ CHR '' '' # rest) = s # split_whitespace (CHR '' '' # rest)"
proof -
  have "trim_start (s @ CHR '' '' # rest) = s @ CHR '' '' # rest"
    using assms by (cases s) (auto simp: trim_start_graphic)
  moreover have "ws_word (s @ CHR '' '' # rest) = s" using ws_word_graphic [OF assms(2)] by simp
  ultimately show ?thesis using assms(1) by (subst split_whitespace.simps) simp
qed

lemma split_whitespace_skip:
  assumes "\<not> starts_white s"
  shows "split_whitespace (CHR '' '' # s) = split_whitespace s"
proof -
  have "trim_start s = s" using assms by (subst trim_start.simps) (simp add: starts_white_def)
  then show ?thesis
    using trim_start_space [OF assms] by (simp add: split_whitespace.simps [of "CHR '' '' # s"] split_whitespace.simps [of s])
qed

lemma graphic_byte: "is_graphic c \<Longrightarrow> (of_char c :: u8) < 0x80"
proof -
  assume "is_graphic c"
  then have "uint (of_char c :: u8) < 128" by (simp add: is_graphic_def uint_of_char)
  then show ?thesis by (simp add: word_less_def)
qed

text \<open>Splitting undoes joining when the pieces do not contain the first character of the separator.\<close>

lemma split_from_piece:
  "hd d \<notin> set v \<Longrightarrow> d \<noteq> [] \<Longrightarrow> split_from d cur (v @ rest) = split_from d (rev v @ cur) rest"
proof (induction v arbitrary: cur)
  case (Cons c v)
  then have "\<not> prefix d (c # v @ rest)" by (cases d) auto
  with Cons show ?case by simp
qed simp

lemma split_str_join:
  assumes "d \<noteq> []" "vs \<noteq> []" "list_all (\<lambda>v. hd d \<notin> set v) vs"
  shows "split_str d (join d vs) = vs"
proof -
  have "split_from d [] (join d vs) = vs"
    using assms(2,3)
  proof (induction vs rule: list_nonempty_induct)
    case (single v)
    then show ?case using split_from_piece [of d v "[]" "[]"] assms(1) by simp
  next
    case (cons v vs)
    then obtain w ws where w: "vs = w # ws" by (cases vs) auto
    have "split_from d (rev v) (d @ join d vs) = v # split_from d [] (join d vs)"
      using assms(1) by (cases d) simp_all
    then show ?case
      using cons w split_from_piece [of d v "[]" "d @ join d vs"] assms(1) by simp
  qed
  then show ?thesis using assms(1) by (simp add: split_str_def)
qed

end
