(* ===== verification/Http_Server.thy ===== *)
theory Http_Server
  imports Str_Ops
begin

text \<open>
  The HTTP server transport, \<open>common/src/http_server.rs\<close>: requests are read from a connection, each
  accepted body is one frame of the channel that the runtime reads.

  A connection is what its peer sends, as the record \<open>http_reader\<close>: the bytes still to come and
  whether the stream breaks off after them instead of ending. \<open>read_until\<close> and \<open>read_exact\<close> of a
  \<open>BufReader\<close> do not depend on how the bytes arrive. Timeouts and failures to write are the record
  \<open>request_env\<close>, an argument of each request. The server as a whole is the step relation
  \<open>http_step\<close>: any connection serves its next request, or the runtime takes the next frame.
\<close>

section \<open>Settings, outcomes and the reader\<close>

definition MAX_FRAME :: nat where "MAX_FRAME = 64 * 1024"
definition CHANNEL_FRAMES :: nat where "CHANNEL_FRAMES = 256"
definition MAX_HEADER_BYTES :: nat where "MAX_HEADER_BYTES = 16 * 1024"
definition MAX_HEADERS :: nat where "MAX_HEADERS = 64"
definition RETRY_AFTER_SECS :: int where "RETRY_AFTER_SECS = 1"

record http_settings =
  se_path :: str
  se_token :: "str option"

datatype http_outcome =
  Accepted | BadRequest | Unauthorized | NotFound | MethodNotAllowed | PayloadTooLarge | NotImplemented | Saturated

fun http_status :: "http_outcome \<Rightarrow> int \<times> str" where
  "http_status Accepted = (204, ''No Content'')"
| "http_status BadRequest = (400, ''Bad Request'')"
| "http_status Unauthorized = (401, ''Unauthorized'')"
| "http_status NotFound = (404, ''Not Found'')"
| "http_status MethodNotAllowed = (405, ''Method Not Allowed'')"
| "http_status PayloadTooLarge = (413, ''Payload Too Large'')"
| "http_status NotImplemented = (501, ''Not Implemented'')"
| "http_status Saturated = (503, ''Service Unavailable'')"

record http_reader =
  hr_bytes :: bytes
  hr_broken :: bool

text \<open>\<open>AsyncBufReadExt::read_until\<close> for a newline and \<open>AsyncReadExt::read_exact\<close>; \<open>None\<close> is an error.\<close>

definition read_until_nl :: "http_reader \<Rightarrow> bytes option \<times> http_reader" where
  "read_until_nl r =
     (case position (\<lambda>b. b = 10) (hr_bytes r) of
        Some i \<Rightarrow> (Some (take (Suc i) (hr_bytes r)), r\<lparr>hr_bytes := drop (Suc i) (hr_bytes r)\<rparr>)
      | None \<Rightarrow> (if hr_broken r then None else Some (hr_bytes r), r\<lparr>hr_bytes := []\<rparr>))"

definition hr_read_exact :: "nat \<Rightarrow> http_reader \<Rightarrow> bytes option \<times> http_reader" where
  "hr_read_exact n r =
     (if n \<le> length (hr_bytes r)
      then (Some (take n (hr_bytes r)), r\<lparr>hr_bytes := drop n (hr_bytes r)\<rparr>)
      else (None, r\<lparr>hr_bytes := []\<rparr>))"

text \<open>The sequence of two reads, the second one only when the first succeeds.\<close>

definition hr_bind ::
  "(http_outcome + 'a) \<times> http_reader \<Rightarrow> ('a \<Rightarrow> http_reader \<Rightarrow> (http_outcome + 'b) \<times> http_reader)
   \<Rightarrow> (http_outcome + 'b) \<times> http_reader" where
  "hr_bind m f = (case m of (Inl e, r) \<Rightarrow> (Inl e, r) | (Inr x, r) \<Rightarrow> f x r)"

lemma hr_bind_simps [simp]: "hr_bind (Inl e, r) f = (Inl e, r)" "hr_bind (Inr x, r) f = f x r"
  by (simp_all add: hr_bind_def)

lemma hr_bind_cong [fundef_cong]:
  "m = m' \<Longrightarrow> (\<And>x r. m' = (Inr x, r) \<Longrightarrow> f x r = g x r) \<Longrightarrow> hr_bind m f = hr_bind m' g"
  by (auto simp: hr_bind_def split: prod.splits sum.splits)

section \<open>The parts of a request\<close>

text \<open>\<open>read_line\<close>: the line without its CRLF, and what is left of the head budget.\<close>

definition pop_crlf :: "bytes \<Rightarrow> bytes" where
  "pop_crlf raw = rev (dropWhile (\<lambda>b. b = 10 \<or> b = 13) (rev raw))"

definition http_read_line :: "nat \<Rightarrow> http_reader \<Rightarrow> (http_outcome + str \<times> nat) \<times> http_reader" where
  "http_read_line budget r =
     (case read_until_nl r of
        (None, r') \<Rightarrow> (Inl BadRequest, r')
      | (Some raw, r') \<Rightarrow>
          (if raw = [] then Inl BadRequest
           else if budget < length raw then Inl BadRequest
           else case from_utf8 (pop_crlf raw) of
                  None \<Rightarrow> Inl BadRequest
                | Some s \<Rightarrow> Inr (s, budget - length raw), r'))"

definition normalise_path :: "str \<Rightarrow> str" where
  "normalise_path path =
     (let trimmed = trim_matches CHR ''/'' (trim path)
      in if trimmed = [] then ''/'' else CHR ''/'' # trimmed)"

record http_head =
  hd_method_allowed :: bool
  hd_path :: str
  hd_content_length :: "nat option"
  hd_chunked :: bool
  hd_expect_continue :: bool
  hd_token :: "str option"

definition request_head :: "str \<Rightarrow> http_outcome + http_head" where
  "request_head line =
     (let parts = split_whitespace line;
          meth = (case slice_get parts 0 of Some p \<Rightarrow> p | None \<Rightarrow> []);
          target = (case slice_get parts 1 of Some p \<Rightarrow> p | None \<Rightarrow> [])
      in if meth = [] \<or> target = [] then Inl BadRequest
         else Inr \<lparr>hd_method_allowed = eq_ignore_ascii_case meth ''POST'' \<or> eq_ignore_ascii_case meth ''PUT'',
                   hd_path = normalise_path (takeWhile (\<lambda>c. c \<noteq> CHR ''?'' \<and> c \<noteq> CHR ''#'') target),
                   hd_content_length = None, hd_chunked = False, hd_expect_continue = False, hd_token = None\<rparr>)"

definition header_line :: "str \<Rightarrow> http_head \<Rightarrow> http_outcome + http_head" where
  "header_line line h =
     (case split_once CHR '':'' line of
        None \<Rightarrow> Inl BadRequest
      | Some (name, raw) \<Rightarrow>
          (let v = trim raw in
           if eq_ignore_ascii_case name ''content-length'' then
             try_bind (ok_or BadRequest (parse_usize v)) (\<lambda>n. Inr (h\<lparr>hd_content_length := Some (nat n)\<rparr>))
           else if eq_ignore_ascii_case name ''transfer-encoding'' then
             (if eq_ignore_ascii_case v ''chunked'' then Inr (h\<lparr>hd_chunked := True\<rparr>) else Inl NotImplemented)
           else if eq_ignore_ascii_case name ''expect'' then
             Inr (h\<lparr>hd_expect_continue := eq_ignore_ascii_case v ''100-continue''\<rparr>)
           else if eq_ignore_ascii_case name ''x-ajar-token'' then Inr (h\<lparr>hd_token := Some v\<rparr>)
           else Inr h))"

fun read_headers :: "nat \<Rightarrow> nat \<Rightarrow> http_head \<Rightarrow> http_reader \<Rightarrow> (http_outcome + http_head) \<times> http_reader" where
  "read_headers 0 budget h r = (Inl BadRequest, r)"
| "read_headers (Suc n) budget h r =
     hr_bind (http_read_line budget r) (\<lambda>(line, left) r'.
       if line = [] then (Inr h, r')
       else case header_line line h of Inl e \<Rightarrow> (Inl e, r') | Inr h' \<Rightarrow> read_headers n left h' r')"

definition read_head :: "http_reader \<Rightarrow> (http_outcome + http_head) \<times> http_reader" where
  "read_head r =
     hr_bind (http_read_line MAX_HEADER_BYTES r) (\<lambda>(line, budget) r'.
       case request_head line of Inl e \<Rightarrow> (Inl e, r') | Inr h \<Rightarrow> read_headers MAX_HEADERS budget h r')"

section \<open>The body\<close>

lemma http_read_line_consumes:
  "http_read_line budget r = (Inr x, r') \<Longrightarrow> length (hr_bytes r') < length (hr_bytes r)"
  by (auto simp: http_read_line_def read_until_nl_def dest: position_less split: option.splits if_splits prod.splits)

lemma hr_read_exact_length: "hr_read_exact n r = (x, r') \<Longrightarrow> length (hr_bytes r') \<le> length (hr_bytes r)"
  by (auto simp: hr_read_exact_def split: if_splits)

text \<open>The trailers of a chunked body, up to the blank line.\<close>

function (sequential) skip_trailers :: "nat \<Rightarrow> http_reader \<Rightarrow> (http_outcome + unit) \<times> http_reader" where
  "skip_trailers budget r =
     hr_bind (http_read_line budget r) (\<lambda>got r'.
       if fst got = [] then (Inr (), r') else skip_trailers (snd got) r')"
  by pat_completeness auto
termination
  by (relation "measure (\<lambda>(budget, r). length (hr_bytes r))") (auto dest: http_read_line_consumes)

function (sequential) read_chunks :: "bytes \<Rightarrow> http_reader \<Rightarrow> (http_outcome + bytes) \<times> http_reader" where
  "read_chunks body r =
     hr_bind (http_read_line MAX_HEADER_BYTES r) (\<lambda>got r1.
       case parse_uint 16 USIZE_MAX (trim (takeWhile (\<lambda>c. c \<noteq> CHR '';'') (fst got))) of
         None \<Rightarrow> (Inl BadRequest, r1)
       | Some n \<Rightarrow>
           (let len = nat n in
            if len = 0 then hr_bind (skip_trailers MAX_HEADER_BYTES r1) (\<lambda>_ r2. (Inr body, r2))
            else if MAX_FRAME < min (length body + len) (nat USIZE_MAX) then (Inl PayloadTooLarge, r1)
            else case hr_read_exact len r1 of
                   (None, r2) \<Rightarrow> (Inl BadRequest, r2)
                 | (Some chunk, r2) \<Rightarrow>
                     hr_bind (http_read_line MAX_HEADER_BYTES r2) (\<lambda>_ r3. read_chunks (body @ chunk) r3)))"
  by pat_completeness auto
termination
proof (relation "measure (\<lambda>(body, r). length (hr_bytes r))")
qed (force dest: http_read_line_consumes hr_read_exact_length [OF sym])+

declare skip_trailers.simps [simp del] read_chunks.simps [simp del]

definition read_chunked :: "http_reader \<Rightarrow> (http_outcome + bytes) \<times> http_reader" where
  "read_chunked r = read_chunks [] r"

definition read_body :: "http_head \<Rightarrow> http_reader \<Rightarrow> (http_outcome + bytes) \<times> http_reader" where
  "read_body h r =
     (if hd_chunked h then read_chunked r
      else case hr_read_exact (case hd_content_length h of Some n \<Rightarrow> n | None \<Rightarrow> 0) r of
             (None, r') \<Rightarrow> (Inl BadRequest, r')
           | (Some body, r') \<Rightarrow> (Inr body, r'))"

section \<open>Serving a request\<close>

definition secret_eq :: "bytes \<Rightarrow> bytes \<Rightarrow> bool" where
  "secret_eq a b \<longleftrightarrow>
     length a = length b \<and> foldl (\<lambda>acc (x, y). acc OR (x XOR y)) 0 (zip a b) = 0"

text \<open>The channel to the runtime, a bounded \<open>mpsc\<close> queue; it is closed when the receiver is gone.\<close>

record http_channel =
  ch_frames :: "bytes list"
  ch_closed :: bool

datatype send_result = Sent | Full | Closed

definition try_send :: "http_channel \<Rightarrow> send_result" where
  "try_send ch = (if ch_closed ch then Closed else if CHANNEL_FRAMES \<le> length (ch_frames ch) then Full else Sent)"

text \<open>\<open>serve\<close> yields the outcome, whether the connection may carry another request, the frame put into
  the channel if any, and the rest of the stream. \<open>cont_ok\<close> tells whether the interim response could
  be written.\<close>

definition serve ::
  "http_settings \<Rightarrow> bool \<Rightarrow> http_channel \<Rightarrow> http_reader \<Rightarrow> (http_outcome \<times> bool) \<times> bytes option \<times> http_reader" where
  "serve S cont_ok ch r =
     (case read_head r of
        (Inl e, r1) \<Rightarrow> ((e, False), None, r1)
      | (Inr h, r1) \<Rightarrow>
          if hd_path h \<noteq> se_path S then ((NotFound, False), None, r1)
          else if \<not> hd_method_allowed h then ((MethodNotAllowed, False), None, r1)
          else if (case se_token S of
                     Some expected \<Rightarrow> \<not> secret_eq (as_bytes expected) (as_bytes (case hd_token h of Some t \<Rightarrow> t | None \<Rightarrow> []))
                   | None \<Rightarrow> False) then ((Unauthorized, False), None, r1)
          else if (case hd_content_length h of Some n \<Rightarrow> MAX_FRAME < n | None \<Rightarrow> False)
            then ((PayloadTooLarge, False), None, r1)
          else if hd_content_length h = None \<and> \<not> hd_chunked h then ((Accepted, True), None, r1)
          else if hd_expect_continue h \<and> \<not> cont_ok then ((BadRequest, False), None, r1)
          else case read_body h r1 of
                 (Inl e, r2) \<Rightarrow> ((e, False), None, r2)
               | (Inr body, r2) \<Rightarrow>
                   (case try_send ch of
                      Sent \<Rightarrow> ((Accepted, True), Some body, r2)
                    | Full \<Rightarrow> ((Saturated, True), None, r2)
                    | Closed \<Rightarrow> ((Saturated, False), None, r2)))"

definition crlf :: str where
  "crlf = [CHR 0x0D, CHR 0x0A]"

definition respond :: "http_outcome \<Rightarrow> bool \<Rightarrow> str" where
  "respond outcome reusable =
     (case http_status outcome of (code, reason) \<Rightarrow>
        ''HTTP/1.1 '' @ show_int code @ '' '' @ reason @ crlf @ ''Content-Length: 0'' @ crlf
        @ ''Connection: '' @ (if reusable then ''keep-alive'' else ''close'') @ crlf
        @ (if outcome = Saturated then ''Retry-After: '' @ show_int RETRY_AFTER_SECS @ crlf else [])
        @ (if outcome = MethodNotAllowed then ''Allow: POST, PUT'' @ crlf else [])
        @ crlf)"

section \<open>Connections and the server\<close>

record http_conn =
  co_reader :: http_reader
  co_open :: bool
  co_written :: str

record request_env =
  re_idle :: bool
  re_timeout :: bool
  re_continue_ok :: bool
  re_respond_ok :: bool

text \<open>One round of \<open>connection_loop\<close>: the connection afterwards and the frame queued. A request that
  times out is dropped before its body is queued, since nothing is awaited after \<open>try_send\<close>.\<close>

definition connection_round ::
  "http_settings \<Rightarrow> request_env \<Rightarrow> http_channel \<Rightarrow> http_conn \<Rightarrow> http_conn \<times> bytes option" where
  "connection_round S env ch c =
     (if re_idle env \<or> hr_bytes (co_reader c) = [] \<or> re_timeout env then (c\<lparr>co_open := False\<rparr>, None)
      else case serve S (re_continue_ok env) ch (co_reader c) of
             ((outcome, reusable), frame, r) \<Rightarrow>
               (c\<lparr>co_reader := r, co_open := re_respond_ok env \<and> reusable,
                  co_written := co_written c @ (if re_respond_ok env then respond outcome reusable else [])\<rparr>, frame))"

text \<open>\<open>hs_queued\<close> and \<open>hs_received\<close> record the frames ever queued and ever handed to the runtime.\<close>

record http_server =
  hs_channel :: http_channel
  hs_conns :: "nat \<Rightarrow> http_conn option"
  hs_queued :: "bytes list"
  hs_received :: "bytes list"

definition http_start :: http_server where
  "http_start = \<lparr>hs_channel = \<lparr>ch_frames = [], ch_closed = False\<rparr>, hs_conns = Map.empty, hs_queued = [], hs_received = []\<rparr>"

definition queue_frame :: "bytes option \<Rightarrow> http_channel \<Rightarrow> http_channel" where
  "queue_frame f ch = (case f of Some b \<Rightarrow> ch\<lparr>ch_frames := ch_frames ch @ [b]\<rparr> | None \<Rightarrow> ch)"

text \<open>\<open>recv\<close> copies what fits the buffer.\<close>

definition http_recv :: "nat \<Rightarrow> http_channel \<Rightarrow> (bytes \<times> http_channel) option" where
  "http_recv buf_len ch =
     (case ch_frames ch of
        frame # rest \<Rightarrow> Some (take (min (length frame) buf_len) frame, ch\<lparr>ch_frames := rest\<rparr>)
      | [] \<Rightarrow> None)"

inductive http_step :: "http_settings \<Rightarrow> http_server \<Rightarrow> http_server \<Rightarrow> bool" for S where
  http_accept: "hs_conns s i = None \<Longrightarrow>
     http_step S s (s\<lparr>hs_conns := (hs_conns s)(i \<mapsto> \<lparr>co_reader = r, co_open = True, co_written = []\<rparr>)\<rparr>)"
| http_request: "hs_conns s i = Some c \<Longrightarrow> co_open c \<Longrightarrow> connection_round S env (hs_channel s) c = (c', frame) \<Longrightarrow>
     http_step S s (s\<lparr>hs_channel := queue_frame frame (hs_channel s), hs_conns := (hs_conns s)(i \<mapsto> c'),
                      hs_queued := hs_queued s @ (case frame of Some b \<Rightarrow> [b] | None \<Rightarrow> [])\<rparr>)"
| http_receive: "http_recv MAX_FRAME (hs_channel s) = Some (f, ch) \<Longrightarrow>
     http_step S s (s\<lparr>hs_channel := ch, hs_received := hs_received s @ [f]\<rparr>)"
| http_close: "http_step S s (s\<lparr>hs_channel := (hs_channel s)\<lparr>ch_closed := True\<rparr>\<rparr>)"

inductive http_reachable :: "http_settings \<Rightarrow> http_server \<Rightarrow> bool" for S where
  reach_start: "http_reachable S http_start"
| reach_step: "http_reachable S s \<Longrightarrow> http_step S s s' \<Longrightarrow> http_reachable S s'"

section \<open>Opening the listener\<close>

text \<open>\<open>open\<close>: the outcome of reading the certificates and of binding are parameters.\<close>

record http_tls =
  tl_cert :: "str option"
  tl_key :: "str option"
  tl_client_ca :: "str option"

datatype http_open_error = BadTls | CaWithoutTls | TokenWithoutTls | HalfPair | BindFailed

definition http_open ::
  "(str \<Rightarrow> str \<Rightarrow> str option \<Rightarrow> bool) \<Rightarrow> bool \<Rightarrow> str \<Rightarrow> str option \<Rightarrow> http_tls \<Rightarrow> http_open_error + http_settings \<times> str" where
  "http_open tls_acceptor bind_ok path token tls =
     try_bind
       (case (tl_cert tls, tl_key tls) of
          (Some cert, Some key) \<Rightarrow> if tls_acceptor cert key (tl_client_ca tls) then Inr True else Inl BadTls
        | (None, None) \<Rightarrow> if tl_client_ca tls \<noteq> None then Inl CaWithoutTls
                         else if token \<noteq> None then Inl TokenWithoutTls else Inr False
        | _ \<Rightarrow> Inl HalfPair)
       (\<lambda>acceptor. if \<not> bind_ok then Inl BindFailed
          else Inr (\<lparr>se_path = normalise_path path, se_token = token\<rparr>,
                    if acceptor then (if tl_client_ca tls \<noteq> None then ''https+mtls'' else ''https'') else ''http''))"

section \<open>What a served request may do\<close>

lemma or_eq_0_iff: "(a OR b :: u8) = 0 \<longleftrightarrow> a = 0 \<and> b = 0"
  by (auto simp: bit_eq_iff bit_simps)

lemma xor_eq_0_iff: "(a XOR b :: u8) = 0 \<longleftrightarrow> a = b"
  by (auto simp: bit_eq_iff bit_simps)

lemma secret_fold: "foldl (\<lambda>acc (x, y). acc OR (x XOR y :: u8)) acc ps = 0 \<longleftrightarrow> acc = 0 \<and> (\<forall>(x, y) \<in> set ps. x = y)"
  by (induction ps arbitrary: acc) (auto simp: or_eq_0_iff xor_eq_0_iff)

lemma secret_eq_iff: "secret_eq a b \<longleftrightarrow> a = b"
proof -
  have "(\<forall>(x, y) \<in> set (zip a b). x = y) \<longleftrightarrow> a = b" if "length a = length b"
    using that by (induction rule: list_induct2) auto
  then show ?thesis by (auto simp: secret_eq_def secret_fold)
qed

lemma read_chunks_bounded:
  "read_chunks body r = (Inr b, r') \<Longrightarrow> length body \<le> MAX_FRAME \<Longrightarrow> length b \<le> MAX_FRAME"
proof (induction body r rule: read_chunks.induct)
  case (1 body r)
  note IH = "1.IH"
  from "1.prems"(1) obtain got r1 where r1: "http_read_line MAX_HEADER_BYTES r = (Inr got, r1)"
    by (subst (asm) read_chunks.simps) (auto simp: hr_bind_def split: prod.splits sum.splits)
  with "1.prems"(1) obtain n where n: "parse_uint 16 USIZE_MAX (trim (takeWhile (\<lambda>c. c \<noteq> CHR '';'') (fst got))) = Some n"
    by (subst (asm) read_chunks.simps) (auto split: option.splits)
  show ?case
  proof (cases "nat n = 0")
    case True
    with "1.prems" r1 n show ?thesis
      by (subst (asm) read_chunks.simps) (auto simp: hr_bind_def split: prod.splits sum.splits)
  next
    case False
    note more = "1.prems"(1) [unfolded read_chunks.simps [of body r] r1 hr_bind_simps n option.case Let_def if_not_P [OF False]]
    then have fits: "\<not> MAX_FRAME < min (length body + nat n) (nat USIZE_MAX)" by (auto split: if_splits)
    from more fits obtain chunk r2 where r2: "hr_read_exact (nat n) r1 = (Some chunk, r2)"
      by (auto split: prod.splits option.splits)
    from more fits r2 obtain end_line r3 where r3: "http_read_line MAX_HEADER_BYTES r2 = (Inr end_line, r3)"
        "read_chunks (body @ chunk) r3 = (Inr b, r')"
      by (auto simp: hr_bind_def split: prod.splits sum.splits)
    have "length chunk = nat n" using r2 by (auto simp: hr_read_exact_def split: if_splits)
    with fits have "length (body @ chunk) \<le> MAX_FRAME" by (auto simp: MAX_FRAME_def min_def split: if_splits)
    then show ?thesis using IH [OF r1 n refl False fits r2 [symmetric] refl r3(1)] r3(2) by blast
  qed
qed

definition authorised :: "http_settings \<Rightarrow> http_head \<Rightarrow> bool" where
  "authorised S h \<longleftrightarrow> hd_path h = se_path S \<and> hd_method_allowed h
     \<and> (case se_token S of None \<Rightarrow> True | Some t \<Rightarrow> hd_token h = Some t \<or> t = [] \<and> hd_token h = None)"

definition announced_ok :: "http_head \<Rightarrow> bool" where
  "announced_ok h \<longleftrightarrow> (case hd_content_length h of Some n \<Rightarrow> n \<le> MAX_FRAME | None \<Rightarrow> hd_chunked h)"

lemma as_bytes_Nil_iff: "as_bytes s = [] \<longleftrightarrow> s = []"
  by (simp add: as_bytes_def)

lemma serve_frame_iff:
  "fst (snd (serve S ok ch r)) = Some body \<longleftrightarrow>
     (\<exists>h r1. read_head r = (Inr h, r1) \<and> authorised S h \<and> announced_ok h \<and> (hd_expect_continue h \<longrightarrow> ok)
        \<and> fst (read_body h r1) = Inr body \<and> try_send ch = Sent)"
  unfolding serve_def
  by (auto simp: authorised_def announced_ok_def secret_eq_iff as_bytes_eq_iff as_bytes_Nil_iff
      split: prod.splits sum.splits option.splits send_result.splits if_splits)

lemma read_body_bounded: "fst (read_body h r) = Inr body \<Longrightarrow> announced_ok h \<Longrightarrow> length body \<le> MAX_FRAME"
  using read_chunks_bounded [of "[]" r body]
  by (cases "read_chunks [] r")
    (auto simp: read_body_def read_chunked_def announced_ok_def hr_read_exact_def split: if_splits option.splits)

lemma serve_bounded: "fst (snd (serve S ok ch r)) = Some body \<Longrightarrow> length body \<le> MAX_FRAME"
  by (auto simp: serve_frame_iff dest: read_body_bounded)

section \<open>The server as a whole\<close>

text \<open>A frame that came with a request the settings admit.\<close>

definition admitted :: "http_settings \<Rightarrow> bytes \<Rightarrow> bool" where
  "admitted S b \<longleftrightarrow> (\<exists>r h r1. read_head r = (Inr h, r1) \<and> authorised S h \<and> fst (read_body h r1) = Inr b \<and> length b \<le> MAX_FRAME)"

definition http_inv :: "http_settings \<Rightarrow> http_server \<Rightarrow> bool" where
  "http_inv S s \<longleftrightarrow> length (ch_frames (hs_channel s)) \<le> CHANNEL_FRAMES
     \<and> list_all (admitted S) (hs_queued s)
     \<and> hs_queued s = hs_received s @ ch_frames (hs_channel s)"

inductive_cases http_stepE: "http_step S s s'"

lemma connection_round_frame:
  assumes "connection_round S env ch c = (c', Some b)"
  shows "admitted S b" "length (ch_frames ch) < CHANNEL_FRAMES"
proof -
  from assms have f: "fst (snd (serve S (re_continue_ok env) ch (co_reader c))) = Some b"
    by (auto simp: connection_round_def split: if_splits prod.splits)
  from f [unfolded serve_frame_iff] serve_bounded [OF f] show "admitted S b" unfolding admitted_def by blast
  from f show "length (ch_frames ch) < CHANNEL_FRAMES"
    by (auto simp: serve_frame_iff try_send_def not_le split: if_splits)
qed

lemma http_inv_step:
  assumes "http_step S s s'" "http_inv S s"
  shows "http_inv S s'"
  using assms
proof cases
  case (http_request i c env c' frame)
  then show ?thesis
    using assms(2) connection_round_frame [of S env "hs_channel s" c c']
    by (cases frame) (auto simp: http_inv_def queue_frame_def)
next
  case (http_receive f ch)
  then obtain b rest where b: "ch_frames (hs_channel s) = b # rest" "f = take (min (length b) MAX_FRAME) b"
      "ch = (hs_channel s)\<lparr>ch_frames := rest\<rparr>"
    by (auto simp: http_recv_def split: list.splits)
  with assms(2) have "admitted S b" by (auto simp: http_inv_def)
  then have "f = b" using b by (auto simp: admitted_def)
  then show ?thesis using assms(2) b http_receive by (auto simp: http_inv_def)
qed (auto simp: http_inv_def)

lemma http_reachable_inv: "http_reachable S s \<Longrightarrow> http_inv S s"
proof (induction rule: http_reachable.induct)
  case reach_start
  show ?case by (simp add: http_inv_def http_start_def)
next
  case (reach_step s s')
  then show ?case by (blast intro: http_inv_step)
qed

section \<open>Reading what a sender writes\<close>

text \<open>A line that a sender can put on the wire: valid UTF-8 without a newline, not ending in a carriage
  return.\<close>

definition line_ok :: "str \<Rightarrow> bool" where
  "line_ok l \<longleftrightarrow> is_str l \<and> CHR 0x0A \<notin> set l \<and> (l = [] \<or> last l \<noteq> CHR 0x0D)"

definition enc_line :: "str \<Rightarrow> bytes" where
  "enc_line l = as_bytes (l @ crlf)"

lemma length_enc_line: "length (enc_line l) = length l + 2"
  by (simp add: enc_line_def crlf_def)

lemma of_char_crlf: "(of_char CHR 0x0A :: u8) = 10" "(of_char CHR 0x0D :: u8) = 13"
  by code_simp+

lemma of_char_u8_eq: "(of_char c :: u8) = of_char d \<longleftrightarrow> c = d"
  by (metis char_of_uint_of_char)

lemma byte_eq_crlf: "(of_char c :: u8) = 10 \<longleftrightarrow> c = CHR 0x0A" "(of_char c :: u8) = 13 \<longleftrightarrow> c = CHR 0x0D"
  using of_char_u8_eq [of c "CHR 0x0A"] of_char_u8_eq [of c "CHR 0x0D"] by (simp_all only: of_char_crlf)

lemma as_bytes_crlf: "as_bytes crlf = [13, 10]"
  by (simp add: as_bytes_def crlf_def byte_eq_crlf)

lemma read_until_enc_line:
  assumes "line_ok l"
  shows "read_until_nl \<lparr>hr_bytes = enc_line l @ rest, hr_broken = b\<rparr> = (Some (enc_line l), \<lparr>hr_bytes = rest, hr_broken = b\<rparr>)"
proof -
  have e: "enc_line l @ rest = (as_bytes l @ [13]) @ 10 # rest" "enc_line l = as_bytes l @ [13, 10]"
    by (simp_all add: enc_line_def as_bytes_append as_bytes_crlf)
  have "position (\<lambda>x. x = 10) (enc_line l @ rest) = Some (length (as_bytes l @ [13]))"
    unfolding e(1) using assms by (intro position_first) (auto simp: line_ok_def as_bytes_def byte_eq_crlf)
  then show ?thesis by (simp add: read_until_nl_def e(2))
qed

lemma pop_crlf_enc_line: "line_ok l \<Longrightarrow> pop_crlf (enc_line l) = as_bytes l"
proof -
  assume l: "line_ok l"
  have "dropWhile (\<lambda>b. b = 10 \<or> b = 13) (rev (as_bytes l)) = rev (as_bytes l)"
    using l by (cases l rule: rev_cases) (auto simp: line_ok_def as_bytes_def byte_eq_crlf)
  then show ?thesis by (simp add: pop_crlf_def enc_line_def as_bytes_append as_bytes_crlf)
qed

lemma http_read_enc_line:
  assumes "line_ok l" "length l + 2 \<le> budget"
  shows "http_read_line budget \<lparr>hr_bytes = enc_line l @ rest, hr_broken = b\<rparr>
    = (Inr (l, budget - (length l + 2)), \<lparr>hr_bytes = rest, hr_broken = b\<rparr>)"
proof -
  have "enc_line l \<noteq> []" by (auto simp: length_enc_line dest: arg_cong [where f = length])
  moreover have "from_utf8 (as_bytes l) = Some l" using assms(1) by (simp add: line_ok_def from_utf8_as_bytes)
  ultimately show ?thesis
    using assms by (simp add: http_read_line_def read_until_enc_line pop_crlf_enc_line length_enc_line)
qed

lemma line_ok_Nil: "line_ok []"
  by (simp add: line_ok_def is_str_def as_bytes_def)

text \<open>The header lines, one after the other.\<close>

fun header_lines :: "str list \<Rightarrow> http_head \<Rightarrow> http_outcome + http_head" where
  "header_lines [] h = Inr h"
| "header_lines (l # ls) h = try_bind (header_line l h) (header_lines ls)"

definition head_length :: "str list \<Rightarrow> nat" where
  "head_length ls = sum_list (map (\<lambda>l. length l + 2) ls)"

lemma read_headers_lines:
  assumes "list_all (\<lambda>l. line_ok l \<and> l \<noteq> []) ls" "length ls < n" "head_length ls + 2 \<le> budget" "header_lines ls h = Inr h'"
  shows "read_headers n budget h \<lparr>hr_bytes = concat (map enc_line ls) @ enc_line [] @ rest, hr_broken = b\<rparr>
    = (Inr h', \<lparr>hr_bytes = rest, hr_broken = b\<rparr>)"
  using assms
proof (induction ls arbitrary: n budget h)
  case Nil
  then obtain m where "n = Suc m" by (cases n) auto
  with Nil show ?case by (simp add: head_length_def http_read_enc_line line_ok_Nil)
next
  case (Cons l ls)
  then obtain m where n: "n = Suc m" by (cases n) auto
  from Cons.prems obtain h1 where h1: "header_line l h = Inr h1" "header_lines ls h1 = Inr h'"
    by (auto simp: try_bind_Inr_iff)
  have "read_headers m (budget - (length l + 2)) h1 \<lparr>hr_bytes = concat (map enc_line ls) @ enc_line [] @ rest, hr_broken = b\<rparr>
      = (Inr h', \<lparr>hr_bytes = rest, hr_broken = b\<rparr>)"
    using Cons.prems n h1 by (intro Cons.IH) (auto simp: head_length_def)
  moreover have "l \<noteq> []" "line_ok l" "length l + 2 \<le> budget" using Cons.prems by (auto simp: head_length_def)
  ultimately show ?case
    using http_read_enc_line [of l budget "concat (map enc_line ls) @ enc_line [] @ rest" b] n h1 by simp
qed

lemma read_head_lines:
  assumes "line_ok l" "list_all (\<lambda>l. line_ok l \<and> l \<noteq> []) ls" "length ls < MAX_HEADERS"
    "head_length (l # ls) + 2 \<le> MAX_HEADER_BYTES" "try_bind (request_head l) (header_lines ls) = Inr h"
  shows "read_head \<lparr>hr_bytes = concat (map enc_line (l # ls)) @ enc_line [] @ rest, hr_broken = b\<rparr>
    = (Inr h, \<lparr>hr_bytes = rest, hr_broken = b\<rparr>)"
proof -
  from assms(5) obtain h0 where h0: "request_head l = Inr h0" "header_lines ls h0 = Inr h" by (auto simp: try_bind_Inr_iff)
  have "length l + 2 \<le> MAX_HEADER_BYTES" "head_length ls + 2 \<le> MAX_HEADER_BYTES - (length l + 2)"
    using assms(4) by (auto simp: head_length_def)
  with h0 assms(1-3) show ?thesis
    using http_read_enc_line [of l MAX_HEADER_BYTES "concat (map enc_line ls) @ enc_line [] @ rest" b]
      read_headers_lines [of ls MAX_HEADERS "MAX_HEADER_BYTES - (length l + 2)" h0 h rest b]
    by (simp add: read_head_def)
qed

text \<open>A chunked body: each chunk behind its length in hexadecimal.\<close>

definition hex_of :: "nat \<Rightarrow> str" where
  "hex_of n = map digit_char (digits_of 16 (int n))"

definition enc_chunk :: "bytes \<Rightarrow> bytes" where
  "enc_chunk c = enc_line (hex_of (length c)) @ c @ enc_line []"

definition enc_chunks :: "bytes list \<Rightarrow> bytes" where
  "enc_chunks cs = concat (map enc_chunk cs) @ enc_line ''0'' @ enc_line []"

lemma is_graphic_digit: "0 \<le> d \<Longrightarrow> d < 16 \<Longrightarrow> is_graphic (digit_char d) \<and> digit_char d \<noteq> CHR '';''"
proof -
  assume d: "0 \<le> d" "d < 16"
  then have v: "(of_char (digit_char d) :: int) = (if d < 10 then 48 + d else 87 + d)" by (simp add: digit_char_def of_char_of)
  moreover have "(of_char CHR '';'' :: int) = 59" by simp
  ultimately show ?thesis using d by (auto simp: is_graphic_def split: if_splits)
qed

lemma printable_line_ok:
  assumes "list_all (\<lambda>c. is_graphic c \<or> c = CHR '' '') l"
  shows "line_ok l"
proof -
  have "\<forall>b \<in> set (as_bytes l). b < 0x80"
    using assms by (auto simp: as_bytes_def list_all_iff dest: graphic_byte)
  then have "is_str l" by (simp add: is_str_def ascii_utf8_valid)
  moreover have "CHR 0x0A \<notin> set l" "CHR 0x0D \<notin> set l" using assms by (auto simp: list_all_iff is_graphic_def)
  ultimately show ?thesis by (auto simp: line_ok_def dest: last_in_set)
qed

lemma length_digits_of: "0 \<le> n \<Longrightarrow> n < r ^ Suc k \<Longrightarrow> 2 \<le> r \<Longrightarrow> length (digits_of r n) \<le> Suc k"
proof (induction k arbitrary: n)
  case 0
  then show ?case by (simp add: digits_of.simps)
next
  case (Suc k)
  show ?case
  proof (cases "n < r")
    case False
    have "n div r * r \<le> n" using Suc.prems(3) div_mult_mod_eq [of n r] pos_mod_sign [of r n] by linarith
    also have "\<dots> < r ^ Suc k * r" using Suc.prems(2) by (simp add: ac_simps)
    finally have "n div r < r ^ Suc k" using Suc.prems(3) by (simp del: power_Suc)
    then have "length (digits_of r (n div r)) \<le> Suc k"
      using Suc.prems by (intro Suc.IH) (simp_all add: pos_imp_zdiv_nonneg_iff)
    with False Suc.prems show ?thesis by (subst digits_of.simps) simp
  qed (simp add: digits_of.simps)
qed

lemma hex_of_graphic: "list_all (\<lambda>c. is_graphic c \<and> c \<noteq> CHR '';'') (hex_of n)"
  using digits_of_value [of "int n" 16] is_graphic_digit by (auto simp: hex_of_def list_all_iff)

lemma hex_of_line: "line_ok (hex_of n)"
  using hex_of_graphic [of n] by (intro printable_line_ok) (auto simp: list_all_iff)

lemma parse_hex_of:
  assumes "n \<le> MAX_FRAME"
  shows "parse_uint 16 USIZE_MAX (trim (takeWhile (\<lambda>c. c \<noteq> CHR '';'') (hex_of n))) = Some (int n)"
proof -
  have "takeWhile (\<lambda>c. c \<noteq> CHR '';'') (hex_of n) = hex_of n"
    using hex_of_graphic [of n] by (simp add: list_all_iff takeWhile_eq_all_conv)
  moreover have "trim (hex_of n) = hex_of n"
    using hex_of_graphic [of n] by (intro trim_graphic) (simp add: list_all_iff)
  moreover have "parse_uint 16 USIZE_MAX (hex_of n) = Some (int n)"
    using parse_uint_digits [of "int n" USIZE_MAX 16 0] assms by (simp add: hex_of_def MAX_FRAME_def)
  ultimately show ?thesis by (simp only:)
qed

lemma length_hex_of: "n \<le> MAX_FRAME \<Longrightarrow> length (hex_of n) + 2 \<le> MAX_HEADER_BYTES"
  using length_digits_of [of "int n" 16 4] by (simp add: hex_of_def MAX_FRAME_def MAX_HEADER_BYTES_def)

lemma skip_no_trailers:
  "skip_trailers MAX_HEADER_BYTES \<lparr>hr_bytes = enc_line [] @ rest, hr_broken = b\<rparr> = (Inr (), \<lparr>hr_bytes = rest, hr_broken = b\<rparr>)"
  by (subst skip_trailers.simps) (simp add: http_read_enc_line line_ok_Nil MAX_HEADER_BYTES_def)

lemma read_chunk_line:
  assumes "n \<le> MAX_FRAME"
  shows "http_read_line MAX_HEADER_BYTES \<lparr>hr_bytes = enc_line (hex_of n) @ rest, hr_broken = b\<rparr>
    = (Inr (hex_of n, MAX_HEADER_BYTES - (length (hex_of n) + 2)), \<lparr>hr_bytes = rest, hr_broken = b\<rparr>)"
  by (rule http_read_enc_line [OF hex_of_line length_hex_of [OF assms]])

lemma read_chunks_enc:
  assumes "list_all (\<lambda>c. c \<noteq> []) cs" "length body + length (concat cs) \<le> MAX_FRAME"
  shows "read_chunks body \<lparr>hr_bytes = enc_chunks cs @ rest, hr_broken = b\<rparr>
    = (Inr (body @ concat cs), \<lparr>hr_bytes = rest, hr_broken = b\<rparr>)"
  using assms
proof (induction cs arbitrary: body)
  case Nil
  have "hex_of 0 = ''0''" by code_simp
  with read_chunk_line [of 0 "enc_line [] @ rest" b] parse_hex_of [of 0] show ?case
    by (subst read_chunks.simps) (simp add: enc_chunks_def skip_no_trailers)
next
  case (Cons c cs)
  let ?tail = "enc_chunks cs @ rest"
  have n: "length c \<le> MAX_FRAME" "0 < length c" using Cons.prems by auto
  have e: "enc_chunks (c # cs) @ rest = enc_line (hex_of (length c)) @ c @ enc_line [] @ ?tail"
    by (simp add: enc_chunks_def enc_chunk_def)
  have x: "hr_read_exact (length c) \<lparr>hr_bytes = c @ enc_line [] @ ?tail, hr_broken = b\<rparr>
      = (Some c, \<lparr>hr_bytes = enc_line [] @ ?tail, hr_broken = b\<rparr>)"
    by (simp add: hr_read_exact_def)
  have l: "http_read_line MAX_HEADER_BYTES \<lparr>hr_bytes = enc_line [] @ ?tail, hr_broken = b\<rparr>
      = (Inr ([], MAX_HEADER_BYTES - 2), \<lparr>hr_bytes = ?tail, hr_broken = b\<rparr>)"
    using http_read_enc_line [OF line_ok_Nil, of MAX_HEADER_BYTES ?tail b] by (simp add: MAX_HEADER_BYTES_def)
  have "length body + length c \<le> MAX_FRAME" using Cons.prems by simp
  then have "read_chunks body \<lparr>hr_bytes = enc_chunks (c # cs) @ rest, hr_broken = b\<rparr>
      = read_chunks (body @ c) \<lparr>hr_bytes = ?tail, hr_broken = b\<rparr>"
    unfolding e using n parse_hex_of [OF n(1)] read_chunk_line [OF n(1)] x l
    by (subst read_chunks.simps) (simp add: Let_def)
  also have "\<dots> = (Inr ((body @ c) @ concat cs), \<lparr>hr_bytes = rest, hr_broken = b\<rparr>)"
    using Cons.prems by (intro Cons.IH) auto
  finally show ?case by simp
qed

section \<open>Whole requests\<close>

datatype http_body = Sized bytes | Chunks "bytes list"

fun body_of :: "http_body \<Rightarrow> bytes" where
  "body_of (Sized b) = b"
| "body_of (Chunks cs) = concat cs"

record http_request =
  rq_method :: str
  rq_target :: str
  rq_headers :: "(str \<times> str) list"
  rq_token :: "str option"
  rq_body :: http_body

definition header_text :: "str \<Rightarrow> str \<Rightarrow> str" where
  "header_text n v = n @ '': '' @ v"

definition request_line :: "http_request \<Rightarrow> str" where
  "request_line q = rq_method q @ '' '' @ rq_target q @ '' HTTP/1.1''"

definition request_headers :: "http_request \<Rightarrow> str list" where
  "request_headers q = map (\<lambda>(n, v). header_text n v) (rq_headers q)
     @ (case rq_token q of Some t \<Rightarrow> [header_text ''X-Ajar-Token'' t] | None \<Rightarrow> [])
     @ [case rq_body q of Sized b \<Rightarrow> header_text ''Content-Length'' (show_nat (length b))
        | Chunks cs \<Rightarrow> header_text ''Transfer-Encoding'' ''chunked'']"

definition enc_request :: "http_request \<Rightarrow> bytes" where
  "enc_request q = concat (map enc_line (request_line q # request_headers q)) @ enc_line []
     @ (case rq_body q of Sized b \<Rightarrow> b | Chunks cs \<Rightarrow> enc_chunks cs)"

definition interpreted :: "str \<Rightarrow> bool" where
  "interpreted n \<longleftrightarrow> list_ex (eq_ignore_ascii_case n) [''content-length'', ''transfer-encoding'', ''expect'', ''x-ajar-token'']"

definition graphic_word :: "str \<Rightarrow> bool" where
  "graphic_word s \<longleftrightarrow> s \<noteq> [] \<and> list_all is_graphic s"

definition delivery_ok :: "http_settings \<Rightarrow> http_request \<Rightarrow> bool" where
  "delivery_ok S q \<longleftrightarrow>
     rq_method q \<in> {''POST'', ''PUT''} \<and> graphic_word (rq_target q)
     \<and> normalise_path (takeWhile (\<lambda>c. c \<noteq> CHR ''?'' \<and> c \<noteq> CHR ''#'') (rq_target q)) = se_path S
     \<and> list_all (\<lambda>(n, v). list_all is_graphic n \<and> CHR '':'' \<notin> set n \<and> \<not> interpreted n \<and> list_all is_graphic v) (rq_headers q)
     \<and> (case rq_token q of Some t \<Rightarrow> list_all is_graphic t | None \<Rightarrow> True)
     \<and> (se_token S \<noteq> None \<longrightarrow> se_token S = rq_token q)
     \<and> length (request_headers q) < MAX_HEADERS
     \<and> head_length (request_line q # request_headers q) + 2 \<le> MAX_HEADER_BYTES
     \<and> length (body_of (rq_body q)) \<le> MAX_FRAME
     \<and> (case rq_body q of Sized b \<Rightarrow> True | Chunks cs \<Rightarrow> list_all (\<lambda>c. c \<noteq> []) cs)"

lemma header_line_text:
  assumes "CHR '':'' \<notin> set n" "list_all is_graphic v"
  shows "header_line (header_text n v) h =
    (if eq_ignore_ascii_case n ''content-length'' then
       try_bind (ok_or BadRequest (parse_usize v)) (\<lambda>k. Inr (h\<lparr>hd_content_length := Some (nat k)\<rparr>))
     else if eq_ignore_ascii_case n ''transfer-encoding'' then
       (if eq_ignore_ascii_case v ''chunked'' then Inr (h\<lparr>hd_chunked := True\<rparr>) else Inl NotImplemented)
     else if eq_ignore_ascii_case n ''expect'' then
       Inr (h\<lparr>hd_expect_continue := eq_ignore_ascii_case v ''100-continue''\<rparr>)
     else if eq_ignore_ascii_case n ''x-ajar-token'' then Inr (h\<lparr>hd_token := Some v\<rparr>)
     else Inr h)"
proof -
  have "split_once CHR '':'' (header_text n v) = Some (n, CHR '' '' # v)"
    using split_once_append [OF assms(1)] by (simp add: header_text_def)
  then show ?thesis using trim_space_graphic [OF assms(2)] by (simp add: header_line_def)
qed

lemma header_names:
  "eq_ignore_ascii_case ''Content-Length'' ''content-length''" "eq_ignore_ascii_case ''Transfer-Encoding'' ''transfer-encoding''"
  "\<not> eq_ignore_ascii_case ''Transfer-Encoding'' ''content-length''" "eq_ignore_ascii_case ''chunked'' ''chunked''"
  "\<not> eq_ignore_ascii_case ''X-Ajar-Token'' ''content-length''" "\<not> eq_ignore_ascii_case ''X-Ajar-Token'' ''transfer-encoding''"
  "\<not> eq_ignore_ascii_case ''X-Ajar-Token'' ''expect''" "eq_ignore_ascii_case ''X-Ajar-Token'' ''x-ajar-token''"
  "list_all is_graphic ''chunked''"
  by code_simp+

lemma show_nat_graphic: "list_all is_graphic (show_nat n)"
  using show_int_digits [of "int n"] by (auto simp: list_all_iff is_digit_def is_graphic_def)

lemma header_lines_append: "header_lines (ls @ ms) h = try_bind (header_lines ls h) (header_lines ms)"
  by (induction ls arbitrary: h) (auto simp: try_bind_def split: sum.splits)

lemma plain_header_lines:
  "list_all (\<lambda>(n, v). list_all is_graphic n \<and> CHR '':'' \<notin> set n \<and> \<not> interpreted n \<and> list_all is_graphic v) hs
   \<Longrightarrow> header_lines (map (\<lambda>(n, v). header_text n v) hs) h = Inr h"
  by (induction hs) (auto simp: header_line_text interpreted_def)

definition body_head :: "http_body \<Rightarrow> http_head \<Rightarrow> http_head" where
  "body_head bd h = (case bd of Sized b \<Rightarrow> h\<lparr>hd_content_length := Some (length b)\<rparr> | Chunks cs \<Rightarrow> h\<lparr>hd_chunked := True\<rparr>)"

lemma framing_headers:
  "n \<le> MAX_FRAME \<Longrightarrow> header_line (header_text ''Content-Length'' (show_nat n)) h = Inr (h\<lparr>hd_content_length := Some n\<rparr>)"
  "header_line (header_text ''Transfer-Encoding'' ''chunked'') h = Inr (h\<lparr>hd_chunked := True\<rparr>)"
  "list_all is_graphic t \<Longrightarrow> header_line (header_text ''X-Ajar-Token'' t) h = Inr (h\<lparr>hd_token := Some t\<rparr>)"
proof -
  assume "n \<le> MAX_FRAME"
  then have "parse_usize (show_nat n) = Some (int n)" by (intro parse_uint_show) (simp_all add: MAX_FRAME_def)
  then show "header_line (header_text ''Content-Length'' (show_nat n)) h = Inr (h\<lparr>hd_content_length := Some n\<rparr>)"
    by (subst header_line_text) (simp_all add: header_names(1) show_nat_graphic ok_or_def)
next
  show "header_line (header_text ''Transfer-Encoding'' ''chunked'') h = Inr (h\<lparr>hd_chunked := True\<rparr>)"
    by (subst header_line_text [OF _ header_names(9)]) (simp_all add: header_names(2,3,4))
next
  assume t: "list_all is_graphic t"
  show "header_line (header_text ''X-Ajar-Token'' t) h = Inr (h\<lparr>hd_token := Some t\<rparr>)"
    by (subst header_line_text [OF _ t]) (simp_all add: header_names(5-8))
qed

lemma request_header_lines:
  assumes "delivery_ok S q"
  shows "header_lines (request_headers q) h
    = Inr (body_head (rq_body q) (case rq_token q of Some t \<Rightarrow> h\<lparr>hd_token := Some t\<rparr> | None \<Rightarrow> h))"
proof -
  have "header_lines (map (\<lambda>(n, v). header_text n v) (rq_headers q)) h = Inr h"
    using assms by (intro plain_header_lines) (simp add: delivery_ok_def)
  moreover have "\<forall>t. rq_token q = Some t \<longrightarrow> list_all is_graphic t" "\<forall>b. rq_body q = Sized b \<longrightarrow> length b \<le> MAX_FRAME"
    using assms by (auto simp: delivery_ok_def)
  ultimately show ?thesis
    unfolding request_headers_def header_lines_append
    by (cases "rq_token q"; cases "rq_body q") (simp_all add: framing_headers body_head_def)
qed

lemma request_line_head:
  assumes "delivery_ok S q"
  shows "request_head (request_line q) = Inr \<lparr>hd_method_allowed = True, hd_path = se_path S,
    hd_content_length = None, hd_chunked = False, hd_expect_continue = False, hd_token = None\<rparr>"
proof -
  let ?m = "rq_method q" and ?t = "rq_target q"
  have m: "?m \<noteq> [] \<and> list_all is_graphic ?m"
    using assms by (auto simp: delivery_ok_def is_graphic_def)
  have t: "?t \<noteq> []" "list_all is_graphic ?t" using assms by (auto simp: delivery_ok_def graphic_word_def)
  then have "\<not> starts_white (?t @ '' HTTP/1.1'')" by (cases ?t) (auto simp: starts_white_graphic)
  then have "split_whitespace (request_line q) = ?m # ?t # split_whitespace ('' HTTP/1.1'')"
    using m t split_whitespace_graphic [of ?m "?t @ '' HTTP/1.1''"] split_whitespace_graphic [of ?t "''HTTP/1.1''"]
    by (simp add: request_line_def split_whitespace_skip)
  moreover have "eq_ignore_ascii_case ?m ''POST'' \<or> eq_ignore_ascii_case ?m ''PUT''"
    using assms by (auto simp: delivery_ok_def eq_ignore_ascii_case_def)
  ultimately show ?thesis
    using m t assms by (simp add: request_head_def slice_get_def delivery_ok_def)
qed

lemma request_lines_ok:
  assumes "delivery_ok S q"
  shows "line_ok (request_line q)" "list_all (\<lambda>l. line_ok l \<and> l \<noteq> []) (request_headers q)"
proof -
  have h: "line_ok (header_text n v) \<and> header_text n v \<noteq> []" if "list_all is_graphic n" "list_all is_graphic v" for n v
  proof -
    have "list_all (\<lambda>c. is_graphic c \<or> c = CHR '' '') (header_text n v)"
      using that by (auto simp: header_text_def list_all_iff is_graphic_def)
    then show ?thesis by (simp add: printable_line_ok) (simp add: header_text_def)
  qed
  have "list_all (\<lambda>c. is_graphic c \<or> c = CHR '' '') (request_line q)"
    using assms by (auto simp: request_line_def delivery_ok_def graphic_word_def list_all_iff is_graphic_def)
  then show "line_ok (request_line q)" by (rule printable_line_ok)
  have n: "list_all is_graphic ''Content-Length''" "list_all is_graphic ''Transfer-Encoding''" "list_all is_graphic ''X-Ajar-Token''"
    by code_simp+
  have ok: "\<forall>t. rq_token q = Some t \<longrightarrow> list_all is_graphic t"
      "\<forall>(a, v) \<in> set (rq_headers q). list_all is_graphic a \<and> list_all is_graphic v"
    using assms by (auto simp: delivery_ok_def list_all_iff)
  have "line_ok l \<and> l \<noteq> []" if l: "l \<in> set (request_headers q)" for l
  proof -
    consider a v where "(a, v) \<in> set (rq_headers q)" "l = header_text a v"
      | t where "rq_token q = Some t" "l = header_text ''X-Ajar-Token'' t"
      | k where "l = header_text ''Content-Length'' (show_nat k)"
      | "l = header_text ''Transfer-Encoding'' ''chunked''"
      using l unfolding request_headers_def by (cases "rq_token q"; cases "rq_body q") auto
    then show ?thesis
    proof cases
      case 1
      with ok(2) have "list_all is_graphic a" "list_all is_graphic v" by auto
      then show ?thesis unfolding 1 by (rule h)
    next
      case 2
      with ok(1) have "list_all is_graphic t" by simp
      then show ?thesis unfolding 2 by (rule h [OF n(3)])
    next
      case 3
      show ?thesis unfolding 3 by (rule h [OF n(1) show_nat_graphic])
    next
      case 4
      show ?thesis unfolding 4 by (rule h [OF n(2) header_names(9)])
    qed
  qed
  then show "list_all (\<lambda>l. line_ok l \<and> l \<noteq> []) (request_headers q)" by (simp add: list_all_iff)
qed

lemma read_head_request:
  assumes "delivery_ok S q"
  obtains h where "\<And>tail b. read_head \<lparr>hr_bytes = enc_request q @ tail, hr_broken = b\<rparr>
      = (Inr h, \<lparr>hr_bytes = (case rq_body q of Sized d \<Rightarrow> d | Chunks cs \<Rightarrow> enc_chunks cs) @ tail, hr_broken = b\<rparr>)"
    "authorised S h" "announced_ok h" "\<not> hd_expect_continue h" "hd_token h = rq_token q"
    "hd_chunked h = (case rq_body q of Sized d \<Rightarrow> False | Chunks cs \<Rightarrow> True)"
    "hd_content_length h = (case rq_body q of Sized d \<Rightarrow> Some (length d) | Chunks cs \<Rightarrow> None)"
proof -
  let ?h0 = "\<lparr>hd_method_allowed = True, hd_path = se_path S, hd_content_length = None, hd_chunked = False,
    hd_expect_continue = False, hd_token = None\<rparr>"
  let ?h = "body_head (rq_body q) (case rq_token q of Some t \<Rightarrow> ?h0\<lparr>hd_token := Some t\<rparr> | None \<Rightarrow> ?h0)"
  have "try_bind (request_head (request_line q)) (header_lines (request_headers q)) = Inr ?h"
    using request_line_head [OF assms] request_header_lines [OF assms] by simp
  then have "read_head \<lparr>hr_bytes = enc_request q @ tail, hr_broken = b\<rparr>
      = (Inr ?h, \<lparr>hr_bytes = (case rq_body q of Sized d \<Rightarrow> d | Chunks cs \<Rightarrow> enc_chunks cs) @ tail, hr_broken = b\<rparr>)" for tail b
    using read_head_lines [OF request_lines_ok [OF assms], of ?h _ b] assms unfolding enc_request_def delivery_ok_def by simp
  moreover have "authorised S ?h" "announced_ok ?h" "\<not> hd_expect_continue ?h" "hd_token ?h = rq_token q"
    "hd_chunked ?h = (case rq_body q of Sized d \<Rightarrow> False | Chunks cs \<Rightarrow> True)"
    "hd_content_length ?h = (case rq_body q of Sized d \<Rightarrow> Some (length d) | Chunks cs \<Rightarrow> None)"
    using assms by (auto simp: delivery_ok_def authorised_def announced_ok_def body_head_def split: option.splits http_body.splits)
  ultimately show thesis by (rule that)
qed

lemma serve_request:
  assumes "delivery_ok S q" "try_send ch = Sent"
  shows "serve S ok ch \<lparr>hr_bytes = enc_request q @ tail, hr_broken = b\<rparr>
    = ((Accepted, True), Some (body_of (rq_body q)), \<lparr>hr_bytes = tail, hr_broken = b\<rparr>)"
proof -
  obtain h where h: "read_head \<lparr>hr_bytes = enc_request q @ tail, hr_broken = b\<rparr>
      = (Inr h, \<lparr>hr_bytes = (case rq_body q of Sized d \<Rightarrow> d | Chunks cs \<Rightarrow> enc_chunks cs) @ tail, hr_broken = b\<rparr>)"
    "authorised S h" "announced_ok h" "\<not> hd_expect_continue h"
    "hd_chunked h = (case rq_body q of Sized d \<Rightarrow> False | Chunks cs \<Rightarrow> True)"
    "hd_content_length h = (case rq_body q of Sized d \<Rightarrow> Some (length d) | Chunks cs \<Rightarrow> None)"
    using read_head_request [OF assms(1)] by metis
  have "read_body h \<lparr>hr_bytes = (case rq_body q of Sized d \<Rightarrow> d | Chunks cs \<Rightarrow> enc_chunks cs) @ tail, hr_broken = b\<rparr>
      = (Inr (body_of (rq_body q)), \<lparr>hr_bytes = tail, hr_broken = b\<rparr>)"
    using h(5,6) assms(1) read_chunks_enc [of _ "[]" tail b]
    by (cases "rq_body q") (simp_all add: read_body_def read_chunked_def hr_read_exact_def delivery_ok_def)
  with h assms(2) show ?thesis
    by (auto simp: serve_def authorised_def announced_ok_def secret_eq_iff as_bytes_eq_iff as_bytes_Nil_iff
        split: option.splits http_body.splits)
qed

text \<open>\<open>connection_loop\<close> over the rounds that \<open>envs\<close> describes.\<close>

fun connection_loop :: "http_settings \<Rightarrow> request_env list \<Rightarrow> http_channel \<Rightarrow> http_conn \<Rightarrow> http_conn \<times> http_channel" where
  "connection_loop S [] ch c = (c, ch)"
| "connection_loop S (env # envs) ch c =
     (if \<not> co_open c then (c, ch)
      else case connection_round S env ch c of (c', frame) \<Rightarrow> connection_loop S envs (queue_frame frame ch) c')"

definition undisturbed :: "request_env \<Rightarrow> bool" where
  "undisturbed env \<longleftrightarrow> \<not> re_idle env \<and> \<not> re_timeout env \<and> re_continue_ok env \<and> re_respond_ok env"

lemma enc_request_not_Nil: "enc_request q \<noteq> []"
  using length_enc_line [of "request_line q"] by (auto simp: enc_request_def)

lemma connection_loop_delivers:
  assumes "list_all (delivery_ok S) qs" "length envs = length qs" "list_all undisturbed envs"
    "\<not> ch_closed ch" "length (ch_frames ch) + length qs \<le> CHANNEL_FRAMES"
  shows "connection_loop S envs ch \<lparr>co_reader = \<lparr>hr_bytes = concat (map enc_request qs) @ tail, hr_broken = b\<rparr>,
            co_open = True, co_written = w\<rparr>
    = (\<lparr>co_reader = \<lparr>hr_bytes = tail, hr_broken = b\<rparr>, co_open = True,
        co_written = w @ concat (map (\<lambda>q. respond Accepted True) qs)\<rparr>,
       ch\<lparr>ch_frames := ch_frames ch @ map (\<lambda>q. body_of (rq_body q)) qs\<rparr>)"
  using assms
proof (induction qs arbitrary: envs ch w)
  case (Cons q qs)
  then obtain env envs' where e: "envs = env # envs'" by (cases envs) auto
  have "try_send ch = Sent" using Cons.prems by (simp add: try_send_def)
  then have "connection_round S env ch \<lparr>co_reader = \<lparr>hr_bytes = concat (map enc_request (q # qs)) @ tail, hr_broken = b\<rparr>,
          co_open = True, co_written = w\<rparr>
      = (\<lparr>co_reader = \<lparr>hr_bytes = concat (map enc_request qs) @ tail, hr_broken = b\<rparr>, co_open = True,
          co_written = w @ respond Accepted True\<rparr>, Some (body_of (rq_body q)))"
    using Cons.prems e serve_request [of S q ch]
    by (simp add: connection_round_def undisturbed_def enc_request_not_Nil)
  then show ?case
    using e Cons.prems Cons.IH [of envs' "ch\<lparr>ch_frames := ch_frames ch @ [body_of (rq_body q)]\<rparr>"]
    by (simp add: queue_frame_def)
qed simp

section \<open>Properties\<close>

text \<open>C10. A frame is put into the channel exactly when the request's path, method and token are the
  configured ones, the announced length is allowed, the body arrives whole and the channel has room; a
  queued body never exceeds the frame limit; and a request that is not authorised ends the connection
  with nothing read past its head.\<close>

theorem serve_queues_iff:
  "(fst (snd (serve S ok ch r)) = Some body \<longleftrightarrow>
     (\<exists>h r1. read_head r = (Inr h, r1) \<and> authorised S h \<and> announced_ok h \<and> (hd_expect_continue h \<longrightarrow> ok)
        \<and> fst (read_body h r1) = Inr body \<and> length body \<le> MAX_FRAME \<and> try_send ch = Sent))
   \<and> (\<forall>h r1. read_head r = (Inr h, r1) \<and> \<not> authorised S h \<longrightarrow>
        snd (fst (serve S ok ch r)) = False \<and> snd (serve S ok ch r) = (None, r1))"
proof (intro conjI allI impI)
  show "fst (snd (serve S ok ch r)) = Some body \<longleftrightarrow>
     (\<exists>h r1. read_head r = (Inr h, r1) \<and> authorised S h \<and> announced_ok h \<and> (hd_expect_continue h \<longrightarrow> ok)
        \<and> fst (read_body h r1) = Inr body \<and> length body \<le> MAX_FRAME \<and> try_send ch = Sent)"
    unfolding serve_frame_iff by (auto dest: read_body_bounded)
next
  fix h r1
  assume "read_head r = (Inr h, r1) \<and> \<not> authorised S h"
  then show "snd (fst (serve S ok ch r)) = False" "snd (serve S ok ch r) = (None, r1)"
    by (auto simp: serve_def authorised_def secret_eq_iff as_bytes_eq_iff as_bytes_Nil_iff split: option.splits)
qed

text \<open>C9. In every reachable state of the server, whatever its peers send and however the connections,
  timeouts and the runtime interleave: the channel holds at most its capacity, every frame ever queued
  belongs to an admitted request, and the frames queued are those the runtime has received, whole and in
  order, followed by those still waiting.\<close>

theorem http_frames_exactly_once:
  assumes "http_reachable S s"
  shows "length (ch_frames (hs_channel s)) \<le> CHANNEL_FRAMES \<and> list_all (admitted S) (hs_queued s)
    \<and> hs_queued s = hs_received s @ ch_frames (hs_channel s)"
  using http_reachable_inv [OF assms] unfolding http_inv_def .

text \<open>Deliveries pipelined on one connection, sized or chunked, with any further headers: while the
  channel has room each is answered with 204 and their bodies are queued in order, and what follows on
  the stream is left untouched.\<close>

theorem http_pipeline_roundtrip:
  assumes "list_all (delivery_ok S) qs" "length envs = length qs" "list_all undisturbed envs"
    "\<not> ch_closed ch" "length (ch_frames ch) + length qs \<le> CHANNEL_FRAMES"
  shows "connection_loop S envs ch \<lparr>co_reader = \<lparr>hr_bytes = concat (map enc_request qs) @ tail, hr_broken = b\<rparr>,
            co_open = True, co_written = w\<rparr>
    = (\<lparr>co_reader = \<lparr>hr_bytes = tail, hr_broken = b\<rparr>, co_open = True,
        co_written = w @ concat (map (\<lambda>q. respond Accepted True) qs)\<rparr>,
       ch\<lparr>ch_frames := ch_frames ch @ map (\<lambda>q. body_of (rq_body q)) qs\<rparr>)"
  using assms by (rule connection_loop_delivers)

text \<open>A listener with a token or a client CA serves TLS.\<close>

lemma http_secrets_need_tls:
  "http_open acc ok path token tls = Inr (S, scheme) \<Longrightarrow> token \<noteq> None \<or> tl_client_ca tls \<noteq> None \<Longrightarrow>
   scheme \<noteq> ''http'' \<and> tl_cert tls \<noteq> None \<and> tl_key tls \<noteq> None"
  by (auto simp: http_open_def try_bind_def split: option.splits if_splits)

text \<open>The budget of a line is charged after the line is in memory: a line without an end is read as
  far as the peer sends it.\<close>

lemma line_read_before_budget:
  "budget < n \<Longrightarrow> http_read_line budget \<lparr>hr_bytes = replicate n 65, hr_broken = False\<rparr>
     = (Inl BadRequest, \<lparr>hr_bytes = [], hr_broken = False\<rparr>)"
proof -
  assume n: "budget < n"
  have "position (\<lambda>x. x = (10 :: u8)) (replicate n 65) = None" by (simp add: position_None_iff)
  with n show ?thesis by (simp add: http_read_line_def read_until_nl_def)
qed

text \<open>A token configured as the empty string is satisfied by a request without one.\<close>

lemma empty_token_admits:
  "se_token S = Some [] \<Longrightarrow> hd_token h = None \<Longrightarrow> hd_path h = se_path S \<Longrightarrow> hd_method_allowed h \<Longrightarrow> authorised S h"
  by (simp add: authorised_def)

section \<open>Examples\<close>

definition ex_http :: http_settings where
  "ex_http = \<lparr>se_path = ''/hook'', se_token = Some ''s3cret''\<rparr>"

definition ex_post :: http_request where
  "ex_post = \<lparr>rq_method = ''POST'', rq_target = ''/hook?x=1'', rq_headers = [(''Host'', ''a.example'')],
     rq_token = Some ''s3cret'', rq_body = Sized [1, 2, 3]\<rparr>"

definition ex_put :: http_request where
  "ex_put = \<lparr>rq_method = ''PUT'', rq_target = ''/hook/'', rq_headers = [], rq_token = Some ''s3cret'',
     rq_body = Chunks [[4, 10], [5]]\<rparr>"

definition ex_anonymous :: http_request where
  "ex_anonymous = ex_post\<lparr>rq_token := None\<rparr>"

definition ex_channel :: http_channel where
  "ex_channel = \<lparr>ch_frames = [[9]], ch_closed = False\<rparr>"

definition ex_env :: request_env where
  "ex_env = \<lparr>re_idle = False, re_timeout = False, re_continue_ok = True, re_respond_ok = True\<rparr>"

definition ex_stream :: "http_request \<Rightarrow> http_reader" where
  "ex_stream q = \<lparr>hr_bytes = enc_request q, hr_broken = False\<rparr>"

lemma ex_delivery_ok: "delivery_ok ex_http ex_post" "delivery_ok ex_http ex_put"
  by code_simp+

lemma ex_anonymous_head:
  obtains h where "read_head (ex_stream ex_anonymous) = (Inr h, \<lparr>hr_bytes = [1, 2, 3], hr_broken = False\<rparr>)"
    "\<not> authorised ex_http h"
proof -
  have "delivery_ok (ex_http\<lparr>se_token := None\<rparr>) ex_anonymous" by code_simp
  then obtain h where h: "\<And>tail b. read_head \<lparr>hr_bytes = enc_request ex_anonymous @ tail, hr_broken = b\<rparr>
      = (Inr h, \<lparr>hr_bytes = (case rq_body ex_anonymous of Sized d \<Rightarrow> d | Chunks cs \<Rightarrow> enc_chunks cs) @ tail, hr_broken = b\<rparr>)"
    "hd_token h = rq_token ex_anonymous"
    by (rule read_head_request) blast
  have "read_head (ex_stream ex_anonymous) = (Inr h, \<lparr>hr_bytes = [1, 2, 3], hr_broken = False\<rparr>)"
    using h(1) [of "[]" False] by (simp add: ex_stream_def) (simp add: ex_anonymous_def ex_post_def)
  moreover have "\<not> authorised ex_http h" using h(2) by (simp add: authorised_def ex_http_def ex_anonymous_def)
  ultimately show thesis by (rule that)
qed

theorem serve_queues_iff_witness:
  "snd (serve ex_http True ex_channel (ex_stream ex_anonymous)) = (None, \<lparr>hr_bytes = [1, 2, 3], hr_broken = False\<rparr>)
   \<and> snd (fst (serve ex_http True ex_channel (ex_stream ex_anonymous))) = False"
proof -
  obtain h where h: "read_head (ex_stream ex_anonymous) = (Inr h, \<lparr>hr_bytes = [1, 2, 3], hr_broken = False\<rparr>)"
      "\<not> authorised ex_http h"
    by (rule ex_anonymous_head)
  then show ?thesis using serve_queues_iff [of ex_http True ex_channel "ex_stream ex_anonymous"] by blast
qed

theorem http_pipeline_roundtrip_witness:
  "snd (connection_loop ex_http [ex_env, ex_env] ex_channel
      \<lparr>co_reader = \<lparr>hr_bytes = concat (map enc_request [ex_post, ex_put]) @ [71], hr_broken = True\<rparr>, co_open = True, co_written = []\<rparr>)
   = ex_channel\<lparr>ch_frames := [[9], [1, 2, 3], [4, 10, 5]]\<rparr>"
proof -
  have "list_all (delivery_ok ex_http) [ex_post, ex_put]" using ex_delivery_ok by simp
  from http_pipeline_roundtrip [OF this, of "[ex_env, ex_env]" ex_channel "[71]" True "[]"] show ?thesis
    by (simp add: undisturbed_def ex_env_def ex_channel_def CHANNEL_FRAMES_def ex_post_def ex_put_def)
qed

theorem http_frames_exactly_once_witness:
  "\<exists>s. http_reachable ex_http s \<and> hs_queued s = [[1, 2, 3]] \<and> hs_queued s = hs_received s @ ch_frames (hs_channel s)"
proof -
  let ?c = "\<lparr>co_reader = ex_stream ex_post, co_open = True, co_written = []\<rparr>"
  let ?s1 = "http_start\<lparr>hs_conns := (hs_conns http_start)(0 \<mapsto> ?c)\<rparr>"
  have r1: "http_reachable ex_http ?s1"
    by (rule reach_step [OF reach_start http_accept]) (simp add: http_start_def)
  have "try_send (hs_channel ?s1) = Sent" by (simp add: try_send_def http_start_def CHANNEL_FRAMES_def)
  from serve_request [OF ex_delivery_ok(1) this, of True "[]" False]
  obtain c' where c': "connection_round ex_http ex_env (hs_channel ?s1) ?c = (c', Some [1, 2, 3])"
    by (auto simp: connection_round_def ex_env_def ex_stream_def enc_request_not_Nil ex_post_def [THEN arg_cong [where f = rq_body]])
  have s2: "http_reachable ex_http
      (?s1\<lparr>hs_channel := queue_frame (Some [1, 2, 3]) (hs_channel ?s1), hs_conns := (hs_conns ?s1)(0 \<mapsto> c'),
            hs_queued := hs_queued ?s1 @ (case Some [1, 2, 3] of Some b \<Rightarrow> [b] | None \<Rightarrow> [])\<rparr>)" (is "http_reachable _ ?s2")
    by (rule reach_step [OF r1 http_request [OF _ _ c']]) simp_all
  show ?thesis
    using http_frames_exactly_once [OF s2] s2 by (intro exI [of _ ?s2]) (simp add: http_start_def)
qed

end
