(* ===== verification/Json.thy ===== *)
theory Json
  imports Str_Ops F64 "HOL-Library.Char_ord" "HOL-Library.List_Lexorder"
begin

text \<open>
  JSON values as \<open>serde_json::Value\<close> has them, and ordered maps: \<open>BTreeMap\<close> and \<open>serde_json::Map\<close>
  (without the feature \<open>preserve_order\<close>) as association lists sorted by key. The locale \<open>key_map\<close> is
  what the components rely on when they fill a map entry by entry.
\<close>

section \<open>Ordered maps\<close>

fun btree_insert :: "'k :: linorder \<Rightarrow> 'v \<Rightarrow> ('k \<times> 'v) list \<Rightarrow> ('k \<times> 'v) list" where
  "btree_insert k v [] = [(k, v)]"
| "btree_insert k v ((j, u) # m) =
     (if j < k then (j, u) # btree_insert k v m else if k = j then (k, v) # m else (k, v) # (j, u) # m)"

lemma map_of_btree_insert [simp]: "map_of (btree_insert k v m) = (map_of m)(k \<mapsto> v)"
  by (induction k v m rule: btree_insert.induct) (auto simp: fun_eq_iff)

lemma keys_btree_insert: "fst ` set (btree_insert k v m) = insert k (fst ` set m)"
  by (induction k v m rule: btree_insert.induct) auto

definition btree_ok :: "('k :: linorder \<times> 'v) list \<Rightarrow> bool" where
  "btree_ok m \<longleftrightarrow> sorted_wrt (<) (map fst m)"

lemma btree_ok_insert: "btree_ok m \<Longrightarrow> btree_ok (btree_insert k v m)"
proof (induction m)
  case (Cons p m)
  then have "\<forall>x \<in> fst ` set m. fst p < x" by (auto simp: btree_ok_def)
  with Cons keys_btree_insert [of k v m] show ?case
    by (cases p) (auto simp: btree_ok_def)
qed (simp add: btree_ok_def)

definition btree_collect :: "('k :: linorder \<times> 'v) list \<Rightarrow> ('k \<times> 'v) list" where
  "btree_collect ps = foldl (\<lambda>m p. btree_insert (fst p) (snd p) m) [] ps"

text \<open>A client that fills a map: \<open>key x\<close> gets the value of \<open>item x\<close>, when there is one.\<close>

locale key_map =
  fixes put :: "'k \<Rightarrow> 'v \<Rightarrow> 'm \<Rightarrow> 'm"
    and get :: "'m \<Rightarrow> 'k \<Rightarrow> 'v option"
  assumes get_put: "get (put k v m) j = (if j = k then Some v else get m j)"
begin

lemma get_fill_other:
  "k \<notin> key ` set xs \<Longrightarrow>
   get (foldl (\<lambda>m x. case item x of Some v \<Rightarrow> put (key x) v m | None \<Rightarrow> m) m xs) k = get m k"
  by (induction xs arbitrary: m) (auto simp: get_put split: option.splits)

lemma get_fill:
  "distinct (map key xs) \<Longrightarrow> x \<in> set xs \<Longrightarrow> item x = Some v \<Longrightarrow>
   get (foldl (\<lambda>m x. case item x of Some v \<Rightarrow> put (key x) v m | None \<Rightarrow> m) m xs) (key x) = Some v"
proof (induction xs arbitrary: m)
  case (Cons y xs)
  show ?case
  proof (cases "x = y")
    case True
    with Cons.prems have "key x \<notin> key ` set xs" by simp
    with True Cons.prems show ?thesis by (simp add: get_fill_other get_put)
  qed (use Cons in auto)
qed simp

lemma get_fill_only:
  "get (foldl (\<lambda>m x. case item x of Some v \<Rightarrow> put (key x) v m | None \<Rightarrow> m) m xs) k = Some v \<Longrightarrow>
   get m k = Some v \<or> (\<exists>x \<in> set xs. key x = k \<and> item x = Some v)"
proof (induction xs arbitrary: m)
  case (Cons y xs)
  let ?m = "case item y of Some v \<Rightarrow> put (key y) v m | None \<Rightarrow> m"
  have "get ?m k = Some v \<or> (\<exists>x \<in> set xs. key x = k \<and> item x = Some v)" using Cons.IH [of ?m] Cons.prems by simp
  then show ?case by (auto simp: get_put split: option.splits if_splits)
qed simp

end

interpretation btree: key_map btree_insert map_of
  by unfold_locales simp

section \<open>Values\<close>

datatype json_number = PosInt u64 | NegInt int | Float f64

datatype json = JNull | JBool bool | JNumber json_number | JString str | JArray "json list" | JObject "(str \<times> json) list"

text \<open>\<open>Number::from_f64\<close> and the lookup \<open>value[key]\<close> of an object.\<close>

definition json_from_f64 :: "f64 \<Rightarrow> json option" where
  "json_from_f64 x = (if is_finite x then Some (JNumber (Float x)) else None)"

definition jget :: "json \<Rightarrow> str \<Rightarrow> json option" where
  "jget j k = (case j of JObject m \<Rightarrow> map_of m k | _ \<Rightarrow> None)"

lemma jget_JObject [simp]: "jget (JObject m) k = map_of m k"
  by (simp add: jget_def)

end
