(* ===== verification/Generic.thy ===== *)
theory Generic
  imports Json Connector
begin

text \<open>
  The config-driven connector, \<open>generic/src/generic.rs\<close> and \<open>mapping.rs\<close>: a JSON object or a CSV row per
  frame becomes one event through the operator's mapping. The reader and the printer of \<open>serde_json\<close> and
  the formatter of the \<open>time\<close> crate are parameters: \<open>from_str\<close> reads a text as a value, \<open>to_text\<close> prints
  a number, an array or an object, and \<open>fmt\<close> renders a number of nanoseconds since the epoch, or fails
  where the crate's range ends. \<open>checked\<close> tells whether the build checks arithmetic for overflow; an
  overflow is then a panic, the value \<open>None\<close>.
\<close>

section \<open>The mapping\<close>

datatype record_format = Json | Csv
datatype timestamp_format = Rfc3339 | EpochMillis | EpochSeconds

record gmapping =
  gm_format :: record_format
  gm_delimiter :: str
  gm_columns :: "str list"
  gm_entity_type :: str
  gm_timestamp_field :: "str option"
  gm_timestamp_format :: timestamp_format
  gm_confidence_field :: "str option"
  gm_lat_field :: "str option"
  gm_lon_field :: "str option"
  gm_alt_field :: "str option"
  gm_attributes :: "(str \<times> str) list"
  gm_metadata :: "(str \<times> str) list"

text \<open>The check of \<open>Mapping::load\<close> on what was read.\<close>

definition mapping_ok :: "gmapping \<Rightarrow> bool" where
  "mapping_ok m \<longleftrightarrow> \<not> (gm_format m = Csv \<and> gm_columns m = [])"

datatype generic_error = GDecode | GMissing str | GBadNumber str | GTime | GBuild build_error

record generic_parser =
  gn_source_id :: str
  gn_mapping :: gmapping
  gn_enrichment :: enrichment

section \<open>Records\<close>

definition json_scalar :: "(json \<Rightarrow> str) \<Rightarrow> json \<Rightarrow> str" where
  "json_scalar to_text v =
     (case v of JString s \<Rightarrow> s | JNull \<Rightarrow> [] | JBool b \<Rightarrow> if b then ''true'' else ''false'' | _ \<Rightarrow> to_text v)"

definition generic_record ::
  "(str \<Rightarrow> json option) \<Rightarrow> (json \<Rightarrow> str) \<Rightarrow> gmapping \<Rightarrow> bytes \<Rightarrow> generic_error + (str \<times> str) list" where
  "generic_record from_str to_text m frame =
     (case from_utf8 frame of
        None \<Rightarrow> Inl GDecode
      | Some s \<Rightarrow>
          (case gm_format m of
             Json \<Rightarrow> (case from_str (trim s) of
                        Some (JObject obj) \<Rightarrow> Inr (btree_collect (map (\<lambda>(k, v). (k, json_scalar to_text v)) obj))
                      | _ \<Rightarrow> Inl GDecode)
           | Csv \<Rightarrow> Inr (btree_collect (zip (gm_columns m) (map trim (split_str (gm_delimiter m) (trim s)))))))"

section \<open>Time, place and confidence\<close>

definition i128_wrap :: "int \<Rightarrow> int" where
  "i128_wrap n = (n + 2 ^ 127) mod 2 ^ 128 - 2 ^ 127"

definition to_rfc3339 :: "bool \<Rightarrow> (int \<Rightarrow> str option) \<Rightarrow> str \<Rightarrow> timestamp_format \<Rightarrow> (generic_error + str) option" where
  "to_rfc3339 checked fmt raw format =
     (case format of
        Rfc3339 \<Rightarrow> Some (Inr raw)
      | EpochMillis \<Rightarrow>
          (case parse_sint (- (2 ^ 127)) (2 ^ 127 - 1) raw of
             None \<Rightarrow> Some (Inl GTime)
           | Some ms \<Rightarrow> if checked \<and> i128_wrap (ms * 1000000) \<noteq> ms * 1000000 then None
                        else Some (ok_or GTime (fmt (i128_wrap (ms * 1000000)))))
      | EpochSeconds \<Rightarrow>
          (case parse_sint (- (2 ^ 63)) (2 ^ 63 - 1) raw of
             None \<Rightarrow> Some (Inl GTime)
           | Some s \<Rightarrow> Some (ok_or GTime (fmt (s * 1000000000)))))"

definition generic_timestamp ::
  "bool \<Rightarrow> (int \<Rightarrow> str option) \<Rightarrow> gmapping \<Rightarrow> (str \<times> str) list \<Rightarrow> (generic_error + str option) option" where
  "generic_timestamp checked fmt m rec =
     (case gm_timestamp_field m of
        None \<Rightarrow> Some (Inr None)
      | Some field \<Rightarrow>
          (case map_of rec field of
             None \<Rightarrow> Some (Inl (GMissing field))
           | Some raw \<Rightarrow> map_option (map_sum (\<lambda>e. e) Some) (to_rfc3339 checked fmt raw (gm_timestamp_format m))))"

definition generic_location :: "gmapping \<Rightarrow> (str \<times> str) list \<Rightarrow> generic_error + (f64 \<times> f64 \<times> f64) option" where
  "generic_location m rec =
     (case (gm_lat_field m, gm_lon_field m) of
        (Some latf, Some lonf) \<Rightarrow>
          (case (map_of rec latf, map_of rec lonf) of
             (Some lat, Some lon) \<Rightarrow>
               try_bind (ok_or (GBadNumber latf) (parse_f64 lat)) (\<lambda>lat.
               try_bind (ok_or (GBadNumber lonf) (parse_f64 lon)) (\<lambda>lon.
               try_bind (case gm_alt_field m of
                           None \<Rightarrow> Inr (f64_of_int 0)
                         | Some altf \<Rightarrow>
                             (case map_of rec altf of
                                None \<Rightarrow> Inr (f64_of_int 0)
                              | Some v \<Rightarrow> ok_or (GBadNumber altf) (parse_f64 v))) (\<lambda>alt.
               Inr (Some (lat, lon, alt)))))
           | _ \<Rightarrow> Inr None)
      | _ \<Rightarrow> Inr None)"

definition generic_confidence :: "gmapping \<Rightarrow> (str \<times> str) list \<Rightarrow> generic_error + f64 option" where
  "generic_confidence m rec =
     (case gm_confidence_field m of
        None \<Rightarrow> Inr None
      | Some field \<Rightarrow>
          (case map_of rec field of
             None \<Rightarrow> Inr None
           | Some raw \<Rightarrow>
               try_bind (ok_or (GBadNumber field) (parse_f64 raw)) (\<lambda>v.
                 let v = (if f64_lt (f64_of_int 1) v then f64_div v (f64_of_int 100) else v)
                 in Inr (Some (f64_clamp (f64_of_int 0) (f64_of_int 1) v)))))"

section \<open>Events\<close>

definition map_attributes :: "(str \<times> str) list \<Rightarrow> (str \<times> str) list \<Rightarrow> event_builder \<Rightarrow> event_builder" where
  "map_attributes rec ps b = foldl (\<lambda>b p. opt_attribute (snd p) (map_of rec (fst p)) b) b ps"

definition map_metadata :: "(str \<times> str) list \<Rightarrow> (str \<times> str) list \<Rightarrow> event_builder \<Rightarrow> event_builder" where
  "map_metadata rec ps b = foldl (\<lambda>b p. opt_metadata (snd p) (map_of rec (fst p)) b) b ps"

definition generic_builder ::
  "generic_parser \<Rightarrow> effects \<Rightarrow> bytes \<Rightarrow> (str \<times> str) list \<Rightarrow> str option \<Rightarrow> (f64 \<times> f64 \<times> f64) option \<Rightarrow> f64 option \<Rightarrow> event_builder" where
  "generic_builder p fx frame rec ts loc conf =
     (let m = gn_mapping p;
          b = eb_payload frame (eb_new_id (uuid fx) (eb_new (gn_source_id p) (gm_entity_type m)));
          b = (case ts of Some t \<Rightarrow> eb_timestamp t b | None \<Rightarrow> eb_now (wall_clock fx) b);
          b = (case loc of Some (lat, lon, alt) \<Rightarrow> eb_location lat lon alt b | None \<Rightarrow> b);
          b = (case conf of Some c \<Rightarrow> eb_confidence c b | None \<Rightarrow> b);
          b = opt_attribute ''hostility'' (hostility (gn_enrichment p)) b
      in map_metadata rec (gm_metadata m) (map_attributes rec (gm_attributes m) b))"

definition to_event ::
  "bool \<Rightarrow> (str \<Rightarrow> json option) \<Rightarrow> (json \<Rightarrow> str) \<Rightarrow> (int \<Rightarrow> str option) \<Rightarrow> effects \<Rightarrow> bytes \<Rightarrow> generic_parser
   \<Rightarrow> (generic_error + event) option" where
  "to_event checked from_str to_text fmt fx frame p =
     (case generic_record from_str to_text (gn_mapping p) frame of
        Inl e \<Rightarrow> Some (Inl e)
      | Inr rec \<Rightarrow>
          map_option (\<lambda>ts.
              try_bind ts (\<lambda>ts.
              try_bind (generic_location (gn_mapping p) rec) (\<lambda>loc.
              try_bind (generic_confidence (gn_mapping p) rec) (\<lambda>conf.
              map_sum GBuild (\<lambda>e. e) (build (generic_builder p fx frame rec ts loc conf))))))
            (generic_timestamp checked fmt (gn_mapping p) rec))"

definition generic_parse ::
  "bool \<Rightarrow> (str \<Rightarrow> json option) \<Rightarrow> (json \<Rightarrow> str) \<Rightarrow> (int \<Rightarrow> str option) \<Rightarrow> effects \<Rightarrow> bytes \<Rightarrow> generic_parser
   \<Rightarrow> (generic_parser \<times> (generic_error + event list)) option" where
  "generic_parse checked from_str to_text fmt fx frame p =
     map_option (\<lambda>r. (p, map_sum (\<lambda>e. e) (\<lambda>e. [e]) r)) (to_event checked from_str to_text fmt fx frame p)"

text \<open>\<open>main\<close> refuses to start unless the ontology governs what the mapping declares.\<close>

definition generic_declared :: "gmapping \<Rightarrow> str option \<Rightarrow> declared" where
  "generic_declared m default_hostility =
     \<lparr>de_entity_type = gm_entity_type m, de_attributes = map snd (gm_attributes m),
      de_fixed_values = (case default_hostility of Some v \<Rightarrow> [(''hostility'', v)] | None \<Rightarrow> [])\<rparr>"

section \<open>What the mapping puts into an event\<close>

definition mapped_pairs :: "(str \<times> str) list \<Rightarrow> (str \<times> str) list \<Rightarrow> (str \<times> str) list" where
  "mapped_pairs rec ps = List.map_filter (\<lambda>p. map_option (Pair (snd p)) (map_of rec (fst p))) ps"

lemma map_attributes_sel [simp]:
  "b_attributes (map_attributes rec ps b) = b_attributes b @ mapped_pairs rec ps"
  "b_metadata (map_attributes rec ps b) = b_metadata b"
  by (induction ps arbitrary: b)
    (auto simp: map_attributes_def mapped_pairs_def opt_attribute_def eb_attribute_def map_filter_simps split: option.split)

lemma map_metadata_sel [simp]:
  "b_metadata (map_metadata rec ps b) = b_metadata b @ mapped_pairs rec ps"
  "b_attributes (map_metadata rec ps b) = b_attributes b"
  by (induction ps arbitrary: b)
    (auto simp: map_metadata_def mapped_pairs_def opt_metadata_def eb_metadata_def map_filter_simps split: option.split)

lemma map_fixed_sel [simp]:
  "b_source_id (map_attributes rec ps b) = b_source_id b" "b_source_id (map_metadata rec ps b) = b_source_id b"
  "b_entity_type (map_attributes rec ps b) = b_entity_type b" "b_entity_type (map_metadata rec ps b) = b_entity_type b"
  "b_payload (map_attributes rec ps b) = b_payload b" "b_payload (map_metadata rec ps b) = b_payload b"
  by (induction ps arbitrary: b) (simp_all add: map_attributes_def map_metadata_def)

lemma generic_builder_fields:
  "b_source_id (generic_builder p fx frame rec ts loc conf) = gn_source_id p"
  "b_entity_type (generic_builder p fx frame rec ts loc conf) = gm_entity_type (gn_mapping p)"
  "b_payload (generic_builder p fx frame rec ts loc conf) = frame"
  "b_attributes (generic_builder p fx frame rec ts loc conf)
     = (case hostility (gn_enrichment p) of Some h \<Rightarrow> [(''hostility'', h)] | None \<Rightarrow> []) @ mapped_pairs rec (gm_attributes (gn_mapping p))"
  "b_metadata (generic_builder p fx frame rec ts loc conf) = mapped_pairs rec (gm_metadata (gn_mapping p))"
  by (auto simp: generic_builder_def Let_def eb_defs eb_new_def opt_attribute_def split: option.split)

lemma to_event_built:
  assumes "to_event checked from_str to_text fmt fx frame p = Some (Inr e)"
    "generic_record from_str to_text (gn_mapping p) frame = Inr rec"
  obtains ts loc conf where "build (generic_builder p fx frame rec ts loc conf) = Inr e"
  using assms by (auto simp: to_event_def try_bind_Inr_iff map_sum_Inr_iff)

lemma to_event_record:
  "to_event checked from_str to_text fmt fx frame p = Some (Inr e) \<Longrightarrow>
   \<exists>rec. generic_record from_str to_text (gn_mapping p) frame = Inr rec"
  by (auto simp: to_event_def split: sum.splits)

interpretation generic_frames: frame_parser "generic_parse checked from_str to_text fmt" gn_source_id
  for checked from_str to_text fmt
proof
  fix fx frame p p' r
  assume "generic_parse checked from_str to_text fmt fx frame p = Some (p', r)"
  then show "gn_source_id p' = gn_source_id p" by (auto simp: generic_parse_def)
next
  fix fx frame p p' es e
  assume "generic_parse checked from_str to_text fmt fx frame p = Some (p', Inr es)" "e \<in> set es"
  then have e: "to_event checked from_str to_text fmt fx frame p = Some (Inr e)"
    by (auto simp: generic_parse_def map_sum_Inr_iff)
  obtain rec where "generic_record from_str to_text (gn_mapping p) frame = Inr rec" using to_event_record [OF e] by blast
  then obtain ts loc conf where "build (generic_builder p fx frame rec ts loc conf) = Inr e"
    by (rule to_event_built [OF e])
  from build_source [OF this] show "canonical_event e \<and> ev_source_id e = gn_source_id p"
    by (simp add: generic_builder_fields)
qed

section \<open>Properties\<close>

definition pair_of :: "attr \<Rightarrow> str \<times> str" where
  "pair_of a = (a_key a, a_value a)"

lemma built_pairs:
  "pair_of ` set (ev_attributes (built_event b)) = set (b_attributes b)"
  "pair_of ` set (ev_metadata (built_event b)) = set (b_metadata b)"
  by (simp_all add: built_event_def image_image pair_of_def to_attr_def)

text \<open>The event of a record is canonical, carries the frame as its payload and the mapping's type, and
  its attributes and metadata are exactly the mapped fields that the record has, under their mapped keys
  and with the record's values, and the operator's hostility.\<close>

theorem generic_event_exact:
  assumes "to_event checked from_str to_text fmt fx frame p = Some (Inr e)"
    "generic_record from_str to_text (gn_mapping p) frame = Inr rec"
  shows "canonical_event e \<and> ev_payload e = frame \<and> ev_entity_type e = gm_entity_type (gn_mapping p)
    \<and> pair_of ` set (ev_attributes e) = {(key, v). \<exists>src. (src, key) \<in> set (gm_attributes (gn_mapping p)) \<and> map_of rec src = Some v}
         \<union> {(''hostility'', h) | h. hostility (gn_enrichment p) = Some h}
    \<and> pair_of ` set (ev_metadata e) = {(key, v). \<exists>src. (src, key) \<in> set (gm_metadata (gn_mapping p)) \<and> map_of rec src = Some v}"
proof -
  obtain ts loc conf where b: "build (generic_builder p fx frame rec ts loc conf) = Inr e"
    by (rule to_event_built [OF assms])
  then have e: "e = built_event (generic_builder p fx frame rec ts loc conf)" by (simp add: build_Inr_iff)
  have pairs: "set (mapped_pairs rec ps) = {(key, v). \<exists>src. (src, key) \<in> set ps \<and> map_of rec src = Some v}" for ps
    by (force simp: mapped_pairs_def map_filter_def)
  have "pair_of ` set (ev_attributes e) = {(key, v). \<exists>src. (src, key) \<in> set (gm_attributes (gn_mapping p)) \<and> map_of rec src = Some v}
         \<union> {(''hostility'', h) | h. hostility (gn_enrichment p) = Some h}"
    unfolding e built_pairs generic_builder_fields set_append pairs by (auto split: option.split)
  moreover have "pair_of ` set (ev_metadata e) = {(key, v). \<exists>src. (src, key) \<in> set (gm_metadata (gn_mapping p)) \<and> map_of rec src = Some v}"
    unfolding e built_pairs generic_builder_fields pairs ..
  ultimately show ?thesis
    using build_source [OF b] by (simp add: e built_event_def generic_builder_fields)
qed

lemma enforced_governs:
  assumes "enforce ONTOLOGY (generic_declared m h) = Some (Inr ())" "k \<in> snd ` set (gm_attributes m)"
  shows "governs ONTOLOGY (gm_entity_type m) k"
proof (cases "starts_with (gm_entity_type m) ''mim:''")
  case True
  then have x: "\<not> starts_with (gm_entity_type m) ''x:''" by (auto simp: starts_with_def prefix_def)
  from assms(1) have c: "check ONTOLOGY (generic_declared m h) = Some []" by (auto simp: enforce_def split: if_splits)
  with x obtain t fs where "by_id ONTOLOGY (gm_entity_type m) = Some t"
      "attribute_faults ONTOLOGY t (map snd (gm_attributes m)) = Some []"
    by (auto simp: check_def generic_declared_def split: option.splits)
  then show ?thesis using True assms(2) by (auto simp: governs_declares attribute_faults_Nil_iff)
qed (simp add: governs_def operator_namespace_def)

text \<open>C18. Once the connector has started, the boot check vouches for its events: no attribute of any event
  is outside the ontology, but for the hostility, whose value is checked and whose name is not.\<close>

theorem generic_boot_governs:
  assumes "enforce ONTOLOGY (generic_declared (gn_mapping p) (hostility (gn_enrichment p))) = Some (Inr ())"
    "to_event checked from_str to_text fmt fx frame p = Some (Inr e)"
  shows "set (ungoverned ONTOLOGY e) \<subseteq> {''hostility''}
    \<and> (hostility (gn_enrichment p) = None \<longrightarrow> ungoverned ONTOLOGY e = [])"
proof -
  obtain rec where r: "generic_record from_str to_text (gn_mapping p) frame = Inr rec" using to_event_record [OF assms(2)] by blast
  obtain ts loc conf where b: "build (generic_builder p fx frame rec ts loc conf) = Inr e"
    by (rule to_event_built [OF assms(2) r])
  then have e: "e = built_event (generic_builder p fx frame rec ts loc conf)" by (simp add: build_Inr_iff)
  have "fst ` set (mapped_pairs rec (gm_attributes (gn_mapping p))) \<subseteq> snd ` set (gm_attributes (gn_mapping p))"
    by (force simp: mapped_pairs_def map_filter_def)
  then have "k = ''hostility'' \<and> hostility (gn_enrichment p) \<noteq> None"
    if "k \<in> a_key ` set (ev_attributes e)" "\<not> governs ONTOLOGY (gm_entity_type (gn_mapping p)) k" for k
    using that enforced_governs [OF assms(1)] unfolding e built_attributes generic_builder_fields
    by (cases "hostility (gn_enrichment p)") auto
  moreover have "ev_entity_type e = gm_entity_type (gn_mapping p)" by (simp add: e built_event_def generic_builder_fields)
  ultimately show ?thesis by (fastforce simp: ungoverned_def filter_empty_conv)
qed

lemma boot_misses_hostility:
  "enforce ONTOLOGY \<lparr>de_entity_type = ''mim:concept'', de_attributes = [], de_fixed_values = [(''hostility'', ''HO'')]\<rparr> = Some (Inr ())"
  "\<not> governs ONTOLOGY ''mim:concept'' ''hostility''"
  by code_simp+

text \<open>A row that a CSV source writes: as many values as columns, in graphic characters, the separator in ASCII and
  not starting with a character of a value. The outer values are not empty, since the row is trimmed.\<close>

definition csv_row_ok :: "gmapping \<Rightarrow> str list \<Rightarrow> bool" where
  "csv_row_ok m vs \<longleftrightarrow> gm_format m = Csv \<and> length vs = length (gm_columns m) \<and> distinct (gm_columns m)
     \<and> gm_delimiter m \<noteq> [] \<and> is_ascii (gm_delimiter m)
     \<and> list_all (\<lambda>v. list_all is_graphic v \<and> hd (gm_delimiter m) \<notin> set v) vs
     \<and> vs \<noteq> [] \<and> hd vs \<noteq> [] \<and> last vs \<noteq> []"

lemma hd_join: "vs \<noteq> [] \<Longrightarrow> hd vs \<noteq> [] \<Longrightarrow> join d vs \<noteq> [] \<and> hd (join d vs) = hd (hd vs)"
  by (cases "(d, vs)" rule: join.cases) auto

lemma last_join: "vs \<noteq> [] \<Longrightarrow> last vs \<noteq> [] \<Longrightarrow> join d vs \<noteq> [] \<and> last (join d vs) = last (last vs)"
  by (induction d vs rule: join.induct) auto

lemma set_join: "set (join d vs) \<subseteq> set d \<union> \<Union> (set ` set vs)"
  by (induction d vs rule: join.induct) auto

lemma btree_collect_get:
  assumes "distinct (map fst ps)" "(k, v) \<in> set ps"
  shows "map_of (btree_collect ps) k = Some v"
  using btree.get_fill [OF assms, of "\<lambda>p. Some (snd p)" v "[]"] by (simp add: btree_collect_def)

text \<open>A CSV row is read back column by column: every column of the mapping has the value that the
  source wrote for it, whatever the separator.\<close>

theorem generic_csv_roundtrip:
  assumes "csv_row_ok m vs"
  shows "\<exists>rec. generic_record from_str to_text m (as_bytes (join (gm_delimiter m) vs)) = Inr rec
    \<and> list_all (\<lambda>i. map_of rec (gm_columns m ! i) = Some (vs ! i)) [0..<length vs]"
proof -
  let ?d = "gm_delimiter m" and ?s = "join (gm_delimiter m) vs"
  have g: "list_all is_graphic v" if "v \<in> set vs" for v using assms that by (auto simp: csv_row_ok_def list_all_iff)
  have vs: "vs \<noteq> []" "hd vs \<noteq> []" "last vs \<noteq> []" using assms by (auto simp: csv_row_ok_def)
  have "\<forall>c \<in> set ?s. (of_char c :: u8) < 0x80"
    using set_join [of ?d vs] g assms by (fastforce simp: csv_row_ok_def is_ascii_def list_all_iff dest: graphic_byte)
  then have u: "from_utf8 (as_bytes ?s) = Some ?s"
    by (intro from_utf8_as_bytes) (simp add: is_str_def as_bytes_def ascii_utf8_valid)
  have "is_graphic (hd (hd vs))" "is_graphic (last (last vs))"
    using g [OF hd_in_set [OF vs(1)]] g [OF last_in_set [OF vs(1)]] vs(2,3) by (auto simp: list_all_iff)
  then have t: "trim ?s = ?s" using hd_join [OF vs(1,2), of ?d] last_join [OF vs(1,3), of ?d] by (intro trim_ends) auto
  have "split_str ?d ?s = vs" using assms by (intro split_str_join) (auto simp: csv_row_ok_def list_all_iff)
  moreover have "map trim vs = vs" using g by (intro map_idI trim_graphic) auto
  ultimately have r: "generic_record from_str to_text m (as_bytes ?s) = Inr (btree_collect (zip (gm_columns m) vs))"
    using u t assms by (simp add: generic_record_def csv_row_ok_def)
  have "map_of (btree_collect (zip (gm_columns m) vs)) (gm_columns m ! i) = Some (vs ! i)" if "i < length vs" for i
    using assms that by (intro btree_collect_get) (auto simp: csv_row_ok_def set_zip)
  with r show ?thesis by (auto simp: list_all_iff)
qed

section \<open>Examples\<close>

definition ex_mapping :: gmapping where
  "ex_mapping = \<lparr>gm_format = Csv, gm_delimiter = '';'', gm_columns = [''t'', ''v'', ''note''], gm_entity_type = ''mim:vessel'',
     gm_timestamp_field = Some ''t'', gm_timestamp_format = Rfc3339, gm_confidence_field = None, gm_lat_field = None,
     gm_lon_field = None, gm_alt_field = None, gm_attributes = [(''v'', ''speed'')], gm_metadata = [(''note'', ''remark'')]\<rparr>"

definition ex_generic :: generic_parser where
  "ex_generic = \<lparr>gn_source_id = ''g-1'', gn_mapping = ex_mapping, gn_enrichment = \<lparr>hostility = None\<rparr>\<rparr>"

definition ex_row :: "str list" where
  "ex_row = [''2026-06-10T08:00:00Z'', ''8.20'', ''x'']"

definition generic_effects :: effects where
  "generic_effects = \<lparr>instant = 0, wall_clock = ''2026-06-10T08:00:00Z'', uuid = ''0192f1f4''\<rparr>"

abbreviation no_json :: "str \<Rightarrow> json option" where "no_json \<equiv> \<lambda>_. None"
abbreviation no_text :: "json \<Rightarrow> str" where "no_text \<equiv> \<lambda>_. []"
abbreviation no_time :: "int \<Rightarrow> str option" where "no_time \<equiv> \<lambda>_. None"

text \<open>With white space as the separator, the trim of the row takes an empty first field with it, and every
  value moves one column to the left.\<close>

lemma csv_tab_shifts:
  "generic_record no_json no_text (ex_mapping\<lparr>gm_delimiter := [CHR 0x09], gm_columns := [''name'', ''speed'']\<rparr>)
     (as_bytes ([] @ [CHR 0x09] @ ''12'')) = Inr [(''name'', ''12'')]"
  by code_simp

text \<open>The product of milliseconds and a million is not checked: \<open>2 ^ 122\<close> milliseconds wrap to the epoch,
  or panic in a build with overflow checks.\<close>

lemma epoch_millis_wraps:
  "to_rfc3339 False fmt (show_int (2 ^ 122)) EpochMillis = Some (ok_or GTime (fmt 0))"
  "to_rfc3339 True fmt (show_int (2 ^ 122)) EpochMillis = None"
proof -
  have "parse_uint 10 (2 ^ 127 - 1) (show_int (2 ^ 122)) = Some (2 ^ 122)" by (rule parse_uint_show) simp_all
  moreover obtain c cs where c: "show_int (2 ^ 122) = c # cs" "is_digit c"
    using show_int_digits [of "2 ^ 122"] by (cases "show_int (2 ^ 122)") auto
  moreover have "c \<noteq> CHR ''-''" using c(2) by (auto simp: is_digit_def)
  ultimately have "parse_sint (- (2 ^ 127)) (2 ^ 127 - 1) (show_int (2 ^ 122)) = Some (2 ^ 122)"
    by (simp add: parse_sint_def)
  moreover have "i128_wrap (2 ^ 122 * 1000000) = 0" by (simp add: i128_wrap_def)
  ultimately show "to_rfc3339 False fmt (show_int (2 ^ 122)) EpochMillis = Some (ok_or GTime (fmt 0))"
      "to_rfc3339 True fmt (show_int (2 ^ 122)) EpochMillis = None"
    by (simp_all add: to_rfc3339_def)
qed

theorem generic_csv_roundtrip_witness:
  "csv_row_ok ex_mapping ex_row
   \<and> (\<exists>rec. generic_record no_json no_text ex_mapping (as_bytes (join (gm_delimiter ex_mapping) ex_row)) = Inr rec
        \<and> list_all (\<lambda>i. map_of rec (gm_columns ex_mapping ! i) = Some (ex_row ! i)) [0..<length ex_row])"
proof -
  have "csv_row_ok ex_mapping ex_row" by code_simp
  with generic_csv_roundtrip [OF this, of no_json no_text] show ?thesis by blast
qed

lemma ex_generic_event:
  "case to_event False no_json no_text no_time generic_effects (as_bytes (join '';'' ex_row)) ex_generic of
     Some (Inr e) \<Rightarrow> True | _ \<Rightarrow> False"
  by code_simp

theorem generic_event_exact_witness:
  "\<exists>e. to_event False no_json no_text no_time generic_effects (as_bytes (join '';'' ex_row)) ex_generic = Some (Inr e)
     \<and> pair_of ` set (ev_metadata e) = {(''remark'', ''x'')}"
proof -
  let ?f = "as_bytes (join '';'' ex_row)"
  obtain e where e: "to_event False no_json no_text no_time generic_effects ?f ex_generic = Some (Inr e)"
    using ex_generic_event by (auto split: option.splits sum.splits)
  have r: "generic_record no_json no_text (gn_mapping ex_generic) ?f = Inr [(''note'', ''x''), (''t'', ''2026-06-10T08:00:00Z''), (''v'', ''8.20'')]"
    by code_simp
  from generic_event_exact [OF e r] have "pair_of ` set (ev_metadata e) = {(''remark'', ''x'')}"
    by (simp add: ex_generic_def ex_mapping_def)
  with e show ?thesis by blast
qed

theorem generic_boot_governs_witness:
  "\<exists>e. to_event False no_json no_text no_time generic_effects (as_bytes (join '';'' ex_row)) ex_generic = Some (Inr e)
     \<and> ungoverned ONTOLOGY e = []"
proof -
  obtain e where e: "to_event False no_json no_text no_time generic_effects (as_bytes (join '';'' ex_row)) ex_generic = Some (Inr e)"
    using ex_generic_event by (auto split: option.splits sum.splits)
  have "enforce ONTOLOGY (generic_declared (gn_mapping ex_generic) (hostility (gn_enrichment ex_generic))) = Some (Inr ())"
    by code_simp
  from generic_boot_governs [OF this e] e show ?thesis by (auto simp: ex_generic_def)
qed

end
