(* ===== verification/Generic_Egress.thy ===== *)
theory Generic_Egress
  imports Json Seal Connector
begin

text \<open>
  The generic egress connector, \<open>generic-egress/src\<close>: it verifies and decodes the governed envelopes,
  drops repeated event ids, renders each event as the consumer's JSON object (\<open>map.rs\<close>) with an optional
  confidentiality label (\<open>label.rs\<close>) and delivers it. \<open>str::to_uppercase\<close> beyond ASCII follows the
  Unicode tables and is the parameter \<open>upper\<close>; the answers of the consumer's server are an argument
  of each step.
\<close>

section \<open>Rendering an event (\<open>map.rs\<close>)\<close>

definition PATHS :: "str list" where
  "PATHS = [''id'', ''source_id'', ''entity_type'', ''timestamp'', ''lat'', ''lon'', ''alt_m'', ''confidence'', ''policy_tags'']"

definition validate_path :: "str \<Rightarrow> bool" where
  "validate_path path \<longleftrightarrow> path \<in> set PATHS \<or> starts_with path ''attr:'' \<or> starts_with path ''meta:''"

definition attr_value :: "attr list \<Rightarrow> str \<Rightarrow> json option" where
  "attr_value as name = map_option (\<lambda>a. JString (a_value a)) (find (\<lambda>a. a_key a = name) as)"

definition egress_lookup :: "event \<Rightarrow> str \<Rightarrow> json option" where
  "egress_lookup e path =
     (case strip_prefix path ''attr:'' of
        Some name \<Rightarrow> attr_value (ev_attributes e) name
      | None \<Rightarrow>
          (case strip_prefix path ''meta:'' of
             Some name \<Rightarrow> attr_value (ev_metadata e) name
           | None \<Rightarrow>
               if path = ''id'' then Some (JString (ev_id e))
               else if path = ''source_id'' then Some (JString (ev_source_id e))
               else if path = ''entity_type'' then Some (JString (ev_entity_type e))
               else if path = ''timestamp'' then Some (JString (ev_timestamp e))
               else if path = ''lat'' then Option.bind (ev_location e) (\<lambda>l. json_from_f64 (latitude l))
               else if path = ''lon'' then Option.bind (ev_location e) (\<lambda>l. json_from_f64 (longitude l))
               else if path = ''alt_m'' then Option.bind (ev_location e) (\<lambda>l. json_from_f64 (altitude_m l))
               else if path = ''confidence'' then json_from_f64 (ev_confidence e)
               else if path = ''policy_tags'' then Some (JArray (map JString (ev_policy_tags e)))
               else None))"

datatype unmapped = Include | Refuse

section \<open>Confidentiality labels (\<open>label.rs\<close>)\<close>

record label_config =
  lc_policy_identifier :: str

text \<open>One tag: the classification found so far and the releasability values.\<close>

definition label_tag :: "(str \<Rightarrow> str) \<Rightarrow> str option \<times> str list \<Rightarrow> str \<Rightarrow> str option \<times> str list" where
  "label_tag upper st tag =
     (case st of (classification, rel) \<Rightarrow>
        (case strip_prefix tag ''class:'' of
           Some v \<Rightarrow> (if classification = None \<and> trim v \<noteq> [] then Some (upper (trim v)) else classification, rel)
         | None \<Rightarrow>
             (case strip_prefix tag ''rel:'' of
                Some v \<Rightarrow> (classification, rel @ [upper (trim v)])
              | None \<Rightarrow>
                  (case strip_prefix tag ''releasable:'' of
                     Some v \<Rightarrow> (classification, rel @ [upper (trim v)])
                   | None \<Rightarrow> (classification, rel)))))"

definition confidentiality_label :: "(str \<Rightarrow> str) \<Rightarrow> label_config \<Rightarrow> event \<Rightarrow> json option" where
  "confidentiality_label upper cfg e =
     (case foldl (label_tag upper) (None, []) (ev_policy_tags e) of
        (None, rel) \<Rightarrow> None
      | (Some classification, rel) \<Rightarrow>
          (let values = filter (\<lambda>v. v \<noteq> []) (remdups_adj (sort rel));
               label = btree_collect [(''policyIdentifier'', JString (lc_policy_identifier cfg)),
                         (''classification'', JString classification), (''creationDateTime'', JString (ev_timestamp e))]
           in Some (JObject
                (if values = [] then label
                 else btree_insert ''categories''
                   (JArray [JObject (btree_collect [(''tagName'', JString ''Releasability''),
                      (''type'', JString ''PERMISSIVE''), (''values'', JArray (map JString values))])]) label))))"

section \<open>\<open>render\<close>\<close>

definition mapped_fields :: "event \<Rightarrow> (str \<times> str) list \<Rightarrow> (str \<times> json) list" where
  "mapped_fields e flds =
     foldl (\<lambda>m f. case egress_lookup e (snd f) of Some v \<Rightarrow> btree_insert (fst f) v m | None \<Rightarrow> m) [] flds"

definition extra_content :: "str \<Rightarrow> str list \<Rightarrow> attr list \<Rightarrow> (str \<times> json) list" where
  "extra_content p paths as =
     foldl (\<lambda>m a. case (if list_ex (\<lambda>q. strip_prefix q p = Some (a_key a)) paths then None else Some (JString (a_value a))) of
                    Some v \<Rightarrow> btree_insert (a_key a) v m | None \<Rightarrow> m) [] as"

text \<open>The object without the unmapped content, and that content.\<close>

definition base_object :: "(str \<Rightarrow> str) \<Rightarrow> event \<Rightarrow> (str \<times> str) list \<Rightarrow> label_config option \<Rightarrow> (str \<times> json) list" where
  "base_object upper e flds label =
     (let mapped_paths = map snd flds;
          out0 = mapped_fields e flds;
          out1 = (if ''id'' \<in> set mapped_paths then out0 else btree_insert ''event_id'' (JString (ev_id e)) out0);
          out2 = (if ''policy_tags'' \<in> set mapped_paths then out1
                  else btree_insert ''policy_tags''
                    (case egress_lookup e ''policy_tags'' of Some v \<Rightarrow> v | None \<Rightarrow> JArray []) out1);
          out3 = btree_insert ''governance'' (JObject [(''egress_signature'', JString ''verified'')]) out2
      in case Option.bind label (\<lambda>cfg. confidentiality_label upper cfg e) of
           Some l \<Rightarrow> btree_insert ''confidentiality_label'' l out3 | None \<Rightarrow> out3)"

definition unmapped_object :: "(str \<times> json) list \<Rightarrow> (str \<times> json) list \<Rightarrow> (str \<times> json) list" where
  "unmapped_object extra_attrs extra_meta =
     (let u = (if extra_attrs \<noteq> [] then btree_insert ''attributes'' (JObject extra_attrs) [] else [])
      in if extra_meta \<noteq> [] then btree_insert ''metadata'' (JObject extra_meta) u else u)"

definition render :: "(str \<Rightarrow> str) \<Rightarrow> event \<Rightarrow> (str \<times> str) list \<Rightarrow> unmapped \<Rightarrow> label_config option \<Rightarrow> json option" where
  "render upper e flds unmapped label =
     (let out = base_object upper e flds label;
          extra_attrs = extra_content ''attr:'' (map snd flds) (ev_attributes e);
          extra_meta = extra_content ''meta:'' (map snd flds) (ev_metadata e)
      in if extra_attrs \<noteq> [] \<or> extra_meta \<noteq> [] then
           (case unmapped of
              Refuse \<Rightarrow> None
            | Include \<Rightarrow> Some (JObject (btree_insert ''unmapped'' (JObject (unmapped_object extra_attrs extra_meta)) out)))
         else Some (JObject out))"

section \<open>Configuration (\<open>config.rs\<close>)\<close>

definition EGRESS_PREFIX :: str where "EGRESS_PREFIX = ''ajar.egress.''"

record egress_config =
  eg_subject :: str
  eg_verifying_key :: str
  eg_attempts :: nat
  eg_fields :: "(str \<times> str) list"
  eg_unmapped :: unmapped
  eg_label :: "label_config option"

datatype egress_config_error = BadSubject | CueSubject | EmptyMapping | NoAttempts | BadPath str

definition egress_validate :: "egress_config \<Rightarrow> egress_config_error + unit" where
  "egress_validate cfg =
     (let s = trim (eg_subject cfg) in
      if \<not> starts_with s EGRESS_PREFIX then Inl BadSubject
      else if starts_with s ''ajar.cue.'' \<or> s = ''ajar.>'' \<or> s = ''>'' then Inl CueSubject
      else if eg_fields cfg = [] then Inl EmptyMapping
      else if eg_attempts cfg = 0 then Inl NoAttempts
      else case find (\<lambda>f. \<not> validate_path (snd f)) (eg_fields cfg) of
             Some f \<Rightarrow> Inl (BadPath (snd f)) | None \<Rightarrow> Inr ())"

section \<open>Acceptance, deduplication and delivery (\<open>lib.rs\<close>, \<open>main.rs\<close>)\<close>

definition DEDUPE_WINDOW :: nat where "DEDUPE_WINDOW = 4096"

datatype accept_error = VerifyError seal_error | DecodeError

definition egress_accept :: "ed25519 \<Rightarrow> (bytes \<Rightarrow> event option) \<Rightarrow> bytes \<Rightarrow> bytes \<Rightarrow> accept_error + event" where
  "egress_accept E decode sealed key =
     (case verify E sealed key of
        Inl err \<Rightarrow> Inl (VerifyError err)
      | Inr canonical \<Rightarrow> ok_or DecodeError (decode canonical))"

record dedupe =
  dd_seen :: "str set"
  dd_order :: "str list"
  dd_max :: nat

definition dedupe_new :: "nat \<Rightarrow> dedupe" where
  "dedupe_new n = \<lparr>dd_seen = {}, dd_order = [], dd_max = max n 1\<rparr>"

definition first_time :: "str \<Rightarrow> dedupe \<Rightarrow> bool \<times> dedupe" where
  "first_time i d =
     (if i \<in> dd_seen d then (False, d)
      else let d1 = (if dd_max d \<le> length (dd_order d) then
                       (case dd_order d of old # rest \<Rightarrow> d\<lparr>dd_order := rest, dd_seen := dd_seen d - {old}\<rparr> | [] \<Rightarrow> d)
                     else d)
           in (True, d1\<lparr>dd_order := dd_order d1 @ [i], dd_seen := insert i (dd_seen d1)\<rparr>))"

record egress_metrics =
  em_delivered :: u64
  em_rejected :: u64
  em_deduped :: u64
  em_gap_dropped :: u64

text \<open>\<open>es_sent\<close> records the objects that the consumer acknowledged, \<open>es_received\<close> the messages taken from
  the subscription.\<close>

record egress_state =
  es_dedupe :: dedupe
  es_metrics :: egress_metrics
  es_received :: u64
  es_sent :: "(event \<times> json) list"

definition egress_start :: egress_state where
  "egress_start = \<lparr>es_dedupe = dedupe_new DEDUPE_WINDOW,
     es_metrics = \<lparr>em_delivered = 0, em_rejected = 0, em_deduped = 0, em_gap_dropped = 0\<rparr>, es_received = 0, es_sent = []\<rparr>"

text \<open>The attempts of one delivery: \<open>answers n\<close> is true when the server answers attempt \<open>n\<close> with a success.\<close>

fun deliver_attempts :: "(nat \<Rightarrow> bool) \<Rightarrow> nat \<Rightarrow> nat \<Rightarrow> bool" where
  "deliver_attempts answers attempt 0 = False"
| "deliver_attempts answers attempt (Suc left) = (answers attempt \<or> deliver_attempts answers (Suc attempt) left)"

definition egress_step ::
  "ed25519 \<Rightarrow> (bytes \<Rightarrow> event option) \<Rightarrow> (str \<Rightarrow> str) \<Rightarrow> egress_config \<Rightarrow> bytes option \<Rightarrow> bool
   \<Rightarrow> bytes \<times> (nat \<Rightarrow> bool) \<Rightarrow> egress_state \<Rightarrow> egress_state" where
  "egress_step E decode upper cfg key dry_run msg st0 =
     (let st = st0\<lparr>es_received := es_received st0 + 1\<rparr>; m = es_metrics st in
      case key of None \<Rightarrow> st
      | Some k \<Rightarrow>
          (case egress_accept E decode (fst msg) k of
             Inl _ \<Rightarrow> st\<lparr>es_metrics := m\<lparr>em_rejected := em_rejected m + 1\<rparr>\<rparr>
           | Inr e \<Rightarrow>
               (case first_time (ev_id e) (es_dedupe st) of
                  (False, d) \<Rightarrow> st\<lparr>es_dedupe := d, es_metrics := m\<lparr>em_deduped := em_deduped m + 1\<rparr>\<rparr>
                | (True, d) \<Rightarrow>
                    (case render upper e (eg_fields cfg) (eg_unmapped cfg) (eg_label cfg) of
                       None \<Rightarrow> st\<lparr>es_dedupe := d, es_metrics := m\<lparr>em_gap_dropped := em_gap_dropped m + 1\<rparr>\<rparr>
                     | Some body \<Rightarrow>
                         if dry_run \<or> deliver_attempts (snd msg) 0 (eg_attempts cfg)
                         then st\<lparr>es_dedupe := d, es_metrics := m\<lparr>em_delivered := em_delivered m + 1\<rparr>,
                                 es_sent := es_sent st @ [(e, body)]\<rparr>
                         else st\<lparr>es_dedupe := d, es_metrics := m\<lparr>em_gap_dropped := em_gap_dropped m + 1\<rparr>\<rparr>))))"

definition egress_run where
  "egress_run E decode upper cfg key dry_run msgs st = foldl (\<lambda>s m. egress_step E decode upper cfg key dry_run m s) st msgs"

section \<open>What a rendered object keeps\<close>

definition RESERVED :: "str list" where
  "RESERVED = [''event_id'', ''policy_tags'', ''governance'', ''confidentiality_label'', ''unmapped'']"

definition tags_json :: "event \<Rightarrow> json" where
  "tags_json e = JArray (map JString (ev_policy_tags e))"

lemma lookup_tags: "egress_lookup e ''policy_tags'' = Some (tags_json e)"
  by (simp add: egress_lookup_def strip_prefix_def tags_json_def)

lemma lookup_id: "egress_lookup e ''id'' = Some (JString (ev_id e))"
  by (simp add: egress_lookup_def strip_prefix_def)

lemma lookup_content:
  "egress_lookup e (''attr:'' @ name) = attr_value (ev_attributes e) name"
  "egress_lookup e (''meta:'' @ name) = attr_value (ev_metadata e) name"
  by (simp_all add: egress_lookup_def strip_prefix_def)

lemma attr_value_distinct:
  "distinct (map a_key as) \<Longrightarrow> a \<in> set as \<Longrightarrow> attr_value as (a_key a) = Some (JString (a_value a))"
  by (induction as) (auto simp: attr_value_def)

lemma mapped_field:
  assumes "btree_ok flds" "(name, path) \<in> set flds" "egress_lookup e path = Some v"
  shows "map_of (mapped_fields e flds) name = Some v"
proof -
  have "distinct (map fst flds)" using assms(1) by (simp add: btree_ok_def strict_sorted_iff)
  from btree.get_fill [OF this assms(2), of "\<lambda>f. egress_lookup e (snd f)" v "[]"] assms(3) show ?thesis
    by (simp add: mapped_fields_def)
qed

lemma extra_field:
  assumes "distinct (map a_key as)" "a \<in> set as" "\<not> list_ex (\<lambda>q. strip_prefix q p = Some (a_key a)) paths"
  shows "map_of (extra_content p paths as) (a_key a) = Some (JString (a_value a))"
  using btree.get_fill [OF assms(1,2), of "\<lambda>a. if list_ex (\<lambda>q. strip_prefix q p = Some (a_key a)) paths then None
      else Some (JString (a_value a))" _ "[]"] assms(3)
  by (simp add: extra_content_def)

definition unmapped_value :: "json \<Rightarrow> str \<Rightarrow> str \<Rightarrow> json option" where
  "unmapped_value obj sect name = Option.bind (jget obj ''unmapped'') (\<lambda>u. Option.bind (jget u sect) (\<lambda>m. jget m name))"

lemma base_object_get:
  "k \<notin> set RESERVED \<Longrightarrow> map_of (base_object upper e flds label) k = map_of (mapped_fields e flds) k"
  "''id'' \<notin> snd ` set flds \<Longrightarrow> map_of (base_object upper e flds label) ''event_id'' = Some (JString (ev_id e))"
  "''policy_tags'' \<notin> snd ` set flds \<Longrightarrow> map_of (base_object upper e flds label) ''policy_tags'' = Some (tags_json e)"
  "map_of (base_object upper e flds label) ''governance'' = Some (JObject [(''egress_signature'', JString ''verified'')])"
  by (simp_all add: base_object_def Let_def RESERVED_def lookup_tags split: option.split)

lemma render_get:
  "render upper e flds un label = Some obj \<Longrightarrow> k \<noteq> ''unmapped'' \<Longrightarrow> jget obj k = map_of (base_object upper e flds label) k"
  by (auto simp: render_def Let_def split: if_splits unmapped.splits)

lemma render_unmapped:
  "render upper e flds un label = Some obj \<Longrightarrow>
   extra_content ''attr:'' (map snd flds) (ev_attributes e) \<noteq> [] \<or> extra_content ''meta:'' (map snd flds) (ev_metadata e) \<noteq> [] \<Longrightarrow>
   jget obj ''unmapped'' = Some (JObject (unmapped_object (extra_content ''attr:'' (map snd flds) (ev_attributes e))
      (extra_content ''meta:'' (map snd flds) (ev_metadata e))))"
  by (auto simp: render_def Let_def split: unmapped.splits)

lemma render_extra:
  assumes "render upper e flds un label = Some obj"
  shows "map_of (extra_content ''attr:'' (map snd flds) (ev_attributes e)) k = Some v \<Longrightarrow> unmapped_value obj ''attributes'' k = Some v"
    and "map_of (extra_content ''meta:'' (map snd flds) (ev_metadata e)) k = Some v \<Longrightarrow> unmapped_value obj ''metadata'' k = Some v"
proof -
  assume k: "map_of (extra_content ''attr:'' (map snd flds) (ev_attributes e)) k = Some v"
  then have "extra_content ''attr:'' (map snd flds) (ev_attributes e) \<noteq> []" by auto
  with k render_unmapped [OF assms] show "unmapped_value obj ''attributes'' k = Some v"
    by (simp add: unmapped_value_def unmapped_object_def Let_def)
next
  assume k: "map_of (extra_content ''meta:'' (map snd flds) (ev_metadata e)) k = Some v"
  then have "extra_content ''meta:'' (map snd flds) (ev_metadata e) \<noteq> []" by auto
  with k render_unmapped [OF assms] show "unmapped_value obj ''metadata'' k = Some v"
    by (simp add: unmapped_value_def unmapped_object_def Let_def)
qed

lemma render_fields:
  assumes "render upper e flds un label = Some obj"
  shows "k \<notin> set RESERVED \<Longrightarrow> jget obj k = map_of (mapped_fields e flds) k"
    and "''id'' \<notin> snd ` set flds \<Longrightarrow> jget obj ''event_id'' = Some (JString (ev_id e))"
    and "''policy_tags'' \<notin> snd ` set flds \<Longrightarrow> jget obj ''policy_tags'' = Some (tags_json e)"
    and "jget obj ''governance'' = Some (JObject [(''egress_signature'', JString ''verified'')])"
proof -
  assume k: "k \<notin> set RESERVED"
  then have "k \<noteq> ''unmapped''" by (auto simp: RESERVED_def)
  then show "jget obj k = map_of (mapped_fields e flds) k" using render_get [OF assms] base_object_get(1) [OF k] by simp
qed (use render_get [OF assms] in \<open>simp_all add: base_object_get\<close>)

text \<open>A piece of content is in the object under a name that the mapping gives it, or under \<open>unmapped\<close>.\<close>

definition carried :: "json \<Rightarrow> (str \<times> str) list \<Rightarrow> str \<Rightarrow> str \<Rightarrow> attr \<Rightarrow> bool" where
  "carried obj flds p sect a \<longleftrightarrow>
     (\<exists>name. (name, p @ a_key a) \<in> set flds \<and> jget obj name = Some (JString (a_value a)))
     \<or> unmapped_value obj sect (a_key a) = Some (JString (a_value a))"

lemma carriedI:
  assumes r: "render upper e flds un label = Some obj" and ok: "btree_ok flds" "list_all (\<lambda>f. fst f \<notin> set RESERVED) flds"
    and d: "distinct (map a_key as)" "a \<in> set as"
    and look: "egress_lookup e (p @ a_key a) = attr_value as (a_key a)"
    and extra: "\<And>k v. map_of (extra_content p (map snd flds) as) k = Some v \<Longrightarrow> unmapped_value obj sect k = Some v"
  shows "carried obj flds p sect a"
proof (cases "list_ex (\<lambda>q. strip_prefix q p = Some (a_key a)) (map snd flds)")
  case True
  then obtain name where f: "(name, p @ a_key a) \<in> set flds" by (auto simp: list_ex_iff strip_prefix_Some_iff)
  with ok(2) have "name \<notin> set RESERVED" by (auto simp: list_all_iff)
  moreover have "map_of (mapped_fields e flds) name = Some (JString (a_value a))"
    using mapped_field [OF ok(1) f] look attr_value_distinct [OF d] by simp
  ultimately show ?thesis using render_fields(1) [OF r] f unfolding carried_def by auto
next
  case False
  then show ?thesis using extra [OF extra_field [OF d False]] by (simp add: carried_def)
qed

text \<open>C16. A mapping whose consumer names avoid the names the renderer adds cannot strip content: every
  rendered object has the event id, the policy tags, the governance block and every attribute and metadata
  entry of the event, under the mapping's name or under \<open>unmapped\<close>.\<close>

theorem render_keeps_content:
  assumes "render upper e flds un label = Some obj" "canonical_event e" "btree_ok flds"
    "list_all (\<lambda>f. fst f \<notin> set RESERVED) flds"
  shows "(\<exists>name. jget obj name = Some (JString (ev_id e))) \<and> (\<exists>name. jget obj name = Some (tags_json e))
    \<and> jget obj ''governance'' = Some (JObject [(''egress_signature'', JString ''verified'')])
    \<and> list_all (carried obj flds ''attr:'' ''attributes'') (ev_attributes e)
    \<and> list_all (carried obj flds ''meta:'' ''metadata'') (ev_metadata e)"
proof -
  have named: "\<exists>name. jget obj name = Some v" if "path \<in> snd ` set flds" "egress_lookup e path = Some v" for path v
  proof -
    from that(1) obtain name where f: "(name, path) \<in> set flds" by auto
    with assms(4) have "name \<notin> set RESERVED" by (auto simp: list_all_iff)
    then have "jget obj name = Some v"
      using render_fields(1) [OF assms(1)] mapped_field [OF assms(3) f that(2)] by simp
    then show ?thesis ..
  qed
  have d: "distinct (map a_key (ev_attributes e))" "distinct (map a_key (ev_metadata e))"
    using assms(2) by (simp_all add: canonical_event_def strict_sorted_iff)
  have "\<exists>name. jget obj name = Some (JString (ev_id e))"
    using named [OF _ lookup_id] render_fields(2) [OF assms(1)] by blast
  moreover have "\<exists>name. jget obj name = Some (tags_json e)"
    using named [OF _ lookup_tags] render_fields(3) [OF assms(1)] by blast
  moreover have "list_all (carried obj flds ''attr:'' ''attributes'') (ev_attributes e)"
    unfolding list_all_iff using carriedI [OF assms(1,3,4) d(1) _ lookup_content(1) render_extra(1) [OF assms(1)]] by blast
  moreover have "list_all (carried obj flds ''meta:'' ''metadata'') (ev_metadata e)"
    unfolding list_all_iff using carriedI [OF assms(1,3,4) d(2) _ lookup_content(2) render_extra(2) [OF assms(1)]] by blast
  ultimately show ?thesis using render_fields(4) [OF assms(1)] by blast
qed

text \<open>A mapping that calls the tags \<open>governance\<close> passes validation and delivers every event without its
  tags: the governance block replaces them, and they are not added elsewhere.\<close>

theorem mapping_can_drop_tags:
  "validate_path ''policy_tags'' \<and>
   (\<exists>obj. render upper e [(''governance'', ''policy_tags'')] Include None = Some obj
      \<and> (\<forall>name. jget obj name \<noteq> Some (tags_json e)))"
proof -
  let ?flds = "[(''governance'', ''policy_tags'')]"
  have "\<exists>obj. render upper e ?flds Include None = Some obj" by (simp add: render_def Let_def)
  then obtain obj where obj: "render upper e ?flds Include None = Some obj" by blast
  have "map_of (base_object upper e ?flds None) k \<noteq> Some (tags_json e)" for k
    by (simp add: base_object_def mapped_fields_def lookup_tags) (simp add: tags_json_def)
  moreover have "jget obj ''unmapped'' \<noteq> Some (tags_json e)"
    using obj by (auto simp: render_def Let_def base_object_def mapped_fields_def lookup_tags tags_json_def split: if_splits)
  ultimately have "jget obj name \<noteq> Some (tags_json e)" for name using render_get [OF obj, of name] by metis
  with obj show ?thesis by (auto simp: validate_path_def PATHS_def)
qed

section \<open>Deduplication\<close>

text \<open>The abstract window: the last \<open>n\<close> ids that were new.\<close>

definition window :: "nat \<Rightarrow> str list \<Rightarrow> str list" where
  "window n acc = drop (length acc - n) acc"

lemma window_snoc: "0 < n \<Longrightarrow> window n (acc @ [i]) = (if n \<le> length (window n acc) then tl (window n acc) else window n acc) @ [i]"
proof (cases "n \<le> length acc")
  case True
  assume "0 < n"
  with True have "Suc (length acc) - n = Suc (length acc - n)" "Suc (length acc - n) \<le> length acc" by auto
  with True show ?thesis by (simp add: window_def drop_Suc tl_drop)
qed (simp add: window_def)

definition refines_window :: "dedupe \<Rightarrow> str list \<Rightarrow> bool" where
  "refines_window d acc \<longleftrightarrow> 0 < dd_max d \<and> dd_order d = window (dd_max d) acc \<and> dd_seen d = set (dd_order d) \<and> distinct (dd_order d)"

lemma refines_new: "refines_window (dedupe_new n) []"
  by (simp add: refines_window_def dedupe_new_def window_def)

lemma first_time_refines:
  assumes "refines_window d acc" "first_time i d = (new, d')"
  shows "new \<longleftrightarrow> i \<notin> set (window (dd_max d) acc)" "dd_max d' = dd_max d"
    "refines_window d' (if new then acc @ [i] else acc)"
proof -
  let ?w = "window (dd_max d) acc"
  have w: "0 < dd_max d" "dd_order d = ?w" "dd_seen d = set ?w" "distinct ?w"
    using assms(1) by (auto simp: refines_window_def)
  show new: "new \<longleftrightarrow> i \<notin> set ?w"
    using assms(2) w(3) by (auto simp: first_time_def Let_def split: if_splits)
  show mx: "dd_max d' = dd_max d"
    using assms(2) by (auto simp: first_time_def Let_def split: if_splits list.splits)
  show "refines_window d' (if new then acc @ [i] else acc)"
  proof (cases "i \<in> set ?w")
    case True
    with assms w new show ?thesis by (simp add: first_time_def)
  next
    case False
    have tl: "distinct (tl ?w)" "i \<notin> set (tl ?w)" "hd ?w \<notin> set (tl ?w)" if "?w \<noteq> []"
      using w(4) False that by (cases ?w; simp)+
    show ?thesis
    proof (cases "dd_max d \<le> length ?w")
      case True
      with w(1) obtain old rest where r: "?w = old # rest" by (cases ?w) auto
      with True False assms(2) w have "d' = d\<lparr>dd_order := rest @ [i], dd_seen := insert i (dd_seen d - {old})\<rparr>" "new"
        by (auto simp: first_time_def Let_def)
      with r True w tl window_snoc [OF w(1), of acc i] show ?thesis by (auto simp: refines_window_def)
    next
      case short: False
      with False assms(2) w have "d' = d\<lparr>dd_order := ?w @ [i], dd_seen := insert i (dd_seen d)\<rparr>" "new"
        by (auto simp: first_time_def Let_def)
      with short False w window_snoc [OF w(1), of acc i] show ?thesis by (simp add: refines_window_def)
    qed
  qed
qed

fun dedupe_answers :: "dedupe \<Rightarrow> str list \<Rightarrow> bool list" where
  "dedupe_answers d [] = []"
| "dedupe_answers d (i # ids) = (case first_time i d of (new, d') \<Rightarrow> new # dedupe_answers d' ids)"

fun window_answers :: "nat \<Rightarrow> str list \<Rightarrow> str list \<Rightarrow> bool list" where
  "window_answers n acc [] = []"
| "window_answers n acc (i # ids) =
     (let new = i \<notin> set (window n acc) in new # window_answers n (if new then acc @ [i] else acc) ids)"

text \<open>C17. The set and the queue of the deduplicator implement the window of the last ids that were new:
  on every sequence of ids it gives the answers of the abstract window.\<close>

theorem dedupe_refines_window:
  "dedupe_answers (dedupe_new n) ids = window_answers (max n 1) [] ids"
proof -
  have "refines_window d acc \<Longrightarrow> dedupe_answers d ids = window_answers (dd_max d) acc ids" for d acc
  proof (induction ids arbitrary: d acc)
    case (Cons i ids)
    obtain new d' where f: "first_time i d = (new, d')" by force
    note step = first_time_refines [OF Cons.prems f]
    show ?case using f step(1) Cons.IH [OF step(3)] by (simp add: step(2) Let_def)
  qed simp
  from this [OF refines_new, of n] show ?thesis by (simp add: dedupe_new_def)
qed

section \<open>A run of the connector\<close>

definition accepted_ids :: "ed25519 \<Rightarrow> (bytes \<Rightarrow> event option) \<Rightarrow> bytes \<Rightarrow> (bytes \<times> (nat \<Rightarrow> bool)) list \<Rightarrow> str set" where
  "accepted_ids E decode k msgs = {ev_id e | e m. m \<in> set msgs \<and> egress_accept E decode (fst m) k = Inr e}"

definition from_envelope :: "ed25519 \<Rightarrow> (bytes \<Rightarrow> event option) \<Rightarrow> (str \<Rightarrow> str) \<Rightarrow> egress_config \<Rightarrow> bytes
    \<Rightarrow> (bytes \<times> (nat \<Rightarrow> bool)) list \<Rightarrow> event \<times> json \<Rightarrow> bool" where
  "from_envelope E decode upper cfg k msgs s \<longleftrightarrow>
     (\<exists>m canonical. m \<in> set msgs \<and> verify E (fst m) k = Inr canonical \<and> decode canonical = Some (fst s)
        \<and> render upper (fst s) (eg_fields cfg) (eg_unmapped cfg) (eg_label cfg) = Some (snd s))"

lemma accepted_ids_mono: "set msgs \<subseteq> set msgs' \<Longrightarrow> accepted_ids E decode k msgs \<subseteq> accepted_ids E decode k msgs'"
  by (auto simp: accepted_ids_def)

lemma finite_accepted_ids: "finite (accepted_ids E decode k msgs)"
proof (rule finite_subset)
  show "accepted_ids E decode k msgs \<subseteq> (\<lambda>m. ev_id (projr (egress_accept E decode (fst m) k))) ` set msgs"
    by (force simp: accepted_ids_def)
qed simp

lemma from_envelope_mono:
  "set msgs \<subseteq> set msgs' \<Longrightarrow> from_envelope E decode upper cfg k msgs s \<Longrightarrow> from_envelope E decode upper cfg k msgs' s"
  by (auto simp: from_envelope_def)

definition metrics_total :: "egress_state \<Rightarrow> u64" where
  "metrics_total st = (let m = es_metrics st in em_delivered m + em_rejected m + em_deduped m + em_gap_dropped m)"

lemma egress_step_metrics:
  "metrics_total (egress_step E decode upper cfg (Some k) dry m st) = metrics_total st + 1"
  "em_delivered (es_metrics st) = of_nat (length (es_sent st)) \<Longrightarrow>
   em_delivered (es_metrics (egress_step E decode upper cfg (Some k) dry m st))
     = of_nat (length (es_sent (egress_step E decode upper cfg (Some k) dry m st)))"
  by (simp_all add: egress_step_def metrics_total_def Let_def ac_simps split: option.splits sum.splits prod.splits bool.splits)

lemma egress_step_refused:
  assumes "egress_accept E decode (fst m) k = Inl err"
  shows "es_dedupe (egress_step E decode upper cfg (Some k) dry m st) = es_dedupe st"
    "es_sent (egress_step E decode upper cfg (Some k) dry m st) = es_sent st"
  using assms by (simp_all add: egress_step_def Let_def)

lemma egress_step_accepted:
  assumes "egress_accept E decode (fst m) k = Inr e" "first_time (ev_id e) (es_dedupe st) = (new, d)"
  shows "es_dedupe (egress_step E decode upper cfg (Some k) dry m st) = d"
    "es_sent (egress_step E decode upper cfg (Some k) dry m st) = es_sent st
     \<or> new \<and> (\<exists>body. render upper e (eg_fields cfg) (eg_unmapped cfg) (eg_label cfg) = Some body
          \<and> es_sent (egress_step E decode upper cfg (Some k) dry m st) = es_sent st @ [(e, body)])"
  using assms by (simp_all add: egress_step_def Let_def split: option.split bool.split)

text \<open>What holds after the messages \<open>msgs\<close>, where \<open>acc\<close> are the ids that were new, in order.\<close>

definition egress_inv :: "ed25519 \<Rightarrow> (bytes \<Rightarrow> event option) \<Rightarrow> (str \<Rightarrow> str) \<Rightarrow> egress_config \<Rightarrow> bytes
    \<Rightarrow> (bytes \<times> (nat \<Rightarrow> bool)) list \<Rightarrow> egress_state \<Rightarrow> str list \<Rightarrow> bool" where
  "egress_inv E decode upper cfg k msgs st acc \<longleftrightarrow>
     refines_window (es_dedupe st) acc \<and> dd_max (es_dedupe st) = DEDUPE_WINDOW
     \<and> set acc \<subseteq> accepted_ids E decode k msgs
     \<and> (card (accepted_ids E decode k msgs) \<le> DEDUPE_WINDOW \<longrightarrow> distinct acc)
     \<and> subseq (map (\<lambda>s. ev_id (fst s)) (es_sent st)) acc
     \<and> list_all (from_envelope E decode upper cfg k msgs) (es_sent st)"

lemma distinct_window:
  assumes "distinct acc" "set acc \<subseteq> ids" "finite ids" "card ids \<le> n" "i \<notin> set (window n acc)"
  shows "distinct (acc @ [i])"
proof -
  have "length acc = card (set acc)" using distinct_card [OF assms(1)] by simp
  also have "\<dots> \<le> n" using card_mono [OF assms(3,2)] assms(4) by simp
  finally have "length acc \<le> n" .
  with assms(5) have "i \<notin> set acc" by (simp add: window_def)
  with assms(1) show ?thesis by simp
qed

lemma egress_inv_start: "egress_inv E decode upper cfg k [] egress_start []"
  using refines_new [of DEDUPE_WINDOW]
  by (simp add: egress_inv_def egress_start_def dedupe_new_def DEDUPE_WINDOW_def)

lemma egress_inv_more:
  assumes "egress_inv E decode upper cfg k msgs st acc"
  shows "set acc \<subseteq> accepted_ids E decode k (msgs @ [m])"
    "card (accepted_ids E decode k (msgs @ [m])) \<le> DEDUPE_WINDOW \<longrightarrow> distinct acc"
    "list_all (from_envelope E decode upper cfg k (msgs @ [m])) (es_sent st)"
proof -
  have sub: "accepted_ids E decode k msgs \<subseteq> accepted_ids E decode k (msgs @ [m])" by (rule accepted_ids_mono) auto
  with assms show "set acc \<subseteq> accepted_ids E decode k (msgs @ [m])" by (auto simp: egress_inv_def)
  show "card (accepted_ids E decode k (msgs @ [m])) \<le> DEDUPE_WINDOW \<longrightarrow> distinct acc"
    using assms card_mono [OF finite_accepted_ids sub] by (auto simp: egress_inv_def)
  have "set msgs \<subseteq> set (msgs @ [m])" by auto
  with assms show "list_all (from_envelope E decode upper cfg k (msgs @ [m])) (es_sent st)"
    unfolding egress_inv_def list_all_iff by (meson from_envelope_mono)
qed

lemma egress_inv_step:
  assumes inv: "egress_inv E decode upper cfg k msgs st acc"
  shows "\<exists>acc'. egress_inv E decode upper cfg k (msgs @ [m]) (egress_step E decode upper cfg (Some k) dry m st) acc'"
proof (cases "egress_accept E decode (fst m) k")
  case (Inl err)
  have "egress_inv E decode upper cfg k (msgs @ [m]) (egress_step E decode upper cfg (Some k) dry m st) acc"
    using inv egress_inv_more [OF inv, of m] unfolding egress_inv_def egress_step_refused [where upper = upper, OF Inl] by blast
  then show ?thesis ..
next
  case (Inr e)
  obtain new d where f: "first_time (ev_id e) (es_dedupe st) = (new, d)" by force
  from inv have w: "refines_window (es_dedupe st) acc" "dd_max (es_dedupe st) = DEDUPE_WINDOW"
      "subseq (map (\<lambda>s. ev_id (fst s)) (es_sent st)) acc" by (auto simp: egress_inv_def)
  note step = first_time_refines [OF w(1) f, unfolded w(2)]
  note more = egress_inv_more [OF inv, of m]
  let ?st = "egress_step E decode upper cfg (Some k) dry m st" and ?acc = "if new then acc @ [ev_id e] else acc"
  have env: "from_envelope E decode upper cfg k (msgs @ [m]) (e, body)"
    if "render upper e (eg_fields cfg) (eg_unmapped cfg) (eg_label cfg) = Some body" for body
  proof -
    from Inr obtain canonical where "verify E (fst m) k = Inr canonical" "decode canonical = Some e"
      by (auto simp: egress_accept_def ok_or_def split: sum.splits option.splits)
    then show ?thesis using that unfolding from_envelope_def by (intro exI [of _ m] exI [of _ canonical]) simp
  qed
  have "ev_id e \<in> accepted_ids E decode k (msgs @ [m])"
    unfolding accepted_ids_def using Inr by (intro CollectI exI [of _ e] exI [of _ m]) simp
  with more(1) have "set ?acc \<subseteq> accepted_ids E decode k (msgs @ [m])" by simp
  moreover have "card (accepted_ids E decode k (msgs @ [m])) \<le> DEDUPE_WINDOW \<longrightarrow> distinct ?acc"
    using distinct_window [OF _ more(1) finite_accepted_ids] more(2) step(1) by simp
  moreover have "subseq (map (\<lambda>s. ev_id (fst s)) (es_sent ?st)) ?acc"
    using egress_step_accepted(2) [OF Inr f, of upper cfg dry] w(3) by (auto intro: list_emb_append_mono)
  moreover have "list_all (from_envelope E decode upper cfg k (msgs @ [m])) (es_sent ?st)"
    using egress_step_accepted(2) [OF Inr f, of upper cfg dry] more(3) env by auto
  ultimately have "egress_inv E decode upper cfg k (msgs @ [m]) ?st ?acc"
    using step(2,3) egress_step_accepted(1) [OF Inr f, of upper cfg dry] unfolding egress_inv_def by simp
  then show ?thesis ..
qed

lemma egress_run_snoc: "egress_run E decode upper cfg key dry (msgs @ [m]) st
    = egress_step E decode upper cfg key dry m (egress_run E decode upper cfg key dry msgs st)"
  by (simp add: egress_run_def)

lemma egress_run_inv: "\<exists>acc. egress_inv E decode upper cfg k msgs (egress_run E decode upper cfg (Some k) dry msgs egress_start) acc"
proof (induction msgs rule: rev_induct)
  case Nil
  have "egress_run E decode upper cfg (Some k) dry [] egress_start = egress_start" by (simp add: egress_run_def)
  then show ?case using egress_inv_start by metis
next
  case (snoc m msgs)
  then obtain acc where "egress_inv E decode upper cfg k msgs (egress_run E decode upper cfg (Some k) dry msgs egress_start) acc" ..
  from egress_inv_step [OF this, of m dry] show ?case by (simp only: egress_run_snoc)
qed

lemma egress_run_metrics:
  "metrics_total (egress_run E decode upper cfg (Some k) dry msgs egress_start) = of_nat (length msgs)
   \<and> em_delivered (es_metrics (egress_run E decode upper cfg (Some k) dry msgs egress_start))
       = of_nat (length (es_sent (egress_run E decode upper cfg (Some k) dry msgs egress_start)))"
proof (induction msgs rule: rev_induct)
  case Nil
  show ?case by (simp add: egress_run_def egress_start_def metrics_total_def)
next
  case (snoc m msgs)
  then show ?case by (simp add: egress_run_snoc egress_step_metrics)
qed

text \<open>C12. Whatever arrives and however the consumer's server answers: every object delivered is the
  rendering of an event whose envelope verified under the egress key, every message is counted exactly
  once, and while no more ids are in play than the window holds, no event is delivered twice.\<close>

theorem egress_delivers_verified_once:
  assumes "st = egress_run E decode upper cfg (Some k) dry msgs egress_start"
  shows "list_all (from_envelope E decode upper cfg k msgs) (es_sent st)
    \<and> metrics_total st = of_nat (length msgs) \<and> em_delivered (es_metrics st) = of_nat (length (es_sent st))
    \<and> (card (accepted_ids E decode k msgs) \<le> DEDUPE_WINDOW \<longrightarrow> distinct (map (\<lambda>s. ev_id (fst s)) (es_sent st)))"
proof -
  obtain acc where "egress_inv E decode upper cfg k msgs st acc" using egress_run_inv assms by blast
  then show ?thesis
    using egress_run_metrics [of E decode upper cfg k dry msgs] assms by (auto simp: egress_inv_def dest: subseq_distinct)
qed

text \<open>A subject that passes validation is under the egress prefix, so no cue is ever consumed.\<close>

lemma egress_subject_ok: "egress_validate cfg = Inr () \<Longrightarrow>
  starts_with (trim (eg_subject cfg)) EGRESS_PREFIX \<and> \<not> starts_with (trim (eg_subject cfg)) ''ajar.cue.''
  \<and> list_all (\<lambda>f. validate_path (snd f)) (eg_fields cfg) \<and> 0 < eg_attempts cfg"
  by (auto simp: egress_validate_def Let_def find_None_iff list_all_iff split: if_splits option.splits)

section \<open>Examples\<close>

definition ex_fields :: "(str \<times> str) list" where
  "ex_fields = [(''kind'', ''entity_type''), (''markings'', ''policy_tags''), (''speedMs'', ''attr:speed'')]"

definition ex_egress :: egress_config where
  "ex_egress = \<lparr>eg_subject = ''ajar.egress.all'', eg_verifying_key = [], eg_attempts = 2, eg_fields = ex_fields,
     eg_unmapped = Include, eg_label = None\<rparr>"

text \<open>The consumer refuses the first attempt.\<close>

definition ex_messages :: "(bytes \<times> (nat \<Rightarrow> bool)) list" where
  "ex_messages = [(seal toy_scheme [1] [7], \<lambda>n. n = 1), ([1], \<lambda>n. True), (seal toy_scheme [1] [7], \<lambda>n. True)]"

lemma ex_event_canonical: "canonical_event ex_event"
  unfolding ex_event_def by (rule buildable_canonical [OF ex_builder_buildable])

theorem render_keeps_content_witness:
  "\<exists>obj. render to_ascii_uppercase ex_event ex_fields Include None = Some obj
     \<and> (\<exists>name. jget obj name = Some (tags_json ex_event))
     \<and> list_all (carried obj ex_fields ''attr:'' ''attributes'') (ev_attributes ex_event)"
proof -
  have "\<exists>obj. render to_ascii_uppercase ex_event ex_fields Include None = Some obj" by (simp add: render_def Let_def)
  then obtain obj where obj: "render to_ascii_uppercase ex_event ex_fields Include None = Some obj" by blast
  have "btree_ok ex_fields" "list_all (\<lambda>f. fst f \<notin> set RESERVED) ex_fields" by code_simp+
  with render_keeps_content [OF obj ex_event_canonical] obj show ?thesis by blast
qed

theorem egress_delivers_verified_once_witness:
  "\<exists>st. st = egress_run toy_scheme (\<lambda>_. Some ex_event) to_ascii_uppercase ex_egress (Some [7]) False ex_messages egress_start
     \<and> metrics_total st = 3 \<and> distinct (map (\<lambda>s. ev_id (fst s)) (es_sent st))"
proof -
  let ?st = "egress_run toy_scheme (\<lambda>_. Some ex_event) to_ascii_uppercase ex_egress (Some [7]) False ex_messages egress_start"
  have "accepted_ids toy_scheme (\<lambda>_. Some ex_event) [7] ex_messages \<subseteq> {ev_id ex_event}"
    unfolding accepted_ids_def egress_accept_def ok_or_def by (force split: sum.splits)
  then have "card (accepted_ids toy_scheme (\<lambda>_. Some ex_event) [7] ex_messages) \<le> card {ev_id ex_event}"
    by (intro card_mono) auto
  then have "card (accepted_ids toy_scheme (\<lambda>_. Some ex_event) [7] ex_messages) \<le> DEDUPE_WINDOW"
    by (simp add: DEDUPE_WINDOW_def)
  moreover have "length ex_messages = 3" by (simp add: ex_messages_def)
  ultimately show ?thesis
    using egress_delivers_verified_once [OF refl, of toy_scheme "\<lambda>_. Some ex_event" to_ascii_uppercase ex_egress "[7]" ex_messages False]
    by (intro exI [of _ ?st]) simp
qed

end
