(* ===== verification/Replay.thy ===== *)
theory Replay
  imports Stream_Framing F64
begin

text \<open>
  Replay of captures, \<open>common/src/replay.rs\<close>: the reader of classic pcap files, the extraction of the UDP
  payload of a frame, and the source that delivers the payloads with their delays. Durations are numbers
  of nanoseconds; \<open>Duration::div_f64\<close> panics where its result is not a duration, which is the outcome
  \<open>Panicked\<close>.
\<close>

section \<open>The UDP payload of a frame\<close>

definition u16_be_at :: "bytes \<Rightarrow> nat \<Rightarrow> u16 option" where
  "u16_be_at bs off = (case slice_range bs off (off + 2) of Some [a, b] \<Rightarrow> Some (u16_from_be a b) | _ \<Rightarrow> None)"

lemma u16_be_at_inside: "u16_be_at bs off = Some w \<Longrightarrow> off + 2 \<le> length bs"
  by (auto simp: u16_be_at_def slice_range_def split: if_splits)

text \<open>The 802.1Q tags behind the addresses: the type of the payload and where it starts.\<close>

function (sequential) skip_vlan :: "bytes \<Rightarrow> u16 \<Rightarrow> nat \<Rightarrow> (u16 \<times> nat) option" where
  "skip_vlan frame ethertype off =
     (if ethertype = 0x8100 \<or> ethertype = 0x88a8 then
        (case u16_be_at frame (off + 2) of None \<Rightarrow> None | Some et \<Rightarrow> skip_vlan frame et (off + 4))
      else Some (ethertype, off))"
  by pat_completeness auto
termination
  by (relation "measure (\<lambda>(frame, et, off). length frame - off)") (auto dest!: u16_be_at_inside)

declare skip_vlan.simps [simp del]

definition udp_payload :: "bytes \<Rightarrow> u16 option \<Rightarrow> bytes option" where
  "udp_payload frame port =
     Option.bind (u16_be_at frame 12) (\<lambda>et0.
     Option.bind (skip_vlan frame et0 14) (\<lambda>(ethertype, off).
     if ethertype \<noteq> 0x0800 then None
     else Option.bind (slice_range frame off (length frame)) (\<lambda>ip.
       Option.bind (slice_get ip 0) (\<lambda>first.
       let ihl = unat (first AND 0x0f) * 4 in
       if ihl < 20 then None
       else Option.bind (slice_get ip 9) (\<lambda>proto.
         if proto \<noteq> 17 then None
         else Option.bind (slice_range ip ihl (length ip)) (\<lambda>udp.
           Option.bind (u16_be_at udp 2) (\<lambda>dst_port.
           if (case port of Some want \<Rightarrow> dst_port \<noteq> want | None \<Rightarrow> False) then None
           else Option.bind (u16_be_at udp 4) (\<lambda>udp_len.
             if unat udp_len < 8 then None
             else slice_range udp 8 (min (unat udp_len) (length udp)))))))))) "

section \<open>Captures\<close>

datatype pcap_error = PcapShort | PcapMagic | PcapTruncated | PcapLinkType

record datagram =
  dg_delay :: nat
  dg_payload :: bytes

record capture =
  cp_datagrams :: "datagram list"
  cp_skipped :: u64

definition u32_at_end :: "bool \<Rightarrow> bytes \<Rightarrow> nat \<Rightarrow> pcap_error + u32" where
  "u32_at_end le data off =
     (case slice_range data off (off + 4) of
        Some [b0, b1, b2, b3] \<Rightarrow> Inr (if le then u32_from_le b0 b1 b2 b3 else u32_from_be b0 b1 b2 b3)
      | _ \<Rightarrow> Inl PcapTruncated)"

definition pcap_order :: "bytes \<Rightarrow> pcap_error + bool \<times> bool" where
  "pcap_order data =
     (let le = u32_from_le (data ! 0) (data ! 1) (data ! 2) (data ! 3);
          be = u32_from_be (data ! 0) (data ! 1) (data ! 2) (data ! 3)
      in if le = 0xa1b2c3d4 then Inr (True, False)
         else if le = 0xa1b23c4d then Inr (True, True)
         else if be = 0xa1b2c3d4 then Inr (False, False)
         else if be = 0xa1b23c4d then Inr (False, True)
         else Inl PcapMagic)"

function (sequential) pcap_records ::
  "bool \<Rightarrow> bool \<Rightarrow> bytes \<Rightarrow> u16 option \<Rightarrow> nat option \<Rightarrow> nat \<Rightarrow> pcap_error + datagram list \<times> u64" where
  "pcap_records le nanos data port prev off =
     (if length data < off + 16 then Inr ([], 0)
      else case u32_at_end le data off of Inl e \<Rightarrow> Inl e | Inr ts_sec \<Rightarrow>
           case u32_at_end le data (off + 4) of Inl e \<Rightarrow> Inl e | Inr ts_frac \<Rightarrow>
           case u32_at_end le data (off + 8) of Inl e \<Rightarrow> Inl e | Inr incl_len \<Rightarrow>
           case slice_range data (off + 16) (off + 16 + unat incl_len) of
             None \<Rightarrow> Inr ([], 0)
           | Some frame \<Rightarrow>
               (let ts_ns = unat ts_sec * 1000000000 + (if nanos then unat ts_frac else unat ts_frac * 1000);
                    next_off = off + 16 + unat incl_len
                in case udp_payload frame port of
                     Some payload \<Rightarrow>
                       try_bind (pcap_records le nanos data port (Some ts_ns) next_off) (\<lambda>(ds, skipped).
                         Inr (\<lparr>dg_delay = (case prev of Some p \<Rightarrow> ts_ns - p | None \<Rightarrow> 0), dg_payload = payload\<rparr> # ds, skipped))
                   | None \<Rightarrow>
                       try_bind (pcap_records le nanos data port prev next_off) (\<lambda>(ds, skipped). Inr (ds, skipped + 1))))"
  by pat_completeness auto
termination
  by (relation "measure (\<lambda>(le, nanos, data, port, prev, off). length data - off)") auto

declare pcap_records.simps [simp del]

definition parse_pcap :: "bytes \<Rightarrow> u16 option \<Rightarrow> pcap_error + capture" where
  "parse_pcap data port =
     (if length data < 24 then Inl PcapShort
      else try_bind (pcap_order data) (\<lambda>(le, nanos).
           try_bind (u32_at_end le data 20) (\<lambda>linktype.
           if linktype \<noteq> 1 then Inl PcapLinkType
           else try_bind (pcap_records le nanos data port None 24) (\<lambda>(ds, skipped).
             Inr \<lparr>cp_datagrams = ds, cp_skipped = skipped\<rparr>))))"

section \<open>The source\<close>

record replay_source =
  rs_datagrams :: "datagram list"
  rs_next :: nat
  rs_speed :: f64
  rs_max_gap :: nat
  rs_looping :: bool

datatype replay_error = BadSpeed | NoCapture | BadCapture pcap_error | NoDatagrams

text \<open>\<open>open\<close>; \<open>data\<close> is what reading the file gave.\<close>

definition replay_open :: "bytes option \<Rightarrow> f64 \<Rightarrow> bool \<Rightarrow> u16 option \<Rightarrow> nat \<Rightarrow> replay_error + replay_source" where
  "replay_open file speed looping port max_gap_ms =
     (if f64_le speed (f64_of_int 0) then Inl BadSpeed
      else case file of None \<Rightarrow> Inl NoCapture
      | Some data \<Rightarrow>
          (case parse_pcap data port of
             Inl e \<Rightarrow> Inl (BadCapture e)
           | Inr c \<Rightarrow>
               if cp_datagrams c = [] then Inl NoDatagrams
               else Inr \<lparr>rs_datagrams = cp_datagrams c, rs_next = 0, rs_speed = speed,
                         rs_max_gap = max_gap_ms * 1000000, rs_looping = looping\<rparr>))"

text \<open>\<open>Duration::as_secs_f64\<close> and \<open>Duration::from_secs_f64\<close>, which panics on a negative, overflowing or
  non-finite number of seconds and rounds to the nearest nanosecond.\<close>

definition as_secs_f64 :: "nat \<Rightarrow> f64" where
  "as_secs_f64 ns = f64_add (f64_of_int (int (ns div 1000000000)))
     (f64_div (f64_of_int (int (ns mod 1000000000))) (f64_of_int 1000000000))"

fun from_secs_f64 :: "f64 \<Rightarrow> nat option" where
  "from_secs_f64 (FNum s q) =
     (if signed_val s q < 0 \<or> 2 ^ 64 \<le> q then None
      else let ns = round_half_even (q * 1000000000)
           in if 2 ^ 64 * 1000000000 \<le> ns then None else Some (nat ns))"
| "from_secs_f64 _ = None"

definition duration_div_f64 :: "nat \<Rightarrow> f64 \<Rightarrow> nat option" where
  "duration_div_f64 d speed = from_secs_f64 (f64_div (as_secs_f64 d) speed)"

datatype replay_outcome = Delivered nat bytes | Panicked | Pending | Spinning

text \<open>One call of \<open>recv\<close>. A looping source without datagrams would spin; \<open>open\<close> never makes one.\<close>

definition replay_next :: "nat \<Rightarrow> datagram \<Rightarrow> replay_source \<Rightarrow> replay_outcome" where
  "replay_next buf_len d s =
     (case duration_div_f64 (dg_delay d) (rs_speed s) of
        None \<Rightarrow> Panicked
      | Some t \<Rightarrow> Delivered (min t (rs_max_gap s)) (take (min (length (dg_payload d)) buf_len) (dg_payload d)))"

definition replay_recv :: "nat \<Rightarrow> replay_source \<Rightarrow> replay_source \<times> replay_outcome" where
  "replay_recv buf_len s =
     (case slice_get (rs_datagrams s) (rs_next s) of
        Some d \<Rightarrow> (s\<lparr>rs_next := rs_next s + 1\<rparr>, replay_next buf_len d s)
      | None \<Rightarrow>
          if rs_looping s then
            (case slice_get (rs_datagrams s) 0 of
               Some d \<Rightarrow> (s\<lparr>rs_next := 1\<rparr>, replay_next buf_len d s)
             | None \<Rightarrow> (s\<lparr>rs_next := 0\<rparr>, Spinning))
          else (s, Pending))"

fun replay_run :: "nat \<Rightarrow> nat \<Rightarrow> replay_source \<Rightarrow> replay_outcome list" where
  "replay_run 0 buf_len s = []"
| "replay_run (Suc n) buf_len s = (case replay_recv buf_len s of (s', out) \<Rightarrow> out # replay_run n buf_len s')"

section \<open>Writing captures\<close>

definition u32_enc :: "bool \<Rightarrow> u32 \<Rightarrow> bytes" where
  "u32_enc le w = (if le then rev (u32_to_be w) else u32_to_be w)"

record packet =
  pk_sec :: u32
  pk_frac :: u32
  pk_orig :: u32
  pk_frame :: bytes

definition packet_head :: "bool \<Rightarrow> packet \<Rightarrow> bytes" where
  "packet_head le p = u32_enc le (pk_sec p) @ u32_enc le (pk_frac p) @ u32_enc le (of_nat (length (pk_frame p)))
     @ u32_enc le (pk_orig p)"

definition enc_packet :: "bool \<Rightarrow> packet \<Rightarrow> bytes" where
  "enc_packet le p = packet_head le p @ pk_frame p"

definition pcap_header :: "bool \<Rightarrow> bool \<Rightarrow> bytes \<Rightarrow> bytes" where
  "pcap_header le nanos middle = u32_enc le (if nanos then 0xa1b23c4d else 0xa1b2c3d4) @ middle @ u32_enc le 1"

text \<open>What a capture of the packets holds: the payloads of those that match, each with the time since the
  one before, and the number of the others.\<close>

definition packet_ns :: "bool \<Rightarrow> packet \<Rightarrow> nat" where
  "packet_ns nanos p = unat (pk_sec p) * 1000000000 + (if nanos then unat (pk_frac p) else unat (pk_frac p) * 1000)"

fun captured :: "bool \<Rightarrow> u16 option \<Rightarrow> nat option \<Rightarrow> packet list \<Rightarrow> datagram list" where
  "captured nanos port prev [] = []"
| "captured nanos port prev (p # ps) =
     (case udp_payload (pk_frame p) port of
        None \<Rightarrow> captured nanos port prev ps
      | Some payload \<Rightarrow>
          \<lparr>dg_delay = (case prev of Some t \<Rightarrow> packet_ns nanos p - t | None \<Rightarrow> 0), dg_payload = payload\<rparr>
          # captured nanos port (Some (packet_ns nanos p)) ps)"

lemma captured_payloads:
  "map dg_payload (captured nanos port prev ps) = List.map_filter (\<lambda>p. udp_payload (pk_frame p) port) ps"
  by (induction ps arbitrary: prev) (auto simp: map_filter_simps split: option.splits)

lemma length_u32_enc [simp]: "length (u32_enc le w) = 4"
  by (simp add: u32_enc_def)

lemma length_packet_head: "length (packet_head le p) = 16"
  by (simp add: packet_head_def)

lemma u32_at_enc: "u32_at_end le (pre @ u32_enc le w @ rest) (length pre) = Inr w"
  by (simp add: u32_at_end_def slice_range_def u32_enc_def u32_to_be_def u32_from_le_def u32_from_to_be)

lemma u32_at_packet:
  "u32_at_end le (pre @ packet_head le p @ rest) (length pre) = Inr (pk_sec p)"
  "u32_at_end le (pre @ packet_head le p @ rest) (length pre + 4) = Inr (pk_frac p)"
  "u32_at_end le (pre @ packet_head le p @ rest) (length pre + 8) = Inr (of_nat (length (pk_frame p)))"
  using u32_at_enc [of le pre "pk_sec p"] u32_at_enc [of le "pre @ u32_enc le (pk_sec p)" "pk_frac p"]
    u32_at_enc [of le "pre @ u32_enc le (pk_sec p) @ u32_enc le (pk_frac p)" "of_nat (length (pk_frame p))"]
  by (simp_all add: packet_head_def)

text \<open>A record that the end of the file cuts short.\<close>

definition torn_record :: "bool \<Rightarrow> bytes \<Rightarrow> bool" where
  "torn_record le tail \<longleftrightarrow> length tail < 16
     \<or> (\<exists>p k. length (pk_frame p) < 2 ^ 32 \<and> k < length (pk_frame p) \<and> tail = packet_head le p @ take k (pk_frame p))"

lemma torn_stops:
  assumes "torn_record le tail"
  shows "pcap_records le nanos (pre @ tail) port prev (length pre) = Inr ([], 0)"
proof (cases "length tail < 16")
  case False
  with assms obtain p k where p: "length (pk_frame p) < 2 ^ 32" "k < length (pk_frame p)"
      "tail = packet_head le p @ take k (pk_frame p)"
    by (auto simp: torn_record_def)
  have "unat (of_nat (length (pk_frame p)) :: u32) = length (pk_frame p)" using p(1) by (simp add: unat_of_nat take_bit_nat_def)
  with p(2) show ?thesis
    unfolding p(3) using length_packet_head [of le p]
    by (subst pcap_records.simps) (simp add: u32_at_packet slice_range_def)
qed (subst pcap_records.simps, simp)

lemma pcap_records_enc:
  assumes "list_all (\<lambda>p. length (pk_frame p) < 2 ^ 32) ps" "torn_record le tail"
  shows "pcap_records le nanos (pre @ concat (map (enc_packet le) ps) @ tail) port prev (length pre)
    = Inr (captured nanos port prev ps, of_nat (length (filter (\<lambda>p. udp_payload (pk_frame p) port = None) ps)))"
  using assms(1)
proof (induction ps arbitrary: pre prev)
  case Nil
  then show ?case using torn_stops [OF assms(2)] by simp
next
  case (Cons p ps)
  let ?rest = "concat (map (enc_packet le) ps) @ tail" and ?n = "length (pk_frame p)"
  let ?data = "pre @ packet_head le p @ pk_frame p @ ?rest"
  have n: "unat (of_nat ?n :: u32) = ?n" using Cons.prems by (simp add: unat_of_nat take_bit_nat_def)
  have nx: "length pre + 16 + ?n = length (pre @ enc_packet le p)" by (simp add: enc_packet_def length_packet_head)
  have d: "?data = (pre @ enc_packet le p) @ ?rest" by (simp add: enc_packet_def)
  have IH: "pcap_records le nanos ?data port t (length pre + 16 + ?n)
      = Inr (captured nanos port t ps, of_nat (length (filter (\<lambda>p. udp_payload (pk_frame p) port = None) ps)))" for t
    unfolding nx d using Cons.IH [of "pre @ enc_packet le p" t] Cons.prems by simp
  have "slice_range ?data (length pre + 16) (length pre + 16 + ?n) = Some (pk_frame p)"
    using length_packet_head [of le p] by (simp add: slice_range_def)
  then have "pcap_records le nanos ?data port prev (length pre)
      = Inr (captured nanos port prev (p # ps), of_nat (length (filter (\<lambda>p. udp_payload (pk_frame p) port = None) (p # ps))))"
    using n length_packet_head [of le p]
    by (subst pcap_records.simps) (simp add: u32_at_packet IH Let_def add.commute [of _ "1 :: u64"] split: option.split flip: packet_ns_def)
  moreover have "pre @ concat (map (enc_packet le) (p # ps)) @ tail = ?data" by (simp add: enc_packet_def [of le p])
  ultimately show ?case by (simp only:)
qed

lemma magic_bytes:
  "u32_to_be 0xa1b2c3d4 = [0xa1, 0xb2, 0xc3, 0xd4]" "u32_to_be 0xa1b23c4d = [0xa1, 0xb2, 0x3c, 0x4d]"
  "u32_from_be 0xa1 0xb2 0xc3 0xd4 = 0xa1b2c3d4" "u32_from_be 0xa1 0xb2 0x3c 0x4d = 0xa1b23c4d"
  "u32_from_be 0xd4 0xc3 0xb2 0xa1 = 0xd4c3b2a1" "u32_from_be 0x4d 0x3c 0xb2 0xa1 = 0x4d3cb2a1"
  by (simp_all add: u32_to_be_def u32_from_be_def)

lemma pcap_order_header: "pcap_order (pcap_header le nanos middle @ rest) = Inr (le, nanos)"
  by (cases le; cases nanos)
    (simp_all add: pcap_order_def pcap_header_def u32_enc_def magic_bytes u32_from_le_def Let_def)

lemma parse_pcap_enc:
  assumes "length middle = 16" "list_all (\<lambda>p. length (pk_frame p) < 2 ^ 32) ps" "torn_record le tail"
  shows "parse_pcap (pcap_header le nanos middle @ concat (map (enc_packet le) ps) @ tail) port
    = Inr \<lparr>cp_datagrams = captured nanos port None ps,
           cp_skipped = of_nat (length (filter (\<lambda>p. udp_payload (pk_frame p) port = None) ps))\<rparr>"
proof -
  let ?h = "pcap_header le nanos middle" and ?r = "concat (map (enc_packet le) ps) @ tail"
  have h: "length ?h = 24" using assms(1) by (simp add: pcap_header_def)
  have "u32_at_end le (?h @ ?r) 20 = Inr 1"
    using u32_at_enc [of le "u32_enc le (if nanos then 0xa1b23c4d else 0xa1b2c3d4) @ middle" 1 ?r] assms(1)
    by (simp add: pcap_header_def)
  moreover have "pcap_records le nanos (?h @ ?r) port None 24
      = Inr (captured nanos port None ps, of_nat (length (filter (\<lambda>p. udp_payload (pk_frame p) port = None) ps)))"
    using pcap_records_enc [OF assms(2,3), of nanos ?h port None] h by simp
  ultimately show ?thesis using h by (simp add: parse_pcap_def pcap_order_header)
qed

section \<open>Writing frames\<close>

record udp_frame =
  uf_addresses :: bytes
  uf_vlans :: "(bool \<times> u8 \<times> u8) list"
  uf_ip :: bytes
  uf_src_port :: "u8 \<times> u8"
  uf_port :: u16
  uf_checksum :: "u8 \<times> u8"
  uf_payload :: bytes
  uf_padding :: bytes

definition enc_vlan :: "bool \<times> u8 \<times> u8 \<Rightarrow> bytes" where
  "enc_vlan v = (case v of (outer, a, b) \<Rightarrow> (if outer then [0x88, 0xa8] else [0x81, 0x00]) @ [a, b])"

definition enc_udp :: "udp_frame \<Rightarrow> bytes" where
  "enc_udp f = [fst (uf_src_port f), snd (uf_src_port f)] @ u16_to_be (uf_port f) @ u16_to_be (of_nat (8 + length (uf_payload f)))
     @ [fst (uf_checksum f), snd (uf_checksum f)] @ uf_payload f @ uf_padding f"

definition enc_frame :: "udp_frame \<Rightarrow> bytes" where
  "enc_frame f = uf_addresses f @ concat (map enc_vlan (uf_vlans f)) @ [0x08, 0x00] @ uf_ip f @ enc_udp f"

definition udp_frame_ok :: "udp_frame \<Rightarrow> bool" where
  "udp_frame_ok f \<longleftrightarrow> length (uf_addresses f) = 12 \<and> 20 \<le> length (uf_ip f)
     \<and> length (uf_ip f) = unat (uf_ip f ! 0 AND 0x0f) * 4 \<and> uf_ip f ! 9 = 17 \<and> 8 + length (uf_payload f) < 2 ^ 16"

lemma u16_at_enc: "u16_be_at (pre @ a # b # rest) (length pre) = Some (u16_from_be a b)"
  by (simp add: u16_be_at_def slice_range_def)

lemma u16_at_some: "off + 2 \<le> length bs \<Longrightarrow> \<exists>w. u16_be_at bs off = Some w"
proof -
  assume l: "off + 2 \<le> length bs"
  then have "Suc (Suc 0) \<le> length (drop off bs)" by simp
  then obtain a b xs where "drop off bs = a # b # xs" unfolding Suc_le_length_iff by blast
  with l show ?thesis by (simp add: u16_be_at_def slice_range_def)
qed

lemma type_bytes: "u16_from_be 0x81 0x00 = 0x8100" "u16_from_be 0x88 0xa8 = 0x88a8" "u16_from_be 0x08 0x00 = 0x0800"
  by (simp_all add: u16_from_be_def)

lemma skip_vlans:
  assumes "u16_be_at (pre @ concat (map enc_vlan vs) @ 0x08 # 0x00 # rest) (length pre) = Some et"
  shows "skip_vlan (pre @ concat (map enc_vlan vs) @ 0x08 # 0x00 # rest) et (length pre + 2)
    = Some (0x0800, length pre + length (concat (map enc_vlan vs)) + 2)"
  using assms
proof (induction vs arbitrary: pre et)
  case Nil
  then have "et = 0x0800" using u16_at_enc [of pre "0x08" "0x00" rest] by (simp add: type_bytes)
  then show ?case by (subst skip_vlan.simps) simp
next
  case (Cons v vs)
  obtain outer a b where v: "v = (outer, a, b)" by (cases v) auto
  let ?pre = "pre @ enc_vlan v" and ?frame = "pre @ concat (map enc_vlan (v # vs)) @ 0x08 # 0x00 # rest"
  have l: "length (enc_vlan v) = 4" by (simp add: v enc_vlan_def)
  have f: "?frame = ?pre @ concat (map enc_vlan vs) @ 0x08 # 0x00 # rest" by simp
  have "et = 0x8100 \<or> et = 0x88a8"
    using Cons.prems u16_at_enc [of pre] by (auto simp: v enc_vlan_def type_bytes split: if_splits)
  moreover obtain et' where et': "u16_be_at ?frame (length ?pre) = Some et'"
    using u16_at_some [of "length ?pre" ?frame] by auto
  ultimately show ?case
    using Cons.IH [of ?pre et'] l by (subst skip_vlan.simps) (simp add: numeral_eq_Suc)
qed

lemma drop_enc_frame:
  assumes "length (uf_addresses f) = 12"
  shows "slice_range (enc_frame f) (14 + length (concat (map enc_vlan (uf_vlans f)))) (length (enc_frame f)) = Some (uf_ip f @ enc_udp f)"
  using assms by (simp add: slice_range_def enc_frame_def)

lemma udp_header:
  "u16_be_at (enc_udp f) 2 = Some (uf_port f)" "u16_be_at (enc_udp f) 4 = Some (of_nat (8 + length (uf_payload f)))"
  "8 + length (uf_payload f) < 2 ^ 16 \<Longrightarrow> slice_range (enc_udp f) 8 (min (8 + length (uf_payload f)) (length (enc_udp f))) = Some (uf_payload f)"
proof -
  have u: "u16_to_be w = [ucast (drop_bit 8 w), ucast w]" "u16_from_be (ucast (drop_bit 8 w)) (ucast w) = w" for w
    using u16_from_to_be [of w] by (simp_all add: u16_to_be_def)
  show "u16_be_at (enc_udp f) 2 = Some (uf_port f)" "u16_be_at (enc_udp f) 4 = Some (of_nat (8 + length (uf_payload f)))"
    by (simp_all add: enc_udp_def u16_be_at_def slice_range_def u)
  show "slice_range (enc_udp f) 8 (min (8 + length (uf_payload f)) (length (enc_udp f))) = Some (uf_payload f)"
    by (simp add: enc_udp_def slice_range_def u(1))
qed

lemma unat_u16_of_nat: "k < 2 ^ 16 \<Longrightarrow> unat (of_nat k :: u16) = k"
  by (simp add: unat_of_nat take_bit_nat_def)

lemma udp_payload_enc:
  assumes "udp_frame_ok f"
  shows "udp_payload (enc_frame f) port = (if port = None \<or> port = Some (uf_port f) then Some (uf_payload f) else None)"
proof -
  let ?frame = "enc_frame f" and ?ip = "uf_ip f @ enc_udp f"
  have ok: "length (uf_addresses f) = 12" "20 \<le> length (uf_ip f)" "length (uf_ip f) = unat (uf_ip f ! 0 AND 0x0f) * 4"
      "uf_ip f ! 9 = 17" "8 + length (uf_payload f) < 2 ^ 16"
    using assms by (auto simp: udp_frame_ok_def)
  have fr: "?frame = uf_addresses f @ concat (map enc_vlan (uf_vlans f)) @ 0x08 # 0x00 # ?ip" by (simp add: enc_frame_def)
  have l: "length ?frame = 14 + length (concat (map enc_vlan (uf_vlans f))) + length ?ip"
    using ok(1) unfolding fr by (simp del: length_concat)
  obtain et where et: "u16_be_at ?frame 12 = Some et" using u16_at_some [of 12 ?frame] l by auto
  have sk: "skip_vlan ?frame et 14 = Some (0x0800, 14 + length (concat (map enc_vlan (uf_vlans f))))"
    using skip_vlans [of "uf_addresses f" "uf_vlans f" ?ip et] et ok(1) unfolding fr by (simp add: ac_simps)
  have ip: "slice_get ?ip 0 = Some (uf_ip f ! 0)" "slice_get ?ip 9 = Some 17"
    using ok(2,4) by (auto simp: slice_get_def nth_append)
  have udp: "slice_range ?ip (unat (uf_ip f ! 0 AND 0x0f) * 4) (length ?ip) = Some (enc_udp f)"
    unfolding ok(3) [symmetric] by (simp add: slice_range_def)
  have n: "unat (of_nat (8 + length (uf_payload f)) :: u16) = 8 + length (uf_payload f)"
    using ok(5) unat_u16_of_nat by blast
  have ihl: "\<not> unat (uf_ip f ! 0 AND 0x0f) * 4 < 20" using ok(2,3) by simp
  show ?thesis
    unfolding udp_payload_def et sk drop_enc_frame [OF ok(1)] bind.bind_lunit option.case prod.case ip Let_def if_not_P [OF ihl] udp
      udp_header(1,2) n
    using udp_header(3) [OF ok(5)] by (simp split: option.split)
qed

section \<open>Properties\<close>

text \<open>C11. The reader inverts the writer of captures, in both byte orders and resolutions: of the packets
  written it returns exactly the payloads that match the port, in order, each with the time since the one
  before, and counts the others; a record that the end of the file cuts short is left out. A UDP packet
  under any VLAN tags and IP options matches by its destination port and gives its payload without the
  padding.\<close>

theorem pcap_roundtrip:
  assumes "length middle = 16" "list_all (\<lambda>p. length (pk_frame p) < 2 ^ 32) ps" "torn_record le tail" "udp_frame_ok f"
  shows "parse_pcap (pcap_header le nanos middle @ concat (map (enc_packet le) ps) @ tail) port
      = Inr \<lparr>cp_datagrams = captured nanos port None ps,
             cp_skipped = of_nat (length (filter (\<lambda>p. udp_payload (pk_frame p) port = None) ps))\<rparr>
    \<and> map dg_payload (captured nanos port None ps) = List.map_filter (\<lambda>p. udp_payload (pk_frame p) port) ps
    \<and> udp_payload (enc_frame f) port = (if port = None \<or> port = Some (uf_port f) then Some (uf_payload f) else None)"
  using parse_pcap_enc [OF assms(1-3)] captured_payloads udp_payload_enc [OF assms(4)] by simp

definition replay_ready :: "nat \<Rightarrow> replay_source \<Rightarrow> bool" where
  "replay_ready buf_len s \<longleftrightarrow> rs_datagrams s \<noteq> []
     \<and> list_all (\<lambda>d. length (dg_payload d) \<le> buf_len \<and> duration_div_f64 (dg_delay d) (rs_speed s) \<noteq> None) (rs_datagrams s)"

text \<open>How a datagram is delivered: whole, after its delay over the speed, at most the largest gap.\<close>

definition replayed :: "replay_source \<Rightarrow> datagram \<Rightarrow> replay_outcome" where
  "replayed s d = Delivered (min (the (duration_div_f64 (dg_delay d) (rs_speed s))) (rs_max_gap s)) (dg_payload d)"

lemma replay_next_replayed:
  "replay_ready buf_len s \<Longrightarrow> d \<in> set (rs_datagrams s) \<Longrightarrow> replay_next buf_len d s = replayed s d"
  by (auto simp: replay_ready_def list_all_iff replay_next_def replayed_def split: option.splits)

lemma mod_shift: "map (\<lambda>i. f (i mod k)) [k + a..<k + a + n] = map (\<lambda>i. f (i mod k)) [a..<a + n]" for k :: nat
  by (rule nth_equalityI) (simp_all add: add.assoc)

lemma replay_run_looping:
  assumes "replay_ready buf_len s" "rs_looping s" "rs_next s \<le> length (rs_datagrams s)"
  shows "replay_run n buf_len s
    = map (\<lambda>i. replayed s (rs_datagrams s ! (i mod length (rs_datagrams s)))) [rs_next s..<rs_next s + n]"
  using assms
proof (induction n arbitrary: s)
  case (Suc n)
  let ?k = "length (rs_datagrams s)"
  have step: "replay_run n buf_len (s\<lparr>rs_next := j\<rparr>)
      = map (\<lambda>i. replayed s (rs_datagrams s ! (i mod ?k))) [j..<j + n]" if "j \<le> ?k" for j
  proof -
    have "replay_ready buf_len (s\<lparr>rs_next := j\<rparr>)" "replayed (s\<lparr>rs_next := j\<rparr>) = replayed s"
      using Suc.prems by (auto simp: replay_ready_def replayed_def)
    then show ?thesis using Suc.IH [of "s\<lparr>rs_next := j\<rparr>"] Suc.prems(2) that by simp
  qed
  have upt: "[rs_next s..<rs_next s + Suc n] = rs_next s # [Suc (rs_next s)..<Suc (rs_next s) + n]"
    by (simp add: upt_conv_Cons)
  show ?case
  proof (cases "rs_next s < ?k")
    case True
    with step [of "Suc (rs_next s)"] replay_next_replayed [OF Suc.prems(1), of "rs_datagrams s ! rs_next s"] show ?thesis
      unfolding upt by (simp add: replay_recv_def)
  next
    case False
    then have k: "rs_next s = ?k" "0 < ?k" using Suc.prems by (auto simp: replay_ready_def)
    let ?f = "\<lambda>i. replayed s (rs_datagrams s ! (i mod ?k))"
    have "replay_run (Suc n) buf_len s = ?f ?k # replay_run n buf_len (s\<lparr>rs_next := 1\<rparr>)"
      using k Suc.prems(2) replay_next_replayed [OF Suc.prems(1), of "rs_datagrams s ! 0"] by (simp add: replay_recv_def slice_get_def)
    also have "replay_run n buf_len (s\<lparr>rs_next := 1\<rparr>) = map ?f [1..<1 + n]" using k(2) by (intro step) linarith
    also have "\<dots> = map ?f [?k + 1..<?k + 1 + n]"
      using mod_shift [of "\<lambda>i. replayed s (rs_datagrams s ! i)" ?k 1 n] by (rule sym)
    finally show ?thesis unfolding upt using k(1) by (simp del: upt_Suc replay_run.simps)
  qed
qed simp

lemma replay_run_once:
  assumes "replay_ready buf_len s" "\<not> rs_looping s"
  shows "replay_run n buf_len s
    = take n (map (replayed s) (drop (rs_next s) (rs_datagrams s)))
      @ replicate (n - (length (rs_datagrams s) - rs_next s)) Pending"
  using assms
proof (induction n arbitrary: s)
  case (Suc n)
  show ?case
  proof (cases "rs_next s < length (rs_datagrams s)")
    case True
    let ?s = "s\<lparr>rs_next := rs_next s + 1\<rparr>"
    have "replay_ready buf_len ?s" "\<not> rs_looping ?s" "replayed ?s = replayed s"
      using Suc.prems by (auto simp: replay_ready_def replayed_def)
    with Suc.IH [of ?s] True replay_next_replayed [OF Suc.prems(1), of "rs_datagrams s ! rs_next s"] show ?thesis
      by (simp add: replay_recv_def Cons_nth_drop_Suc [symmetric])
  next
    case False
    with Suc show ?thesis by (simp add: replay_recv_def slice_get_def)
  qed
qed simp

text \<open>The source delivers the datagrams in the order of the capture, each one whole and after at most
  the largest gap: over and over when it loops, otherwise once, and then it waits for ever.\<close>

theorem replay_in_order:
  assumes "replay_ready buf_len s" "rs_next s = 0"
  shows "replay_run n buf_len s =
    (if rs_looping s then map (\<lambda>i. replayed s (rs_datagrams s ! (i mod length (rs_datagrams s)))) [0..<n]
     else take n (map (replayed s) (rs_datagrams s)) @ replicate (n - length (rs_datagrams s)) Pending)"
  using replay_run_looping [OF assms(1)] replay_run_once [OF assms(1)] assms(2) by simp

text \<open>A speed that is not a number passes the check of \<open>open\<close>, and the first delivery panics.\<close>

lemma nan_speed_panics:
  assumes "replay_open (Some data) FNaN looping port gap = Inr s"
  shows "snd (replay_recv buf_len s) = Panicked"
proof -
  from assms obtain c where "parse_pcap data port = Inr c" "cp_datagrams c \<noteq> []"
      "s = \<lparr>rs_datagrams = cp_datagrams c, rs_next = 0, rs_speed = FNaN, rs_max_gap = gap * 1000000, rs_looping = looping\<rparr>"
    by (auto simp: replay_open_def split: if_splits sum.splits)
  moreover have "f64_div x FNaN = FNaN" for x by (cases x) auto
  ultimately show ?thesis
    by (simp add: replay_recv_def slice_get_def replay_next_def duration_div_f64_def)
qed

lemma nan_speed_opens:
  "parse_pcap data port = Inr c \<Longrightarrow> cp_datagrams c \<noteq> [] \<Longrightarrow> \<exists>s. replay_open (Some data) FNaN looping port gap = Inr s"
  by (simp add: replay_open_def f64_le_def f64_of_rat_def fl_def Let_def)

section \<open>Examples\<close>

definition ex_udp :: udp_frame where
  "ex_udp = \<lparr>uf_addresses = replicate 12 1, uf_vlans = [(True, 0, 7)], uf_ip = [0x45] @ replicate 8 0 @ [17] @ replicate 10 0,
     uf_src_port = (0, 1), uf_port = 8600, uf_checksum = (0, 0), uf_payload = [1, 2, 3], uf_padding = [0]\<rparr>"

definition ex_packets :: "packet list" where
  "ex_packets = [\<lparr>pk_sec = 10, pk_frac = 0, pk_orig = 60, pk_frame = enc_frame ex_udp\<rparr>,
     \<lparr>pk_sec = 11, pk_frac = 5, pk_orig = 60, pk_frame = [0]\<rparr>]"

theorem pcap_roundtrip_witness:
  "\<exists>c. parse_pcap (pcap_header True False (replicate 16 0) @ concat (map (enc_packet True) ex_packets) @ [1, 2]) (Some 8600) = Inr c
     \<and> map dg_payload (cp_datagrams c) = List.map_filter (\<lambda>p. udp_payload (pk_frame p) (Some 8600)) ex_packets"
proof -
  have "list_all (\<lambda>p. length (pk_frame p) < 2 ^ 32) ex_packets" by (simp add: ex_packets_def ex_udp_def enc_frame_def enc_udp_def enc_vlan_def u16_to_be_def)
  moreover have "torn_record True [1, 2]" by (simp add: torn_record_def)
  moreover have "udp_frame_ok ex_udp" by (simp add: udp_frame_ok_def ex_udp_def nth_append)
  ultimately show ?thesis using pcap_roundtrip [of "replicate 16 0" ex_packets True "[1, 2]" ex_udp False "Some 8600"] by simp
qed

definition ex_source :: replay_source where
  "ex_source = \<lparr>rs_datagrams = [\<lparr>dg_delay = 0, dg_payload = [1]\<rparr>, \<lparr>dg_delay = 2000000000, dg_payload = [2]\<rparr>], rs_next = 0,
     rs_speed = f64_of_int 2, rs_max_gap = 500000000, rs_looping = True\<rparr>"

theorem replay_in_order_witness:
  "replay_run 3 10 ex_source = [Delivered 0 [1], Delivered 500000000 [2], Delivered 0 [1]]"
proof -
  have "replay_ready 10 ex_source" by code_simp
  moreover have "map (\<lambda>i. replayed ex_source (rs_datagrams ex_source ! (i mod length (rs_datagrams ex_source)))) [0..<3]
      = [Delivered 0 [1], Delivered 500000000 [2], Delivered 0 [1]]"
    by code_simp
  ultimately show ?thesis using replay_in_order [of 10 ex_source 3] by (simp add: ex_source_def)
qed

end
