(* ===== verification/Tak_Relay.thy ===== *)
theory Tak_Relay
  imports Str_Ops "HOL-Library.Sublist"
begin

text \<open>
  The TAK egress, \<open>tak-egress/src\<close>: the bounded buffer between NATS and TAK (\<open>lib.rs\<close>), the link that writes
  each payload as it is (\<open>tak.rs\<close>), and the configuration (\<open>config.rs\<close>). What the network does is an
  argument of each send: whether a connection comes up and whether the write succeeds.
\<close>

section \<open>Configuration\<close>

record tak_config =
  tc_url :: str
  tc_tls_ca :: "str option"
  tc_tls_cert :: "str option"
  tc_tls_key :: "str option"
  tc_server_name :: "str option"
  tc_interface :: "str option"
  tc_multicast_ttl :: u32
  tc_buffer_max :: nat

text \<open>\<open>str::trim_start_matches\<close> with a string removes it as often as it leads.\<close>

function (sequential) trim_start_str :: "str \<Rightarrow> str \<Rightarrow> str" where
  "trim_start_str p s = (if p \<noteq> [] \<and> prefix p s then trim_start_str p (drop (length p) s) else s)"
  by pat_completeness auto
termination by (relation "measure (\<lambda>(p, s). length s)") (auto simp: prefix_def)

declare trim_start_str.simps [simp del]

definition tak_endpoint :: "tak_config \<Rightarrow> str" where
  "tak_endpoint c = trim_start_str ''udp://'' (trim_start_str ''tcp://'' (trim_start_str ''tls://'' (tc_url c)))"

definition is_datagram :: "tak_config \<Rightarrow> bool" where
  "is_datagram c \<longleftrightarrow> starts_with (tc_url c) ''udp://''"

definition tls_files :: "tak_config \<Rightarrow> (str \<times> str \<times> str) option" where
  "tls_files c = (case (tc_tls_ca c, tc_tls_cert c, tc_tls_key c) of
     (Some ca, Some cert, Some key) \<Rightarrow> Some (ca, cert, key) | _ \<Rightarrow> None)"

definition sni :: "tak_config \<Rightarrow> str" where
  "sni c = (case tc_server_name c of
     Some n \<Rightarrow> n
   | None \<Rightarrow> (case rfind_char CHR '':'' (tak_endpoint c) of Some i \<Rightarrow> take i (tak_endpoint c) | None \<Rightarrow> tak_endpoint c))"

datatype tak_config_error = NoBuffer | TlsFilesMissing

definition tak_validate :: "tak_config \<Rightarrow> tak_config_error + unit" where
  "tak_validate c =
     (if tc_buffer_max c = 0 then Inl NoBuffer
      else if \<not> is_datagram c \<and> tls_files c = None then Inl TlsFilesMissing
      else Inr ())"

section \<open>The link\<close>

text \<open>\<open>lk_stream\<close> tells whether a stream is up; \<open>lk_written\<close> records the payloads written whole, in order.\<close>

record tak_link =
  lk_datagram :: bool
  lk_stream :: bool
  lk_reconnects :: u64
  lk_up :: u64
  lk_written :: "bytes list"

record net_outcome =
  no_connects :: bool
  no_writes :: bool

definition link_new :: "tak_config \<Rightarrow> tak_link" where
  "link_new c = \<lparr>lk_datagram = is_datagram c, lk_stream = False, lk_reconnects = 0,
     lk_up = (if is_datagram c then 1 else 0), lk_written = []\<rparr>"

definition link_send :: "net_outcome \<Rightarrow> bytes \<Rightarrow> tak_link \<Rightarrow> bool \<times> tak_link" where
  "link_send net payload l =
     (if lk_datagram l then
        (no_writes net, l\<lparr>lk_written := lk_written l @ (if no_writes net then [payload] else [])\<rparr>)
      else if \<not> lk_stream l \<and> \<not> no_connects net then (False, l\<lparr>lk_up := 0\<rparr>)
      else let l1 = (if lk_stream l then l else l\<lparr>lk_stream := True, lk_reconnects := lk_reconnects l + 1, lk_up := 1\<rparr>)
           in if no_writes net then (True, l1\<lparr>lk_written := lk_written l1 @ [payload]\<rparr>)
              else (False, l1\<lparr>lk_stream := False, lk_up := 0\<rparr>))"

section \<open>The relay\<close>

record relay =
  rl_buffer :: "bytes list"
  rl_max :: nat
  rl_delivered :: u64
  rl_gap_dropped :: u64

definition relay_new :: "nat \<Rightarrow> relay" where
  "relay_new n = \<lparr>rl_buffer = [], rl_max = max n 1, rl_delivered = 0, rl_gap_dropped = 0\<rparr>"

definition relay_push :: "bytes \<Rightarrow> relay \<Rightarrow> relay" where
  "relay_push payload r =
     (let r1 = (if rl_max r \<le> length (rl_buffer r)
                then r\<lparr>rl_buffer := tl (rl_buffer r), rl_gap_dropped := rl_gap_dropped r + 1\<rparr> else r)
      in r1\<lparr>rl_buffer := rl_buffer r1 @ [payload]\<rparr>)"

text \<open>\<open>drain\<close>: \<open>net i\<close> is what the network does with the \<open>i\<close>-th send.\<close>

fun drain_buffer :: "(nat \<Rightarrow> net_outcome) \<Rightarrow> nat \<Rightarrow> bytes list \<Rightarrow> tak_link \<Rightarrow> bytes list \<times> nat \<times> tak_link" where
  "drain_buffer net i [] l = ([], i, l)"
| "drain_buffer net i (p # ps) l =
     (case link_send (net i) p l of (False, l') \<Rightarrow> (p # ps, i, l') | (True, l') \<Rightarrow> drain_buffer net (Suc i) ps l')"

definition relay_drain :: "(nat \<Rightarrow> net_outcome) \<Rightarrow> relay \<times> tak_link \<Rightarrow> relay \<times> tak_link" where
  "relay_drain net s =
     (case drain_buffer net 0 (rl_buffer (fst s)) (snd s) of (rest, sent, l) \<Rightarrow>
        ((fst s)\<lparr>rl_buffer := rest, rl_delivered := rl_delivered (fst s) + of_nat sent\<rparr>, l))"

text \<open>The loop of \<open>run\<close>: a drain, then either a message from NATS or the timer, which runs only when the buffer
  is not empty and so drains again to some effect. A shutdown adds a last drain, as a timer round does; that this drain
  is abandoned after two seconds is not modelled.\<close>

datatype relay_round = Message "nat \<Rightarrow> net_outcome" bytes | Timer "nat \<Rightarrow> net_outcome"

fun relay_step :: "relay_round \<Rightarrow> relay \<times> tak_link \<Rightarrow> relay \<times> tak_link" where
  "relay_step (Message net m) s = (case relay_drain net s of (r, l) \<Rightarrow> (relay_push m r, l))"
| "relay_step (Timer net) s = relay_drain net s"

definition relay_run :: "relay_round list \<Rightarrow> relay \<times> tak_link \<Rightarrow> relay \<times> tak_link" where
  "relay_run rs s = foldl (\<lambda>s r. relay_step r s) s rs"

fun message_of_round :: "relay_round \<Rightarrow> bytes list" where
  "message_of_round (Message net m) = [m]"
| "message_of_round (Timer net) = []"

definition messages_in :: "relay_round list \<Rightarrow> bytes list" where
  "messages_in rs = concat (map message_of_round rs)"

section \<open>Lemmas\<close>

lemma link_send_written:
  "link_send net p l = (ok, l') \<Longrightarrow> lk_written l' = lk_written l @ (if ok then [p] else []) \<and> lk_datagram l' = lk_datagram l"
  by (auto simp: link_send_def Let_def split: if_splits)

lemma drain_buffer_spec:
  "drain_buffer net i ps l = (rest, j, l') \<Longrightarrow>
   \<exists>sent. ps = sent @ rest \<and> lk_written l' = lk_written l @ sent \<and> j = i + length sent"
proof (induction ps arbitrary: i l)
  case (Cons p ps)
  obtain ok l1 where s: "link_send (net i) p l = (ok, l1)" by force
  note w = link_send_written [OF s]
  show ?case
  proof (cases ok)
    case True
    with Cons.prems s have "drain_buffer net (Suc i) ps l1 = (rest, j, l')" by simp
    from Cons.IH [OF this] obtain sent where "ps = sent @ rest" "lk_written l' = lk_written l1 @ sent" "j = Suc i + length sent" by blast
    with True w show ?thesis by (intro exI [of _ "p # sent"]) simp
  qed (use Cons.prems s w in auto)
qed simp

lemma relay_drain_spec:
  assumes "relay_drain net (r, l) = (r', l')"
  obtains sent where "rl_buffer r = sent @ rl_buffer r'" "lk_written l' = lk_written l @ sent"
    "rl_delivered r' = rl_delivered r + of_nat (length sent)" "rl_gap_dropped r' = rl_gap_dropped r" "rl_max r' = rl_max r"
proof -
  obtain rest j l1 where d: "drain_buffer net 0 (rl_buffer r) l = (rest, j, l1)" by (metis prod_cases3)
  from drain_buffer_spec [OF d] obtain sent where "rl_buffer r = sent @ rest" "lk_written l1 = lk_written l @ sent" "j = length sent" by auto
  with assms d show thesis by (intro that [of sent]) (auto simp: relay_drain_def)
qed

text \<open>What holds after the messages \<open>ms\<close>: the buffer is bounded and holds the latest messages, what was written
  and what waits are messages in order, and every message is accounted for.\<close>

definition relay_inv :: "bytes list \<Rightarrow> relay \<times> tak_link \<Rightarrow> bool" where
  "relay_inv ms s \<longleftrightarrow>
     (case s of (r, l) \<Rightarrow> length (rl_buffer r) \<le> rl_max r \<and> 0 < rl_max r \<and> suffix (rl_buffer r) ms
        \<and> subseq (lk_written l @ rl_buffer r) ms
        \<and> rl_delivered r = of_nat (length (lk_written l))
        \<and> rl_delivered r + rl_gap_dropped r + of_nat (length (rl_buffer r)) = of_nat (length ms))"

lemma relay_inv_start: "relay_inv [] (relay_new n, link_new c)"
  by (simp add: relay_inv_def relay_new_def link_new_def)

lemma relay_inv_drain: "relay_inv ms s \<Longrightarrow> relay_inv ms (relay_drain net s)"
proof -
  assume inv: "relay_inv ms s"
  obtain r l r' l' where s: "s = (r, l)" "relay_drain net (r, l) = (r', l')" by (metis surj_pair)
  obtain sent where d: "rl_buffer r = sent @ rl_buffer r'" "lk_written l' = lk_written l @ sent"
      "rl_delivered r' = rl_delivered r + of_nat (length sent)" "rl_gap_dropped r' = rl_gap_dropped r" "rl_max r' = rl_max r"
    using relay_drain_spec [OF s(2)] .
  have "suffix (rl_buffer r') ms"
    using inv s d(1) by (auto simp: relay_inv_def suffix_def)
  moreover have "rl_delivered r' + rl_gap_dropped r' + of_nat (length (rl_buffer r'))
      = rl_delivered r + rl_gap_dropped r + of_nat (length (rl_buffer r))"
    using d by (simp add: algebra_simps)
  moreover have "subseq (lk_written l' @ rl_buffer r') ms" using inv s d(1,2) by (simp add: relay_inv_def)
  moreover have "rl_delivered r + rl_gap_dropped r + of_nat (length (rl_buffer r)) = (of_nat (length ms) :: u64)"
    "rl_delivered r = of_nat (length (lk_written l))" "length (rl_buffer r) \<le> rl_max r" "0 < rl_max r"
    using inv unfolding s(1) relay_inv_def prod.case by blast+
  moreover have "rl_delivered r' = of_nat (length (lk_written l'))" "length (rl_buffer r') \<le> rl_max r'" "0 < rl_max r'"
    using calculation d by simp_all
  ultimately have "relay_inv ms (r', l')" unfolding relay_inv_def prod.case by (intro conjI) (assumption | erule trans)+
  with s show ?thesis by simp
qed

lemma relay_inv_push: "relay_inv ms (r, l) \<Longrightarrow> relay_inv (ms @ [m]) (relay_push m r, l)"
proof -
  assume inv: "relay_inv ms (r, l)"
  let ?b = "if rl_max r \<le> length (rl_buffer r) then tl (rl_buffer r) else rl_buffer r"
  have b: "rl_buffer (relay_push m r) = ?b @ [m]" by (simp add: relay_push_def Let_def)
  have sb: "suffix ?b (rl_buffer r)" by (simp add: suffix_tl)
  have sq: "subseq ?b (rl_buffer r)" by (rule suffix_imp_subseq [OF sb])
  have "suffix (rl_buffer r) ms" using inv by (simp add: relay_inv_def)
  with sb have "suffix ?b ms" by (rule suffix_order.trans)
  then have "suffix (?b @ [m]) (ms @ [m])" by simp
  moreover have "subseq (lk_written l @ rl_buffer r) ms" using inv by (simp add: relay_inv_def)
  then have "subseq (lk_written l @ ?b) ms"
    by (rule subseq_order.trans [OF list_emb_append_mono [OF subseq_order.refl sq]])
  then have "subseq (lk_written l @ ?b @ [m]) (ms @ [m])"
    using list_emb_append_mono [of "(=)" "lk_written l @ ?b" ms "[m]" "[m]"] by simp
  moreover have "rl_delivered (relay_push m r) = rl_delivered r" "rl_max (relay_push m r) = rl_max r"
    by (simp_all add: relay_push_def Let_def)
  moreover have "length (?b @ [m]) \<le> rl_max r" using inv by (auto simp: relay_inv_def)
  moreover have "rl_gap_dropped (relay_push m r) + of_nat (length (?b @ [m])) = rl_gap_dropped r + of_nat (length (rl_buffer r)) + 1"
    using inv by (cases "rl_buffer r") (auto simp: relay_inv_def relay_push_def Let_def)
  then have "rl_delivered r + rl_gap_dropped (relay_push m r) + of_nat (length (?b @ [m])) = of_nat (length (ms @ [m]))"
    using inv by (auto simp: relay_inv_def add.assoc)
  ultimately show ?thesis using inv b unfolding relay_inv_def prod.case by simp
qed

lemma messages_in_snoc: "messages_in (rs @ [r]) = messages_in rs @ message_of_round r"
  by (simp add: messages_in_def)

lemma relay_run_inv: "relay_inv (messages_in rs) (relay_run rs (relay_new n, link_new c))"
proof (induction rs rule: rev_induct)
  case Nil
  show ?case by (simp add: relay_run_def messages_in_def relay_inv_start)
next
  case (snoc x rs)
  let ?s = "relay_run rs (relay_new n, link_new c)"
  have "relay_inv (messages_in rs @ message_of_round x) (relay_step x ?s)"
  proof (cases x)
    case (Message net m)
    obtain r l where d: "relay_drain net ?s = (r, l)" by force
    have "relay_inv (messages_in rs) (r, l)" using relay_inv_drain [OF snoc, of net] d by simp
    from relay_inv_push [OF this, of m] show ?thesis using Message d by simp
  next
    case (Timer net)
    then show ?thesis using relay_inv_drain [OF snoc, of net] by simp
  qed
  then show ?case by (simp add: messages_in_snoc relay_run_def)
qed

lemma drain_up:
  assumes "\<forall>i. no_connects (net i) \<and> no_writes (net i)"
  shows "\<exists>l'. drain_buffer net i ps l = ([], i + length ps, l')"
proof (induction ps arbitrary: i l)
  case (Cons p ps)
  have "\<exists>l1. link_send (net i) p l = (True, l1)" using assms by (simp add: link_send_def Let_def)
  then obtain l1 where "link_send (net i) p l = (True, l1)" by blast
  with Cons [of "Suc i" l1] show ?case by simp
qed simp

lemma relay_max: "rl_max (fst (relay_run rs s)) = rl_max (fst s)"
proof (induction rs rule: rev_induct)
  case (snoc x rs)
  have d: "rl_max (fst (relay_drain net t)) = rl_max (fst t)" for net t by (simp add: relay_drain_def split: prod.split)
  have "rl_max (fst (relay_step x t)) = rl_max (fst t)" for t
  proof (cases x)
    case (Message net m)
    then show ?thesis using d [of net t] by (cases "relay_drain net t") (simp add: relay_push_def Let_def)
  qed (simp add: d)
  with snoc show ?case by (simp add: relay_run_def)
qed (simp add: relay_run_def)

section \<open>Properties\<close>

text \<open>C13. Whatever the network does: the relay writes messages as they came and in order, keeps at most the
  configured number, the latest ones, and accounts for every message as delivered, dropped or waiting. When
  the network is up, one drain writes everything that waits.\<close>

theorem tak_relay_in_order:
  assumes "relay_run rs (relay_new n, link_new c) = (r, l)"
  shows "length (rl_buffer r) \<le> max n 1 \<and> suffix (rl_buffer r) (messages_in rs)
    \<and> subseq (lk_written l @ rl_buffer r) (messages_in rs)
    \<and> rl_delivered r = of_nat (length (lk_written l))
    \<and> rl_delivered r + rl_gap_dropped r + of_nat (length (rl_buffer r)) = of_nat (length (messages_in rs))
    \<and> ((\<forall>i. no_connects (net i) \<and> no_writes (net i)) \<longrightarrow>
        lk_written (snd (relay_drain net (r, l))) = lk_written l @ rl_buffer r \<and> rl_buffer (fst (relay_drain net (r, l))) = [])"
proof -
  have inv: "relay_inv (messages_in rs) (r, l)" using relay_run_inv [of rs n c] assms by simp
  have mx: "rl_max r = max n 1" using relay_max [of rs "(relay_new n, link_new c)"] assms by (simp add: relay_new_def)
  have "lk_written (snd (relay_drain net (r, l))) = lk_written l @ rl_buffer r \<and> rl_buffer (fst (relay_drain net (r, l))) = []"
    if up: "\<forall>i. no_connects (net i) \<and> no_writes (net i)"
  proof -
    obtain l' where d: "drain_buffer net 0 (rl_buffer r) l = ([], length (rl_buffer r), l')" using drain_up [OF up, of 0] by auto
    from drain_buffer_spec [OF d] d show ?thesis by (auto simp: relay_drain_def)
  qed
  then show ?thesis using inv unfolding relay_inv_def prod.case mx by blast
qed

section \<open>Examples\<close>

definition ex_tak :: tak_config where
  "ex_tak = \<lparr>tc_url = ''tls://tak.example:8089'', tc_tls_ca = Some ''ca'', tc_tls_cert = Some ''crt'', tc_tls_key = Some ''key'',
     tc_server_name = None, tc_interface = None, tc_multicast_ttl = 1, tc_buffer_max = 2\<rparr>"

definition net_up :: net_outcome where "net_up = \<lparr>no_connects = True, no_writes = True\<rparr>"
definition net_down :: net_outcome where "net_down = \<lparr>no_connects = False, no_writes = False\<rparr>"

definition ex_rounds :: "relay_round list" where
  "ex_rounds = map (\<lambda>b. Message (\<lambda>_. net_down) [b]) [1, 2, 3]"

theorem tak_relay_in_order_witness:
  "\<exists>r l. relay_run ex_rounds (relay_new (tc_buffer_max ex_tak), link_new ex_tak) = (r, l)
     \<and> subseq (lk_written l @ rl_buffer r) [[1], [2], [3]]
     \<and> lk_written (snd (relay_drain (\<lambda>_. net_up) (r, l))) = lk_written l @ rl_buffer r"
proof -
  obtain r l where r: "relay_run ex_rounds (relay_new (tc_buffer_max ex_tak), link_new ex_tak) = (r, l)" by force
  have "messages_in ex_rounds = [[1], [2], [3]]" by (simp add: messages_in_def ex_rounds_def)
  with tak_relay_in_order [OF r, of "\<lambda>_. net_up"] r show ?thesis by (auto simp: net_up_def)
qed

text \<open>The certificate is checked against the host of the URL.\<close>

lemma ex_tak_sni: "sni ex_tak = ''tak.example''" "tak_validate ex_tak = Inr ()" "tak_validate (ex_tak\<lparr>tc_tls_key := None\<rparr>) = Inl TlsFilesMissing"
  by code_simp+

end
