(* ===== verification/Xml.thy ===== *)
theory Xml
  imports Str_Ops
begin

text \<open>
  What the XML connectors read. The \<open>quick_xml\<close> crate is a parameter: a function that gives, for the bytes
  of a document, the events its reader yields, each with the reader's position behind it, and how reading
  ends: at the end of the document or with an error. Attribute values are as they stand in the document,
  with references not replaced, and attributes that the crate cannot read are left out, as the iterator
  that the connectors flatten leaves them out.
\<close>

datatype xml_event =
    XStart (x_name: str) (x_attrs: "(str \<times> str) list")
  | XEmpty (x_name: str) (x_attrs: "(str \<times> str) list")
  | XEnd (x_name: str)
  | XText str
  | XOther

type_synonym xml_stream = "(xml_event \<times> nat) list \<times> str option"

text \<open>The attributes of the opening tags in a list of events, with the name of their element.\<close>

fun attrs_of :: "xml_event \<Rightarrow> (str \<times> str \<times> str) list" where
  "attrs_of (XStart n as) = map (\<lambda>(k, v). (n, k, v)) as"
| "attrs_of (XEmpty n as) = map (\<lambda>(k, v). (n, k, v)) as"
| "attrs_of _ = []"

definition values_of :: "str \<Rightarrow> str \<Rightarrow> xml_event list \<Rightarrow> str list" where
  "values_of elem key xs = [v. x \<leftarrow> xs, (n, k, v) \<leftarrow> attrs_of x, n = elem \<and> k = key]"

definition last_opt :: "'a list \<Rightarrow> 'a option" where
  "last_opt xs = (if xs = [] then None else Some (last xs))"

definition has_element :: "str \<Rightarrow> xml_event list \<Rightarrow> bool" where
  "has_element elem xs \<longleftrightarrow> list_ex (\<lambda>x. case x of XStart n _ \<Rightarrow> n = elem | XEmpty n _ \<Rightarrow> n = elem | _ \<Rightarrow> False) xs"

section \<open>Writing elements\<close>

text \<open>An element with raw attribute values between double quotes.\<close>

definition attr_text :: "str \<times> str \<Rightarrow> str" where
  "attr_text kv = '' '' @ fst kv @ ''=\"'' @ snd kv @ ''\"''"

fun event_text :: "xml_event \<Rightarrow> str" where
  "event_text (XStart n as) = ''<'' @ n @ concat (map attr_text as) @ ''>''"
| "event_text (XEmpty n as) = ''<'' @ n @ concat (map attr_text as) @ ''/>''"
| "event_text (XEnd n) = ''</'' @ n @ ''>''"
| "event_text (XText t) = t"
| "event_text XOther = []"

definition xml_text :: "xml_event list \<Rightarrow> str" where
  "xml_text xs = concat (map event_text xs)"

text \<open>A value that stands in an attribute as it is.\<close>

definition needs_escape :: "char \<Rightarrow> bool" where
  "needs_escape c \<longleftrightarrow> c \<in> set ''&<>\"'' \<or> c = CHR 0x27"

definition plain_value :: "str \<Rightarrow> bool" where
  "plain_value s \<longleftrightarrow> list_all (\<lambda>c. \<not> needs_escape c) s"

section \<open>Lemmas\<close>

lemma values_of_simps:
  "values_of e k [] = []"
  "values_of e k (x # xs) = [v. (n, k', v) \<leftarrow> attrs_of x, n = e \<and> k' = k] @ values_of e k xs"
  by (simp_all add: values_of_def)

lemma last_opt_simps [simp]: "last_opt [] = None" "last_opt (xs @ [x]) = Some x"
  by (simp_all add: last_opt_def)

lemma last_opt_append: "last_opt (xs @ ys) = (case last_opt ys of None \<Rightarrow> last_opt xs | Some y \<Rightarrow> Some y)"
  by (simp add: last_opt_def)

end
