(* ===== verification/Cot.thy ===== *)
theory Cot
  imports Xml Connector
begin

text \<open>
  Cursor-on-Target, \<open>tak-cot/src/cot.rs\<close>: one XML event becomes one canonical event. The reader of the
  \<open>quick_xml\<close> crate is the parameter \<open>xml\<close>.
\<close>

section \<open>Reading\<close>

datatype cot_error = CotXml str | CotMissing str | CotBadNumber str | CotBuild build_error

record cot_parser =
  ct_source_id :: str
  ct_overrides :: "str \<rightharpoonup> str"

text \<open>The local variables of \<open>to_event\<close>.\<close>

record cot_walk =
  cw_uid :: "str option"
  cw_type :: "str option"
  cw_time :: "str option"
  cw_lat :: "f64 option"
  cw_lon :: "f64 option"
  cw_hae :: f64
  cw_callsign :: "str option"
  cw_course :: "f64 option"
  cw_speed :: "f64 option"
  cw_confidence :: "f64 option"
  cw_in_confidence :: bool
  cw_saw_event :: bool

definition cot_start :: cot_walk where
  "cot_start = \<lparr>cw_uid = None, cw_type = None, cw_time = None, cw_lat = None, cw_lon = None, cw_hae = f64_of_int 0,
     cw_callsign = None, cw_course = None, cw_speed = None, cw_confidence = None, cw_in_confidence = False, cw_saw_event = False\<rparr>"

definition parse_finite :: "str \<Rightarrow> f64 option" where
  "parse_finite raw = filter_option is_finite (parse_f64 (trim raw))"

definition normalize_confidence :: "str \<Rightarrow> f64 option" where
  "normalize_confidence raw =
     map_option (\<lambda>v. f64_clamp (f64_of_int 0) (f64_of_int 1) (if f64_lt (f64_of_int 1) v then f64_div v (f64_of_int 100) else v)) (parse_f64 raw)"

text \<open>The attributes of each element that the walk knows.\<close>

definition event_attr :: "str \<times> str \<Rightarrow> cot_walk \<Rightarrow> cot_walk" where
  "event_attr kv w =
     (if fst kv = ''uid'' then w\<lparr>cw_uid := Some (snd kv)\<rparr>
      else if fst kv = ''type'' then w\<lparr>cw_type := Some (snd kv)\<rparr>
      else if fst kv = ''time'' then w\<lparr>cw_time := Some (snd kv)\<rparr> else w)"

definition point_attr :: "str \<times> str \<Rightarrow> cot_walk \<Rightarrow> cot_error + cot_walk" where
  "point_attr kv w =
     (if fst kv = ''lat'' then try_bind (ok_or (CotBadNumber ''point/@lat'') (parse_f64 (snd kv))) (\<lambda>v. Inr (w\<lparr>cw_lat := Some v\<rparr>))
      else if fst kv = ''lon'' then try_bind (ok_or (CotBadNumber ''point/@lon'') (parse_f64 (snd kv))) (\<lambda>v. Inr (w\<lparr>cw_lon := Some v\<rparr>))
      else if fst kv = ''hae'' then Inr (w\<lparr>cw_hae := (case parse_f64 (snd kv) of Some v \<Rightarrow> v | None \<Rightarrow> f64_of_int 0)\<rparr>)
      else Inr w)"

fun point_attrs :: "(str \<times> str) list \<Rightarrow> cot_walk \<Rightarrow> cot_error + cot_walk" where
  "point_attrs [] w = Inr w"
| "point_attrs (kv # kvs) w = try_bind (point_attr kv w) (point_attrs kvs)"

definition contact_attr :: "str \<times> str \<Rightarrow> cot_walk \<Rightarrow> cot_walk" where
  "contact_attr kv w = (if fst kv = ''callsign'' then w\<lparr>cw_callsign := Some (snd kv)\<rparr> else w)"

definition track_attr :: "str \<times> str \<Rightarrow> cot_walk \<Rightarrow> cot_walk" where
  "track_attr kv w =
     (if fst kv = ''course'' then w\<lparr>cw_course := parse_finite (snd kv)\<rparr>
      else if fst kv = ''speed'' then w\<lparr>cw_speed := parse_finite (snd kv)\<rparr> else w)"

definition confidence_attr :: "str \<times> str \<Rightarrow> cot_walk \<Rightarrow> cot_walk" where
  "confidence_attr kv w = (if fst kv = ''value'' then w\<lparr>cw_confidence := normalize_confidence (snd kv)\<rparr> else w)"

definition cot_element :: "str \<Rightarrow> (str \<times> str) list \<Rightarrow> cot_walk \<Rightarrow> cot_error + cot_walk" where
  "cot_element n as w =
     (if n = ''event'' then Inr (fold event_attr as (w\<lparr>cw_saw_event := True\<rparr>))
      else if n = ''point'' then point_attrs as w
      else if n = ''contact'' then Inr (fold contact_attr as w)
      else if n = ''track'' then Inr (fold track_attr as w)
      else if n = ''confidence'' then Inr (fold confidence_attr as (w\<lparr>cw_in_confidence := True\<rparr>))
      else Inr w)"

fun cot_event :: "xml_event \<Rightarrow> cot_walk \<Rightarrow> cot_error + cot_walk" where
  "cot_event (XStart n as) w = cot_element n as w"
| "cot_event (XEmpty n as) w = cot_element n as w"
| "cot_event (XText t) w =
     (if cw_in_confidence w
      then Inr (w\<lparr>cw_in_confidence := False,
                  cw_confidence := (if cw_confidence w = None then normalize_confidence (trim t) else cw_confidence w)\<rparr>)
      else Inr w)"
| "cot_event _ w = Inr w"

fun cot_events :: "xml_event list \<Rightarrow> cot_walk \<Rightarrow> cot_error + cot_walk" where
  "cot_events [] w = Inr w"
| "cot_events (x # xs) w = try_bind (cot_event x w) (cot_events xs)"

definition cot_read :: "(bytes \<Rightarrow> xml_stream) \<Rightarrow> bytes \<Rightarrow> cot_error + cot_walk" where
  "cot_read xml native =
     try_bind (cot_events (map fst (fst (xml native))) cot_start) (\<lambda>w.
       case snd (xml native) of Some e \<Rightarrow> Inl (CotXml e) | None \<Rightarrow> Inr w)"

section \<open>Events\<close>

definition cot_hostility :: "str \<Rightarrow> str" where
  "cot_hostility cot_type =
     (case slice_get (split_char (CHR ''-'') cot_type) 1 of
        None \<Rightarrow> ''Unknown''
      | Some a \<Rightarrow>
          if a = ''f'' then ''Friend'' else if a = ''a'' then ''AssumedFriend'' else if a = ''h'' then ''Hostile''
          else if a = ''s'' then ''Suspect'' else if a = ''n'' then ''Neutral'' else if a = ''p'' then ''Pending''
          else if a = ''j'' then ''Joker'' else if a = ''k'' then ''Faker'' else ''Unknown'')"

definition cot_map_type :: "(str \<rightharpoonup> str) \<Rightarrow> str \<Rightarrow> str" where
  "cot_map_type overrides cot_type =
     (case overrides cot_type of
        Some mapped \<Rightarrow> mapped
      | None \<Rightarrow>
          let vendor = ''x:cot:'' @ map (\<lambda>c. if c = CHR ''-'' then CHR ''_'' else c) cot_type in
          (case slice_get (split_char (CHR ''-'') cot_type) 2 of
             None \<Rightarrow> vendor
           | Some d \<Rightarrow> if d = ''A'' then ''mim:aircraft'' else if d = ''S'' then ''mim:vessel''
                       else if d = ''U'' then ''mim:subsurface-vessel'' else vendor))"

definition cot_base :: "cot_parser \<Rightarrow> effects \<Rightarrow> bytes \<Rightarrow> str \<Rightarrow> str \<Rightarrow> str \<Rightarrow> event_builder" where
  "cot_base p fx native uid cot_type time =
     eb_attribute ''hostility'' (cot_hostility cot_type)
       (eb_identity ''CoT'' uid
       (eb_metadata ''source_uid'' uid
       (eb_timestamp time
       (eb_payload native (eb_new_id (uuid fx) (eb_new (ct_source_id p) (cot_map_type (ct_overrides p) cot_type)))))))"

definition cot_builder :: "cot_parser \<Rightarrow> effects \<Rightarrow> bytes \<Rightarrow> str \<Rightarrow> str \<Rightarrow> str \<Rightarrow> cot_walk \<Rightarrow> event_builder" where
  "cot_builder p fx native uid cot_type time w =
     (let b = cot_base p fx native uid cot_type time;
          b = opt_attribute ''callsign'' (cw_callsign w) b;
          b = opt_attribute ''course'' (map_option (fmt_fixed 1)
                (filter_option (f64_within (f64_of_int 0) (f64_of_int 360)) (cw_course w))) b;
          b = opt_attribute ''speed'' (map_option (fmt_fixed 2) (filter_option (f64_le (f64_of_int 0)) (cw_speed w))) b;
          b = (case cw_confidence w of Some c \<Rightarrow> eb_confidence c b | None \<Rightarrow> b)
      in case (cw_lat w, cw_lon w) of (Some lat, Some lon) \<Rightarrow> eb_location lat lon (cw_hae w) b | _ \<Rightarrow> b)"

definition cot_to_event :: "(bytes \<Rightarrow> xml_stream) \<Rightarrow> effects \<Rightarrow> bytes \<Rightarrow> cot_parser \<Rightarrow> cot_error + event" where
  "cot_to_event xml fx native p =
     try_bind (cot_read xml native) (\<lambda>w.
     if \<not> cw_saw_event w then Inl (CotMissing ''<event>'')
     else try_bind (ok_or (CotMissing ''event/@uid'') (cw_uid w)) (\<lambda>uid.
     try_bind (ok_or (CotMissing ''event/@type'') (cw_type w)) (\<lambda>cot_type.
     try_bind (ok_or (CotMissing ''event/@time'') (cw_time w)) (\<lambda>time.
     map_sum CotBuild (\<lambda>e. e) (build (cot_builder p fx native uid cot_type time w))))))"

definition cot_parse ::
  "(bytes \<Rightarrow> xml_stream) \<Rightarrow> effects \<Rightarrow> bytes \<Rightarrow> cot_parser \<Rightarrow> (cot_parser \<times> (cot_error + event list)) option" where
  "cot_parse xml fx frame p = Some (p, map_sum (\<lambda>e. e) (\<lambda>e. [e]) (cot_to_event xml fx frame p))"

section \<open>What the walk keeps\<close>

text \<open>A variable of the walk that follows one attribute of one element: the last value decides.\<close>

locale follows_attribute =
  fixes var :: "cot_walk \<Rightarrow> 'a" and elem key :: str and val :: "str \<Rightarrow> 'a"
  assumes step: "cot_event x w = Inr w' \<Longrightarrow> var w' = fold (\<lambda>v _. val v) (values_of elem key [x]) (var w)"
begin

lemma values_folded: "fold (\<lambda>v _. val v) vs a = (case last_opt vs of None \<Rightarrow> a | Some v \<Rightarrow> val v)"
  by (induction vs arbitrary: a) (auto simp: last_opt_def)

lemma walked: "cot_events xs w = Inr w' \<Longrightarrow> var w' = fold (\<lambda>v _. val v) (values_of elem key xs) (var w)"
proof (induction xs arbitrary: w)
  case (Cons x xs)
  then obtain w1 where w1: "cot_event x w = Inr w1" "cot_events xs w1 = Inr w'" by (auto simp: try_bind_Inr_iff)
  from Cons.IH [OF w1(2)] step [OF w1(1)] show ?case by (simp add: values_of_def)
qed (simp add: values_of_simps)

lemma last_decides:
  "cot_events xs w = Inr w' \<Longrightarrow> var w' = (case last_opt (values_of elem key xs) of None \<Rightarrow> var w | Some v \<Rightarrow> val v)"
  by (simp add: walked values_folded)

end

lemma event_attr_sel [simp]:
  "cw_lat (fold event_attr as w) = cw_lat w" "cw_lon (fold event_attr as w) = cw_lon w" "cw_hae (fold event_attr as w) = cw_hae w"
  "cw_callsign (fold event_attr as w) = cw_callsign w" "cw_course (fold event_attr as w) = cw_course w"
  "cw_speed (fold event_attr as w) = cw_speed w" "cw_saw_event (fold event_attr as w) = cw_saw_event w"
  "cw_confidence (fold event_attr as w) = cw_confidence w"
  by (induction as arbitrary: w) (simp_all add: event_attr_def)

lemma contact_attr_sel [simp]:
  "cw_uid (fold contact_attr as w) = cw_uid w" "cw_type (fold contact_attr as w) = cw_type w" "cw_time (fold contact_attr as w) = cw_time w"
  "cw_lat (fold contact_attr as w) = cw_lat w" "cw_lon (fold contact_attr as w) = cw_lon w" "cw_hae (fold contact_attr as w) = cw_hae w"
  "cw_course (fold contact_attr as w) = cw_course w" "cw_speed (fold contact_attr as w) = cw_speed w"
  "cw_saw_event (fold contact_attr as w) = cw_saw_event w" "cw_confidence (fold contact_attr as w) = cw_confidence w"
  by (induction as arbitrary: w) (simp_all add: contact_attr_def)

lemma track_attr_sel [simp]:
  "cw_uid (fold track_attr as w) = cw_uid w" "cw_type (fold track_attr as w) = cw_type w" "cw_time (fold track_attr as w) = cw_time w"
  "cw_lat (fold track_attr as w) = cw_lat w" "cw_lon (fold track_attr as w) = cw_lon w" "cw_hae (fold track_attr as w) = cw_hae w"
  "cw_callsign (fold track_attr as w) = cw_callsign w" "cw_saw_event (fold track_attr as w) = cw_saw_event w"
  "cw_confidence (fold track_attr as w) = cw_confidence w"
  by (induction as arbitrary: w) (simp_all add: track_attr_def)

lemma confidence_attr_sel [simp]:
  "cw_uid (fold confidence_attr as w) = cw_uid w" "cw_type (fold confidence_attr as w) = cw_type w"
  "cw_time (fold confidence_attr as w) = cw_time w" "cw_lat (fold confidence_attr as w) = cw_lat w"
  "cw_lon (fold confidence_attr as w) = cw_lon w" "cw_hae (fold confidence_attr as w) = cw_hae w"
  "cw_callsign (fold confidence_attr as w) = cw_callsign w" "cw_course (fold confidence_attr as w) = cw_course w"
  "cw_speed (fold confidence_attr as w) = cw_speed w" "cw_saw_event (fold confidence_attr as w) = cw_saw_event w"
  by (induction as arbitrary: w) (simp_all add: confidence_attr_def)

lemma point_attrs_sel:
  assumes "point_attrs as w = Inr w'"
  shows "cw_uid w' = cw_uid w" "cw_type w' = cw_type w" "cw_time w' = cw_time w" "cw_callsign w' = cw_callsign w"
    "cw_course w' = cw_course w" "cw_speed w' = cw_speed w" "cw_confidence w' = cw_confidence w"
  using assms by (induction as arbitrary: w) (auto simp: point_attr_def try_bind_Inr_iff split: if_splits)

lemma point_attrs_saw: "point_attrs as w = Inr w' \<Longrightarrow> cw_saw_event w' = cw_saw_event w"
proof (induction as arbitrary: w)
  case (Cons kv as)
  then obtain w1 where w1: "point_attr kv w = Inr w1" "point_attrs as w1 = Inr w'" by (auto simp: try_bind_Inr_iff)
  have "cw_saw_event w1 = cw_saw_event w" using w1(1) by (auto simp: point_attr_def try_bind_Inr_iff split: if_splits)
  with Cons.IH [OF w1(2)] show ?case by simp
qed simp

text \<open>The values of one key among the attributes of one element, in order.\<close>

abbreviation attr_values :: "str \<Rightarrow> (str \<times> str) list \<Rightarrow> str list" where
  "attr_values key as \<equiv> map snd (filter (\<lambda>kv. fst kv = key) as)"

lemma values_of_element:
  "values_of e k [XStart n as] = (if n = e then attr_values k as else [])"
  "values_of e k [XEmpty n as] = (if n = e then attr_values k as else [])"
  "values_of e k [XEnd n] = []" "values_of e k [XText t] = []" "values_of e k [XOther] = []"
  by (induction as) (auto simp: values_of_def)

lemma event_attr_values:
  "cw_uid (fold event_attr as w) = fold (\<lambda>v _. Some v) (attr_values ''uid'' as) (cw_uid w)"
  "cw_type (fold event_attr as w) = fold (\<lambda>v _. Some v) (attr_values ''type'' as) (cw_type w)"
  "cw_time (fold event_attr as w) = fold (\<lambda>v _. Some v) (attr_values ''time'' as) (cw_time w)"
  by (induction as arbitrary: w) (simp_all add: event_attr_def)

lemma detail_attr_values:
  "cw_callsign (fold contact_attr as w) = fold (\<lambda>v _. Some v) (attr_values ''callsign'' as) (cw_callsign w)"
  "cw_course (fold track_attr as w) = fold (\<lambda>v _. parse_finite v) (attr_values ''course'' as) (cw_course w)"
  "cw_speed (fold track_attr as w) = fold (\<lambda>v _. parse_finite v) (attr_values ''speed'' as) (cw_speed w)"
  by (induction as arbitrary: w) (simp_all add: contact_attr_def track_attr_def)

definition hae_value :: "str \<Rightarrow> f64" where
  "hae_value s = (case parse_f64 s of Some v \<Rightarrow> v | None \<Rightarrow> f64_of_int 0)"

lemma point_attr_values:
  assumes "point_attrs as w = Inr w'"
  shows "cw_lat w' = fold (\<lambda>v _. parse_f64 v) (attr_values ''lat'' as) (cw_lat w)"
    "cw_lon w' = fold (\<lambda>v _. parse_f64 v) (attr_values ''lon'' as) (cw_lon w)"
    "cw_hae w' = fold (\<lambda>v _. hae_value v) (attr_values ''hae'' as) (cw_hae w)"
  using assms by (induction as arbitrary: w) (auto simp: point_attr_def hae_value_def try_bind_Inr_iff ok_or_Inr_iff split: if_splits)

lemmas cot_step_simps = values_of_element cot_element_def event_attr_values detail_attr_values point_attrs_sel point_attr_values

interpretation cot_uid: follows_attribute cw_uid "''event''" "''uid''" Some
  by unfold_locales (case_tac x; auto simp: cot_step_simps split: if_splits)

interpretation cot_type: follows_attribute cw_type "''event''" "''type''" Some
  by unfold_locales (case_tac x; auto simp: cot_step_simps split: if_splits)

interpretation cot_time: follows_attribute cw_time "''event''" "''time''" Some
  by unfold_locales (case_tac x; auto simp: cot_step_simps split: if_splits)

interpretation cot_callsign: follows_attribute cw_callsign "''contact''" "''callsign''" Some
  by unfold_locales (case_tac x; auto simp: cot_step_simps split: if_splits)

interpretation cot_course: follows_attribute cw_course "''track''" "''course''" parse_finite
  by unfold_locales (case_tac x; auto simp: cot_step_simps split: if_splits)

interpretation cot_speed: follows_attribute cw_speed "''track''" "''speed''" parse_finite
  by unfold_locales (case_tac x; auto simp: cot_step_simps split: if_splits)

interpretation cot_lat: follows_attribute cw_lat "''point''" "''lat''" parse_f64
  by unfold_locales (case_tac x; auto simp: cot_step_simps split: if_splits)

interpretation cot_lon: follows_attribute cw_lon "''point''" "''lon''" parse_f64
  by unfold_locales (case_tac x; auto simp: cot_step_simps split: if_splits)

interpretation cot_hae: follows_attribute cw_hae "''point''" "''hae''" hae_value
  by unfold_locales (case_tac x; auto simp: cot_step_simps split: if_splits)

lemma cot_saw_event: "cot_events xs w = Inr w' \<Longrightarrow> cw_saw_event w' \<longleftrightarrow> cw_saw_event w \<or> has_element ''event'' xs"
proof (induction xs arbitrary: w)
  case (Cons x xs)
  then obtain w1 where w1: "cot_event x w = Inr w1" "cot_events xs w1 = Inr w'" by (auto simp: try_bind_Inr_iff)
  have "cw_saw_event w1 \<longleftrightarrow> cw_saw_event w \<or> has_element ''event'' [x]"
    using w1(1) by (cases x) (auto simp: cot_element_def has_element_def point_attrs_saw split: if_splits)
  with Cons.IH [OF w1(2)] show ?case by (auto simp: has_element_def)
qed (simp add: has_element_def)

section \<open>What an event holds\<close>

definition COT_ATTRIBUTES :: "str list" where
  "COT_ATTRIBUTES = [''alt_id'', ''alt_id_standard'', ''hostility'', ''callsign'', ''course'', ''speed'']"

lemma cot_builder_keys: "keys_within COT_ATTRIBUTES [''source_uid''] (cot_builder p fx native uid ty time w)"
proof -
  have b: "keys_within [''alt_id'', ''alt_id_standard'', ''hostility''] [''source_uid''] (cot_base p fx native uid ty time)"
    unfolding cot_base_def eb_new_def eb_identity_def by (simp add: keys_within_def eb_defs)
  from keys_opt_attribute [OF keys_opt_attribute [OF keys_opt_attribute [OF b]]]
  have "keys_within COT_ATTRIBUTES [''source_uid'']
      (opt_attribute ''speed'' s (opt_attribute ''course'' c (opt_attribute ''callsign'' cs (cot_base p fx native uid ty time))))" for s c cs
    by (simp add: COT_ATTRIBUTES_def)
  then show ?thesis
    unfolding cot_builder_def Let_def by (intro keys_location_pair) (auto intro: keys_setters split: option.split)
qed

lemma cot_base_sel [simp]:
  "b_id (cot_base p fx native uid ty time) = Some (uuid fx)" "b_timestamp (cot_base p fx native uid ty time) = Some time"
  "b_location (cot_base p fx native uid ty time) = None" "b_source_id (cot_base p fx native uid ty time) = ct_source_id p"
  "b_entity_type (cot_base p fx native uid ty time) = cot_map_type (ct_overrides p) ty"
  "b_policy_tags (cot_base p fx native uid ty time) = []" "b_payload (cot_base p fx native uid ty time) = native"
  "b_confidence (cot_base p fx native uid ty time) = FNum False 0" "b_strict_entity_namespace (cot_base p fx native uid ty time)"
  by (simp_all add: cot_base_def eb_new_def eb_identity_def eb_defs)

definition walk_location :: "cot_walk \<Rightarrow> geo_point option" where
  "walk_location w = (case (cw_lat w, cw_lon w) of
     (Some lat, Some lon) \<Rightarrow> Some \<lparr>latitude = lat, longitude = lon, altitude_m = cw_hae w\<rparr> | _ \<Rightarrow> None)"

lemma metadata_opt_attribute [simp]: "b_metadata (opt_attribute k v b) = b_metadata b"
  by (simp add: opt_attribute_def eb_attribute_def split: option.split)

lemma cot_base_metadata [simp]: "b_metadata (cot_base p fx native uid ty time) = [(''source_uid'', uid)]"
  by (simp add: cot_base_def eb_new_def eb_identity_def eb_defs)

lemma cot_builder_metadata: "b_metadata (cot_builder p fx native uid ty time w) = [(''source_uid'', uid)]"
  by (simp add: cot_builder_def Let_def eb_confidence_def eb_location_def split: option.split)

lemma cot_builder_hostility: "(''hostility'', cot_hostility ty) \<in> set (b_attributes (cot_builder p fx native uid ty time w))"
  by (simp add: cot_builder_def cot_base_def Let_def eb_defs opt_attribute_def split: option.split)

lemma cot_built_hostility:
  "\<lparr>a_key = ''hostility'', a_value = cot_hostility ty\<rparr> \<in> set (ev_attributes (built_event (cot_builder p fx native uid ty time w)))"
  using cot_builder_hostility [of ty p fx native uid time w]
  by (auto simp: built_event_def image_iff to_attr_def intro!: bexI [of _ "(''hostility'', cot_hostility ty)"])

lemma strict_opt_attribute [simp]: "b_strict_entity_namespace (opt_attribute k v b) = b_strict_entity_namespace b"
  by (simp add: opt_attribute_def eb_attribute_def split: option.split)

lemma cot_builder_sel:
  "b_id (cot_builder p fx native uid ty time w) = Some (uuid fx)" "b_timestamp (cot_builder p fx native uid ty time w) = Some time"
  "b_location (cot_builder p fx native uid ty time w) = walk_location w"
  "b_source_id (cot_builder p fx native uid ty time w) = ct_source_id p"
  "b_entity_type (cot_builder p fx native uid ty time w) = cot_map_type (ct_overrides p) ty"
  "b_policy_tags (cot_builder p fx native uid ty time w) = []" "b_payload (cot_builder p fx native uid ty time w) = native"
  "b_confidence (cot_builder p fx native uid ty time w) = (case cw_confidence w of Some c \<Rightarrow> c | None \<Rightarrow> FNum False 0)"
  "b_strict_entity_namespace (cot_builder p fx native uid ty time w)"
  by (simp_all add: cot_builder_def walk_location_def Let_def eb_confidence_def eb_location_def split: option.split)

lemma f64_clamp_within: "x \<noteq> FNaN \<Longrightarrow> f64_within (f64_of_int 0) (f64_of_int 1) (f64_clamp (f64_of_int 0) (f64_of_int 1) x)"
  using f64_of_int_exact [of 0] f64_of_int_exact [of 1]
  by (cases x) (auto simp: f64_clamp_def f64_within_def f64_le_def signed_val_def split: if_splits)

lemma normalized_within: "normalize_confidence s = Some c \<Longrightarrow> c \<noteq> FNaN \<Longrightarrow> f64_within (f64_of_int 0) (f64_of_int 1) c"
proof -
  assume "normalize_confidence s = Some c" "c \<noteq> FNaN"
  then obtain v where v: "c = f64_clamp (f64_of_int 0) (f64_of_int 1) v" by (auto simp: normalize_confidence_def)
  have "v \<noteq> FNaN"
  proof
    assume "v = FNaN"
    then have "c = FNaN" using f64_of_int_exact [of 0] f64_of_int_exact [of 1] by (simp add: v f64_clamp_def)
    with \<open>c \<noteq> FNaN\<close> show False ..
  qed
  then show ?thesis unfolding v by (rule f64_clamp_within)
qed

definition confidence_kept :: "cot_walk \<Rightarrow> bool" where
  "confidence_kept w \<longleftrightarrow> (\<forall>c. cw_confidence w = Some c \<longrightarrow> (\<exists>s. normalize_confidence s = Some c))"

lemma confidence_attrs_kept: "confidence_kept w \<Longrightarrow> confidence_kept (fold confidence_attr as w)"
proof (induction as arbitrary: w)
  case (Cons kv as)
  then have "confidence_kept (confidence_attr kv w)" by (auto simp: confidence_attr_def confidence_kept_def)
  with Cons.IH show ?case by simp
qed simp

lemma cot_events_confidence: "cot_events xs w = Inr w' \<Longrightarrow> confidence_kept w \<Longrightarrow> confidence_kept w'"
proof (induction xs arbitrary: w)
  case (Cons x xs)
  then obtain w1 where w1: "cot_event x w = Inr w1" "cot_events xs w1 = Inr w'" by (auto simp: try_bind_Inr_iff)
  have k: "confidence_kept (w\<lparr>cw_in_confidence := b\<rparr>)" "confidence_kept (w\<lparr>cw_saw_event := b\<rparr>)" for b
    using Cons.prems(2) by (simp_all add: confidence_kept_def)
  have "confidence_kept w1"
    using w1(1) Cons.prems(2) k confidence_attrs_kept [OF k(1) [of True]]
    by (cases x) (auto simp: cot_element_def confidence_kept_def point_attrs_sel split: if_splits)
  with Cons.IH [OF w1(2)] show ?case by simp
qed simp

lemma cot_read_confidence:
  assumes "cot_read xml native = Inr w"
  shows "f64_within (f64_of_int 0) (f64_of_int 1) (case cw_confidence w of Some c \<Rightarrow> c | None \<Rightarrow> FNum False 0)
    \<longleftrightarrow> cw_confidence w \<noteq> Some FNaN"
proof -
  have z: "f64_within (f64_of_int 0) (f64_of_int 1) (FNum False 0)" "\<not> f64_within (f64_of_int 0) (f64_of_int 1) FNaN"
    using f64_of_int_exact [of 0] f64_of_int_exact [of 1] by (simp_all add: f64_within_def f64_le_def signed_val_def)
  have "confidence_kept w"
    using assms cot_events_confidence [of _ cot_start w]
    by (auto simp: cot_read_def try_bind_Inr_iff confidence_kept_def cot_start_def split: option.splits)
  then show ?thesis
    using normalized_within z by (cases "cw_confidence w") (auto simp: confidence_kept_def)
qed

lemma cot_builds_iff:
  assumes "cot_read xml native = Inr w" "ct_source_id p \<noteq> []"
  shows "build (cot_builder p fx native uid ty time w) = Inr e \<longleftrightarrow>
    e = built_event (cot_builder p fx native uid ty time w) \<and> is_rfc3339 time \<and> is_namespaced (cot_map_type (ct_overrides p) ty)
    \<and> (\<forall>loc. walk_location w = Some loc \<longrightarrow> location_ok loc) \<and> cw_confidence w \<noteq> Some FNaN"
proof -
  have "buildable (cot_builder p fx native uid ty time w) \<longleftrightarrow> is_rfc3339 time
      \<and> (\<forall>loc. walk_location w = Some loc \<longrightarrow> location_ok loc) \<and> is_namespaced (cot_map_type (ct_overrides p) ty)
      \<and> cw_confidence w \<noteq> Some FNaN"
    unfolding cot_read_confidence [OF assms(1), symmetric]
    by (subst keys_within_buildable [OF cot_builder_keys])
      (simp_all add: COT_ATTRIBUTES_def MAX_ATTRIBUTES_def MAX_METADATA_def cot_builder_sel assms(2))
  then show ?thesis by (auto simp: build_Inr_iff)
qed

lemma cot_to_event_iff:
  assumes "cot_read xml native = Inr w" "ct_source_id p \<noteq> []"
  shows "cot_to_event xml fx native p = Inr e \<longleftrightarrow> cw_saw_event w
    \<and> (\<exists>uid ty time. cw_uid w = Some uid \<and> cw_type w = Some ty \<and> cw_time w = Some time
         \<and> is_rfc3339 time \<and> is_namespaced (cot_map_type (ct_overrides p) ty)
         \<and> (\<forall>loc. walk_location w = Some loc \<longrightarrow> location_ok loc) \<and> cw_confidence w \<noteq> Some FNaN
         \<and> e = built_event (cot_builder p fx native uid ty time w))"
  by (auto simp: cot_to_event_def assms(1) try_bind_Inr_iff ok_or_Inr_iff map_sum_Inr_iff cot_builds_iff [OF assms])

interpretation cot_frames: frame_parser "cot_parse xml" ct_source_id for xml
proof
  fix fx frame p p' r
  assume "cot_parse xml fx frame p = Some (p', r)"
  then show "ct_source_id p' = ct_source_id p" by (auto simp: cot_parse_def)
next
  fix fx frame p p' es e
  assume "cot_parse xml fx frame p = Some (p', Inr es)" "e \<in> set es"
  then have "cot_to_event xml fx frame p = Inr e" by (auto simp: cot_parse_def map_sum_Inr_iff)
  then obtain uid ty time w where "build (cot_builder p fx frame uid ty time w) = Inr e"
    by (auto simp: cot_to_event_def try_bind_Inr_iff map_sum_Inr_iff split: if_splits)
  from build_source [OF this] show "canonical_event e \<and> ev_source_id e = ct_source_id p" by (simp add: cot_builder_sel)
qed

section \<open>Properties\<close>

text \<open>What a document says: the last value of an attribute counts.\<close>

definition said :: "xml_event list \<Rightarrow> str \<Rightarrow> str \<Rightarrow> str option" where
  "said xs elem key = last_opt (values_of elem key xs)"

definition said_location :: "xml_event list \<Rightarrow> geo_point option" where
  "said_location xs =
     (case (Option.bind (said xs ''point'' ''lat'') parse_f64, Option.bind (said xs ''point'' ''lon'') parse_f64) of
        (Some lat, Some lon) \<Rightarrow>
          Some \<lparr>latitude = lat, longitude = lon,
                altitude_m = (case said xs ''point'' ''hae'' of Some h \<Rightarrow> hae_value h | None \<Rightarrow> f64_of_int 0)\<rparr>
      | _ \<Rightarrow> None)"

lemma walk_says:
  assumes "cot_events xs cot_start = Inr w"
  shows "cw_uid w = said xs ''event'' ''uid''" "cw_type w = said xs ''event'' ''type''" "cw_time w = said xs ''event'' ''time''"
    "cw_callsign w = said xs ''contact'' ''callsign''" "walk_location w = said_location xs"
    "cw_saw_event w \<longleftrightarrow> has_element ''event'' xs"
proof -
  show "cw_uid w = said xs ''event'' ''uid''" "cw_type w = said xs ''event'' ''type''" "cw_time w = said xs ''event'' ''time''"
    "cw_callsign w = said xs ''contact'' ''callsign''"
    using cot_uid.last_decides [OF assms] cot_type.last_decides [OF assms] cot_time.last_decides [OF assms]
      cot_callsign.last_decides [OF assms] by (simp_all add: said_def cot_start_def split: option.split)
  have "cw_lat w = Option.bind (said xs ''point'' ''lat'') parse_f64" "cw_lon w = Option.bind (said xs ''point'' ''lon'') parse_f64"
    "cw_hae w = (case said xs ''point'' ''hae'' of Some h \<Rightarrow> hae_value h | None \<Rightarrow> f64_of_int 0)"
    using cot_lat.last_decides [OF assms] cot_lon.last_decides [OF assms] cot_hae.last_decides [OF assms]
    by (simp_all add: said_def cot_start_def split: option.split)
  then show "walk_location w = said_location xs" by (simp only: walk_location_def said_location_def)
  show "cw_saw_event w \<longleftrightarrow> has_element ''event'' xs" using cot_saw_event [OF assms] by (simp add: cot_start_def)
qed

definition is_number :: "str \<Rightarrow> bool" where
  "is_number s \<longleftrightarrow> parse_f64 s \<noteq> None"

lemma point_attrs_total:
  "(\<exists>w'. point_attrs as w = Inr w') \<longleftrightarrow> list_all is_number (attr_values ''lat'' as @ attr_values ''lon'' as)"
proof (induction as arbitrary: w)
  case (Cons kv as)
  have "(\<exists>w1. point_attr kv w = Inr w1) \<longleftrightarrow> (fst kv = ''lat'' \<or> fst kv = ''lon'' \<longrightarrow> is_number (snd kv))"
    by (auto simp: point_attr_def try_bind_Inr_iff ok_or_Inr_iff is_number_def)
  with Cons show ?case by (auto simp: try_bind_Inr_iff)
qed simp

lemma cot_events_total:
  "(\<exists>w'. cot_events xs w = Inr w') \<longleftrightarrow> list_all is_number (values_of ''point'' ''lat'' xs @ values_of ''point'' ''lon'' xs)"
proof (induction xs arbitrary: w)
  case (Cons x xs)
  have v: "values_of e k (x # xs) = values_of e k [x] @ values_of e k xs" for e k by (simp add: values_of_simps)
  have "(\<exists>w1. cot_event x w = Inr w1) \<longleftrightarrow> list_all is_number (values_of ''point'' ''lat'' [x] @ values_of ''point'' ''lon'' [x])"
    using point_attrs_total [of "x_attrs x" w] by (cases x) (auto simp: cot_element_def values_of_element)
  with Cons show ?case unfolding v by (auto simp: try_bind_Inr_iff)
qed (simp add: values_of_simps)

text \<open>C19. A document that is read to its end becomes an event exactly when it has an \<open>event\<close> element, every
  coordinate in it is a number, the last identifier, type and time are there, the time is a valid timestamp, the type
  maps into a namespace, the position, if any, is valid and the confidence is not NaN.\<close>

theorem cot_published_iff:
  assumes "xml native = (xs, None)" "ct_source_id p \<noteq> []"
  shows "(\<exists>e. cot_to_event xml fx native p = Inr e) \<longleftrightarrow>
    has_element ''event'' (map fst xs)
    \<and> list_all is_number (values_of ''point'' ''lat'' (map fst xs) @ values_of ''point'' ''lon'' (map fst xs))
    \<and> said (map fst xs) ''event'' ''uid'' \<noteq> None
    \<and> (\<exists>time. said (map fst xs) ''event'' ''time'' = Some time \<and> is_rfc3339 time)
    \<and> (\<exists>ty. said (map fst xs) ''event'' ''type'' = Some ty \<and> is_namespaced (cot_map_type (ct_overrides p) ty))
    \<and> (\<forall>loc. said_location (map fst xs) = Some loc \<longrightarrow> location_ok loc)
    \<and> (\<forall>w. cot_events (map fst xs) cot_start = Inr w \<longrightarrow> cw_confidence w \<noteq> Some FNaN)"
proof (cases "cot_events (map fst xs) cot_start")
  case (Inl err)
  then have "\<not> (\<exists>w. cot_events (map fst xs) cot_start = Inr w)" by simp
  moreover have "cot_to_event xml fx native p = Inl err" by (simp add: cot_to_event_def cot_read_def assms(1) Inl)
  ultimately show ?thesis unfolding cot_events_total by auto
next
  case (Inr w)
  then have r: "cot_read xml native = Inr w" by (simp add: cot_read_def assms(1))
  have "list_all is_number (values_of ''point'' ''lat'' (map fst xs) @ values_of ''point'' ''lon'' (map fst xs))"
    using cot_events_total [of "map fst xs" cot_start] Inr by blast
  then show ?thesis using walk_says [OF Inr] Inr by (auto simp: cot_to_event_iff [OF r assms(2)])
qed

lemma cot_governed:
  "list_all (\<lambda>ty. list_all (governs ONTOLOGY ty) COT_ATTRIBUTES) [''mim:aircraft'', ''mim:vessel'', ''mim:subsurface-vessel'']"
  by code_simp

lemma cot_type_governs: "list_all (governs ONTOLOGY (cot_map_type Map.empty ty)) COT_ATTRIBUTES"
proof -
  have "cot_map_type Map.empty ty \<in> {''mim:aircraft'', ''mim:vessel'', ''mim:subsurface-vessel''}
      \<or> starts_with (cot_map_type Map.empty ty) ''x:''"
    by (auto simp: cot_map_type_def Let_def starts_with_def split: option.split)
  then show ?thesis
  proof
    assume "starts_with (cot_map_type Map.empty ty) ''x:''"
    then have "\<not> starts_with (cot_map_type Map.empty ty) ''mim:''" by (auto simp: starts_with_def prefix_def)
    then show ?thesis by (simp add: governs_def operator_namespace_def list_all_iff)
  qed (use cot_governed in auto)
qed

text \<open>The event of a document carries it as payload and what it says: its time, the position, the entity type
  and the hostility of its type, and its identifier; without overrides no attribute is outside the ontology.\<close>

theorem cot_event_exact:
  assumes "xml native = (xs, None)" "cot_to_event xml fx native p = Inr e" "ct_overrides p = Map.empty"
  shows "canonical_event e \<and> ev_payload e = native \<and> ungoverned ONTOLOGY e = []
    \<and> said (map fst xs) ''event'' ''time'' = Some (ev_timestamp e) \<and> ev_location e = said_location (map fst xs)
    \<and> (\<exists>uid ty. said (map fst xs) ''event'' ''uid'' = Some uid \<and> said (map fst xs) ''event'' ''type'' = Some ty
        \<and> ev_entity_type e = cot_map_type Map.empty ty
        \<and> \<lparr>a_key = ''hostility'', a_value = cot_hostility ty\<rparr> \<in> set (ev_attributes e)
        \<and> ev_metadata e = [\<lparr>a_key = ''source_uid'', a_value = uid\<rparr>])"
proof -
  from assms(2) obtain w uid ty time where r: "cot_read xml native = Inr w" and
      v: "cw_uid w = Some uid" "cw_type w = Some ty" "cw_time w = Some time" and
      b: "build (cot_builder p fx native uid ty time w) = Inr e"
    by (auto simp: cot_to_event_def try_bind_Inr_iff ok_or_Inr_iff map_sum_Inr_iff split: if_splits)
  have w: "cot_events (map fst xs) cot_start = Inr w" using r by (simp add: cot_read_def assms(1) try_bind_Inr_iff)
  have e: "e = built_event (cot_builder p fx native uid ty time w)" using b by (simp add: build_Inr_iff)
  have "ungoverned ONTOLOGY e = []"
    unfolding e by (rule ungoverned_Nil [OF cot_builder_keys])
      (simp_all add: cot_builder_sel assms(3) cot_type_governs, simp add: COT_ATTRIBUTES_def)
  moreover have "\<lparr>a_key = ''hostility'', a_value = cot_hostility ty\<rparr> \<in> set (ev_attributes e)"
    unfolding e by (rule cot_built_hostility)
  moreover have "ev_metadata e = [\<lparr>a_key = ''source_uid'', a_value = uid\<rparr>]"
    by (simp add: e built_event_def to_attr_def cot_builder_metadata)
  moreover have "ev_timestamp e = time" "ev_location e = said_location (map fst xs)" "ev_payload e = native"
      "ev_entity_type e = cot_map_type Map.empty ty"
    using walk_says(5) [OF w] by (simp_all add: e built_event_def cot_builder_sel assms(3))
  ultimately show ?thesis using v walk_says(1-3) [OF w] build_source [OF b] by auto
qed

text \<open>An empty confidence element leaves the walk waiting for a text, and the text of a later element is taken
  for the confidence.\<close>

lemma confidence_from_remarks:
  "\<exists>w. cot_events [XEmpty ''confidence'' [(''value'', ''high'')], XStart ''remarks'' [], XText ''1'', XEnd ''remarks''] cot_start = Inr w
     \<and> cw_confidence w = normalize_confidence ''1''"
proof -
  have "normalize_confidence ''high'' = None" "trim ''1'' = ''1''" by code_simp+
  then show ?thesis by (simp add: cot_element_def confidence_attr_def cot_start_def)
qed

lemma confidence_one: "normalize_confidence ''1'' = Some (f64_of_int 1)"
  by code_simp

text \<open>A confidence of NaN stays NaN, and the builder rejects the event.\<close>

lemma confidence_nan: "normalize_confidence ''nan'' = Some FNaN"
  by code_simp

section \<open>Examples\<close>

definition ex_cot_xml :: "bytes \<Rightarrow> xml_stream" where
  "ex_cot_xml bs =
     (map (\<lambda>x. (x, length bs))
        [XStart ''event'' [(''uid'', ''AD-7741''), (''type'', ''a-f-A-M''), (''time'', ''2026-06-10T08:00:00Z'')],
         XEmpty ''point'' [(''lat'', ''26.4''), (''lon'', ''50.9''), (''hae'', ''1200.0'')],
         XEnd ''event''], None)"

definition ex_cot :: cot_parser where
  "ex_cot = \<lparr>ct_source_id = ''tak-1'', ct_overrides = Map.empty\<rparr>"

definition cot_effects :: effects where
  "cot_effects = \<lparr>instant = 0, wall_clock = ''2026-06-10T08:00:00Z'', uuid = ''0192f1f4''\<rparr>"

lemma ex_cot_parts:
  "cot_map_type Map.empty ''a-f-A-M'' = ''mim:aircraft''" "is_namespaced ''mim:aircraft''" "is_rfc3339 ''2026-06-10T08:00:00Z''"
  "case said_location (map fst (fst (ex_cot_xml []))) of Some loc \<Rightarrow> location_ok loc | None \<Rightarrow> False"
  by code_simp+

theorem cot_published_iff_witness: "\<exists>e. cot_to_event ex_cot_xml cot_effects [] ex_cot = Inr e"
proof -
  let ?xs = "fst (ex_cot_xml [])"
  have x: "ex_cot_xml [] = (?xs, None)" by (simp add: ex_cot_xml_def)
  have "has_element ''event'' (map fst ?xs)" "said (map fst ?xs) ''event'' ''uid'' = Some ''AD-7741''"
      "said (map fst ?xs) ''event'' ''type'' = Some ''a-f-A-M''" "said (map fst ?xs) ''event'' ''time'' = Some ''2026-06-10T08:00:00Z''"
      "list_all is_number (values_of ''point'' ''lat'' (map fst ?xs) @ values_of ''point'' ''lon'' (map fst ?xs))"
    by code_simp+
  moreover have "cw_confidence w \<noteq> Some FNaN" if "cot_events (map fst ?xs) cot_start = Inr w" for w
  proof -
    have "case cot_events (map fst ?xs) cot_start of Inr w \<Rightarrow> cw_confidence w = None | Inl _ \<Rightarrow> True" by code_simp
    with that show ?thesis by simp
  qed
  ultimately show ?thesis
    using cot_published_iff [where xml = ex_cot_xml, OF x, of ex_cot cot_effects] ex_cot_parts by (auto simp: ex_cot_def split: option.splits)
qed

theorem cot_event_exact_witness:
  "\<exists>e. cot_to_event ex_cot_xml cot_effects [] ex_cot = Inr e \<and> ungoverned ONTOLOGY e = []
     \<and> \<lparr>a_key = ''hostility'', a_value = ''Friend''\<rparr> \<in> set (ev_attributes e)"
proof -
  let ?xs = "fst (ex_cot_xml [])"
  have x: "ex_cot_xml [] = (?xs, None)" by (simp add: ex_cot_xml_def)
  have "case cot_to_event ex_cot_xml cot_effects [] ex_cot of Inr e \<Rightarrow> True | Inl _ \<Rightarrow> False" by code_simp
  then obtain e where e: "cot_to_event ex_cot_xml cot_effects [] ex_cot = Inr e" by (auto split: sum.splits)
  have "said (map fst ?xs) ''event'' ''type'' = Some ''a-f-A-M''" "cot_hostility ''a-f-A-M'' = ''Friend''" by code_simp+
  with cot_event_exact [OF x e] e show ?thesis by (auto simp: ex_cot_def)
qed

end
