(* ===== verification/F64_Text.thy ===== *)
theory F64_Text
  imports F64
begin

text \<open>
  \<open>Display\<close> of a double, \<open>format!("{x}")\<close>: the shortest decimal that reads back as the number, the nearest
  one where several are as short, without an exponent. The lemma \<open>parse_show_f64\<close> shows that \<open>parse\<close>
  gives the number back.
\<close>

section \<open>Display\<close>

text \<open>A decimal \<open>m\<close> times ten to the power \<open>- k\<close>.\<close>

definition reads_as :: "rat \<Rightarrow> int \<Rightarrow> int \<Rightarrow> bool" where
  "reads_as q m k \<longleftrightarrow> fl False (of_int m * pow10 (- k)) = FNum False q"

text \<open>The shortest decimal has the fewest digits behind the point; \<open>k\<close> counts up from fewer than any. After
  \<open>n\<close> tries it is the exact expansion, which has at most 1074 digits.\<close>

definition EXACT :: nat where "EXACT = 1074"

fun shortest :: "nat \<Rightarrow> int \<Rightarrow> rat \<Rightarrow> int \<times> int" where
  "shortest 0 k q = (\<lfloor>q * 10 ^ EXACT\<rfloor>, int EXACT)"
| "shortest (Suc n) k q =
     (let lo = \<lfloor>q * pow10 k\<rfloor>; hi = lo + 1; below = q * pow10 k - of_int lo
      in if reads_as q lo k \<and> (below < 1 / 2 \<or> \<not> reads_as q hi k) then (lo, k)
         else if reads_as q hi k then (hi, k)
         else shortest n (k + 1) q)"

definition show_decimal :: "int \<Rightarrow> int \<Rightarrow> str" where
  "show_decimal m k =
     (if k \<le> 0 then show_int (m * 10 ^ nat (- k))
      else show_int (m div 10 ^ nat k) @ CHR ''.'' # pad_left (nat k) (CHR ''0'') (show_int (m mod 10 ^ nat k)))"

definition show_mag :: "rat \<Rightarrow> str" where
  "show_mag q = (case shortest 400 (- int (length (show_int \<lfloor>q\<rfloor>))) q of (m, k) \<Rightarrow> show_decimal m k)"

fun show_f64 :: "f64 \<Rightarrow> str" where
  "show_f64 FNaN = ''NaN''"
| "show_f64 (FInf s) = (if s then ''-inf'' else ''inf'')"
| "show_f64 (FNum s q) = (if s then CHR ''-'' # show_mag q else show_mag q)"

text \<open>The values that a double can have.\<close>

fun is_f64 :: "f64 \<Rightarrow> bool" where
  "is_f64 (FNum s q) \<longleftrightarrow> 0 \<le> q \<and> fl False q = FNum False q"
| "is_f64 _ \<longleftrightarrow> True"

section \<open>Reading a decimal\<close>

lemma digits_val_append: "digits_val r acc (s @ t) = Option.bind (digits_val r acc s) (\<lambda>v. digits_val r v t)"
  by (induction s arbitrary: acc) (auto split: option.split)

lemma digits_val_add: "digits_val r a t = Some v \<Longrightarrow> digits_val r (a + acc) t = Some (acc * r ^ length t + v)"
proof (induction t arbitrary: a acc)
  case (Cons c cs)
  then obtain d where d: "to_digit r c = Some d" "digits_val r (a * r + d) cs = Some v" by (auto split: option.splits)
  from Cons.IH [OF d(2), of "acc * r"] d(1) show ?case by (simp add: algebra_simps)
qed simp

lemmas digits_val_shift = digits_val_add [of _ 0, simplified]

lemma digits_val_show: "0 \<le> n \<Longrightarrow> digits_val 10 0 (show_int n) = Some n"
  using digits_of_value [of n 10] by (simp add: show_int_def digits_val_map)

lemma digits_of_length: "0 \<le> n \<Longrightarrow> n < 10 ^ k \<Longrightarrow> 0 < k \<Longrightarrow> length (digits_of 10 n) \<le> k"
proof (induction k arbitrary: n)
  case (Suc k)
  show ?case
  proof (cases "n < 10")
    case False
    with Suc.prems have "k \<noteq> 0" by (cases k) auto
    moreover have "n div 10 < 10 ^ k" "0 \<le> n div 10" using Suc.prems by auto
    ultimately have "length (digits_of 10 (n div 10)) \<le> k" using Suc.IH by simp
    with False show ?thesis by (subst digits_of.simps) simp
  qed (subst digits_of.simps, simp)
qed simp

lemma length_pad_show: "0 \<le> n \<Longrightarrow> n < 10 ^ k \<Longrightarrow> 0 < k \<Longrightarrow> length (pad_left k c (show_int n)) = k"
  using digits_of_length [of n k] by (simp add: pad_left_def show_int_def)

lemma pad_show_digits: "0 \<le> n \<Longrightarrow> list_all is_digit (pad_left k (CHR ''0'') (show_int n))"
  using show_int_digits [of n] by (auto simp: pad_left_def list_all_iff is_digit_def)

lemma takeWhile_digits:
  "list_all is_digit s \<Longrightarrow> takeWhile is_digit s = s" "list_all is_digit s \<Longrightarrow> dropWhile is_digit s = []"
  "list_all is_digit s \<Longrightarrow> takeWhile is_digit (s @ CHR ''.'' # t) = s" "list_all is_digit s \<Longrightarrow> dropWhile is_digit (s @ CHR ''.'' # t) = CHR ''.'' # t"
  by (induction s) (simp_all add: is_digit_def)

lemma parse_decimal_int: "0 \<le> n \<Longrightarrow> parse_decimal (show_int n) = Some (of_int n)"
  using show_int_digits [of n] by (simp add: parse_decimal_def takeWhile_digits digits_val_show parse_exponent_def pow10_def)

lemma parse_decimal_point:
  assumes "0 \<le> a" "0 \<le> b" "b < 10 ^ k" "0 < k"
  shows "parse_decimal (show_int a @ CHR ''.'' # pad_left k (CHR ''0'') (show_int b)) = Some (of_int (a * 10 ^ k + b) * pow10 (- int k))"
proof -
  let ?f = "pad_left k (CHR ''0'') (show_int b)"
  have "digits_val 10 0 ?f = Some b" by (simp add: pad_left_def digits_val_zeros digits_val_show assms)
  then have "digits_val 10 0 (show_int a @ ?f) = Some (a * 10 ^ length ?f + b)"
    using assms(1) by (simp add: digits_val_append digits_val_show digits_val_shift)
  then show ?thesis
    using assms show_int_digits [of a] pad_show_digits [of b k] length_pad_show [of b k]
    by (simp add: parse_decimal_def takeWhile_digits parse_exponent_def)
qed

lemma parse_show_decimal: "0 \<le> m \<Longrightarrow> parse_decimal (show_decimal m k) = Some (of_int m * pow10 (- k))"
proof (cases "k \<le> 0")
  case True
  assume "0 \<le> m"
  then show ?thesis using True parse_decimal_int [of "m * 10 ^ nat (- k)"] by (simp add: show_decimal_def pow10_def)
next
  case False
  assume m: "0 \<le> m"
  from False have "parse_decimal (show_decimal m k) = Some (of_int (m div 10 ^ nat k * 10 ^ nat k + m mod 10 ^ nat k) * pow10 (- int (nat k)))"
    unfolding show_decimal_def if_not_P [OF False] using m by (intro parse_decimal_point) (simp_all add: pos_imp_zdiv_nonneg_iff)
  then have "parse_decimal (show_decimal m k) = Some (of_int m * pow10 (- int (nat k)))" by (simp only: div_mult_mod_eq)
  with False show ?thesis by simp
qed

lemma show_decimal_digit: "0 \<le> m \<Longrightarrow> \<exists>c cs. show_decimal m k = c # cs \<and> is_digit c"
proof -
  assume "0 \<le> m"
  then have "0 \<le> m * 10 ^ nat (- k)" "0 \<le> m div 10 ^ nat k" by (simp_all add: pos_imp_zdiv_nonneg_iff)
  then show ?thesis
    using show_int_digits [of "m * 10 ^ nat (- k)"] show_int_digits [of "m div 10 ^ nat k"]
    by (cases "show_int (m * 10 ^ nat (- k))"; cases "show_int (m div 10 ^ nat k)") (auto simp: show_decimal_def)
qed

section \<open>The round trip\<close>

lemma exact_expansion:
  assumes "0 \<le> q" "fl False q = FNum False q"
  shows "of_int \<lfloor>q * 10 ^ EXACT\<rfloor> * pow10 (- int EXACT) = q"
proof -
  have r: "round_mag q = q" using assms(2) by (simp add: fl_def Let_def split: if_splits)
  have "\<exists>z. q * 10 ^ EXACT = of_int z"
  proof (cases "q = 0")
    case False
    let ?e = "max (ilog2 q) (-1022) - 52" and ?n = "round_half_even (q / ulp q)"
    have q: "q = of_int ?n * pow2 ?e" using r False by (simp add: round_mag_def ulp_def)
    have "\<exists>z. pow2 ?e * 10 ^ EXACT = of_int z"
    proof (cases "0 \<le> ?e")
      case True
      then have "pow2 ?e * 10 ^ EXACT = of_int (2 ^ nat ?e * 10 ^ EXACT)" by (simp add: pow2_def)
      then show ?thesis by blast
    next
      case neg: False
      define j where "j = nat (- ?e)"
      have j: "j \<le> EXACT" using neg by (simp add: j_def EXACT_def)
      have "(10 :: rat) ^ EXACT = 2 ^ j * (2 ^ (EXACT - j) * 5 ^ EXACT)"
      proof -
        have "(10 :: rat) ^ EXACT = 2 ^ EXACT * 5 ^ EXACT" using power_mult_distrib [of "2 :: rat" 5 EXACT] by simp
        also have "(2 :: rat) ^ EXACT = 2 ^ j * 2 ^ (EXACT - j)" using j by (simp flip: power_add)
        finally show ?thesis by simp
      qed
      moreover have "pow2 ?e = 1 / 2 ^ j" using neg by (simp add: pow2_def j_def)
      ultimately have "pow2 ?e * 10 ^ EXACT = of_int (2 ^ (EXACT - j) * 5 ^ EXACT)" by simp
      then show ?thesis by blast
    qed
    then obtain z where "pow2 ?e * 10 ^ EXACT = of_int z" by blast
    then have "q * 10 ^ EXACT = of_int (?n * z)" by (subst q) (simp only: mult.assoc of_int_mult)
    then show ?thesis by blast
  qed (simp add: exI [of _ 0])
  then obtain z where z: "q * 10 ^ EXACT = of_int z" by blast
  have "pow10 (- int EXACT) = 1 / 10 ^ EXACT" by (cases EXACT) (simp_all add: pow10_def)
  then show ?thesis unfolding z floor_of_int unfolding z [symmetric] by simp
qed

lemma shortest_reads:
  assumes "0 \<le> q" "fl False q = FNum False q" "shortest n k q = (m, j)"
  shows "0 \<le> m \<and> reads_as q m j"
  using assms(3)
proof (induction n arbitrary: k)
  case 0
  then have "m = \<lfloor>q * 10 ^ EXACT\<rfloor>" "j = int EXACT" by simp_all
  with exact_expansion [OF assms(1,2)] assms(1,2) show ?case by (simp add: reads_as_def)
next
  case (Suc n)
  have "0 \<le> q * pow10 k" using assms(1) by (simp add: pow10_def)
  then have "0 \<le> \<lfloor>q * pow10 k\<rfloor>" by simp
  with Suc show ?case by (auto simp: Let_def split: if_splits)
qed

lemma fl_sign: "fl False v = FNum False q \<Longrightarrow> fl s v = FNum s q"
  by (auto simp: fl_def Let_def split: if_splits)

lemma parse_show_f64: "is_f64 x \<Longrightarrow> parse_f64 (show_f64 x) = Some x"
proof (cases x)
  case (FNum s q)
  assume "is_f64 x"
  with FNum have q: "0 \<le> q" "fl False q = FNum False q" by auto
  obtain m k where mk: "shortest 400 (- int (length (show_int \<lfloor>q\<rfloor>))) q = (m, k)" by force
  have m: "0 \<le> m" "reads_as q m k" using shortest_reads [OF q mk] by auto
  have fl: "fl s (of_int m * pow10 (- k)) = FNum s q" using m(2) unfolding reads_as_def by (rule fl_sign)
  have "show_mag q = show_decimal m k" unfolding show_mag_def mk by simp
  moreover obtain c cs where c: "show_decimal m k = c # cs" "is_digit c" using show_decimal_digit [OF m(1)] by blast
  moreover have "c \<noteq> CHR ''-'' \<and> c \<noteq> CHR ''+''" using c(2) by (auto simp: is_digit_def)
  ultimately have "split_sign (show_f64 x) = (s, show_decimal m k)" using FNum by (simp add: split_sign_def)
  then show ?thesis
    using parse_show_decimal [OF m(1), of k] fl FNum unfolding parse_f64_def by simp
next
  case FNaN
  then show ?thesis by simp code_simp
next
  case (FInf s)
  then show ?thesis by (cases s) (simp, code_simp)+
qed


end
