(* ===== verification/Cot_Out.thy ===== *)
theory Cot_Out
  imports Cot F64_Text
begin

text \<open>
  The map view of the sink, \<open>sink/src/cot_out.rs\<close>: a verified event rendered as Cursor-on-Target. The time at
  which a marker goes stale is computed on 64-bit integers; \<open>checked\<close> tells whether the build checks
  arithmetic for overflow, and an overflow is then a panic, the value \<open>None\<close>.
\<close>

section \<open>Type and text\<close>

definition STALE_S :: int where "STALE_S = 60"

definition sink_attribute :: "event \<Rightarrow> str \<Rightarrow> str option" where
  "sink_attribute e key = map_option a_value (find (\<lambda>a. a_key a = key) (ev_attributes e))"

definition sink_metadata :: "event \<Rightarrow> str \<Rightarrow> str option" where
  "sink_metadata e key = map_option a_value (find (\<lambda>m. a_key m = key) (ev_metadata e))"

definition affiliation :: "event \<Rightarrow> str" where
  "affiliation e =
     (case sink_attribute e ''hostility'' of
        None \<Rightarrow> ''u''
      | Some h \<Rightarrow>
          if h = ''Friend'' then ''f'' else if h = ''AssumedFriend'' then ''a'' else if h = ''Hostile'' then ''h''
          else if h = ''Suspect'' then ''s'' else if h = ''Neutral'' then ''n'' else if h = ''Pending'' then ''p''
          else if h = ''Joker'' then ''j'' else if h = ''Faker'' then ''k'' else ''u'')"

definition dimension :: "event \<Rightarrow> str" where
  "dimension e =
     (case sink_attribute e ''environment'' of
        Some env \<Rightarrow>
          if env = ''AIR'' then ''A'' else if env = ''LAND'' then ''G'' else if env = ''SURFACE'' then ''S''
          else if env = ''SUBSURFACE'' then ''U'' else if env = ''SPACE'' then ''P'' else ''X''
      | None \<Rightarrow>
          if ev_entity_type e = ''mim:aircraft'' then ''A''
          else if ev_entity_type e = ''mim:vessel'' \<or> ev_entity_type e = ''mim:surface-vessel'' then ''S''
          else if ev_entity_type e = ''mim:subsurface-vessel'' then ''U''
          else if ev_entity_type e = ''mim:land-vehicle'' then ''G'' else ''X'')"

definition escape_char :: "char \<Rightarrow> str" where
  "escape_char c =
     (if c = CHR ''&'' then ''&amp;'' else if c = CHR ''<'' then ''&lt;'' else if c = CHR ''>'' then ''&gt;''
      else if c = CHR 0x22 then ''&quot;'' else if c = CHR 0x27 then ''&apos;'' else [c])"

definition escape :: "str \<Rightarrow> str" where
  "escape s = concat (map escape_char s)"

section \<open>Going stale\<close>

definition i64_ok :: "int \<Rightarrow> bool" where
  "i64_ok n \<longleftrightarrow> - 9223372036854775808 \<le> n \<and> n < 9223372036854775808"

definition i64_wrap :: "int \<Rightarrow> int" where
  "i64_wrap n = (n + 9223372036854775808) mod 18446744073709551616 - 9223372036854775808"

abbreviation parse_i64 :: "str \<Rightarrow> int option" where
  "parse_i64 \<equiv> parse_sint (- 9223372036854775808) 9223372036854775807"

definition stale_total :: "bool \<Rightarrow> int \<Rightarrow> int \<Rightarrow> int \<Rightarrow> int option" where
  "stale_total checked h m s =
     (if checked \<and> \<not> list_all i64_ok [h * 3600, m * 60, h * 3600 + m * 60, h * 3600 + m * 60 + s, h * 3600 + m * 60 + s + STALE_S]
      then None
      else Some (min (i64_wrap (h * 3600 + m * 60 + s + STALE_S)) (24 * 3600 - 1)))"

text \<open>Division and remainder round towards zero, and \<open>{:02}\<close> fills with zeros behind a sign.\<close>

definition trunc_div :: "int \<Rightarrow> int \<Rightarrow> int" where
  "trunc_div a b = (if a < 0 then - (- a div b) else a div b)"

definition trunc_mod :: "int \<Rightarrow> int \<Rightarrow> int" where
  "trunc_mod a b = (if a < 0 then - (- a mod b) else a mod b)"

definition fmt02 :: "int \<Rightarrow> str" where
  "fmt02 n = (if n < 0 then CHR ''-'' # pad_left 1 (CHR ''0'') (show_int (- n)) else pad_left 2 (CHR ''0'') (show_int n))"

text \<open>\<open>splitn(3, ':')\<close>, as three pieces or none.\<close>

definition splitn3 :: "char \<Rightarrow> str \<Rightarrow> (str \<times> str \<times> str) option" where
  "splitn3 c s = Option.bind (split_once c s) (\<lambda>(a, r). map_option (\<lambda>(b, t). (a, b, t)) (split_once c r))"

definition stale_after :: "bool \<Rightarrow> str \<Rightarrow> str option option" where
  "stale_after checked rfc3339 =
     (case split_once (CHR ''T'') rfc3339 of
        None \<Rightarrow> Some None
      | Some (date, time) \<Rightarrow>
          (case splitn3 (CHR '':'') (trim_end_char (CHR ''Z'') time) of
             None \<Rightarrow> Some None
           | Some (h, m, s) \<Rightarrow>
               (case (parse_i64 h, parse_i64 m, parse_i64 (takeWhile (\<lambda>c. c \<noteq> CHR ''.'' \<and> c \<noteq> CHR ''+'') s)) of
                  (Some h, Some m, Some s) \<Rightarrow>
                    map_option (\<lambda>t. Some (date @ ''T'' @ fmt02 (trunc_div t 3600) @ '':'' @ fmt02 (trunc_div (trunc_mod t 3600) 60)
                        @ '':'' @ fmt02 (trunc_mod t 60) @ ''Z''))
                      (stale_total checked h m s)
                | _ \<Rightarrow> Some None)))"

section \<open>Rendering\<close>

definition marker_uid :: "event \<Rightarrow> str" where
  "marker_uid e = (case sink_metadata e ''source_uid'' of Some u \<Rightarrow> u
     | None \<Rightarrow> (case sink_metadata e ''native_id'' of Some u \<Rightarrow> u | None \<Rightarrow> ev_id e))"

definition marker_callsign :: "event \<Rightarrow> str" where
  "marker_callsign e = (case sink_attribute e ''callsign'' of Some c \<Rightarrow> c | None \<Rightarrow> marker_uid e)"

definition cot_render :: "bool \<Rightarrow> event \<Rightarrow> str option option" where
  "cot_render checked e =
     (case ev_location e of
        None \<Rightarrow> Some None
      | Some loc \<Rightarrow>
          map_option (\<lambda>stale. let stale = (case stale of Some s \<Rightarrow> s | None \<Rightarrow> ev_timestamp e) in
            Some (''<?xml version=\"1.0\" encoding=\"UTF-8\"?>''
              @ ''<event version=\"2.0\" uid=\"'' @ escape (marker_uid e) @ ''\" type=\"a-'' @ affiliation e @ ''-'' @ dimension e
              @ ''\" time=\"'' @ escape (ev_timestamp e) @ ''\" start=\"'' @ escape (ev_timestamp e)
              @ ''\" stale=\"'' @ escape stale @ ''\" how=\"m-g\">''
              @ ''<point lat=\"'' @ show_f64 (latitude loc) @ ''\" lon=\"'' @ show_f64 (longitude loc)
              @ ''\" hae=\"'' @ show_f64 (altitude_m loc) @ ''\" ce=\"9999999\" le=\"9999999\"/>''
              @ ''<detail><contact callsign=\"'' @ escape (marker_callsign e) @ ''\"/></detail>''
              @ ''</event>''))
            (stale_after checked (ev_timestamp e)))"

section \<open>Escaping\<close>

lemma escape_plain: "plain_value s \<Longrightarrow> escape s = s"
  by (induction s) (auto simp: plain_value_def escape_def escape_char_def needs_escape_def)

lemma escape_raw: "list_all (\<lambda>c. c \<notin> set ''<>\"'' \<and> c \<noteq> CHR 0x27) (escape s)"
  by (induction s) (auto simp: escape_def escape_char_def)

text \<open>What a reader that replaces references gives back.\<close>

fun unescape :: "str \<Rightarrow> str" where
  "unescape [] = []"
| "unescape (c # cs) =
     (if prefix ''&amp;'' (c # cs) then CHR ''&'' # unescape (drop 4 cs)
      else if prefix ''&lt;'' (c # cs) then CHR ''<'' # unescape (drop 3 cs)
      else if prefix ''&gt;'' (c # cs) then CHR ''>'' # unescape (drop 3 cs)
      else if prefix ''&quot;'' (c # cs) then CHR 0x22 # unescape (drop 5 cs)
      else if prefix ''&apos;'' (c # cs) then CHR 0x27 # unescape (drop 5 cs)
      else c # unescape cs)"

lemma unescape_escape: "unescape (escape s) = s"
proof (induction s)
  case (Cons c s)
  have "escape (c # s) = escape_char c @ escape s" by (simp add: escape_def)
  with Cons show ?case by (auto simp: escape_char_def)
qed (simp add: escape_def)

section \<open>Timestamps\<close>

lemma digit_plain: "list_all is_digit x \<Longrightarrow> plain_value x"
  by (auto simp: plain_value_def needs_escape_def list_all_iff is_digit_def)

lemma plain_append: "plain_value (x @ y) \<longleftrightarrow> plain_value x \<and> plain_value y"
  by (auto simp: plain_value_def)

lemma rfc3339_plain: "is_rfc3339 ts \<Longrightarrow> plain_value ts"
proof -
  assume "is_rfc3339 ts"
  then obtain p fr z where g: "ts = p @ fr @ z" "head_grammar p" "frac_grammar fr" "zone_grammar z"
    unfolding rfc3339_iff rfc3339_grammar_def by blast
  have n: "number_in n lo hi x \<Longrightarrow> plain_value x" for n lo hi x by (simp add: number_in_def digit_plain)
  have "plain_value p" using g(2) n unfolding head_grammar_def by (fastforce simp: plain_value_def needs_escape_def)
  moreover have "plain_value fr" using g(3) digit_plain unfolding frac_grammar_def by (fastforce simp: plain_value_def needs_escape_def)
  moreover have "plain_value z" using g(4) n unfolding zone_grammar_def by (fastforce simp: plain_value_def needs_escape_def)
  ultimately show ?thesis by (simp add: g(1) plain_append)
qed

lemma digits_val_digits: "list_all is_digit x \<Longrightarrow> digits_val 10 acc x = Some (fold (\<lambda>c a. a * 10 + (of_char c - 48)) x acc)"
  by (induction x arbitrary: acc) (auto simp: to_digit_def is_digit_def)

lemma parse_i64_two:
  assumes "number_in 2 lo hi x"
  shows "parse_i64 x = Some (digits_value x)"
proof -
  from assms obtain a b where x: "x = [a, b]" "is_digit a" "is_digit b" by (auto simp: number_in_def list_length_2)
  have "a \<noteq> CHR ''-''" "a \<noteq> CHR ''+''" using x(2) by (auto simp: is_digit_def)
  moreover have "digits_value x \<le> 9223372036854775807" using x by (auto simp: digits_value_def is_digit_def)
  moreover have "digits_val 10 0 x = Some (digits_value x)" unfolding digits_value_def by (rule digits_val_digits) (simp add: x)
  ultimately show ?thesis by (simp add: parse_sint_def parse_uint_def x(1))
qed

lemma split_once_digits: "list_all is_digit a \<Longrightarrow> split_once (CHR '':'') (a @ CHR '':'' # b) = Some (a, b)"
  by (rule split_once_append) (auto simp: list_all_iff is_digit_def)

definition clock_text :: "int \<Rightarrow> str" where
  "clock_text t = fmt02 (t div 3600) @ '':'' @ fmt02 (t mod 3600 div 60) @ '':'' @ fmt02 (t mod 60)"

lemma stale_total_day:
  assumes "0 \<le> h" "h \<le> 23" "0 \<le> m" "m \<le> 59" "0 \<le> s" "s \<le> 60"
  shows "stale_total checked h m s = Some (min (h * 3600 + m * 60 + s + 60) 86399)"
proof -
  have "i64_ok (h * 3600)" "i64_ok (m * 60)" "i64_ok (h * 3600 + m * 60)" "i64_ok (h * 3600 + m * 60 + s)" "i64_ok (h * 3600 + m * 60 + s + 60)"
    using assms by (auto simp: i64_ok_def)
  moreover have "i64_wrap n = n" if "i64_ok n" for n using that by (simp add: i64_wrap_def i64_ok_def)
  ultimately show ?thesis by (simp add: stale_total_def STALE_S_def)
qed

text \<open>For a timestamp in UTC, written with \<open>T\<close> and \<open>Z\<close>, the marker goes stale one minute later, or at the last
  second of the day when the minute would pass midnight, whatever the fraction of the second.\<close>

theorem stale_after_utc:
  assumes "is_rfc3339 ts" "ts ! 10 = CHR ''T''" "last ts = CHR ''Z''"
  shows "stale_after checked ts = Some (Some (take 11 ts @
    clock_text (min (num_at ts 11 2 * 3600 + num_at ts 14 2 * 60 + num_at ts 17 2 + 60) 86399) @ ''Z''))"
proof -
  from assms(1) obtain p fr z where g: "ts = p @ fr @ z" "head_grammar p" "frac_grammar fr" "zone_grammar z"
    unfolding rfc3339_iff rfc3339_grammar_def by blast
  from g(2) obtain Y M D t h mi sec where
      p: "p = Y @ ''-'' @ M @ ''-'' @ D @ [t] @ h @ '':'' @ mi @ '':'' @ sec" and
      n: "number_in 4 0 9999 Y" "number_in 2 1 12 M" "number_in 2 1 31 D" "number_in 2 0 23 h" "number_in 2 0 59 mi" "number_in 2 0 60 sec"
    unfolding head_grammar_def by blast
  let ?date = "Y @ ''-'' @ M @ ''-'' @ D" and ?clock = "h @ '':'' @ mi @ '':'' @ sec @ fr"
  have len: "length ?date = 10" using n by (simp add: number_in_def)
  have dig: "list_all is_digit x" if "x \<in> {Y, M, D, h, mi, sec}" for x using n that by (auto simp: number_in_def)
  have z: "z = ''Z''"
  proof -
    have "last z = CHR ''Z''" "z \<noteq> []" using assms(3) g(1,4) zone_grammar_nondigit [of z] by auto
    then show ?thesis using g(4) unfolding zone_grammar_alt by (auto simp: is_digit_def)
  qed
  have ts: "ts = ?date @ [t] @ ?clock @ ''Z''" by (simp add: g(1) p z)
  have ts': "ts = ?date @ t # ?clock @ ''Z''" by (simp add: ts)
  have "t = (?date @ t # ?clock @ ''Z'') ! length ?date" by (simp only: nth_append_length)
  also have "\<dots> = ts ! 10" unfolding ts' [symmetric] len ..
  finally have t: "t = CHR ''T''" unfolding assms(2) .
  have "CHR ''T'' \<notin> set x" if "list_all is_digit x" for x using that by (auto simp: list_all_iff is_digit_def)
  then have "CHR ''T'' \<notin> set ?date" using dig [of Y] dig [of M] dig [of D] by simp
  then have s1: "split_once (CHR ''T'') ts = Some (?date, ?clock @ ''Z'')"
    unfolding ts' t by (rule split_once_append)
  have s2: "trim_end_char (CHR ''Z'') (?clock @ ''Z'') = ?clock"
  proof -
    have "last x \<noteq> CHR ''Z''" if "list_all is_digit x" "x \<noteq> []" for x
    proof -
      have "is_digit (last x)" using that by (simp add: list_all_iff)
      then show ?thesis by (auto simp: is_digit_def)
    qed
    then have "sec @ fr \<noteq> []" "last (sec @ fr) \<noteq> CHR ''Z''"
      using n(6) g(3) dig [of sec] by (fastforce simp: number_in_def frac_grammar_def)+
    then obtain q c where q: "sec @ fr = q @ [c]" "c \<noteq> CHR ''Z''" by (cases "sec @ fr" rule: rev_cases) auto
    then show ?thesis by (simp add: trim_end_char_def)
  qed
  have s3: "splitn3 (CHR '':'') ?clock = Some (h, mi, sec @ fr)"
    using dig [of h] dig [of mi] by (simp add: splitn3_def split_once_digits)
  have s4: "takeWhile (\<lambda>c. c \<noteq> CHR ''.'' \<and> c \<noteq> CHR ''+'') (sec @ fr) = sec"
  proof -
    have "\<forall>c \<in> set sec. c \<noteq> CHR ''.'' \<and> c \<noteq> CHR ''+''" using dig [of sec] by (auto simp: list_all_iff is_digit_def)
    then have "takeWhile (\<lambda>c. c \<noteq> CHR ''.'' \<and> c \<noteq> CHR ''+'') (sec @ fr) = sec @ takeWhile (\<lambda>c. c \<noteq> CHR ''.'' \<and> c \<noteq> CHR ''+'') fr"
      by (induction sec) auto
    then show ?thesis using g(3) by (auto simp: frac_grammar_def)
  qed
  have at: "num_at ts 11 2 = digits_value h" "num_at ts 14 2 = digits_value mi" "num_at ts 17 2 = digits_value sec"
    using n by (auto simp: ts num_at_def digits_value_def number_in_def numeral_eq_Suc length_Suc_conv)
  have b: "0 \<le> digits_value h" "digits_value h \<le> 23" "0 \<le> digits_value mi" "digits_value mi \<le> 59" "0 \<le> digits_value sec" "digits_value sec \<le> 60"
    using n by (auto simp: number_in_def)
  let ?t = "min (digits_value h * 3600 + digits_value mi * 60 + digits_value sec + 60) 86399"
  have "0 \<le> ?t" using b by simp
  then have "fmt02 (trunc_div ?t 3600) @ '':'' @ fmt02 (trunc_div (trunc_mod ?t 3600) 60) @ '':'' @ fmt02 (trunc_mod ?t 60) = clock_text ?t"
    by (simp only: trunc_div_def trunc_mod_def clock_text_def) simp
  moreover have "take 11 ts = ?date @ ''T''"
  proof -
    have tk: "take (length x) (x @ y) = x" for x y :: str by simp
    have "length (?date @ ''T'') = 11" using len by simp
    with tk [of "?date @ ''T''" "?clock @ ''Z''"] show ?thesis unfolding ts t by (simp only: append_assoc)
  qed
  ultimately show ?thesis
    unfolding at stale_after_def s1 option.case prod.case s2 s3 s4
      parse_i64_two [OF n(4)] parse_i64_two [OF n(5)] parse_i64_two [OF n(6)] stale_total_day [OF b] by simp
qed

text \<open>With an offset the clock is taken as it stands: a positive offset is dropped, so the marker outlives its minute
  by the offset, and with a negative one there is no stale time, so that the marker is stale at once.\<close>

lemma stale_drops_offset:
  "stale_after True ''2026-06-10T08:00:00+03:00'' = Some (Some ''2026-06-10T08:01:00Z'')"
  "stale_after True ''2026-06-10T08:00:00-05:00'' = Some None"
  by code_simp+

section \<open>Reading a rendered event back\<close>

text \<open>What a reader yields on the rendered text: the attribute values as they stand.\<close>

definition marker_type :: "event \<Rightarrow> str" where
  "marker_type e = ''a-'' @ affiliation e @ ''-'' @ dimension e"

definition cot_document :: "event \<Rightarrow> geo_point \<Rightarrow> str \<Rightarrow> xml_event list" where
  "cot_document e loc stale =
     [XStart ''event'' [(''version'', ''2.0''), (''uid'', escape (marker_uid e)), (''type'', marker_type e),
        (''time'', escape (ev_timestamp e)), (''start'', escape (ev_timestamp e)), (''stale'', escape stale), (''how'', ''m-g'')],
      XEmpty ''point'' [(''lat'', show_f64 (latitude loc)), (''lon'', show_f64 (longitude loc)), (''hae'', show_f64 (altitude_m loc)),
        (''ce'', ''9999999''), (''le'', ''9999999'')],
      XStart ''detail'' [], XEmpty ''contact'' [(''callsign'', escape (marker_callsign e))], XEnd ''detail'', XEnd ''event'']"

definition stale_text :: "bool \<Rightarrow> event \<Rightarrow> str" where
  "stale_text checked e = (case stale_after checked (ev_timestamp e) of Some (Some s) \<Rightarrow> s | _ \<Rightarrow> ev_timestamp e)"

lemma render_document:
  assumes "cot_render checked e = Some (Some t)"
  obtains loc where "ev_location e = Some loc"
    "t = ''<?xml version=\"1.0\" encoding=\"UTF-8\"?>'' @ xml_text (cot_document e loc (stale_text checked e))"
proof -
  from assms obtain loc st where l: "ev_location e = Some loc" and s: "stale_after checked (ev_timestamp e) = Some st"
    by (auto simp: cot_render_def split: option.splits)
  have "stale_text checked e = (case st of Some s \<Rightarrow> s | None \<Rightarrow> ev_timestamp e)" by (simp add: stale_text_def s split: option.split)
  with assms have "t = ''<?xml version=\"1.0\" encoding=\"UTF-8\"?>'' @ xml_text (cot_document e loc (stale_text checked e))"
    by (simp add: cot_render_def l s Let_def cot_document_def xml_text_def attr_text_def marker_type_def)
  with l show thesis by (rule that)
qed

text \<open>A reader of the rendered text yields the declaration and then the elements of the document.\<close>

definition reads_document :: "(bytes \<Rightarrow> xml_stream) \<Rightarrow> bool \<Rightarrow> event \<Rightarrow> bool" where
  "reads_document xml checked e \<longleftrightarrow>
     (case ev_location e of None \<Rightarrow> True
      | Some loc \<Rightarrow>
          let doc = cot_document e loc (stale_text checked e);
              read = xml (as_bytes (''<?xml version=\"1.0\" encoding=\"UTF-8\"?>'' @ xml_text doc))
          in map fst (fst read) = XOther # doc \<and> snd read = None)"

definition AFFILIATIONS :: "(str \<times> str) list" where
  "AFFILIATIONS = [(''f'', ''Friend''), (''a'', ''AssumedFriend''), (''h'', ''Hostile''), (''s'', ''Suspect''), (''n'', ''Neutral''),
     (''p'', ''Pending''), (''j'', ''Joker''), (''k'', ''Faker''), (''u'', ''Unknown'')]"

definition DIMENSIONS :: "str list" where
  "DIMENSIONS = [''A'', ''G'', ''S'', ''U'', ''P'', ''X'']"

lemma marker_types:
  "list_all (\<lambda>(a, h). list_all (\<lambda>d. cot_hostility (''a-'' @ a @ ''-'' @ d) = h
      \<and> is_namespaced (cot_map_type Map.empty (''a-'' @ a @ ''-'' @ d))
      \<and> cot_map_type Map.empty (''a-'' @ a @ ''-'' @ d) = (if d = ''A'' then ''mim:aircraft'' else if d = ''S'' then ''mim:vessel''
            else if d = ''U'' then ''mim:subsurface-vessel'' else ''x:cot:a_'' @ a @ ''_'' @ d)) DIMENSIONS) AFFILIATIONS"
  by code_simp

definition shown_hostility :: "event \<Rightarrow> str" where
  "shown_hostility e = (case sink_attribute e ''hostility'' of Some h \<Rightarrow> if h \<in> set (map snd AFFILIATIONS) then h else ''Unknown'' | None \<Rightarrow> ''Unknown'')"

lemma marker_type_reads:
  "cot_hostility (marker_type e) = shown_hostility e" "is_namespaced (cot_map_type Map.empty (marker_type e))"
  "dimension e = ''A'' \<Longrightarrow> cot_map_type Map.empty (marker_type e) = ''mim:aircraft''"
  "dimension e = ''S'' \<Longrightarrow> cot_map_type Map.empty (marker_type e) = ''mim:vessel''"
  "dimension e = ''U'' \<Longrightarrow> cot_map_type Map.empty (marker_type e) = ''mim:subsurface-vessel''"
proof -
  have a: "(affiliation e, shown_hostility e) \<in> set AFFILIATIONS"
    by (auto simp: affiliation_def shown_hostility_def AFFILIATIONS_def split: option.split)
  have d: "dimension e \<in> set DIMENSIONS" by (auto simp: dimension_def DIMENSIONS_def split: option.split)
  note m = marker_types [unfolded list_all_iff, rule_format, OF a, unfolded prod.case, rule_format, OF d, folded marker_type_def]
  show "cot_hostility (marker_type e) = shown_hostility e" "is_namespaced (cot_map_type Map.empty (marker_type e))" using m by blast+
  show "dimension e = ''A'' \<Longrightarrow> cot_map_type Map.empty (marker_type e) = ''mim:aircraft''"
    "dimension e = ''S'' \<Longrightarrow> cot_map_type Map.empty (marker_type e) = ''mim:vessel''"
    "dimension e = ''U'' \<Longrightarrow> cot_map_type Map.empty (marker_type e) = ''mim:subsurface-vessel''" using m by simp_all
qed

lemma map_type_override:
  "overrides ty = None \<Longrightarrow> cot_map_type overrides ty = cot_map_type Map.empty ty"
  "\<forall>t \<in> ran overrides. is_namespaced t \<Longrightarrow> is_namespaced (cot_map_type Map.empty ty) \<Longrightarrow> is_namespaced (cot_map_type overrides ty)"
  by (auto simp: cot_map_type_def ran_def split: option.splits)

lemma walk_document:
  assumes "is_f64 (latitude loc)" "is_f64 (longitude loc)" "is_f64 (altitude_m loc)"
  shows "cot_events (XOther # cot_document e loc stale) cot_start = Inr (cot_start\<lparr>cw_uid := Some (escape (marker_uid e)),
    cw_type := Some (marker_type e), cw_time := Some (escape (ev_timestamp e)), cw_lat := Some (latitude loc), cw_lon := Some (longitude loc),
    cw_hae := altitude_m loc, cw_callsign := Some (escape (marker_callsign e)), cw_saw_event := True\<rparr>)"
  by (simp add: cot_document_def cot_element_def event_attr_def point_attr_def contact_attr_def ok_or_def assms parse_show_f64 cot_start_def)

text \<open>C15. A canonical event with a position, rendered by the sink and read back by the CoT connector, keeps its position to the last
  bit and its time. Its identity comes back in its escaped form, which is the identity itself when it has no character to escape. A
  hostility that CoT has an affiliation for comes back as it was, and any other, or none, as \<open>Unknown\<close>. An aircraft, vessel or subsurface
  vessel without an environment keeps its type unless the connector's configuration overrides its marker. The reader is any that yields the
  elements of the rendered text with their attribute values as they stand; the overrides are namespaced types.\<close>

theorem cot_view_roundtrip:
  assumes "canonical_event e" "cot_render checked e = Some (Some t)" "reads_document xml checked e"
    "\<forall>loc. ev_location e = Some loc \<longrightarrow> is_f64 (latitude loc) \<and> is_f64 (longitude loc) \<and> is_f64 (altitude_m loc)"
    "ct_source_id p \<noteq> []" "\<forall>ty \<in> ran (ct_overrides p). is_namespaced ty"
  shows "\<exists>e'. cot_to_event xml fx (as_bytes t) p = Inr e' \<and> ev_location e' = ev_location e \<and> ev_timestamp e' = ev_timestamp e
    \<and> ev_metadata e' = [\<lparr>a_key = ''source_uid'', a_value = escape (marker_uid e)\<rparr>]
    \<and> (plain_value (marker_uid e) \<longrightarrow> escape (marker_uid e) = marker_uid e)
    \<and> \<lparr>a_key = ''hostility'', a_value = (case sink_attribute e ''hostility'' of None \<Rightarrow> ''Unknown''
         | Some h \<Rightarrow> if h \<in> {''Friend'', ''AssumedFriend'', ''Hostile'', ''Suspect'', ''Neutral'', ''Pending'', ''Joker'', ''Faker'', ''Unknown''} then h else ''Unknown'')\<rparr>
        \<in> set (ev_attributes e')
    \<and> (sink_attribute e ''environment'' = None \<and> ev_entity_type e \<in> {''mim:aircraft'', ''mim:vessel'', ''mim:subsurface-vessel''}
         \<and> ct_overrides p (''a-'' @ affiliation e @ ''-'' @ dimension e) = None \<longrightarrow> ev_entity_type e' = ev_entity_type e)"
proof -
  obtain loc where l: "ev_location e = Some loc" and
      t: "t = ''<?xml version=\"1.0\" encoding=\"UTF-8\"?>'' @ xml_text (cot_document e loc (stale_text checked e))"
    using render_document [OF assms(2)] .
  let ?uid = "escape (marker_uid e)"
  let ?w = "cot_start\<lparr>cw_uid := Some ?uid, cw_type := Some (marker_type e), cw_time := Some (ev_timestamp e),
    cw_lat := Some (latitude loc), cw_lon := Some (longitude loc), cw_hae := altitude_m loc,
    cw_callsign := Some (escape (marker_callsign e)), cw_saw_event := True\<rparr>"
  let ?b = "cot_builder p fx (as_bytes t) ?uid (marker_type e) (ev_timestamp e) ?w"
  have ts: "is_rfc3339 (ev_timestamp e)" and ok: "location_ok loc" using assms(1) l by (auto simp: canonical_event_def)
  have "map fst (fst (xml (as_bytes t))) = XOther # cot_document e loc (stale_text checked e)" "snd (xml (as_bytes t)) = None"
    using assms(3) unfolding reads_document_def l option.case Let_def t by blast+
  then have r: "cot_read xml (as_bytes t) = Inr ?w"
    using assms(4) l walk_document [of loc e "stale_text checked e"] by (simp add: cot_read_def escape_plain rfc3339_plain [OF ts])
  have wl: "walk_location ?w = Some loc" by (simp add: walk_location_def)
  have "is_namespaced (cot_map_type (ct_overrides p) (marker_type e))"
    using map_type_override(2) [OF assms(6)] marker_type_reads(2) .
  then have e': "cot_to_event xml fx (as_bytes t) p = Inr (built_event ?b)"
    unfolding cot_to_event_iff [OF r assms(5)] using ts ok wl by (simp add: cot_start_def)
  have "\<lparr>a_key = ''hostility'', a_value = shown_hostility e\<rparr> \<in> set (ev_attributes (built_event ?b))"
    unfolding marker_type_reads(1) [symmetric] by (rule cot_built_hostility)
  moreover have "ev_entity_type (built_event ?b) = ev_entity_type e"
    if "sink_attribute e ''environment'' = None" "ev_entity_type e \<in> {''mim:aircraft'', ''mim:vessel'', ''mim:subsurface-vessel''}"
      "ct_overrides p (marker_type e) = None"
    using that marker_type_reads(3-5) [of e] map_type_override(1) [where overrides = "ct_overrides p", OF that(3)] by (auto simp: built_event_def cot_builder_sel dimension_def)
  moreover have "shown_hostility e = (case sink_attribute e ''hostility'' of None \<Rightarrow> ''Unknown''
      | Some h \<Rightarrow> if h \<in> {''Friend'', ''AssumedFriend'', ''Hostile'', ''Suspect'', ''Neutral'', ''Pending'', ''Joker'', ''Faker'', ''Unknown''} then h else ''Unknown'')"
    by (simp add: shown_hostility_def AFFILIATIONS_def split: option.split)
  moreover have "ev_location (built_event ?b) = ev_location e" "ev_timestamp (built_event ?b) = ev_timestamp e"
      "ev_metadata (built_event ?b) = [\<lparr>a_key = ''source_uid'', a_value = ?uid\<rparr>]"
    using l wl by (simp_all add: built_event_def cot_builder_sel cot_builder_metadata to_attr_def)
  ultimately show ?thesis
    unfolding marker_type_def [symmetric] using e' escape_plain by (intro exI [of _ "built_event ?b"]) simp
qed

text \<open>References are not replaced: an identity with an ampersand is read back as another one, though a reader that
  replaced them would give it back.\<close>

lemma ampersand_changes_identity: "escape ''A&B'' = ''A&amp;B''" "unescape (escape ''A&B'') = ''A&B''"
  by code_simp+

section \<open>Examples\<close>

theorem stale_after_utc_witness: "stale_after True ''2026-06-10T23:59:30.5Z'' = Some (Some ''2026-06-10T23:59:59Z'')"
proof -
  let ?ts = "''2026-06-10T23:59:30.5Z''"
  have v: "take 11 ?ts @ clock_text (min (num_at ?ts 11 2 * 3600 + num_at ?ts 14 2 * 60 + num_at ?ts 17 2 + 60) 86399) @ ''Z''
      = ''2026-06-10T23:59:59Z''" by code_simp
  have "is_rfc3339 ?ts" by code_simp
  from stale_after_utc [OF this, of True] show ?thesis unfolding v by simp
qed

definition ex_place :: geo_point where
  "ex_place = \<lparr>latitude = fl False (132 / 5), longitude = fl True (509 / 10), altitude_m = f64_of_int 1200\<rparr>"

definition ex_marker :: event where
  "ex_marker = \<lparr>ev_schema_version = SCHEMA_VERSION, ev_id = ''0192f1f4'', ev_source_id = ''radar-1'', ev_entity_type = ''mim:aircraft'',
     ev_timestamp = ''2026-06-10T08:00:00Z'', ev_received_at = [], ev_location = Some ex_place, ev_payload = [], ev_policy_tags = [],
     ev_confidence = f64_of_int 0, ev_attributes = [\<lparr>a_key = ''hostility'', a_value = ''Friend''\<rparr>],
     ev_metadata = [\<lparr>a_key = ''source_uid'', a_value = ''4CA2D6''\<rparr>]\<rparr>"

definition ex_view_xml :: "bytes \<Rightarrow> xml_stream" where
  "ex_view_xml bs = (map (\<lambda>x. (x, 0)) (XOther # cot_document ex_marker ex_place (stale_text True ex_marker)), None)"

lemma ex_place_ok: "location_ok ex_place \<and> is_f64 (latitude ex_place) \<and> is_f64 (longitude ex_place) \<and> is_f64 (altitude_m ex_place)"
  by code_simp

lemma ex_marker_canonical: "canonical_event ex_marker"
proof -
  have "is_rfc3339 (ev_timestamp ex_marker)" "f64_within (f64_of_int 0) (f64_of_int 1) (ev_confidence ex_marker)" by code_simp+
  with ex_place_ok show ?thesis
    by (simp add: canonical_event_def ex_marker_def MAX_ATTRIBUTES_def MAX_METADATA_def)
qed

theorem cot_view_roundtrip_witness:
  "\<exists>t e'. cot_render True ex_marker = Some (Some t) \<and> cot_to_event ex_view_xml cot_effects (as_bytes t) ex_cot = Inr e'
     \<and> ev_location e' = Some ex_place \<and> ev_entity_type e' = ''mim:aircraft'' \<and> \<lparr>a_key = ''hostility'', a_value = ''Friend''\<rparr> \<in> set (ev_attributes e')
     \<and> ev_metadata e' = [\<lparr>a_key = ''source_uid'', a_value = ''4CA2D6''\<rparr>]"
proof -
  have "stale_after True (ev_timestamp ex_marker) = Some (Some ''2026-06-10T08:01:00Z'')" by code_simp
  then obtain t where t: "cot_render True ex_marker = Some (Some t)" by (auto simp: cot_render_def ex_marker_def Let_def)
  have "reads_document ex_view_xml True ex_marker"
    by (simp add: reads_document_def ex_view_xml_def Let_def comp_def ex_marker_def)
  moreover have "sink_attribute ex_marker ''environment'' = None" "sink_attribute ex_marker ''hostility'' = Some ''Friend''"
    "escape (marker_uid ex_marker) = ''4CA2D6''" by code_simp+
  ultimately show ?thesis
    using cot_view_roundtrip [OF ex_marker_canonical t, of ex_view_xml ex_cot cot_effects] ex_place_ok t
    by (auto simp: ex_cot_def ex_marker_def)
qed

end
