(* ===== verification/Sink.thy ===== *)
theory Sink
  imports Store Cot_Out
begin

text \<open>
  The sink program, \<open>sink/src/main.rs\<close>: the registry of verifying keys and the recording loop that joins the
  acceptance check, the hash-chained store and the map view. The \<open>hex\<close> crate and the point check of the
  \<open>ed25519_dalek\<close> crate are parameters, as are what reading a key file gives and the clock. Sending a rendered
  event may fail, which the loop ignores; \<open>sk_rendered\<close> records what is handed to the socket.
\<close>

section \<open>Keys\<close>

definition decode_key :: "(str \<Rightarrow> bytes option) \<Rightarrow> (bytes \<Rightarrow> bool) \<Rightarrow> str \<Rightarrow> bytes option" where
  "decode_key hex valid s = Option.bind (hex (trim s)) (\<lambda>raw. if length raw = 32 \<and> valid raw then Some raw else None)"

text \<open>\<open>Path::extension\<close> and \<open>Path::file_stem\<close> of a file name: the last dot divides it unless it is the first
  character.\<close>

definition file_extension :: "str \<Rightarrow> str option" where
  "file_extension name = (case rfind_char (CHR ''.'') name of
     Some i \<Rightarrow> if i = 0 then None else Some (drop (Suc i) name) | None \<Rightarrow> None)"

definition file_stem :: "str \<Rightarrow> str" where
  "file_stem name = (case rfind_char (CHR ''.'') name of Some i \<Rightarrow> if i = 0 then name else take i name | None \<Rightarrow> name)"

record sink_config =
  sc_sources :: "(str \<times> str) list"
  sc_sources_dir :: "(str \<times> str option) list option"

datatype key_error = BadSourceKey str | UnreadableFile str | BadKeyFile str

fun table_keys :: "(str \<Rightarrow> bytes option) \<Rightarrow> (str \<times> str) list \<Rightarrow> (str \<rightharpoonup> bytes) \<Rightarrow> key_error + (str \<rightharpoonup> bytes)" where
  "table_keys dec [] keys = Inr keys"
| "table_keys dec ((source, hex_key) # rest) keys =
     (case dec hex_key of None \<Rightarrow> Inl (BadSourceKey source) | Some k \<Rightarrow> table_keys dec rest (keys(source \<mapsto> k)))"

fun dir_keys :: "(str \<Rightarrow> bytes option) \<Rightarrow> (str \<times> str option) list \<Rightarrow> (str \<rightharpoonup> bytes) \<Rightarrow> key_error + (str \<rightharpoonup> bytes)" where
  "dir_keys dec [] keys = Inr keys"
| "dir_keys dec ((name, content) # rest) keys =
     (if file_extension name \<noteq> Some ''pub'' then dir_keys dec rest keys
      else case content of
        None \<Rightarrow> Inl (UnreadableFile name)
      | Some t \<Rightarrow>
          (case dec t of None \<Rightarrow> Inl (BadKeyFile name) | Some k \<Rightarrow> dir_keys dec rest (keys(file_stem name \<mapsto> k))))"

definition sink_keys :: "(str \<Rightarrow> bytes option) \<Rightarrow> sink_config \<Rightarrow> key_error + (str \<rightharpoonup> bytes)" where
  "sink_keys dec cfg =
     try_bind (table_keys dec (sc_sources cfg) Map.empty) (\<lambda>keys.
       case sc_sources_dir cfg of None \<Rightarrow> Inr keys | Some files \<Rightarrow> dir_keys dec files keys)"

section \<open>The recording loop\<close>

record sink =
  sk_store :: store
  sk_accepted :: u64
  sk_refused :: u64
  sk_rendered :: "str list"

definition sink_new :: "store \<Rightarrow> sink" where
  "sink_new st = \<lparr>sk_store = st, sk_accepted = 0, sk_refused = 0, sk_rendered = []\<rparr>"

text \<open>One message: \<open>None\<close> when rendering panics, an error when the store fails, which ends the program.\<close>

definition sink_step ::
  "ed25519 \<Rightarrow> (bytes \<Rightarrow> event option) \<Rightarrow> (bytes \<Rightarrow> bytes) \<Rightarrow> (str \<Rightarrow> bytes option) \<Rightarrow> bool \<Rightarrow> bool \<Rightarrow> str \<times> bytes \<Rightarrow> sink
   \<Rightarrow> (store_error + sink) option" where
  "sink_step E decode sha keys checked view msg s =
     (case accept E decode keys (snd msg) of
        Inl reason \<Rightarrow> Some (Inr (s\<lparr>sk_refused := sk_refused s + 1\<rparr>))
      | Inr e \<Rightarrow>
          (case store_append sha (snd msg) e (fst msg) (sk_store s) of
             Inl err \<Rightarrow> Some (Inl err)
           | Inr (st, appended) \<Rightarrow>
               (let s1 = s\<lparr>sk_store := st, sk_accepted := sk_accepted s + 1\<rparr>
                in if view
                   then map_option (\<lambda>x. Inr (case x of Some t \<Rightarrow> s1\<lparr>sk_rendered := sk_rendered s1 @ [t]\<rparr> | None \<Rightarrow> s1))
                          (cot_render checked e)
                   else Some (Inr s1))))"

fun sink_run ::
  "ed25519 \<Rightarrow> (bytes \<Rightarrow> event option) \<Rightarrow> (bytes \<Rightarrow> bytes) \<Rightarrow> (str \<Rightarrow> bytes option) \<Rightarrow> bool \<Rightarrow> bool \<Rightarrow> (str \<times> bytes) list \<Rightarrow> sink
   \<Rightarrow> (store_error + sink) option" where
  "sink_run E decode sha keys checked view [] s = Some (Inr s)"
| "sink_run E decode sha keys checked view (m # ms) s =
     (case sink_step E decode sha keys checked view m s of
        None \<Rightarrow> None | Some (Inl err) \<Rightarrow> Some (Inl err) | Some (Inr s') \<Rightarrow> sink_run E decode sha keys checked view ms s')"

section \<open>What a run records\<close>

definition accepted_of :: "ed25519 \<Rightarrow> (bytes \<Rightarrow> event option) \<Rightarrow> (str \<Rightarrow> bytes option) \<Rightarrow> (str \<times> bytes) list \<Rightarrow> (bytes \<times> event) list" where
  "accepted_of E decode keys ms = List.map_filter (\<lambda>m. case accept E decode keys (snd m) of Inr e \<Rightarrow> Some (snd m, e) | Inl _ \<Rightarrow> None) ms"

lemma accepted_of_simps:
  "accepted_of E decode keys [] = []"
  "accepted_of E decode keys (m # ms) = (case accept E decode keys (snd m) of Inr e \<Rightarrow> [(snd m, e)] | Inl _ \<Rightarrow> []) @ accepted_of E decode keys ms"
  by (simp_all add: accepted_of_def map_filter_simps split: sum.split)

text \<open>The texts that the view shows for a list of events, when none panics.\<close>

definition shown :: "bool \<Rightarrow> event list \<Rightarrow> str list" where
  "shown checked es = List.map_filter (\<lambda>e. Option.bind (cot_render checked e) (\<lambda>t. t)) es"

lemma shown_simps:
  "shown checked [] = []"
  "shown checked (e # es) = (case cot_render checked e of Some (Some t) \<Rightarrow> [t] | _ \<Rightarrow> []) @ shown checked es"
  by (simp_all add: shown_def map_filter_simps split: option.split)

definition sink_intact :: "ed25519 \<Rightarrow> (bytes \<Rightarrow> bytes) \<Rightarrow> (str \<Rightarrow> bytes option) \<Rightarrow> sink \<Rightarrow> bool" where
  "sink_intact E sha keys s \<longleftrightarrow> (\<exists>h. audit E sha keys (sk_store s) = Intact (st_last_rowid (sk_store s)) h)"

lemma appended_sealed: "store_append sha sealed e now st = Inr (st', a) \<Longrightarrow> map r_sealed (st_rows st') = map r_sealed (st_rows st) @ [sealed]"
  by (auto simp: store_append_def Let_def new_row_def try_bind_Inr_iff split: if_splits)

definition recorded ::
  "ed25519 \<Rightarrow> (bytes \<Rightarrow> event option) \<Rightarrow> (bytes \<Rightarrow> bytes) \<Rightarrow> (str \<Rightarrow> bytes option) \<Rightarrow> bool \<Rightarrow> bool \<Rightarrow> (str \<times> bytes) list \<Rightarrow> sink \<Rightarrow> sink \<Rightarrow> bool" where
  "recorded E decode sha keys checked view ms s s' \<longleftrightarrow>
     (sink_intact E sha keys s \<longrightarrow> sink_intact E sha keys s')
     \<and> map r_sealed (st_rows (sk_store s')) = map r_sealed (st_rows (sk_store s)) @ map fst (accepted_of E decode keys ms)
     \<and> sk_rendered s' = sk_rendered s @ (if view then shown checked (map snd (accepted_of E decode keys ms)) else [])
     \<and> sk_accepted s' = sk_accepted s + of_nat (length (accepted_of E decode keys ms))
     \<and> sk_accepted s' + sk_refused s' = sk_accepted s + sk_refused s + of_nat (length ms)"

lemma recorded_Nil: "recorded E decode sha keys checked view [] s s"
  by (simp add: recorded_def accepted_of_simps shown_simps)

lemma recorded_trans:
  assumes "recorded E decode sha keys checked view ms s s1" "recorded E decode sha keys checked view ms' s1 s'"
  shows "recorded E decode sha keys checked view (ms @ ms') s s'"
proof -
  have "accepted_of E decode keys (ms @ ms') = accepted_of E decode keys ms @ accepted_of E decode keys ms'"
    "shown checked (xs @ ys) = shown checked xs @ shown checked ys" for xs ys
    by (simp_all add: accepted_of_def shown_def map_filter_def)
  with assms show ?thesis by (auto simp: recorded_def)
qed

lemma recorded_step:
  assumes "sink_step E decode sha keys checked view m s = Some (Inr s')" "\<forall>m. length (sha m) = 32"
  shows "recorded E decode sha keys checked view [m] s s'"
proof (cases "accept E decode keys (snd m)")
  case (Inl r)
  with assms(1) have "s' = s\<lparr>sk_refused := sk_refused s + 1\<rparr>" by (simp add: sink_step_def)
  with Inl show ?thesis by (simp add: recorded_def accepted_of_simps shown_simps sink_intact_def)
next
  case (Inr e)
  then obtain st seq h' where a: "store_append sha (snd m) e (fst m) (sk_store s) = Inr (st, seq, h')"
    using assms(1) by (auto simp: sink_step_def split: sum.splits)
  let ?s = "s\<lparr>sk_store := st, sk_accepted := sk_accepted s + 1\<rparr>"
  have "s' = ?s\<lparr>sk_rendered := sk_rendered s @ (if view then shown checked [e] else [])\<rparr>"
  proof (cases view)
    case True
    with assms(1) Inr a obtain x where x: "cot_render checked e = Some x"
        "s' = (case x of Some t \<Rightarrow> ?s\<lparr>sk_rendered := sk_rendered ?s @ [t]\<rparr> | None \<Rightarrow> ?s)"
      by (auto simp: sink_step_def Let_def)
    then show ?thesis using True by (cases x) (simp_all add: shown_simps)
  qed (use assms(1) Inr a in \<open>auto simp: sink_step_def Let_def\<close>)
  then have st: "sk_store s' = st" "sk_accepted s' = sk_accepted s + 1" "sk_refused s' = sk_refused s"
    "sk_rendered s' = sk_rendered s @ (if view then shown checked [e] else [])"
    by simp_all
  have "sink_intact E sha keys s \<longrightarrow> sink_intact E sha keys s'"
    using accept_append_intact [OF _ _ assms(2) Inr a] unfolding sink_intact_def st by metis
  then show ?thesis using appended_sealed [OF a] Inr by (simp add: recorded_def st accepted_of_simps)
qed

lemma recorded_run:
  assumes "\<forall>m. length (sha m) = 32"
  shows "sink_run E decode sha keys checked view ms s = Some (Inr s') \<Longrightarrow> recorded E decode sha keys checked view ms s s'"
proof (induction ms arbitrary: s)
  case (Cons m ms)
  then obtain s1 where s1: "sink_step E decode sha keys checked view m s = Some (Inr s1)"
      "sink_run E decode sha keys checked view ms s1 = Some (Inr s')"
    by (auto split: option.splits sum.splits)
  from recorded_trans [OF recorded_step [OF s1(1) assms] Cons.IH [OF s1(2)]] show ?case by simp
qed (simp add: recorded_Nil)

section \<open>Properties\<close>

text \<open>C14. A run of the sink from a new store: the audit finds the store intact, its records are exactly the messages
  that verify under the registered keys, byte for byte and in order, every message is counted once as accepted or
  refused, and the view shows exactly the accepted events that have a position, in order.\<close>

theorem sink_run_exact:
  assumes "sink_run E decode sha keys checked view ms (sink_new store_new) = Some (Inr s)" "\<forall>m. length (sha m) = 32"
  shows "(\<exists>h. audit E sha keys (sk_store s) = Intact (store_count (sk_store s)) h)
    \<and> map r_sealed (st_rows (sk_store s)) = map fst (accepted_of E decode keys ms)
    \<and> sk_accepted s = of_nat (length (accepted_of E decode keys ms)) \<and> sk_accepted s + sk_refused s = of_nat (length ms)
    \<and> sk_rendered s = (if view then shown checked (map snd (accepted_of E decode keys ms)) else [])"
proof -
  have "sink_intact E sha keys (sink_new store_new)" by (simp add: sink_intact_def sink_new_def store_new_def audit_def)
  moreover note r = recorded_run [OF assms(2,1)]
  ultimately have "sink_intact E sha keys s" by (simp add: recorded_def)
  then have "\<exists>h. audit E sha keys (sk_store s) = Intact (store_count (sk_store s)) h"
    by (auto simp: sink_intact_def audit_def audit_from_Intact_iff store_count_def)
  then show ?thesis using r by (auto simp: recorded_def sink_new_def store_new_def)
qed

text \<open>A key file overrides the table, and files without the extension are not read.\<close>

lemma dir_keys_last:
  assumes "dir_keys dec files keys = Inr keys'"
  shows "keys' source = (case last_opt [t. (name, Some t) \<leftarrow> files, file_extension name = Some ''pub'' \<and> file_stem name = source] of
    Some t \<Rightarrow> dec t | None \<Rightarrow> keys source)"
  using assms
proof (induction files arbitrary: keys)
  case (Cons f files)
  obtain name content where f: "f = (name, content)" by force
  show ?case
  proof (cases "file_extension name = Some ''pub''")
    case True
    with Cons.prems f obtain t k where k: "content = Some t" "dec t = Some k" "dir_keys dec files (keys(file_stem name \<mapsto> k)) = Inr keys'"
      by (auto split: option.splits)
    from Cons.IH [OF k(3)] True k(1,2) f show ?thesis by (auto simp: last_opt_def split: option.splits)
  qed (use Cons f in \<open>auto split: option.split\<close>)
qed simp

section \<open>Examples\<close>

theorem sink_run_exact_witness:
  "\<exists>s. sink_run toy_scheme (\<lambda>_. Some ex_event) toy_sha toy_keys True False [(''now'', seal toy_scheme [1] [7]), (''now'', [0])] (sink_new store_new)
       = Some (Inr s) \<and> sk_accepted s + sk_refused s = 2
     \<and> (\<exists>h. audit toy_scheme toy_sha toy_keys (sk_store s) = Intact (store_count (sk_store s)) h)"
proof -
  let ?m = "seal toy_scheme [1] [7]"
  obtain st seq h where a: "store_append toy_sha ?m ex_event ''now'' store_new = Inr (st, seq, h)"
    by (auto simp: store_append_def store_head_def store_new_def Let_def)
  have "ev_source_id ex_event = ''acme-radar-1''"
    by (simp add: ex_event_def built_event_def ex_builder_def eb_defs eb_new_def)
  then obtain r where r: "accept toy_scheme (\<lambda>_. Some ex_event) toy_keys [0] = Inl r"
    by (auto simp: accept_def ok_or_def toy_keys_def verify_def SEAL_SIGNATURE_LEN_def)
  obtain s where s: "sink_run toy_scheme (\<lambda>_. Some ex_event) toy_sha toy_keys True False [(''now'', ?m), (''now'', [0])] (sink_new store_new) = Some (Inr s)"
    by (simp add: sink_step_def ex_accept a r sink_new_def Let_def)
  from sink_run_exact [OF s toy_sha_32] s show ?thesis by auto
qed

end
