(* ===== verification/S4676.thy ===== *)
theory S4676
  imports Xml Connector Marking F64_Text
begin

text \<open>
  STANAG 4676, \<open>stanag4676/src/s4676.rs\<close>: the tracks of one XML message become events, one for each point. The
  reader of the \<open>quick_xml\<close> crate is the parameter \<open>xml\<close>; the arithmetic of the \<open>time\<close> crate is the parameter \<open>time_at\<close>,
  which gives, for a base time and a number of seconds, the sum as RFC 3339 or nothing; the mathematics library
  is the record \<open>libm\<close>.
\<close>

section \<open>Identifiers\<close>

definition is_ascii_whitespace :: "char \<Rightarrow> bool" where
  "is_ascii_whitespace c \<longleftrightarrow> c = CHR '' '' \<or> c = CHR 0x09 \<or> c = CHR 0x0A \<or> c = CHR 0x0C \<or> c = CHR 0x0D"

definition base64_val :: "char \<Rightarrow> u8 option" where
  "base64_val c =
     (if is_upper c then Some (of_char c - 65)
      else if is_lower c then Some (of_char c - 97 + 26)
      else if is_digit c then Some (of_char c - 48 + 52)
      else if c = CHR ''+'' then Some 62 else if c = CHR ''/'' then Some 63 else None)"

text \<open>Two, three or four symbols give one, two or three bytes.\<close>

definition sextets :: "u8 list \<Rightarrow> bytes" where
  "sextets ch = (case ch of
     [a, b] \<Rightarrow> [push_bit 2 a OR drop_bit 4 b]
   | [a, b, c] \<Rightarrow> [push_bit 2 a OR drop_bit 4 b, push_bit 4 b OR drop_bit 2 c]
   | [a, b, c, d] \<Rightarrow> [push_bit 2 a OR drop_bit 4 b, push_bit 4 b OR drop_bit 2 c, push_bit 6 c OR d]
   | _ \<Rightarrow> [])"

fun base64_from :: "u8 list \<Rightarrow> str \<Rightarrow> bytes option" where
  "base64_from ch [] = (if length ch = 1 then None else Some (sextets ch))"
| "base64_from ch (c # cs) =
     (if c = CHR ''='' \<or> is_ascii_whitespace c then base64_from ch cs
      else case base64_val c of
        None \<Rightarrow> None
      | Some v \<Rightarrow>
          if length ch = 3 then map_option (\<lambda>out. sextets (ch @ [v]) @ out) (base64_from [] cs)
          else base64_from (ch @ [v]) cs)"

definition base64_decode :: "str \<Rightarrow> bytes option" where
  "base64_decode s = base64_from [] s"

definition hex2 :: "u8 \<Rightarrow> str" where
  "hex2 b = [digit_char (uint b div 16), digit_char (uint b mod 16)]"

definition uuid_text :: "bytes \<Rightarrow> str" where
  "uuid_text b = concat (map hex2 (take 4 b)) @ ''-'' @ concat (map hex2 (take 2 (drop 4 b))) @ ''-''
     @ concat (map hex2 (take 2 (drop 6 b))) @ ''-'' @ concat (map hex2 (take 2 (drop 8 b))) @ ''-'' @ concat (map hex2 (take 6 (drop 10 b)))"

definition decode_uid :: "str \<Rightarrow> str option" where
  "decode_uid s = Option.bind (base64_decode s) (\<lambda>bytes. if 16 \<le> length bytes then Some (uuid_text bytes) else None)"

section \<open>The walk\<close>

datatype s4676_error = S4676Xml str | S4676Build build_error

record s4676_parser =
  s7_source_id :: str
  s7_overrides :: "str \<rightharpoonup> str"
  s7_enrichment :: enrichment

record message_ctx =
  mg_base_time :: "str option"
  mg_rel_increment :: "f64 option"
  mg_nits_version :: "str option"
  mg_classification :: "str option"
  mg_policy_id :: "str option"

record point_ctx =
  pt_rel_time :: "int option"
  pt_status :: "str option"
  pt_cs :: "str option"
  pt_pos :: "f64 list option"
  pt_vel :: "f64 list option"

record track_ctx =
  tk_uid :: "str option"
  tk_identity :: "str option"
  tk_environment :: "str option"
  tk_object_class :: "str option"
  tk_points :: "point_ctx list"
  tk_start :: nat

record s4676_state =
  wk_msg :: message_ctx
  wk_track :: track_ctx
  wk_seg_status :: "str option"
  wk_tp :: point_ctx
  wk_dynamics_cs :: "str option"
  wk_stack :: "str list"

definition no_point :: point_ctx where
  "no_point = \<lparr>pt_rel_time = None, pt_status = None, pt_cs = None, pt_pos = None, pt_vel = None\<rparr>"

definition no_track :: track_ctx where
  "no_track = \<lparr>tk_uid = None, tk_identity = None, tk_environment = None, tk_object_class = None, tk_points = [], tk_start = 0\<rparr>"

definition s4676_start :: s4676_state where
  "s4676_start = \<lparr>wk_msg = \<lparr>mg_base_time = None, mg_rel_increment = None, mg_nits_version = None, mg_classification = None, mg_policy_id = None\<rparr>,
     wk_track = no_track, wk_seg_status = None, wk_tp = no_point, wk_dynamics_cs = None, wk_stack = []\<rparr>"

definition local_name :: "str \<Rightarrow> str" where
  "local_name q = (case find_char (CHR '':'') q of Some i \<Rightarrow> drop (Suc i) q | None \<Rightarrow> q)"

definition parse_floats :: "str \<Rightarrow> f64 list option" where
  "parse_floats s = those (map parse_f64 (split_whitespace s))"

text \<open>\<open>prefer_wgs\<close>: whether the new value is stored.\<close>

definition prefer_wgs :: "'a option \<Rightarrow> str option \<Rightarrow> str option \<Rightarrow> bool" where
  "prefer_wgs slot have_cs new_cs \<longleftrightarrow> slot = None \<or> (new_cs = Some ''WGS_84'' \<and> have_cs \<noteq> Some ''WGS_84'')"

definition route_message :: "str \<Rightarrow> str \<Rightarrow> str \<Rightarrow> message_ctx \<Rightarrow> message_ctx" where
  "route_message parent cur t m =
     (if parent = ''nitsRoot'' \<and> cur = ''nitsVersion'' then m\<lparr>mg_nits_version := Some t\<rparr>
      else if parent = ''message'' \<and> cur = ''baseTime'' then m\<lparr>mg_base_time := Some t\<rparr>
      else if parent = ''message'' \<and> cur = ''relTimeIncrement'' then m\<lparr>mg_rel_increment := parse_f64 t\<rparr>
      else if parent = ''ConfidentialityInformation'' \<and> cur = ''Classification'' then m\<lparr>mg_classification := Some t\<rparr>
      else if parent = ''ConfidentialityInformation'' \<and> cur = ''PolicyIdentifier'' then m\<lparr>mg_policy_id := Some t\<rparr>
      else m)"

definition route_track :: "str \<Rightarrow> str \<Rightarrow> str \<Rightarrow> track_ctx \<Rightarrow> track_ctx" where
  "route_track parent cur t k =
     (if parent = ''track'' \<and> cur = ''uid'' then k\<lparr>tk_uid := decode_uid t\<rparr>
      else if parent = ''id1241'' \<and> cur = ''identity'' then k\<lparr>tk_identity := Some t\<rparr>
      else if parent = ''id1241'' \<and> cur = ''environment'' then k\<lparr>tk_environment := Some t\<rparr>
      else if parent = ''objectClass'' \<and> cur = ''code'' then k\<lparr>tk_object_class := Some t\<rparr>
      else k)"

definition route_point :: "str \<Rightarrow> str \<Rightarrow> str \<Rightarrow> str option \<Rightarrow> point_ctx \<Rightarrow> point_ctx" where
  "route_point parent cur t dynamics_cs p =
     (if parent = ''tp'' \<and> cur = ''relTime'' then p\<lparr>pt_rel_time := parse_sint (- 9223372036854775808) 9223372036854775807 t\<rparr>
      else if parent = ''dynamics'' \<and> cur = ''pos'' then
        (case parse_floats t of
           None \<Rightarrow> p
         | Some v \<Rightarrow> if prefer_wgs (pt_pos p) (pt_cs p) dynamics_cs then p\<lparr>pt_pos := Some v, pt_cs := dynamics_cs\<rparr> else p)
      else if parent = ''dynamics'' \<and> cur = ''vel'' then
        (case parse_floats t of
           None \<Rightarrow> p
         | Some v \<Rightarrow> if prefer_wgs (pt_vel p) (pt_cs p) dynamics_cs then p\<lparr>pt_vel := Some v\<rparr> else p)
      else p)"

definition route_text :: "str \<Rightarrow> str \<Rightarrow> str \<Rightarrow> s4676_state \<Rightarrow> s4676_state" where
  "route_text parent cur t w =
     w\<lparr>wk_msg := route_message parent cur t (wk_msg w), wk_track := route_track parent cur t (wk_track w),
       wk_seg_status := (if parent = ''segment'' \<and> cur = ''status'' then Some t else wk_seg_status w),
       wk_tp := route_point parent cur t (wk_dynamics_cs w) (wk_tp w)\<rparr>"

section \<open>Events of a track\<close>

definition environment_code :: "str option \<Rightarrow> str" where
  "environment_code raw = (case map_option trim raw of
     None \<Rightarrow> ''UNKNOWN''
   | Some t \<Rightarrow> if t = ''AIR'' then ''AIR'' else if t = ''LAND'' then ''LAND'' else if t = ''SURFACE'' then ''SURFACE''
               else if t = ''SUB-SURFACE'' \<or> t = ''SUBSURFACE'' then ''SUBSURFACE'' else if t = ''SPACE'' then ''SPACE'' else ''UNKNOWN'')"

definition s4676_entity :: "(str \<rightharpoonup> str) \<Rightarrow> str option \<Rightarrow> str" where
  "s4676_entity overrides environment =
     (case overrides (case environment of Some e \<Rightarrow> e | None \<Rightarrow> []) of
        Some t \<Rightarrow> t
      | None \<Rightarrow> (case overrides (environment_code environment) of Some t \<Rightarrow> t | None \<Rightarrow> ''mim:object''))"

definition s4676_hostility :: "enrichment \<Rightarrow> str option \<Rightarrow> str" where
  "s4676_hostility en identity =
     (let default = (case hostility en of Some h \<Rightarrow> h | None \<Rightarrow> ''Unknown'') in
      case identity of
        None \<Rightarrow> default
      | Some i \<Rightarrow> if i = ''FRIEND'' then ''Friend'' else if i = ''ASSUMED_FRIEND'' then ''AssumedFriend''
                  else if i = ''HOSTILE'' then ''Hostile'' else if i = ''SUSPECT'' then ''Suspect''
                  else if i = ''NEUTRAL'' then ''Neutral'' else default)"

definition normalize_status :: "str \<Rightarrow> str" where
  "normalize_status s =
     (if s = ''INITIATING'' then ''new'' else if s = ''MAINTAINING'' then ''update'' else if s = ''SEARCHING'' then ''coast''
      else if s = ''TERMINATED'' then ''drop'' else if s = ''GROUND_TRUTH'' then ''truth'' else ''unknown'')"

definition point_time :: "(str \<Rightarrow> f64 \<Rightarrow> str option) \<Rightarrow> str option \<Rightarrow> f64 option \<Rightarrow> int option \<Rightarrow> str option" where
  "point_time time_at base incr rel =
     Option.bind base (\<lambda>b. time_at b (f64_mul (f64_of_int (case rel of Some r \<Rightarrow> r | None \<Rightarrow> 0))
       (case incr of Some i \<Rightarrow> i | None \<Rightarrow> f64_of_int 0)))"

definition S4676_RADIUS_M :: f64 where "S4676_RADIUS_M = f64_of_int 6371000"

definition apply_velocity :: "libm \<Rightarrow> f64 \<Rightarrow> f64 list \<Rightarrow> event_builder \<Rightarrow> event_builder" where
  "apply_velocity lm lat vel b =
     (case vel of
        lat_dps # lon_dps # rest \<Rightarrow>
          let north_mps = f64_mul (f64_to_radians lat_dps) S4676_RADIUS_M;
              east_mps = f64_mul (f64_mul (f64_to_radians lon_dps) S4676_RADIUS_M) (m_cos lm (f64_to_radians lat));
              speed_mps = m_hypot lm north_mps east_mps;
              course_deg = f64_rem_euclid (f64_to_degrees (m_atan2 lm east_mps north_mps)) (f64_of_int 360);
              b = eb_attribute ''speed'' (fmt_fixed 2 speed_mps) b;
              b = eb_attribute ''course'' (fmt_fixed 1 course_deg) b;
              b = eb_metadata ''vel_lat_dps'' (fmt_fixed 6 lat_dps) b;
              b = eb_metadata ''vel_lon_dps'' (fmt_fixed 6 lon_dps) b
          in opt_attribute ''vertical_rate'' (map_option (fmt_fixed 2) (slice_get rest 0)) b
      | _ \<Rightarrow> b)"

definition apply_kinematics :: "libm \<Rightarrow> point_ctx \<Rightarrow> event_builder \<Rightarrow> event_builder" where
  "apply_kinematics lm p b =
     (if pt_cs p \<noteq> Some ''WGS_84'' then
        (case pt_cs p of
           None \<Rightarrow> b
         | Some cs \<Rightarrow> opt_metadata ''position_raw'' (map_option (\<lambda>pos. join '' '' (map show_f64 pos)) (pt_pos p))
                       (eb_metadata ''coordinate_system'' cs b))
      else case pt_pos p of
        Some (lat # lon # rest) \<Rightarrow>
          (let b = eb_location lat lon (case rest of h # _ \<Rightarrow> h | [] \<Rightarrow> f64_of_int 0) b
           in case pt_vel p of Some vel \<Rightarrow> apply_velocity lm lat vel b | None \<Rightarrow> b)
      | _ \<Rightarrow> b)"

definition s4676_tags :: "message_ctx \<Rightarrow> str list" where
  "s4676_tags m = (case mg_classification m of Some cls \<Rightarrow> wire_classification cls (mg_policy_id m) | None \<Rightarrow> [])"

definition s4676_base ::
  "(str \<Rightarrow> f64 \<Rightarrow> str option) \<Rightarrow> effects \<Rightarrow> s4676_parser \<Rightarrow> message_ctx \<Rightarrow> track_ctx \<Rightarrow> bytes \<Rightarrow> point_ctx \<Rightarrow> event_builder" where
  "s4676_base time_at fx sp m k raw p =
     (let b = eb_attribute ''hostility'' (s4676_hostility (s7_enrichment sp) (tk_identity k))
                (eb_payload raw (eb_new_id (uuid fx) (eb_new (s7_source_id sp) (s4676_entity (s7_overrides sp) (tk_environment k)))))
      in case point_time time_at (mg_base_time m) (mg_rel_increment m) (pt_rel_time p) of
           Some ts \<Rightarrow> eb_timestamp ts b | None \<Rightarrow> eb_now (wall_clock fx) b)"

definition add_track_uid :: "track_ctx \<Rightarrow> event_builder \<Rightarrow> event_builder" where
  "add_track_uid k b =
     (case tk_uid k of Some uid \<Rightarrow> eb_identity ''STANAG4676'' uid (eb_metadata ''source_uid'' uid b) | None \<Rightarrow> b)"

definition add_label :: "message_ctx \<Rightarrow> track_ctx \<Rightarrow> event_builder \<Rightarrow> event_builder" where
  "add_label m k b =
     (let b = opt_metadata ''nits_policy_identifier'' (mg_policy_id m) b;
          b = opt_metadata ''nits_classification'' (mg_classification m) b;
          b = fold eb_policy_tag (s4676_tags m) b;
          b = opt_metadata ''nits_version'' (mg_nits_version m) b
      in opt_metadata ''identity'' (tk_identity k) b)"

definition add_class :: "str \<Rightarrow> track_ctx \<Rightarrow> event_builder \<Rightarrow> event_builder" where
  "add_class entity k b =
     (let env_code = environment_code (tk_environment k);
          b = eb_governed ONTOLOGY entity ''environment'' env_code b;
          b = opt_metadata ''environment_source''
                (filter_option (\<lambda>wire. env_code = ''UNKNOWN'' \<and> wire \<noteq> ''UNKNOWN'') (tk_environment k)) b
      in case tk_object_class k of Some oc \<Rightarrow> eb_governed ONTOLOGY entity ''object_class'' oc b | None \<Rightarrow> b)"

definition add_status :: "str \<Rightarrow> point_ctx \<Rightarrow> event_builder \<Rightarrow> event_builder" where
  "add_status entity p b =
     (let b = (case pt_status p of
                 Some st \<Rightarrow> eb_metadata ''s4676_status'' st (eb_governed ONTOLOGY entity ''track_status'' (normalize_status st) b)
               | None \<Rightarrow> b)
      in opt_metadata ''rel_time'' (map_option show_int (pt_rel_time p)) b)"

definition s4676_builder ::
  "(str \<Rightarrow> f64 \<Rightarrow> str option) \<Rightarrow> libm \<Rightarrow> effects \<Rightarrow> s4676_parser \<Rightarrow> message_ctx \<Rightarrow> track_ctx \<Rightarrow> bytes \<Rightarrow> point_ctx \<Rightarrow> event_builder" where
  "s4676_builder time_at lm fx sp m k raw p =
     (let entity = s4676_entity (s7_overrides sp) (tk_environment k)
      in apply_kinematics lm p (add_status entity p (add_class entity k (add_label m k
           (add_track_uid k (s4676_base time_at fx sp m k raw p))))))"

text \<open>The points of a track, the \<open>n\<close>-th event of the message with the effects \<open>fx n\<close>.\<close>

fun flush_points ::
  "(str \<Rightarrow> f64 \<Rightarrow> str option) \<Rightarrow> libm \<Rightarrow> (nat \<Rightarrow> effects) \<Rightarrow> s4676_parser \<Rightarrow> message_ctx \<Rightarrow> track_ctx \<Rightarrow> bytes \<Rightarrow> point_ctx list
   \<Rightarrow> event list \<Rightarrow> s4676_error + event list" where
  "flush_points time_at lm fx sp m k raw [] out = Inr out"
| "flush_points time_at lm fx sp m k raw (p # ps) out =
     (case build (s4676_builder time_at lm (fx (length out)) sp m k raw p) of
        Inl err \<Rightarrow> Inl (S4676Build err)
      | Inr e \<Rightarrow> flush_points time_at lm fx sp m k raw ps (out @ [e]))"

definition flush_track ::
  "(str \<Rightarrow> f64 \<Rightarrow> str option) \<Rightarrow> libm \<Rightarrow> (nat \<Rightarrow> effects) \<Rightarrow> s4676_parser \<Rightarrow> message_ctx \<Rightarrow> track_ctx \<Rightarrow> bytes
   \<Rightarrow> event list \<Rightarrow> s4676_error + event list" where
  "flush_track time_at lm fx sp m k raw out = flush_points time_at lm fx sp m k raw (tk_points k) out"

section \<open>Messages\<close>

definition on_start :: "str \<Rightarrow> (str \<times> str) list \<Rightarrow> nat \<Rightarrow> s4676_state \<Rightarrow> s4676_state" where
  "on_start name as pos_before w =
     (let elem = local_name name;
          w = (if elem = ''track'' then w\<lparr>wk_track := no_track\<lparr>tk_start := pos_before\<rparr>\<rparr>
               else if elem = ''dynamics'' then w\<lparr>wk_dynamics_cs := map_option snd (find (\<lambda>kv. local_name (fst kv) = ''cs'') as)\<rparr>
               else w)
      in w\<lparr>wk_stack := elem # wk_stack w\<rparr>)"

text \<open>\<open>End\<close> of an element other than a track.\<close>

definition on_end :: "str \<Rightarrow> s4676_state \<Rightarrow> s4676_state" where
  "on_end elem w =
     (let w = (if elem = ''tp'' then w\<lparr>wk_track := (wk_track w)\<lparr>tk_points := tk_points (wk_track w) @ [(wk_tp w)\<lparr>pt_status := wk_seg_status w\<rparr>]\<rparr>,
                                     wk_tp := no_point\<rparr>
               else if elem = ''dynamics'' then w\<lparr>wk_dynamics_cs := None\<rparr>
               else if elem = ''segment'' then w\<lparr>wk_seg_status := None\<rparr>
               else if elem = ''track'' then w\<lparr>wk_track := no_track\<rparr>
               else w)
      in w\<lparr>wk_stack := tl (wk_stack w)\<rparr>)"

definition on_text :: "str \<Rightarrow> s4676_state \<Rightarrow> s4676_state" where
  "on_text content w =
     (let t = trim content in
      if t = [] then w
      else route_text (case wk_stack w of _ # p # _ \<Rightarrow> p | _ \<Rightarrow> []) (case wk_stack w of c # _ \<Rightarrow> c | [] \<Rightarrow> []) t w)"

definition track_raw :: "bytes \<Rightarrow> nat \<Rightarrow> nat \<Rightarrow> bytes" where
  "track_raw native start end_pos = (case slice_range native start end_pos of Some r \<Rightarrow> r | None \<Rightarrow> native)"

fun s4676_walk ::
  "(str \<Rightarrow> f64 \<Rightarrow> str option) \<Rightarrow> libm \<Rightarrow> (nat \<Rightarrow> effects) \<Rightarrow> s4676_parser \<Rightarrow> bytes \<Rightarrow> str option \<Rightarrow> nat \<Rightarrow> (xml_event \<times> nat) list
   \<Rightarrow> s4676_state \<Rightarrow> event list \<Rightarrow> s4676_error + event list" where
  "s4676_walk time_at lm fx sp native err pos [] w out = (case err of Some e \<Rightarrow> Inl (S4676Xml e) | None \<Rightarrow> Inr out)"
| "s4676_walk time_at lm fx sp native err pos ((x, pos') # xs) w out =
     (case x of
        XStart name as \<Rightarrow> s4676_walk time_at lm fx sp native err pos' xs (on_start name as pos w) out
      | XEnd name \<Rightarrow>
          if local_name name = ''track'' then
            (case flush_track time_at lm fx sp (wk_msg w) (wk_track w) (track_raw native (tk_start (wk_track w)) pos') out of
               Inl e \<Rightarrow> Inl e
             | Inr out' \<Rightarrow> s4676_walk time_at lm fx sp native err pos' xs (on_end ''track'' w) out')
          else s4676_walk time_at lm fx sp native err pos' xs (on_end (local_name name) w) out
      | XText content \<Rightarrow> s4676_walk time_at lm fx sp native err pos' xs (on_text content w) out
      | _ \<Rightarrow> s4676_walk time_at lm fx sp native err pos' xs w out)"

definition s4676_to_events ::
  "(str \<Rightarrow> f64 \<Rightarrow> str option) \<Rightarrow> libm \<Rightarrow> (bytes \<Rightarrow> xml_stream) \<Rightarrow> (nat \<Rightarrow> effects) \<Rightarrow> bytes \<Rightarrow> s4676_parser \<Rightarrow> s4676_error + event list" where
  "s4676_to_events time_at lm xml fx native sp = s4676_walk time_at lm fx sp native (snd (xml native)) 0 (fst (xml native)) s4676_start []"

definition s4676_parse ::
  "(str \<Rightarrow> f64 \<Rightarrow> str option) \<Rightarrow> libm \<Rightarrow> (bytes \<Rightarrow> xml_stream) \<Rightarrow> (nat \<Rightarrow> effects) \<Rightarrow> bytes \<Rightarrow> s4676_parser
   \<Rightarrow> (s4676_parser \<times> (s4676_error + event list)) option" where
  "s4676_parse time_at lm xml fx frame sp = Some (sp, s4676_to_events time_at lm xml fx frame sp)"

section \<open>Base64\<close>

text \<open>The encoder of RFC 4648.\<close>

definition BASE64 :: str where
  "BASE64 = ''ABCDEFGHIJKLMNOPQRSTUVWXYZabcdefghijklmnopqrstuvwxyz0123456789+/''"

definition base64_char :: "u8 \<Rightarrow> char" where
  "base64_char v = BASE64 ! unat v"

text \<open>The four symbols of three bytes; a byte that is not there counts as 0.\<close>

definition sextet1 :: "u8 \<Rightarrow> u8" where "sextet1 a = drop_bit 2 a"
definition sextet2 :: "u8 \<Rightarrow> u8 \<Rightarrow> u8" where "sextet2 a b = push_bit 4 (a AND 3) OR drop_bit 4 b"
definition sextet3 :: "u8 \<Rightarrow> u8 \<Rightarrow> u8" where "sextet3 b c = push_bit 2 (b AND 15) OR drop_bit 6 c"
definition sextet4 :: "u8 \<Rightarrow> u8" where "sextet4 c = c AND 63"

fun base64_encode :: "bytes \<Rightarrow> str" where
  "base64_encode (a # b # c # r) =
     [base64_char (sextet1 a), base64_char (sextet2 a b), base64_char (sextet3 b c), base64_char (sextet4 c)] @ base64_encode r"
| "base64_encode [a, b] = [base64_char (sextet1 a), base64_char (sextet2 a b), base64_char (sextet3 b 0), CHR ''='']"
| "base64_encode [a] = [base64_char (sextet1 a), base64_char (sextet2 a 0), CHR ''='', CHR ''='']"
| "base64_encode [] = []"

definition is_symbol :: "char \<Rightarrow> bool" where
  "is_symbol c \<longleftrightarrow> c \<noteq> CHR ''='' \<and> \<not> is_ascii_whitespace c"

fun values_from :: "u8 \<Rightarrow> str \<Rightarrow> bool" where
  "values_from n [] = True"
| "values_from n (c # cs) \<longleftrightarrow> base64_val c = Some n \<and> is_symbol c \<and> values_from (n + 1) cs"

lemma values_from_nth: "values_from n cs \<Longrightarrow> i < length cs \<Longrightarrow> base64_val (cs ! i) = Some (n + of_nat i) \<and> is_symbol (cs ! i)"
  by (induction n cs arbitrary: i rule: values_from.induct) (auto simp: nth_Cons add.assoc split: nat.split)

lemma base64_table: "values_from 0 BASE64"
  by (simp add: BASE64_def base64_val_def is_symbol_def is_ascii_whitespace_def is_upper_def is_lower_def is_digit_def of_char_def)

lemma base64_char_val:
  assumes "v < 64"
  shows "base64_val (base64_char v) = Some v" "is_symbol (base64_char v)"
proof -
  have "unat v < 64" using assms by (simp add: word_less_nat_alt)
  then show "base64_val (base64_char v) = Some v" "is_symbol (base64_char v)"
    using values_from_nth [OF base64_table, of "unat v"] by (simp_all add: base64_char_def BASE64_def)
qed

lemma base64_from_filter: "base64_from ch s = base64_from ch (filter is_symbol s)"
  by (induction ch s rule: base64_from.induct) (auto simp: is_symbol_def split: option.split)

lemma u8_less_64: "(\<And>n. bit (x :: u8) n \<Longrightarrow> n < 6) \<Longrightarrow> x < 64"
proof -
  assume low: "\<And>n. bit x n \<Longrightarrow> n < 6"
  have "take_bit 6 x = x" by (rule bit_word_eqI) (auto simp: bit_take_bit_iff dest: low)
  then have "unat x < 2 ^ 6" by (metis take_bit_nat_less_exp unsigned_take_bit_eq)
  then show "x < 64" by (simp add: word_less_nat_alt)
qed

lemma low_masks: "(3 :: u8) = Bit_Operations.mask 2" "(15 :: u8) = Bit_Operations.mask 4" "(63 :: u8) = Bit_Operations.mask 6"
  by (simp_all add: mask_eq_exp_minus_1)

lemma bit_sextet:
  "bit (sextet1 a) n \<longleftrightarrow> bit a (n + 2)"
  "bit (sextet2 a b) n \<longleftrightarrow> (4 \<le> n \<and> n < 6 \<and> bit a (n - 4)) \<or> bit b (n + 4)"
  "bit (sextet3 b c) n \<longleftrightarrow> (2 \<le> n \<and> n < 6 \<and> bit b (n - 2)) \<or> bit c (n + 6)"
  "bit (sextet4 c) n \<longleftrightarrow> n < 6 \<and> bit c n"
  unfolding sextet1_def sextet2_def sextet3_def sextet4_def low_masks
  by (auto simp: bit_or_iff bit_and_iff bit_push_bit_iff bit_drop_bit_eq bit_mask_iff add.commute)

lemma sextet_small: "sextet1 a < 64" "sextet2 a b < 64" "sextet3 b c < 64" "sextet4 c < 64"
  by (rule u8_less_64; auto simp: bit_sextet dest: bit_u8_high)+

lemma sextets_bytes:
  "push_bit 2 (sextet1 a) OR drop_bit 4 (sextet2 a b) = a"
  "push_bit 4 (sextet2 a b) OR drop_bit 2 (sextet3 b c) = b"
  "push_bit 6 (sextet3 b c) OR sextet4 c = c"
proof -
  have two: "2 \<le> n \<Longrightarrow> n - 2 + 2 = n" for n :: nat by simp
  have "bit (push_bit 2 (sextet1 a) OR drop_bit 4 (sextet2 a b)) n = bit a n" if "n < 8" for n
    using that two [of n] by (cases "2 \<le> n") (auto simp: bit_or_iff bit_push_bit_iff bit_drop_bit_eq bit_sextet not_le dest: bit_u8_high)
  then show "push_bit 2 (sextet1 a) OR drop_bit 4 (sextet2 a b) = a" by (intro bit_word_eqI) simp
  show "push_bit 4 (sextet2 a b) OR drop_bit 2 (sextet3 b c) = b"
    by (rule bit_word_eqI) (auto simp: bit_or_iff bit_push_bit_iff bit_drop_bit_eq bit_sextet not_le dest: bit_u8_high)
  show "push_bit 6 (sextet3 b c) OR sextet4 c = c"
    by (rule bit_word_eqI) (auto simp: bit_or_iff bit_push_bit_iff bit_drop_bit_eq bit_sextet not_le dest: bit_u8_high)
qed

lemma sextets_encoded:
  "sextets [sextet1 a, sextet2 a b, sextet3 b c, sextet4 c] = [a, b, c]"
  "sextets [sextet1 a, sextet2 a b, sextet3 b c] = [a, b]"
  "sextets [sextet1 a, sextet2 a b] = [a]"
  by (simp_all add: sextets_def sextets_bytes)

lemmas encoded_symbol = base64_char_val [OF sextet_small(1)] base64_char_val [OF sextet_small(2)]
  base64_char_val [OF sextet_small(3)] base64_char_val [OF sextet_small(4)]

lemma base64_from_symbol:
  "is_symbol c \<Longrightarrow> base64_from ch (c # cs) =
     (case base64_val c of None \<Rightarrow> None
      | Some v \<Rightarrow> if length ch = 3 then map_option (\<lambda>out. sextets (ch @ [v]) @ out) (base64_from [] cs) else base64_from (ch @ [v]) cs)"
  by (simp add: is_symbol_def)

lemma padding_symbol: "\<not> is_symbol (CHR ''='')"
  by (simp add: is_symbol_def)

lemma base64_from_encode: "base64_from [] (filter is_symbol (base64_encode bs)) = Some bs"
  by (induction bs rule: base64_encode.induct)
     (simp_all add: encoded_symbol base64_from_symbol padding_symbol sextets_encoded sextets_def [of "[]"] del: base64_from.simps(2))

lemma base64_decode_spaced: "filter is_symbol s = filter is_symbol (base64_encode bs) \<Longrightarrow> base64_decode s = Some bs"
  by (metis base64_decode_def base64_from_encode base64_from_filter)

section \<open>Builders\<close>

text \<open>What each group of setters adds: attributes and metadata from its own lists, in that order, and nothing else but the
  tags of the label and the position.\<close>

lemma keys_append: "subseq xs as \<Longrightarrow> subseq xs' as' \<Longrightarrow> subseq (xs @ xs') (as @ as')"
  by (rule list_emb_append_mono)

lemma keys_room: "keys_within as ms b \<Longrightarrow> keys_within (as @ as') (ms @ ms') b"
  unfolding keys_within_def by (metis append_Nil2 keys_append list_emb_Nil)

lemma policy_tags_folded [simp]:
  "b_attributes (fold eb_policy_tag ts b) = b_attributes b" "b_metadata (fold eb_policy_tag ts b) = b_metadata b"
  "b_policy_tags (fold eb_policy_tag ts b) = b_policy_tags b @ ts" "b_location (fold eb_policy_tag ts b) = b_location b"
  "b_id (fold eb_policy_tag ts b) = b_id b" "b_timestamp (fold eb_policy_tag ts b) = b_timestamp b"
  "b_source_id (fold eb_policy_tag ts b) = b_source_id b" "b_entity_type (fold eb_policy_tag ts b) = b_entity_type b"
  "b_confidence (fold eb_policy_tag ts b) = b_confidence b" "b_payload (fold eb_policy_tag ts b) = b_payload b"
  "b_strict_entity_namespace (fold eb_policy_tag ts b) = b_strict_entity_namespace b"
  by (induction ts arbitrary: b) (simp_all add: eb_policy_tag_def)

definition s4676_fixed :: "event_builder \<Rightarrow> str option \<times> str option \<times> str \<times> str \<times> f64 \<times> bytes \<times> bool" where
  "s4676_fixed b = (b_id b, b_timestamp b, b_source_id b, b_entity_type b, b_confidence b, b_payload b, b_strict_entity_namespace b)"

lemmas adder_defs = eb_identity_def eb_governed_def opt_metadata_def opt_attribute_def eb_attribute_def eb_metadata_def
  Let_def keys_within_def s4676_fixed_def

lemma keys_base:
  "keys_within [''hostility''] [] (s4676_base time_at fx sp m k raw p)"
  unfolding s4676_base_def Let_def by (simp add: keys_within_def eb_defs eb_new_def split: option.split)

lemma keys_track_uid:
  "keys_within as ms b \<Longrightarrow> keys_within (as @ [''alt_id'', ''alt_id_standard'']) (ms @ [''source_uid'']) (add_track_uid k b)"
  by (auto simp: add_track_uid_def adder_defs keys_append list_emb_append2 split: option.split)

lemma keys_label:
  "keys_within as ms b
   \<Longrightarrow> keys_within as (ms @ [''nits_policy_identifier'', ''nits_classification'', ''nits_version'', ''identity'']) (add_label m k b)"
  by (auto simp: add_label_def adder_defs keys_append list_emb_append2 split: option.split)

lemma keys_governed_only:
  "keys_within as ms b \<Longrightarrow> keys_within (as @ filter (governs ont ty) [k]) (ms @ [k]) (eb_governed ont ty k v b)"
  by (auto simp: eb_governed_def keys_attribute keys_metadata keys_more)

lemma keys_class:
  assumes "keys_within as ms b"
  shows "keys_within (as @ filter (governs ONTOLOGY entity) [''environment'', ''object_class''])
         (ms @ [''environment'', ''environment_source'', ''object_class'']) (add_class entity k b)"
proof -
  have two: "filter P [x, y] = filter P [x] @ filter P [y]" for P :: "str \<Rightarrow> bool" and x y by simp
  note c = keys_opt_metadata [OF keys_governed_only [OF assms]]
  show ?thesis
    unfolding add_class_def Let_def two
    using keys_governed_only [OF c] keys_room [OF c]
    by (cases "tk_object_class k") (simp_all only: option.case append_assoc append.simps)
qed

lemma keys_status:
  "keys_within as ms b
   \<Longrightarrow> keys_within (as @ filter (governs ONTOLOGY entity) [''track_status'']) (ms @ [''track_status'', ''s4676_status'', ''rel_time''])
         (add_status entity p b)"
  by (auto simp: add_status_def adder_defs keys_append list_emb_append2 split: option.split)

lemma keys_velocity:
  assumes "keys_within as ms b"
  shows "keys_within (as @ [''speed'', ''course'', ''vertical_rate'']) (ms @ [''vel_lat_dps'', ''vel_lon_dps'']) (apply_velocity lm lat vel b)"
proof -
  have f: "keys_within (as @ [''speed'', ''course'', ''vertical_rate'']) (ms @ [''vel_lat_dps'', ''vel_lon_dps''])
      (opt_attribute ''vertical_rate'' v5 (eb_metadata ''vel_lon_dps'' v4 (eb_metadata ''vel_lat_dps'' v3
        (eb_attribute ''course'' v2 (eb_attribute ''speed'' v1 b)))))" for v1 v2 v3 v4 v5
    using keys_opt_attribute [OF keys_metadata [OF keys_metadata [OF keys_attribute [OF keys_attribute [OF assms]]]]] by simp
  show ?thesis
    unfolding apply_velocity_def Let_def by (cases vel rule: remdups_adj.cases) (simp_all add: f keys_room [OF assms])
qed

lemma keys_kinematics:
  assumes "keys_within as ms b"
  shows "keys_within (as @ [''speed'', ''course'', ''vertical_rate''])
           ((ms @ [''coordinate_system'', ''position_raw'']) @ [''vel_lat_dps'', ''vel_lon_dps'']) (apply_kinematics lm p b)"
proof -
  let ?keys = "keys_within (as @ [''speed'', ''course'', ''vertical_rate'']) (ms @ [''coordinate_system'', ''position_raw'', ''vel_lat_dps'', ''vel_lon_dps''])"
  have "?keys (opt_metadata ''position_raw'' r (eb_metadata ''coordinate_system'' c b))" for r c
    using keys_room [where ms' = "[''vel_lat_dps'', ''vel_lon_dps'']", OF keys_opt_metadata [OF keys_metadata [OF assms]]] by simp
  moreover have "?keys b" "?keys (eb_location x y z b)" for x y z
    using keys_room [OF assms] keys_room [OF keys_setters(7) [OF assms]] by simp_all
  moreover have "?keys (apply_velocity lm x v (eb_location x y z b))" for v x y z
    using keys_velocity [OF keys_room [OF keys_setters(7) [OF assms], of "[]" "[''coordinate_system'', ''position_raw'']"]] by simp
  ultimately show ?thesis unfolding apply_kinematics_def Let_def by (simp split: option.split list.split)
qed

definition S4676_ATTRIBUTES :: "str \<Rightarrow> str list" where
  "S4676_ATTRIBUTES entity = [''hostility'', ''alt_id'', ''alt_id_standard'']
     @ filter (governs ONTOLOGY entity) [''environment'', ''object_class''] @ filter (governs ONTOLOGY entity) [''track_status'']
     @ [''speed'', ''course'', ''vertical_rate'']"

definition S4676_METADATA :: "str list" where
  "S4676_METADATA = [''source_uid'', ''nits_policy_identifier'', ''nits_classification'', ''nits_version'', ''identity'', ''environment'',
     ''environment_source'', ''object_class'', ''track_status'', ''s4676_status'', ''rel_time'', ''coordinate_system'', ''position_raw'',
     ''vel_lat_dps'', ''vel_lon_dps'']"

lemma s4676_keys:
  "keys_within (S4676_ATTRIBUTES (s4676_entity (s7_overrides sp) (tk_environment k))) S4676_METADATA (s4676_builder time_at lm fx sp m k raw p)"
  using keys_kinematics [OF keys_status [OF keys_class [OF keys_label [OF keys_track_uid [OF keys_base [of time_at fx sp m k raw p], of k], of m k],
      of "s4676_entity (s7_overrides sp) (tk_environment k)" k], of "s4676_entity (s7_overrides sp) (tk_environment k)" p], of lm p]
  unfolding s4676_builder_def Let_def S4676_ATTRIBUTES_def S4676_METADATA_def append_assoc append.simps .

lemma adders_fixed:
  "s4676_fixed (add_track_uid k b) = s4676_fixed b" "s4676_fixed (add_label m k b) = s4676_fixed b" "s4676_fixed (add_class entity k b) = s4676_fixed b"
  "s4676_fixed (add_status entity p b) = s4676_fixed b" "s4676_fixed (apply_kinematics lm p b) = s4676_fixed b"
  by (simp_all add: add_track_uid_def add_label_def add_class_def add_status_def apply_kinematics_def apply_velocity_def
      eb_location_def adder_defs split: option.split list.split)

definition point_location :: "point_ctx \<Rightarrow> geo_point option" where
  "point_location p =
     (if pt_cs p = Some ''WGS_84'' then
        (case pt_pos p of
           Some (lat # lon # rest) \<Rightarrow> Some \<lparr>latitude = lat, longitude = lon, altitude_m = (case rest of h # _ \<Rightarrow> h | [] \<Rightarrow> f64_of_int 0)\<rparr>
         | _ \<Rightarrow> None)
      else None)"

definition point_stamp :: "(str \<Rightarrow> f64 \<Rightarrow> str option) \<Rightarrow> effects \<Rightarrow> message_ctx \<Rightarrow> point_ctx \<Rightarrow> str" where
  "point_stamp time_at fx m p =
     (case point_time time_at (mg_base_time m) (mg_rel_increment m) (pt_rel_time p) of Some ts \<Rightarrow> ts | None \<Rightarrow> wall_clock fx)"

lemma adders_location:
  "b_location (add_track_uid k b) = b_location b" "b_location (add_label m k b) = b_location b"
  "b_location (add_class entity k b) = b_location b" "b_location (add_status entity p b) = b_location b"
  "b_location (apply_velocity lm lat vel b) = b_location b"
  by (simp_all add: add_track_uid_def add_label_def add_class_def add_status_def apply_velocity_def Let_def split: option.split list.split)

lemma kinematics_location: "b_location b = None \<Longrightarrow> b_location (apply_kinematics lm p b) = point_location p"
  by (auto simp: apply_kinematics_def point_location_def adders_location Let_def eb_fixed_sel split: option.split list.split)

lemma adders_tags:
  "b_policy_tags (add_track_uid k b) = b_policy_tags b" "b_policy_tags (add_label m k b) = b_policy_tags b @ s4676_tags m"
  "b_policy_tags (add_class entity k b) = b_policy_tags b" "b_policy_tags (add_status entity p b) = b_policy_tags b"
  "b_policy_tags (apply_velocity lm lat vel b) = b_policy_tags b" "b_policy_tags (apply_kinematics lm p b) = b_policy_tags b"
  by (simp_all add: add_track_uid_def add_label_def add_class_def add_status_def apply_velocity_def apply_kinematics_def Let_def
      eb_fixed_sel split: option.split list.split)

lemma s4676_base_fields:
  "s4676_fixed (s4676_base time_at fx sp m k raw p)
     = (Some (uuid fx), Some (point_stamp time_at fx m p), s7_source_id sp, s4676_entity (s7_overrides sp) (tk_environment k), FNum False 0, raw, True)"
  "b_location (s4676_base time_at fx sp m k raw p) = None" "b_policy_tags (s4676_base time_at fx sp m k raw p) = []"
  by (simp_all add: s4676_base_def point_stamp_def s4676_fixed_def Let_def eb_defs eb_new_def split: option.split)

lemma s4676_fields:
  "s4676_fixed (s4676_builder time_at lm fx sp m k raw p)
     = (Some (uuid fx), Some (point_stamp time_at fx m p), s7_source_id sp, s4676_entity (s7_overrides sp) (tk_environment k), FNum False 0, raw, True)"
  "b_location (s4676_builder time_at lm fx sp m k raw p) = point_location p"
  "b_policy_tags (s4676_builder time_at lm fx sp m k raw p) = s4676_tags m"
  by (simp_all add: s4676_builder_def Let_def adders_fixed adders_location adders_tags s4676_base_fields kinematics_location)

lemma s4676_tags_few: "length (s4676_tags m) \<le> 2"
  by (simp add: s4676_tags_def wire_classification_def Let_def split: option.split prod.split)

lemma s4676_keys_small:
  "distinct (S4676_ATTRIBUTES entity)" "distinct S4676_METADATA" "length (S4676_ATTRIBUTES entity) \<le> MAX_ATTRIBUTES" "length S4676_METADATA \<le> MAX_METADATA"
  by (simp_all add: S4676_ATTRIBUTES_def S4676_METADATA_def MAX_ATTRIBUTES_def MAX_METADATA_def)

definition point_ok :: "point_ctx \<Rightarrow> bool" where
  "point_ok p = (case point_location p of Some loc \<Rightarrow> location_ok loc | None \<Rightarrow> True)"

lemma s4676_builds:
  assumes "s7_source_id sp \<noteq> []" "is_namespaced (s4676_entity (s7_overrides sp) (tk_environment k))" "is_rfc3339 (point_stamp time_at fx m p)"
  shows "build (s4676_builder time_at lm fx sp m k raw p) = Inr e
    \<longleftrightarrow> e = built_event (s4676_builder time_at lm fx sp m k raw p) \<and> point_ok p"
proof -
  let ?b = "s4676_builder time_at lm fx sp m k raw p"
  have "f64_within (f64_of_int 0) (f64_of_int 1) (FNum False 0)"
    using f64_of_int_exact [of 0] f64_of_int_exact [of 1] by (simp add: f64_within_def f64_le_def signed_val_def)
  moreover have "length (s4676_tags m) \<le> MAX_POLICY_TAGS" using s4676_tags_few [of m] by (simp add: MAX_POLICY_TAGS_def)
  ultimately have "buildable ?b \<longleftrightarrow> point_ok p"
    using keys_within_buildable [OF s4676_keys s4676_keys_small] s4676_fields [of time_at lm fx sp m k raw p] assms
    by (auto simp: s4676_fixed_def point_ok_def split: option.split)
  then show ?thesis by (auto simp: build_Inr_iff)
qed

section \<open>The events of a message\<close>

text \<open>The tracks a message closes, each with what is known of the message then and its own bytes, and their points.\<close>

fun closed_tracks :: "bytes \<Rightarrow> nat \<Rightarrow> (xml_event \<times> nat) list \<Rightarrow> s4676_state \<Rightarrow> (message_ctx \<times> track_ctx \<times> bytes) list" where
  "closed_tracks native pos [] w = []"
| "closed_tracks native pos ((x, pos') # xs) w =
     (case x of
        XStart name as \<Rightarrow> closed_tracks native pos' xs (on_start name as pos w)
      | XEnd name \<Rightarrow>
          (if local_name name = ''track'' then [(wk_msg w, wk_track w, track_raw native (tk_start (wk_track w)) pos')] else [])
          @ closed_tracks native pos' xs (on_end (local_name name) w)
      | XText content \<Rightarrow> closed_tracks native pos' xs (on_text content w)
      | _ \<Rightarrow> closed_tracks native pos' xs w)"

type_synonym s4676_point = "message_ctx \<times> track_ctx \<times> bytes \<times> point_ctx"

definition track_points :: "message_ctx \<times> track_ctx \<times> bytes \<Rightarrow> s4676_point list" where
  "track_points = (\<lambda>(m, k, raw). map (\<lambda>p. (m, k, raw, p)) (tk_points k))"

lemma track_points_map [simp]: "track_points (m, k, raw) = map (\<lambda>p. (m, k, raw, p)) (tk_points k)"
  by (simp add: track_points_def)

definition message_points :: "bytes \<Rightarrow> (xml_event \<times> nat) list \<Rightarrow> s4676_point list" where
  "message_points native xs = concat (map track_points (closed_tracks native 0 xs s4676_start))"

fun point_events ::
  "(str \<Rightarrow> f64 \<Rightarrow> str option) \<Rightarrow> libm \<Rightarrow> (nat \<Rightarrow> effects) \<Rightarrow> s4676_parser \<Rightarrow> nat \<Rightarrow> s4676_point list \<Rightarrow> event list" where
  "point_events time_at lm fx sp n [] = []"
| "point_events time_at lm fx sp n ((m, k, raw, p) # ps) =
     built_event (s4676_builder time_at lm (fx n) sp m k raw p) # point_events time_at lm fx sp (Suc n) ps"

lemma point_events_length [simp]: "length (point_events time_at lm fx sp n ps) = length ps"
  by (induction time_at lm fx sp n ps rule: point_events.induct) simp_all

lemma point_events_append:
  "point_events time_at lm fx sp n (ps @ qs) = point_events time_at lm fx sp n ps @ point_events time_at lm fx sp (n + length ps) qs"
  by (induction time_at lm fx sp n ps rule: point_events.induct) simp_all

text \<open>What the parser relies on: a source, entity types in a namespace, and timestamps in RFC 3339 from the \<open>time\<close> crate and the clock.\<close>

definition s4676_ready :: "(str \<Rightarrow> f64 \<Rightarrow> str option) \<Rightarrow> (nat \<Rightarrow> effects) \<Rightarrow> s4676_parser \<Rightarrow> bool" where
  "s4676_ready time_at fx sp \<longleftrightarrow> s7_source_id sp \<noteq> [] \<and> (\<forall>t \<in> ran (s7_overrides sp). is_namespaced t)
     \<and> (\<forall>b s ts. time_at b s = Some ts \<longrightarrow> is_rfc3339 ts) \<and> (\<forall>n. is_rfc3339 (wall_clock (fx n)))"

lemma ready_stamp: "s4676_ready time_at fx sp \<Longrightarrow> is_rfc3339 (point_stamp time_at (fx n) m p)"
  by (auto simp: s4676_ready_def point_stamp_def point_time_def split: option.split bind_splits)

lemma ready_entity: "s4676_ready time_at fx sp \<Longrightarrow> is_namespaced (s4676_entity (s7_overrides sp) env)"
proof -
  have "is_namespaced ''mim:object''" by code_simp
  then show "s4676_ready time_at fx sp \<Longrightarrow> is_namespaced (s4676_entity (s7_overrides sp) env)"
    by (auto simp: s4676_ready_def s4676_entity_def ranI split: option.split)
qed

lemma flush_points_spec:
  assumes "s4676_ready time_at fx sp"
  shows "if list_all point_ok ps
    then flush_points time_at lm fx sp m k raw ps out = Inr (out @ point_events time_at lm fx sp (length out) (map (\<lambda>p. (m, k, raw, p)) ps))
    else \<exists>err. flush_points time_at lm fx sp m k raw ps out = Inl (S4676Build err)"
proof (induction ps arbitrary: out)
  case (Cons p ps)
  note b = s4676_builds [OF _ ready_entity [OF assms] ready_stamp [OF assms], where k = k and m = m and p = p and lm = lm and raw = raw]
  show ?case
  proof (cases "point_ok p")
    case True
    then have "build (s4676_builder time_at lm (fx (length out)) sp m k raw p) = Inr (built_event (s4676_builder time_at lm (fx (length out)) sp m k raw p))"
      using b assms by (simp add: s4676_ready_def)
    with Cons [of "out @ [built_event (s4676_builder time_at lm (fx (length out)) sp m k raw p)]"] True show ?thesis by simp
  next
    case False
    then have "build (s4676_builder time_at lm (fx (length out)) sp m k raw p) \<noteq> Inr e" for e
      using b assms by (simp add: s4676_ready_def)
    then obtain err where "build (s4676_builder time_at lm (fx (length out)) sp m k raw p) = Inl err" by (metis sum.exhaust)
    with False show ?thesis by simp
  qed
qed simp

lemma s4676_walk_spec:
  assumes "s4676_ready time_at fx sp"
  shows "if list_all (\<lambda>(m, k, raw, p). point_ok p) (concat (map track_points (closed_tracks native pos xs w)))
    then s4676_walk time_at lm fx sp native None pos xs w out
       = Inr (out @ point_events time_at lm fx sp (length out) (concat (map track_points (closed_tracks native pos xs w))))
    else \<exists>err. s4676_walk time_at lm fx sp native None pos xs w out = Inl (S4676Build err)"
proof (induction native pos xs w arbitrary: out rule: closed_tracks.induct)
  case (2 native pos x pos' xs w)
  show ?case
  proof (cases x)
    case (XEnd name)
    show ?thesis
    proof (cases "local_name name = ''track''")
      case True
      let ?raw = "track_raw native (tk_start (wk_track w)) pos'"
      let ?ps = "map (\<lambda>p. (wk_msg w, wk_track w, ?raw, p)) (tk_points (wk_track w))"
      have ok: "list_all (\<lambda>(m, k, raw, p). point_ok p) ?ps \<longleftrightarrow> list_all point_ok (tk_points (wk_track w))" by (simp add: list_all_iff)
      note f = flush_points_spec [OF assms, where lm = lm and m = "wk_msg w" and k = "wk_track w" and raw = ?raw and ps = "tk_points (wk_track w)" and out = out]
      show ?thesis
      proof (cases "list_all point_ok (tk_points (wk_track w))")
        case ok': True
        with f "2.IH"(3) [OF XEnd, unfolded True, of "out @ point_events time_at lm fx sp (length out) ?ps"] XEnd True
        show ?thesis by (auto simp: ok flush_track_def point_events_append split: if_splits)
      next
        case False
        with f XEnd True show ?thesis by (auto simp: ok flush_track_def)
      qed
    next
      case False
      with "2.IH"(3) [OF XEnd, of out] XEnd show ?thesis by simp
    qed
  qed (use "2.IH" in \<open>auto\<close>)
qed simp

lemma adders_keep:
  "x \<in> set (b_attributes b) \<Longrightarrow> x \<in> set (b_attributes (add_track_uid k b))"
  "x \<in> set (b_attributes b) \<Longrightarrow> x \<in> set (b_attributes (add_label m k b))"
  "x \<in> set (b_attributes b) \<Longrightarrow> x \<in> set (b_attributes (add_class entity k b))"
  "x \<in> set (b_attributes b) \<Longrightarrow> x \<in> set (b_attributes (add_status entity p b))"
  "x \<in> set (b_attributes b) \<Longrightarrow> x \<in> set (b_attributes (apply_velocity lm lat vel b))"
  by (simp_all add: add_track_uid_def add_label_def add_class_def add_status_def apply_velocity_def eb_identity_def eb_governed_def
      opt_metadata_def opt_attribute_def eb_attribute_def eb_metadata_def Let_def split: option.split list.split)

lemma kinematics_keep: "x \<in> set (b_attributes b) \<Longrightarrow> x \<in> set (b_attributes (apply_kinematics lm p b))"
  by (auto simp: apply_kinematics_def opt_metadata_def eb_metadata_def eb_location_def Let_def
      intro!: adders_keep(5) split: option.split list.split)

lemma s4676_hostility_kept:
  "\<lparr>a_key = ''hostility'', a_value = s4676_hostility (s7_enrichment sp) (tk_identity k)\<rparr>
     \<in> set (ev_attributes (built_event (s4676_builder time_at lm fx sp m k raw p)))"
proof -
  have "(''hostility'', s4676_hostility (s7_enrichment sp) (tk_identity k)) \<in> set (b_attributes (s4676_base time_at fx sp m k raw p))"
    by (simp add: s4676_base_def Let_def eb_defs split: option.split)
  then have "(''hostility'', s4676_hostility (s7_enrichment sp) (tk_identity k)) \<in> set (b_attributes (s4676_builder time_at lm fx sp m k raw p))"
    by (simp add: s4676_builder_def Let_def adders_keep kinematics_keep)
  then show ?thesis by (force simp: built_event_def to_attr_def)
qed

lemma object_governs: "list_all (governs ONTOLOGY ''mim:object'') (S4676_ATTRIBUTES ''mim:object'')"
  by code_simp

text \<open>The event of a point.\<close>

definition event_of_point :: "(str \<Rightarrow> f64 \<Rightarrow> str option) \<Rightarrow> effects \<Rightarrow> s4676_parser \<Rightarrow> s4676_point \<Rightarrow> event \<Rightarrow> bool" where
  "event_of_point time_at fx sp = (\<lambda>(m, k, raw, p) e. canonical_event e \<and> ev_id e = uuid fx \<and> ev_source_id e = s7_source_id sp
     \<and> ev_payload e = raw \<and> ev_timestamp e = point_stamp time_at fx m p \<and> ev_location e = point_location p
     \<and> ev_policy_tags e = s4676_tags m \<and> ev_entity_type e = s4676_entity (s7_overrides sp) (tk_environment k)
     \<and> \<lparr>a_key = ''hostility'', a_value = s4676_hostility (s7_enrichment sp) (tk_identity k)\<rparr> \<in> set (ev_attributes e)
     \<and> (s7_overrides sp = Map.empty \<longrightarrow> ungoverned ONTOLOGY e = []))"

lemma built_point:
  assumes "s4676_ready time_at fx sp" "point_ok p"
  shows "event_of_point time_at (fx n) sp (m, k, raw, p) (built_event (s4676_builder time_at lm (fx n) sp m k raw p))"
proof -
  let ?b = "s4676_builder time_at lm (fx n) sp m k raw p"
  have b: "build ?b = Inr (built_event ?b)"
    using s4676_builds [OF _ ready_entity [OF assms(1)] ready_stamp [OF assms(1)]] assms by (simp add: s4676_ready_def)
  have "ungoverned ONTOLOGY (built_event ?b) = []" if "s7_overrides sp = Map.empty"
    using that s4676_fields(1) [of time_at lm "fx n" sp m k raw p] object_governs
    by (intro ungoverned_Nil [OF s4676_keys s4676_keys_small(1,2)]) (simp add: s4676_fixed_def s4676_entity_def)
  with build_source [OF b] s4676_fields [of time_at lm "fx n" sp m k raw p] s4676_hostility_kept [of sp k time_at lm "fx n" m raw p]
  show ?thesis by (simp add: event_of_point_def s4676_fixed_def built_event_def)
qed

lemma built_points:
  assumes "s4676_ready time_at fx sp"
  shows "list_all (\<lambda>(m, k, raw, p). point_ok p) ps
    \<Longrightarrow> list_all2 (\<lambda>(n, q) e. event_of_point time_at (fx n) sp q e) (zip [i..<i + length ps] ps) (point_events time_at lm fx sp i ps)"
proof (induction ps arbitrary: i)
  case (Cons q ps)
  obtain m k raw p where q: "q = (m, k, raw, p)" by (cases q)
  have "[i..<i + length (q # ps)] = i # [Suc i..<Suc i + length ps]" by (simp add: upt_rec)
  with Cons.IH [of "Suc i"] Cons.prems built_point [OF assms] q show ?case by (simp del: upt.simps)
qed simp

lemma s4676_message:
  assumes "s4676_ready time_at fx sp" "xml native = (xs, None)"
  shows "if list_all (\<lambda>(m, k, raw, p). point_ok p) (message_points native xs)
    then \<exists>es. s4676_to_events time_at lm xml fx native sp = Inr es
           \<and> list_all2 (\<lambda>(n, q) e. event_of_point time_at (fx n) sp q e) (zip [0..<length (message_points native xs)] (message_points native xs)) es
    else \<exists>err. s4676_to_events time_at lm xml fx native sp = Inl (S4676Build err)"
  using s4676_walk_spec [OF assms(1), of native 0 xs s4676_start lm "[]"] built_points [OF assms(1), of "message_points native xs" 0 lm]
  by (auto simp: s4676_to_events_def assms(2) message_points_def)

lemma s4676_builder_source: "b_source_id (s4676_builder time_at lm fx sp m k raw p) = s7_source_id sp"
  using s4676_fields(1) [of time_at lm fx sp m k raw p] by (simp add: s4676_fixed_def)

lemma flush_points_source:
  "flush_points time_at lm fx sp m k raw ps out = Inr es \<Longrightarrow> \<forall>e \<in> set out. canonical_event e \<and> ev_source_id e = s7_source_id sp
   \<Longrightarrow> \<forall>e \<in> set es. canonical_event e \<and> ev_source_id e = s7_source_id sp"
proof (induction ps arbitrary: out)
  case (Cons p ps)
  from Cons.prems(1) obtain e where b: "build (s4676_builder time_at lm (fx (length out)) sp m k raw p) = Inr e"
      and r: "flush_points time_at lm fx sp m k raw ps (out @ [e]) = Inr es" by (auto split: sum.splits)
  from build_source [OF b] Cons.prems(2) show ?case by (intro Cons.IH [OF r]) (auto simp: s4676_builder_source)
qed simp

lemma s4676_walk_source:
  "s4676_walk time_at lm fx sp native err pos xs w out = Inr es \<Longrightarrow> \<forall>e \<in> set out. canonical_event e \<and> ev_source_id e = s7_source_id sp
   \<Longrightarrow> \<forall>e \<in> set es. canonical_event e \<and> ev_source_id e = s7_source_id sp"
proof (induction xs arbitrary: pos w out)
  case (Cons y xs)
  obtain x pos' where y: "y = (x, pos')" by force
  from Cons.prems(1) y obtain pos'' w' out' where r: "s4676_walk time_at lm fx sp native err pos'' xs w' out' = Inr es" and
      o: "out' = out \<or> (\<exists>m k raw ps. flush_points time_at lm fx sp m k raw ps out = Inr out')"
    by (fastforce simp: flush_track_def split: xml_event.splits if_splits sum.splits)
  from o have "\<forall>e \<in> set out'. canonical_event e \<and> ev_source_id e = s7_source_id sp"
    using flush_points_source Cons.prems(2) by blast
  then show ?case by (rule Cons.IH [OF r])
qed (auto split: option.splits)

interpretation s4676_frames: frame_parser "s4676_parse time_at lm xml" s7_source_id for time_at lm xml
proof
  fix fx frame sp sp' r
  assume "s4676_parse time_at lm xml fx frame sp = Some (sp', r)"
  then show "s7_source_id sp' = s7_source_id sp" by (auto simp: s4676_parse_def)
next
  fix fx frame sp sp' es e
  assume "s4676_parse time_at lm xml fx frame sp = Some (sp', Inr es)" "e \<in> set es"
  then show "canonical_event e \<and> ev_source_id e = s7_source_id sp"
    using s4676_walk_source [of time_at lm fx sp frame _ 0 _ s4676_start "[]" es] by (auto simp: s4676_parse_def s4676_to_events_def)
qed

section \<open>Documents\<close>

text \<open>A message in the order of the standard's schema: the label, the version, the times, then the tracks, each with its
  segments of points before the object.\<close>

record point_doc =
  pd_rel_time :: str
  pd_cs :: str
  pd_pos :: str
  pd_vel :: "str option"

record segment_doc =
  sd_status :: str
  sd_points :: "point_doc list"

record track_doc =
  td_uid :: str
  td_segments :: "segment_doc list"
  td_identity :: str
  td_environment :: str

record message_doc =
  md_policy :: str
  md_classification :: str
  md_version :: str
  md_base_time :: str
  md_increment :: str
  md_tracks :: "track_doc list"

definition leaf :: "str \<Rightarrow> str \<Rightarrow> xml_event list" where
  "leaf name t = [XStart name [], XText t, XEnd name]"

definition element :: "str \<Rightarrow> xml_event list \<Rightarrow> xml_event list" where
  "element name xs = [XStart name []] @ xs @ [XEnd name]"

definition point_xml :: "point_doc \<Rightarrow> xml_event list" where
  "point_xml d = element ''tp'' (leaf ''relTime'' (pd_rel_time d)
     @ [XStart ''dynamics'' [(''cs'', pd_cs d)]] @ leaf ''pos'' (pd_pos d) @ (case pd_vel d of Some v \<Rightarrow> leaf ''vel'' v | None \<Rightarrow> []) @ [XEnd ''dynamics''])"

definition segment_xml :: "segment_doc \<Rightarrow> xml_event list" where
  "segment_xml d = element ''segment'' (leaf ''status'' (sd_status d) @ concat (map point_xml (sd_points d)))"

definition track_xml :: "track_doc \<Rightarrow> xml_event list" where
  "track_xml d = element ''track'' (leaf ''uid'' (td_uid d) @ concat (map segment_xml (td_segments d))
     @ element ''object'' (element ''id1241'' (leaf ''identity'' (td_identity d) @ leaf ''environment'' (td_environment d))))"

definition message_xml :: "message_doc \<Rightarrow> xml_event list" where
  "message_xml d = element ''nitsRoot''
     (element ''originatorConfidentialityLabel'' (element ''ConfidentialityInformation''
        (leaf ''PolicyIdentifier'' (md_policy d) @ leaf ''Classification'' (md_classification d)))
      @ leaf ''nitsVersion'' (md_version d)
      @ element ''message'' (leaf ''baseTime'' (md_base_time d) @ leaf ''relTimeIncrement'' (md_increment d)
          @ concat (map track_xml (md_tracks d))))"

text \<open>What the message says.\<close>

definition said_point :: "str \<Rightarrow> point_doc \<Rightarrow> point_ctx" where
  "said_point status d = \<lparr>pt_rel_time = parse_sint (- 9223372036854775808) 9223372036854775807 (pd_rel_time d), pt_status = Some status,
     pt_cs = (if parse_floats (pd_pos d) = None then None else Some (pd_cs d)), pt_pos = parse_floats (pd_pos d),
     pt_vel = Option.bind (pd_vel d) parse_floats\<rparr>"

definition said_track :: "nat \<Rightarrow> track_doc \<Rightarrow> track_ctx" where
  "said_track start d = \<lparr>tk_uid = decode_uid (td_uid d), tk_identity = Some (td_identity d), tk_environment = Some (td_environment d),
     tk_object_class = None, tk_points = concat (map (\<lambda>s. map (said_point (sd_status s)) (sd_points s)) (td_segments d)), tk_start = start\<rparr>"

definition said_message :: "message_doc \<Rightarrow> message_ctx" where
  "said_message d = \<lparr>mg_base_time = Some (md_base_time d), mg_rel_increment = parse_f64 (md_increment d), mg_nits_version = Some (md_version d),
     mg_classification = Some (md_classification d), mg_policy_id = Some (md_policy d)\<rparr>"

text \<open>Texts that stand in the document as they are.\<close>

definition word_text :: "str \<Rightarrow> bool" where
  "word_text t \<longleftrightarrow> t \<noteq> [] \<and> trim t = t"

definition point_texts :: "point_doc \<Rightarrow> bool" where
  "point_texts d \<longleftrightarrow> word_text (pd_rel_time d) \<and> word_text (pd_pos d) \<and> (case pd_vel d of Some v \<Rightarrow> word_text v | None \<Rightarrow> True)"

definition segment_texts :: "segment_doc \<Rightarrow> bool" where
  "segment_texts d \<longleftrightarrow> word_text (sd_status d) \<and> list_all point_texts (sd_points d)"

definition track_texts :: "track_doc \<Rightarrow> bool" where
  "track_texts d \<longleftrightarrow> word_text (td_uid d) \<and> word_text (td_identity d) \<and> word_text (td_environment d) \<and> list_all segment_texts (td_segments d)"

definition message_texts :: "message_doc \<Rightarrow> bool" where
  "message_texts d \<longleftrightarrow> list_all word_text [md_policy d, md_classification d, md_version d, md_base_time d, md_increment d] \<and> list_all track_texts (md_tracks d)"

subsection \<open>The walk over a document\<close>

fun walk_step :: "xml_event \<Rightarrow> s4676_state \<Rightarrow> s4676_state" where
  "walk_step (XStart name as) w = on_start name as 0 w"
| "walk_step (XEnd name) w = on_end (local_name name) w"
| "walk_step (XText content) w = on_text content w"
| "walk_step _ w = w"

fun doc_tracks :: "xml_event list \<Rightarrow> s4676_state \<Rightarrow> (message_ctx \<times> track_ctx) list" where
  "doc_tracks [] w = []"
| "doc_tracks (x # xs) w =
     (case x of XEnd name \<Rightarrow> if local_name name = ''track'' then [(wk_msg w, wk_track w)] else [] | _ \<Rightarrow> []) @ doc_tracks xs (walk_step x w)"

text \<open>The positions matter for the bytes of a track only.\<close>

definition unplaced :: "track_ctx \<Rightarrow> track_ctx" where
  "unplaced k = k\<lparr>tk_start := 0\<rparr>"

definition unplaced_state :: "s4676_state \<Rightarrow> s4676_state" where
  "unplaced_state w = w\<lparr>wk_track := unplaced (wk_track w)\<rparr>"

lemma unplaced_steps:
  "unplaced_state (on_start name as pos w) = on_start name as 0 (unplaced_state w)"
  "unplaced_state (on_end elem w) = on_end elem (unplaced_state w)"
  "unplaced_state (on_text content w) = on_text content (unplaced_state w)"
  by (simp_all add: unplaced_state_def unplaced_def on_start_def on_end_def on_text_def route_text_def route_track_def no_track_def Let_def)

lemma closed_tracks_unplaced:
  "map (\<lambda>(m, k, raw). (m, unplaced k)) (closed_tracks native pos xs w) = doc_tracks (map fst xs) (unplaced_state w)"
proof (induction native pos xs w rule: closed_tracks.induct)
  case (2 native pos x pos' xs w)
  have "wk_msg (unplaced_state w) = wk_msg w" "wk_track (unplaced_state w) = unplaced (wk_track w)" by (simp_all add: unplaced_state_def)
  with 2 show ?case by (cases x) (simp_all add: unplaced_steps)
qed simp

lemma doc_tracks_append: "doc_tracks (xs @ ys) w = doc_tracks xs w @ doc_tracks ys (fold walk_step xs w)"
  by (induction xs arbitrary: w) simp_all

lemma local_names [simp]:
  "local_name ''nitsRoot'' = ''nitsRoot''" "local_name ''originatorConfidentialityLabel'' = ''originatorConfidentialityLabel''"
  "local_name ''ConfidentialityInformation'' = ''ConfidentialityInformation''" "local_name ''PolicyIdentifier'' = ''PolicyIdentifier''"
  "local_name ''Classification'' = ''Classification''" "local_name ''nitsVersion'' = ''nitsVersion''" "local_name ''message'' = ''message''"
  "local_name ''baseTime'' = ''baseTime''" "local_name ''relTimeIncrement'' = ''relTimeIncrement''" "local_name ''track'' = ''track''"
  "local_name ''uid'' = ''uid''" "local_name ''segment'' = ''segment''" "local_name ''status'' = ''status''" "local_name ''tp'' = ''tp''"
  "local_name ''relTime'' = ''relTime''" "local_name ''dynamics'' = ''dynamics''" "local_name ''pos'' = ''pos''" "local_name ''vel'' = ''vel''"
  "local_name ''object'' = ''object''" "local_name ''id1241'' = ''id1241''" "local_name ''identity'' = ''identity''"
  "local_name ''environment'' = ''environment''" "local_name ''cs'' = ''cs''"
  by code_simp+

definition plain_name :: "str \<Rightarrow> bool" where
  "plain_name n \<longleftrightarrow> n \<notin> {''track'', ''dynamics'', ''tp'', ''segment''}"

lemma walk_leaf:
  assumes "word_text t" "local_name n = n" "plain_name n" "wk_stack w = parent # ss"
  shows "fold walk_step (leaf n t) w = route_text parent n t w" "doc_tracks (leaf n t) w = []"
  using assms by (simp_all add: leaf_def on_start_def on_end_def on_text_def word_text_def plain_name_def route_text_def)

lemma walk_element:
  "plain_name n \<Longrightarrow> local_name n = n
   \<Longrightarrow> fold walk_step (element n xs) w
     = (let w' = fold walk_step xs (w\<lparr>wk_stack := n # wk_stack w\<rparr>) in w'\<lparr>wk_stack := tl (wk_stack w')\<rparr>)"
  "plain_name n \<Longrightarrow> local_name n = n \<Longrightarrow> doc_tracks (element n xs) w = doc_tracks xs (w\<lparr>wk_stack := n # wk_stack w\<rparr>)"
  by (simp_all add: element_def on_start_def on_end_def plain_name_def doc_tracks_append)

lemma route_stack [simp]: "wk_stack (route_text parent cur t w) = wk_stack w"
  by (simp add: route_text_def)

lemma walk_point:
  assumes "point_texts d" "wk_tp w = no_point" "wk_seg_status w = Some st" "wk_dynamics_cs w = None"
  shows "fold walk_step (point_xml d) w = w\<lparr>wk_track := (wk_track w)\<lparr>tk_points := tk_points (wk_track w) @ [said_point st d]\<rparr>\<rparr>"
    "doc_tracks (point_xml d) w = []"
  using assms
  by (auto simp: point_xml_def element_def leaf_def on_start_def on_end_def on_text_def point_texts_def word_text_def route_text_def
      route_message_def route_track_def route_point_def prefer_wgs_def said_point_def no_point_def split: option.splits)

text \<open>Between points, segments and tracks the walk is at rest.\<close>

definition at_rest :: "s4676_state \<Rightarrow> bool" where
  "at_rest w \<longleftrightarrow> wk_tp w = no_point \<and> wk_dynamics_cs w = None"

definition with_points :: "point_ctx list \<Rightarrow> s4676_state \<Rightarrow> s4676_state" where
  "with_points ps w = w\<lparr>wk_track := (wk_track w)\<lparr>tk_points := tk_points (wk_track w) @ ps\<rparr>\<rparr>"

lemma with_points_sel [simp]:
  "wk_tp (with_points ps w) = wk_tp w" "wk_dynamics_cs (with_points ps w) = wk_dynamics_cs w" "wk_seg_status (with_points ps w) = wk_seg_status w"
  "wk_stack (with_points ps w) = wk_stack w" "with_points [] w = w" "with_points qs (with_points ps w) = with_points (ps @ qs) w"
  by (simp_all add: with_points_def)

lemma walk_points:
  "list_all point_texts ds \<Longrightarrow> at_rest w \<Longrightarrow> wk_seg_status w = Some st
   \<Longrightarrow> fold walk_step (concat (map point_xml ds)) w = with_points (map (said_point st) ds) w \<and> doc_tracks (concat (map point_xml ds)) w = []"
proof (induction ds arbitrary: w)
  case (Cons d ds)
  then have "fold walk_step (point_xml d) w = with_points [said_point st d] w" "doc_tracks (point_xml d) w = []"
    using walk_point [of d w st] by (simp_all add: at_rest_def with_points_def)
  moreover have "at_rest (with_points [said_point st d] w)" using Cons.prems(2) by (simp add: at_rest_def)
  ultimately show ?case using Cons by (simp add: doc_tracks_append)
qed (simp add: with_points_def)

lemma segment_ends:
  "fold walk_step [XStart ''segment'' []] w = w\<lparr>wk_stack := ''segment'' # wk_stack w\<rparr>"
  "fold walk_step [XEnd ''segment''] w = w\<lparr>wk_seg_status := None, wk_stack := tl (wk_stack w)\<rparr>"
  "doc_tracks [XStart ''segment'' []] w = []" "doc_tracks [XEnd ''segment''] w = []"
  by (simp_all add: on_start_def on_end_def)

lemma route_segment: "route_text ''segment'' ''status'' t w = w\<lparr>wk_seg_status := Some t\<rparr>"
  by (simp add: route_text_def route_message_def route_track_def route_point_def)

lemma walk_segment:
  assumes "segment_texts d" "at_rest w" "wk_seg_status w = None"
  shows "fold walk_step (segment_xml d) w = with_points (map (said_point (sd_status d)) (sd_points d)) w" "doc_tracks (segment_xml d) w = []"
proof -
  let ?w1 = "w\<lparr>wk_stack := ''segment'' # wk_stack w, wk_seg_status := Some (sd_status d)\<rparr>"
  have l: "fold walk_step (leaf ''status'' (sd_status d)) (w\<lparr>wk_stack := ''segment'' # wk_stack w\<rparr>) = ?w1"
      "doc_tracks (leaf ''status'' (sd_status d)) (w\<lparr>wk_stack := ''segment'' # wk_stack w\<rparr>) = []"
    using assms(1) walk_leaf [of "sd_status d" "''status''" "w\<lparr>wk_stack := ''segment'' # wk_stack w\<rparr>" "''segment''" "wk_stack w"]
    by (simp_all add: segment_texts_def plain_name_def route_segment)
  have p: "fold walk_step (concat (map point_xml (sd_points d))) ?w1 = with_points (map (said_point (sd_status d)) (sd_points d)) ?w1"
      "doc_tracks (concat (map point_xml (sd_points d))) ?w1 = []"
    using walk_points [of "sd_points d" ?w1 "sd_status d"] assms by (simp_all add: segment_texts_def at_rest_def)
  have x: "segment_xml d = [XStart ''segment'' []] @ leaf ''status'' (sd_status d) @ concat (map point_xml (sd_points d)) @ [XEnd ''segment'']"
    by (simp add: segment_xml_def element_def)
  show "fold walk_step (segment_xml d) w = with_points (map (said_point (sd_status d)) (sd_points d)) w"
    using assms(3) unfolding x fold_append comp_apply segment_ends l p by (simp add: with_points_def)
  show "doc_tracks (segment_xml d) w = []"
    unfolding x doc_tracks_append segment_ends l p by simp
qed

lemma walk_segments:
  "list_all segment_texts ds \<Longrightarrow> at_rest w \<Longrightarrow> wk_seg_status w = None
   \<Longrightarrow> fold walk_step (concat (map segment_xml ds)) w = with_points (concat (map (\<lambda>s. map (said_point (sd_status s)) (sd_points s)) ds)) w
     \<and> doc_tracks (concat (map segment_xml ds)) w = []"
proof (induction ds arbitrary: w)
  case (Cons d ds)
  moreover have "at_rest (with_points ps w)" for ps using Cons.prems(2) by (simp add: at_rest_def)
  ultimately show ?case by (simp add: walk_segment doc_tracks_append)
qed (simp add: with_points_def)

lemma route_track_leaves:
  "route_text ''track'' ''uid'' t w = w\<lparr>wk_track := (wk_track w)\<lparr>tk_uid := decode_uid t\<rparr>\<rparr>"
  "route_text ''id1241'' ''identity'' t w = w\<lparr>wk_track := (wk_track w)\<lparr>tk_identity := Some t\<rparr>\<rparr>"
  "route_text ''id1241'' ''environment'' t w = w\<lparr>wk_track := (wk_track w)\<lparr>tk_environment := Some t\<rparr>\<rparr>"
  by (simp_all add: route_text_def route_message_def route_track_def route_point_def)

definition object_xml :: "track_doc \<Rightarrow> xml_event list" where
  "object_xml d = element ''object'' (element ''id1241'' (leaf ''identity'' (td_identity d) @ leaf ''environment'' (td_environment d)))"

lemma walk_object:
  assumes "track_texts d"
  shows "fold walk_step (object_xml d) w
      = w\<lparr>wk_track := (wk_track w)\<lparr>tk_identity := Some (td_identity d), tk_environment := Some (td_environment d)\<rparr>\<rparr>"
    "doc_tracks (object_xml d) w = []"
  using assms by (simp_all add: object_xml_def walk_element plain_name_def walk_leaf track_texts_def route_track_leaves doc_tracks_append Let_def)

lemma walk_track:
  assumes "track_texts d" "at_rest w" "wk_seg_status w = None"
  shows "fold walk_step (track_xml d) w = w\<lparr>wk_track := no_track\<rparr>" "doc_tracks (track_xml d) w = [(wk_msg w, said_track 0 d)]"
proof -
  let ?ps = "concat (map (\<lambda>s. map (said_point (sd_status s)) (sd_points s)) (td_segments d))"
  let ?w0 = "w\<lparr>wk_track := no_track, wk_stack := ''track'' # wk_stack w\<rparr>"
  let ?w1 = "?w0\<lparr>wk_track := no_track\<lparr>tk_uid := decode_uid (td_uid d)\<rparr>\<rparr>"
  have s: "fold walk_step [XStart ''track'' []] w = ?w0" "doc_tracks [XStart ''track'' []] w = []"
    by (simp_all add: on_start_def no_track_def)
  have l: "fold walk_step (leaf ''uid'' (td_uid d)) ?w0 = ?w1" "doc_tracks (leaf ''uid'' (td_uid d)) ?w0 = []"
    using assms(1) walk_leaf [of "td_uid d" "''uid''" ?w0 "''track''" "wk_stack w"] by (simp_all add: track_texts_def plain_name_def route_track_leaves)
  have g: "fold walk_step (concat (map segment_xml (td_segments d))) ?w1 = with_points ?ps ?w1"
      "doc_tracks (concat (map segment_xml (td_segments d))) ?w1 = []"
    using walk_segments [of "td_segments d" ?w1] assms by (simp_all add: track_texts_def at_rest_def)
  have x: "track_xml d = [XStart ''track'' []] @ leaf ''uid'' (td_uid d) @ concat (map segment_xml (td_segments d)) @ object_xml d @ [XEnd ''track'']"
    by (simp add: track_xml_def element_def object_xml_def)
  show "fold walk_step (track_xml d) w = w\<lparr>wk_track := no_track\<rparr>"
    unfolding x fold_append comp_apply s l g walk_object [OF assms(1)] by (simp add: on_end_def with_points_def)
  show "doc_tracks (track_xml d) w = [(wk_msg w, said_track 0 d)]"
    unfolding x doc_tracks_append s l g walk_object [OF assms(1)] by (simp add: with_points_def said_track_def no_track_def)
qed

lemma walk_tracks:
  "list_all track_texts ds \<Longrightarrow> at_rest w \<Longrightarrow> wk_seg_status w = None
   \<Longrightarrow> doc_tracks (concat (map track_xml ds)) w = map (\<lambda>d. (wk_msg w, said_track 0 d)) ds"
  by (induction ds arbitrary: w) (simp_all add: walk_track doc_tracks_append at_rest_def)

lemma route_message_leaves:
  "route_text ''nitsRoot'' ''nitsVersion'' t w = w\<lparr>wk_msg := (wk_msg w)\<lparr>mg_nits_version := Some t\<rparr>\<rparr>"
  "route_text ''message'' ''baseTime'' t w = w\<lparr>wk_msg := (wk_msg w)\<lparr>mg_base_time := Some t\<rparr>\<rparr>"
  "route_text ''message'' ''relTimeIncrement'' t w = w\<lparr>wk_msg := (wk_msg w)\<lparr>mg_rel_increment := parse_f64 t\<rparr>\<rparr>"
  "route_text ''ConfidentialityInformation'' ''Classification'' t w = w\<lparr>wk_msg := (wk_msg w)\<lparr>mg_classification := Some t\<rparr>\<rparr>"
  "route_text ''ConfidentialityInformation'' ''PolicyIdentifier'' t w = w\<lparr>wk_msg := (wk_msg w)\<lparr>mg_policy_id := Some t\<rparr>\<rparr>"
  by (simp_all add: route_text_def route_message_def route_track_def route_point_def)

lemma walk_message:
  assumes "message_texts d"
  shows "doc_tracks (message_xml d) s4676_start = map (\<lambda>t. (said_message d, said_track 0 t)) (md_tracks d)"
  using assms
  by (simp add: message_xml_def message_texts_def walk_element walk_leaf plain_name_def doc_tracks_append route_message_leaves Let_def
      walk_tracks at_rest_def s4676_start_def said_message_def)

section \<open>Properties\<close>

text \<open>C21. A message that is read to its end becomes one event for each point of its closed tracks, in their order, and fails as
  a whole exactly when a point has an invalid WGS-84 position. Each event is canonical, carries the bytes of its track, the position
  of its point, the tags of the label read so far and the hostility of the track's identity; without overrides, every attribute is in the ontology.\<close>

theorem s4676_published_iff:
  assumes "s4676_ready time_at fx sp" "xml native = (xs, None)"
  shows "if list_all (\<lambda>(m, k, raw, p). point_ok p) (message_points native xs)
    then \<exists>es. s4676_to_events time_at lm xml fx native sp = Inr es
           \<and> list_all2 (\<lambda>(n, q) e. event_of_point time_at (fx n) sp q e) (zip [0..<length (message_points native xs)] (message_points native xs)) es
    else \<exists>err. s4676_to_events time_at lm xml fx native sp = Inl (S4676Build err)"
  by (rule s4676_message [where xml = xml, OF assms])

definition doc_points :: "message_doc \<Rightarrow> (track_doc \<times> point_ctx) list" where
  "doc_points d = concat (map (\<lambda>t. map (\<lambda>p. (t, p)) (tk_points (said_track 0 t))) (md_tracks d))"

lemma message_points_doc:
  assumes "message_texts d" "map fst xs = message_xml d"
  shows "map (\<lambda>(m, k, raw, p). (m, unplaced k, p)) (message_points native xs) = map (\<lambda>(t, p). (said_message d, said_track 0 t, p)) (doc_points d)"
proof -
  have p: "map (\<lambda>(m, k, raw, p). (m, unplaced k, p)) (track_points q) = (\<lambda>(m, k). map (\<lambda>p. (m, k, p)) (tk_points k)) ((\<lambda>(m, k, raw). (m, unplaced k)) q)" for q
    by (cases q) (simp add: unplaced_def)
  have "unplaced_state s4676_start = s4676_start" by (simp add: unplaced_state_def unplaced_def s4676_start_def no_track_def)
  with closed_tracks_unplaced [of native 0 xs s4676_start] walk_message [OF assms(1)] assms(2)
  have "map (\<lambda>(m, k, raw). (m, unplaced k)) (closed_tracks native 0 xs s4676_start) = map (\<lambda>t. (said_message d, said_track 0 t)) (md_tracks d)"
    by simp
  then have "concat (map (\<lambda>(m, k). map (\<lambda>p. (m, k, p)) (tk_points k)) (map (\<lambda>(m, k, raw). (m, unplaced k)) (closed_tracks native 0 xs s4676_start)))
      = concat (map (\<lambda>t. map (\<lambda>p. (said_message d, said_track 0 t, p)) (tk_points (said_track 0 t))) (md_tracks d))"
    by (simp add: comp_def)
  then show ?thesis by (simp add: message_points_def doc_points_def map_concat comp_def p [abs_def])
qed

definition event_says :: "(str \<Rightarrow> f64 \<Rightarrow> str option) \<Rightarrow> s4676_parser \<Rightarrow> message_ctx \<times> track_ctx \<times> point_ctx \<Rightarrow> event \<Rightarrow> bool" where
  "event_says time_at sp = (\<lambda>(m, k, p) e. canonical_event e \<and> ev_location e = point_location p \<and> ev_policy_tags e = s4676_tags m
     \<and> (\<forall>ts. point_time time_at (mg_base_time m) (mg_rel_increment m) (pt_rel_time p) = Some ts \<longrightarrow> ev_timestamp e = ts)
     \<and> ev_entity_type e = s4676_entity (s7_overrides sp) (tk_environment k)
     \<and> \<lparr>a_key = ''hostility'', a_value = s4676_hostility (s7_enrichment sp) (tk_identity k)\<rparr> \<in> set (ev_attributes e))"

text \<open>C20. A message in the order of the schema, whose positions are valid, becomes one event for each of its points, in their order: with the
  position of the point, the time its offset gives on the message's base time, the tags of the label, and the hostility and the
  entity type of the object that follows the points of its track.\<close>

theorem s4676_document:
  assumes "s4676_ready time_at fx sp" "xml native = (xs, None)" "map fst xs = message_xml d" "message_texts d"
    "list_all (\<lambda>(t, p). point_ok p) (doc_points d)"
  shows "\<exists>es. s4676_to_events time_at lm xml fx native sp = Inr es
    \<and> list_all2 (\<lambda>(t, p) e. event_says time_at sp (said_message d, said_track 0 t, p) e) (doc_points d) es"
proof -
  let ?mp = "message_points native xs" and ?strip = "\<lambda>(m, k, raw, p). (m, unplaced k, p)"
  note doc = message_points_doc [OF assms(4,3), of native]
  have "list_all (\<lambda>(m, k, p). point_ok p) (map ?strip ?mp)"
    unfolding doc using assms(5) by (simp add: list_all_iff split_beta)
  then have "list_all (\<lambda>(m, k, raw, p). point_ok p) ?mp" by (simp add: list_all_iff split_beta)
  with s4676_message [where xml = xml, OF assms(1,2), of lm] obtain es where es: "s4676_to_events time_at lm xml fx native sp = Inr es"
      "list_all2 (\<lambda>(n, q) e. event_of_point time_at (fx n) sp q e) (zip [0..<length ?mp] ?mp) es" by auto
  have says: "event_says time_at sp (?strip q) e" if "event_of_point time_at (fx n) sp q e" for n q e
    using that by (auto simp: event_of_point_def event_says_def unplaced_def point_stamp_def split: prod.splits)
  from es(2) have "list_all2 (event_says time_at sp) (map ?strip ?mp) es"
    by (auto simp: list_all2_conv_all_nth intro!: says)
  then show ?thesis unfolding doc using es(1) by (auto simp: list_all2_conv_all_nth split_beta)
qed

lemma hex2_inject: "hex2 a = hex2 b \<longleftrightarrow> a = b"
proof
  assume h: "hex2 a = hex2 b"
  have d: "0 \<le> uint x div 16 \<and> uint x div 16 < 36 \<and> 0 \<le> uint x mod 16 \<and> uint x mod 16 < 36" for x :: u8
  proof -
    have "n div 16 < 36 \<and> n mod 16 < 36 \<and> 0 \<le> n div 16 \<and> 0 \<le> n mod 16" if "0 \<le> n" "n < 256" for n :: int using that by presburger
    then show ?thesis using uint_lt2p [of x] uint_ge_0 [of x] by simp
  qed
  from h have "to_digit 36 (digit_char (uint a div 16)) = to_digit 36 (digit_char (uint b div 16))"
      "to_digit 36 (digit_char (uint a mod 16)) = to_digit 36 (digit_char (uint b mod 16))" by (simp_all add: hex2_def)
  then have "uint a div 16 = uint b div 16" "uint a mod 16 = uint b mod 16"
    using d [of a] d [of b] by (simp_all add: to_digit_digit_char)
  then have "uint a = uint b" by (metis div_mult_mod_eq)
  then show "a = b" by (rule word_uint_eqI)
qed simp

lemma hex_inject: "length xs = length ys \<Longrightarrow> concat (map hex2 xs) = concat (map hex2 ys) \<longleftrightarrow> xs = ys"
proof (induction xs ys rule: list_induct2)
  case (Cons x xs y ys)
  have "hex2 x @ r = hex2 y @ r' \<longleftrightarrow> hex2 x = hex2 y \<and> r = r'" for r r' by (simp add: hex2_def)
  with Cons show ?case by (simp add: hex2_inject)
qed simp

lemma hex_length: "length (concat (map hex2 xs)) = 2 * length xs"
  by (induction xs) (simp_all add: hex2_def)

lemma uuid_text_inject:
  assumes "length bs = 16" "length cs = 16"
  shows "uuid_text bs = uuid_text cs \<longleftrightarrow> bs = cs"
proof
  let ?parts = "\<lambda>b. take 4 b @ take 2 (drop 4 b) @ take 2 (drop 6 b) @ take 2 (drop 8 b) @ take 6 (drop 10 b)"
  assume "uuid_text bs = uuid_text cs"
  with assms have "take 4 bs = take 4 cs \<and> take 2 (drop 4 bs) = take 2 (drop 4 cs) \<and> take 2 (drop 6 bs) = take 2 (drop 6 cs)
      \<and> take 2 (drop 8 bs) = take 2 (drop 8 cs) \<and> take 6 (drop 10 bs) = take 6 (drop 10 cs)"
    by (simp add: uuid_text_def append_eq_append_conv hex_length hex_inject)
  then have "?parts bs = ?parts cs" by simp
  moreover have "?parts b = b" if "length b = 16" for b :: bytes
  proof -
    have s: "take i (drop j b) @ drop (i + j) b = drop j b" for i j by (metis append_take_drop_id drop_drop)
    have "take 6 (drop 10 b) = drop 10 b" using that by simp
    then show ?thesis using s [of 2 8] s [of 2 6] s [of 2 4] by simp
  qed
  ultimately show "bs = cs" using assms by metis
qed simp

text \<open>A track's identifier in Base64, with white space or padding anywhere, is read as the UUID of its sixteen bytes, and
  two identifiers that differ stay different.\<close>

theorem s4676_uid_roundtrip:
  assumes "length bs = 16" "length cs = 16" "filter is_symbol s = filter is_symbol (base64_encode bs)"
    "filter is_symbol t = filter is_symbol (base64_encode cs)"
  shows "decode_uid s = Some (uuid_text bs) \<and> (decode_uid s = decode_uid t \<longleftrightarrow> bs = cs)"
  using base64_decode_spaced [OF assms(3)] base64_decode_spaced [OF assms(4)] assms(1,2) by (simp add: decode_uid_def uuid_text_inject)

text \<open>A label that follows the track in the document does not mark its events.\<close>

lemma label_after_track:
  "doc_tracks ([XStart ''nitsRoot'' []] @ track_xml d
     @ element ''ConfidentialityInformation'' (leaf ''Classification'' cls) @ [XEnd ''nitsRoot'']) s4676_start
   = [(wk_msg s4676_start, said_track 0 d)] \<and> s4676_tags (wk_msg s4676_start) = []" if "track_texts d" "word_text cls"
proof -
  have r: "at_rest (s4676_start\<lparr>wk_stack := [''nitsRoot'']\<rparr>)" "wk_seg_status (s4676_start\<lparr>wk_stack := [''nitsRoot'']\<rparr>) = None"
    by (simp_all add: at_rest_def s4676_start_def)
  have "fold walk_step [XStart ''nitsRoot'' []] s4676_start = s4676_start\<lparr>wk_stack := [''nitsRoot'']\<rparr>" "doc_tracks [XStart ''nitsRoot'' []] s4676_start = []"
    by (simp_all add: on_start_def s4676_start_def)
  then show ?thesis
    unfolding doc_tracks_append using that walk_track [OF that(1) r]
    by (simp add: walk_element plain_name_def walk_leaf s4676_tags_def s4676_start_def)
qed

text \<open>A point given first in another coordinate system and then in WGS-84 keeps the velocity of the first with the position of
  the second, since the position has already turned the point's system into WGS-84 when the second velocity comes.\<close>

lemma velocity_of_the_other_system:
  assumes "parse_floats p1 = Some x1" "parse_floats v1 = Some y1" "parse_floats p2 = Some x2" "parse_floats v2 = Some y2" "cs \<noteq> ''WGS_84''"
  shows "fold (\<lambda>(c, e, t). route_point ''dynamics'' e t (Some c))
      [(cs, ''pos'', p1), (cs, ''vel'', v1), (''WGS_84'', ''pos'', p2), (''WGS_84'', ''vel'', v2)] no_point
    = no_point\<lparr>pt_cs := Some ''WGS_84'', pt_pos := Some x2, pt_vel := Some y1\<rparr>"
  using assms by (simp add: route_point_def prefer_wgs_def no_point_def)

section \<open>Examples\<close>

definition ex_nits :: message_doc where
  "ex_nits = \<lparr>md_policy = ''TEST'', md_classification = ''NATO UNCLASSIFIED'', md_version = ''B.1'', md_base_time = ''2026-08-06T12:00:00Z'',
     md_increment = ''0.001'', md_tracks = [\<lparr>td_uid = ''DFjLwA22RXiKSAWh2eBOGQ=='',
       td_segments = [\<lparr>sd_status = ''MAINTAINING'', sd_points =
         [\<lparr>pd_rel_time = ''0'', pd_cs = ''WGS_84'', pd_pos = ''26 50'', pd_vel = None\<rparr>,
          \<lparr>pd_rel_time = ''1000'', pd_cs = ''ECEF'', pd_pos = ''7'', pd_vel = None\<rparr>]\<rparr>],
       td_identity = ''FRIEND'', td_environment = ''AIR''\<rparr>]\<rparr>"

definition ex_s4676_xml :: "bytes \<Rightarrow> xml_stream" where
  "ex_s4676_xml bs = (map (\<lambda>x. (x, 0)) (message_xml ex_nits), None)"

definition ex_s4676 :: s4676_parser where
  "ex_s4676 = \<lparr>s7_source_id = ''isr-1'', s7_overrides = Map.empty, s7_enrichment = \<lparr>hostility = None\<rparr>\<rparr>"

definition s4676_effects :: "nat \<Rightarrow> effects" where
  "s4676_effects n = \<lparr>instant = 0, wall_clock = ''2026-08-06T12:00:05Z'', uuid = ''0192f1f4''\<rparr>"

definition s4676_libm :: libm where
  "s4676_libm = \<lparr>m_sin = (\<lambda>x. x), m_cos = (\<lambda>x. x), m_asin = (\<lambda>x. x), m_atan2 = (\<lambda>y x. y), m_hypot = (\<lambda>x y. x)\<rparr>"

definition ex_time_at :: "str \<Rightarrow> f64 \<Rightarrow> str option" where
  "ex_time_at b s = (if is_rfc3339 b then Some b else None)"

lemma ex_s4676_ready: "s4676_ready ex_time_at s4676_effects ex_s4676"
proof -
  have "is_rfc3339 ''2026-08-06T12:00:05Z''" by code_simp
  then show ?thesis by (simp add: s4676_ready_def ex_s4676_def s4676_effects_def ex_time_at_def)
qed

lemma ex_nits_texts: "message_texts ex_nits"
  by code_simp

lemma doc_points_ok:
  "list_all (\<lambda>(t, p). point_ok p) (doc_points d)
     \<longleftrightarrow> list_all (\<lambda>t. list_all (\<lambda>s. list_all (\<lambda>p. point_ok (said_point (sd_status s) p)) (sd_points s)) (td_segments t)) (md_tracks d)"
  by (auto simp: doc_points_def said_track_def list_all_iff)

lemma ex_points: "list_all (\<lambda>t. list_all (\<lambda>s. list_all (\<lambda>p. point_ok (said_point (sd_status s) p)) (sd_points s)) (td_segments t)) (md_tracks ex_nits)"
  by code_simp

lemma ex_nits_points: "list_all (\<lambda>(t, p). point_ok p) (doc_points ex_nits)" "length (doc_points ex_nits) = 2"
  using ex_points by (simp add: doc_points_ok, simp add: doc_points_def said_track_def ex_nits_def)

lemma ex_s4676_stream: "ex_s4676_xml [] = (fst (ex_s4676_xml []), None)" "map fst (fst (ex_s4676_xml [])) = message_xml ex_nits"
  by (simp_all add: ex_s4676_xml_def comp_def)

theorem s4676_published_iff_witness:
  "\<exists>es. s4676_to_events ex_time_at s4676_libm ex_s4676_xml s4676_effects [] ex_s4676 = Inr es \<and> length es = 2"
proof -
  let ?mp = "message_points [] (fst (ex_s4676_xml []))"
  note doc = message_points_doc [OF ex_nits_texts ex_s4676_stream(2), of "[]"]
  have "list_all (\<lambda>(m, k, p). point_ok p) (map (\<lambda>(m, k, raw, p). (m, unplaced k, p)) ?mp)"
    unfolding doc using ex_nits_points(1) by (simp add: list_all_iff split_beta)
  then have "list_all (\<lambda>(m, k, raw, p). point_ok p) ?mp" by (simp add: list_all_iff split_beta)
  moreover have "length ?mp = 2" using arg_cong [OF doc, of length] ex_nits_points(2) by simp
  ultimately show ?thesis
    using s4676_published_iff [where xml = ex_s4676_xml, OF ex_s4676_ready ex_s4676_stream(1), of s4676_libm] by (auto dest!: list_all2_lengthD)
qed

theorem s4676_document_witness:
  "\<exists>es. s4676_to_events ex_time_at s4676_libm ex_s4676_xml s4676_effects [] ex_s4676 = Inr es
     \<and> (\<forall>e \<in> set es. ev_policy_tags e = [''class:unclassified'', ''policy:TEST''])"
proof -
  have t: "s4676_tags (said_message ex_nits) = [''class:unclassified'', ''policy:TEST'']" by code_simp
  from s4676_document [where xml = ex_s4676_xml, OF ex_s4676_ready ex_s4676_stream ex_nits_texts ex_nits_points(1), of s4676_libm]
  obtain es where es: "s4676_to_events ex_time_at s4676_libm ex_s4676_xml s4676_effects [] ex_s4676 = Inr es"
      "list_all2 (\<lambda>(t, p) e. event_says ex_time_at ex_s4676 (said_message ex_nits, said_track 0 t, p) e) (doc_points ex_nits) es" by auto
  then have "ev_policy_tags e = [''class:unclassified'', ''policy:TEST'']" if "e \<in> set es" for e
    using that t by (auto simp: list_all2_conv_all_nth in_set_conv_nth event_says_def split_beta)
  with es(1) show ?thesis by auto
qed

theorem s4676_uid_roundtrip_witness:
  "decode_uid '' DFjLwA22RXiKSAWh2eBOGQ '' = Some ''0c58cbc0-0db6-4578-8a48-05a1d9e04e19''"
proof -
  let ?bs = "[0x0c, 0x58, 0xcb, 0xc0, 0x0d, 0xb6, 0x45, 0x78, 0x8a, 0x48, 0x05, 0xa1, 0xd9, 0xe0, 0x4e, 0x19] :: bytes"
  have s: "filter is_symbol '' DFjLwA22RXiKSAWh2eBOGQ '' = filter is_symbol (base64_encode ?bs)" by code_simp
  have "length ?bs = 16" "uuid_text ?bs = ''0c58cbc0-0db6-4578-8a48-05a1d9e04e19''" by code_simp+
  with s4676_uid_roundtrip [of ?bs ?bs, OF _ _ s s] show ?thesis by simp
qed

end
