(* ===== verification/Sapient_Wire.thy ===== *)
theory Sapient_Wire
  imports Stream_Framing Connector
begin

text \<open>
  The wire format of the SAPIENT connectors, \<open>sapient-wire/src/lib.rs\<close>: the framing by a length of four bytes, and the messages
  of the schema under \<open>proto/\<close>, as records of the fields that the connectors read. An enumerated field is the number on the wire;
  the tables give the numbers the schema defines with their names, which is what the generated \<open>try_from\<close> and
  \<open>as_str_name\<close> look up. The codec that \<open>prost\<close> generates is a pair of parameters, \<open>decode\<close> and \<open>encode\<close>.
\<close>

section \<open>Framing\<close>

definition PREFIX_LEN :: nat where "PREFIX_LEN = 4"

definition MAX_MESSAGE_LEN :: nat where "MAX_MESSAGE_LEN = 65536"

datatype frame_error = NeedPrefix | TooLong nat | Incomplete nat nat

datatype sapient_read_error = ReadTooLong nat | ReadClosed | ReadIo

definition sapient_frame :: "bytes \<Rightarrow> bytes" where
  "sapient_frame payload = rev (u32_to_be (of_nat (length payload))) @ payload"

definition unframe :: "bytes \<Rightarrow> frame_error + bytes \<times> bytes" where
  "unframe bs =
     (if length bs < PREFIX_LEN then Inl NeedPrefix
      else let declared = unat (u32_from_le (bs ! 0) (bs ! 1) (bs ! 2) (bs ! 3));
               present = length bs - PREFIX_LEN
           in if MAX_MESSAGE_LEN < declared then Inl (TooLong declared)
              else if present < declared then Inl (Incomplete declared present)
              else Inr (take declared (drop PREFIX_LEN bs), drop declared (drop PREFIX_LEN bs)))"

text \<open>What the reads of the connection give: bytes, none at its end, or a failure. Reading waits at the end of the list.\<close>

datatype sapient_read = SRead bytes | SReadFail

fun sapient_read_frame :: "bytes \<Rightarrow> sapient_read list \<Rightarrow> ((sapient_read_error + bytes) \<times> bytes \<times> sapient_read list) option" where
  "sapient_read_frame held rs =
     (case unframe held of
        Inr (payload, _) \<Rightarrow> Some (Inr payload, drop (PREFIX_LEN + length payload) held, rs)
      | Inl (TooLong n) \<Rightarrow> Some (Inl (ReadTooLong n), held, rs)
      | Inl _ \<Rightarrow>
          (case rs of
             [] \<Rightarrow> None
           | SReadFail # rs' \<Rightarrow> Some (Inl ReadIo, held, rs')
           | SRead c # rs' \<Rightarrow> if c = [] then Some (Inl ReadClosed, held, rs') else sapient_read_frame (held @ c) rs'))"

declare sapient_read_frame.simps [simp del]

section \<open>Messages\<close>

type_synonym proto_enum = "(int \<times> str) list"

text \<open>\<open>try_from\<close> and \<open>as_str_name\<close>.\<close>

definition enum_str :: "proto_enum \<Rightarrow> int \<Rightarrow> str option" where
  "enum_str table n = map_of table n"

definition LOCATION_SYSTEMS :: proto_enum where
  "LOCATION_SYSTEMS = [(0, ''LOCATION_COORDINATE_SYSTEM_UNSPECIFIED''), (1, ''LOCATION_COORDINATE_SYSTEM_LAT_LNG_DEG_M''),
     (2, ''LOCATION_COORDINATE_SYSTEM_LAT_LNG_RAD_M''), (5, ''LOCATION_COORDINATE_SYSTEM_UTM_M'')]"

definition POWER_SOURCES :: proto_enum where
  "POWER_SOURCES = [(0, ''POWERSOURCE_UNSPECIFIED''), (1, ''POWERSOURCE_OTHER''), (2, ''POWERSOURCE_MAINS''),
     (3, ''POWERSOURCE_INTERNAL_BATTERY''), (4, ''POWERSOURCE_EXTERNAL_BATTERY''), (5, ''POWERSOURCE_GENERATOR''),
     (6, ''POWERSOURCE_SOLAR_PV''), (7, ''POWERSOURCE_WIND_TURBINE''), (8, ''POWERSOURCE_FUEL_CELL'')]"

definition POWER_STATUSES :: proto_enum where
  "POWER_STATUSES = [(0, ''POWERSTATUS_UNSPECIFIED''), (1, ''POWERSTATUS_OK''), (2, ''POWERSTATUS_FAULT'')]"

definition STATUS_TYPES :: proto_enum where
  "STATUS_TYPES = [(0, ''STATUS_TYPE_UNSPECIFIED''), (1, ''STATUS_TYPE_INTERNAL_FAULT''), (2, ''STATUS_TYPE_EXTERNAL_FAULT''),
     (3, ''STATUS_TYPE_ILLUMINATION''), (4, ''STATUS_TYPE_WEATHER''), (5, ''STATUS_TYPE_CLUTTER''), (6, ''STATUS_TYPE_EXPOSURE''),
     (7, ''STATUS_TYPE_MOTION_SENSITIVITY''), (8, ''STATUS_TYPE_PTZ_STATUS''), (9, ''STATUS_TYPE_PD''), (10, ''STATUS_TYPE_FAR''),
     (11, ''STATUS_TYPE_NOT_DETECTING''), (12, ''STATUS_TYPE_PLATFORM''), (13, ''STATUS_TYPE_OTHER'')]"

definition STATUS_LEVELS :: proto_enum where
  "STATUS_LEVELS = [(0, ''STATUS_LEVEL_UNSPECIFIED''), (2, ''STATUS_LEVEL_INFORMATION_STATUS''), (3, ''STATUS_LEVEL_WARNING_STATUS''),
     (4, ''STATUS_LEVEL_ERROR_STATUS'')]"

definition NODE_TYPES :: proto_enum where
  "NODE_TYPES = [(0, ''NODE_TYPE_UNSPECIFIED''), (1, ''NODE_TYPE_OTHER''), (2, ''NODE_TYPE_RADAR''), (3, ''NODE_TYPE_LIDAR''),
     (4, ''NODE_TYPE_CAMERA''), (5, ''NODE_TYPE_SEISMIC''), (6, ''NODE_TYPE_ACOUSTIC''), (7, ''NODE_TYPE_PROXIMITY_SENSOR''),
     (8, ''NODE_TYPE_PASSIVE_RF''), (9, ''NODE_TYPE_HUMAN''), (10, ''NODE_TYPE_CHEMICAL''), (11, ''NODE_TYPE_BIOLOGICAL''),
     (12, ''NODE_TYPE_RADIATION''), (13, ''NODE_TYPE_KINETIC''), (14, ''NODE_TYPE_JAMMER''), (15, ''NODE_TYPE_CYBER''),
     (16, ''NODE_TYPE_LDEW''), (17, ''NODE_TYPE_RFDEW''), (18, ''NODE_TYPE_MOBILE_NODE''), (19, ''NODE_TYPE_POINTABLE_NODE''),
     (20, ''NODE_TYPE_FUSION_NODE'')]"

definition ALERT_TYPES :: proto_enum where
  "ALERT_TYPES = [(0, ''ALERT_TYPE_UNSPECIFIED''), (1, ''ALERT_TYPE_INFORMATION''), (2, ''ALERT_TYPE_WARNING''), (3, ''ALERT_TYPE_CRITICAL''),
     (4, ''ALERT_TYPE_ERROR''), (5, ''ALERT_TYPE_FATAL''), (6, ''ALERT_TYPE_MODE_CHANGE'')]"

definition ALERT_STATUSES :: proto_enum where
  "ALERT_STATUSES = [(0, ''ALERT_STATUS_UNSPECIFIED''), (1, ''ALERT_STATUS_ACTIVE''), (2, ''ALERT_STATUS_ACKNOWLEDGE''),
     (3, ''ALERT_STATUS_REJECT''), (4, ''ALERT_STATUS_IGNORE''), (5, ''ALERT_STATUS_CLEAR'')]"

definition PRIORITIES :: proto_enum where
  "PRIORITIES = [(0, ''DISCRETE_PRIORITY_UNSPECIFIED''), (1, ''DISCRETE_PRIORITY_LOW''), (2, ''DISCRETE_PRIORITY_MEDIUM''),
     (3, ''DISCRETE_PRIORITY_HIGH'')]"

record sap_location =
  lo_x :: "f64 option"
  lo_y :: "f64 option"
  lo_z :: "f64 option"
  lo_x_error :: "f64 option"
  lo_y_error :: "f64 option"
  lo_coordinate_system :: "int option"
  lo_datum :: "int option"
  lo_utm_zone :: "str option"

record range_bearing =
  rb_elevation :: "f64 option"
  rb_azimuth :: "f64 option"
  rb_range :: "f64 option"
  rb_range_error :: "f64 option"
  rb_coordinate_system :: "int option"
  rb_datum :: "int option"

datatype location_oneof = AtLocation sap_location | AtRangeBearing range_bearing

record enu_velocity =
  ve_east :: "f64 option"
  ve_north :: "f64 option"
  ve_up :: "f64 option"

record sap_info =
  in_type :: "str option"
  in_value :: "str option"

record sap_class =
  cl_type :: "str option"
  cl_confidence :: "f64 option"

record sap_signal =
  sg_amplitude :: "f64 option"
  sg_centre_frequency :: "f64 option"

record detection_report =
  dr_report_id :: "str option"
  dr_object_id :: "str option"
  dr_task_id :: "str option"
  dr_state :: "str option"
  dr_location :: "location_oneof option"
  dr_confidence :: "f64 option"
  dr_track_info :: "sap_info list"
  dr_object_info :: "sap_info list"
  dr_classification :: "sap_class list"
  dr_behaviour :: "str option list"
  dr_file_urls :: "str option list"
  dr_signal :: "sap_signal list"
  dr_velocity :: "enu_velocity option"
  dr_colour :: "str option"
  dr_native_id :: "str option"

record sap_power =
  pw_level :: "int option"
  pw_source :: int
  pw_status :: int

record sap_status =
  ss_level :: "int option"
  ss_value :: "str option"
  ss_type :: "int option"

record status_report =
  sr_report_id :: "str option"
  sr_system :: "int option"
  sr_info :: "int option"
  sr_active_task_id :: "str option"
  sr_mode :: "str option"
  sr_power :: "sap_power option"
  sr_node_location :: "sap_location option"
  sr_status :: "sap_status list"

record node_definition =
  nd_type :: "int option"
  nd_sub_type :: "str list"

record capability =
  cp_category :: "str option"
  cp_type :: "str option"
  cp_value :: "str option"
  cp_units :: "str option"

record sap_duration =
  du_units :: "int option"
  du_value :: "f64 option"

record config_data =
  cd_manufacturer :: str
  cd_model :: str
  cd_serial_number :: "str option"
  cd_software_version :: "str option"

text \<open>A location type gives the units and the datum of a location; a velocity type gives the units of the east and north rates and of the
  up rate.\<close>

record sap_location_type =
  lt_units :: "int option"
  lt_datum :: "int option"
  lt_zone :: "str option"

record sap_velocity_type =
  vt_units :: "(int option \<times> int option) option"
  vt_datum :: "int option"
  vt_zone :: "str option"

record sap_report_definition =
  rd_category :: "int option"
  rd_type :: "str option"
  rd_units :: "str option"
  rd_on_change :: "bool option"

record sap_detection_definition =
  dd_location_type :: "sap_location_type option"
  dd_velocity_type :: "sap_velocity_type option"
  dd_detection_report :: "sap_report_definition list"
  dd_confidence_definition :: "int option list"

record sap_task_definition =
  td_concurrent_tasks :: "int option"
  td_region_type :: "int list"
  td_region_area :: "sap_location_type list"

record sap_mode_definition =
  md_name :: "str option"
  md_type :: "int option"
  md_description :: "str option"
  md_settle_time :: "sap_duration option"
  md_detection_definition :: "sap_detection_definition list"
  md_task :: "sap_task_definition option"

record registration =
  rg_node_definition :: "node_definition list"
  rg_icd_version :: "str option"
  rg_name :: "str option"
  rg_short_name :: "str option"
  rg_capabilities :: "capability list"
  rg_status_interval :: "sap_duration option"
  rg_location_definition :: "sap_location_type option"
  rg_mode_definition :: "sap_mode_definition list"
  rg_config_data :: "config_data list"

record sap_alert =
  al_alert_id :: "str option"
  al_type :: "int option"
  al_status :: "int option"
  al_description :: "str option"
  al_location :: "location_oneof option"
  al_region_id :: "str option"
  al_priority :: "int option"
  al_ranking :: "f64 option"
  al_confidence :: "f64 option"

datatype sap_content =
    CRegistration registration
  | CRegistrationAck "bool option" "str list"
  | CStatusReport status_report
  | CDetectionReport detection_report
  | CTask "str option"
  | CTaskAck "str option" "int option" "str list"
  | CAlert sap_alert
  | CAlertAck
  | CError

record sap_timestamp =
  st_seconds :: int
  st_nanos :: int

record sapient_message =
  sm_timestamp :: "sap_timestamp option"
  sm_node_id :: "str option"
  sm_destination_id :: "str option"
  sm_content :: "sap_content option"

text \<open>\<open>rfc3339\<close>; the parameter formats nanoseconds since the epoch, or nothing outside the range of the \<open>time\<close> crate.\<close>

definition sapient_rfc3339 :: "(int \<Rightarrow> str option) \<Rightarrow> sap_timestamp \<Rightarrow> str option" where
  "sapient_rfc3339 fmt ts = fmt (st_seconds ts * 1000000000 + st_nanos ts)"

section \<open>The acceptor\<close>

text \<open>\<open>connection_loop\<close> of \<open>sapient/src/dmm.rs\<close>: what a connection writes and forwards, in order, and how it ends. The \<open>n\<close>-th
  acknowledgement is written when \<open>writes n\<close>, at the time \<open>clock n\<close>, and the \<open>n\<close>-th payload is taken by the channel when \<open>sends n\<close>.\<close>

datatype dmm_end = Disconnected | AboveBound | ReadFailed | AckFailed | ReceiverGone | Waiting

record dmm_run =
  dm_written :: "bytes list"
  dm_forwarded :: "bytes list"
  dm_registrations :: nat
  dm_bad_framing :: nat

definition dmm_start :: dmm_run where
  "dmm_start = \<lparr>dm_written = [], dm_forwarded = [], dm_registrations = 0, dm_bad_framing = 0\<rparr>"

record sapient_codec =
  sapient_decode :: "bytes \<Rightarrow> sapient_message option"
  sapient_encode :: "sapient_message \<Rightarrow> bytes"

definition registration_ack :: "sapient_codec \<Rightarrow> sap_timestamp \<Rightarrow> bytes \<Rightarrow> str \<Rightarrow> bytes option" where
  "registration_ack codec now payload node_id =
     (case sapient_decode codec payload of
        None \<Rightarrow> None
      | Some m \<Rightarrow>
          (case sm_content m of
             Some (CRegistration _) \<Rightarrow>
               Some (sapient_frame (sapient_encode codec
                 \<lparr>sm_timestamp = Some now, sm_node_id = Some node_id, sm_destination_id = sm_node_id m, sm_content = Some (CRegistrationAck (Some True) [])\<rparr>))
           | _ \<Rightarrow> None))"

record dmm_world =
  dw_codec :: sapient_codec
  dw_node_id :: str
  dw_clock :: "nat \<Rightarrow> sap_timestamp"
  dw_writes :: "nat \<Rightarrow> bool"
  dw_sends :: "nat \<Rightarrow> bool"

text \<open>One payload: the acknowledgement, then the channel.\<close>

definition dmm_payload :: "dmm_world \<Rightarrow> bytes \<Rightarrow> dmm_run \<Rightarrow> dmm_run \<times> dmm_end option" where
  "dmm_payload dw payload r =
     (let k = length (dm_written r);
          send = (\<lambda>r. (r\<lparr>dm_forwarded := dm_forwarded r @ (if dw_sends dw (length (dm_forwarded r)) then [payload] else [])\<rparr>,
                       if dw_sends dw (length (dm_forwarded r)) then None else Some ReceiverGone))
      in case registration_ack (dw_codec dw) (dw_clock dw k) payload (dw_node_id dw) of
           None \<Rightarrow> send r
         | Some ack \<Rightarrow>
             if dw_writes dw k then send (r\<lparr>dm_written := dm_written r @ [ack], dm_registrations := dm_registrations r + 1\<rparr>)
             else (r, Some AckFailed))"

lemma unframe_Inr:
  assumes "unframe bs = Inr (p, rest)"
  shows "bs = take PREFIX_LEN bs @ p @ rest" "PREFIX_LEN \<le> length bs" "length p \<le> MAX_MESSAGE_LEN"
proof -
  let ?n = "unat (u32_from_le (bs ! 0) (bs ! 1) (bs ! 2) (bs ! 3))"
  from assms have d: "PREFIX_LEN \<le> length bs" "?n \<le> MAX_MESSAGE_LEN" "?n \<le> length bs - PREFIX_LEN"
      "p = take ?n (drop PREFIX_LEN bs)" "rest = drop ?n (drop PREFIX_LEN bs)"
    by (auto simp: unframe_def Let_def not_less split: if_splits)
  then show "PREFIX_LEN \<le> length bs" "length p \<le> MAX_MESSAGE_LEN" by simp_all
  show "bs = take PREFIX_LEN bs @ p @ rest" unfolding d(4,5) append_take_drop_id ..
qed

definition reads_left :: "bytes \<Rightarrow> sapient_read list \<Rightarrow> nat" where
  "reads_left held rs = length held + sum_list (map (\<lambda>r. case r of SRead c \<Rightarrow> length c | SReadFail \<Rightarrow> 0) rs)"

lemma sapient_read_frame_left:
  "sapient_read_frame held rs = Some (Inr p, held', rs') \<Longrightarrow> reads_left held' rs' < reads_left held rs"
proof (induction rs arbitrary: held)
  case Nil
  then obtain rest where "unframe held = Inr (p, rest)" "held' = drop (PREFIX_LEN + length p) held" "rs' = []"
    by (auto simp: sapient_read_frame.simps [of held] split: sum.splits frame_error.splits)
  with unframe_Inr(2) [of held p rest] show ?case by (simp add: reads_left_def PREFIX_LEN_def)
next
  case (Cons r rs)
  show ?case
  proof (cases "unframe held")
    case (Inr q)
    with Cons.prems unframe_Inr(2) [of held "fst q" "snd q"] show ?thesis
      by (auto simp: sapient_read_frame.simps [of held] reads_left_def PREFIX_LEN_def split: prod.splits)
  next
    case (Inl e)
    with Cons.prems obtain c where c: "r = SRead c" "sapient_read_frame (held @ c) rs = Some (Inr p, held', rs')"
      by (auto simp: sapient_read_frame.simps [of held] split: frame_error.splits sapient_read.splits if_splits)
    from Cons.IH [OF c(2)] c(1) show ?thesis by (simp add: reads_left_def)
  qed
qed

function dmm_loop :: "dmm_world \<Rightarrow> bytes \<Rightarrow> sapient_read list \<Rightarrow> dmm_run \<Rightarrow> dmm_run \<times> dmm_end" where
  "dmm_loop dw held rs r =
     (case sapient_read_frame held rs of
        None \<Rightarrow> (r, Waiting)
      | Some (Inl ReadClosed, _, _) \<Rightarrow> (r, Disconnected)
      | Some (Inl (ReadTooLong n), _, _) \<Rightarrow> (r\<lparr>dm_bad_framing := dm_bad_framing r + 1\<rparr>, AboveBound)
      | Some (Inl ReadIo, _, _) \<Rightarrow> (r, ReadFailed)
      | Some (Inr payload, held', rs') \<Rightarrow>
          (case dmm_payload dw payload r of
             (r', Some e) \<Rightarrow> (r', e)
           | (r', None) \<Rightarrow> dmm_loop dw held' rs' r'))"
  by pat_completeness auto
termination by (relation "measure (\<lambda>(dw, held, rs, r). reads_left held rs)") (auto dest: sapient_read_frame_left)

declare dmm_loop.simps [simp del]

section \<open>Frames and chunks\<close>

definition sapient_decoder :: "bytes \<Rightarrow> (bytes \<times> bytes) option" where
  "sapient_decoder bs = (case unframe bs of Inr q \<Rightarrow> Some q | Inl _ \<Rightarrow> None)"

lemma sapient_decoder_framing: "sapient_decoder = frame_decoder LengthU32le MAX_MESSAGE_LEN"
  by (rule ext) (auto simp: sapient_decoder_def unframe_def frame_decoder_u32 PREFIX_LEN_def Let_def)

lemma sapient_frame_framing: "sapient_frame = encode_u32le"
  by (rule ext) (simp add: sapient_frame_def encode_u32le_def)

interpretation sapient_frames: prefix_codec sapient_frame sapient_decoder "fits MAX_MESSAGE_LEN 32"
  unfolding sapient_decoder_framing sapient_frame_framing by (rule u32le_frames.prefix_codec_axioms)

lemma fits_message: "fits MAX_MESSAGE_LEN 32 p \<longleftrightarrow> length p \<le> MAX_MESSAGE_LEN"
  by (auto simp: fits_def MAX_MESSAGE_LEN_def)

lemma sapient_frame_length: "length (sapient_frame p) = PREFIX_LEN + length p"
  by (simp add: sapient_frame_def u32_to_be_def PREFIX_LEN_def)

lemma prefix_value: "\<forall>i < 4. bs ! i = rev (u32_to_be w) ! i \<Longrightarrow> u32_from_le (bs ! 0) (bs ! 1) (bs ! 2) (bs ! 3) = w"
  by (simp add: u32_to_be_def u32_from_le_def u32_from_to_be)

text \<open>A part of a framed payload either holds the whole frame or asks for more.\<close>

lemma unframe_part:
  assumes "held @ ys = sapient_frame p @ rest" "length p \<le> MAX_MESSAGE_LEN"
  shows "if PREFIX_LEN + length p \<le> length held then unframe held = Inr (p, drop (PREFIX_LEN + length p) held)
    else \<exists>e. unframe held = Inl e \<and> (\<forall>n. e \<noteq> TooLong n)"
proof -
  let ?l = "rev (u32_to_be (of_nat (length p)))"
  have l: "length ?l = PREFIX_LEN" by (simp add: u32_to_be_def PREFIX_LEN_def)
  have h: "held @ ys = ?l @ p @ rest" using assms(1) by (simp add: sapient_frame_def)
  show ?thesis
  proof (cases "length held < PREFIX_LEN")
    case True
    then show ?thesis by (simp add: unframe_def)
  next
    case False
    then have t: "take PREFIX_LEN held = ?l" using arg_cong [OF h, of "take PREFIX_LEN"] l by simp
    have n: "length p < 2 ^ 32" using assms(2) by (simp add: MAX_MESSAGE_LEN_def)
    have i: "\<forall>i < 4. held ! i = ?l ! i" using t False l nth_take [of _ PREFIX_LEN held] by (metis PREFIX_LEN_def)
    have d: "unat (u32_from_le (held ! 0) (held ! 1) (held ! 2) (held ! 3)) = length p"
      unfolding prefix_value [OF i] using n by (simp add: unsigned_of_nat take_bit_nat_eq_self)
    have "take (length p) (drop PREFIX_LEN held) = p" if "PREFIX_LEN + length p \<le> length held"
    proof -
      have "drop PREFIX_LEN held @ ys = p @ rest" using arg_cong [OF h, of "drop PREFIX_LEN"] l False by simp
      from arg_cong [OF this, of "take (length p)"] that show ?thesis by simp
    qed
    with d assms(2) False show ?thesis by (auto simp: unframe_def Let_def add.commute)
  qed
qed

lemma sapient_read_part:
  assumes "held @ concat cs = sapient_frame p @ rest" "length p \<le> MAX_MESSAGE_LEN" "[] \<notin> set cs"
  shows "\<exists>held' cs'. sapient_read_frame held (map SRead cs @ t) = Some (Inr p, held', map SRead cs' @ t) \<and> held' @ concat cs' = rest \<and> [] \<notin> set cs'"
  using assms(1,3)
proof (induction cs arbitrary: held)
  case Nil
  then have h: "PREFIX_LEN + length p \<le> length held" "drop (PREFIX_LEN + length p) held = rest" by (simp_all add: sapient_frame_length [symmetric])
  with unframe_part [OF Nil(1) assms(2)] show ?case
    by (intro exI [of _ rest] exI [of _ "[]"]) (simp add: sapient_read_frame.simps [of held])
next
  case (Cons c cs)
  show ?case
  proof (cases "PREFIX_LEN + length p \<le> length held")
    case True
    have "drop (PREFIX_LEN + length p) held @ concat (c # cs) = rest"
      using True arg_cong [OF Cons.prems(1), of "drop (length (sapient_frame p))"] by (simp add: sapient_frame_length)
    with True unframe_part [OF Cons.prems(1) assms(2)] Cons.prems(2) show ?thesis
      by (intro exI [of _ "drop (PREFIX_LEN + length p) held"] exI [of _ "c # cs"]) (simp add: sapient_read_frame.simps [of held])
  next
    case False
    with unframe_part [OF Cons.prems(1) assms(2)] obtain e where e: "unframe held = Inl e" "\<forall>n. e \<noteq> TooLong n" by auto
    then have "sapient_read_frame held (map SRead (c # cs) @ t) = sapient_read_frame (held @ c) (map SRead cs @ t)"
      using Cons.prems(2) by (cases e) (auto simp: sapient_read_frame.simps [of held])
    with Cons.IH [of "held @ c"] Cons.prems show ?thesis by simp
  qed
qed

text \<open>A prefix above the bound.\<close>

definition oversized :: "bytes \<Rightarrow> bool" where
  "oversized bs \<longleftrightarrow> (\<exists>n. unframe bs = Inl (TooLong n))"

lemma oversized_code [code]: "oversized bs \<longleftrightarrow> (case unframe bs of Inl (TooLong n) \<Rightarrow> True | _ \<Rightarrow> False)"
  by (auto simp: oversized_def split: sum.split frame_error.split)

lemma oversized_part:
  assumes "oversized (held @ ys)"
  shows "oversized held \<or> unframe held = Inl NeedPrefix"
  using assms by (auto simp: oversized_def unframe_def Let_def nth_append PREFIX_LEN_def split: if_splits)

lemma sapient_read_oversized:
  "oversized (held @ concat cs) \<Longrightarrow> [] \<notin> set cs
   \<Longrightarrow> \<exists>n held' rs'. sapient_read_frame held (map SRead cs @ t) = Some (Inl (ReadTooLong n), held', rs')"
proof (induction cs arbitrary: held)
  case (Cons c cs)
  from oversized_part [OF Cons.prems(1)] show ?case
  proof
    assume "unframe held = Inl NeedPrefix"
    then have "sapient_read_frame held (map SRead (c # cs) @ t) = sapient_read_frame (held @ c) (map SRead cs @ t)"
      using Cons.prems(2) by (auto simp: sapient_read_frame.simps [of held])
    with Cons.IH [of "held @ c"] Cons.prems show ?case by simp
  qed (auto simp: oversized_def sapient_read_frame.simps [of held])
qed (auto simp: oversized_def sapient_read_frame.simps)

text \<open>The acknowledgements due for a list of payloads.\<close>

fun acks_for :: "dmm_world \<Rightarrow> nat \<Rightarrow> bytes list \<Rightarrow> bytes list" where
  "acks_for dw k [] = []"
| "acks_for dw k (p # ps) =
     (case registration_ack (dw_codec dw) (dw_clock dw k) p (dw_node_id dw) of
        None \<Rightarrow> acks_for dw k ps | Some a \<Rightarrow> a # acks_for dw (Suc k) ps)"

definition dmm_serves :: "dmm_world \<Rightarrow> bool" where
  "dmm_serves dw \<longleftrightarrow> (\<forall>n. dw_writes dw n) \<and> (\<forall>n. dw_sends dw n)"

definition after_payloads :: "dmm_world \<Rightarrow> bytes list \<Rightarrow> dmm_run \<Rightarrow> dmm_run" where
  "after_payloads dw ps r =
     (let acks = acks_for dw (length (dm_written r)) ps in
      r\<lparr>dm_written := dm_written r @ acks, dm_forwarded := dm_forwarded r @ ps, dm_registrations := dm_registrations r + length acks\<rparr>)"

lemma dmm_payload_serves:
  "dmm_serves dw \<Longrightarrow> dmm_payload dw p r = (after_payloads dw [p] r, None)"
  by (simp add: dmm_payload_def after_payloads_def dmm_serves_def Let_def split: option.split)

lemma after_payloads_Cons: "after_payloads dw ps (after_payloads dw [p] r) = after_payloads dw (p # ps) r"
  by (simp add: after_payloads_def Let_def split: option.split)

lemma dmm_loop_frames:
  assumes "dmm_serves dw" "[] \<notin> set cs" "held @ concat cs = concat (map sapient_frame ps) @ rest" "\<forall>p \<in> set ps. length p \<le> MAX_MESSAGE_LEN"
  shows "\<exists>held' cs'. dmm_loop dw held (map SRead cs @ t) r = dmm_loop dw held' (map SRead cs' @ t) (after_payloads dw ps r)
    \<and> held' @ concat cs' = rest \<and> [] \<notin> set cs'"
  using assms(2-4)
proof (induction ps arbitrary: held cs r)
  case Nil
  then show ?case by (auto simp: after_payloads_def)
next
  case (Cons p ps)
  have "held @ concat cs = sapient_frame p @ (concat (map sapient_frame ps) @ rest)" using Cons.prems(2) by simp
  from sapient_read_part [OF this _ Cons.prems(1), of t] Cons.prems(3) obtain held1 cs1 where
    r: "sapient_read_frame held (map SRead cs @ t) = Some (Inr p, held1, map SRead cs1 @ t)" "held1 @ concat cs1 = concat (map sapient_frame ps) @ rest" "[] \<notin> set cs1"
    by auto
  then have "dmm_loop dw held (map SRead cs @ t) r = dmm_loop dw held1 (map SRead cs1 @ t) (after_payloads dw [p] r)"
    by (subst dmm_loop.simps) (simp add: dmm_payload_serves [OF assms(1)])
  moreover have "\<forall>p \<in> set ps. length p \<le> MAX_MESSAGE_LEN" using Cons.prems(3) by simp
  ultimately show ?case using Cons.IH [OF r(3,2), of "after_payloads dw [p] r"] by (simp add: after_payloads_Cons)
qed

lemma acks_for_length: "length (acks_for dw k ps) \<le> length ps"
  by (induction dw k ps rule: acks_for.induct) (auto split: option.split simp: le_SucI)

section \<open>Properties\<close>

text \<open>C23. However a node's stream arrives in chunks, the acceptor forwards its messages in order, each one whole and unchanged, writes
  one acknowledgement for each registration among them, in order, before it forwards the registration's successors, and counts them; a
  prefix above the bound ends the connection behind what came before it.\<close>

theorem dmm_forwards_in_order:
  assumes "dmm_serves dw" "[] \<notin> set cs" "\<forall>p \<in> set ps. length p \<le> MAX_MESSAGE_LEN"
    "concat cs = concat (map sapient_frame ps) @ rest"
  shows "(rest = [] \<longrightarrow> dmm_loop dw [] (map SRead cs @ [SRead []]) dmm_start
        = (\<lparr>dm_written = acks_for dw 0 ps, dm_forwarded = ps, dm_registrations = length (acks_for dw 0 ps), dm_bad_framing = 0\<rparr>, Disconnected))
    \<and> (oversized rest \<longrightarrow> dmm_loop dw [] (map SRead cs @ t) dmm_start
        = (\<lparr>dm_written = acks_for dw 0 ps, dm_forwarded = ps, dm_registrations = length (acks_for dw 0 ps), dm_bad_framing = 1\<rparr>, AboveBound))"
proof (intro conjI impI)
  have start: "after_payloads dw ps dmm_start = \<lparr>dm_written = acks_for dw 0 ps, dm_forwarded = ps, dm_registrations = length (acks_for dw 0 ps), dm_bad_framing = 0\<rparr>"
    by (simp add: after_payloads_def dmm_start_def Let_def)
  note f = dmm_loop_frames [OF assms(1,2) _ assms(3), of "[]" rest _ dmm_start, unfolded append_Nil, OF assms(4), unfolded start]
  show "dmm_loop dw [] (map SRead cs @ [SRead []]) dmm_start
      = (\<lparr>dm_written = acks_for dw 0 ps, dm_forwarded = ps, dm_registrations = length (acks_for dw 0 ps), dm_bad_framing = 0\<rparr>, Disconnected)"
    if "rest = []"
  proof -
    from f [of "[SRead []]"] that obtain cs' where e: "dmm_loop dw [] (map SRead cs @ [SRead []]) dmm_start
        = dmm_loop dw [] (map SRead cs' @ [SRead []]) \<lparr>dm_written = acks_for dw 0 ps, dm_forwarded = ps, dm_registrations = length (acks_for dw 0 ps), dm_bad_framing = 0\<rparr>"
        "concat cs' = []" "[] \<notin> set cs'" by auto
    then have "cs' = []" by (cases cs') auto
    then show ?thesis unfolding e(1)
      by (simp add: dmm_loop.simps sapient_read_frame.simps unframe_def PREFIX_LEN_def)
  qed
  show "dmm_loop dw [] (map SRead cs @ t) dmm_start
      = (\<lparr>dm_written = acks_for dw 0 ps, dm_forwarded = ps, dm_registrations = length (acks_for dw 0 ps), dm_bad_framing = 1\<rparr>, AboveBound)"
    if "oversized rest"
  proof -
    from f [of t] obtain held' cs' where e: "dmm_loop dw [] (map SRead cs @ t) dmm_start
        = dmm_loop dw held' (map SRead cs' @ t) \<lparr>dm_written = acks_for dw 0 ps, dm_forwarded = ps, dm_registrations = length (acks_for dw 0 ps), dm_bad_framing = 0\<rparr>"
        "held' @ concat cs' = rest" "[] \<notin> set cs'" by auto
    from sapient_read_oversized [of held' cs' t] e that show ?thesis by (auto simp: dmm_loop.simps [of dw held'])
  qed
qed

text \<open>A message longer than the bound is framed without complaint, and the frame is one that no reader accepts.\<close>

lemma frame_above_bound: "MAX_MESSAGE_LEN < length p \<Longrightarrow> length p < 2 ^ 32 \<Longrightarrow> oversized (sapient_frame p)"
proof -
  assume n: "MAX_MESSAGE_LEN < length p" "length p < 2 ^ 32"
  have "\<forall>i < 4. sapient_frame p ! i = rev (u32_to_be (of_nat (length p))) ! i"
    unfolding sapient_frame_def nth_append by (simp add: u32_to_be_def [of "of_nat _"])
  from prefix_value [OF this] n show ?thesis
    by (simp add: oversized_def unframe_def sapient_frame_length Let_def unsigned_of_nat take_bit_nat_eq_self)
qed

section \<open>Examples\<close>

definition ex_codec :: sapient_codec where
  "ex_codec = \<lparr>sapient_decode = (\<lambda>bs. if bs = [1] then Some \<lparr>sm_timestamp = None, sm_node_id = Some ''sensor-7'', sm_destination_id = None,
       sm_content = Some (CRegistration \<lparr>rg_node_definition = [], rg_icd_version = None, rg_name = None, rg_short_name = None, rg_capabilities = [],
         rg_status_interval = None, rg_location_definition = None, rg_mode_definition = [], rg_config_data = []\<rparr>)\<rparr> else None),
     sapient_encode = (\<lambda>m. case sm_destination_id m of Some d \<Rightarrow> map of_char d | None \<Rightarrow> [])\<rparr>"

definition ex_dmm :: dmm_world where
  "ex_dmm = \<lparr>dw_codec = ex_codec, dw_node_id = ''fusion-1'', dw_clock = (\<lambda>n. \<lparr>st_seconds = 0, st_nanos = 0\<rparr>), dw_writes = (\<lambda>n. True), dw_sends = (\<lambda>n. True)\<rparr>"

theorem dmm_forwards_in_order_witness:
  "dmm_loop ex_dmm [] (map SRead [[1, 0, 0], [0, 1, 2, 0, 0, 0, 7], [8]] @ [SRead []]) dmm_start
     = (\<lparr>dm_written = [sapient_frame [0x73, 0x65, 0x6e, 0x73, 0x6f, 0x72, 0x2d, 0x37]], dm_forwarded = [[1], [7, 8]], dm_registrations = 1, dm_bad_framing = 0\<rparr>, Disconnected)"
proof -
  have c: "concat [[1, 0, 0], [0, 1, 2, 0, 0, 0, 7], [8]] = concat (map sapient_frame [[1], [7, 8]]) @ []" by code_simp
  have "acks_for ex_dmm 0 [[1], [7, 8]] = [sapient_frame [0x73, 0x65, 0x6e, 0x73, 0x6f, 0x72, 0x2d, 0x37]]" by code_simp
  moreover have "dmm_serves ex_dmm" by (simp add: dmm_serves_def ex_dmm_def)
  ultimately show ?thesis
    using dmm_forwards_in_order [of ex_dmm "[[1, 0, 0], [0, 1, 2, 0, 0, 0, 7], [8]]" "[[1], [7, 8]]" "[]", OF _ _ _ c]
    by (simp add: MAX_MESSAGE_LEN_def)
qed

end
