(* ===== verification/Sapient.thy ===== *)
theory Sapient
  imports Sapient_Wire "HOL-Library.AList"
begin

text \<open>
  The SAPIENT parser, \<open>sapient/src/sapient.rs\<close>: one message, at most one event. The parser keeps what registrations and
  status reports said about each node, up to \<open>MAX_NODES\<close> of them; which entry of the hash table is evicted for a new one
  is the parameter \<open>victim\<close>. The codec, the mathematics library, the formatting of times and the lower case of \<open>char::to_lowercase\<close> are
  parameters as well. Single-precision fields are the double-precision values they widen to.
\<close>

section \<open>State\<close>

definition ICD_VERSION_V2 :: str where "ICD_VERSION_V2 = ''BSI Flex 335 v2.0''"

definition SAPIENT_RADIUS_M :: f64 where "SAPIENT_RADIUS_M = f64_of_rat (63710088 / 10)"

definition MAX_NODES :: nat where "MAX_NODES = 4096"

record sapient_types =
  ty_detection :: str
  ty_track :: str
  ty_sensor_status :: str
  ty_alert :: str

definition default_types :: sapient_types where
  "default_types = \<lparr>ty_detection = ''sapient:detection'', ty_track = ''sapient:track'', ty_sensor_status = ''sapient:sensor-status'',
     ty_alert = ''sapient:alert''\<rparr>"

datatype sapient_error = SapientDecode | SapientEmpty | SapientBuild build_error

record sap_node =
  no_name :: "str option"
  no_type :: "str option"
  no_location :: "(f64 \<times> f64 \<times> f64) option"
  no_velocity_kph :: bool

definition no_node :: sap_node where
  "no_node = \<lparr>no_name = None, no_type = None, no_location = None, no_velocity_kph = False\<rparr>"

record sapient_parser =
  sa_source_id :: str
  sa_enrichment :: enrichment
  sa_entity_map :: "str \<rightharpoonup> str"
  sa_types :: sapient_types
  sa_nodes :: "(str \<times> sap_node) list"
  sa_unmapped :: u64
  sa_unlocated :: u64
  sa_registrations :: u64

record sapient_world =
  sw_codec :: sapient_codec
  sw_libm :: libm
  sw_fmt :: "int \<Rightarrow> str option"
  sw_lower :: "str \<Rightarrow> str"
  sw_victim :: "(str \<times> sap_node) list \<Rightarrow> str"

definition sapient_new :: "str \<Rightarrow> enrichment \<Rightarrow> sapient_parser" where
  "sapient_new source_id en = \<lparr>sa_source_id = source_id, sa_enrichment = en, sa_entity_map = Map.empty, sa_types = default_types, sa_nodes = [],
     sa_unmapped = 0, sa_unlocated = 0, sa_registrations = 0\<rparr>"

definition sap_node_of :: "sapient_parser \<Rightarrow> str \<Rightarrow> sap_node" where
  "sap_node_of sp node_id = (case map_of (sa_nodes sp) node_id of Some n \<Rightarrow> n | None \<Rightarrow> no_node)"

text \<open>\<open>update_node\<close>; the table has an entry for each key once.\<close>

definition update_node :: "sapient_world \<Rightarrow> str \<Rightarrow> (sap_node \<Rightarrow> sap_node) \<Rightarrow> sapient_parser \<Rightarrow> sapient_parser" where
  "update_node sw node_id f sp =
     (case map_of (sa_nodes sp) node_id of
        Some n \<Rightarrow> sp\<lparr>sa_nodes := AList.update node_id (f n) (sa_nodes sp)\<rparr>
      | None \<Rightarrow>
          let nodes = (if MAX_NODES \<le> length (sa_nodes sp) then AList.delete (sw_victim sw (sa_nodes sp)) (sa_nodes sp) else sa_nodes sp)
          in sp\<lparr>sa_nodes := AList.update node_id (f no_node) nodes\<rparr>)"

text \<open>The entity map of the configuration, its entries in the order the hash table yields them; the first type without a namespace is
  an error.\<close>

fun sapient_entity_map :: "sapient_world \<Rightarrow> (str \<times> str) list \<Rightarrow> sapient_parser \<Rightarrow> (str \<times> str) + sapient_parser" where
  "sapient_entity_map sw [] sp = Inr sp"
| "sapient_entity_map sw ((cls, entity) # es) sp =
     (if CHR '':'' \<notin> set entity then Inl (cls, entity)
      else sapient_entity_map sw es (sp\<lparr>sa_entity_map := (sa_entity_map sp)(sw_lower sw (trim cls) \<mapsto> entity)\<rparr>))"

text \<open>The options: the node's identifier, minted when it is not set, and the entity types, each in a namespace.\<close>

definition sapient_options :: "str option \<Rightarrow> str \<Rightarrow> sapient_types \<Rightarrow> (str \<times> str) + str \<times> sapient_types" where
  "sapient_options node_id fresh types =
     (let i = (case filter_option (\<lambda>i. trim i \<noteq> []) node_id of Some i \<Rightarrow> i | None \<Rightarrow> fresh)
      in case find (\<lambda>(kind, ty). CHR '':'' \<notin> set ty)
           [(''detection'', ty_detection types), (''track'', ty_track types), (''sensor_status'', ty_sensor_status types), (''alert'', ty_alert types)] of
           Some bad \<Rightarrow> Inl bad
         | None \<Rightarrow> Inr (i, types))"

definition with_types :: "sapient_types \<Rightarrow> sapient_parser \<Rightarrow> sapient_parser" where
  "with_types types sp = sp\<lparr>sa_types := types\<rparr>"

section \<open>Values\<close>

definition sap_fixed :: "nat \<Rightarrow> f64 \<Rightarrow> str" where
  "sap_fixed decimals v =
     (let s = fmt_fixed decimals v in
      if starts_with s ''-'' \<and> list_all (\<lambda>c. c = CHR ''0'' \<or> c = CHR ''.'') (tl s) then tl s else s)"

definition enum_name :: "str option \<Rightarrow> str \<Rightarrow> str" where
  "enum_name nm pre = (case nm of None \<Rightarrow> ''UNSPECIFIED'' | Some n \<Rightarrow> (case strip_prefix n pre of Some r \<Rightarrow> r | None \<Rightarrow> n))"

fun key_safe_from :: "str \<Rightarrow> bool \<Rightarrow> str \<Rightarrow> str" where
  "key_safe_from out gap [] = out"
| "key_safe_from out gap (c # cs) =
     (if is_alphanumeric c then key_safe_from (out @ [to_lower c]) False cs
      else if \<not> gap \<and> out \<noteq> [] then key_safe_from (out @ ''_'') True cs
      else key_safe_from out gap cs)"

definition key_safe :: "str \<Rightarrow> str" where
  "key_safe t = rev (dropWhile (\<lambda>c. c = CHR ''_'') (rev (key_safe_from [] False t)))"

definition unit_range :: "f64 \<Rightarrow> bool" where
  "unit_range c \<longleftrightarrow> f64_within (f64_of_int 0) (f64_of_int 1) c"

definition class_confidence :: "str \<times> f64 option \<Rightarrow> f64" where
  "class_confidence c = (case snd c of Some v \<Rightarrow> v | None \<Rightarrow> f64_of_int (- 1))"

text \<open>\<open>max_by\<close> keeps the later of two that compare as equal, as two do that cannot be compared.\<close>

definition top_classification :: "sap_class list \<Rightarrow> (str \<times> f64 option) option" where
  "top_classification cs =
     (case List.map_filter (\<lambda>c. map_option (\<lambda>t. (t, cl_confidence c)) (cl_type c)) cs of
        [] \<Rightarrow> None
      | x # xs \<Rightarrow> Some (fold (\<lambda>y x. if f64_lt (class_confidence y) (class_confidence x) then x else y) xs x))"

definition wgs84 :: "sap_location \<Rightarrow> (f64 \<times> f64 \<times> f64) option" where
  "wgs84 loc = do {
     system \<leftarrow> lo_coordinate_system loc;
     x \<leftarrow> lo_x loc;
     y \<leftarrow> lo_y loc;
     (lat, lon) \<leftarrow> (if system = 1 then Some (y, x) else if system = 2 then Some (f64_to_degrees y, f64_to_degrees x) else None);
     let alt = (case lo_z loc of Some z \<Rightarrow> z | None \<Rightarrow> f64_of_int 0);
     if \<not> f64_within (f64_of_int (- 90)) (f64_of_int 90) lat \<or> \<not> f64_within (f64_of_int (- 180)) (f64_of_int 180) lon then None
     else if is_finite lat \<and> is_finite lon \<and> is_finite alt then Some (lat, lon, alt) else None }"

definition destination :: "libm \<Rightarrow> f64 \<Rightarrow> f64 \<Rightarrow> f64 \<Rightarrow> f64 \<Rightarrow> f64 \<times> f64" where
  "destination lm lat_deg lon_deg bearing_deg distance_m =
     (let lat1 = f64_to_radians lat_deg; lon1 = f64_to_radians lon_deg; brg = f64_to_radians bearing_deg;
          d = f64_div distance_m SAPIENT_RADIUS_M;
          lat2 = m_asin lm (f64_add (f64_mul (m_sin lm lat1) (m_cos lm d)) (f64_mul (f64_mul (m_cos lm lat1) (m_sin lm d)) (m_cos lm brg)));
          lon2 = f64_add lon1 (m_atan2 lm (f64_mul (f64_mul (m_sin lm brg) (m_sin lm d)) (m_cos lm lat1))
                   (f64_sub (m_cos lm d) (f64_mul (m_sin lm lat1) (m_sin lm lat2))));
          lon2 = f64_sub (f64_rem (f64_add (f64_to_degrees lon2) (f64_of_int 540)) (f64_of_int 360)) (f64_of_int 180)
      in (f64_to_degrees lat2, lon2))"

definition duration_seconds :: "sap_duration \<Rightarrow> f64 option" where
  "duration_seconds d = do {
     v \<leftarrow> du_value d;
     units \<leftarrow> du_units d;
     scale \<leftarrow> map_of [(1, f64_of_rat (1 / 1000000000)), (2, f64_of_rat (1 / 1000000)), (3, f64_of_rat (1 / 1000)), (4, f64_of_int 1),
                        (5, f64_of_int 60), (6, f64_of_int 3600), (7, f64_of_int 86400)] units;
     let s = f64_mul v scale;
     if is_finite s \<and> f64_le (f64_of_int 0) s then Some s else None }"

section \<open>Positions\<close>

definition put_governed :: "str \<Rightarrow> str \<Rightarrow> str option \<Rightarrow> event_builder \<Rightarrow> event_builder" where
  "put_governed entity k v b = (case v of Some x \<Rightarrow> eb_governed ONTOLOGY entity k x b | None \<Rightarrow> b)"

definition place :: "str \<Rightarrow> sap_location \<Rightarrow> str \<Rightarrow> event_builder \<Rightarrow> event_builder" where
  "place entity loc pre b =
     (case wgs84 loc of
        Some (lat, lon, alt) \<Rightarrow>
          (let b = eb_location lat lon alt b;
               b = (if lo_z loc = None then eb_metadata ''altitude_known'' ''false'' b else b)
           in case (lo_x_error loc, lo_y_error loc) of
                (Some xe, Some ye) \<Rightarrow>
                  if lo_coordinate_system loc = Some 5
                  then eb_governed ONTOLOGY entity ''position_accuracy_h_m''
                         (sap_fixed 1 (f64_sqrt (f64_add (f64_mul xe xe) (f64_mul ye ye)))) b
                  else eb_metadata (pre @ ''_y_error'') (sap_fixed 6 ye) (eb_metadata (pre @ ''_x_error'') (sap_fixed 6 xe) b)
              | _ \<Rightarrow> b)
      | None \<Rightarrow>
          (let b = opt_metadata (pre @ ''_x'') (map_option (sap_fixed 3) (lo_x loc)) b;
               b = opt_metadata (pre @ ''_y'') (map_option (sap_fixed 3) (lo_y loc)) b;
               b = opt_metadata (pre @ ''_z'') (map_option (sap_fixed 3) (lo_z loc)) b;
               b = opt_metadata (pre @ ''_utm_zone'') (lo_utm_zone loc) b
           in eb_metadata (pre @ ''_coordinate_system'')
                (enum_name (Option.bind (lo_coordinate_system loc) (enum_str LOCATION_SYSTEMS)) ''LOCATION_COORDINATE_SYSTEM_'') b))"

definition rb_scales :: "range_bearing \<Rightarrow> f64 \<times> f64" where
  "rb_scales rb =
     (let per_rad = f64_div (f64_of_int 180) f64_pi in
      case rb_coordinate_system rb of
        None \<Rightarrow> (FNaN, FNaN)
      | Some c \<Rightarrow> if c = 1 then (f64_of_int 1, f64_of_int 1) else if c = 2 then (per_rad, f64_of_int 1)
                  else if c = 3 then (f64_of_int 1, f64_of_int 1000) else if c = 4 then (per_rad, f64_of_int 1000) else (FNaN, FNaN))"

text \<open>The position that range and bearing give from the node's, and the range's error in metres.\<close>

definition relative_position :: "libm \<Rightarrow> (f64 \<times> f64 \<times> f64) option \<Rightarrow> range_bearing \<Rightarrow> (f64 \<times> f64 \<times> f64) option" where
  "relative_position lm node_location rb =
     (let (angle_scale, range_scale) = rb_scales rb;
          azimuth = map_option (\<lambda>a. f64_mul a angle_scale) (rb_azimuth rb);
          elevation = (case rb_elevation rb of Some e \<Rightarrow> f64_mul e angle_scale | None \<Rightarrow> f64_of_int 0);
          range = map_option (\<lambda>r. f64_mul r range_scale) (rb_range rb)
      in case (node_location, azimuth, range) of
           (Some (lat0, lon0, alt0), Some az, Some r) \<Rightarrow>
             if rb_datum rb = Some 1 \<and> is_finite az \<and> is_finite r \<and> f64_le (f64_of_int 0) r
             then let horizontal = f64_mul r (m_cos lm (f64_to_radians elevation));
                      (lat, lon) = destination lm lat0 lon0 az horizontal
                  in Some (lat, lon, f64_add alt0 (f64_mul r (m_sin lm (f64_to_radians elevation))))
             else None
         | _ \<Rightarrow> None)"

definition unlocated_reason :: "(f64 \<times> f64 \<times> f64) option \<Rightarrow> range_bearing \<Rightarrow> str" where
  "unlocated_reason node_location rb =
     (if rb_datum rb \<noteq> Some 1 then ''bearing datum is not true north''
      else if node_location = None then ''node position not yet reported'' else ''range or bearing missing'')"

definition place_relative :: "libm \<Rightarrow> str \<Rightarrow> (f64 \<times> f64 \<times> f64) option \<Rightarrow> range_bearing \<Rightarrow> event_builder \<Rightarrow> event_builder" where
  "place_relative lm entity node_location rb b =
     (let (angle_scale, range_scale) = rb_scales rb;
          b = opt_metadata ''bearing_deg'' (map_option (sap_fixed 2) (filter_option is_finite (map_option (\<lambda>a. f64_mul a angle_scale) (rb_azimuth rb)))) b;
          b = opt_metadata ''range_m'' (map_option (sap_fixed 1) (filter_option is_finite (map_option (\<lambda>r. f64_mul r range_scale) (rb_range rb)))) b
      in case relative_position lm node_location rb of
           Some (lat, lon, alt) \<Rightarrow>
             put_governed entity ''position_accuracy_h_m'' (map_option (\<lambda>re. sap_fixed 1 (f64_mul re range_scale)) (rb_range_error rb))
               (eb_location lat lon alt b)
         | None \<Rightarrow> eb_metadata ''unlocated_reason'' (unlocated_reason node_location rb) b)"

definition place_oneof :: "libm \<Rightarrow> str \<Rightarrow> (f64 \<times> f64 \<times> f64) option \<Rightarrow> location_oneof option \<Rightarrow> event_builder \<Rightarrow> event_builder" where
  "place_oneof lm entity node_location l b =
     (case l of
        Some (AtLocation loc) \<Rightarrow> place entity loc ''location'' b
      | Some (AtRangeBearing rb) \<Rightarrow> place_relative lm entity node_location rb b
      | None \<Rightarrow> b)"

text \<open>The counter of reports without a position.\<close>

definition count_unlocated :: "libm \<Rightarrow> (f64 \<times> f64 \<times> f64) option \<Rightarrow> location_oneof option \<Rightarrow> sapient_parser \<Rightarrow> sapient_parser" where
  "count_unlocated lm node_location l sp =
     (case l of
        Some (AtRangeBearing rb) \<Rightarrow> if relative_position lm node_location rb = None then sp\<lparr>sa_unlocated := sa_unlocated sp + 1\<rparr> else sp
      | _ \<Rightarrow> sp)"

section \<open>Reports\<close>

definition sapient_base :: "sapient_parser \<Rightarrow> effects \<Rightarrow> str \<Rightarrow> str \<Rightarrow> str option \<Rightarrow> bytes \<Rightarrow> event_builder" where
  "sapient_base sp fx entity node_id observed raw =
     (let b = eb_metadata ''sapient_version'' ICD_VERSION_V2 (eb_metadata ''node_id'' node_id
                (eb_payload raw (eb_new_id (uuid fx) (eb_allow_unnamespaced_entity_type (eb_new (sa_source_id sp) entity)))));
          b = (case observed of Some ts \<Rightarrow> eb_timestamp ts b | None \<Rightarrow> eb_now (wall_clock fx) b)
      in opt_attribute ''hostility'' (hostility (sa_enrichment sp)) b)"

definition opt_confidence :: "f64 option \<Rightarrow> event_builder \<Rightarrow> event_builder" where
  "opt_confidence c b = (case filter_option unit_range c of Some v \<Rightarrow> eb_confidence v b | None \<Rightarrow> b)"

definition detection_entity :: "sapient_world \<Rightarrow> sapient_parser \<Rightarrow> detection_report \<Rightarrow> str" where
  "detection_entity sw sp r =
     (case Option.bind (top_classification (dr_classification r)) (\<lambda>c. sa_entity_map sp (sw_lower sw (fst c))) of
        Some t \<Rightarrow> t
      | None \<Rightarrow> if dr_track_info r = [] then ty_detection (sa_types sp) else ty_track (sa_types sp))"

definition detection_ids :: "str \<Rightarrow> detection_report \<Rightarrow> event_builder \<Rightarrow> event_builder" where
  "detection_ids node_id r b =
     (let object_id = (case dr_object_id r of Some i \<Rightarrow> i | None \<Rightarrow> []);
          b = eb_metadata ''source_uid'' (node_id @ '':'' @ object_id) b;
          b = eb_metadata ''object_id'' object_id b;
          b = opt_metadata ''report_id'' (dr_report_id r) b
      in opt_metadata ''task_id'' (dr_task_id r) b)"

definition add_velocity :: "libm \<Rightarrow> str \<Rightarrow> bool \<Rightarrow> enu_velocity option \<Rightarrow> event_builder \<Rightarrow> event_builder" where
  "add_velocity lm entity kph v b =
     (case v of
        None \<Rightarrow> b
      | Some v \<Rightarrow>
          let scale = (if kph then f64_div (f64_of_int 1000) (f64_of_int 3600) else f64_of_int 1);
              b = (case (ve_east v, ve_north v) of
                     (Some e, Some n) \<Rightarrow>
                       let e = f64_mul e scale; n = f64_mul n scale;
                           speed = f64_sqrt (f64_add (f64_mul e e) (f64_mul n n));
                           course = f64_rem (f64_add (f64_to_degrees (m_atan2 lm e n)) (f64_of_int 360)) (f64_of_int 360)
                       in eb_governed ONTOLOGY entity ''course'' (sap_fixed 1 course) (eb_governed ONTOLOGY entity ''speed'' (sap_fixed 2 speed) b)
                   | _ \<Rightarrow> b);
              b = put_governed entity ''vertical_rate'' (map_option (\<lambda>up. sap_fixed 2 (f64_mul up scale)) (ve_up v)) b
          in if kph then eb_metadata ''velocity_units'' ''km/h'' b else b)"

definition add_top_class :: "str \<Rightarrow> (str \<times> f64 option) option \<Rightarrow> event_builder \<Rightarrow> event_builder" where
  "add_top_class entity t b =
     (case t of
        None \<Rightarrow> b
      | Some (cls, c) \<Rightarrow>
          put_governed entity ''sapient_classification_confidence'' (map_option (sap_fixed 3) c)
            (eb_governed ONTOLOGY entity ''object_class'' cls (eb_governed ONTOLOGY entity ''sapient_classification'' cls b)))"

definition numbered :: "'a list \<Rightarrow> (nat \<times> 'a) list" where
  "numbered xs = zip [0..<length xs] xs"

definition class_metadata :: "sap_class list \<Rightarrow> (str \<times> str) list" where
  "class_metadata cs = List.map_filter (\<lambda>(i, c). map_option (\<lambda>t. (''classification_'' @ show_int (int i), t)) (cl_type c)) (drop 1 (numbered cs))"

definition info_metadata :: "sap_info list \<Rightarrow> (str \<times> str) list" where
  "info_metadata infos = List.map_filter (\<lambda>i. case (in_type i, in_value i) of (Some t, Some v) \<Rightarrow> Some (''info_'' @ key_safe t, v) | _ \<Rightarrow> None) infos"

definition signal_metadata :: "sap_signal list \<Rightarrow> (str \<times> str) list" where
  "signal_metadata ss = concat (map (\<lambda>(i, s).
      (case sg_centre_frequency s of Some f \<Rightarrow> [(''signal_'' @ show_int (int i) @ ''_centre_frequency'', sap_fixed 1 f)] | None \<Rightarrow> [])
      @ (case sg_amplitude s of Some a \<Rightarrow> [(''signal_'' @ show_int (int i) @ ''_amplitude'', sap_fixed 1 a)] | None \<Rightarrow> [])) (numbered ss))"

definition file_metadata :: "str option list \<Rightarrow> (str \<times> str) list" where
  "file_metadata urls = List.map_filter (\<lambda>(i, u). map_option (\<lambda>url. (''file_'' @ show_int (int i) @ ''_url'', url)) u) (numbered urls)"

fun first_present :: "'a option list \<Rightarrow> 'a option" where
  "first_present [] = None"
| "first_present (x # xs) = (case x of Some v \<Rightarrow> Some v | None \<Rightarrow> first_present xs)"

definition add_metadata :: "(str \<times> str) list \<Rightarrow> event_builder \<Rightarrow> event_builder" where
  "add_metadata kvs b = fold (\<lambda>(k, v). eb_metadata k v) kvs b"

definition detection_builder :: "sapient_world \<Rightarrow> sapient_parser \<Rightarrow> effects \<Rightarrow> str \<Rightarrow> detection_report \<Rightarrow> str option \<Rightarrow> bytes \<Rightarrow> event_builder" where
  "detection_builder sw sp fx node_id r observed raw =
     (let node = sap_node_of sp node_id;
          entity = detection_entity sw sp r;
          b = detection_ids node_id r (sapient_base sp fx entity node_id observed raw);
          b = opt_confidence (dr_confidence r) b;
          b = place_oneof (sw_libm sw) entity (no_location node) (dr_location r) b;
          b = add_velocity (sw_libm sw) entity (no_velocity_kph node) (dr_velocity r) b;
          b = add_top_class entity (top_classification (dr_classification r)) b;
          b = add_metadata (class_metadata (dr_classification r)) b;
          b = put_governed entity ''sapient_behaviour'' (first_present (dr_behaviour r)) b;
          b = put_governed entity ''sapient_state'' (dr_state r) b;
          b = opt_metadata ''native_id'' (dr_native_id r) b;
          b = opt_metadata ''colour'' (dr_colour r) b;
          b = add_metadata (info_metadata (dr_track_info r @ dr_object_info r)) b;
          b = add_metadata (signal_metadata (dr_signal r)) b;
          b = add_metadata (file_metadata (dr_file_urls r)) b
      in opt_metadata ''node_name'' (no_name node) b)"

definition system_name :: "int option \<Rightarrow> str option" where
  "system_name s = Option.bind s (map_of [(1, ''OK''), (2, ''WARNING''), (3, ''ERROR''), (5, ''GOODBYE'')])"

definition power_metadata :: "sap_power \<Rightarrow> (str \<times> str) list" where
  "power_metadata pw =
     [(''power_source'', enum_name (enum_str POWER_SOURCES (pw_source pw)) ''POWERSOURCE_''),
      (''power_status'', enum_name (enum_str POWER_STATUSES (pw_status pw)) ''POWERSTATUS_'')]"

definition status_entry :: "sapient_world \<Rightarrow> sap_status \<Rightarrow> str \<times> str" where
  "status_entry sw s =
     (let kind = enum_name (Option.bind (ss_type s) (enum_str STATUS_TYPES)) ''STATUS_TYPE_'';
          level = enum_name (Option.bind (ss_level s) (enum_str STATUS_LEVELS)) ''STATUS_LEVEL_'';
          v = (case ss_value s of Some v \<Rightarrow> v | None \<Rightarrow> [])
      in (''status_'' @ sw_lower sw kind, level @ '': '' @ v))"

definition status_node :: "sapient_world \<Rightarrow> str \<Rightarrow> status_report \<Rightarrow> sapient_parser \<Rightarrow> sapient_parser" where
  "status_node sw node_id r sp =
     (case Option.bind (sr_node_location r) wgs84 of
        Some p \<Rightarrow> update_node sw node_id (\<lambda>n. n\<lparr>no_location := Some p\<rparr>) sp
      | None \<Rightarrow> sp)"

definition status_builder :: "sapient_world \<Rightarrow> sapient_parser \<Rightarrow> effects \<Rightarrow> str \<Rightarrow> status_report \<Rightarrow> str option \<Rightarrow> bytes \<Rightarrow> event_builder" where
  "status_builder sw sp fx node_id r observed raw =
     (let node = sap_node_of sp node_id;
          t = ty_sensor_status (sa_types sp);
          b = eb_metadata ''source_uid'' node_id (sapient_base sp fx t node_id observed raw);
          b = opt_metadata ''report_id'' (sr_report_id r) b;
          b = (case sr_node_location r of Some loc \<Rightarrow> place t loc ''node'' b | None \<Rightarrow> b);
          b = put_governed t ''sapient_system'' (system_name (sr_system r)) b;
          b = put_governed t ''sapient_mode'' (sr_mode r) b;
          b = (case sr_power r of
                 Some pw \<Rightarrow> add_metadata (power_metadata pw)
                   (put_governed t ''sapient_power_level'' (map_option show_int (filter_option (\<lambda>l. 0 \<le> l \<and> l \<le> 100) (pw_level pw))) b)
               | None \<Rightarrow> b);
          b = opt_metadata ''active_task_id'' (sr_active_task_id r) b;
          b = add_metadata (map (status_entry sw) (sr_status r)) b;
          b = put_governed t ''sapient_node_type'' (no_type node) b
      in opt_metadata ''node_name'' (no_name node) b)"

definition registration_type :: "registration \<Rightarrow> str option" where
  "registration_type reg = (case rg_node_definition reg of
     [] \<Rightarrow> None
   | d # _ \<Rightarrow> map_option (\<lambda>n. enum_name (Some n) ''NODE_TYPE_'') (Option.bind (nd_type d) (enum_str NODE_TYPES)))"

definition registration_kph :: "registration \<Rightarrow> bool" where
  "registration_kph reg = list_ex (\<lambda>m. list_ex (\<lambda>d. case Option.bind (dd_velocity_type d) vt_units of Some u \<Rightarrow> fst u = Some 2 | None \<Rightarrow> False)
     (md_detection_definition m)) (rg_mode_definition reg)"

definition registration_node :: "sapient_world \<Rightarrow> str \<Rightarrow> registration \<Rightarrow> sapient_parser \<Rightarrow> sapient_parser" where
  "registration_node sw node_id reg sp =
     update_node sw node_id (\<lambda>n. n\<lparr>no_name := rg_name reg, no_type := registration_type reg, no_velocity_kph := registration_kph reg\<rparr>) sp"

definition capability_metadata :: "capability list \<Rightarrow> (str \<times> str) list" where
  "capability_metadata cs = map (\<lambda>(i, c). (''capability_'' @ show_int (int i),
      join '' '' (List.map_filter (\<lambda>x. x) [cp_category c, cp_type c, cp_value c, cp_units c]))) (numbered cs)"

definition config_metadata :: "config_data list \<Rightarrow> (str \<times> str) list" where
  "config_metadata cs = (case cs of
     [] \<Rightarrow> []
   | c # _ \<Rightarrow> (if cd_manufacturer c \<noteq> [] then [(''manufacturer'', cd_manufacturer c)] else [])
       @ (if cd_model c \<noteq> [] then [(''model'', cd_model c)] else [])
       @ (case cd_serial_number c of Some s \<Rightarrow> [(''serial_number'', s)] | None \<Rightarrow> []))"

definition registration_builder :: "sapient_parser \<Rightarrow> effects \<Rightarrow> str \<Rightarrow> registration \<Rightarrow> str option \<Rightarrow> bytes \<Rightarrow> event_builder" where
  "registration_builder sp fx node_id reg observed raw =
     (let t = ty_sensor_status (sa_types sp);
          b = eb_metadata ''source_uid'' node_id (sapient_base sp fx t node_id observed raw);
          b = eb_metadata ''sapient_message'' ''registration'' b;
          b = put_governed t ''sapient_node_type'' (registration_type reg) b;
          b = opt_metadata ''node_name'' (rg_name reg) b;
          b = opt_metadata ''node_short_name'' (rg_short_name reg) b;
          b = opt_metadata ''icd_version'' (rg_icd_version reg) b;
          b = put_governed t ''update_interval_s'' (map_option (sap_fixed 1) (Option.bind (rg_status_interval reg) duration_seconds)) b;
          b = add_metadata (map (\<lambda>sub. (''node_sub_type'', sub)) (concat (map nd_sub_type (rg_node_definition reg)))) b;
          b = add_metadata (capability_metadata (rg_capabilities reg)) b
      in add_metadata (config_metadata (rg_config_data reg)) b)"

text \<open>An enumerated field of an alert, unless it is unspecified.\<close>

definition alert_enum :: "proto_enum \<Rightarrow> str \<Rightarrow> int option \<Rightarrow> str option" where
  "alert_enum table pre x = map_option (\<lambda>n. enum_name (Some n) pre) (Option.bind (filter_option (\<lambda>v. v \<noteq> 0) x) (enum_str table))"

definition alert_builder :: "sapient_world \<Rightarrow> sapient_parser \<Rightarrow> effects \<Rightarrow> str \<Rightarrow> sap_alert \<Rightarrow> str option \<Rightarrow> bytes \<Rightarrow> event_builder" where
  "alert_builder sw sp fx node_id a observed raw =
     (let node = sap_node_of sp node_id;
          t = ty_alert (sa_types sp);
          alert_id = (case al_alert_id a of Some i \<Rightarrow> i | None \<Rightarrow> []);
          b = eb_metadata ''source_uid'' (node_id @ '':'' @ alert_id) (sapient_base sp fx t node_id observed raw);
          b = eb_metadata ''alert_id'' alert_id b;
          b = put_governed t ''sapient_alert_type'' (alert_enum ALERT_TYPES ''ALERT_TYPE_'' (al_type a)) b;
          b = put_governed t ''sapient_alert_status'' (alert_enum ALERT_STATUSES ''ALERT_STATUS_'' (al_status a)) b;
          b = put_governed t ''sapient_priority'' (alert_enum PRIORITIES ''DISCRETE_PRIORITY_'' (al_priority a)) b;
          b = put_governed t ''sapient_ranking'' (map_option (sap_fixed 3) (filter_option unit_range (al_ranking a))) b;
          b = opt_confidence (al_confidence a) b;
          b = opt_metadata ''description'' (al_description a) b;
          b = opt_metadata ''region_id'' (al_region_id a) b
      in place_oneof (sw_libm sw) t (no_location node) (al_location a) b)"

section \<open>Messages\<close>

text \<open>What a message does to the parser, and the event it is built from.\<close>

definition sapient_update :: "sapient_world \<Rightarrow> str \<Rightarrow> sap_content \<Rightarrow> sapient_parser \<Rightarrow> sapient_parser" where
  "sapient_update sw node_id c sp =
     (case c of
        CDetectionReport r \<Rightarrow> count_unlocated (sw_libm sw) (no_location (sap_node_of sp node_id)) (dr_location r) sp
      | CStatusReport r \<Rightarrow> status_node sw node_id r sp
      | CRegistration reg \<Rightarrow> registration_node sw node_id reg (sp\<lparr>sa_registrations := sa_registrations sp + 1\<rparr>)
      | CAlert a \<Rightarrow> count_unlocated (sw_libm sw) (no_location (sap_node_of sp node_id)) (al_location a) sp
      | _ \<Rightarrow> sp\<lparr>sa_unmapped := sa_unmapped sp + 1\<rparr>)"

definition sapient_builder :: "sapient_world \<Rightarrow> effects \<Rightarrow> str \<Rightarrow> sap_content \<Rightarrow> str option \<Rightarrow> bytes \<Rightarrow> sapient_parser \<Rightarrow> event_builder option" where
  "sapient_builder sw fx node_id c observed raw sp =
     (case c of
        CDetectionReport r \<Rightarrow> Some (detection_builder sw sp fx node_id r observed raw)
      | CStatusReport r \<Rightarrow> Some (status_builder sw (status_node sw node_id r sp) fx node_id r observed raw)
      | CRegistration reg \<Rightarrow> Some (registration_builder sp fx node_id reg observed raw)
      | CAlert a \<Rightarrow> Some (alert_builder sw sp fx node_id a observed raw)
      | _ \<Rightarrow> None)"

definition sender :: "sapient_message \<Rightarrow> str" where
  "sender m = (case sm_node_id m of Some i \<Rightarrow> i | None \<Rightarrow> [])"

text \<open>The kinds of the fusion node itself.\<close>

definition fusion_kind :: "sap_content \<Rightarrow> bool" where
  "fusion_kind c = (case c of CDetectionReport _ \<Rightarrow> False | CStatusReport _ \<Rightarrow> False | CRegistration _ \<Rightarrow> False | CAlert _ \<Rightarrow> False | _ \<Rightarrow> True)"

definition parse_message :: "sapient_world \<Rightarrow> effects \<Rightarrow> bytes \<Rightarrow> sapient_parser \<Rightarrow> sapient_parser \<times> (sapient_error + event option)" where
  "parse_message sw fx frame sp =
     (case sapient_decode (sw_codec sw) frame of
        None \<Rightarrow> (sp, Inl SapientDecode)
      | Some m \<Rightarrow>
          let observed = Option.bind (sm_timestamp m) (sapient_rfc3339 (sw_fmt sw));
              node_id = sender m
          in case sm_content m of
               None \<Rightarrow> (sp, Inl SapientEmpty)
             | Some c \<Rightarrow>
                 (sapient_update sw node_id c sp,
                  case sapient_builder sw fx node_id c observed frame sp of
                    None \<Rightarrow> Inr None
                  | Some b \<Rightarrow> (case build b of Inl e \<Rightarrow> Inl (SapientBuild e) | Inr e \<Rightarrow> Inr (Some e))))"

definition sapient_parse :: "sapient_world \<Rightarrow> effects \<Rightarrow> bytes \<Rightarrow> sapient_parser \<Rightarrow> (sapient_parser \<times> (sapient_error + event list)) option" where
  "sapient_parse sw fx frame sp =
     (let (sp', r) = parse_message sw fx frame sp in Some (sp', map_sum (\<lambda>e. e) (\<lambda>e. case e of Some x \<Rightarrow> [x] | None \<Rightarrow> []) r))"

section \<open>The table of nodes\<close>

definition nodes_ok :: "sapient_parser \<Rightarrow> bool" where
  "nodes_ok sp \<longleftrightarrow> distinct (map fst (sa_nodes sp)) \<and> length (sa_nodes sp) \<le> MAX_NODES"

text \<open>The first key of a table that is not empty is one of its keys.\<close>

definition picks_a_key :: "sapient_world \<Rightarrow> bool" where
  "picks_a_key sw \<longleftrightarrow> (\<forall>ns. ns \<noteq> [] \<longrightarrow> sw_victim sw ns \<in> fst ` set ns)"

lemma length_delete: "distinct (map fst ns) \<Longrightarrow> k \<in> fst ` set ns \<Longrightarrow> Suc (length (AList.delete k ns)) = length ns"
proof (induction ns)
  case (Cons n ns)
  then show ?case by (cases n) (cases "fst n = k"; auto)
qed simp

lemma length_update_new: "k \<notin> fst ` set ns \<Longrightarrow> length (AList.update k v ns) = Suc (length ns)"
  by (induction ns) auto

lemma length_update_old: "k \<in> fst ` set ns \<Longrightarrow> length (AList.update k v ns) = length ns"
  by (induction ns) auto

lemma update_node_ok:
  assumes "nodes_ok sp" "picks_a_key sw"
  shows "nodes_ok (update_node sw node_id f sp)"
proof (cases "map_of (sa_nodes sp) node_id")
  case (Some n)
  then have "node_id \<in> fst ` set (sa_nodes sp)" by (metis domI dom_map_of_conv_image_fst)
  with assms(1) Some show ?thesis by (simp add: update_node_def nodes_ok_def length_update_old distinct_update)
next
  case None
  then have new: "node_id \<notin> fst ` set (sa_nodes sp)" by (simp add: map_of_eq_None_iff)
  show ?thesis
  proof (cases "MAX_NODES \<le> length (sa_nodes sp)")
    case True
    then have "sw_victim sw (sa_nodes sp) \<in> fst ` set (sa_nodes sp)"
      using assms(2) unfolding picks_a_key_def MAX_NODES_def by (cases "sa_nodes sp = []") simp_all
    then have "Suc (length (AList.delete (sw_victim sw (sa_nodes sp)) (sa_nodes sp))) = length (sa_nodes sp)"
      using assms(1) by (auto simp: nodes_ok_def intro: length_delete)
    moreover have "node_id \<notin> fst ` set (AList.delete (sw_victim sw (sa_nodes sp)) (sa_nodes sp))"
      by (rule contra_subsetD [OF dom_delete_subset new])
    ultimately show ?thesis
      using None True assms(1) by (simp add: update_node_def nodes_ok_def length_update_new distinct_update distinct_delete Let_def)
  next
    case False
    then show ?thesis using None new assms(1) by (simp add: update_node_def nodes_ok_def length_update_new distinct_update Let_def)
  qed
qed

lemma update_node_nodes:
  assumes "MAX_NODES \<le> length (sa_nodes sp) \<longrightarrow> node_id \<in> fst ` set (sa_nodes sp)"
  shows "sap_node_of (update_node sw node_id f sp) i = (if i = node_id then f (sap_node_of sp i) else sap_node_of sp i)"
    "fst ` set (sa_nodes (update_node sw node_id f sp)) = insert node_id (fst ` set (sa_nodes sp))"
proof -
  have "sa_nodes (update_node sw node_id f sp) = AList.update node_id (f (sap_node_of sp node_id)) (sa_nodes sp)"
  proof (cases "map_of (sa_nodes sp) node_id")
    case None
    then have "node_id \<notin> fst ` set (sa_nodes sp)" by (simp add: map_of_eq_None_iff)
    with None assms show ?thesis by (simp add: update_node_def sap_node_of_def)
  qed (simp add: update_node_def sap_node_of_def)
  then show "sap_node_of (update_node sw node_id f sp) i = (if i = node_id then f (sap_node_of sp i) else sap_node_of sp i)"
      "fst ` set (sa_nodes (update_node sw node_id f sp)) = insert node_id (fst ` set (sa_nodes sp))"
    by (simp_all add: sap_node_of_def update_conv' dom_update)
qed

text \<open>What a message says of a node.\<close>

definition node_said :: "sapient_world \<Rightarrow> str \<Rightarrow> bytes \<Rightarrow> sap_node \<Rightarrow> sap_node" where
  "node_said sw i frame n =
     (case sapient_decode (sw_codec sw) frame of
        None \<Rightarrow> n
      | Some m \<Rightarrow>
          if sender m \<noteq> i then n
          else (case sm_content m of
                  Some (CStatusReport r) \<Rightarrow>
                    (case Option.bind (sr_node_location r) wgs84 of Some p \<Rightarrow> n\<lparr>no_location := Some p\<rparr> | None \<Rightarrow> n)
                | Some (CRegistration reg) \<Rightarrow> n\<lparr>no_name := rg_name reg, no_type := registration_type reg, no_velocity_kph := registration_kph reg\<rparr>
                | _ \<Rightarrow> n))"

definition senders :: "sapient_world \<Rightarrow> bytes list \<Rightarrow> str set" where
  "senders sw frames = set (List.map_filter (\<lambda>frame. map_option sender (sapient_decode (sw_codec sw) frame)) frames)"

definition sapient_run :: "sapient_world \<Rightarrow> (effects \<times> bytes) list \<Rightarrow> sapient_parser \<Rightarrow> sapient_parser" where
  "sapient_run sw fs sp = fold (\<lambda>(fx, frame) sp. fst (parse_message sw fx frame sp)) fs sp"

lemma counters_keep [simp]:
  "sa_nodes (count_unlocated lm nl l sp) = sa_nodes sp" "sa_source_id (count_unlocated lm nl l sp) = sa_source_id sp"
  by (simp_all add: count_unlocated_def split: option.split location_oneof.split)

lemma update_node_source [simp]: "sa_source_id (update_node sw i f sp) = sa_source_id sp"
  by (simp add: update_node_def Let_def split: option.split)

lemma sapient_update_source [simp]: "sa_source_id (sapient_update sw i c sp) = sa_source_id sp"
  by (simp add: sapient_update_def status_node_def registration_node_def split: sap_content.split option.split)

lemma nodes_ok_more: "nodes_ok (sp\<lparr>sa_registrations := k\<rparr>) = nodes_ok sp" "nodes_ok (sp\<lparr>sa_unmapped := k\<rparr>) = nodes_ok sp"
  "nodes_ok (count_unlocated lm nl l sp) = nodes_ok sp"
  by (simp_all add: nodes_ok_def)

lemma sapient_update_ok: "nodes_ok sp \<Longrightarrow> picks_a_key sw \<Longrightarrow> nodes_ok (sapient_update sw i c sp)"
  by (simp add: sapient_update_def status_node_def registration_node_def nodes_ok_more update_node_ok split: sap_content.split option.split)

lemma node_of_more [simp]:
  "sap_node_of (sp\<lparr>sa_registrations := k\<rparr>) j = sap_node_of sp j" "sap_node_of (sp\<lparr>sa_unmapped := k\<rparr>) j = sap_node_of sp j"
  "sap_node_of (count_unlocated lm nl l sp) j = sap_node_of sp j"
  by (simp_all add: sap_node_of_def)

definition told :: "sap_content \<Rightarrow> sap_node \<Rightarrow> sap_node" where
  "told c n = (case c of
     CStatusReport r \<Rightarrow> (case Option.bind (sr_node_location r) wgs84 of Some p \<Rightarrow> n\<lparr>no_location := Some p\<rparr> | None \<Rightarrow> n)
   | CRegistration reg \<Rightarrow> n\<lparr>no_name := rg_name reg, no_type := registration_type reg, no_velocity_kph := registration_kph reg\<rparr>
   | _ \<Rightarrow> n)"

lemma sapient_update_nodes:
  assumes "MAX_NODES \<le> length (sa_nodes sp) \<longrightarrow> i \<in> fst ` set (sa_nodes sp)"
  shows "sap_node_of (sapient_update sw i c sp) j = (if j = i then told c (sap_node_of sp j) else sap_node_of sp j)"
    "fst ` set (sa_nodes (sapient_update sw i c sp)) \<subseteq> insert i (fst ` set (sa_nodes sp))"
proof -
  have "MAX_NODES \<le> length (sa_nodes (sp\<lparr>sa_registrations := k\<rparr>)) \<longrightarrow> i \<in> fst ` set (sa_nodes (sp\<lparr>sa_registrations := k\<rparr>))" for k
    using assms by simp
  note u = update_node_nodes [OF assms] update_node_nodes [OF this, unfolded node_of_more]
  show "sap_node_of (sapient_update sw i c sp) j = (if j = i then told c (sap_node_of sp j) else sap_node_of sp j)"
    by (cases c) (simp_all add: sapient_update_def status_node_def registration_node_def told_def u split: option.split)
  show "fst ` set (sa_nodes (sapient_update sw i c sp)) \<subseteq> insert i (fst ` set (sa_nodes sp))"
    by (cases c) (simp_all add: sapient_update_def status_node_def registration_node_def u subset_insertI split: option.split)
qed

lemma node_said_told:
  "sapient_decode (sw_codec sw) frame = Some m \<Longrightarrow> node_said sw i frame n
     = (case sm_content m of Some c \<Rightarrow> if sender m = i then told c n else n | None \<Rightarrow> n)"
  by (simp add: node_said_def told_def split: option.split sap_content.split)

text \<open>While the table has room for every sender, it holds for each node what its own messages said.\<close>

lemma sapient_run_nodes:
  assumes "nodes_ok sp" "picks_a_key sw" "card (fst ` set (sa_nodes sp) \<union> senders sw (map snd fs)) \<le> MAX_NODES"
  shows "sap_node_of (sapient_run sw fs sp) i = fold (node_said sw i) (map snd fs) (sap_node_of sp i) \<and> nodes_ok (sapient_run sw fs sp)"
  using assms(1,3)
proof (induction fs arbitrary: sp)
  case Nil
  then show ?case by (simp add: sapient_run_def)
next
  case (Cons f fs)
  obtain fx frame where f: "f = (fx, frame)" by force
  let ?sp = "fst (parse_message sw fx frame sp)"
  have fin: "finite (senders sw frames)" for frames by (simp add: senders_def)
  have sub: "senders sw (map snd fs) \<subseteq> senders sw (map snd (f # fs))" by (auto simp: senders_def map_filter_simps split: option.split)
  have step: "nodes_ok ?sp \<and> sap_node_of ?sp i = node_said sw i frame (sap_node_of sp i)
      \<and> fst ` set (sa_nodes ?sp) \<subseteq> fst ` set (sa_nodes sp) \<union> senders sw (map snd (f # fs))"
  proof (cases "\<exists>m c. sapient_decode (sw_codec sw) frame = Some m \<and> sm_content m = Some c")
    case True
    then obtain m c where d: "sapient_decode (sw_codec sw) frame = Some m" "sm_content m = Some c" by auto
    let ?j = "sender m"
    have j: "?j \<in> senders sw (map snd (f # fs))" using d(1) f by (simp add: senders_def map_filter_simps)
    have room: "?j \<in> fst ` set (sa_nodes sp)" if "MAX_NODES \<le> length (sa_nodes sp)"
    proof (rule ccontr)
      assume n: "?j \<notin> fst ` set (sa_nodes sp)"
      have "Suc (length (sa_nodes sp)) = card (insert ?j (fst ` set (sa_nodes sp)))"
        using n Cons.prems(1) distinct_card [of "map fst (sa_nodes sp)"] by (simp add: nodes_ok_def)
      also have "\<dots> \<le> card (fst ` set (sa_nodes sp) \<union> senders sw (map snd (f # fs)))"
        using j fin by (intro card_mono) auto
      finally show False using Cons.prems(2) that by simp
    qed
    have p: "?sp = sapient_update sw ?j c sp" by (simp add: parse_message_def d Let_def)
    show ?thesis
      unfolding p node_said_told [OF d(1)] using sapient_update_nodes [of sp ?j sw c] room j d(2) sapient_update_ok [OF Cons.prems(1) assms(2)]
      by auto
  next
    case False
    then have "?sp = sp" "node_said sw i frame n = n" for n
      by (auto simp: parse_message_def node_said_def Let_def split: option.splits)
    with Cons.prems(1) show ?thesis by simp
  qed
  have "card (fst ` set (sa_nodes ?sp) \<union> senders sw (map snd fs)) \<le> card (fst ` set (sa_nodes sp) \<union> senders sw (map snd (f # fs)))"
    using step sub fin by (intro card_mono) auto
  with Cons.prems(2) have "card (fst ` set (sa_nodes ?sp) \<union> senders sw (map snd fs)) \<le> MAX_NODES" by simp
  from Cons.IH [OF _ this] step f show ?case by (simp add: sapient_run_def)
qed

section \<open>Builders\<close>

definition sap_fields :: "event_builder \<Rightarrow> str option \<times> str option \<times> str \<times> str \<times> bytes \<times> str list \<times> bool" where
  "sap_fields b = (b_id b, b_timestamp b, b_source_id b, b_entity_type b, b_payload b, b_policy_tags b, b_strict_entity_namespace b)"

lemma sap_setters [simp]:
  "sap_fields (eb_metadata k v b) = sap_fields b" "sap_fields (eb_attribute k v b) = sap_fields b" "sap_fields (opt_metadata k r b) = sap_fields b"
  "sap_fields (opt_attribute k r b) = sap_fields b" "sap_fields (eb_governed ont ty k v b) = sap_fields b" "sap_fields (put_governed ty k r b) = sap_fields b"
  "sap_fields (eb_location x y z b) = sap_fields b" "sap_fields (opt_confidence c b) = sap_fields b" "sap_fields (add_metadata kvs b) = sap_fields b"
proof -
  show a: "sap_fields (eb_metadata k v b) = sap_fields b" "sap_fields (eb_attribute k v b) = sap_fields b" for k v b
    by (simp_all add: sap_fields_def eb_defs)
  show "sap_fields (opt_metadata k r b) = sap_fields b" "sap_fields (opt_attribute k r b) = sap_fields b" "sap_fields (eb_governed ont ty k v b) = sap_fields b"
      "sap_fields (put_governed ty k r b) = sap_fields b"
    by (simp_all add: opt_metadata_def opt_attribute_def eb_governed_def put_governed_def a split: option.split)
  show "sap_fields (eb_location x y z b) = sap_fields b" "sap_fields (opt_confidence c b) = sap_fields b"
    by (simp_all add: sap_fields_def opt_confidence_def eb_defs split: option.split)
  show "sap_fields (add_metadata kvs b) = sap_fields b"
    unfolding add_metadata_def by (induction kvs arbitrary: b) (auto simp: a)
qed

lemma sap_adders [simp]:
  "sap_fields (place ty loc pre b) = sap_fields b" "sap_fields (place_relative lm ty nl rb b) = sap_fields b"
  "sap_fields (place_oneof lm ty nl l b) = sap_fields b" "sap_fields (detection_ids i r b) = sap_fields b"
  "sap_fields (add_velocity lm ty kph v b) = sap_fields b" "sap_fields (add_top_class ty t b) = sap_fields b"
proof -
  show p: "sap_fields (place ty loc pre b) = sap_fields b" "sap_fields (place_relative lm ty nl rb b) = sap_fields b" for ty loc pre b nl rb
    by (simp_all add: place_def place_relative_def Let_def split: option.split prod.split)
  show "sap_fields (place_oneof lm ty nl l b) = sap_fields b" "sap_fields (detection_ids i r b) = sap_fields b"
      "sap_fields (add_velocity lm ty kph v b) = sap_fields b" "sap_fields (add_top_class ty t b) = sap_fields b"
    by (simp_all add: place_oneof_def detection_ids_def add_velocity_def add_top_class_def Let_def p split: option.split location_oneof.split prod.split)
qed

lemma sapient_base_fields:
  "sap_fields (sapient_base sp fx entity node_id observed raw)
     = (Some (uuid fx), Some (case observed of Some ts \<Rightarrow> ts | None \<Rightarrow> wall_clock fx), sa_source_id sp, entity, raw, [], False)"
  "b_location (sapient_base sp fx entity node_id observed raw) = None"
  by (simp_all add: sapient_base_def sap_fields_def Let_def eb_defs eb_new_def opt_attribute_def split: option.split)

definition geo :: "f64 \<times> f64 \<times> f64 \<Rightarrow> geo_point" where
  "geo = (\<lambda>(lat, lon, alt). \<lparr>latitude = lat, longitude = lon, altitude_m = alt\<rparr>)"

lemma loc_setters [simp]:
  "b_location (put_governed ty k r b) = b_location b" "b_location (opt_confidence c b) = b_location b" "b_location (add_metadata kvs b) = b_location b"
proof -
  show "b_location (put_governed ty k r b) = b_location b" "b_location (opt_confidence c b) = b_location b"
    by (simp_all add: put_governed_def opt_confidence_def eb_confidence_def split: option.split)
  show "b_location (add_metadata kvs b) = b_location b"
    unfolding add_metadata_def by (induction kvs arbitrary: b) auto
qed

text \<open>The position a report gives, with the node's own position known or not.\<close>

definition reported_position :: "libm \<Rightarrow> (f64 \<times> f64 \<times> f64) option \<Rightarrow> location_oneof option \<Rightarrow> (f64 \<times> f64 \<times> f64) option" where
  "reported_position lm nl l =
     (case l of Some (AtLocation loc) \<Rightarrow> wgs84 loc | Some (AtRangeBearing rb) \<Rightarrow> relative_position lm nl rb | None \<Rightarrow> None)"

lemma place_location: "b_location b = None \<Longrightarrow> b_location (place ty loc pre b) = map_option geo (wgs84 loc)"
  by (simp add: place_def Let_def geo_def eb_fixed_sel split: option.split prod.split)

lemma place_oneof_location: "b_location b = None \<Longrightarrow> b_location (place_oneof lm ty nl l b) = map_option geo (reported_position lm nl l)"
  by (simp add: place_oneof_def reported_position_def place_location place_relative_def Let_def geo_def eb_fixed_sel
      split: option.split location_oneof.split prod.split)

lemma detection_adders_location [simp]:
  "b_location (detection_ids i r b) = b_location b" "b_location (add_velocity lm ty kph v b) = b_location b"
  "b_location (add_top_class ty t b) = b_location b"
  by (simp_all add: detection_ids_def add_velocity_def add_top_class_def Let_def split: option.split prod.split)

lemma detection_builder_fields:
  "sap_fields (detection_builder sw sp fx i r observed raw)
     = (Some (uuid fx), Some (case observed of Some ts \<Rightarrow> ts | None \<Rightarrow> wall_clock fx), sa_source_id sp, detection_entity sw sp r, raw, [], False)"
  "b_location (detection_builder sw sp fx i r observed raw) = map_option geo (reported_position (sw_libm sw) (no_location (sap_node_of sp i)) (dr_location r))"
  by (simp_all add: detection_builder_def Let_def sapient_base_fields place_oneof_location)

lemma alert_builder_fields:
  "sap_fields (alert_builder sw sp fx i a observed raw)
     = (Some (uuid fx), Some (case observed of Some ts \<Rightarrow> ts | None \<Rightarrow> wall_clock fx), sa_source_id sp, ty_alert (sa_types sp), raw, [], False)"
  "b_location (alert_builder sw sp fx i a observed raw) = map_option geo (reported_position (sw_libm sw) (no_location (sap_node_of sp i)) (al_location a))"
  by (simp_all add: alert_builder_def Let_def sapient_base_fields place_oneof_location)

lemma status_node_source [simp]: "sa_source_id (status_node sw i r sp) = sa_source_id sp" "sa_types (status_node sw i r sp) = sa_types sp"
  by (simp_all add: status_node_def update_node_def Let_def split: option.split)

lemma status_builder_fields:
  "sap_fields (status_builder sw sp fx i r observed raw)
     = (Some (uuid fx), Some (case observed of Some ts \<Rightarrow> ts | None \<Rightarrow> wall_clock fx), sa_source_id sp, ty_sensor_status (sa_types sp), raw, [], False)"
  "b_location (status_builder sw sp fx i r observed raw) = map_option geo (Option.bind (sr_node_location r) wgs84)"
  by (simp_all add: status_builder_def Let_def sapient_base_fields place_location split: option.split)

lemma registration_builder_fields:
  "sap_fields (registration_builder sp fx i reg observed raw)
     = (Some (uuid fx), Some (case observed of Some ts \<Rightarrow> ts | None \<Rightarrow> wall_clock fx), sa_source_id sp, ty_sensor_status (sa_types sp), raw, [], False)"
  "b_location (registration_builder sp fx i reg observed raw) = None"
  by (simp_all add: registration_builder_def Let_def sapient_base_fields)

text \<open>The entity type and the position of the event of a message.\<close>

definition content_entity :: "sapient_world \<Rightarrow> sapient_parser \<Rightarrow> sap_content \<Rightarrow> str" where
  "content_entity sw sp c = (case c of CDetectionReport r \<Rightarrow> detection_entity sw sp r | CAlert a \<Rightarrow> ty_alert (sa_types sp)
     | _ \<Rightarrow> ty_sensor_status (sa_types sp))"

definition content_position :: "libm \<Rightarrow> sap_node \<Rightarrow> sap_content \<Rightarrow> (f64 \<times> f64 \<times> f64) option" where
  "content_position lm n c = (case c of
     CDetectionReport r \<Rightarrow> reported_position lm (no_location n) (dr_location r)
   | CAlert a \<Rightarrow> reported_position lm (no_location n) (al_location a)
   | CStatusReport r \<Rightarrow> Option.bind (sr_node_location r) wgs84
   | _ \<Rightarrow> None)"

lemma sapient_builder_fields:
  assumes "sapient_builder sw fx i c observed raw sp = Some b"
  shows "sap_fields b = (Some (uuid fx), Some (case observed of Some ts \<Rightarrow> ts | None \<Rightarrow> wall_clock fx), sa_source_id sp, content_entity sw sp c, raw, [], False)"
    "b_location b = map_option geo (content_position (sw_libm sw) (sap_node_of sp i) c)"
  using assms
  by (cases c; auto simp: sapient_builder_def content_entity_def content_position_def detection_builder_fields alert_builder_fields
      status_builder_fields registration_builder_fields)+

lemma parse_message_event:
  assumes "parse_message sw fx frame sp = (sp', Inr (Some e))"
  shows "\<exists>m c. sapient_decode (sw_codec sw) frame = Some m \<and> sm_content m = Some c \<and> canonical_event e \<and> ev_source_id e = sa_source_id sp
    \<and> ev_payload e = frame \<and> ev_entity_type e = content_entity sw sp c
    \<and> ev_timestamp e = (case Option.bind (sm_timestamp m) (sapient_rfc3339 (sw_fmt sw)) of Some ts \<Rightarrow> ts | None \<Rightarrow> wall_clock fx)
    \<and> ev_location e = map_option geo (content_position (sw_libm sw) (sap_node_of sp (sender m)) c)"
proof -
  from assms obtain m c b where d: "sapient_decode (sw_codec sw) frame = Some m" "sm_content m = Some c"
      and b: "sapient_builder sw fx (sender m) c (Option.bind (sm_timestamp m) (sapient_rfc3339 (sw_fmt sw))) frame sp = Some b" "build b = Inr e"
    by (auto simp: parse_message_def Let_def split: option.splits sum.splits)
  have "e = built_event b" using b(2) by (simp add: build_Inr_iff)
  with d sapient_builder_fields [OF b(1)] build_source [OF b(2)] show ?thesis by (auto simp: sap_fields_def built_event_def)
qed

lemma parse_message_source: "sa_source_id (fst (parse_message sw fx frame sp)) = sa_source_id sp"
  by (simp add: parse_message_def Let_def split: option.split)

interpretation sapient_parses: frame_parser "sapient_parse sw" sa_source_id for sw
proof
  fix fx frame sp sp' r
  assume "sapient_parse sw fx frame sp = Some (sp', r)"
  then show "sa_source_id sp' = sa_source_id sp"
    using parse_message_source [of sw fx frame sp] by (auto simp: sapient_parse_def split: prod.splits)
next
  fix fx frame sp sp' es e
  assume a: "sapient_parse sw fx frame sp = Some (sp', Inr es)" "e \<in> set es"
  obtain p r where pr: "parse_message sw fx frame sp = (p, r)" by force
  with a(1) obtain q where "r = Inr q" "p = sp'" "es = (case q of Some x \<Rightarrow> [x] | None \<Rightarrow> [])"
    by (cases r) (simp_all add: sapient_parse_def)
  with a(2) pr have "parse_message sw fx frame sp = (sp', Inr (Some e))" by (cases q) simp_all
  from parse_message_event [OF this] show "canonical_event e \<and> ev_source_id e = sa_source_id sp" by auto
qed

section \<open>Properties\<close>

lemma sapient_new_nodes: "nodes_ok (sapient_new src en)" "sap_node_of (sapient_new src en) i = no_node" "sa_nodes (sapient_new src en) = []"
  by (simp_all add: sapient_new_def nodes_ok_def sap_node_of_def)

text \<open>C22. An event that the parser publishes after any history of messages from at most \<open>MAX_NODES\<close> nodes is canonical, carries the message as
  its payload and the message's own time, and stands where the message says: at the position it gives in degrees or radians, or, for
  range and bearing, at the destination from the last valid position that this node, and no other, reported before; the table stays
  within its bound, and a message of the fusion node's own kinds publishes nothing and is counted.\<close>

theorem sapient_event_exact:
  assumes "picks_a_key sw" "card (senders sw (map snd history)) \<le> MAX_NODES"
    "sapient_decode (sw_codec sw) frame = Some m" "sm_content m = Some c"
    "parse_message sw fx frame (sapient_run sw history (sapient_new src en)) = (sp', r)"
  shows "length (sa_nodes (sapient_run sw history (sapient_new src en))) \<le> MAX_NODES
    \<and> (\<forall>e. r = Inr (Some e) \<longrightarrow> canonical_event e \<and> ev_payload e = frame
        \<and> ev_timestamp e = (case Option.bind (sm_timestamp m) (sapient_rfc3339 (sw_fmt sw)) of Some ts \<Rightarrow> ts | None \<Rightarrow> wall_clock fx)
        \<and> ev_location e = map_option geo (content_position (sw_libm sw) (fold (node_said sw (sender m)) (map snd history) no_node) c))
    \<and> (fusion_kind c
        \<longrightarrow> r = Inr None \<and> sa_unmapped sp' = sa_unmapped (sapient_run sw history (sapient_new src en)) + 1)"
proof -
  let ?sp = "sapient_run sw history (sapient_new src en)"
  have run: "sap_node_of ?sp i = fold (node_said sw i) (map snd history) no_node \<and> nodes_ok ?sp" for i
    using sapient_run_nodes [OF sapient_new_nodes(1) assms(1), of src en history i] assms(2) by (simp add: sapient_new_nodes)
  have "canonical_event e \<and> ev_payload e = frame
        \<and> ev_timestamp e = (case Option.bind (sm_timestamp m) (sapient_rfc3339 (sw_fmt sw)) of Some ts \<Rightarrow> ts | None \<Rightarrow> wall_clock fx)
        \<and> ev_location e = map_option geo (content_position (sw_libm sw) (fold (node_said sw (sender m)) (map snd history) no_node) c)"
    if "r = Inr (Some e)" for e
    using parse_message_event [of sw fx frame ?sp sp' e] assms(3-5) that run [of "sender m"] by auto
  moreover have "r = Inr None \<and> sa_unmapped sp' = sa_unmapped ?sp + 1" if "fusion_kind c"
    using that assms(3-5) by (cases c) (auto simp: parse_message_def sapient_builder_def sapient_update_def fusion_kind_def Let_def)
  ultimately show ?thesis using run by (auto simp: nodes_ok_def)
qed

text \<open>A configuration that is accepted leaves every entity type in a namespace, and a detection of any class gets one of them.\<close>

lemma sapient_entity_map_namespaced:
  "sapient_entity_map sw es sp = Inr sp' \<Longrightarrow> \<forall>t \<in> ran (sa_entity_map sp). CHR '':'' \<in> set t
   \<Longrightarrow> sa_types sp' = sa_types sp \<and> (\<forall>t \<in> ran (sa_entity_map sp'). CHR '':'' \<in> set t)"
proof (induction sw es sp rule: sapient_entity_map.induct)
  case (2 sw cls entity es sp)
  from "2.prems"(1) have c: "CHR '':'' \<in> set entity" by (simp split: if_splits)
  have "\<forall>t \<in> ran ((sa_entity_map sp)(sw_lower sw (trim cls) \<mapsto> entity)). CHR '':'' \<in> set t"
    using c "2.prems"(2) unfolding ran_def by (auto split: if_splits)
  with "2.IH" "2.prems"(1) c show ?case by (simp add: fun_upd_def)
qed simp

lemma detection_entity_namespaced:
  assumes "sapient_options node_id fresh types = Inr (i, types')" "sapient_entity_map sw es (with_types types' (sapient_new src en)) = Inr sp"
  shows "CHR '':'' \<in> set (detection_entity sw sp r)"
proof -
  have "sa_types sp = types' \<and> (\<forall>t \<in> ran (sa_entity_map sp). CHR '':'' \<in> set t)"
    using sapient_entity_map_namespaced [OF assms(2)] by (simp add: with_types_def sapient_new_def)
  moreover have "CHR '':'' \<in> set (ty_detection types')" "CHR '':'' \<in> set (ty_track types')"
    using assms(1) by (auto simp: sapient_options_def Let_def split: option.splits if_splits)
  ultimately show ?thesis by (auto simp: detection_entity_def ranI split: option.split bind_splits)
qed

text \<open>A location is never in metres once it is known to be WGS-84: its accuracy never becomes an attribute.\<close>

lemma wgs84_not_utm: "wgs84 loc \<noteq> None \<Longrightarrow> lo_coordinate_system loc \<noteq> Some 5"
  by (auto simp: wgs84_def)

text \<open>When the most confident classification is not the first one, the first is in no field of the event: the top one is repeated.\<close>

lemma first_class_lost:
  "top_classification [\<lparr>cl_type = Some ''Bird'', cl_confidence = Some (f64_of_int 0)\<rparr>, \<lparr>cl_type = Some ''Drone'', cl_confidence = Some (f64_of_int 1)\<rparr>]
     = Some (''Drone'', Some (f64_of_int 1))"
  "class_metadata [\<lparr>cl_type = Some ''Bird'', cl_confidence = Some (f64_of_int 0)\<rparr>, \<lparr>cl_type = Some ''Drone'', cl_confidence = Some (f64_of_int 1)\<rparr>]
     = [(''classification_1'', ''Drone'')]"
  by code_simp+

text \<open>Keys that repeat make \<open>build\<close> reject the report: two sub-types of a registration do.\<close>

lemma add_metadata_keys: "b_metadata (add_metadata kvs b) = b_metadata b @ kvs"
  unfolding add_metadata_def by (induction kvs arbitrary: b) (auto simp: eb_metadata_def)

lemma metadata_attribute [simp]: "b_metadata (eb_attribute k v b) = b_metadata b"
  by (simp add: eb_attribute_def)

lemma repeated_key_rejected:
  assumes "build b = Inr e" "b_metadata b = xs @ (k, v) # ys @ (k, v') # zs"
  shows False
  using assms by (auto simp: build_Inr_iff buildable_def)

lemma two_sub_types_rejected:
  assumes "concat (map nd_sub_type (rg_node_definition reg)) = s # s' # ss"
  shows "build (registration_builder sp fx i reg observed raw) \<noteq> Inr e"
proof
  assume b: "build (registration_builder sp fx i reg observed raw) = Inr e"
  obtain xs ys where "b_metadata (registration_builder sp fx i reg observed raw) = xs @ (''node_sub_type'', s) # [] @ (''node_sub_type'', s') # ys"
    by (simp add: registration_builder_def Let_def add_metadata_keys assms)
  from repeated_key_rejected [OF b this] show False .
qed

section \<open>Examples\<close>

definition ex_site :: sap_location where
  "ex_site = \<lparr>lo_x = Some (f64_of_int 50), lo_y = Some (f64_of_int 26), lo_z = None, lo_x_error = None, lo_y_error = None,
     lo_coordinate_system = Some 1, lo_datum = Some 1, lo_utm_zone = None\<rparr>"

definition ex_status :: status_report where
  "ex_status = \<lparr>sr_report_id = None, sr_system = Some 1, sr_info = None, sr_active_task_id = None, sr_mode = None, sr_power = None,
     sr_node_location = Some ex_site, sr_status = []\<rparr>"

definition ex_detection :: detection_report where
  "ex_detection = \<lparr>dr_report_id = None, dr_object_id = Some ''o1'', dr_task_id = None, dr_state = None, dr_location = Some (AtLocation ex_site),
     dr_confidence = None, dr_track_info = [], dr_object_info = [], dr_classification = [], dr_behaviour = [], dr_file_urls = [], dr_signal = [],
     dr_velocity = None, dr_colour = None, dr_native_id = None\<rparr>"

definition ex_sapient :: sapient_world where
  "ex_sapient = \<lparr>sw_codec = \<lparr>sapient_decode = (\<lambda>bs. if bs = [] then None
         else Some \<lparr>sm_timestamp = None, sm_node_id = Some ''radar'', sm_destination_id = None,
           sm_content = Some (if bs = [1] then CStatusReport ex_status else CDetectionReport ex_detection)\<rparr>), sapient_encode = (\<lambda>m. [])\<rparr>,
     sw_libm = \<lparr>m_sin = (\<lambda>x. x), m_cos = (\<lambda>x. x), m_asin = (\<lambda>x. x), m_atan2 = (\<lambda>x y. x), m_hypot = (\<lambda>x y. x)\<rparr>,
     sw_fmt = (\<lambda>n. None), sw_lower = (\<lambda>s. s), sw_victim = (\<lambda>ns. fst (hd ns))\<rparr>"

definition sapient_effects :: effects where
  "sapient_effects = \<lparr>instant = 0, wall_clock = ''2026-06-10T08:00:00Z'', uuid = ''0192f1f4''\<rparr>"

definition ex_run :: sapient_parser where
  "ex_run = sapient_run ex_sapient [(sapient_effects, [1])] (sapient_new ''sapient-1'' \<lparr>hostility = None\<rparr>)"

lemma ex_sapient_parses: "case parse_message ex_sapient sapient_effects [2] ex_run of (sp', Inr (Some e)) \<Rightarrow> True | _ \<Rightarrow> False"
  by code_simp

lemma ex_sapient_place: "wgs84 ex_site = Some (f64_of_int 26, f64_of_int 50, f64_of_int 0)"
  by code_simp

theorem sapient_event_exact_witness:
  "\<exists>sp' e. parse_message ex_sapient sapient_effects [2] ex_run = (sp', Inr (Some e))
     \<and> ev_location e = Some \<lparr>latitude = f64_of_int 26, longitude = f64_of_int 50, altitude_m = f64_of_int 0\<rparr>"
proof -
  obtain sp' e where e: "parse_message ex_sapient sapient_effects [2] ex_run = (sp', Inr (Some e))"
    using ex_sapient_parses by (auto split: prod.splits sum.splits option.splits)
  obtain m where d: "sapient_decode (sw_codec ex_sapient) [2] = Some m" "sm_content m = Some (CDetectionReport ex_detection)" "sender m = ''radar''"
    by (simp add: ex_sapient_def sender_def)
  have "picks_a_key ex_sapient" by (simp add: picks_a_key_def ex_sapient_def)
  moreover have "senders ex_sapient (map snd [(sapient_effects, [1])]) = {''radar''}"
    by (simp add: senders_def map_filter_simps ex_sapient_def sender_def)
  then have "card (senders ex_sapient (map snd [(sapient_effects, [1])])) \<le> MAX_NODES" by (simp add: MAX_NODES_def)
  ultimately have "ev_location e = map_option geo (content_position (sw_libm ex_sapient) (fold (node_said ex_sapient (sender m)) (map snd [(sapient_effects, [1])]) no_node)
      (CDetectionReport ex_detection))"
    using sapient_event_exact [OF _ _ d(1,2) e [unfolded ex_run_def]] by blast
  with e show ?thesis
    by (simp add: content_position_def reported_position_def ex_detection_def ex_sapient_place geo_def)
qed

end
