(* ===== verification/Sapient_Egress.thy ===== *)
theory Sapient_Egress
  imports Sapient Generic_Egress F64_Text
begin

text \<open>
  The SAPIENT egress, \<open>sapient-egress/src/\<close>: the identifiers of \<open>ulid.rs\<close>, the messages of \<open>report.rs\<close>, the connection of
  \<open>link.rs\<close> and the loop of \<open>lib.rs\<close>. What the network does is a list of attempts to connect, each with the reads that the fusion
  node's bytes arrive in and the number of writes that succeed; a read that waits for ever is one that the acknowledgement's
  timeout ends. The link keeps a log of what crosses its connections, for the statements below. Fields of the schema that no
  program of the repository sets or reads are not in the messages.
\<close>

section \<open>Single precision\<close>

definition ulp32 :: "rat \<Rightarrow> rat" where
  "ulp32 q = pow2 (max (ilog2 q) (-126) - 23)"

definition fl32 :: "bool \<Rightarrow> rat \<Rightarrow> f64" where
  "fl32 s q = (let m = (if q = 0 then 0 else of_int (round_half_even (q / ulp32 q)) * ulp32 q) in if 128 \<le> ilog2 m then FInf s else FNum s m)"

text \<open>\<open>as f32\<close>, widened again.\<close>

fun as_f32 :: "f64 \<Rightarrow> f64" where
  "as_f32 (FNum s q) = fl32 s q"
| "as_f32 x = x"

section \<open>Identifiers\<close>

definition ULID_ALPHABET :: str where "ULID_ALPHABET = ''0123456789ABCDEFGHJKMNPQRSTVWXYZ''"

definition ulid_value :: "u64 \<Rightarrow> 128 word \<Rightarrow> 128 word" where
  "ulid_value millis random80 = push_bit 80 (ucast (take_bit 48 millis)) OR take_bit 80 random80"

definition ulid_encode :: "u64 \<Rightarrow> 128 word \<Rightarrow> str" where
  "ulid_encode millis random80 =
     map (\<lambda>i. ULID_ALPHABET ! unat (take_bit 5 (drop_bit (5 * i) (ulid_value millis random80)))) (rev [0..<26])"

definition ulid_is_valid :: "str \<Rightarrow> bool" where
  "ulid_is_valid s \<longleftrightarrow> length s = 26 \<and> list_all (\<lambda>c. (if is_lower c then char_of (of_char c - 32 :: int) else c) \<in> set ULID_ALPHABET) s
     \<and> (of_char (s ! 0) :: int) \<le> 55"

section \<open>The node's messages\<close>

record site =
  si_lat :: f64
  si_lon :: f64
  si_alt_m :: f64

record sapient_egress_config =
  sc_egress_verifying_key :: str
  sc_subject :: str
  sc_fusion_node :: str
  sc_node_id :: "str option"
  sc_name :: str
  sc_short_name :: str
  sc_status_interval_s :: f64
  sc_location :: "site option"
  sc_buffer_max :: nat
  sc_classification :: "(str \<times> str) list"
  sc_default_classification :: str

text \<open>The key of the egress, from the text itself or from the file it names: the hexadecimal of the \<open>hex\<close> crate, the files,
  \<open>from_utf8_lossy\<close> and the points that \<open>VerifyingKey::from_bytes\<close> takes are parameters.\<close>

record key_reader =
  kr_hex :: "str \<Rightarrow> bytes option"
  kr_file :: "str \<Rightarrow> bytes option"
  kr_lossy :: "bytes \<Rightarrow> str"
  kr_valid :: "bytes \<Rightarrow> bool"

datatype egress_key_error = KeyUnreadable | KeyNotHex | KeyNot32 | KeyNotValid

definition egress_key_bytes :: "key_reader \<Rightarrow> str \<Rightarrow> egress_key_error + bytes" where
  "egress_key_bytes kr v =
     (case filter_option (\<lambda>b. length v = 64) (kr_hex kr v) of
        Some b \<Rightarrow> Inr b
      | None \<Rightarrow>
          (case kr_file kr v of
             None \<Rightarrow> Inl KeyUnreadable
           | Some raw \<Rightarrow> (case kr_hex kr (trim (kr_lossy kr raw)) of None \<Rightarrow> Inl KeyNotHex | Some b \<Rightarrow> Inr b)))"

definition egress_verifying_key :: "key_reader \<Rightarrow> sapient_egress_config \<Rightarrow> egress_key_error + bytes" where
  "egress_verifying_key kr cfg =
     (case egress_key_bytes kr (trim (sc_egress_verifying_key cfg)) of
        Inl e \<Rightarrow> Inl e
      | Inr b \<Rightarrow> if length b \<noteq> 32 then Inl KeyNot32 else if \<not> kr_valid kr b then Inl KeyNotValid else Inr b)"

datatype sapient_config_error = SubjectNotEgress | NoBufferMax | BadInterval | NotHostPort | OffTheGlobe | BadKey egress_key_error

definition site_ok :: "site option \<Rightarrow> bool" where
  "site_ok s = (case s of
     Some s \<Rightarrow> f64_within (f64_of_int (- 90)) (f64_of_int 90) (si_lat s) \<and> f64_within (f64_of_int (- 180)) (f64_of_int 180) (si_lon s)
   | None \<Rightarrow> True)"

definition sapient_egress_validate :: "key_reader \<Rightarrow> sapient_egress_config \<Rightarrow> sapient_config_error + unit" where
  "sapient_egress_validate kr cfg =
     (if \<not> starts_with (sc_subject cfg) EGRESS_PREFIX then Inl SubjectNotEgress
      else if sc_buffer_max cfg = 0 then Inl NoBufferMax
      else if \<not> (is_finite (sc_status_interval_s cfg) \<and> f64_lt (f64_of_int 0) (sc_status_interval_s cfg)) then Inl BadInterval
      else if CHR '':'' \<notin> set (sc_fusion_node cfg) then Inl NotHostPort
      else if \<not> site_ok (sc_location cfg) then Inl OffTheGlobe
      else case egress_verifying_key kr cfg of Inl e \<Rightarrow> Inl (BadKey e) | Inr k \<Rightarrow> Inr ())"

record egress_node =
  en_node_id :: str
  en_name :: str
  en_short_name :: str
  en_status_interval_s :: f64
  en_location :: "site option"

definition egress_node_of :: "str \<Rightarrow> sapient_egress_config \<Rightarrow> egress_node" where
  "egress_node_of fresh cfg =
     \<lparr>en_node_id = (case filter_option (\<lambda>i. trim i \<noteq> []) (sc_node_id cfg) of Some i \<Rightarrow> i | None \<Rightarrow> fresh),
       en_name = sc_name cfg, en_short_name = sc_short_name cfg, en_status_interval_s = sc_status_interval_s cfg, en_location = sc_location cfg\<rparr>"

definition envelope :: "egress_node \<Rightarrow> sap_timestamp \<Rightarrow> sap_content \<Rightarrow> sapient_message" where
  "envelope node now c = \<lparr>sm_timestamp = Some now, sm_node_id = Some (en_node_id node), sm_destination_id = None, sm_content = Some c\<rparr>"

definition as_seconds :: "f64 \<Rightarrow> sap_duration" where
  "as_seconds v = \<lparr>du_units = Some 4, du_value = Some (as_f32 v)\<rparr>"

definition degrees_type :: sap_location_type where
  "degrees_type = \<lparr>lt_units = Some 1, lt_datum = Some 1, lt_zone = None\<rparr>"

definition relay_mode :: sap_mode_definition where
  "relay_mode = \<lparr>md_name = Some ''Default'', md_type = Some 1, md_description = Some ''Relays governed events as detection reports'',
     md_settle_time = Some (as_seconds (f64_of_int 0)),
     md_detection_definition = [\<lparr>dd_location_type = Some degrees_type,
       dd_velocity_type = Some \<lparr>vt_units = Some (Some 1, Some 1), vt_datum = Some 1, vt_zone = None\<rparr>,
       dd_detection_report = [\<lparr>rd_category = Some 1, rd_type = Some ''detection_confidence'', rd_units = Some ''0-1'', rd_on_change = None\<rparr>],
       dd_confidence_definition = [Some 1]\<rparr>],
     md_task = Some \<lparr>td_concurrent_tasks = Some 0, td_region_type = [1], td_region_area = [degrees_type]\<rparr>\<rparr>"

definition egress_registration :: "egress_node \<Rightarrow> str \<Rightarrow> sap_timestamp \<Rightarrow> sapient_message" where
  "egress_registration node pkg_version now = envelope node now (CRegistration
     \<lparr>rg_node_definition = [\<lparr>nd_type = Some 1, nd_sub_type = [''Ajar governed relay'']\<rparr>],
       rg_icd_version = Some ICD_VERSION_V2, rg_name = Some (en_name node), rg_short_name = Some (en_short_name node),
       rg_capabilities = [\<lparr>cp_category = Some ''Fusion'', cp_type = Some ''Governed track relay'', cp_value = Some ''Ajar'', cp_units = None\<rparr>],
       rg_status_interval = Some (as_seconds (en_status_interval_s node)), rg_location_definition = Some degrees_type,
       rg_mode_definition = [relay_mode],
       rg_config_data = [\<lparr>cd_manufacturer = ''Ajar'', cd_model = ''ajar-sapient-egress'', cd_serial_number = None, cd_software_version = Some pkg_version\<rparr>]\<rparr>)"

definition degrees_location :: "f64 \<Rightarrow> f64 \<Rightarrow> f64 \<Rightarrow> sap_location" where
  "degrees_location lat lon alt = \<lparr>lo_x = Some lon, lo_y = Some lat, lo_z = Some alt, lo_x_error = None, lo_y_error = None,
     lo_coordinate_system = Some 1, lo_datum = Some 1, lo_utm_zone = None\<rparr>"

definition egress_status :: "egress_node \<Rightarrow> sap_timestamp \<Rightarrow> str \<Rightarrow> bool \<Rightarrow> sapient_message" where
  "egress_status node now report_id first = envelope node now (CStatusReport
     \<lparr>sr_report_id = Some report_id, sr_system = Some 1, sr_info = Some (if first then 1 else 2), sr_active_task_id = None, sr_mode = Some ''Default'',
       sr_power = None, sr_node_location = map_option (\<lambda>s. degrees_location (si_lat s) (si_lon s) (si_alt_m s)) (en_location node), sr_status = []\<rparr>)"

definition task_rejected :: "egress_node \<Rightarrow> sap_timestamp \<Rightarrow> str \<Rightarrow> str option \<Rightarrow> sapient_message" where
  "task_rejected node now task_id from =
     (envelope node now (CTaskAck (Some task_id) (Some 2) [''this node relays governed events and takes no tasks'']))\<lparr>sm_destination_id := from\<rparr>"

section \<open>Detection reports\<close>

definition MAX_OBJECTS :: nat where "MAX_OBJECTS = 10000"

record sap_mapper =
  mp_classification :: "str \<rightharpoonup> str"
  mp_default :: str
  mp_objects :: "str \<rightharpoonup> str"
  mp_order :: "str list"

definition SAPIENT_CLASSES :: "(str \<times> str) list" where
  "SAPIENT_CLASSES = [(''mim:aircraft'', ''Aircraft''), (''mim:vessel'', ''Vessel''), (''mim:surface-vessel'', ''Vessel''),
     (''mim:subsurface-vessel'', ''Submarine''), (''mim:land-vehicle'', ''Vehicle''), (''mim:person'', ''Person''), (''mim:unit'', ''Unit''),
     (''mim:facility'', ''Facility''), (''mim:weapon'', ''Weapon''), (''mim:sensor'', ''Sensor''), (''mim:object'', ''Unknown'')]"

definition mapper_new :: "sapient_egress_config \<Rightarrow> sap_mapper" where
  "mapper_new cfg = \<lparr>mp_classification = fold (\<lambda>(k, v) m. m(k \<mapsto> v)) (SAPIENT_CLASSES @ sc_classification cfg) Map.empty,
     mp_default = sc_default_classification cfg, mp_objects = Map.empty, mp_order = []\<rparr>"

text \<open>\<open>object_id\<close>; the table has as many entries as the queue.\<close>

definition object_id :: "str \<Rightarrow> str \<Rightarrow> sap_mapper \<Rightarrow> str \<times> sap_mapper" where
  "object_id fresh key mp =
     (case mp_objects mp key of
        Some i \<Rightarrow> (i, mp)
      | None \<Rightarrow>
          let mp1 = (if MAX_OBJECTS \<le> length (mp_order mp)
                     then case mp_order mp of old # rest \<Rightarrow> mp\<lparr>mp_order := rest, mp_objects := (mp_objects mp)(old := None)\<rparr> | [] \<Rightarrow> mp
                     else mp)
          in (fresh, mp1\<lparr>mp_objects := (mp_objects mp1)(key \<mapsto> fresh), mp_order := mp_order mp1 @ [key]\<rparr>))"

definition find_attr :: "attr list \<Rightarrow> str \<Rightarrow> str option" where
  "find_attr as key = map_option a_value (find (\<lambda>a. a_key a = key) as)"

definition number :: "str option \<Rightarrow> f64 option" where
  "number s = filter_option is_finite (Option.bind s (\<lambda>t. parse_f64 (trim t)))"

definition sap_info_of :: "str \<Rightarrow> str \<Rightarrow> sap_info" where
  "sap_info_of kind v = \<lparr>in_type = Some kind, in_value = Some v\<rparr>"

record egress_env =
  ee_libm :: libm
  ee_parse_time :: "str \<Rightarrow> sap_timestamp option"

definition egress_velocity :: "libm \<Rightarrow> event \<Rightarrow> enu_velocity option" where
  "egress_velocity lm e =
     (case (number (find_attr (ev_attributes e) ''speed''), number (find_attr (ev_attributes e) ''course'')) of
        (Some speed, Some course) \<Rightarrow>
          if f64_le (f64_of_int 0) speed
          then let c = f64_to_radians course in
               Some \<lparr>ve_east = Some (f64_mul speed (m_sin lm c)), ve_north = Some (f64_mul speed (m_cos lm c)),
                     ve_up = number (find_attr (ev_attributes e) ''vertical_rate'')\<rparr>
          else None
      | _ \<Rightarrow> None)"

definition egress_class :: "sap_mapper \<Rightarrow> event \<Rightarrow> str" where
  "egress_class mp e =
     (case find_attr (ev_attributes e) ''sapient_classification'' of
        Some c \<Rightarrow> c
      | None \<Rightarrow> (case find_attr (ev_attributes e) ''object_class'' of
          Some c \<Rightarrow> c
        | None \<Rightarrow> (case mp_classification mp (ev_entity_type e) of Some c \<Rightarrow> c | None \<Rightarrow> mp_default mp)))"

definition egress_infos :: "event \<Rightarrow> sap_info list" where
  "egress_infos e = [sap_info_of ''Ajar Source'' (ev_source_id e), sap_info_of ''Ajar Event'' (ev_id e), sap_info_of ''Ajar Type'' (ev_entity_type e)]
     @ (case find_attr (ev_attributes e) ''hostility'' of Some h \<Rightarrow> [sap_info_of ''Hostility'' h] | None \<Rightarrow> [])"

definition native_of :: "event \<Rightarrow> str" where
  "native_of e = (case find_attr (ev_metadata e) ''source_uid'' of Some u \<Rightarrow> u | None \<Rightarrow> ev_id e)"

definition detection_key :: "event \<Rightarrow> str" where
  "detection_key e = ev_source_id e @ '':'' @ native_of e"

definition egress_report :: "libm \<Rightarrow> sap_mapper \<Rightarrow> str \<Rightarrow> str \<Rightarrow> geo_point \<Rightarrow> event \<Rightarrow> detection_report" where
  "egress_report lm mp report_id obj loc e =
     \<lparr>dr_report_id = Some report_id, dr_object_id = Some obj, dr_task_id = None, dr_state = None,
       dr_location = Some (AtLocation (degrees_location (latitude loc) (longitude loc) (altitude_m loc))),
       dr_confidence = (if f64_lt (f64_of_int 0) (ev_confidence e) \<and> f64_le (ev_confidence e) (f64_of_int 1) then Some (as_f32 (ev_confidence e)) else None),
       dr_track_info = [], dr_object_info = egress_infos e,
       dr_classification = [\<lparr>cl_type = Some (egress_class mp e),
         cl_confidence = map_option as_f32 (filter_option unit_range (number (find_attr (ev_attributes e) ''sapient_classification_confidence'')))\<rparr>],
       dr_behaviour = [], dr_file_urls = [], dr_signal = [], dr_velocity = egress_velocity lm e, dr_colour = None, dr_native_id = Some (native_of e)\<rparr>"

definition egress_detection :: "egress_env \<Rightarrow> egress_node \<Rightarrow> sap_timestamp \<Rightarrow> str \<times> str \<Rightarrow> event \<Rightarrow> sap_mapper \<Rightarrow> sapient_message option \<times> sap_mapper" where
  "egress_detection ee node now ulids e mp =
     (case ev_location e of
        None \<Rightarrow> (None, mp)
      | Some loc \<Rightarrow>
          let (obj, mp') = object_id (fst ulids) (detection_key e) mp;
              m = envelope node now (CDetectionReport (egress_report (ee_libm ee) mp' (snd ulids) obj loc e))
          in (Some (m\<lparr>sm_timestamp := (case ee_parse_time ee (ev_timestamp e) of Some ts \<Rightarrow> Some ts | None \<Rightarrow> sm_timestamp m)\<rparr>), mp'))"

section \<open>The link\<close>

datatype attempt = Unreachable | Reachable "sapient_read list" nat

datatype link_event = Opened | Wrote sapient_message | GotMessage sapient_message | Dropped

record fusion_link =
  fl_attempts :: "attempt list"
  fl_conn :: "(sapient_read list \<times> nat) option"
  fl_held :: bytes
  fl_up :: u64
  fl_reconnects :: u64
  fl_rejected :: u64
  fl_ever :: bool
  fl_log :: "link_event list"

definition fusion_link_new :: "attempt list \<Rightarrow> fusion_link" where
  "fusion_link_new attempts = \<lparr>fl_attempts = attempts, fl_conn = None, fl_held = [], fl_up = 0, fl_reconnects = 0, fl_rejected = 0, fl_ever = False, fl_log = []\<rparr>"

definition fl_connected :: "fusion_link \<Rightarrow> bool" where
  "fl_connected l \<longleftrightarrow> fl_conn l \<noteq> None"

definition drop_connection :: "fusion_link \<Rightarrow> fusion_link" where
  "drop_connection l = l\<lparr>fl_conn := None, fl_held := [], fl_up := 0, fl_log := fl_log l @ (if fl_connected l then [Dropped] else [])\<rparr>"

definition link_write :: "sapient_message \<Rightarrow> fusion_link \<Rightarrow> bool \<times> fusion_link" where
  "link_write m l =
     (case fl_conn l of
        Some (rs, Suc k) \<Rightarrow> (True, l\<lparr>fl_conn := Some (rs, k), fl_log := fl_log l @ [Wrote m]\<rparr>)
      | _ \<Rightarrow> (False, l))"

datatype 'a link_result = LOk 'a | LErr | LWaits

definition read_message :: "sapient_codec \<Rightarrow> fusion_link \<Rightarrow> sapient_message link_result \<times> fusion_link" where
  "read_message codec l =
     (case fl_conn l of
        None \<Rightarrow> (LErr, l)
      | Some (rs, k) \<Rightarrow>
          (case sapient_read_frame (fl_held l) rs of
             None \<Rightarrow> (LWaits, l)
           | Some (Inl _, held, rs') \<Rightarrow> (LErr, l\<lparr>fl_held := held, fl_conn := Some (rs', k)\<rparr>)
           | Some (Inr p, held, rs') \<Rightarrow>
               (case sapient_decode codec p of
                  None \<Rightarrow> (LErr, l\<lparr>fl_held := held, fl_conn := Some (rs', k)\<rparr>)
                | Some m \<Rightarrow> (LOk m, l\<lparr>fl_held := held, fl_conn := Some (rs', k), fl_log := fl_log l @ [GotMessage m]\<rparr>))))"

definition link_left :: "fusion_link \<Rightarrow> nat" where
  "link_left l = (case fl_conn l of None \<Rightarrow> 0 | Some (rs, k) \<Rightarrow> reads_left (fl_held l) rs)"

lemma read_message_left: "read_message codec l = (LOk m, l') \<Longrightarrow> link_left l' < link_left l"
  by (auto simp: read_message_def link_left_def dest!: sapient_read_frame_left split: option.splits prod.splits sum.splits)

function await_ack :: "sapient_codec \<Rightarrow> fusion_link \<Rightarrow> (bool option) link_result \<times> fusion_link" where
  "await_ack codec l =
     (case read_message codec l of
        (LOk m, l') \<Rightarrow>
          (case sm_content m of
             Some (CRegistrationAck acceptance reasons) \<Rightarrow> (LOk acceptance, l')
           | _ \<Rightarrow> await_ack codec l')
      | (LErr, l') \<Rightarrow> (LErr, l')
      | (LWaits, l') \<Rightarrow> (LWaits, l'))"
  by pat_completeness auto
termination by (relation "measure (\<lambda>(codec, l). link_left l)") (auto dest: read_message_left [OF sym])

declare await_ack.simps [simp del]

definition ensure_registered :: "sapient_codec \<Rightarrow> sapient_message \<Rightarrow> fusion_link \<Rightarrow> bool \<times> fusion_link" where
  "ensure_registered codec reg l =
     (if fl_connected l then (True, l)
      else case fl_attempts l of
        [] \<Rightarrow> (False, l)
      | Unreachable # as \<Rightarrow> (False, l\<lparr>fl_attempts := as\<rparr>)
      | Reachable rs k # as \<Rightarrow>
          let l1 = l\<lparr>fl_attempts := as, fl_conn := Some (rs, k), fl_held := [], fl_reconnects := fl_reconnects l + (if fl_ever l then 1 else 0),
                     fl_ever := True, fl_log := fl_log l @ [Opened]\<rparr>
          in case link_write reg l1 of
               (False, l2) \<Rightarrow> (False, drop_connection l2)
             | (True, l2) \<Rightarrow>
                 (case await_ack codec l2 of
                    (LOk acceptance, l3) \<Rightarrow>
                      if acceptance = Some True then (True, l3\<lparr>fl_up := 1\<rparr>)
                      else (False, drop_connection (l3\<lparr>fl_rejected := fl_rejected l3 + 1\<rparr>))
                  | (_, l3) \<Rightarrow> (False, drop_connection l3)))"

definition fusion_send :: "sapient_codec \<Rightarrow> sapient_message \<Rightarrow> sapient_message \<Rightarrow> fusion_link \<Rightarrow> bool \<times> fusion_link" where
  "fusion_send codec reg m l =
     (case ensure_registered codec reg l of
        (False, l1) \<Rightarrow> (False, l1)
      | (True, l1) \<Rightarrow> (case link_write m l1 of (True, l2) \<Rightarrow> (True, l2) | (False, l2) \<Rightarrow> (False, drop_connection l2)))"

definition next_inbound :: "sapient_codec \<Rightarrow> fusion_link \<Rightarrow> sapient_message link_result \<times> fusion_link" where
  "next_inbound codec l = (case read_message codec l of (LErr, l1) \<Rightarrow> (LErr, drop_connection l1) | r \<Rightarrow> r)"

text \<open>\<open>answer\<close>: whether a reply was sent, or that sending it failed.\<close>

definition link_answer :: "sapient_codec \<Rightarrow> egress_node \<Rightarrow> sapient_message \<Rightarrow> sap_timestamp \<Rightarrow> sapient_message \<Rightarrow> fusion_link \<Rightarrow> bool link_result \<times> fusion_link" where
  "link_answer codec node reg now m l =
     (case sm_content m of
        Some (CTask task_id) \<Rightarrow>
          (case fusion_send codec reg (task_rejected node now (case task_id of Some i \<Rightarrow> i | None \<Rightarrow> []) (sm_node_id m)) l of
             (True, l1) \<Rightarrow> (LOk True, l1) | (False, l1) \<Rightarrow> (LErr, l1))
      | _ \<Rightarrow> (LOk False, l))"

section \<open>The relay\<close>

record sap_metrics =
  sx_delivered :: u64
  sx_rejected :: u64
  sx_deduped :: u64
  sx_unlocated :: u64
  sx_gap_dropped :: u64
  sx_status_sent :: u64
  sx_tasks_refused :: u64

text \<open>\<open>sx_made\<close> records the reports that were queued.\<close>

record sap_egress =
  sx_link :: fusion_link
  sx_buffer :: "sapient_message list"
  sx_max :: nat
  sx_mapper :: sap_mapper
  sx_dedupe :: dedupe
  sx_first_status :: bool
  sx_metrics :: sap_metrics
  sx_made :: "sapient_message list"

definition sap_push :: "sapient_message \<Rightarrow> sap_egress \<Rightarrow> sap_egress" where
  "sap_push m x =
     (let x1 = (if sx_max x \<le> length (sx_buffer x)
                then x\<lparr>sx_buffer := tl (sx_buffer x), sx_metrics := (sx_metrics x)\<lparr>sx_gap_dropped := sx_gap_dropped (sx_metrics x) + 1\<rparr>\<rparr> else x)
      in x1\<lparr>sx_buffer := sx_buffer x1 @ [m], sx_made := sx_made x1 @ [m]\<rparr>)"

fun sap_drain_from :: "sapient_codec \<Rightarrow> sapient_message \<Rightarrow> sapient_message list \<Rightarrow> fusion_link \<Rightarrow> sapient_message list \<times> nat \<times> fusion_link" where
  "sap_drain_from codec reg [] l = ([], 0, l)"
| "sap_drain_from codec reg (m # ms) l =
     (case fusion_send codec reg m l of
        (False, l1) \<Rightarrow> (m # ms, 0, l1)
      | (True, l1) \<Rightarrow> (case sap_drain_from codec reg ms l1 of (rest, n, l2) \<Rightarrow> (rest, Suc n, l2)))"

definition sap_drain :: "sapient_codec \<Rightarrow> sapient_message \<Rightarrow> sap_egress \<Rightarrow> sap_egress" where
  "sap_drain codec reg x =
     (case sap_drain_from codec reg (sx_buffer x) (sx_link x) of (rest, n, l) \<Rightarrow>
        x\<lparr>sx_buffer := rest, sx_link := l, sx_metrics := (sx_metrics x)\<lparr>sx_delivered := sx_delivered (sx_metrics x) + of_nat n\<rparr>\<rparr>)"

text \<open>One round of the loop: the connection, the drain, and what \<open>select!\<close> takes. The identifiers and times that a round
  mints come with it. A shutdown drains again, the last round of the process; its limit of two seconds is the fusion node that stops
  taking writes.\<close>

datatype sap_round = NatsMessage bytes | StatusTick | FusionInbound | RetrySleep | Shutdown

record sap_minted =
  mi_now :: sap_timestamp
  mi_ulids :: "str \<times> str"

record sap_world =
  wo_ed25519 :: ed25519
  wo_decode :: "bytes \<Rightarrow> event option"
  wo_key :: bytes
  wo_codec :: sapient_codec
  wo_env :: egress_env
  wo_node :: egress_node
  wo_version :: str

definition round_registration :: "sap_world \<Rightarrow> sap_minted \<Rightarrow> sapient_message" where
  "round_registration wo mi = egress_registration (wo_node wo) (wo_version wo) (mi_now mi)"

definition sap_connect :: "sap_world \<Rightarrow> sap_minted \<Rightarrow> sap_egress \<Rightarrow> sap_egress" where
  "sap_connect wo mi x =
     (if fl_connected (sx_link x) then x
      else case ensure_registered (wo_codec wo) (round_registration wo mi) (sx_link x) of
        (True, l) \<Rightarrow> x\<lparr>sx_link := l, sx_first_status := True\<rparr>
      | (False, l) \<Rightarrow> x\<lparr>sx_link := l\<rparr>)"

definition sap_message :: "sap_world \<Rightarrow> sap_minted \<Rightarrow> bytes \<Rightarrow> sap_egress \<Rightarrow> sap_egress" where
  "sap_message wo mi payload x =
     (let m = sx_metrics x in
      case egress_accept (wo_ed25519 wo) (wo_decode wo) payload (wo_key wo) of
        Inl _ \<Rightarrow> x\<lparr>sx_metrics := m\<lparr>sx_rejected := sx_rejected m + 1\<rparr>\<rparr>
      | Inr e \<Rightarrow>
          (case first_time (ev_id e) (sx_dedupe x) of
             (False, d) \<Rightarrow> x\<lparr>sx_dedupe := d, sx_metrics := m\<lparr>sx_deduped := sx_deduped m + 1\<rparr>\<rparr>
           | (True, d) \<Rightarrow>
               (case egress_detection (wo_env wo) (wo_node wo) (mi_now mi) (mi_ulids mi) e (sx_mapper x) of
                  (Some report, mp) \<Rightarrow> sap_push report (x\<lparr>sx_dedupe := d, sx_mapper := mp\<rparr>)
                | (None, mp) \<Rightarrow> x\<lparr>sx_dedupe := d, sx_mapper := mp, sx_metrics := m\<lparr>sx_unlocated := sx_unlocated m + 1\<rparr>\<rparr>)))"

definition sap_tick :: "sap_world \<Rightarrow> sap_minted \<Rightarrow> sap_egress \<Rightarrow> sap_egress" where
  "sap_tick wo mi x =
     (if \<not> fl_connected (sx_link x) then x
      else case fusion_send (wo_codec wo) (round_registration wo mi) (egress_status (wo_node wo) (mi_now mi) (snd (mi_ulids mi)) (sx_first_status x)) (sx_link x) of
        (True, l) \<Rightarrow> x\<lparr>sx_link := l, sx_first_status := False, sx_metrics := (sx_metrics x)\<lparr>sx_status_sent := sx_status_sent (sx_metrics x) + 1\<rparr>\<rparr>
      | (False, l) \<Rightarrow> x\<lparr>sx_link := l\<rparr>)"

definition sap_inbound :: "sap_world \<Rightarrow> sap_minted \<Rightarrow> sap_egress \<Rightarrow> sap_egress" where
  "sap_inbound wo mi x =
     (if \<not> fl_connected (sx_link x) then x
      else case next_inbound (wo_codec wo) (sx_link x) of
        (LOk m, l) \<Rightarrow>
          (case link_answer (wo_codec wo) (wo_node wo) (round_registration wo mi) (mi_now mi) m l of
             (LOk True, l1) \<Rightarrow> x\<lparr>sx_link := l1, sx_metrics := (sx_metrics x)\<lparr>sx_tasks_refused := sx_tasks_refused (sx_metrics x) + 1\<rparr>\<rparr>
           | (_, l1) \<Rightarrow> x\<lparr>sx_link := l1\<rparr>)
      | (_, l) \<Rightarrow> x\<lparr>sx_link := l\<rparr>)"

definition sap_step :: "sap_world \<Rightarrow> sap_minted \<times> sap_round \<Rightarrow> sap_egress \<Rightarrow> sap_egress" where
  "sap_step wo r x =
     (let x1 = sap_drain (wo_codec wo) (round_registration wo (fst r)) (sap_connect wo (fst r) x)
      in case snd r of
           NatsMessage payload \<Rightarrow> sap_message wo (fst r) payload x1
         | StatusTick \<Rightarrow> sap_tick wo (fst r) x1
         | FusionInbound \<Rightarrow> sap_inbound wo (fst r) x1
         | RetrySleep \<Rightarrow> x1
         | Shutdown \<Rightarrow> sap_drain (wo_codec wo) (round_registration wo (fst r)) x1)"

definition sap_run :: "sap_world \<Rightarrow> (sap_minted \<times> sap_round) list \<Rightarrow> sap_egress \<Rightarrow> sap_egress" where
  "sap_run wo rs x = foldl (\<lambda>x r. sap_step wo r x) x rs"

definition sap_start :: "sapient_egress_config \<Rightarrow> attempt list \<Rightarrow> sap_egress" where
  "sap_start cfg attempts = \<lparr>sx_link = fusion_link_new attempts, sx_buffer = [], sx_max = max (sc_buffer_max cfg) 1, sx_mapper = mapper_new cfg,
     sx_dedupe = dedupe_new 10000, sx_first_status = True,
     sx_metrics = \<lparr>sx_delivered = 0, sx_rejected = 0, sx_deduped = 0, sx_unlocated = 0, sx_gap_dropped = 0, sx_status_sent = 0, sx_tasks_refused = 0\<rparr>, sx_made = []\<rparr>"

section \<open>The protocol\<close>

text \<open>What may cross a connection: the registration first, nothing else until it is accepted, and nothing after a refusal.\<close>

datatype phase = Down | Fresh | Registering | Refused | Registered

definition is_registration :: "sapient_message \<Rightarrow> bool" where
  "is_registration m = (case sm_content m of Some (CRegistration _) \<Rightarrow> True | _ \<Rightarrow> False)"

definition ack_phase :: "sapient_message \<Rightarrow> phase" where
  "ack_phase m = (case sm_content m of
     Some (CRegistrationAck a _) \<Rightarrow> if a = Some True then Registered else Refused | _ \<Rightarrow> Registering)"

fun phase_step :: "link_event \<Rightarrow> phase option \<Rightarrow> phase option" where
  "phase_step Opened (Some Down) = Some Fresh"
| "phase_step (Wrote m) (Some Fresh) = (if is_registration m then Some Registering else None)"
| "phase_step (GotMessage m) (Some Registering) = Some (ack_phase m)"
| "phase_step (Wrote m) (Some Registered) = Some Registered"
| "phase_step (GotMessage m) (Some Registered) = Some Registered"
| "phase_step Dropped (Some ph) = (if ph = Down then None else Some Down)"
| "phase_step _ _ = None"

definition phase_of :: "link_event list \<Rightarrow> phase option" where
  "phase_of es = fold phase_step es (Some Down)"

lemma phase_of_simps [simp]: "phase_of [] = Some Down" "phase_of (es @ [e]) = phase_step e (phase_of es)"
  by (simp_all add: phase_of_def)

definition link_ok :: "fusion_link \<Rightarrow> bool" where
  "link_ok l \<longleftrightarrow> phase_of (fl_log l) = Some (if fl_connected l then Registered else Down)"

definition is_detection :: "sapient_message \<Rightarrow> bool" where
  "is_detection m = (case sm_content m of Some (CDetectionReport _) \<Rightarrow> True | _ \<Rightarrow> False)"

fun reports_of :: "link_event list \<Rightarrow> sapient_message list" where
  "reports_of [] = []"
| "reports_of (e # es) = (case e of Wrote m \<Rightarrow> if is_detection m then [m] else [] | _ \<Rightarrow> []) @ reports_of es"

lemma reports_of_append [simp]: "reports_of (es @ fs) = reports_of es @ reports_of fs"
  by (induction es) simp_all

lemma not_detection [simp]:
  "is_registration m \<Longrightarrow> \<not> is_detection m"
  by (auto simp: is_registration_def is_detection_def split: option.splits sap_content.splits)

lemma round_registration_kind [simp]: "is_registration (round_registration wo mi)"
  by (simp add: is_registration_def round_registration_def egress_registration_def envelope_def)

lemma drop_connection_spec:
  "phase_of (fl_log l) = Some ph \<Longrightarrow> fl_connected l \<Longrightarrow> ph \<noteq> Down
   \<Longrightarrow> link_ok (drop_connection l) \<and> reports_of (fl_log (drop_connection l)) = reports_of (fl_log l) \<and> \<not> fl_connected (drop_connection l)"
  by (simp add: link_ok_def drop_connection_def fl_connected_def)

lemma read_message_spec:
  assumes "read_message codec l = (r, l')"
  shows "reports_of (fl_log l') = reports_of (fl_log l) \<and> (fl_connected l' \<longleftrightarrow> fl_connected l)
    \<and> fl_log l' = fl_log l @ (case r of LOk m \<Rightarrow> [GotMessage m] | _ \<Rightarrow> [])"
  using assms by (auto simp: read_message_def fl_connected_def split: option.splits prod.splits sum.splits)

lemma await_ack_spec:
  "await_ack codec l = (r, l') \<Longrightarrow> phase_of (fl_log l) = Some Registering \<Longrightarrow> fl_connected l
   \<Longrightarrow> fl_connected l' \<and> reports_of (fl_log l') = reports_of (fl_log l)
     \<and> phase_of (fl_log l') = Some (case r of LOk a \<Rightarrow> if a = Some True then Registered else Refused | _ \<Rightarrow> Registering)"
proof (induction "link_left l" arbitrary: l rule: less_induct)
  case (less l)
  obtain q l1 where q: "read_message codec l = (q, l1)" by force
  note s = read_message_spec [OF q]
  show ?case
  proof (cases q)
    case (LOk m)
    have p: "phase_of (fl_log l1) = Some (ack_phase m)" using s LOk less.prems(2) by simp
    show ?thesis
    proof (cases "\<exists>a rs. sm_content m = Some (CRegistrationAck a rs)")
      case True
      then show ?thesis using less.prems(1,3) s p LOk q by (auto simp: await_ack.simps [of codec l] ack_phase_def)
    next
      case False
      then have "await_ack codec l = await_ack codec l1" "ack_phase m = Registering"
        using q LOk by (auto simp: await_ack.simps [of codec l] ack_phase_def split: option.splits sap_content.splits)
      moreover have "link_left l1 < link_left l" using read_message_left q LOk by blast
      ultimately show ?thesis using less.hyps [of l1] less.prems s p LOk by simp
    qed
  qed (use less.prems q s in \<open>auto simp: await_ack.simps [of codec l]\<close>)
qed

lemma ensure_registered_spec:
  assumes "ensure_registered codec reg l = (ok, l')" "link_ok l" "is_registration reg"
  shows "link_ok l' \<and> (fl_connected l' \<longleftrightarrow> ok) \<and> reports_of (fl_log l') = reports_of (fl_log l)"
proof (cases "fl_connected l")
  case True
  with assms show ?thesis by (simp add: ensure_registered_def)
next
  case False
  show ?thesis
  proof (cases "\<exists>rs k as. fl_attempts l = Reachable rs k # as")
    case True
    then obtain rs k as where a: "fl_attempts l = Reachable rs k # as" by auto
    define l1 where "l1 = l\<lparr>fl_attempts := as, fl_conn := Some (rs, k), fl_held := [], fl_reconnects := fl_reconnects l + (if fl_ever l then 1 else 0),
        fl_ever := True, fl_log := fl_log l @ [Opened]\<rparr>"
    have l1: "phase_of (fl_log l1) = Some Fresh" "fl_connected l1" "reports_of (fl_log l1) = reports_of (fl_log l)"
      using assms(2) False by (simp_all add: l1_def link_ok_def fl_connected_def)
    have e: "ensure_registered codec reg l = (case link_write reg l1 of
               (False, l2) \<Rightarrow> (False, drop_connection l2)
             | (True, l2) \<Rightarrow>
                 (case await_ack codec l2 of
                    (LOk acceptance, l3) \<Rightarrow>
                      if acceptance = Some True then (True, l3\<lparr>fl_up := 1\<rparr>)
                      else (False, drop_connection (l3\<lparr>fl_rejected := fl_rejected l3 + 1\<rparr>))
                  | (_, l3) \<Rightarrow> (False, drop_connection l3)))"
      using False a by (simp add: ensure_registered_def l1_def Let_def)
    obtain w l2 where w: "link_write reg l1 = (w, l2)" by force
    have c1: "fl_conn l1 = Some (rs, k)" by (simp add: l1_def)
    show ?thesis
    proof (cases w)
      case False
      then have "l2 = l1" using w c1 by (auto simp: link_write_def split: nat.splits)
      with e w False assms(1) l1 drop_connection_spec [of l1 Fresh] show ?thesis by simp
    next
      case True
      then have l2: "phase_of (fl_log l2) = Some Registering" "fl_connected l2" "reports_of (fl_log l2) = reports_of (fl_log l)"
        using w c1 l1 assms(3) by (auto simp: link_write_def fl_connected_def split: nat.splits)
      obtain q l3 where q: "await_ack codec l2 = (q, l3)" by force
      note s = await_ack_spec [OF q l2(1,2)]
      have up: "fl_connected (l3\<lparr>fl_rejected := n\<rparr>) = fl_connected l3" "fl_connected (l3\<lparr>fl_up := n\<rparr>) = fl_connected l3" for n
        by (simp_all add: fl_connected_def)
      show ?thesis
      proof (cases q)
        case (LOk a)
        then show ?thesis
          using e w True q assms(1) s l2 drop_connection_spec [of "l3\<lparr>fl_rejected := fl_rejected l3 + 1\<rparr>" Refused]
          by (auto simp: link_ok_def up split: if_splits)
      qed (use e w True q assms(1) s l2 drop_connection_spec [of l3 Registering] in \<open>auto\<close>)
    qed
  next
    case none: False
    then show ?thesis
      using assms False by (auto simp: ensure_registered_def link_ok_def fl_connected_def split: list.splits attempt.splits)
  qed
qed

lemma link_write_spec:
  assumes "link_write m l = (ok, l')" "link_ok l"
  shows "link_ok l' \<and> (ok \<longrightarrow> fl_connected l') \<and> reports_of (fl_log l') = reports_of (fl_log l) @ (if ok \<and> is_detection m then [m] else [])
    \<and> (\<not> ok \<longrightarrow> l' = l)"
  using assms by (auto simp: link_write_def link_ok_def fl_connected_def split: option.splits prod.splits nat.splits)

lemma fusion_send_spec:
  assumes "fusion_send codec reg m l = (ok, l')" "link_ok l" "is_registration reg"
  shows "link_ok l' \<and> reports_of (fl_log l') = reports_of (fl_log l) @ (if ok \<and> is_detection m then [m] else [])"
proof -
  obtain a l1 where e: "ensure_registered codec reg l = (a, l1)" by force
  note s = ensure_registered_spec [OF e assms(2,3)]
  obtain w l2 where w: "link_write m l1 = (w, l2)" by force
  show ?thesis
  proof (cases a)
    case True
    have "phase_of (fl_log l1) = Some Registered" using s True by (simp add: link_ok_def)
    with True s link_write_spec [OF w] e w assms(1) drop_connection_spec [of l1 Registered] show ?thesis
      by (cases w) (auto simp: fusion_send_def)
  qed (use e s assms(1) in \<open>auto simp: fusion_send_def\<close>)
qed

lemma next_inbound_spec:
  assumes "next_inbound codec l = (r, l')" "link_ok l"
  shows "link_ok l' \<and> reports_of (fl_log l') = reports_of (fl_log l)"
proof -
  obtain q l1 where q: "read_message codec l = (q, l1)" by force
  note s = read_message_spec [OF q]
  show ?thesis
  proof (cases q)
    case (LOk m)
    then have "fl_connected l" using q by (auto simp: read_message_def fl_connected_def split: option.splits)
    with LOk q s assms show ?thesis by (auto simp: next_inbound_def link_ok_def)
  next
    case LErr
    show ?thesis
    proof (cases "fl_connected l")
      case True
      with LErr q s assms drop_connection_spec [of l1 Registered] show ?thesis by (auto simp: next_inbound_def link_ok_def)
    next
      case False
      with LErr q s assms show ?thesis by (auto simp: next_inbound_def link_ok_def drop_connection_def fl_connected_def)
    qed
  qed (use q s assms in \<open>auto simp: next_inbound_def link_ok_def\<close>)
qed

lemma link_answer_spec:
  assumes "link_answer codec node reg now m l = (r, l')" "link_ok l" "is_registration reg"
  shows "link_ok l' \<and> reports_of (fl_log l') = reports_of (fl_log l)"
proof (cases "\<exists>t. sm_content m = Some (CTask t)")
  case True
  then obtain t where t: "sm_content m = Some (CTask t)" by auto
  let ?ack = "task_rejected node now (case t of Some i \<Rightarrow> i | None \<Rightarrow> []) (sm_node_id m)"
  obtain ok l1 where f: "fusion_send codec reg ?ack l = (ok, l1)" by force
  have "\<not> is_detection ?ack" by (simp add: is_detection_def task_rejected_def envelope_def)
  with fusion_send_spec [OF f assms(2,3)] f t assms(1) show ?thesis by (auto simp: link_answer_def split: bool.splits)
next
  case False
  with assms show ?thesis by (auto simp: link_answer_def split: option.splits sap_content.splits)
qed

section \<open>The relay\<close>

definition sap_inv :: "sap_egress \<Rightarrow> bool" where
  "sap_inv x \<longleftrightarrow> link_ok (sx_link x) \<and> 0 < sx_max x \<and> length (sx_buffer x) \<le> sx_max x \<and> list_all is_detection (sx_buffer x)
     \<and> subseq (reports_of (fl_log (sx_link x)) @ sx_buffer x) (sx_made x)
     \<and> sx_delivered (sx_metrics x) = of_nat (length (reports_of (fl_log (sx_link x))))
     \<and> sx_gap_dropped (sx_metrics x) + of_nat (length (reports_of (fl_log (sx_link x)) @ sx_buffer x)) = of_nat (length (sx_made x))"

lemma sap_drain_from_spec:
  "sap_drain_from codec reg ms l = (rest, n, l') \<Longrightarrow> link_ok l \<Longrightarrow> is_registration reg \<Longrightarrow> list_all is_detection ms
   \<Longrightarrow> link_ok l' \<and> reports_of (fl_log l') @ rest = reports_of (fl_log l) @ ms \<and> length ms = n + length rest \<and> list_all is_detection rest"
proof (induction ms arbitrary: l l' rest n)
  case (Cons m ms)
  obtain ok l1 where f: "fusion_send codec reg m l = (ok, l1)" by force
  note s = fusion_send_spec [OF f Cons.prems(2,3)]
  show ?case
  proof (cases ok)
    case True
    obtain rest1 n1 l2 where d: "sap_drain_from codec reg ms l1 = (rest1, n1, l2)" using prod_cases3 by blast
    have "link_ok l1" "list_all is_detection ms" using s Cons.prems(4) by simp_all
    note ih = Cons.IH [OF d this(1) Cons.prems(3) this(2)]
    have "rest = rest1" "n = Suc n1" "l' = l2" using Cons.prems(1) f d True by simp_all
    with ih s True Cons.prems(4) show ?thesis by simp
  qed (use Cons.prems f s in auto)
qed simp

lemma drop_gap: "n + 1 + of_nat k = n + of_nat (Suc k)" for n :: u64
  by simp

lemma sap_drain_inv:
  assumes "sap_inv x" "is_registration reg"
  shows "sap_inv (sap_drain codec reg x)"
proof -
  obtain rest n l where d: "sap_drain_from codec reg (sx_buffer x) (sx_link x) = (rest, n, l)" using prod_cases3 by blast
  from sap_drain_from_spec [OF d _ assms(2)] assms(1)
  have s: "link_ok l" "reports_of (fl_log l) @ rest = reports_of (fl_log (sx_link x)) @ sx_buffer x" "length (sx_buffer x) = n + length rest" "list_all is_detection rest"
    by (simp_all add: sap_inv_def)
  from arg_cong [OF s(2), of length] s(3) have "length (reports_of (fl_log l)) = length (reports_of (fl_log (sx_link x))) + n" by simp
  with s assms(1) show ?thesis by (simp add: sap_inv_def sap_drain_def d)
qed

lemma sap_connect_inv:
  assumes "sap_inv x"
  shows "sap_inv (sap_connect wo mi x)"
proof -
  obtain ok l where e: "ensure_registered (wo_codec wo) (round_registration wo mi) (sx_link x) = (ok, l)" by force
  from ensure_registered_spec [OF e _ round_registration_kind] assms show ?thesis
    by (cases ok) (simp_all add: sap_connect_def e sap_inv_def)
qed

lemma subseq_drop_add:
  "subseq (xs @ ys) zs \<Longrightarrow> subseq (xs @ tl ys @ [m]) (zs @ [m])" "subseq (xs @ ys) zs \<Longrightarrow> subseq (xs @ ys @ [m]) (zs @ [m])"
proof -
  assume a: "subseq (xs @ ys) zs"
  show b: "subseq (xs @ ys @ [m]) (zs @ [m])" using list_emb_append_mono [OF a, of "[m]" "[m]"] by simp
  have "subseq (xs @ tl ys @ [m]) (xs @ ys @ [m])" by (cases ys) (auto intro: list_emb_append_mono)
  then show "subseq (xs @ tl ys @ [m]) (zs @ [m])" using b by (rule subseq_order.trans)
qed

lemma sap_push_inv:
  assumes "sap_inv x" "is_detection m"
  shows "sap_inv (sap_push m x)"
proof (cases "sx_max x \<le> length (sx_buffer x)")
  case True
  with assms(1) obtain b bs where b: "sx_buffer x = b # bs" by (cases "sx_buffer x") (auto simp: sap_inv_def)
  have "subseq (reports_of (fl_log (sx_link x)) @ bs @ [m]) (sx_made x @ [m])"
    using subseq_drop_add(1) [of "reports_of (fl_log (sx_link x))" "b # bs" "sx_made x" m] assms(1) b by (simp add: sap_inv_def)
  moreover have "sx_max x = Suc (length bs)" using True assms(1) b by (simp add: sap_inv_def)
  ultimately show ?thesis using assms b by (simp add: sap_inv_def sap_push_def Let_def algebra_simps)
next
  case False
  have "subseq (reports_of (fl_log (sx_link x)) @ sx_buffer x @ [m]) (sx_made x @ [m])"
    using assms(1) by (intro subseq_drop_add(2)) (simp add: sap_inv_def)
  with False assms show ?thesis by (auto simp: sap_inv_def sap_push_def Let_def algebra_simps)
qed

lemma egress_detection_kind: "egress_detection ee node now u e mp = (Some m, mp') \<Longrightarrow> is_detection m"
  by (auto simp: egress_detection_def is_detection_def envelope_def Let_def split: option.splits prod.splits)

lemma sap_message_inv:
  assumes "sap_inv x"
  shows "sap_inv (sap_message wo mi payload x)"
proof (cases "egress_accept (wo_ed25519 wo) (wo_decode wo) payload (wo_key wo)")
  case (Inl err)
  with assms show ?thesis by (simp add: sap_message_def sap_inv_def Let_def)
next
  case (Inr e)
  obtain ok d where f: "first_time (ev_id e) (sx_dedupe x) = (ok, d)" by force
  obtain r mp where g: "egress_detection (wo_env wo) (wo_node wo) (mi_now mi) (mi_ulids mi) e (sx_mapper x) = (r, mp)" by force
  have "sap_inv (x\<lparr>sx_dedupe := d, sx_mapper := mp\<rparr>)" using assms by (simp add: sap_inv_def)
  then have "r = Some m \<Longrightarrow> sap_inv (sap_push m (x\<lparr>sx_dedupe := d, sx_mapper := mp\<rparr>))" for m
    using sap_push_inv egress_detection_kind g by blast
  with Inr f g assms show ?thesis
    by (cases ok; cases r) (simp_all add: sap_message_def Let_def, simp_all add: sap_inv_def)
qed

lemma sap_tick_inv:
  assumes "sap_inv x"
  shows "sap_inv (sap_tick wo mi x)"
proof -
  let ?m = "egress_status (wo_node wo) (mi_now mi) (snd (mi_ulids mi)) (sx_first_status x)"
  obtain ok l where f: "fusion_send (wo_codec wo) (round_registration wo mi) ?m (sx_link x) = (ok, l)" by force
  have "\<not> is_detection ?m" by (simp add: is_detection_def egress_status_def envelope_def)
  with fusion_send_spec [OF f _ round_registration_kind] assms show ?thesis
    by (cases ok) (simp_all add: sap_tick_def f sap_inv_def)
qed

lemma sap_inbound_inv:
  assumes "sap_inv x"
  shows "sap_inv (sap_inbound wo mi x)"
proof -
  obtain q l where q: "next_inbound (wo_codec wo) (sx_link x) = (q, l)" by force
  have s: "link_ok l \<and> reports_of (fl_log l) = reports_of (fl_log (sx_link x))" using next_inbound_spec [OF q] assms by (simp add: sap_inv_def)
  show ?thesis
  proof (cases q)
    case (LOk m)
    obtain a l1 where a: "link_answer (wo_codec wo) (wo_node wo) (round_registration wo mi) (mi_now mi) m l = (a, l1)" by force
    from link_answer_spec [OF a _ round_registration_kind] s assms show ?thesis
      by (auto simp: sap_inbound_def q LOk a sap_inv_def split: link_result.split bool.split)
  qed (use q s assms in \<open>auto simp: sap_inbound_def sap_inv_def\<close>)
qed

lemma sap_step_inv: "sap_inv x \<Longrightarrow> sap_inv (sap_step wo r x)"
proof -
  assume "sap_inv x"
  then have "sap_inv (sap_drain (wo_codec wo) (round_registration wo (fst r)) (sap_connect wo (fst r) x))"
    by (intro sap_drain_inv sap_connect_inv round_registration_kind)
  then show ?thesis by (simp add: sap_step_def Let_def sap_message_inv sap_tick_inv sap_inbound_inv sap_drain_inv split: sap_round.split)
qed

lemma sap_run_inv: "sap_inv (sap_run wo rs (sap_start cfg attempts))"
proof (induction rs rule: rev_induct)
  case Nil
  show ?case by (simp add: sap_run_def sap_start_def sap_inv_def fusion_link_new_def link_ok_def fl_connected_def)
next
  case (snoc r rs)
  then show ?case by (simp add: sap_run_def sap_step_inv)
qed

lemma sap_step_max: "sx_max (sap_step wo r x) = sx_max x"
proof -
  have "sx_max (sap_connect wo mi x) = sx_max x" "sx_max (sap_drain codec reg x) = sx_max x" "sx_max (sap_push m x) = sx_max x"
    "sx_max (sap_tick wo mi x) = sx_max x" "sx_max (sap_inbound wo mi x) = sx_max x" for mi codec reg m x
    by (simp_all add: sap_connect_def sap_drain_def sap_push_def sap_tick_def sap_inbound_def Let_def
        split: prod.split bool.split link_result.split)
  moreover from this have "sx_max (sap_message wo mi payload x) = sx_max x" for mi payload x
    by (simp add: sap_message_def Let_def split: prod.split bool.split sum.split option.split)
  ultimately show ?thesis by (simp add: sap_step_def Let_def split: sap_round.split)
qed

lemma sap_run_max: "sx_max (sap_run wo rs (sap_start cfg attempts)) = max (sc_buffer_max cfg) 1"
proof (induction rs rule: rev_induct)
  case Nil
  show ?case by (simp add: sap_run_def sap_start_def)
next
  case (snoc r rs)
  then show ?case by (simp add: sap_run_def sap_step_max)
qed

section \<open>Properties\<close>

text \<open>C24. Whatever the network and the fusion node do, every connection begins with the registration and carries nothing else from this node
  until it is accepted, and nothing after a refusal; the reports on the wire and then those that wait are reports in the order
  in which they were made, each one once, and the counters tell how many were delivered and how many the bounded buffer dropped.\<close>

theorem sapient_egress_protocol:
  shows "phase_of (fl_log (sx_link (sap_run wo rs (sap_start cfg attempts)))) \<noteq> None
    \<and> subseq (reports_of (fl_log (sx_link (sap_run wo rs (sap_start cfg attempts)))) @ sx_buffer (sap_run wo rs (sap_start cfg attempts)))
        (sx_made (sap_run wo rs (sap_start cfg attempts)))
    \<and> length (sx_buffer (sap_run wo rs (sap_start cfg attempts))) \<le> max (sc_buffer_max cfg) 1
    \<and> sx_delivered (sx_metrics (sap_run wo rs (sap_start cfg attempts)))
        = of_nat (length (reports_of (fl_log (sx_link (sap_run wo rs (sap_start cfg attempts))))))
    \<and> sx_delivered (sx_metrics (sap_run wo rs (sap_start cfg attempts))) + sx_gap_dropped (sx_metrics (sap_run wo rs (sap_start cfg attempts)))
        + of_nat (length (sx_buffer (sap_run wo rs (sap_start cfg attempts)))) = of_nat (length (sx_made (sap_run wo rs (sap_start cfg attempts))))"
  using sap_run_inv [of wo rs cfg attempts] sap_run_max [of wo rs cfg attempts]
  by (simp add: sap_inv_def link_ok_def algebra_simps)

text \<open>The identifiers: what \<open>encode\<close> makes has the shape that \<open>is_valid\<close> asks for, and says the time and the randomness.\<close>

lemma ULID_ALPHABET_facts:
  "length ULID_ALPHABET = 32" "distinct ULID_ALPHABET" "list_all (\<lambda>c. \<not> is_lower c) ULID_ALPHABET"
  "list_all (\<lambda>c. (of_char c :: int) \<le> 55) (take 8 ULID_ALPHABET)"
  by code_simp+

definition ulid_digit :: "128 word \<Rightarrow> nat \<Rightarrow> nat" where
  "ulid_digit v i = unat (take_bit 5 (drop_bit (5 * i) v))"

lemma ulid_digit_nat: "ulid_digit v i = take_bit 5 (drop_bit (5 * i) (unat v))"
  unfolding ulid_digit_def by (simp only: unsigned_take_bit_eq unat_drop_bit_eq)

lemma ulid_digit_bound: "ulid_digit v i < 32"
  using take_bit_nat_less_exp [of 5 "drop_bit (5 * i) (unat v)"] by (simp add: ulid_digit_nat)

lemma ulid_top_digit: "ulid_digit v 25 < 8"
proof -
  have "drop_bit 125 (unat v) < 8"
    using unsigned_less [of v, where 'a = nat] by (simp add: drop_bit_eq_div div_less_iff_less_mult)
  then have "take_bit 5 (drop_bit 125 (unat v)) < 8" using take_bit_nat_less_eq_self by (rule le_less_trans [rotated])
  then show ?thesis by (simp add: ulid_digit_nat)
qed

lemma ulid_encode_valid: "ulid_is_valid (ulid_encode millis random80)"
proof -
  let ?c = "\<lambda>i. ULID_ALPHABET ! ulid_digit (ulid_value millis random80) i"
  have e: "ulid_encode millis random80 = map ?c (rev [0..<26])" by (simp add: ulid_encode_def ulid_digit_def)
  have m: "?c i \<in> set ULID_ALPHABET \<and> \<not> is_lower (?c i)" for i
    using ULID_ALPHABET_facts(1,3) ulid_digit_bound [of "ulid_value millis random80" i] by (auto simp: list_all_iff intro!: nth_mem)
  have "?c 25 = take 8 ULID_ALPHABET ! ulid_digit (ulid_value millis random80) 25" using ulid_top_digit by simp
  also have "\<dots> \<in> set (take 8 ULID_ALPHABET)" using ulid_top_digit by (intro nth_mem) (simp add: ULID_ALPHABET_facts(1))
  finally have "(of_char (?c 25) :: int) \<le> 55" using ULID_ALPHABET_facts(4) by (simp only: list_all_iff)
  moreover have "rev [0..<26] = 25 # rev [0..<25]" by code_simp
  ultimately show ?thesis using m by (simp add: ulid_is_valid_def e list_all_iff)
qed

lemma ulid_digits_value:
  assumes "\<And>i. i < 26 \<Longrightarrow> ulid_digit v i = ulid_digit w i"
  shows "v = w"
proof (rule bit_word_eqI)
  fix n assume n: "n < LENGTH(128)"
  then have "n div 5 < 26" by simp
  from assms [OF this] have "take_bit 5 (drop_bit (5 * (n div 5)) v) = take_bit 5 (drop_bit (5 * (n div 5)) w)"
    by (simp only: ulid_digit_def unsigned_word_eqI word_unat_eq_iff)
  then have "bit (take_bit 5 (drop_bit (5 * (n div 5)) v)) (n mod 5) = bit (take_bit 5 (drop_bit (5 * (n div 5)) w)) (n mod 5)" by simp
  then show "bit v n = bit w n" by (simp add: bit_take_bit_iff bit_drop_bit_eq)
qed

lemma ulid_encode_inject:
  "ulid_encode millis r = ulid_encode millis' r' \<longleftrightarrow> take_bit 48 millis = take_bit 48 millis' \<and> take_bit 80 r = take_bit 80 r'"
proof
  assume "ulid_encode millis r = ulid_encode millis' r'"
  then have "ULID_ALPHABET ! ulid_digit (ulid_value millis r) i = ULID_ALPHABET ! ulid_digit (ulid_value millis' r') i" if "i < 26" for i
    using that by (simp add: ulid_encode_def ulid_digit_def)
  then have "ulid_digit (ulid_value millis r) i = ulid_digit (ulid_value millis' r') i" if "i < 26" for i
    using that ULID_ALPHABET_facts(1,2) ulid_digit_bound by (simp add: nth_eq_iff_index_eq)
  then have v: "ulid_value millis r = ulid_value millis' r'" by (rule ulid_digits_value)
  have b: "bit (ulid_value a c) n \<longleftrightarrow> (if n < 80 then bit c n else n < 128 \<and> bit a (n - 80))" for a c n
    by (auto simp: ulid_value_def bit_or_iff bit_push_bit_iff bit_take_bit_iff bit_ucast_iff possible_bit_def dest: bit_imp_le_length)
  show "take_bit 48 millis = take_bit 48 millis' \<and> take_bit 80 r = take_bit 80 r'"
  proof
    show "take_bit 48 millis = take_bit 48 millis'"
    proof (rule bit_word_eqI)
      fix n assume "n < LENGTH(64)"
      show "bit (take_bit 48 millis) n = bit (take_bit 48 millis') n"
        using b [of millis r "n + 80"] b [of millis' r' "n + 80"] v by (auto simp: bit_take_bit_iff)
    qed
    show "take_bit 80 r = take_bit 80 r'"
    proof (rule bit_word_eqI)
      fix n assume "n < LENGTH(128)"
      show "bit (take_bit 80 r) n = bit (take_bit 80 r') n"
        using b [of millis r n] b [of millis' r' n] v by (auto simp: bit_take_bit_iff)
    qed
  qed
qed (simp add: ulid_encode_def ulid_value_def)

text \<open>The table of objects: as many entries as keys in the queue, within its bound, and a second report of an object has its first
  identifier.\<close>

definition objects_ok :: "sap_mapper \<Rightarrow> bool" where
  "objects_ok mp \<longleftrightarrow> distinct (mp_order mp) \<and> set (mp_order mp) = dom (mp_objects mp) \<and> length (mp_order mp) \<le> MAX_OBJECTS"

lemma object_id_ok: "objects_ok mp \<Longrightarrow> objects_ok (snd (object_id fresh key mp))"
proof (cases "mp_objects mp key")
  case None
  assume a: "objects_ok mp"
  then have k: "key \<notin> set (mp_order mp)" using None by (auto simp: objects_ok_def)
  show ?thesis
  proof (cases "MAX_OBJECTS \<le> length (mp_order mp)")
    case True
    then obtain x xs where "mp_order mp = x # xs" by (cases "mp_order mp") (auto simp: MAX_OBJECTS_def)
    with a k None True show ?thesis by (auto simp: object_id_def objects_ok_def Let_def)
  qed (use a k None in \<open>auto simp: object_id_def objects_ok_def Let_def\<close>)
qed (simp add: object_id_def)

lemma object_id_again: "object_id fresh key mp = (i, mp') \<Longrightarrow> object_id fresh' key mp' = (i, mp')"
  by (auto simp: object_id_def Let_def split: option.splits if_splits list.splits)

text \<open>A configuration that is accepted has a key of 32 bytes, a buffer, and a site that its status reports give as a valid position.\<close>

lemma sapient_egress_validated:
  assumes "sapient_egress_validate kr cfg = Inr ()"
  shows "0 < sc_buffer_max cfg \<and> (\<exists>k. egress_verifying_key kr cfg = Inr k \<and> length k = 32 \<and> kr_valid kr k)
    \<and> (\<forall>s. sc_location cfg = Some s \<and> is_finite (si_alt_m s)
         \<longrightarrow> wgs84 (degrees_location (si_lat s) (si_lon s) (si_alt_m s)) = Some (si_lat s, si_lon s, si_alt_m s))"
proof -
  have c: "0 < sc_buffer_max cfg" "site_ok (sc_location cfg)" "\<exists>k. egress_verifying_key kr cfg = Inr k"
    using assms by (auto simp: sapient_egress_validate_def split: if_splits sum.splits)
  have "length k = 32 \<and> kr_valid kr k" if "egress_verifying_key kr cfg = Inr k" for k
    using that by (auto simp: egress_verifying_key_def split: if_splits sum.splits)
  moreover have "wgs84 (degrees_location (si_lat s) (si_lon s) (si_alt_m s)) = Some (si_lat s, si_lon s, si_alt_m s)"
    if "sc_location cfg = Some s" "is_finite (si_alt_m s)" for s
  proof -
    have w: "f64_within (f64_of_int (- 90)) (f64_of_int 90) (si_lat s)" "f64_within (f64_of_int (- 180)) (f64_of_int 180) (si_lon s)"
      using c(2) that(1) by (simp_all add: site_ok_def)
    have "f64_of_int (-90) = FNum True 90" "f64_of_int 90 = FNum False 90" "f64_of_int (-180) = FNum True 180" "f64_of_int 180 = FNum False 180"
      using f64_of_int_exact [of "-90"] f64_of_int_exact [of 90] f64_of_int_exact [of "-180"] f64_of_int_exact [of 180] by simp_all
    then have "is_finite (si_lat s)" "is_finite (si_lon s)"
      using f64_within_finite [of True 90 False 90 "si_lat s"] f64_within_finite [of True 180 False 180 "si_lon s"] w by simp_all
    with w that(2) show ?thesis by (simp add: wgs84_def degrees_location_def)
  qed
  ultimately show ?thesis using c by blast
qed

text \<open>What leaves through the egress comes back through the connector: the report of a canonical event that has a location, when a
  connector parses it, becomes an event at exactly that location, at the time the report's envelope gives.\<close>

theorem sapient_relay_roundtrip:
  assumes "egress_detection ee node now ulids ev mp = (Some m, mp')" "canonical_event ev" "sapient_decode (sw_codec sw) frame = Some m"
    "parse_message sw fx frame sp = (sp', Inr (Some e))"
  shows "ev_location e = ev_location ev \<and> canonical_event e \<and> ev_payload e = frame
    \<and> ev_timestamp e = (case sapient_rfc3339 (sw_fmt sw) (case ee_parse_time ee (ev_timestamp ev) of Some ts \<Rightarrow> ts | None \<Rightarrow> now) of Some ts \<Rightarrow> ts | None \<Rightarrow> wall_clock fx)"
proof -
  from assms(1) obtain loc mp1 obj where loc: "ev_location ev = Some loc"
    and m: "sm_content m = Some (CDetectionReport (egress_report (ee_libm ee) mp1 (snd ulids) obj loc ev))"
      "sm_timestamp m = Some (case ee_parse_time ee (ev_timestamp ev) of Some ts \<Rightarrow> ts | None \<Rightarrow> now)"
    by (auto simp: egress_detection_def envelope_def Let_def split: option.splits prod.splits)
  have "location_ok loc" using assms(2) loc by (simp add: canonical_event_def)
  then have "wgs84 (degrees_location (latitude loc) (longitude loc) (altitude_m loc)) = Some (latitude loc, longitude loc, altitude_m loc)"
    by (simp add: wgs84_def degrees_location_def location_ok_def)
  then have "content_position (sw_libm sw) n (CDetectionReport (egress_report (ee_libm ee) mp1 (snd ulids) obj loc ev))
      = Some (latitude loc, longitude loc, altitude_m loc)" for n
    by (simp add: content_position_def reported_position_def egress_report_def)
  with parse_message_event [OF assms(4)] assms(3) m loc show ?thesis by (auto simp: geo_def)
qed

section \<open>Examples\<close>

definition ex_egress_node :: egress_node where
  "ex_egress_node = \<lparr>en_node_id = ''ajar-1'', en_name = ''Ajar'', en_short_name = ''AJAR'', en_status_interval_s = f64_of_int 5, en_location = None\<rparr>"

definition ex_egress_env :: egress_env where
  "ex_egress_env = \<lparr>ee_libm = sw_libm ex_sapient, ee_parse_time = (\<lambda>s. None)\<rparr>"

definition ex_relayed :: "sapient_message option \<times> sap_mapper" where
  "ex_relayed = egress_detection ex_egress_env ex_egress_node \<lparr>st_seconds = 0, st_nanos = 0\<rparr> (''o1'', ''r1'') (built_event ex_builder)
     \<lparr>mp_classification = Map.empty, mp_default = ''Unknown'', mp_objects = Map.empty, mp_order = []\<rparr>"

definition ex_receiver :: sapient_world where
  "ex_receiver = ex_sapient\<lparr>sw_codec := \<lparr>sapient_decode = (\<lambda>bs. fst ex_relayed), sapient_encode = (\<lambda>m. [])\<rparr>\<rparr>"

lemma ex_relayed_parses:
  "case parse_message ex_receiver sapient_effects [2] (sapient_new ''sapient-1'' \<lparr>hostility = None\<rparr>) of (sp', Inr (Some e)) \<Rightarrow> True | _ \<Rightarrow> False"
  by code_simp

theorem sapient_relay_roundtrip_witness:
  "\<exists>sp' e. parse_message ex_receiver sapient_effects [2] (sapient_new ''sapient-1'' \<lparr>hostility = None\<rparr>) = (sp', Inr (Some e))
     \<and> ev_location e = ev_location (built_event ex_builder)"
proof -
  obtain sp' e where e: "parse_message ex_receiver sapient_effects [2] (sapient_new ''sapient-1'' \<lparr>hostility = None\<rparr>) = (sp', Inr (Some e))"
    using ex_relayed_parses by (auto split: prod.splits sum.splits option.splits)
  from parse_message_event [OF e] obtain m where m: "sapient_decode (sw_codec ex_receiver) [2] = Some m" by auto
  then have "ex_relayed = (Some m, snd ex_relayed)" by (simp add: ex_receiver_def prod_eq_iff)
  from sapient_relay_roundtrip [OF this [unfolded ex_relayed_def] buildable_canonical [OF ex_builder_buildable] m e] e show ?thesis by blast
qed

end
