(* ===== verification/Spec2Isabelle.thy ===== *)
theory Spec2Isabelle
  imports Seal Marking Ontology Spool Stream_Framing Store Ais Mavlink Adsb Asterix Klv Gmti S4586 Runtime
    Http_Server Generic Generic_Egress Replay Tak_Relay Sink S4676 Sapient Sapient_Egress
begin

text \<open>
  The Ajar connectors turn the wire formats of sensors (AIS, radar, ADS-B, MAVLink, ASTERIX and
  others) into canonical events, sign them and publish them; consumers verify the seal before they
  decode, and the sink keeps what it accepts in a hash-chained store. This development models the
  Rust implementation under \<open>src/rust\<close> and proves what makes it correct.

  \<^bold>\<open>The path of an event\<close>

  A transport delivers frames (\<open>common/src/stream.rs\<close> splits byte streams). The parser of a connector
  turns a frame into events through the builder of \<open>ajar-connector/src/builder.rs\<close>, which checks the
  contract. The runtime (\<open>common/src/runtime.rs\<close>) stamps the operator's security marking
  (\<open>common/src/marking.rs\<close>), reports what the ontology does not govern (\<open>common/src/ontology.rs\<close>), seals
  the canonical bytes (\<open>ajar-connector/src/seal.rs\<close>) and publishes them; when the link is down they go
  to the spool (\<open>common/src/spool.rs\<close>), which is drained later. The consumer
  (\<open>ajar-connector/src/consumer.rs\<close>) and the sink's store (\<open>sink/src/store.rs\<close>) are at the other end.

  \<^bold>\<open>Theories\<close>

  \<^item> \<open>Prelude\<close>: the parts of Rust's library that the code uses (UTF-8 strings as lists of bytes-sized
    characters, \<open>split\<close>, \<open>trim\<close>, \<open>parse\<close>, big- and little-endian reads, \<open>Result\<close> as a sum with
    \<open>try_bind\<close>). A slice or index that would panic is \<open>None\<close>.
  \<^item> \<open>F64\<close>: IEEE binary64 with rounding to nearest even, its comparisons, \<open>parse::<f64>\<close> and \<open>as\<close> casts.
    The functions of libm are a parameter, the record \<open>libm\<close>.
  \<^item> \<open>Event_Builder\<close>: \<open>builder.rs\<close> and \<open>error.rs\<close>; \<open>build\<close> with every rule and error, in order.
    \<open>canonical_event\<close> is the specification: what \<open>build\<close> returns satisfies it, \<open>build\<close> succeeds exactly
    when the rules hold, and the timestamp scanner accepts exactly its grammar.
  \<^item> \<open>Seal\<close>: \<open>seal.rs\<close>, \<open>canonical.rs\<close>, \<open>consumer.rs\<close>. Ed25519 and the protobuf codec are parameters; what
    is assumed of Ed25519 is \<open>ed25519_correct\<close> (a signature verifies under its own key).
  \<^item> \<open>Marking\<close>, \<open>Ontology_Data\<close>, \<open>Ontology\<close>: \<open>marking.rs\<close>, the vendored \<open>ontology.json\<close>, \<open>ontology.rs\<close> and
    \<open>identity.rs\<close>.
  \<^item> \<open>Codec\<close>: the locale \<open>prefix_codec\<close> of a self-delimiting encoding, interpreted for the records of
    the spool (\<open>records\<close>) and for the two length-prefixed framings (\<open>u16_frames\<close>, \<open>u32le_frames\<close>).
  \<^item> \<open>Spool\<close>: \<open>spool.rs\<close>: segments, the cursor file, recovery of a torn tail, the size bound, \<open>peek\<close> and
    \<open>advance\<close>; each operation refines the one of a first-in-first-out queue.
  \<^item> \<open>Stream_Framing\<close>: \<open>stream.rs\<close>; a line read in chunks is the line read whole.
  \<^item> \<open>Store\<close>: \<open>store.rs\<close>; the audit succeeds exactly on an intact chain. SHA-256 is a parameter.
  \<^item> \<open>Runtime\<close>: \<open>runtime.rs\<close>; the outcomes of the broker and of the disk are arguments of each step, so a
    theorem about all runs is a theorem about all failures.
  \<^item> \<open>Connector\<close>: what the parsers share, and the locale \<open>frame_parser\<close>, the contract between a parser and
    the runtime (the trait \<open>FrameParser\<close>): interpreted for every connector, as \<open>ais_frames\<close>, \<open>mav_frames\<close>,
    \<open>adsb_frames\<close>, \<open>asterix_frames\<close>, \<open>klv_frames\<close>, \<open>gmti_frames\<close>, \<open>s4586_frames\<close>, \<open>generic_frames\<close>, \<open>cot_frames\<close>,
    \<open>s4676_frames\<close> and \<open>sapient_parses\<close>.
  \<^item> \<open>Carry\<close>: the bounded carry buffer and the bounded cache, as the locales \<open>carry_buffer\<close> and
    \<open>trimmed_buffer\<close> (a sublocale of the former); interpreted for the buffers of the AIS, MAVLink and
    ADS-B connectors.
  \<^item> \<open>Ais_Bits\<close>, \<open>Ais_Cache\<close>, \<open>Ttm\<close>, \<open>Ais\<close>: the connector \<open>ais-nmea\<close>.
  \<^item> \<open>Mav_Messages\<close>, \<open>Mavlink\<close>: the connector \<open>mavlink\<close>.
  \<^item> \<open>Adsb\<close>: the connector \<open>adsb\<close>; its cache is compared with what the last line of an aircraft says in each column.
  \<^item> \<open>Ast_Wire\<close>, \<open>Ast_Categories\<close>, \<open>Asterix\<close>: the connector \<open>asterix\<close>, with its five categories.
  \<^item> \<open>Klv\<close>, \<open>Gmti\<close>, \<open>S4586\<close>: the connectors \<open>klv\<close>, \<open>gmti\<close> and \<open>stanag4586\<close>; the readers are shown to invert encoders, and the
    events to be at the positions of the messages.
  \<^item> \<open>Str_Ops\<close>, \<open>Json\<close>, \<open>F64_Text\<close>, \<open>Xml\<close>: more of the libraries: text operations, JSON values and ordered maps (the locale \<open>key_map\<close>,
    interpreted as \<open>btree\<close>), the printing of doubles, and what an XML reader yields.
  \<^item> \<open>Generic\<close>, \<open>Generic_Egress\<close>: the config-driven connector \<open>generic\<close> and its egress \<open>generic-egress\<close>: what is admitted at start, the
    mapping of frames and of events, the window of repeated identifiers, the deliveries.
  \<^item> \<open>Http_Server\<close>, \<open>Replay\<close>: two transports of \<open>common\<close>: the HTTP server as a step relation of its connections, and pcap files.
  \<^item> \<open>Tak_Relay\<close>: the egress \<open>tak-egress\<close>, a bounded buffer before a link that fails.
  \<^item> \<open>Cot\<close>, \<open>Cot_Out\<close>, \<open>Sink\<close>: the connector \<open>tak-cot\<close> (the locale \<open>follows_attribute\<close>, interpreted for each field, says that
    a field is the last value of its attribute), the map view of the sink, which that connector reads back, and the sink program.
  \<^item> \<open>S4676\<close>: the connector \<open>stanag4676\<close>; a document in the order of the schema becomes the events it says.
  \<^item> \<open>Sapient_Wire\<close>, \<open>Sapient\<close>, \<open>Sapient_Egress\<close>: the framing of \<open>sapient-wire\<close> (\<open>sapient_frames\<close>, a \<open>prefix_codec\<close>), the connector \<open>sapient\<close>
    with its acceptor, and the egress \<open>sapient-egress\<close>: a link that registers before it reports, checked against an automaton of
    what may cross a connection, and the buffer before it; what the egress writes is also shown to be read back by the connector.

  This theory composes them: it follows a feed of frames through a parser and the runtime to the
  messages on the wire.

  \<^bold>\<open>Representation\<close>

  A \<open>Mutex\<close> around a parser's state is explicit state passing: a parser is called by one task. Clocks
  and UUIDs are the record \<open>effects\<close>, one per call. Counters are 64-bit words and wrap as \<open>AtomicU64\<close>
  does, but for the two of the SAPIENT acceptor, which are natural numbers. Lengths are natural numbers. Texts of error
  messages are left out where only their existence matters.

  Code that is not in the repository is a parameter: Ed25519 and SHA-256, the protobuf codecs (\<open>rc_encode\<close>, \<open>decode\<close>,
  \<open>sapient_codec\<close>), the mathematics library (\<open>libm\<close>, \<open>libm32\<close>), the \<open>time\<close> crate (\<open>fmt\<close>, of which \<open>formats_rfc3339\<close> says that it
  renders RFC 3339, and \<open>time_at\<close>), \<open>serde_json\<close> (\<open>from_str\<close>, \<open>to_text\<close>), \<open>quick_xml\<close> (\<open>xml\<close>), \<open>hex\<close>, the Unicode case tables
  (\<open>upper\<close>, \<open>lower\<close>) and the order of a hash table (\<open>victim\<close>). \<open>checked\<close> tells whether a build checks arithmetic for overflow.

  \<^bold>\<open>Termination and fuel\<close>

  All loops are total functions with a measure, but for these: \<open>scan\<close> of \<open>Codec\<close> takes the length of
  its input as fuel, and every item has at least one byte (\<open>scan_complete\<close>); \<open>ancestor_from\<close> of
  \<open>Ontology\<close> takes the number of types as fuel and yields \<open>None\<close> on a cycle, where the code would not
  return; on the vendored ontology the check is proved to return.

  \<^bold>\<open>Not modelled\<close>

  The other transports (UDP, TCP, DDS, MQTT, WebSocket, serial, REST, files), the NATS client, TLS, the health endpoint and the
  command lines are input and output around the code above. The TOML sections of the configurations are decoded by \<open>serde\<close>; the
  checks on what they hold are modelled where they are the component's own. The diagnostic tool \<open>doctor\<close>, the launcher \<open>up\<close> and the
  synthetic feeds probe networks or make test data. The limits of two seconds on the last drain of an egress, and what a power
  failure takes from the caches of the system, are outside the models. The C++, Go and Python libraries are separate
  implementations of the contract.
\<close>

section \<open>From a feed to the wire\<close>

text \<open>A run with the link up: every publish succeeds.\<close>

definition live :: publish_outcome where
  "live = \<lparr>po_connected = True, po_published = True, po_append = AppendOk\<rparr>"

definition live_frames :: "('e + event list) list \<Rightarrow> 'e run_action list" where
  "live_frames results = map (\<lambda>r. Frame (map_sum (\<lambda>err. err) (map (\<lambda>e. (e, live))) r)) results"

definition feed_events :: "('e + event list) list \<Rightarrow> event list" where
  "feed_events results = concat (map (case_sum (\<lambda>err. []) (\<lambda>es. es)) results)"

text \<open>The run sends one message for each event of the feed, in order; the events are canonical and of
  the source \<open>src\<close>, and each message verifies to the canonical bytes of its stamped event.\<close>

definition delivers :: "run_config \<Rightarrow> str \<Rightarrow> ('e + event list) list \<Rightarrow> bool" where
  "delivers cfg src results \<longleftrightarrow>
     rt_sent (run cfg (live_frames results) (run_start None)) = map (message_of cfg) (feed_events results)
     \<and> list_all (\<lambda>e. canonical_event e \<and> ev_source_id e = src
         \<and> verify (rc_scheme cfg) (snd (message_of cfg e)) (ed_verifying_key (rc_scheme cfg) (rc_signing_key cfg))
             = Inr (canonical_bytes (rc_encode cfg) (stamp cfg e))) (feed_events results)"

lemma handle_live: "rt_sent (handle_event cfg live e st) = rt_sent st @ [message_of cfg e]"
  by (simp add: handle_event_def publish_or_spool_def live_def Let_def report_sent message_of_def)

lemma handle_events_live:
  "rt_sent (handle_events cfg (map (\<lambda>e. (e, live)) es) st) = rt_sent st @ map (message_of cfg) es"
  by (induction es arbitrary: st) (simp_all add: handle_live)

lemma run_live: "rt_sent (run cfg (live_frames results) st) = rt_sent st @ map (message_of cfg) (feed_events results)"
proof (induction results arbitrary: st)
  case (Cons r results)
  have "rt_sent (on_frame cfg (map_sum (\<lambda>err. err) (map (\<lambda>e. (e, live))) r) st)
      = rt_sent st @ map (message_of cfg) (case_sum (\<lambda>err. []) (\<lambda>es. es) r)"
    by (cases r) (simp_all add: on_frame_def Let_def handle_events_live)
  with Cons show ?case by (simp add: live_frames_def feed_events_def)
qed (simp add: live_frames_def feed_events_def)

context frame_parser
begin

lemma feed_delivered:
  assumes "ed25519_correct (rc_scheme cfg)"
  shows "delivers cfg (source st) (parse_feed parse fs st)"
proof -
  have "canonical_event e \<and> ev_source_id e = source st" if "e \<in> set (feed_events (parse_feed parse fs st))" for e
    using that parse_feed_sound [of _ fs st e] by (auto simp: feed_events_def split: sum.splits)
  then show ?thesis
    using verify_seal [OF assms] by (simp add: delivers_def run_live list_all_iff message_of_def seal_event_def) (simp add: run_start_def)
qed

end

text \<open>C1. With the link up, whatever frames reach the parsers of the eleven modelled feeds, the
  runtime sends exactly one message for each event they produce, in order; every event is canonical
  and carries the source id of its connector, and every message verifies to the canonical bytes of
  its stamped event.\<close>

theorem end_to_end:
  assumes "ed25519_correct (rc_scheme cfg)"
  shows "delivers cfg (ap_source_id a) (parse_feed (ais_parse lm) fs a)
    \<and> delivers cfg (ma_source_id m) (parse_feed mav_parse gs m)
    \<and> delivers cfg (ad_source_id d) (parse_feed (\<lambda>fx frame st. Some (adsb_parse fx frame st)) hs d)
    \<and> delivers cfg (ax_source_id x) (parse_feed (asterix_parse lm) ks x)
    \<and> delivers cfg (kp_source_id k) (parse_feed (klv_parse fmt) ls k)
    \<and> delivers cfg (gp_source_id g) (parse_feed gmti_parse ms g)
    \<and> delivers cfg (s4_source_id s) (parse_feed (s4586_parse lm32 fmt2) ns s)
    \<and> delivers cfg (gn_source_id p) (parse_feed (generic_parse checked from_str to_text fmt) ps p)
    \<and> delivers cfg (ct_source_id c) (parse_feed (cot_parse xml) qs c)
    \<and> delivers cfg (s7_source_id t) (parse_feed (s4676_parse time_at lm xml2) rs t)
    \<and> delivers cfg (sa_source_id v) (parse_feed (sapient_parse sw) us v)"
  by (intro conjI ais_frames.feed_delivered [OF assms] mav_frames.feed_delivered [OF assms] adsb_frames.feed_delivered [OF assms]
      asterix_frames.feed_delivered [OF assms] klv_frames.feed_delivered [OF assms] gmti_frames.feed_delivered [OF assms]
      s4586_frames.feed_delivered [OF assms] generic_frames.feed_delivered [OF assms] cot_frames.feed_delivered [OF assms]
      s4676_frames.feed_delivered [OF assms] sapient_parses.feed_delivered [OF assms])

theorem end_to_end_witness:
  "delivers ex_run_config (ap_source_id ex_ais) (parse_feed (ais_parse flat_libm) [(ex_effects, as_bytes ex_text)] ex_ais)
    \<and> delivers ex_run_config (ma_source_id ex_mav) (parse_feed mav_parse [(mav_effects, ex_heartbeat), (mav_effects, ex_global)] ex_mav)
    \<and> delivers ex_run_config (ad_source_id ex_adsb)
        (parse_feed (\<lambda>fx frame st. Some (adsb_parse fx frame st)) [(adsb_effects, sbs_fix)] ex_adsb)
    \<and> delivers ex_run_config (ax_source_id ex_asterix) (parse_feed (asterix_parse flat_libm) [(ast_effects, ex_datagram)] ex_asterix)
    \<and> delivers ex_run_config (kp_source_id ex_klv) (parse_feed (klv_parse ex_format) [(klv_effects, ex_klv_set)] ex_klv)
    \<and> delivers ex_run_config (gp_source_id ex_gmti) (parse_feed gmti_parse [(gmti_effects, ex_packet)] ex_gmti)
    \<and> delivers ex_run_config (s4_source_id ex_s4586)
        (parse_feed (s4586_parse s4586_libm s4586_format) [(s4586_effects, s4586_wrap ex_message)] ex_s4586)
    \<and> delivers ex_run_config (gn_source_id ex_generic)
        (parse_feed (generic_parse False no_json no_text ex_format) [(generic_effects, as_bytes (join '';'' ex_row))] ex_generic)
    \<and> delivers ex_run_config (ct_source_id ex_cot) (parse_feed (cot_parse ex_cot_xml) [(cot_effects, [])] ex_cot)
    \<and> delivers ex_run_config (s7_source_id ex_s4676) (parse_feed (s4676_parse ex_time_at flat_libm ex_s4676_xml) [(s4676_effects, [])] ex_s4676)
    \<and> delivers ex_run_config (sa_source_id ex_run) (parse_feed (sapient_parse ex_sapient) [(sapient_effects, [2])] ex_run)"
  using toy_scheme_correct by (intro end_to_end) (simp add: ex_run_config_def)

end
